(* ===== verification/C_Prelude.thy ===== *)
theory C_Prelude
  imports Main "HOL-Library.Word" "HOL-Library.Monad_Syntax"
begin

text \<open>
  Shared vocabulary for the C code of the repository.

  A computation that may run into undefined behaviour (signed overflow, an access
  outside an object, a read of indeterminate memory, a null dereference) returns an
  \<^typ>\<open>'a option\<close>: \<open>None\<close> says that the C program has no defined meaning from there
  on. Errors the code reports itself (\<open>-1\<close>, \<open>NULL\<close>, an error code) are ordinary
  values under \<open>Some\<close>.

  C's \<open>int\<close> is modelled by \<^typ>\<open>int\<close> together with the range check \<open>i32\<close>, which every
  addition or multiplication the code does on \<open>int\<close> goes through. Unsigned words are
  HOL words. A byte string is a \<^typ>\<open>string\<close>, \<open>char\<close> is unsigned as in the ARM ABI the
  device uses.
\<close>

unbundle bit_operations_syntax

named_theorems c_simps \<open>evaluation of the C helper functions on known arguments\<close>
named_theorems ub_free \<open>operations that are defined, and their result\<close>

section \<open>Machine integers\<close>

abbreviation (input) INT32_MAX :: int where "INT32_MAX \<equiv> 2147483647"
abbreviation (input) INT32_MIN :: int where "INT32_MIN \<equiv> - 2147483648"
abbreviation (input) INT64_MAX :: int where "INT64_MAX \<equiv> 9223372036854775807"
abbreviation (input) INT64_MIN :: int where "INT64_MIN \<equiv> - 9223372036854775808"

definition in_i32 :: "int \<Rightarrow> bool" where
  "in_i32 x \<longleftrightarrow> INT32_MIN \<le> x \<and> x \<le> INT32_MAX"

definition in_i64 :: "int \<Rightarrow> bool" where
  "in_i64 x \<longleftrightarrow> INT64_MIN \<le> x \<and> x \<le> INT64_MAX"

text \<open>The result of an arithmetic operation on C's \<open>int\<close>: undefined when out of range.\<close>

definition i32 :: "int \<Rightarrow> int option" where
  "i32 x = (if in_i32 x then Some x else None)"

lemma i32_ok [simp, ub_free]: "INT32_MIN \<le> x \<Longrightarrow> x \<le> INT32_MAX \<Longrightarrow> i32 x = Some x"
  by (simp add: i32_def in_i32_def)

lemma i32_eq_Some [simp]: "i32 x = Some y \<longleftrightarrow> in_i32 x \<and> y = x"
  by (auto simp: i32_def)

lemma i32_eq_None [simp]: "i32 x = None \<longleftrightarrow> \<not> in_i32 x"
  by (auto simp: i32_def)

text \<open>The number of bits of a number.\<close>

fun bit_len :: "nat \<Rightarrow> nat" where
  "bit_len n = (if n = 0 then 0 else Suc (bit_len (n div 2)))"

declare bit_len.simps [simp del]

lemma bit_len_bounds: "0 < n \<Longrightarrow> 2 ^ (bit_len n - 1) \<le> n \<and> n < 2 ^ bit_len n \<and> 0 < bit_len n"
proof (induction n rule: bit_len.induct)
  case (1 n)
  show ?case
  proof (cases "n = 1")
    case True
    then show ?thesis by (simp add: bit_len.simps [of "Suc 0"] bit_len.simps [of 0])
  next
    case False
    then have h: "0 < n div 2" using 1 by auto
    then have "2 ^ (bit_len (n div 2) - 1) \<le> n div 2" "n div 2 < 2 ^ bit_len (n div 2)"
      "0 < bit_len (n div 2)" using 1 by auto
    moreover have "bit_len n = Suc (bit_len (n div 2))" using 1 by (simp add: bit_len.simps [of n])
    ultimately show ?thesis by (cases "bit_len (n div 2)") auto
  qed
qed

section \<open>Memory blocks\<close>

text \<open>
  A block of bytes is a list of \<^typ>\<open>char option\<close>: \<open>None\<close> is a byte that was allocated
  but never written.
\<close>

type_synonym mem = "char option list"

definition mem_write :: "mem \<Rightarrow> int \<Rightarrow> string \<Rightarrow> mem option" where
  "mem_write m off bs =
     (if 0 \<le> off \<and> off + int (length bs) \<le> int (length m)
      then Some (take (nat off) m @ map Some bs @ drop (nat off + length bs) m)
      else None)"

lemma length_mem_write:
  "mem_write m off bs = Some m' \<Longrightarrow> length m' = length m"
  by (auto simp: mem_write_def split: if_splits)

lemma mem_write_ok [ub_free]:
  "0 \<le> off \<Longrightarrow> off + int (length bs) \<le> int (length m) \<Longrightarrow>
   mem_write m off bs = Some (take (nat off) m @ map Some bs @ drop (nat off + length bs) m)"
  by (simp add: mem_write_def)

section \<open>Characters and C strings\<close>

abbreviation (input) NUL :: char where "NUL \<equiv> CHR 0x00"

definition code_of :: "char \<Rightarrow> nat" where
  "code_of c = of_char c"

lemma code_of_lt [simp]: "code_of c < 256"
  by (simp add: code_of_def)

lemma code_of_inject [simp]: "code_of c = code_of d \<longleftrightarrow> c = d"
  by (simp add: code_of_def)

lemma char_of_code_of [simp]: "char_of (code_of c) = c"
  by (simp add: code_of_def)

lemma code_of_char_of [simp]: "n < 256 \<Longrightarrow> code_of (char_of n) = n"
  by (simp add: code_of_def)

definition isspace :: "char \<Rightarrow> bool" where
  "isspace c \<longleftrightarrow> c = CHR '' '' \<or> c = CHR 0x09 \<or> c = CHR 0x0A \<or> c = CHR 0x0B
     \<or> c = CHR 0x0C \<or> c = CHR 0x0D"

definition isdigit :: "char \<Rightarrow> bool" where
  "isdigit c \<longleftrightarrow> 48 \<le> code_of c \<and> code_of c \<le> 57"

definition tolower :: "char \<Rightarrow> char" where
  "tolower c = (if 65 \<le> code_of c \<and> code_of c \<le> 90 then char_of (code_of c + 32) else c)"

text \<open>The string a pointer to \<open>bs\<close> denotes: everything before the first NUL.\<close>

definition cstr :: "string \<Rightarrow> string" where
  "cstr bs = takeWhile (\<lambda>c. c \<noteq> NUL) bs"

text \<open>\<open>*p\<close> for a NUL-terminated string given without its terminator.\<close>

definition c_hd :: "string \<Rightarrow> char" where
  "c_hd s = (case s of [] \<Rightarrow> NUL | c # _ \<Rightarrow> c)"

text \<open>\<open>strncmp (a, b, n) == 0\<close> and \<open>strncasecmp (a, b, n) == 0\<close>.\<close>

fun strneq :: "nat \<Rightarrow> string \<Rightarrow> string \<Rightarrow> bool" where
  "strneq 0 a b = True"
| "strneq (Suc n) a b =
     (c_hd a = c_hd b \<and> (c_hd a = NUL \<or> strneq n (tl a) (tl b)))"

definition strncaseeq :: "nat \<Rightarrow> string \<Rightarrow> string \<Rightarrow> bool" where
  "strncaseeq n a b = strneq n (map tolower a) (map tolower b)"

text \<open>\<open>strchr (s, c) != NULL\<close>: the terminator counts as a member.\<close>

definition strchr :: "string \<Rightarrow> char \<Rightarrow> bool" where
  "strchr s c \<longleftrightarrow> c \<in> set s \<or> c = NUL"

fun strstr :: "string \<Rightarrow> string \<Rightarrow> bool" where
  "strstr [] p = (p = [])"
| "strstr (c # s) p = (take (length p) (c # s) = p \<or> strstr s p)"

lemma c_hd_simps [simp]: "c_hd [] = NUL" "c_hd (c # s) = c"
  by (simp_all add: c_hd_def)

lemma cstr_Nil [simp]: "cstr [] = []"
  by (simp add: cstr_def)

lemma cstr_Cons: "cstr (c # s) = (if c = NUL then [] else c # cstr s)"
  by (simp add: cstr_def)

lemma cstr_id: "NUL \<notin> set s \<Longrightarrow> cstr s = s"
  by (induction s) (auto simp: cstr_Cons)

lemma cstr_append: "NUL \<notin> set s \<Longrightarrow> cstr (s @ t) = s @ cstr t"
  by (induction s) (auto simp: cstr_Cons)

lemma NUL_notin_cstr [simp]: "NUL \<notin> set (cstr s)"
  by (induction s) (auto simp: cstr_Cons)

lemma strneq_refl [simp]: "strneq n a a"
  by (induction n arbitrary: a) auto

lemma isspace_not_NUL [simp]: "\<not> isspace NUL"
  by (simp add: isspace_def)

lemma isdigit_not_NUL [simp]: "\<not> isdigit NUL"
  by (simp add: isdigit_def code_of_def)

lemma strstr_prefix: "strstr (p @ s) p"
proof (cases "p @ s")
  case (Cons a l)
  have "take (length p) (p @ s) = p" by simp
  then show ?thesis unfolding Cons by simp
qed simp

lemma takeWhile_append_stop:
  "\<forall>x\<in>set xs. P x \<Longrightarrow> \<not> P y \<Longrightarrow> takeWhile P (xs @ y # ys) = xs"
  by (induction xs) auto

lemma dropWhile_append_stop:
  "\<forall>x\<in>set xs. P x \<Longrightarrow> \<not> P y \<Longrightarrow> dropWhile P (xs @ y # ys) = y # ys"
  by (induction xs) auto

section \<open>Calls that move bytes\<close>

text \<open>
  The answers of \<open>read\<close> or \<open>write\<close> by the number of the call: \<open>None\<close> an error, \<open>Some n\<close> at most \<open>n\<close>
  bytes. \<open>progress\<close>: no call fails, and each moves at least one byte.
\<close>

definition progress :: "(nat \<Rightarrow> nat option) \<Rightarrow> bool" where
  "progress f \<longleftrightarrow> (\<forall>i. \<exists>n>0. f i = Some n)"

section \<open>Option monad\<close>

lemma bind_eq_Some_iff: "(m \<bind> f) = Some y \<longleftrightarrow> (\<exists>x. m = Some x \<and> f x = Some y)"
  by (cases m) auto

end
