(* ===== verification/Printbuf.thy ===== *)
theory Printbuf
  imports C_Prelude
begin

text \<open>
  The growing output buffer of json-c (\<open>json-c/printbuf.c\<close>, \<open>json-c/printbuf.h\<close>).
  \<open>buf\<close> is the allocated block, \<open>bpos\<close> the length of the string in it, \<open>size\<close> the size
  the code believes the block has. The parameter \<open>al\<close> says whether an allocation of so
  many bytes succeeds. The locale \<open>byte_sink\<close> is the contract the rest of json-c relies
  on: a sink that appends; it is interpreted on the three append operations.
\<close>

section \<open>The structure and its operations\<close>

record printbuf =
  buf :: mem
  bpos :: int
  size :: int

text \<open>\<open>printbuf_new\<close>: 32 bytes, none of them written.\<close>

definition printbuf_new :: "(int \<Rightarrow> bool) \<Rightarrow> printbuf option" where
  "printbuf_new al =
     (if al 32 then Some \<lparr>buf = replicate 32 None, bpos = 0, size = 32\<rparr> else None)"

definition printbuf_extend :: "(int \<Rightarrow> bool) \<Rightarrow> printbuf \<Rightarrow> int \<Rightarrow> (int \<times> printbuf) option" where
  "printbuf_extend al p min_size =
     (if size p \<ge> min_size then Some (0, p)
      else do {
        twice \<leftarrow> i32 (size p * 2);
        least \<leftarrow> i32 (min_size + 8);
        let new_size = (if twice < least then least else twice);
        if al new_size
        then Some (0, p\<lparr>buf := buf p @ replicate (nat new_size - length (buf p)) None,
                        size := new_size\<rparr>)
        else Some (-1, p)
      })"

text \<open>
  \<open>printbuf_memappend (p, bs, size)\<close> with \<open>size\<close> the number of bytes of \<open>bs\<close>. The string is
  written together with its terminator; a negative result leaves the buffer as it was.
\<close>

definition printbuf_memappend ::
  "(int \<Rightarrow> bool) \<Rightarrow> printbuf \<Rightarrow> string \<Rightarrow> (int \<times> printbuf) option" where
  "printbuf_memappend al p bs =
     do {
       need \<leftarrow> i32 (bpos p + int (length bs) + 1);
       (r, p) \<leftarrow> (if size p \<le> need then printbuf_extend al p need else Some (0, p));
       if r < 0 then Some (-1, p)
       else do {
         m \<leftarrow> mem_write (buf p) (bpos p) bs;
         m \<leftarrow> mem_write m (bpos p + int (length bs)) [NUL];
         Some (int (length bs), p\<lparr>buf := m, bpos := bpos p + int (length bs)\<rparr>)
       }
     }"

text \<open>The macro \<open>printbuf_memappend_fast\<close> drops the result of the slow path.\<close>

definition printbuf_memappend_fast ::
  "(int \<Rightarrow> bool) \<Rightarrow> printbuf \<Rightarrow> string \<Rightarrow> printbuf option" where
  "printbuf_memappend_fast al p bs =
     do {
       left \<leftarrow> i32 (size p - bpos p);
       if left > int (length bs) then do {
         m \<leftarrow> mem_write (buf p) (bpos p) bs;
         m \<leftarrow> mem_write m (bpos p + int (length bs)) [NUL];
         Some (p\<lparr>buf := m, bpos := bpos p + int (length bs)\<rparr>)
       } else do {
         (r, p) \<leftarrow> printbuf_memappend al p bs;
         Some p
       }
     }"

definition printbuf_memset ::
  "(int \<Rightarrow> bool) \<Rightarrow> printbuf \<Rightarrow> int \<Rightarrow> char \<Rightarrow> int \<Rightarrow> (int \<times> printbuf) option" where
  "printbuf_memset al p offset charvalue len =
     do {
       let offset = (if offset = -1 then bpos p else offset);
       size_needed \<leftarrow> i32 (offset + len);
       (r, p) \<leftarrow> (if size p < size_needed then printbuf_extend al p size_needed else Some (0, p));
       if r < 0 then Some (-1, p)
       else if len < 0 then None
       else do {
         m \<leftarrow> mem_write (buf p) offset (replicate (nat len) charvalue);
         let p = p\<lparr>buf := m\<rparr>;
         Some (0, if bpos p < size_needed then p\<lparr>bpos := size_needed\<rparr> else p)
       }
     }"

text \<open>
  \<open>sprintbuf\<close> on a format whose expansion is \<open>msg\<close>: up to 127 bytes go through the stack
  buffer, more through an allocated copy. The result of the append is ignored.
\<close>

definition sprintbuf ::
  "(int \<Rightarrow> bool) \<Rightarrow> printbuf \<Rightarrow> string \<Rightarrow> (int \<times> printbuf) option" where
  "sprintbuf al p msg =
     (if int (length msg) > 127 \<and> \<not> al (int (length msg) + 1) then Some (-1, p)
      else do {
        (r, p) \<leftarrow> printbuf_memappend al p msg;
        Some (int (length msg), p)
      })"

definition printbuf_reset :: "printbuf \<Rightarrow> printbuf option" where
  "printbuf_reset p =
     do { m \<leftarrow> mem_write (buf p) 0 [NUL]; Some (p\<lparr>buf := m, bpos := 0\<rparr>) }"

text \<open>
  \<open>p->buf\<close> used as a C string: every byte up to the first NUL must have been written.
\<close>

fun read_cstr :: "mem \<Rightarrow> string option" where
  "read_cstr [] = None"
| "read_cstr (None # m) = None"
| "read_cstr (Some c # m) = (if c = NUL then Some [] else map_option (Cons c) (read_cstr m))"

section \<open>Invariant and abstraction\<close>

text \<open>
  The block has the recorded size and the string lies in its written part. \<open>pb_str\<close> is the
  string the buffer stands for.
\<close>

definition pb_inv :: "printbuf \<Rightarrow> bool" where
  "pb_inv p \<longleftrightarrow> int (length (buf p)) = size p \<and> 0 < size p \<and> size p \<le> INT32_MAX
     \<and> 0 \<le> bpos p \<and> bpos p \<le> size p
     \<and> None \<notin> set (take (nat (bpos p)) (buf p))"

definition pb_str :: "printbuf \<Rightarrow> string" where
  "pb_str p = map the (take (nat (bpos p)) (buf p))"

definition pb_terminated :: "printbuf \<Rightarrow> bool" where
  "pb_terminated p \<longleftrightarrow> bpos p < size p \<and> buf p ! nat (bpos p) = Some NUL"

text \<open>
  Room for \<open>n\<close> more bytes: neither the capacity nor the position the code computes on the
  way leaves the range of \<open>int\<close>.
\<close>

definition pb_room :: "nat \<Rightarrow> printbuf \<Rightarrow> bool" where
  "pb_room n p \<longleftrightarrow> pb_inv p \<and> size p < 2 ^ 30 \<and> bpos p + int n + 32 < 2 ^ 29"

section \<open>Appending\<close>

definition pb_put :: "printbuf \<Rightarrow> string \<Rightarrow> printbuf" where
  "pb_put p bs = p\<lparr>buf := take (nat (bpos p)) (buf p) @ map Some bs @ Some NUL
                         # drop (nat (bpos p) + length bs + 1) (buf p),
                   bpos := bpos p + int (length bs)\<rparr>"

lemma pb_put_facts:
  assumes "pb_inv p" and "bpos p + int (length bs) < size p"
  shows "pb_inv (pb_put p bs)" "pb_str (pb_put p bs) = pb_str p @ bs"
    "pb_terminated (pb_put p bs)" "size (pb_put p bs) = size p"
    "bpos (pb_put p bs) = bpos p + int (length bs)"
proof -
  let ?k = "nat (bpos p)"
  have k: "?k + length bs + 1 \<le> length (buf p)" "0 \<le> bpos p"
    using assms by (auto simp: pb_inv_def)
  have take: "take (?k + length bs) (buf (pb_put p bs)) = take ?k (buf p) @ map Some bs"
    using k by (simp add: pb_put_def)
  have pos: "nat (bpos (pb_put p bs)) = ?k + length bs"
    using assms(1) by (simp add: pb_put_def pb_inv_def nat_add_distrib)
  show "pb_inv (pb_put p bs)"
    using assms k take pos by (auto simp: pb_inv_def pb_put_def)
  show "pb_str (pb_put p bs) = pb_str p @ bs"
    unfolding pb_str_def pos take by (simp add: o_def)
  show "pb_terminated (pb_put p bs)"
    using k assms pos by (simp add: pb_terminated_def pb_put_def nth_append)
  show "size (pb_put p bs) = size p" "bpos (pb_put p bs) = bpos p + int (length bs)"
    by (simp_all add: pb_put_def)
qed

lemma two_writes:
  assumes "pb_inv p" and "bpos p + int (length bs) < size p"
  shows "do { m \<leftarrow> mem_write (buf p) (bpos p) bs;
              m \<leftarrow> mem_write m (bpos p + int (length bs)) [NUL];
              f (p\<lparr>buf := m, bpos := bpos p + int (length bs)\<rparr>) }
         = f (pb_put p bs)"
proof -
  let ?k = "nat (bpos p)"
  have k: "?k + length bs + 1 \<le> length (buf p)" "0 \<le> bpos p"
    using assms by (auto simp: pb_inv_def)
  have 1: "nat (bpos p + int (length bs)) = ?k + length bs"
    using assms(1) by (simp add: pb_inv_def nat_add_distrib)
  have 2: "1 + (bpos p + int (length bs)) \<le> int (length (buf p))"
    using assms by (simp add: pb_inv_def)
  show ?thesis
    using k 1 2 by (simp add: mem_write_def pb_put_def drop_drop add.commute)
qed

lemma pb_extend_cases:
  assumes "pb_inv p" "size p < 2 ^ 30" "need + 16 < 2 ^ 29"
  obtains (fits) "need \<le> size p" "printbuf_extend al p need = Some (0, p)"
  | (grown) p' where "size p < need" "printbuf_extend al p need = Some (0, p')"
      "pb_inv p'" "pb_str p' = pb_str p" "bpos p' = bpos p" "need + 8 \<le> size p'" "size p' < 2 ^ 30"
  | (nomem) k where "size p < need" "\<not> al k" "printbuf_extend al p need = Some (-1, p)"
proof (cases "size p \<ge> need")
  case True
  then show ?thesis using fits by (simp add: printbuf_extend_def)
next
  case False
  let ?n = "if size p * 2 < need + 8 then need + 8 else size p * 2"
  let ?p = "p\<lparr>buf := buf p @ replicate (nat ?n - length (buf p)) None, size := ?n\<rparr>"
  have bounds: "need + 8 \<le> ?n" "?n < 2 ^ 30" "size p \<le> ?n"
    using assms False by (auto simp: pb_inv_def)
  have ext: "printbuf_extend al p need = (if al ?n then Some (0, ?p) else Some (-1, p))"
    using assms False by (simp add: printbuf_extend_def pb_inv_def Let_def)
  have "pb_inv ?p" "pb_str ?p = pb_str p"
    using assms(1) bounds by (auto simp: pb_inv_def pb_str_def)
  then show ?thesis
    using ext bounds False grown [of ?p] nomem [of ?n] by (cases "al ?n") auto
qed

text \<open>
  The contract of \<open>printbuf_memappend\<close>: with room for the bytes it is defined, and either
  the string has grown by exactly these bytes, or the allocation failed and nothing changed.
\<close>

lemma printbuf_memappend_cases:
  assumes room: "pb_room n p" and n: "length bs \<le> n"
  obtains (ok) p' where "printbuf_memappend al p bs = Some (int (length bs), p')"
      "pb_str p' = pb_str p @ bs" "pb_terminated p'" "pb_room (n - length bs) p'"
  | (nomem) k where "\<not> al k" "printbuf_memappend al p bs = Some (-1, p)"
proof -
  let ?need = "bpos p + int (length bs) + 1"
  have inv: "pb_inv p" and small: "size p < 2 ^ 30" "?need + 16 < 2 ^ 29" "0 \<le> bpos p"
    using room n by (auto simp: pb_room_def pb_inv_def)
  have need: "INT32_MIN \<le> ?need" "?need \<le> INT32_MAX" using small by simp_all
  have finish: thesis
    if eq: "printbuf_memappend al p bs = Some (int (length bs), pb_put q bs)"
      and q: "pb_inv q" "pb_str q = pb_str p" "bpos q = bpos p" "?need \<le> size q" "size q < 2 ^ 30"
    for q
  proof (rule ok [OF eq])
    have lt: "bpos q + int (length bs) < size q" using q by simp
    note facts = pb_put_facts [OF q(1) lt]
    show "pb_str (pb_put q bs) = pb_str p @ bs" "pb_terminated (pb_put q bs)"
      using facts q by simp_all
    show "pb_room (n - length bs) (pb_put q bs)"
      using facts q room n by (simp add: pb_room_def of_nat_diff)
  qed
  show thesis
  proof (cases "size p \<le> ?need")
    case False
    then have "printbuf_memappend al p bs = Some (int (length bs), pb_put p bs)"
      using two_writes [OF inv, of bs "\<lambda>q. Some (int (length bs), q)"] need
      by (simp add: printbuf_memappend_def)
    then show thesis using finish [of p] inv small False by simp
  next
    case True
    show thesis
    proof (cases rule: pb_extend_cases [OF inv small(1), of ?need al])
      case 1
      then show ?case using small by simp
    next
      case 2
      then have "printbuf_memappend al p bs = Some (int (length bs), pb_put p bs)"
        using two_writes [OF inv, of bs "\<lambda>q. Some (int (length bs), q)"] need True
        by (simp add: printbuf_memappend_def)
      then show thesis using finish [of p] inv small 2 by simp
    next
      case (3 q)
      then have "printbuf_memappend al p bs = Some (int (length bs), pb_put q bs)"
        using two_writes [OF 3(3), of bs "\<lambda>q. Some (int (length bs), q)"] need True
        by (simp add: printbuf_memappend_def)
      then show thesis using finish [of q] 3 by simp
    next
      case (4 k)
      then have "printbuf_memappend al p bs = Some (-1, p)"
        using need True by (simp add: printbuf_memappend_def)
      then show thesis using nomem 4 by blast
    qed
  qed
qed

text \<open>The macro has the same effect, through either path.\<close>

lemma printbuf_memappend_fast_cases:
  assumes room: "pb_room n p" and n: "length bs \<le> n"
  obtains (ok) p' where "printbuf_memappend_fast al p bs = Some p'"
      "pb_str p' = pb_str p @ bs" "pb_terminated p'" "pb_room (n - length bs) p'"
  | (nomem) k where "\<not> al k" "printbuf_memappend_fast al p bs = Some p"
proof -
  have inv: "pb_inv p" and small: "0 \<le> size p" "size p < 2 ^ 30" "0 \<le> bpos p" "bpos p \<le> size p"
    using room by (auto simp: pb_room_def pb_inv_def)
  have left: "i32 (size p - bpos p) = Some (size p - bpos p)"
    using small by simp
  show thesis
  proof (cases "size p - bpos p > int (length bs)")
    case True
    then have lt: "bpos p + int (length bs) < size p" by simp
    have "printbuf_memappend_fast al p bs = Some (pb_put p bs)"
      using two_writes [OF inv lt, of Some] left True
      by (simp add: printbuf_memappend_fast_def del: i32_eq_Some)
    then show thesis
      using ok pb_put_facts [OF inv lt] room n by (simp add: pb_room_def of_nat_diff)
  next
    case False
    then have eq: "printbuf_memappend_fast al p bs = printbuf_memappend al p bs \<bind> (\<lambda>(r, p). Some p)"
      using left by (simp add: printbuf_memappend_fast_def del: i32_eq_Some)
    show thesis
      by (cases rule: printbuf_memappend_cases [OF room n, of al])
        (auto simp: eq intro: ok nomem)
  qed
qed

lemma sprintbuf_cases:
  assumes room: "pb_room n p" and n: "length bs \<le> n"
  obtains (ok) p' where "sprintbuf al p bs = Some (int (length bs), p')"
      "pb_str p' = pb_str p @ bs" "pb_terminated p'" "pb_room (n - length bs) p'"
  | (nomem) k r where "\<not> al k" "sprintbuf al p bs = Some (r, p)"
proof (cases "int (length bs) > 127 \<and> \<not> al (int (length bs) + 1)")
  case True
  then show thesis by (auto simp: sprintbuf_def intro: nomem)
next
  case False
  then have eq: "sprintbuf al p bs =
      printbuf_memappend al p bs \<bind> (\<lambda>(r, p). Some (int (length bs), p))"
    by (auto simp: sprintbuf_def)
  show thesis
    by (cases rule: printbuf_memappend_cases [OF room n, of al]) (auto simp: eq intro: ok nomem)
qed

lemma pb_room_mono: "pb_room n p \<Longrightarrow> m \<le> n \<Longrightarrow> pb_room m p"
  by (simp add: pb_room_def)

lemma printbuf_new_room:
  "printbuf_new al = Some p \<Longrightarrow> n < 2 ^ 28 \<Longrightarrow> pb_room n p \<and> pb_str p = []"
  by (auto simp: printbuf_new_def pb_room_def pb_inv_def pb_str_def split: if_splits)

lemma printbuf_reset_room:
  assumes "pb_inv p" "size p < 2 ^ 30" "n < 2 ^ 28"
  obtains p' where "printbuf_reset p = Some p'" "pb_str p' = []" "pb_terminated p'"
    "pb_room n p'"
proof
  show "printbuf_reset p = Some (p\<lparr>buf := Some NUL # drop 1 (buf p), bpos := 0\<rparr>)"
    using assms by (auto simp: printbuf_reset_def mem_write_def pb_inv_def Suc_le_eq)
  show "pb_str (p\<lparr>buf := Some NUL # drop 1 (buf p), bpos := 0\<rparr>) = []"
    by (simp add: pb_str_def)
  show "pb_terminated (p\<lparr>buf := Some NUL # drop 1 (buf p), bpos := 0\<rparr>)"
    using assms by (simp add: pb_terminated_def pb_inv_def)
  show "pb_room n (p\<lparr>buf := Some NUL # drop 1 (buf p), bpos := 0\<rparr>)"
    using assms by (auto simp: pb_room_def pb_inv_def)
qed

lemma read_cstr_written:
  "None \<notin> set m \<Longrightarrow> read_cstr (m @ Some NUL # r) = Some (cstr (map the m))"
proof (induction m)
  case (Cons a m)
  then show ?case by (cases a) (auto simp: cstr_Cons)
qed simp

lemma read_cstr_terminated:
  assumes "pb_inv p" "pb_terminated p"
  shows "read_cstr (buf p) = Some (cstr (pb_str p))"
proof -
  let ?k = "nat (bpos p)"
  have "?k < length (buf p)" "buf p ! ?k = Some NUL" "None \<notin> set (take ?k (buf p))"
    using assms by (auto simp: pb_inv_def pb_terminated_def)
  then have "buf p = take ?k (buf p) @ Some NUL # drop (Suc ?k) (buf p)"
    by (metis id_take_nth_drop)
  then show ?thesis
    using read_cstr_written [OF \<open>None \<notin> _\<close>] by (metis pb_str_def)
qed

section \<open>Filling\<close>

text \<open>\<open>printbuf_memset (p, -1, c, n)\<close> appends \<open>n\<close> bytes, without a terminator.\<close>

lemma printbuf_memset_cases:
  assumes room: "pb_room n p" and k: "0 \<le> k" "nat k \<le> n"
  obtains (ok) p' where "printbuf_memset al p (-1) c k = Some (0, p')"
      "pb_str p' = pb_str p @ replicate (nat k) c" "pb_room (n - nat k) p'"
  | (nomem) m where "\<not> al m" "printbuf_memset al p (-1) c k = Some (-1, p)"
proof -
  let ?need = "bpos p + k"
  let ?fill = "\<lambda>q. q\<lparr>buf := take (nat (bpos q)) (buf q) @ map Some (replicate (nat k) c)
      @ drop (nat (bpos q) + nat k) (buf q), bpos := bpos q + k\<rparr>"
  have inv: "pb_inv p" and small: "size p < 2 ^ 30" "?need + 16 < 2 ^ 29" "0 \<le> bpos p"
    using room k by (auto simp: pb_room_def pb_inv_def)
  have need: "INT32_MIN \<le> ?need" "?need \<le> INT32_MAX" using small k by simp_all
  have finish: thesis
    if eq: "printbuf_memset al p (-1) c k = Some (0, ?fill q)"
      and q: "pb_inv q" "pb_str q = pb_str p" "bpos q = bpos p" "?need \<le> size q" "size q < 2 ^ 30"
    for q
  proof (rule ok [OF eq])
    let ?k = "nat (bpos q)"
    have pos: "nat (bpos q + k) = ?k + nat k" and fits: "?k + nat k \<le> length (buf q)"
      using q k small by (auto simp: pb_inv_def nat_add_distrib)
    show "pb_str (?fill q) = pb_str p @ replicate (nat k) c"
      using fits pos by (simp add: pb_str_def q(2) [symmetric, unfolded pb_str_def] o_def)
    have "pb_inv (?fill q)"
      using q k small fits pos by (auto simp: pb_inv_def)
    then show "pb_room (n - nat k) (?fill q)"
      using q room k by (simp add: pb_room_def of_nat_diff)
  qed
  have wr: "mem_write (buf q) (bpos p) (replicate (nat k) c) = Some (buf (?fill q))"
    if "pb_inv q" "bpos q = bpos p" "?need \<le> size q" for q
    using that k small by (auto simp: mem_write_def pb_inv_def)
  have bpos: "(if bpos p < ?need then p'\<lparr>bpos := ?need\<rparr> else p') = p'\<lparr>bpos := ?need\<rparr>"
    if "bpos p' = bpos p" for p' :: printbuf
    using that k by simp
  show thesis
  proof (cases "size p < ?need")
    case False
    then have "printbuf_memset al p (-1) c k = Some (0, ?fill p)"
      using need k wr [OF inv refl] bpos
      by (simp add: printbuf_memset_def Let_def)
    then show thesis using finish [of p] inv small False by simp
  next
    case True
    show thesis
    proof (cases rule: pb_extend_cases [OF inv small(1,2), of al])
      case 1
      then show thesis using True by simp
    next
      case (2 q)
      have "printbuf_memset al p (-1) c k = Some (0, ?fill q)"
        using need k wr [of q] 2 bpos [of "q\<lparr>buf := buf (?fill q)\<rparr>"] True
        by (simp add: printbuf_memset_def Let_def)
      then show thesis using finish [of q] 2 by simp
    next
      case (3 m)
      then have "printbuf_memset al p (-1) c k = Some (-1, p)"
        using need True by (simp add: printbuf_memset_def Let_def)
      then show thesis using nomem 3 by blast
    qed
  qed
qed

section \<open>The contract of a sink, and the operations that meet it\<close>

text \<open>
  \<open>emits str room post M s\<close>: run on any sink with room for \<open>s\<close>, the operation \<open>M\<close> is defined,
  reports no error, appends exactly \<open>s\<close>, leaves the rest of the room and a sink with \<open>post\<close>.
\<close>

definition emits ::
  "('b \<Rightarrow> string) \<Rightarrow> (nat \<Rightarrow> 'b \<Rightarrow> bool) \<Rightarrow> ('b \<Rightarrow> bool) \<Rightarrow> ('b \<Rightarrow> (int \<times> 'b) option) \<Rightarrow> string \<Rightarrow> bool" where
  "emits str room post M s \<longleftrightarrow>
     (\<forall>n b. room n b \<longrightarrow> length s \<le> n \<longrightarrow>
       (\<exists>r b'. M b = Some (r, b') \<and> 0 \<le> r \<and> str b' = str b @ s \<and> room (n - length s) b' \<and> post b'))"

lemma emitsD:
  assumes "emits str room post M s" "room n b" "length s \<le> n"
  obtains r b' where "M b = Some (r, b')" "0 \<le> r" "str b' = str b @ s" "room (n - length s) b'" "post b'"
  using assms unfolding emits_def by meson

lemma emits_weaken: "emits str room post M s \<Longrightarrow> emits str room (\<lambda>_. True) M s"
  unfolding emits_def by meson

lemma emits_bind:
  assumes "emits str room (\<lambda>_. True) M s"
    and "\<And>r b b'. M b = Some (r, b') \<Longrightarrow> emits str room post (f r) t"
  shows "emits str room post (\<lambda>b. M b \<bind> (\<lambda>(r, b'). f r b')) (s @ t)"
  unfolding emits_def
proof (intro allI impI)
  fix n b
  assume "room n b" "length (s @ t) \<le> n"
  then obtain r b' where 1: "M b = Some (r, b')" "str b' = str b @ s" "room (n - length s) b'"
    using emitsD [OF assms(1), of n b] by (metis length_append add_leD1)
  moreover have "length t \<le> n - length s" using \<open>length (s @ t) \<le> n\<close> by simp
  ultimately obtain r' b'' where "f r b' = Some (r', b'')" "0 \<le> r'" "str b'' = str b' @ t"
    "room (n - length s - length t) b''" "post b''"
    using emitsD [OF assms(2) [OF 1(1)] 1(3)] by metis
  then show "\<exists>r' b''. (M b \<bind> (\<lambda>(r, b'). f r b')) = Some (r', b'') \<and> 0 \<le> r'
      \<and> str b'' = str b @ s @ t \<and> room (n - length (s @ t)) b'' \<and> post b''"
    using 1 by simp
qed

lemma emits_done: "0 \<le> r \<Longrightarrow> emits str room (\<lambda>_. True) (\<lambda>b. Some (r, b)) []"
  by (simp add: emits_def)

lemma emits_drop:
  assumes "emits str room post M s" "0 \<le> r"
  shows "emits str room post (\<lambda>b. M b \<bind> (\<lambda>(_, b). Some (r, b))) s"
  unfolding emits_def
proof (intro allI impI)
  fix n b
  assume "room n b" "length s \<le> n"
  then show "\<exists>r' b'. (M b \<bind> (\<lambda>(_, b). Some (r, b))) = Some (r', b') \<and> 0 \<le> r' \<and> str b' = str b @ s
      \<and> room (n - length s) b' \<and> post b'"
    by (rule emitsD [OF assms(1)]) (use assms(2) in auto)
qed

text \<open>Feeding a list of blocks, as a read loop does.\<close>

fun put_blocks :: "('b \<Rightarrow> string \<Rightarrow> (int \<times> 'b) option) \<Rightarrow> 'b \<Rightarrow> string list \<Rightarrow> 'b option" where
  "put_blocks put b [] = Some b"
| "put_blocks put b (s # ss) = do { (r, b') \<leftarrow> put b s; put_blocks put b' ss }"

locale byte_sink =
  fixes put :: "'b \<Rightarrow> string \<Rightarrow> (int \<times> 'b) option"
    and str :: "'b \<Rightarrow> string"
    and room :: "nat \<Rightarrow> 'b \<Rightarrow> bool"
    and closed :: "'b \<Rightarrow> bool"
  assumes put_ok: "room n b \<Longrightarrow> length s \<le> n \<Longrightarrow>
      \<exists>b'. put b s = Some (int (length s), b') \<and> str b' = str b @ s \<and> room (n - length s) b'
        \<and> closed b'"
begin

lemma put_closes: "emits str room closed (\<lambda>b. put b s) s"
  unfolding emits_def using put_ok [of _ _ s] by fastforce

lemmas put_emits = put_closes [THEN emits_weaken]

lemma put_blocks_ok:
  assumes "room n b" "length (concat ss) \<le> n" "closed b \<or> ss \<noteq> []"
  shows "\<exists>b'. put_blocks put b ss = Some b' \<and> str b' = str b @ concat ss
           \<and> room (n - length (concat ss)) b' \<and> closed b'"
  using assms
proof (induction ss arbitrary: n b)
  case Nil
  then show ?case by simp
next
  case (Cons s ss)
  then obtain b' where b': "put b s = Some (int (length s), b')" "str b' = str b @ s"
    "room (n - length s) b'" "closed b'"
    using put_ok [of n b s] by auto
  have "length (concat ss) \<le> n - length s" using Cons.prems by simp
  then obtain b'' where "put_blocks put b' ss = Some b''" "str b'' = str b' @ concat ss"
    "room (n - length s - length (concat ss)) b''" "closed b''"
    using Cons.IH [of "n - length s" b'] b' by blast
  then show ?case using b' by simp
qed

end

abbreviation mem_ok :: "int \<Rightarrow> bool" where "mem_ok \<equiv> \<lambda>_. True"

interpretation memappend: byte_sink "printbuf_memappend mem_ok" pb_str pb_room
  "\<lambda>p. pb_inv p \<and> pb_terminated p"
proof unfold_locales
  fix n p and s :: string
  assume "pb_room n p" "length s \<le> n"
  then show "\<exists>p'. printbuf_memappend mem_ok p s = Some (int (length s), p') \<and> pb_str p' = pb_str p @ s
      \<and> pb_room (n - length s) p' \<and> pb_inv p' \<and> pb_terminated p'"
    by (cases rule: printbuf_memappend_cases [of n p s mem_ok]) (auto simp: pb_room_def)
qed

interpretation sprint: byte_sink "sprintbuf mem_ok" pb_str pb_room
  "\<lambda>p. pb_inv p \<and> pb_terminated p"
proof unfold_locales
  fix n p and s :: string
  assume "pb_room n p" "length s \<le> n"
  then show "\<exists>p'. sprintbuf mem_ok p s = Some (int (length s), p') \<and> pb_str p' = pb_str p @ s
      \<and> pb_room (n - length s) p' \<and> pb_inv p' \<and> pb_terminated p'"
    by (cases rule: sprintbuf_cases [of n p s mem_ok]) (auto simp: pb_room_def)
qed

section \<open>Properties\<close>

text \<open>
  C13. Appending to a print buffer whose position leaves room is defined whatever the
  allocator does: either the string has grown by exactly the given bytes and \<open>p->buf\<close> reads
  as that string, NUL-terminated, or the allocation failed, \<open>-1\<close> is returned and the buffer
  is untouched.
\<close>

theorem printbuf_memappend_spec:
  assumes "pb_room n p" "length bs \<le> n"
  shows "\<exists>r p'. printbuf_memappend al p bs = Some (r, p')
    \<and> (r = int (length bs) \<and> pb_str p' = pb_str p @ bs \<and> pb_room (n - length bs) p'
         \<and> read_cstr (buf p') = Some (cstr (pb_str p @ bs))
       \<or> r = -1 \<and> p' = p \<and> (\<exists>k. \<not> al k))"
proof (cases rule: printbuf_memappend_cases [OF assms, of al])
  case (1 p')
  then have "pb_inv p'" by (simp add: pb_room_def)
  with 1 read_cstr_terminated [of p'] show ?thesis by simp
next
  case (2 k)
  then show ?thesis by auto
qed

definition pb_example :: printbuf where
  "pb_example = \<lparr>buf = [Some CHR ''a'', Some NUL], bpos = 1, size = 2\<rparr>"

theorem printbuf_memappend_spec_witness:
  "\<exists>r p'. printbuf_memappend (\<lambda>k. k < 100) pb_example ''bcd'' = Some (r, p')
    \<and> (r = 3 \<and> pb_str p' = ''abcd'' \<and> pb_room 0 p' \<and> read_cstr (buf p') = Some ''abcd''
       \<or> r = -1 \<and> p' = pb_example \<and> (\<exists>k::int. \<not> k < 100))"
proof -
  have "pb_room 3 pb_example" by (simp add: pb_room_def pb_inv_def pb_example_def)
  then have *: "pb_room 3 pb_example" "length ''bcd'' \<le> 3" by simp_all
  have "pb_str pb_example = ''a''" by (simp add: pb_str_def pb_example_def)
  then show ?thesis
    using printbuf_memappend_spec [OF *, of "\<lambda>k. k < 100"] by (simp add: cstr_def)
qed

text \<open>
  \<open>printbuf_memset\<close> at offset \<open>-1\<close>, the way the pretty printer indents, appends
  \<open>len\<close> copies of the character, or fails cleanly when memory runs out.
\<close>

theorem printbuf_memset_spec:
  assumes "pb_room n p" "0 \<le> len" "nat len \<le> n"
  shows "\<exists>r p'. printbuf_memset al p (-1) c len = Some (r, p')
    \<and> (r = 0 \<and> pb_str p' = pb_str p @ replicate (nat len) c \<and> pb_room (n - nat len) p'
       \<or> r = -1 \<and> p' = p \<and> (\<exists>k. \<not> al k))"
  by (cases rule: printbuf_memset_cases [OF assms, of al c]) auto

theorem printbuf_memset_spec_witness:
  "\<exists>r p'. printbuf_memset mem_ok pb_example (-1) CHR '' '' 4 = Some (r, p')
    \<and> (r = 0 \<and> pb_str p' = ''a    '' \<and> pb_room 1 p'
       \<or> r = -1 \<and> p' = pb_example \<and> (\<exists>k::int. \<not> True))"
proof -
  have "pb_room 5 pb_example" by (simp add: pb_room_def pb_inv_def pb_example_def)
  moreover have "pb_str pb_example = ''a''" by (simp add: pb_str_def pb_example_def)
  ultimately show ?thesis
    using printbuf_memset_spec [of 5 pb_example 4 mem_ok "CHR '' ''"]
    by (simp add: numeral_eq_Suc)
qed

text \<open>
  Two limits of the code. The position is added to the length in \<open>int\<close>, so an append that
  passes \<open>INT32_MAX\<close> is undefined; and a new buffer is not a C string before something has
  been appended to it.
\<close>

lemma printbuf_memappend_overflow:
  "bpos p + int (length bs) \<ge> INT32_MAX \<Longrightarrow> printbuf_memappend al p bs = None"
  by (simp add: printbuf_memappend_def i32_def in_i32_def)

lemma printbuf_new_not_a_string:
  "printbuf_new al = Some p \<Longrightarrow> read_cstr (buf p) = None"
  by (auto simp: printbuf_new_def numeral_eq_Suc split: if_splits)

end
