(* ===== verification/Arraylist.thy ===== *)
theory Arraylist
  imports C_Prelude
begin

text \<open>
  The growable pointer array behind JSON arrays (\<open>json-c/arraylist.c\<close>,
  \<open>json-c/arraylist.h\<close>). An element is \<open>None\<close> for \<open>NULL\<close>. The calls of \<open>free_fn\<close> are
  effects on the owner's heap; the model returns the list of pointers they are called on,
  in order. The locale \<open>pointer_array\<close> is the contract of the component.
\<close>

section \<open>The structure and its operations\<close>

record 'a array_list =
  arr :: "'a option list"
  len :: int
  cap :: int

definition ARRAY_LIST_DEFAULT_SIZE :: int where
  "ARRAY_LIST_DEFAULT_SIZE = 32"

definition array_list_new :: "(int \<Rightarrow> bool) \<Rightarrow> 'a array_list option" where
  "array_list_new al =
     (if al ARRAY_LIST_DEFAULT_SIZE
      then Some \<lparr>arr = replicate (nat ARRAY_LIST_DEFAULT_SIZE) None, len = 0,
                 cap = ARRAY_LIST_DEFAULT_SIZE\<rparr>
      else None)"

text \<open>\<open>array_list_free\<close>: the pointers handed to \<open>free_fn\<close>.\<close>

definition array_list_free :: "'a array_list \<Rightarrow> 'a list option" where
  "array_list_free a =
     (if len a \<le> int (length (arr a))
      then Some (map the (filter (\<lambda>x. x \<noteq> None) (take (nat (len a)) (arr a)))) else None)"

definition array_list_get_idx :: "'a array_list \<Rightarrow> int \<Rightarrow> 'a option option" where
  "array_list_get_idx a i =
     (if i \<ge> len a then Some None
      else if 0 \<le> i \<and> i < int (length (arr a)) then Some (arr a ! nat i) else None)"

definition array_list_expand_internal ::
  "(int \<Rightarrow> bool) \<Rightarrow> 'a array_list \<Rightarrow> int \<Rightarrow> (int \<times> 'a array_list) option" where
  "array_list_expand_internal al a maxi =
     (if maxi < cap a then Some (0, a)
      else do {
        twice \<leftarrow> i32 (cap a * 2);
        let new_size = (if twice < maxi then maxi else twice);
        if al new_size
        then Some (0, a\<lparr>arr := arr a @ replicate (nat new_size - length (arr a)) None,
                        cap := new_size\<rparr>)
        else Some (-1, a)
      })"

text \<open>Result, pointers freed, new array.\<close>

definition array_list_put_idx ::
  "(int \<Rightarrow> bool) \<Rightarrow> 'a array_list \<Rightarrow> int \<Rightarrow> 'a option \<Rightarrow> (int \<times> 'a list \<times> 'a array_list) option" where
  "array_list_put_idx al a idx data =
     do {
       need \<leftarrow> i32 (idx + 1);
       (r, a) \<leftarrow> array_list_expand_internal al a need;
       if r \<noteq> 0 then Some (-1, [], a)
       else if idx < 0 \<or> int (length (arr a)) \<le> idx then None
       else do {
         let freed = (case arr a ! nat idx of None \<Rightarrow> [] | Some x \<Rightarrow> [x]);
         let a = a\<lparr>arr := (arr a)[nat idx := data]\<rparr>;
         Some (0, freed, if len a \<le> idx then a\<lparr>len := need\<rparr> else a)
       }
     }"

definition array_list_add ::
  "(int \<Rightarrow> bool) \<Rightarrow> 'a array_list \<Rightarrow> 'a option \<Rightarrow> (int \<times> 'a list \<times> 'a array_list) option" where
  "array_list_add al a data = array_list_put_idx al a (len a) data"

text \<open>\<open>qsort\<close> on the first \<open>len\<close> elements; which sorting permutation it picks is its own.\<close>

definition array_list_sort ::
  "('a option list \<Rightarrow> 'a option list) \<Rightarrow> 'a array_list \<Rightarrow> 'a array_list" where
  "array_list_sort qsort a =
     a\<lparr>arr := qsort (take (nat (len a)) (arr a)) @ drop (nat (len a)) (arr a)\<rparr>"

definition array_list_length :: "'a array_list \<Rightarrow> int" where
  "array_list_length a = len a"

section \<open>Invariant and abstraction\<close>

definition arr_inv :: "'a array_list \<Rightarrow> bool" where
  "arr_inv a \<longleftrightarrow> int (length (arr a)) = cap a \<and> 0 < cap a \<and> cap a \<le> INT32_MAX
     \<and> 0 \<le> len a \<and> len a \<le> cap a \<and> set (drop (nat (len a)) (arr a)) \<subseteq> {None}"

definition arr_list :: "'a array_list \<Rightarrow> 'a option list" where
  "arr_list a = take (nat (len a)) (arr a)"

text \<open>The list after a store at \<open>i\<close>: a gap before \<open>i\<close> is filled with \<open>NULL\<close>.\<close>

definition list_put :: "'a option list \<Rightarrow> nat \<Rightarrow> 'a option \<Rightarrow> 'a option list" where
  "list_put xs i x =
     (if i < length xs then xs[i := x] else xs @ replicate (i - length xs) None @ [x])"

definition pointers :: "'a option list \<Rightarrow> 'a list" where
  "pointers xs = map the (filter (\<lambda>x. x \<noteq> None) xs)"

lemma length_arr_list [simp]: "arr_inv a \<Longrightarrow> length (arr_list a) = nat (len a)"
  by (auto simp: arr_inv_def arr_list_def)

lemma arr_new_inv:
  "array_list_new al = Some a \<Longrightarrow> arr_inv a \<and> arr_list a = []"
  by (auto simp: array_list_new_def arr_inv_def arr_list_def ARRAY_LIST_DEFAULT_SIZE_def
      split: if_splits)

lemma all_None_replicate: "set xs \<subseteq> {None} \<Longrightarrow> xs = replicate (length xs) None"
  by (induction xs) auto

lemma take_drop_all_None:
  assumes "set (drop k xs) \<subseteq> {None}" "k \<le> i" "i \<le> length xs"
  shows "take i xs = take k xs @ replicate (i - k) None"
proof -
  have "take i xs = take k xs @ take (i - k) (drop k xs)"
    using assms(2) by (metis le_add_diff_inverse take_add)
  moreover have "take (i - k) (drop k xs) = replicate (i - k) None"
    using all_None_replicate [OF assms(1)] assms
    by (metis diff_le_mono length_drop min.absorb1 take_replicate)
  ultimately show ?thesis by simp
qed

lemma arr_store:
  fixes x :: "'a option"
  assumes inv: "arr_inv a" and i: "0 \<le> i" "i < cap a"
  defines "b \<equiv> a\<lparr>arr := (arr a)[nat i := x], len := (if len a \<le> i then i + 1 else len a)\<rparr>"
  shows "arr_inv b" "arr_list b = list_put (arr_list a) (nat i) x"
    "(case arr a ! nat i of None \<Rightarrow> [] | Some y \<Rightarrow> [y])
     = (if nat i < length (arr_list a) then pointers [arr_list a ! nat i] else [])"
proof -
  let ?n = "nat i" and ?l = "nat (len a)"
  have n: "?n < length (arr a)" "0 \<le> len a" "?l \<le> length (arr a)"
    "set (drop ?l (arr a)) \<subseteq> {None}"
    using inv i by (auto simp: arr_inv_def)
  show "arr_list b = list_put (arr_list a) ?n x"
  proof (cases "len a \<le> i")
    case False
    then have "?n < ?l" using i by simp
    then show ?thesis
      using n False i by (simp add: b_def arr_list_def list_put_def take_update_swap)
  next
    case True
    then have le: "?l \<le> ?n" and pos: "nat (i + 1) = Suc ?n" using i by auto
    have "take (Suc ?n) ((arr a)[?n := x]) = take ?n (arr a) @ [x]"
      using n by (simp add: take_Suc_conv_app_nth)
    also have "take ?n (arr a) = take ?l (arr a) @ replicate (?n - ?l) None"
      using take_drop_all_None [OF n(4) le] n by simp
    finally show ?thesis
      using True le pos n by (simp add: b_def arr_list_def list_put_def)
  qed
  have "set (drop (nat (len b)) ((arr a)[?n := x])) \<subseteq> {None}"
  proof (cases "len a \<le> i")
    case True
    then have "set (drop (Suc ?n) (arr a)) \<subseteq> set (drop ?l (arr a))"
      using i by (intro set_drop_subset_set_drop) auto
    then show ?thesis using True n(4) i by (auto simp: b_def nat_add_distrib)
  next
    case False
    then show ?thesis using n i by (simp add: b_def drop_update_swap drop_update_cancel)
  qed
  then show "arr_inv b" using inv i by (auto simp: arr_inv_def b_def)
  show "(case arr a ! ?n of None \<Rightarrow> [] | Some y \<Rightarrow> [y])
     = (if ?n < length (arr_list a) then pointers [arr_list a ! ?n] else [])"
  proof (cases "len a \<le> i")
    case True
    then have "drop ?l (arr a) ! (?n - ?l) \<in> set (drop ?l (arr a))"
      using n i by (intro nth_mem) auto
    then have "arr a ! ?n \<in> set (drop ?l (arr a))"
      using n True by (simp add: nat_mono)
    then have "arr a ! ?n = None" using n(4) by auto
    then show ?thesis using True i inv by simp
  next
    case False
    then have "?n < ?l" using i by simp
    then show ?thesis
      using n by (auto simp: arr_list_def pointers_def split: option.splits)
  qed
qed

section \<open>Growing\<close>

lemma arr_expand_cases:
  assumes inv: "arr_inv a" and cap: "cap a < 2 ^ 30" and m: "maxi \<le> INT32_MAX"
  obtains (ok) a' where "array_list_expand_internal al a maxi = Some (0, a')" "arr_inv a'"
      "arr_list a' = arr_list a" "len a' = len a" "maxi \<le> cap a'"
      "cap a' \<le> max (cap a) (max maxi (if cap a \<le> maxi then 2 * cap a else 0))"
  | (nomem) k where "\<not> al k" "array_list_expand_internal al a maxi = Some (-1, a)"
proof (cases "maxi < cap a")
  case True
  then show ?thesis using ok [of a] inv by (simp add: array_list_expand_internal_def)
next
  case False
  let ?n = "if cap a * 2 < maxi then maxi else cap a * 2"
  let ?a = "a\<lparr>arr := arr a @ replicate (nat ?n - length (arr a)) None, cap := ?n\<rparr>"
  have c: "0 < cap a" "int (length (arr a)) = cap a" using inv by (auto simp: arr_inv_def)
  have eq: "array_list_expand_internal al a maxi = (if al ?n then Some (0, ?a) else Some (-1, a))"
    using False cap c by (simp add: array_list_expand_internal_def Let_def)
  have "arr_inv ?a" "arr_list ?a = arr_list a"
    using inv False cap m by (auto simp: arr_inv_def arr_list_def)
  then show ?thesis
    using eq False c ok [of ?a] nomem [of ?n] by (cases "al ?n") auto
qed

lemma array_list_put_idx_cases:
  assumes inv: "arr_inv a" and cap: "cap a < 2 ^ 30" and i: "0 \<le> i" "i < INT32_MAX"
  obtains (ok) a' where
      "array_list_put_idx al a i x
       = Some (0, if nat i < length (arr_list a) then pointers [arr_list a ! nat i] else [], a')"
      "arr_inv a'" "arr_list a' = list_put (arr_list a) (nat i) x"
      "cap a' \<le> max (cap a) (max (i + 1) (if cap a \<le> i + 1 then 2 * cap a else 0))"
  | (nomem) k where "\<not> al k" "array_list_put_idx al a i x = Some (-1, [], a)"
proof -
  have need: "INT32_MIN \<le> i + 1" "i + 1 \<le> INT32_MAX" using i by simp_all
  show thesis
  proof (cases rule: arr_expand_cases [OF inv cap need(2), of al])
    case (1 a')
    let ?b = "a'\<lparr>arr := (arr a')[nat i := x], len := (if len a' \<le> i then i + 1 else len a')\<rparr>"
    have bound: "i < cap a'" "\<not> int (length (arr a')) \<le> i" using 1 by (auto simp: arr_inv_def)
    note st = arr_store(1,2) [OF 1(2) i(1) bound(1), of x] arr_store(3) [OF 1(2) i(1) bound(1)]
    have "array_list_put_idx al a i x
        = Some (0, case arr a' ! nat i of None \<Rightarrow> [] | Some y \<Rightarrow> [y], ?b)"
      using 1 need i bound by (auto simp: array_list_put_idx_def Let_def)
    then show thesis using ok [of ?b] st 1 by simp
  next
    case (2 k)
    then have "array_list_put_idx al a i x = Some (-1, [], a)"
      using need by (simp add: array_list_put_idx_def)
    then show thesis using nomem 2 by blast
  qed
qed

section \<open>The contract\<close>

definition arr_room :: "nat \<Rightarrow> 'a array_list \<Rightarrow> bool" where
  "arr_room n a \<longleftrightarrow> arr_inv a \<and> cap a < 2 ^ 30 \<and> len a + int n < 2 ^ 29"

fun add_each ::
  "('b \<Rightarrow> 'a option \<Rightarrow> (int \<times> 'a list \<times> 'b) option) \<Rightarrow> 'b \<Rightarrow> 'a option list \<Rightarrow> 'b option" where
  "add_each add b [] = Some b"
| "add_each add b (x # xs) = do { (r, freed, b) \<leftarrow> add b x; add_each add b xs }"

locale pointer_array =
  fixes add :: "'b \<Rightarrow> 'a option \<Rightarrow> (int \<times> 'a list \<times> 'b) option"
    and get :: "'b \<Rightarrow> int \<Rightarrow> 'a option option"
    and size_of :: "'b \<Rightarrow> int"
    and elems :: "'b \<Rightarrow> 'a option list"
    and room :: "nat \<Rightarrow> 'b \<Rightarrow> bool"
  assumes add_ok: "room (Suc n) b \<Longrightarrow>
      \<exists>b'. add b x = Some (0, [], b') \<and> elems b' = elems b @ [x] \<and> room n b'"
    and get_ok: "room n b \<Longrightarrow> get b (int i) = Some (if i < length (elems b) then elems b ! i else None)"
    and size_ok: "room n b \<Longrightarrow> size_of b = int (length (elems b))"
begin

lemma add_each_ok:
  "room (n + length xs) b \<Longrightarrow>
   \<exists>b'. add_each add b xs = Some b' \<and> elems b' = elems b @ xs \<and> room n b'"
proof (induction xs arbitrary: b)
  case Nil
  then show ?case by simp
next
  case (Cons x xs)
  then have "room (Suc (n + length xs)) b" by simp
  then obtain b' where b': "add b x = Some (0, [], b')" "elems b' = elems b @ [x]"
      "room (n + length xs) b'"
    using add_ok by blast
  obtain b'' where "add_each add b' xs = Some b''" "elems b'' = elems b' @ xs" "room n b''"
    using Cons.IH [OF b'(3)] by blast
  then show ?case using b' by simp
qed

text \<open>Scanning by index sees the elements in order, and \<open>NULL\<close> past the end.\<close>

lemma scan_ok:
  assumes "room n b"
  shows "map (\<lambda>i. get b (int i)) [0..<nat (size_of b)] = map Some (elems b)"
  using get_ok [OF assms] size_ok [OF assms] by (intro nth_equalityI) auto

end

interpretation al: pointer_array "array_list_add (\<lambda>_. True)" array_list_get_idx array_list_length
  arr_list arr_room
proof unfold_locales
  fix n and b :: "'a array_list" and x :: "'a option"
  assume room: "arr_room (Suc n) b"
  then have inv: "arr_inv b" "cap b < 2 ^ 30" "0 \<le> len b" "len b < INT32_MAX"
    by (auto simp: arr_room_def arr_inv_def)
  then have put: "list_put (arr_list b) (nat (len b)) x = arr_list b @ [x]"
    by (simp add: list_put_def)
  show "\<exists>b'. array_list_add (\<lambda>_. True) b x = Some (0, [], b') \<and> arr_list b' = arr_list b @ [x]
      \<and> arr_room n b'"
    unfolding array_list_add_def
  proof (cases rule: array_list_put_idx_cases [OF inv, of "\<lambda>_. True" x])
    case (1 b')
    then have "arr_list b' = arr_list b @ [x]" using put by simp
    moreover from this have "nat (len b') = Suc (nat (len b))"
      using 1(2) inv(1) by (metis length_append_singleton length_arr_list)
    ultimately show "\<exists>b'. array_list_put_idx (\<lambda>_. True) b (len b) x = Some (0, [], b')
      \<and> arr_list b' = arr_list b @ [x] \<and> arr_room n b'"
      using 1 room inv by (auto simp: arr_room_def max_def split: if_splits)
  qed simp
next
  fix n i and b :: "'a array_list"
  assume "arr_room n b"
  then have "arr_inv b" by (simp add: arr_room_def)
  then show "array_list_get_idx b (int i)
      = Some (if i < length (arr_list b) then arr_list b ! i else None)"
    by (auto simp: array_list_get_idx_def arr_inv_def arr_list_def)
next
  fix n and b :: "'a array_list"
  assume "arr_room n b"
  then show "array_list_length b = int (length (arr_list b))"
    by (simp add: arr_room_def array_list_length_def) (simp add: arr_inv_def)
qed

section \<open>Properties\<close>

text \<open>
  C14. Storing at an index of a well-formed array is defined, keeps it well formed, replaces
  the element there (handing exactly the old pointer to \<open>free_fn\<close>) or extends the list,
  filling a gap with \<open>NULL\<close>; when the reallocation fails, \<open>-1\<close> is returned, nothing is
  freed and the array is unchanged.
\<close>

theorem array_list_put_idx_spec:
  assumes "arr_inv a" "cap a < 2 ^ 30" "0 \<le> i" "i < INT32_MAX"
  shows "\<exists>r freed a'. array_list_put_idx al a i x = Some (r, freed, a')
    \<and> (r = 0 \<and> arr_inv a' \<and> arr_list a' = list_put (arr_list a) (nat i) x
         \<and> freed = (if nat i < length (arr_list a) then pointers [arr_list a ! nat i] else [])
       \<or> r = -1 \<and> freed = [] \<and> a' = a \<and> (\<exists>k. \<not> al k))"
  by (cases rule: array_list_put_idx_cases [OF assms, of al x]) auto

definition arr_example :: "nat array_list" where
  "arr_example = \<lparr>arr = [Some 7, None], len = 1, cap = 2\<rparr>"

theorem array_list_put_idx_spec_witness:
  "\<exists>r freed a'. array_list_put_idx (\<lambda>_. True) arr_example 3 (Some 9) = Some (r, freed, a')
    \<and> (r = 0 \<and> arr_inv a' \<and> arr_list a' = [Some 7, None, None, Some 9] \<and> freed = []
       \<or> r = -1 \<and> freed = [] \<and> a' = arr_example \<and> (\<exists>k::int. \<not> True))"
proof -
  have "arr_inv arr_example" "cap arr_example < 2 ^ 30"
    by (simp_all add: arr_inv_def arr_example_def)
  moreover have "arr_list arr_example = [Some 7]"
    by (simp add: arr_list_def arr_example_def)
  ultimately show ?thesis
    using array_list_put_idx_spec [of arr_example 3 "\<lambda>_. True" "Some 9"]
    by (simp add: list_put_def numeral_eq_Suc)
qed

text \<open>
  Adding the pointers \<open>xs\<close> one by one to a new array and then reading indices
  \<open>0 .. length - 1\<close> gives back \<open>xs\<close>, \<open>NULL\<close>s included, and nothing is freed on the way.
\<close>

theorem array_list_add_roundtrip:
  assumes new: "array_list_new (\<lambda>_. True) = Some a" and len: "length xs < 2 ^ 28"
  shows "\<exists>b. add_each (array_list_add (\<lambda>_. True)) a xs = Some b
    \<and> map (\<lambda>i. array_list_get_idx b (int i)) [0..<nat (array_list_length b)] = map Some xs"
proof -
  have "arr_room (0 + length xs) a" "arr_list a = []"
    using new len arr_new_inv [OF new]
    by (auto simp: arr_room_def array_list_new_def ARRAY_LIST_DEFAULT_SIZE_def)
  then show ?thesis
    using al.add_each_ok [of 0 xs a] al.scan_ok [of 0] by fastforce
qed

theorem array_list_add_roundtrip_witness:
  "\<exists>a b. array_list_new (\<lambda>_. True) = Some a
    \<and> add_each (array_list_add (\<lambda>_. True)) a [Some 1, None, Some (3::nat)] = Some b
    \<and> map (\<lambda>i. array_list_get_idx b (int i)) [0..<nat (array_list_length b)]
      = [Some (Some 1), Some None, Some (Some 3)]"
proof -
  obtain a :: "nat array_list" where new: "array_list_new (\<lambda>_. True) = Some a"
    by (simp add: array_list_new_def)
  then show ?thesis
    using array_list_add_roundtrip [OF new, of "[Some 1, None, Some (3::nat)]"] by fastforce
qed

text \<open>
  The getter has no lower bound check: a negative index is outside the block.
\<close>

lemma array_list_get_idx_negative:
  "arr_inv a \<Longrightarrow> i < 0 \<Longrightarrow> array_list_get_idx a i = None"
  by (auto simp: array_list_get_idx_def arr_inv_def)

lemma array_list_free_pointers:
  "arr_inv a \<Longrightarrow> array_list_free a = Some (pointers (arr_list a))"
  by (simp add: array_list_free_def arr_inv_def pointers_def arr_list_def)

end
