(* ===== verification/Linkhash.thy ===== *)
theory Linkhash
  imports C_Prelude
begin

text \<open>
  The linked hash table behind JSON objects (\<open>json-c/linkhash.c\<close>, \<open>json-c/linkhash.h\<close>):
  open addressing with linear probing, tombstones, and a doubly linked list through the
  slots that keeps insertion order. Pointers to entries are indices into the slot array.
  The statistics counters are unbounded; \<open>calloc\<close> failing ends the process (\<open>lh_abort\<close>),
  so the model has no branch for it. The locale \<open>ordered_map\<close> is the contract.
\<close>

section \<open>Entries and tables\<close>

datatype 'k slot = LH_EMPTY | LH_FREED | Key (the_key: 'k)

record ('k, 'v) lh_entry =
  ent_k :: "'k slot"
  ent_v :: "'v option"
  ent_next :: "nat option"
  ent_prev :: "nat option"

record ('k, 'v) lh_table =
  lh_size :: int
  lh_count :: int
  lh_collisions :: int
  lh_resizes :: int
  lh_lookups :: int
  lh_inserts :: int
  lh_deletes :: int
  lh_name :: "string option"
  lh_head :: "nat option"
  lh_tail :: "nat option"
  lh_tab :: "('k, 'v) lh_entry list"
  lh_free_fn :: bool
  lh_hash_fn :: "'k \<Rightarrow> 64 word"
  lh_equal_fn :: "'k \<Rightarrow> 'k \<Rightarrow> bool"

definition lh_empty_entry :: "('k, 'v) lh_entry" where
  "lh_empty_entry = \<lparr>ent_k = LH_EMPTY, ent_v = None, ent_next = None, ent_prev = None\<rparr>"

definition lh_table_new ::
  "int \<Rightarrow> string option \<Rightarrow> bool \<Rightarrow> ('k \<Rightarrow> 64 word) \<Rightarrow> ('k \<Rightarrow> 'k \<Rightarrow> bool) \<Rightarrow> ('k, 'v) lh_table" where
  "lh_table_new sz name free_fn hash_fn equal_fn =
     \<lparr>lh_size = sz, lh_count = 0, lh_collisions = 0, lh_resizes = 0, lh_lookups = 0,
      lh_inserts = 0, lh_deletes = 0, lh_name = name, lh_head = None, lh_tail = None,
      lh_tab = replicate (nat sz) lh_empty_entry, lh_free_fn = free_fn,
      lh_hash_fn = hash_fn, lh_equal_fn = equal_fn\<rparr>"

section \<open>Walking the list\<close>

text \<open>
  \<open>lh_foreach\<close>: the indices from an entry along \<open>next\<close>. A walk longer than the table has
  entries is a cycle and does not end.
\<close>

fun lh_walk :: "('k, 'v) lh_entry list \<Rightarrow> nat \<Rightarrow> nat option \<Rightarrow> nat list option" where
  "lh_walk tab fuel None = Some []"
| "lh_walk tab 0 (Some i) = None"
| "lh_walk tab (Suc fuel) (Some i) =
     (if i < length tab then map_option (Cons i) (lh_walk tab fuel (ent_next (tab ! i))) else None)"

definition lh_foreach :: "('k, 'v) lh_table \<Rightarrow> nat list option" where
  "lh_foreach t = lh_walk (lh_tab t) (length (lh_tab t)) (lh_head t)"

text \<open>\<open>lh_table_free\<close>: the entries \<open>free_fn\<close> is called on, if there is one.\<close>

definition lh_table_free :: "('k, 'v) lh_table \<Rightarrow> ('k, 'v) lh_entry list option" where
  "lh_table_free t =
     do { is \<leftarrow> lh_foreach t;
          Some (if lh_free_fn t then map (\<lambda>i. lh_tab t ! i) is else []) }"

section \<open>Probing\<close>

definition slot_free :: "('k, 'v) lh_entry \<Rightarrow> bool" where
  "slot_free e \<longleftrightarrow> ent_k e = LH_EMPTY \<or> ent_k e = LH_FREED"

text \<open>\<open>if ((int) ++n == t->size) n = 0;\<close>\<close>

definition lh_next_slot :: "nat \<Rightarrow> nat \<Rightarrow> nat" where
  "lh_next_slot sz n = (if n + 1 = sz then 0 else n + 1)"

text \<open>
  The insertion loop: the first free slot and the collisions counted on the way. It runs
  for ever when all slots are taken; one round over the table decides that.
\<close>

fun lh_probe_free :: "('k, 'v) lh_entry list \<Rightarrow> nat \<Rightarrow> nat \<Rightarrow> (nat \<times> nat) option" where
  "lh_probe_free tab 0 n = None"
| "lh_probe_free tab (Suc round) n =
     (if slot_free (tab ! n) then Some (n, 0)
      else map_option (\<lambda>(i, c). (i, Suc c)) (lh_probe_free tab round (lh_next_slot (length tab) n)))"

text \<open>The lookup loop, \<open>while (count < t->size)\<close>.\<close>

fun lh_probe_key ::
  "('k \<Rightarrow> 'k \<Rightarrow> bool) \<Rightarrow> ('k, 'v) lh_entry list \<Rightarrow> 'k \<Rightarrow> nat \<Rightarrow> nat \<Rightarrow> nat option" where
  "lh_probe_key eq tab k 0 n = None"
| "lh_probe_key eq tab k (Suc round) n =
     (case ent_k (tab ! n) of
        LH_EMPTY \<Rightarrow> None
      | LH_FREED \<Rightarrow> lh_probe_key eq tab k round (lh_next_slot (length tab) n)
      | Key k' \<Rightarrow> (if eq k' k then Some n
                  else lh_probe_key eq tab k round (lh_next_slot (length tab) n)))"

text \<open>\<open>h % t->size\<close>: undefined for size 0.\<close>

definition lh_home :: "('k, 'v) lh_table \<Rightarrow> 'k \<Rightarrow> nat option" where
  "lh_home t k = (if lh_size t = 0 then None else Some (unat (lh_hash_fn t k) mod nat (lh_size t)))"

section \<open>Operations\<close>

definition lh_upd :: "nat \<Rightarrow> (('k, 'v) lh_entry \<Rightarrow> ('k, 'v) lh_entry) \<Rightarrow>
    ('k, 'v) lh_table \<Rightarrow> ('k, 'v) lh_table" where
  "lh_upd i f t = t\<lparr>lh_tab := (lh_tab t)[i := f (lh_tab t ! i)]\<rparr>"

text \<open>Linking a filled slot in at the end of the list, as \<open>lh_table_insert\<close> does.\<close>

definition lh_link :: "nat \<Rightarrow> ('k, 'v) lh_table \<Rightarrow> ('k, 'v) lh_table option" where
  "lh_link n t =
     (case lh_head t of
        None \<Rightarrow> Some (lh_upd n (\<lambda>e. e\<lparr>ent_next := None, ent_prev := None\<rparr>)
                  (t\<lparr>lh_head := Some n, lh_tail := Some n\<rparr>))
      | Some _ \<Rightarrow>
         (case lh_tail t of
            None \<Rightarrow> None
          | Some l \<Rightarrow>
              Some ((lh_upd n (\<lambda>e. e\<lparr>ent_prev := Some l, ent_next := None\<rparr>)
                     (lh_upd l (\<lambda>e. e\<lparr>ent_next := Some n\<rparr>) t))\<lparr>lh_tail := Some n\<rparr>)))"

text \<open>\<open>t->count >= t->size * LH_LOAD_FACTOR\<close> with \<open>LH_LOAD_FACTOR\<close> 0.66, in hundredths.\<close>

definition lh_overloaded :: "('k, 'v) lh_table \<Rightarrow> bool" where
  "lh_overloaded t \<longleftrightarrow> 100 * lh_count t \<ge> 66 * lh_size t"

fun lh_copy :: "(('k, 'v) lh_table \<Rightarrow> 'k \<Rightarrow> 'v option \<Rightarrow> ('k, 'v) lh_table option) \<Rightarrow>
    ('k, 'v) lh_entry list \<Rightarrow> nat list \<Rightarrow> ('k, 'v) lh_table \<Rightarrow> ('k, 'v) lh_table option" where
  "lh_copy ins tab [] nt = Some nt"
| "lh_copy ins tab (i # is) nt =
     (case ent_k (tab ! i) of
        Key k \<Rightarrow> do { nt \<leftarrow> ins nt k (ent_v (tab ! i)); lh_copy ins tab is nt }
      | _ \<Rightarrow> None)"

text \<open>\<open>lh_table_resize\<close>, over the insertion it calls on the new table.\<close>

definition lh_resize_by ::
  "(('k, 'v) lh_table \<Rightarrow> 'k \<Rightarrow> 'v option \<Rightarrow> ('k, 'v) lh_table option) \<Rightarrow>
   ('k, 'v) lh_table \<Rightarrow> int \<Rightarrow> ('k, 'v) lh_table option" where
  "lh_resize_by ins t new_size =
     do {
       is \<leftarrow> lh_foreach t;
       new_t \<leftarrow> lh_copy ins (lh_tab t) is
         (lh_table_new new_size (lh_name t) False (lh_hash_fn t) (lh_equal_fn t));
       Some (t\<lparr>lh_tab := lh_tab new_t, lh_size := new_size, lh_head := lh_head new_t,
               lh_tail := lh_tail new_t, lh_resizes := lh_resizes t + 1\<rparr>)
     }"

text \<open>The body of \<open>lh_table_insert\<close> after the load test.\<close>

definition lh_insert_slot ::
  "('k, 'v) lh_table \<Rightarrow> 'k \<Rightarrow> 'v option \<Rightarrow> ('k, 'v) lh_table option" where
  "lh_insert_slot t k v =
     do {
       n \<leftarrow> lh_home t k;
       (n, c) \<leftarrow> lh_probe_free (lh_tab t) (length (lh_tab t)) n;
       lh_link n (lh_upd n (\<lambda>e. e\<lparr>ent_k := Key k, ent_v := v\<rparr>)
         (t\<lparr>lh_collisions := lh_collisions t + int c, lh_count := lh_count t + 1\<rparr>))
     }"

text \<open>
  Insertion resizes, and resizing inserts: the first argument bounds how deep the two nest.
  A nested insertion works on a table with fewer entries, so the number of entries is
  enough, and \<open>lh_table_insert\<close> supplies it.
\<close>

primrec lh_insert_nested ::
  "nat \<Rightarrow> ('k, 'v) lh_table \<Rightarrow> 'k \<Rightarrow> 'v option \<Rightarrow> ('k, 'v) lh_table option" where
  "lh_insert_nested 0 = (\<lambda>t k v. None)"
| "lh_insert_nested (Suc d) = (\<lambda>t k v. do {
     let t = t\<lparr>lh_inserts := lh_inserts t + 1\<rparr>;
     t \<leftarrow> (if lh_overloaded t
           then do { twice \<leftarrow> i32 (lh_size t * 2); lh_resize_by (lh_insert_nested d) t twice }
           else Some t);
     lh_insert_slot t k v })"

declare lh_insert_nested.simps [simp del]

definition lh_table_insert ::
  "('k, 'v) lh_table \<Rightarrow> 'k \<Rightarrow> 'v option \<Rightarrow> ('k, 'v) lh_table option" where
  "lh_table_insert t = lh_insert_nested (nat (lh_count t) + 2) t"

definition lh_table_resize :: "('k, 'v) lh_table \<Rightarrow> int \<Rightarrow> ('k, 'v) lh_table option" where
  "lh_table_resize = lh_resize_by lh_table_insert"

definition lh_table_lookup_entry ::
  "('k, 'v) lh_table \<Rightarrow> 'k \<Rightarrow> (nat option \<times> ('k, 'v) lh_table) option" where
  "lh_table_lookup_entry t k =
     do {
       n \<leftarrow> lh_home t k;
       Some (lh_probe_key (lh_equal_fn t) (lh_tab t) k (length (lh_tab t)) n,
             t\<lparr>lh_lookups := lh_lookups t + 1\<rparr>)
     }"

text \<open>Found flag, value stored through \<open>v\<close>, table.\<close>

definition lh_table_lookup_ex ::
  "('k, 'v) lh_table \<Rightarrow> 'k \<Rightarrow> (bool \<times> 'v option \<times> ('k, 'v) lh_table) option" where
  "lh_table_lookup_ex t k =
     do {
       (e, t) \<leftarrow> lh_table_lookup_entry t k;
       Some (case e of Some n \<Rightarrow> (True, ent_v (lh_tab t ! n), t) | None \<Rightarrow> (False, None, t))
     }"

definition lh_table_lookup ::
  "('k, 'v) lh_table \<Rightarrow> 'k \<Rightarrow> ('v option \<times> ('k, 'v) lh_table) option" where
  "lh_table_lookup t k = do { (found, v, t) \<leftarrow> lh_table_lookup_ex t k; Some (v, t) }"

text \<open>Taking entry \<open>n\<close> out of the list; a null link dereferenced is undefined.\<close>

definition lh_unlink :: "nat \<Rightarrow> ('k, 'v) lh_table \<Rightarrow> ('k, 'v) lh_table option" where
  "lh_unlink n t =
     (let e = lh_tab t ! n in
      if lh_tail t = Some n \<and> lh_head t = Some n
      then Some (t\<lparr>lh_head := None, lh_tail := None\<rparr>)
      else if lh_head t = Some n
      then do { m \<leftarrow> ent_next e;
                Some ((lh_upd m (\<lambda>e. e\<lparr>ent_prev := None\<rparr>) t)\<lparr>lh_head := Some m\<rparr>) }
      else if lh_tail t = Some n
      then do { m \<leftarrow> ent_prev e;
                Some ((lh_upd m (\<lambda>e. e\<lparr>ent_next := None\<rparr>) t)\<lparr>lh_tail := Some m\<rparr>) }
      else do { p \<leftarrow> ent_prev e; q \<leftarrow> ent_next e;
                Some (lh_upd q (\<lambda>e'. e'\<lparr>ent_prev := Some p\<rparr>)
                       (lh_upd p (\<lambda>e'. e'\<lparr>ent_next := Some q\<rparr>) t)) })"

text \<open>Result, entries handed to \<open>free_fn\<close>, table.\<close>

definition lh_table_delete_entry ::
  "('k, 'v) lh_table \<Rightarrow> nat \<Rightarrow> (int \<times> ('k, 'v) lh_entry list \<times> ('k, 'v) lh_table) option" where
  "lh_table_delete_entry t n =
     (if n \<ge> length (lh_tab t) then None
      else if slot_free (lh_tab t ! n) then Some (-1, [], t)
      else do {
        let freed = (if lh_free_fn t then [lh_tab t ! n] else []);
        t \<leftarrow> lh_unlink n (lh_upd n (\<lambda>e. e\<lparr>ent_v := None, ent_k := LH_FREED\<rparr>)
               (t\<lparr>lh_count := lh_count t - 1\<rparr>));
        Some (0, freed, lh_upd n (\<lambda>e. e\<lparr>ent_next := None, ent_prev := None\<rparr>) t)
      })"

definition lh_table_delete ::
  "('k, 'v) lh_table \<Rightarrow> 'k \<Rightarrow> (int \<times> ('k, 'v) lh_entry list \<times> ('k, 'v) lh_table) option" where
  "lh_table_delete t k =
     do {
       (e, t) \<leftarrow> lh_table_lookup_entry t k;
       case e of None \<Rightarrow> Some (-1, [], t) | Some n \<Rightarrow> lh_table_delete_entry t n
     }"

definition lh_table_length :: "('k, 'v) lh_table \<Rightarrow> int" where
  "lh_table_length t = lh_count t"

section \<open>Doubly linked segments\<close>

text \<open>
  \<open>dseg tab p c is q r\<close>: following \<open>next\<close> from \<open>c\<close> passes the entries \<open>is\<close> and arrives at
  \<open>r\<close>; the \<open>prev\<close> links lead back, from \<open>q\<close> at the last entry to \<open>p\<close> before the first.
\<close>

fun dseg :: "('k, 'v) lh_entry list \<Rightarrow> nat option \<Rightarrow> nat option \<Rightarrow> nat list \<Rightarrow>
    nat option \<Rightarrow> nat option \<Rightarrow> bool" where
  "dseg tab p c [] q r \<longleftrightarrow> c = r \<and> p = q"
| "dseg tab p c (i # is) q r \<longleftrightarrow>
     c = Some i \<and> i < length tab \<and> ent_prev (tab ! i) = p
     \<and> dseg tab (Some i) (ent_next (tab ! i)) is q r"

lemma dseg_append:
  "dseg tab p c (xs @ ys) q r \<longleftrightarrow> (\<exists>m n. dseg tab p c xs m n \<and> dseg tab m n ys q r)"
  by (induction xs arbitrary: p c) auto

lemma dseg_bounds: "dseg tab p c is q r \<Longrightarrow> i \<in> set is \<Longrightarrow> i < length tab"
  by (induction "is" arbitrary: p c) auto

lemma dseg_frame:
  assumes "length tab' = length tab"
    and "\<And>i. i \<in> set is \<Longrightarrow> ent_next (tab' ! i) = ent_next (tab ! i)
           \<and> ent_prev (tab' ! i) = ent_prev (tab ! i)"
  shows "dseg tab' p c is q r = dseg tab p c is q r"
  using assms(2) by (induction "is" arbitrary: p c) (auto simp: assms(1))

lemma dseg_update_other [simp]:
  "i \<notin> set is \<Longrightarrow> dseg (tab[i := e]) p c is q r = dseg tab p c is q r"
  by (rule dseg_frame) (simp, metis nth_list_update_neq)

lemma dseg_update_payload:
  "ent_next e = ent_next (tab ! i) \<Longrightarrow> ent_prev e = ent_prev (tab ! i) \<Longrightarrow>
   dseg (tab[i := e]) p c is q r = dseg tab p c is q r"
  by (rule dseg_frame) (simp, cases "i < length tab", simp_all add: nth_list_update list_update_beyond)

lemma dseg_set_next:
  assumes "dseg tab p c (xs @ [l]) q r" "distinct (xs @ [l])"
  shows "dseg (tab[l := (tab ! l)\<lparr>ent_next := n\<rparr>]) p c (xs @ [l]) q n"
  using assms by (auto simp: dseg_append)

lemma dseg_set_prev:
  assumes "dseg tab p c (l # xs) q r" "distinct (l # xs)"
  shows "dseg (tab[l := (tab ! l)\<lparr>ent_prev := n\<rparr>]) n c (l # xs) q r"
  using assms by auto

lemma dseg_walk:
  "dseg tab p c is q None \<Longrightarrow> length is \<le> fuel \<Longrightarrow> lh_walk tab fuel c = Some is"
proof (induction "is" arbitrary: p c fuel)
  case (Cons i "is")
  then obtain f where "fuel = Suc f" by (cases fuel) auto
  with Cons show ?case by auto
qed simp

section \<open>Probe sequences\<close>

lemma lh_next_slot_mod: "n < sz \<Longrightarrow> lh_next_slot sz n = Suc n mod sz"
  by (auto simp: lh_next_slot_def mod_less)

lemma lh_next_slot_lt [simp]: "n < sz \<Longrightarrow> lh_next_slot sz n < sz"
  by (simp add: lh_next_slot_def)

lemma Suc_mod_lt [simp]: "n < sz \<Longrightarrow> Suc n mod sz < sz"
  by simp

lemma probe_shift: "(Suc n mod sz + j) mod sz = (n + Suc j) mod (sz::nat)"
  by (metis add_Suc_right add_Suc mod_add_left_eq)

lemma probe_free_Some:
  assumes "lh_probe_free tab r n = Some (i, c)" "n < length tab"
  shows "c < r \<and> i = (n + c) mod length tab \<and> slot_free (tab ! i)"
  using assms
proof (induction r arbitrary: n i c)
  case (Suc r)
  show ?case
  proof (cases "slot_free (tab ! n)")
    case True
    then show ?thesis using Suc.prems by auto
  next
    case False
    have lt: "lh_next_slot (length tab) n < length tab"
      using Suc.prems by simp
    obtain c' where c': "c = Suc c'"
      "lh_probe_free tab r (lh_next_slot (length tab) n) = Some (i, c')"
      using False Suc.prems by auto
    show ?thesis
      using Suc.IH [OF c'(2) lt] c'(1) Suc.prems by (auto simp: lh_next_slot_mod probe_shift)
  qed
qed simp

lemma probe_free_before:
  assumes "lh_probe_free tab r n = Some (i, c)" "n < length tab" "j < c"
  shows "\<not> slot_free (tab ! ((n + j) mod length tab))"
  using assms
proof (induction r arbitrary: n i c j)
  case (Suc r)
  have False: "\<not> slot_free (tab ! n)" using Suc.prems by (auto split: if_splits)
  have lt: "lh_next_slot (length tab) n < length tab"
    using Suc.prems by simp
  obtain c' where c': "c = Suc c'"
    "lh_probe_free tab r (lh_next_slot (length tab) n) = Some (i, c')"
    using False Suc.prems by auto
  show ?case
  proof (cases j)
    case 0
    then show ?thesis using False Suc.prems by simp
  next
    case (Suc j')
    then show ?thesis
      using Suc.IH [OF c'(2) lt, of j'] c'(1) Suc.prems by (simp add: lh_next_slot_mod probe_shift)
  qed
qed simp

lemma probe_free_exists:
  assumes "n < length tab" "j < r" "slot_free (tab ! ((n + j) mod length tab))"
  shows "lh_probe_free tab r n \<noteq> None"
  using assms
proof (induction r arbitrary: n j)
  case (Suc r)
  show ?case
  proof (cases "slot_free (tab ! n)")
    case False
    then obtain j' where "j = Suc j'" using Suc.prems by (cases j) auto
    then show ?thesis
      using False Suc.prems Suc.IH [of "lh_next_slot (length tab) n" j']
      by (simp add: lh_next_slot_mod probe_shift)
  qed simp
qed simp

lemma probe_key_Some:
  assumes "lh_probe_key eq tab k r n = Some i" "n < length tab"
  shows "i < length tab \<and> (\<exists>k'. ent_k (tab ! i) = Key k' \<and> eq k' k)"
  using assms
proof (induction r arbitrary: n)
  case (Suc r)
  then show ?case
    by (auto split: slot.splits if_splits simp: lh_next_slot_mod)
qed simp

lemma probe_key_exists:
  assumes "n < length tab" "j < r" "ent_k (tab ! ((n + j) mod length tab)) = Key k" "eq k k"
    and "\<And>j'. j' < j \<Longrightarrow> ent_k (tab ! ((n + j') mod length tab)) \<noteq> LH_EMPTY"
  shows "lh_probe_key eq tab k r n \<noteq> None"
  using assms
proof (induction r arbitrary: n j)
  case (Suc r)
  show ?case
  proof (cases j)
    case 0
    then show ?thesis using Suc.prems by simp
  next
    case (Suc j')
    have ne: "ent_k (tab ! n) \<noteq> LH_EMPTY"
      using Suc.prems(5) [of 0] Suc.prems(1) Suc by simp
    have "lh_probe_key eq tab k r (lh_next_slot (length tab) n) \<noteq> None"
    proof (rule Suc.IH)
      fix i assume "i < j'"
      then show "ent_k (tab ! ((lh_next_slot (length tab) n + i) mod length tab)) \<noteq> LH_EMPTY"
        using Suc.prems(5) [of "Suc i"] Suc.prems(1) Suc by (simp add: lh_next_slot_mod probe_shift)
    qed (use Suc.prems Suc in \<open>simp_all add: lh_next_slot_mod probe_shift\<close>)
    with ne show ?thesis by (auto split: slot.split)
  qed
qed simp

section \<open>Invariant and abstraction\<close>

text \<open>
  Every key is reachable from its home slot without crossing a slot that was never used.
\<close>

definition probe_ok :: "('k, 'v) lh_entry list \<Rightarrow> ('k \<Rightarrow> nat) \<Rightarrow> bool" where
  "probe_ok tab h \<longleftrightarrow>
     (\<forall>i < length tab. \<forall>k. ent_k (tab ! i) = Key k \<longrightarrow>
       (\<exists>d < length tab. (h k mod length tab + d) mod length tab = i
         \<and> (\<forall>j < d. ent_k (tab ! ((h k mod length tab + j) mod length tab)) \<noteq> LH_EMPTY)))"

definition lh_pairs :: "('k, 'v) lh_entry list \<Rightarrow> nat list \<Rightarrow> ('k \<times> 'v option) list" where
  "lh_pairs tab is = map (\<lambda>i. (the_key (ent_k (tab ! i)), ent_v (tab ! i))) is"

lemma length_lh_pairs [simp]: "length (lh_pairs tab is) = length is"
  by (simp add: lh_pairs_def)

text \<open>The table as the list of its pairs in insertion order.\<close>

definition lh_entries :: "('k, 'v) lh_table \<Rightarrow> ('k \<times> 'v option) list" where
  "lh_entries t = (case lh_foreach t of Some is \<Rightarrow> lh_pairs (lh_tab t) is | None \<Rightarrow> [])"

definition lh_hash :: "('k, 'v) lh_table \<Rightarrow> 'k \<Rightarrow> nat" where
  "lh_hash t k = unat (lh_hash_fn t k)"

definition lh_repr :: "('k, 'v) lh_table \<Rightarrow> nat list \<Rightarrow> bool" where
  "lh_repr t is \<longleftrightarrow>
     lh_size t = int (length (lh_tab t)) \<and> lh_tab t \<noteq> []
     \<and> dseg (lh_tab t) None (lh_head t) is (lh_tail t) None
     \<and> distinct is \<and> set is = {i. i < length (lh_tab t) \<and> \<not> slot_free (lh_tab t ! i)}
     \<and> lh_count t = int (length is) \<and> probe_ok (lh_tab t) (lh_hash t) \<and> lh_equal_fn t = (=)"

definition lh_inv :: "('k, 'v) lh_table \<Rightarrow> bool" where
  "lh_inv t \<longleftrightarrow> (\<exists>is. lh_repr t is) \<and> distinct (map fst (lh_entries t))"

lemma reprD:
  assumes "lh_repr t is"
  shows "lh_size t = int (length (lh_tab t))" "lh_tab t \<noteq> []"
    "dseg (lh_tab t) None (lh_head t) is (lh_tail t) None" "distinct is"
    "set is = {i. i < length (lh_tab t) \<and> \<not> slot_free (lh_tab t ! i)}"
    "lh_count t = int (length is)" "probe_ok (lh_tab t) (lh_hash t)" "lh_equal_fn t = (=)"
  using assms unfolding lh_repr_def by blast+

lemma repr_length: "lh_repr t is \<Longrightarrow> length is \<le> length (lh_tab t)"
proof -
  assume r: "lh_repr t is"
  have "card (set is) \<le> card {..<length (lh_tab t)}"
    by (rule card_mono) (use reprD(5) [OF r] in auto)
  then show ?thesis using distinct_card [OF reprD(4) [OF r]] by simp
qed

lemma repr_foreach:
  assumes "lh_repr t is"
  shows "lh_foreach t = Some is" "lh_entries t = lh_pairs (lh_tab t) is"
proof -
  show "lh_foreach t = Some is"
    unfolding lh_foreach_def by (rule dseg_walk [OF reprD(3) [OF assms] repr_length [OF assms]])
  then show "lh_entries t = lh_pairs (lh_tab t) is" by (simp add: lh_entries_def)
qed

lemma repr_free_slot:
  assumes "lh_repr t is" "length is < length (lh_tab t)"
  shows "\<exists>i < length (lh_tab t). slot_free (lh_tab t ! i)"
proof (rule ccontr)
  assume "\<not> ?thesis"
  then have "set is = {..<length (lh_tab t)}" using reprD(5) [OF assms(1)] by blast
  then have "length is = length (lh_tab t)"
    by (metis card_lessThan distinct_card reprD(4) [OF assms(1)])
  with assms show False by simp
qed

lemma reach_slot: "h < sz \<Longrightarrow> i < sz \<Longrightarrow> \<exists>j < sz. (h + j) mod sz = (i::nat)"
proof -
  assume "h < sz" "i < sz"
  then have "(h + (i + sz - h)) mod sz = i" by simp
  then have "(h + (i + sz - h) mod sz) mod sz = i" by (simp only: mod_add_right_eq)
  moreover have "(i + sz - h) mod sz < sz" using \<open>i < sz\<close> by simp
  ultimately show ?thesis by blast
qed

lemma repr_home:
  assumes "lh_repr t is"
  shows "lh_home t k = Some (lh_hash t k mod length (lh_tab t))"
    "lh_hash t k mod length (lh_tab t) < length (lh_tab t)"
  using reprD(1,2) [OF assms] by (simp_all add: lh_home_def lh_hash_def)

lemma slot_free_iff: "slot_free e \<longleftrightarrow> (\<forall>k. ent_k e \<noteq> Key k)"
  by (cases "ent_k e") (auto simp: slot_free_def)

text \<open>Filling a slot that probing found keeps every probe sequence intact.\<close>

lemma probe_ok_fill:
  assumes ok: "probe_ok tab h" and len: "length tab' = length tab"
    and keys: "\<And>i. i < length tab \<Longrightarrow> ent_k (tab' ! i) = (if i = n then Key k else ent_k (tab ! i))"
    and n: "n = (h k mod length tab + c) mod length tab" "c < length tab"
    and before: "\<And>j. j < c \<Longrightarrow> \<not> slot_free (tab ! ((h k mod length tab + j) mod length tab))"
  shows "probe_ok tab' h"
  unfolding probe_ok_def len
proof (intro allI impI)
  fix i k' assume i: "i < length tab" and key: "ent_k (tab' ! i) = Key k'"
  have ne: "ent_k (tab' ! m) \<noteq> LH_EMPTY" if "ent_k (tab ! m) \<noteq> LH_EMPTY" "m < length tab" for m
    using keys [OF that(2)] that(1) by simp
  have lt: "(x::nat) mod length tab < length tab" for x
    using i by (meson mod_less_divisor order_le_less_trans zero_le)
  show "\<exists>d<length tab. (h k' mod length tab + d) mod length tab = i
      \<and> (\<forall>j<d. ent_k (tab' ! ((h k' mod length tab + j) mod length tab)) \<noteq> LH_EMPTY)"
  proof (cases "i = n")
    case True
    then have "k' = k" using keys [OF i] key by simp
    moreover have "ent_k (tab ! ((h k mod length tab + j) mod length tab)) \<noteq> LH_EMPTY" if "j < c" for j
      using before [OF that] by (auto simp: slot_free_def)
    ultimately show ?thesis using n True ne lt by blast
  next
    case False
    then have "ent_k (tab ! i) = Key k'" using keys [OF i] key by simp
    then obtain d where "d < length tab" "(h k' mod length tab + d) mod length tab = i"
      "\<forall>j<d. ent_k (tab ! ((h k' mod length tab + j) mod length tab)) \<noteq> LH_EMPTY"
      using ok i unfolding probe_ok_def by blast
    then show ?thesis using ne lt by blast
  qed
qed

text \<open>Turning a key into a tombstone does too.\<close>

lemma probe_ok_free:
  assumes ok: "probe_ok tab h" and len: "length tab' = length tab"
    and keys: "\<And>i. i < length tab \<Longrightarrow> ent_k (tab' ! i) = (if i = n then LH_FREED else ent_k (tab ! i))"
  shows "probe_ok tab' h"
  unfolding probe_ok_def len
proof (intro allI impI)
  fix i k' assume i: "i < length tab" and key: "ent_k (tab' ! i) = Key k'"
  have lt: "(x::nat) mod length tab < length tab" for x
    using i by (meson mod_less_divisor order_le_less_trans zero_le)
  have "ent_k (tab ! i) = Key k'" using keys [OF i] key by (simp split: if_splits)
  then obtain d where d: "d < length tab" "(h k' mod length tab + d) mod length tab = i"
    "\<forall>j<d. ent_k (tab ! ((h k' mod length tab + j) mod length tab)) \<noteq> LH_EMPTY"
    using ok i unfolding probe_ok_def by blast
  then have "\<forall>j<d. ent_k (tab' ! ((h k' mod length tab + j) mod length tab)) \<noteq> LH_EMPTY"
    using keys lt by simp
  with d show "\<exists>d<length tab. (h k' mod length tab + d) mod length tab = i
      \<and> (\<forall>j<d. ent_k (tab' ! ((h k' mod length tab + j) mod length tab)) \<noteq> LH_EMPTY)" by blast
qed

section \<open>Linking and unlinking\<close>

definition same_payload :: "('k, 'v) lh_entry list \<Rightarrow> ('k, 'v) lh_entry list \<Rightarrow> bool" where
  "same_payload tab' tab \<longleftrightarrow> length tab' = length tab
     \<and> (\<forall>i. ent_k (tab' ! i) = ent_k (tab ! i) \<and> ent_v (tab' ! i) = ent_v (tab ! i))"

lemma same_payload_refl [simp]: "same_payload tab tab"
  by (simp add: same_payload_def)

lemma same_payload_upd [simp]:
  assumes "ent_k e = ent_k (tab ! i)" "ent_v e = ent_v (tab ! i)" "same_payload tab tab0"
  shows "same_payload (tab[i := e]) tab0"
  using assms by (cases "i < length tab") (auto simp: same_payload_def nth_list_update list_update_beyond)

lemma dseg_nonempty_head: "dseg tab p c (x # xs) q r \<Longrightarrow> c = Some x"
  by simp

lemma dseg_last_tail: "dseg tab p c (xs @ [l]) q r \<Longrightarrow> q = Some l \<and> l < length tab \<and> ent_next (tab ! l) = r"
  by (auto simp: dseg_append)

lemma dseg_tail: "dseg tab p c is q r \<Longrightarrow> q = (if is = [] then p else Some (last is))"
  by (induction "is" arbitrary: p c) auto

lemma lh_link_ok:
  assumes seg: "dseg (lh_tab t) None (lh_head t) is (lh_tail t) None" and dist: "distinct is"
    and n: "n \<notin> set is" "n < length (lh_tab t)"
  obtains tab' hd' tl' where
    "lh_link n t = Some (t\<lparr>lh_tab := tab', lh_head := hd', lh_tail := tl'\<rparr>)"
    "dseg tab' None hd' (is @ [n]) tl' None" "same_payload tab' (lh_tab t)"
proof (cases "is" rule: rev_cases)
  case Nil
  let ?tab = "(lh_tab t)[n := (lh_tab t ! n)\<lparr>ent_next := None, ent_prev := None\<rparr>]"
  have "lh_head t = None" using seg Nil by simp
  then have "lh_link n t = Some (t\<lparr>lh_tab := ?tab, lh_head := Some n, lh_tail := Some n\<rparr>)"
    by (simp add: lh_link_def lh_upd_def)
  moreover have "dseg ?tab None (Some n) (is @ [n]) (Some n) None" using Nil n by simp
  ultimately show thesis using that by simp
next
  case (snoc xs l)
  let ?tab1 = "(lh_tab t)[l := (lh_tab t ! l)\<lparr>ent_next := Some n\<rparr>]"
  let ?tab = "?tab1[n := (?tab1 ! n)\<lparr>ent_prev := Some l, ent_next := None\<rparr>]"
  have tail: "lh_tail t = Some l" "l < length (lh_tab t)" using seg unfolding snoc by (blast dest: dseg_last_tail)+
  obtain h where head: "lh_head t = Some h" using seg snoc tail by (cases xs) auto
  have "lh_link n t = Some (t\<lparr>lh_tab := ?tab, lh_head := Some h, lh_tail := Some n\<rparr>)"
    using head tail by (simp add: lh_link_def lh_upd_def)
  moreover have "dseg ?tab1 None (Some h) (xs @ [l]) (Some l) (Some n)"
    using dseg_set_next [of "lh_tab t" None "lh_head t" xs l] seg dist tail head snoc by simp
  then have "dseg ?tab None (Some h) (xs @ [l]) (Some l) (Some n)"
    using n snoc by simp
  then have "dseg ?tab None (Some h) (is @ [n]) (Some n) None"
    using n snoc tail by (simp add: dseg_append [of _ _ _ "xs @ [l]"] del: append_assoc)
  ultimately show thesis using that by simp
qed

lemma pairs_payload: "same_payload tab' tab \<Longrightarrow> lh_pairs tab' is = lh_pairs tab is"
  by (simp add: same_payload_def lh_pairs_def)

lemma lh_insert_slot_ok:
  assumes r: "lh_repr t is" and lt: "length is < length (lh_tab t)"
  obtains n t' where "lh_insert_slot t k v = Some t'" "lh_repr t' (is @ [n])"
    "lh_pairs (lh_tab t') (is @ [n]) = lh_pairs (lh_tab t) is @ [(k, v)]"
    "lh_size t' = lh_size t" "lh_hash_fn t' = lh_hash_fn t" "lh_name t' = lh_name t"
    "lh_free_fn t' = lh_free_fn t" "lh_equal_fn t' = lh_equal_fn t"
proof -
  let ?tab = "lh_tab t" and ?h = "lh_hash t k mod length (lh_tab t)"
  note R = reprD [OF r] and home = repr_home [OF r, of k]
  obtain i where "i < length ?tab" "slot_free (?tab ! i)" using repr_free_slot [OF r lt] by blast
  then obtain j where "j < length ?tab" "slot_free (?tab ! ((?h + j) mod length ?tab))"
    using reach_slot [OF home(2)] by blast
  then obtain n c where probe: "lh_probe_free ?tab (length ?tab) ?h = Some (n, c)"
    using probe_free_exists [OF home(2)] by fastforce
  note found = probe_free_Some [OF probe home(2)]
  have n: "n < length ?tab" "n \<notin> set is" using found R(2) R(5) by auto
  let ?t1 = "lh_upd n (\<lambda>e. e\<lparr>ent_k := Key k, ent_v := v\<rparr>)
      (t\<lparr>lh_collisions := lh_collisions t + int c, lh_count := lh_count t + 1\<rparr>)"
  let ?tab1 = "?tab[n := (?tab ! n)\<lparr>ent_k := Key k, ent_v := v\<rparr>]"
  have tab1: "lh_tab ?t1 = ?tab1" by (simp add: lh_upd_def)
  have seg1: "dseg (lh_tab ?t1) None (lh_head ?t1) is (lh_tail ?t1) None"
    using R(3) n by (simp add: lh_upd_def)
  have n1: "n < length (lh_tab ?t1)" using n tab1 by simp
  obtain tab' hd' tl' where link:
    "lh_link n ?t1 = Some (?t1\<lparr>lh_tab := tab', lh_head := hd', lh_tail := tl'\<rparr>)"
    "dseg tab' None hd' (is @ [n]) tl' None" "same_payload tab' ?tab1"
    using lh_link_ok [OF seg1 R(4) n(2) n1] tab1 by metis
  let ?t' = "?t1\<lparr>lh_tab := tab', lh_head := hd', lh_tail := tl'\<rparr>"
  have len: "length tab' = length ?tab" using link(3) by (simp add: same_payload_def)
  have keys: "ent_k (tab' ! i) = (if i = n then Key k else ent_k (?tab ! i))"
    and vals: "ent_v (tab' ! i) = (if i = n then v else ent_v (?tab ! i))"
    if "i < length ?tab" for i
    using link(3) that by (auto simp: same_payload_def nth_list_update)
  have "probe_ok tab' (lh_hash t)"
    using probe_ok_fill [OF R(7) len keys, where c = c] found probe_free_before [OF probe home(2)] by blast
  moreover have "set (is @ [n]) = {i. i < length tab' \<and> \<not> slot_free (tab' ! i)}"
  proof -
    have "slot_free (tab' ! i) = (i \<noteq> n \<and> slot_free (?tab ! i))" if "i < length ?tab" for i
      using keys [OF that] by (simp add: slot_free_def)
    then show ?thesis using n(1) R(5) len by auto
  qed
  moreover have "lh_hash ?t' = lh_hash t" by (simp add: lh_hash_def lh_upd_def fun_eq_iff)
  moreover have "length tab' = length ?tab" "tab' \<noteq> []" using len R(2) by auto
  ultimately have "lh_repr ?t' (is @ [n])"
    using R(1,4,6,8) link(2) n(2) by (simp add: lh_repr_def lh_upd_def)
  moreover have "lh_insert_slot t k v = Some ?t'"
    using home probe link(1) by (simp add: lh_insert_slot_def)
  moreover have "lh_pairs tab' is = lh_pairs ?tab is"
    unfolding lh_pairs_def using n R(5) by (intro map_cong) (auto simp: keys vals)
  then have "lh_pairs (lh_tab ?t') (is @ [n]) = lh_pairs ?tab is @ [(k, v)]"
    using keys [OF n(1)] vals [OF n(1)] by (simp add: lh_pairs_def)
  ultimately show thesis using that by (simp add: lh_upd_def)
qed

section \<open>Insertion and resizing\<close>

lemma repr_statistics [simp]:
  "lh_repr (t\<lparr>lh_inserts := a\<rparr>) is = lh_repr t is"
  "lh_repr (t\<lparr>lh_lookups := a\<rparr>) is = lh_repr t is"
  "lh_repr (t\<lparr>lh_resizes := a\<rparr>) is = lh_repr t is"
  by (simp_all add: lh_repr_def lh_hash_def [abs_def])

lemma repr_new:
  "0 < sz \<Longrightarrow> lh_repr (lh_table_new sz name f h (=)) []"
  by (auto simp: lh_repr_def lh_table_new_def probe_ok_def lh_empty_entry_def slot_free_def)

text \<open>On a table below the load limit every nesting depth inserts the same way.\<close>

definition inserts_light ::
  "(('k, 'v) lh_table \<Rightarrow> 'k \<Rightarrow> 'v option \<Rightarrow> ('k, 'v) lh_table option) \<Rightarrow> bool" where
  "inserts_light ins \<longleftrightarrow> (\<forall>t k v. \<not> lh_overloaded t \<longrightarrow>
     ins t k v = lh_insert_slot (t\<lparr>lh_inserts := lh_inserts t + 1\<rparr>) k v)"

lemma inserts_light_nested: "inserts_light (lh_insert_nested (Suc d))"
  by (simp add: inserts_light_def lh_overloaded_def lh_insert_nested.simps)

lemma inserts_light_insert: "inserts_light lh_table_insert"
  by (simp add: inserts_light_def lh_table_insert_def lh_overloaded_def lh_insert_nested.simps)

lemma repr_light:
  assumes "lh_repr t is" "100 * int (length is) < 66 * lh_size t"
  shows "\<not> lh_overloaded t" "length is < length (lh_tab t)"
  using assms(2) reprD(1,6) [OF assms(1)] by (auto simp: lh_overloaded_def)

lemma insert_light_ok:
  assumes ins: "inserts_light ins"
    and r: "lh_repr t is" and light: "100 * int (length is) < 66 * lh_size t"
  obtains n t' where "ins t k v = Some t'" "lh_repr t' (is @ [n])"
    "lh_pairs (lh_tab t') (is @ [n]) = lh_pairs (lh_tab t) is @ [(k, v)]"
    "lh_size t' = lh_size t" "lh_hash_fn t' = lh_hash_fn t" "lh_name t' = lh_name t"
    "lh_free_fn t' = lh_free_fn t" "lh_equal_fn t' = lh_equal_fn t"
proof -
  let ?t = "t\<lparr>lh_inserts := lh_inserts t + 1\<rparr>"
  have "lh_repr ?t is" "length is < length (lh_tab ?t)"
    using r repr_light [OF r light] by simp_all
  then obtain n t' where "lh_insert_slot ?t k v = Some t'" "lh_repr t' (is @ [n])"
    "lh_pairs (lh_tab t') (is @ [n]) = lh_pairs (lh_tab ?t) is @ [(k, v)]"
    "lh_size t' = lh_size ?t" "lh_hash_fn t' = lh_hash_fn ?t" "lh_name t' = lh_name ?t"
    "lh_free_fn t' = lh_free_fn ?t" "lh_equal_fn t' = lh_equal_fn ?t"
    by (rule lh_insert_slot_ok)
  then show thesis using that repr_light(1) [OF r light] ins by (simp add: inserts_light_def)
qed

lemma lh_copy_ok:
  assumes ins: "inserts_light ins"
    and "lh_repr nt js" "\<And>i. i \<in> set is \<Longrightarrow> \<not> slot_free (tab ! i)"
    and "100 * int (length js + length is) < 66 * lh_size nt + 100"
  shows "\<exists>nt' js'. lh_copy ins tab is nt = Some nt' \<and> lh_repr nt' js'
    \<and> lh_pairs (lh_tab nt') js' = lh_pairs (lh_tab nt) js @ lh_pairs tab is
    \<and> lh_size nt' = lh_size nt \<and> lh_hash_fn nt' = lh_hash_fn nt"
  using assms(2-)
proof (induction "is" arbitrary: nt js)
  case Nil
  then show ?case by (auto simp: lh_pairs_def)
next
  case (Cons i "is")
  obtain k where k: "ent_k (tab ! i) = Key k" using Cons.prems(2) [of i] by (auto simp: slot_free_iff)
  have light: "100 * int (length js) < 66 * lh_size nt" using Cons.prems(3) by simp
  obtain n nt1 where 1: "ins nt k (ent_v (tab ! i)) = Some nt1"
    "lh_repr nt1 (js @ [n])"
    "lh_pairs (lh_tab nt1) (js @ [n]) = lh_pairs (lh_tab nt) js @ [(k, ent_v (tab ! i))]"
    "lh_size nt1 = lh_size nt" "lh_hash_fn nt1 = lh_hash_fn nt"
    by (rule insert_light_ok [OF ins Cons.prems(1) light])
  have "100 * int (length (js @ [n]) + length is) < 66 * lh_size nt1 + 100"
    using Cons.prems(3) 1(4) by simp
  then obtain nt' js' where "lh_copy ins tab is nt1 = Some nt'" "lh_repr nt' js'"
    "lh_pairs (lh_tab nt') js' = lh_pairs (lh_tab nt1) (js @ [n]) @ lh_pairs tab is"
    "lh_size nt' = lh_size nt1" "lh_hash_fn nt' = lh_hash_fn nt1"
    using Cons.IH [OF 1(2)] Cons.prems(2) by (metis list.set_intros(2))
  then show ?case using 1 k by (auto simp: lh_pairs_def)
qed

lemma lh_resize_ok:
  assumes ins: "inserts_light ins" and r: "lh_repr t is" and sz: "0 < sz" "100 * int (length is) < 66 * sz + 100"
  obtains t' js where "lh_resize_by ins t sz = Some t'" "lh_repr t' js"
    "lh_pairs (lh_tab t') js = lh_pairs (lh_tab t) is" "lh_size t' = sz" "lh_count t' = lh_count t"
    "lh_hash_fn t' = lh_hash_fn t" "lh_equal_fn t' = lh_equal_fn t" "lh_free_fn t' = lh_free_fn t"
    "lh_name t' = lh_name t"
proof -
  note R = reprD [OF r]
  let ?nt = "lh_table_new sz (lh_name t) False (lh_hash_fn t) (lh_equal_fn t)"
  have new: "lh_repr ?nt []" "lh_size ?nt = sz" "lh_hash_fn ?nt = lh_hash_fn t" "lh_pairs (lh_tab ?nt) [] = []"
    using repr_new [OF sz(1)] R(8) by (auto simp: lh_table_new_def lh_pairs_def)
  have keys: "\<And>i. i \<in> set is \<Longrightarrow> \<not> slot_free (lh_tab t ! i)" using R(5) by blast
  have lt: "100 * int (length ([]::nat list) + length is) < 66 * lh_size ?nt + 100"
    using sz(2) by (simp add: lh_table_new_def)
  obtain nt js where copy: "lh_copy ins (lh_tab t) is ?nt = Some nt"
    "lh_repr nt js" "lh_pairs (lh_tab nt) js = lh_pairs (lh_tab t) is" "lh_size nt = sz"
    "lh_hash_fn nt = lh_hash_fn t"
    using lh_copy_ok [OF ins new(1) keys lt] unfolding new(2,3,4) append_Nil by blast
  let ?t = "t\<lparr>lh_tab := lh_tab nt, lh_size := sz, lh_head := lh_head nt,
      lh_tail := lh_tail nt, lh_resizes := lh_resizes t + 1\<rparr>"
  have eq: "lh_resize_by ins t sz = Some ?t"
    using repr_foreach [OF r] copy(1) by (simp add: lh_resize_by_def)
  note N = reprD [OF copy(2)]
  have len: "length js = length is" using arg_cong [OF copy(3), of length] by simp
  have "lh_hash ?t = lh_hash nt" by (simp add: lh_hash_def fun_eq_iff copy(5))
  then have "lh_repr ?t js"
    using N(1-5,7) R(6,8) copy(4) len by (simp add: lh_repr_def)
  then show thesis using that [OF eq] copy(3) by simp
qed

lemma repr_bound: "lh_repr t is \<Longrightarrow> int (length is) \<le> lh_size t"
  using repr_length [of t "is"] reprD(1) [of t "is"] by simp

lemma lh_insert_repr:
  assumes r: "lh_repr t is" and sz: "lh_size t < 2 ^ 30"
  obtains t' js where "lh_table_insert t k v = Some t'" "lh_repr t' js"
    "lh_pairs (lh_tab t') js = lh_pairs (lh_tab t) is @ [(k, v)]"
    "lh_size t' = (if lh_overloaded t then 2 * lh_size t else lh_size t)"
    "lh_hash_fn t' = lh_hash_fn t" "lh_free_fn t' = lh_free_fn t" "lh_equal_fn t' = lh_equal_fn t"
proof (cases "lh_overloaded t")
  case False
  then have light: "100 * int (length is) < 66 * lh_size t"
    using reprD(6) [OF r] by (simp add: lh_overloaded_def)
  obtain n t' where "lh_insert_nested (Suc (Suc (nat (lh_count t)))) t k v = Some t'"
    "lh_repr t' (is @ [n])" "lh_pairs (lh_tab t') (is @ [n]) = lh_pairs (lh_tab t) is @ [(k, v)]"
    "lh_size t' = lh_size t" "lh_hash_fn t' = lh_hash_fn t" "lh_free_fn t' = lh_free_fn t"
    "lh_equal_fn t' = lh_equal_fn t"
    by (rule insert_light_ok [OF inserts_light_nested r light])
  then show thesis using that [of t' "is @ [n]"] False by (simp add: lh_table_insert_def)
next
  case True
  let ?d = "nat (lh_count t)"
  let ?t = "t\<lparr>lh_inserts := lh_inserts t + 1\<rparr>"
  have pos: "0 < lh_size t" using reprD(1,2) [OF r] by simp
  have r': "lh_repr ?t is" using r by simp
  have "100 * int (length is) < 66 * (lh_size t * 2) + 100" using repr_bound [OF r] pos by simp
  moreover have "0 < lh_size t * 2" using pos by simp
  ultimately have fits: "0 < lh_size t * 2" "100 * int (length is) < 66 * (lh_size t * 2) + 100"
    by simp_all
  obtain t1 js where 1: "lh_resize_by (lh_insert_nested (Suc ?d)) ?t (lh_size t * 2) = Some t1"
    "lh_repr t1 js" "lh_pairs (lh_tab t1) js = lh_pairs (lh_tab ?t) is" "lh_size t1 = lh_size t * 2"
    "lh_hash_fn t1 = lh_hash_fn ?t" "lh_equal_fn t1 = lh_equal_fn ?t" "lh_free_fn t1 = lh_free_fn ?t"
    by (rule lh_resize_ok [OF inserts_light_nested r' fits])
  have "length js = length is" using arg_cong [OF 1(3), of length] by simp
  then have room: "length js < length (lh_tab t1)"
    using repr_bound [OF r] pos 1(4) reprD(1) [OF 1(2)] by simp
  obtain n t' where 2: "lh_insert_slot t1 k v = Some t'" "lh_repr t' (js @ [n])"
    "lh_pairs (lh_tab t') (js @ [n]) = lh_pairs (lh_tab t1) js @ [(k, v)]" "lh_size t' = lh_size t1"
    "lh_hash_fn t' = lh_hash_fn t1" "lh_free_fn t' = lh_free_fn t1" "lh_equal_fn t' = lh_equal_fn t1"
    by (rule lh_insert_slot_ok [OF 1(2) room])
  have over: "lh_overloaded ?t" using True by (simp add: lh_overloaded_def)
  have "INT32_MIN \<le> lh_size t * 2" "lh_size t * 2 \<le> INT32_MAX" using pos sz by simp_all
  then have "lh_table_insert t k v = Some t'"
    using 1(1) 2(1) over
    by (simp add: lh_table_insert_def Let_def lh_insert_nested.simps(2) [of "Suc ?d"]
       )
  then show thesis using that 2 1 True by simp
qed

section \<open>Lookup\<close>

lemma lh_lookup_repr:
  assumes r: "lh_repr t is"
  obtains (found) n where "n \<in> set is" "ent_k (lh_tab t ! n) = Key k"
      "lh_table_lookup_entry t k = Some (Some n, t\<lparr>lh_lookups := lh_lookups t + 1\<rparr>)"
  | (missing) "k \<notin> fst ` set (lh_pairs (lh_tab t) is)"
      "lh_table_lookup_entry t k = Some (None, t\<lparr>lh_lookups := lh_lookups t + 1\<rparr>)"
proof -
  let ?tab = "lh_tab t" and ?h = "lh_hash t k mod length (lh_tab t)"
  let ?probe = "lh_probe_key (=) ?tab k (length ?tab) ?h"
  note R = reprD [OF r] and home = repr_home [OF r, of k]
  have eq: "lh_table_lookup_entry t k = Some (?probe, t\<lparr>lh_lookups := lh_lookups t + 1\<rparr>)"
    using home R(8) by (simp add: lh_table_lookup_entry_def)
  show thesis
  proof (cases ?probe)
    case (Some n)
    then have "n < length ?tab" "ent_k (?tab ! n) = Key k"
      using probe_key_Some [OF Some home(2)] by auto
    moreover from this have "n \<in> set is" using R(5) by (simp add: slot_free_def)
    ultimately show thesis using found eq Some by simp
  next
    case None
    have "k \<noteq> the_key (ent_k (?tab ! i))" if "i \<in> set is" for i
    proof
      assume k: "k = the_key (ent_k (?tab ! i))"
      have i: "i < length ?tab" "\<not> slot_free (?tab ! i)" using that R(5) by auto
      then have key: "ent_k (?tab ! i) = Key k" using k by (auto simp: slot_free_iff)
      then obtain d where "d < length ?tab" "(?h + d) mod length ?tab = i"
        "\<forall>j<d. ent_k (?tab ! ((?h + j) mod length ?tab)) \<noteq> LH_EMPTY"
        using R(7) i(1) unfolding probe_ok_def by blast
      then show False using probe_key_exists [OF home(2), of d "length ?tab" k "(=)"] key None by simp
    qed
    moreover have "fst ` set (lh_pairs ?tab is) = (\<lambda>i. the_key (ent_k (?tab ! i))) ` set is"
      by (simp add: lh_pairs_def image_image)
    ultimately have "k \<notin> fst ` set (lh_pairs ?tab is)" by blast
    then show thesis using missing eq None by simp
  qed
qed

lemma pairs_map_of:
  assumes "distinct (map fst (lh_pairs tab is))" "n \<in> set is" "ent_k (tab ! n) = Key k"
  shows "map_of (lh_pairs tab is) k = Some (ent_v (tab ! n))"
proof -
  have "(k, ent_v (tab ! n)) \<in> set (lh_pairs tab is)"
    using assms(2,3) by (force simp: lh_pairs_def)
  then show ?thesis using assms(1) by (rule map_of_is_SomeI [rotated])
qed

section \<open>Deletion\<close>

lemma lh_unlink_ok:
  assumes seg: "dseg (lh_tab t) None (lh_head t) (xs @ n # ys) (lh_tail t) None"
    and dist: "distinct (xs @ n # ys)"
  obtains tab' hd' tl' where
    "lh_unlink n t = Some (t\<lparr>lh_tab := tab', lh_head := hd', lh_tail := tl'\<rparr>)"
    "dseg tab' None hd' (xs @ ys) tl' None" "same_payload tab' (lh_tab t)"
proof -
  let ?tab = "lh_tab t"
  obtain a b where left: "dseg ?tab None (lh_head t) xs a b" and b: "b = Some n"
    and n: "n < length ?tab" "ent_prev (?tab ! n) = a"
    and right: "dseg ?tab (Some n) (ent_next (?tab ! n)) ys (lh_tail t) None"
    using seg by (auto simp: dseg_append)
  show thesis
  proof (cases xs rule: rev_cases)
    case Nil
    then have head: "lh_head t = Some n" using left b by simp
    show thesis
    proof (cases ys)
      case (Cons m zs)
      have next_n: "ent_next (?tab ! n) = Some m" using right Cons by simp
      have tail: "lh_tail t \<noteq> Some n"
        using dseg_tail [OF right] dist Cons last_in_set [of ys] by auto
      let ?tab' = "?tab[m := (?tab ! m)\<lparr>ent_prev := None\<rparr>]"
      have "dseg ?tab' None (Some m) ys (lh_tail t) None"
        using dseg_set_prev [of ?tab "Some n" "Some m" m zs "lh_tail t" None None] right dist Cons next_n
        by simp
      moreover have "lh_unlink n t = Some (t\<lparr>lh_tab := ?tab', lh_head := Some m, lh_tail := lh_tail t\<rparr>)"
        using head tail next_n by (simp add: lh_unlink_def lh_upd_def)
      ultimately show thesis using that [of "lh_tail t" "Some m" ?tab'] Nil by simp
    next
      case ys: Nil
      then have "lh_tail t = Some n" using right by simp
      then have "lh_unlink n t = Some (t\<lparr>lh_tab := ?tab, lh_head := None, lh_tail := None\<rparr>)"
        using head by (simp add: lh_unlink_def)
      then show thesis using that [of None None ?tab] Nil ys by simp
    qed
  next
    case (snoc ws l)
    have al: "a = Some l" "l < length ?tab" using left unfolding snoc by (blast dest: dseg_last_tail)+
    have head: "lh_head t \<noteq> Some n" using left dist snoc by (cases ws) auto
    have prev_n: "ent_prev (?tab ! n) = Some l" using n al by simp
    show thesis
    proof (cases ys)
      case Nil
      then have tail: "lh_tail t = Some n" using right by simp
      let ?tab' = "?tab[l := (?tab ! l)\<lparr>ent_next := None\<rparr>]"
      have "dseg ?tab' None (lh_head t) xs (Some l) None"
        using dseg_set_next [of ?tab None "lh_head t" ws l "Some l" b None] left dist snoc al by simp
      moreover have "lh_unlink n t = Some (t\<lparr>lh_tab := ?tab', lh_head := lh_head t, lh_tail := Some l\<rparr>)"
        using head tail prev_n by (simp add: lh_unlink_def lh_upd_def)
      ultimately show thesis using that [of "Some l" "lh_head t" ?tab'] Nil by simp
    next
      case (Cons m zs)
      have next_n: "ent_next (?tab ! n) = Some m" using right Cons by simp
      have tail: "lh_tail t \<noteq> Some n"
        using dseg_tail [OF right] dist Cons last_in_set [of ys] by auto
      let ?tab1 = "?tab[l := (?tab ! l)\<lparr>ent_next := Some m\<rparr>]"
      let ?tab' = "?tab1[m := (?tab1 ! m)\<lparr>ent_prev := Some l\<rparr>]"
      have "dseg ?tab1 None (lh_head t) xs (Some l) (Some m)"
        using dseg_set_next [of ?tab None "lh_head t" ws l "Some l" b "Some m"] left dist snoc al by simp
      then have "dseg ?tab' None (lh_head t) xs (Some l) (Some m)" using dist Cons by simp
      moreover have "dseg ?tab1 (Some n) (Some m) ys (lh_tail t) None"
        using right next_n dist snoc by simp
      then have "dseg ?tab' (Some l) (Some m) ys (lh_tail t) None"
        using dseg_set_prev [of ?tab1 "Some n" "Some m" m zs "lh_tail t" None "Some l"] dist Cons by simp
      ultimately have "dseg ?tab' None (lh_head t) (xs @ ys) (lh_tail t) None"
        unfolding dseg_append by blast
      moreover have "lh_unlink n t
          = Some (t\<lparr>lh_tab := ?tab', lh_head := lh_head t, lh_tail := lh_tail t\<rparr>)"
        using head tail prev_n next_n by (simp add: lh_unlink_def lh_upd_def)
      ultimately show thesis using that [of "lh_tail t" "lh_head t" ?tab'] by simp
    qed
  qed
qed

lemma lh_delete_entry_repr:
  assumes r: "lh_repr t is" and n: "n \<in> set is"
  obtains t' js where "lh_table_delete_entry t n
      = Some (0, if lh_free_fn t then [lh_tab t ! n] else [], t')"
    "lh_repr t' js" "lh_pairs (lh_tab t') js = lh_pairs (lh_tab t) (filter (\<lambda>i. i \<noteq> n) is)"
    "lh_size t' = lh_size t" "lh_hash_fn t' = lh_hash_fn t" "lh_free_fn t' = lh_free_fn t"
proof -
  let ?tab = "lh_tab t"
  note R = reprD [OF r]
  obtain xs ys where split: "is = xs @ n # ys" using n by (blast dest: split_list)
  have lt: "n < length ?tab" "\<not> slot_free (?tab ! n)" using n R(5) by auto
  have rest: "filter (\<lambda>i. i \<noteq> n) is = xs @ ys" 
  proof -
    have "filter (\<lambda>i. i \<noteq> n) xs = xs" "filter (\<lambda>i. i \<noteq> n) ys = ys"
      using R(4) split by (auto intro!: filter_True)
    then show ?thesis using split by simp
  qed
  let ?tab1 = "?tab[n := (?tab ! n)\<lparr>ent_v := None, ent_k := LH_FREED\<rparr>]"
  let ?t1 = "lh_upd n (\<lambda>e. e\<lparr>ent_v := None, ent_k := LH_FREED\<rparr>) (t\<lparr>lh_count := lh_count t - 1\<rparr>)"
  have tab1: "lh_tab ?t1 = ?tab1" by (simp add: lh_upd_def)
  have seg: "dseg (lh_tab ?t1) None (lh_head ?t1) (xs @ n # ys) (lh_tail ?t1) None"
    using R(3) split dseg_update_payload [of "(?tab ! n)\<lparr>ent_v := None, ent_k := LH_FREED\<rparr>" ?tab n]
    by (simp add: lh_upd_def)
  have dist: "distinct (xs @ n # ys)" using R(4) split by simp
  obtain tab2 hd' tl' where unl:
    "lh_unlink n ?t1 = Some (?t1\<lparr>lh_tab := tab2, lh_head := hd', lh_tail := tl'\<rparr>)"
    "dseg tab2 None hd' (xs @ ys) tl' None" "same_payload tab2 (lh_tab ?t1)"
    by (rule lh_unlink_ok [OF seg dist])
  let ?tab' = "tab2[n := (tab2 ! n)\<lparr>ent_next := None, ent_prev := None\<rparr>]"
  let ?t' = "?t1\<lparr>lh_tab := ?tab', lh_head := hd', lh_tail := tl'\<rparr>"
  have pay: "same_payload ?tab' ?tab1" using unl(3) tab1 by simp
  then have len: "length ?tab' = length ?tab" by (simp add: same_payload_def)
  have keys: "ent_k (?tab' ! i) = (if i = n then LH_FREED else ent_k (?tab ! i))"
    and vals: "ent_v (?tab' ! i) = (if i = n then None else ent_v (?tab ! i))"
    if "i < length ?tab" for i
    using pay that by (auto simp: same_payload_def nth_list_update)
  have notin: "n \<notin> set (xs @ ys)" using dist by auto
  have "dseg ?tab' None hd' (xs @ ys) tl' None"
    using unl(2) notin by simp
  moreover have "probe_ok ?tab' (lh_hash t)"
    using probe_ok_free [OF R(7) len keys] by simp
  moreover have "set (xs @ ys) = {i. i < length ?tab' \<and> \<not> slot_free (?tab' ! i)}"
  proof -
    have "slot_free (?tab' ! i) = (i = n \<or> slot_free (?tab ! i))" if "i < length ?tab" for i
      using keys [OF that] by (simp add: slot_free_def)
    moreover have "set (xs @ ys) = set is - {n}" using split notin by auto
    ultimately show ?thesis using R(5) len by auto
  qed
  moreover have "lh_hash ?t' = lh_hash t" by (simp add: lh_hash_def lh_upd_def fun_eq_iff)
  moreover have "?tab' \<noteq> []" using len R(2) by auto
  moreover have "lh_count ?t' = int (length (xs @ ys))" using R(6) split by (simp add: lh_upd_def)
  moreover have "lh_size ?t' = int (length ?tab')" "lh_equal_fn ?t' = (=)"
    using R(1,8) len by (simp_all add: lh_upd_def)
  ultimately have repr: "lh_repr ?t' (xs @ ys)" using dist by (simp add: lh_repr_def)
  have "lh_pairs ?tab' (xs @ ys) = lh_pairs ?tab (xs @ ys)"
    unfolding lh_pairs_def
  proof (rule map_cong [OF refl])
    fix i assume "i \<in> set (xs @ ys)"
    then have "i \<noteq> n" "i < length ?tab" using notin R(5) split by auto
    then show "(the_key (ent_k (?tab' ! i)), ent_v (?tab' ! i)) = (the_key (ent_k (?tab ! i)), ent_v (?tab ! i))"
      using keys [of i] vals [of i] by simp
  qed
  moreover have "lh_table_delete_entry t n = Some (0, if lh_free_fn t then [?tab ! n] else [], ?t')"
    using lt unl(1) by (simp add: lh_table_delete_entry_def lh_upd_def)
  ultimately show thesis using that [OF _ repr] rest by (simp add: lh_upd_def)
qed

section \<open>The contract of an ordered map\<close>

fun insert_each ::
  "('t \<Rightarrow> 'k \<Rightarrow> 'v option \<Rightarrow> 't option) \<Rightarrow> 't \<Rightarrow> ('k \<times> 'v option) list \<Rightarrow> 't option" where
  "insert_each ins t [] = Some t"
| "insert_each ins t (p # ps) = do { t \<leftarrow> ins t (fst p) (snd p); insert_each ins t ps }"

locale ordered_map =
  fixes insert :: "'t \<Rightarrow> 'k \<Rightarrow> 'v option \<Rightarrow> 't option"
    and lookup :: "'t \<Rightarrow> 'k \<Rightarrow> (bool \<times> 'v option \<times> 't) option"
    and delete :: "'t \<Rightarrow> 'k \<Rightarrow> (int \<times> 'e list \<times> 't) option"
    and entries :: "'t \<Rightarrow> ('k \<times> 'v option) list"
    and room :: "nat \<Rightarrow> 't \<Rightarrow> bool"
  assumes insert_ok: "room (Suc n) t \<Longrightarrow> k \<notin> fst ` set (entries t) \<Longrightarrow>
      \<exists>t'. insert t k v = Some t' \<and> entries t' = entries t @ [(k, v)] \<and> room n t'"
    and lookup_ok: "room n t \<Longrightarrow>
      \<exists>t'. lookup t k = Some (case map_of (entries t) k of None \<Rightarrow> (False, None, t') | Some v \<Rightarrow> (True, v, t'))
        \<and> entries t' = entries t \<and> room n t'"
    and delete_ok: "room n t \<Longrightarrow>
      \<exists>freed t'. delete t k = Some (if k \<in> fst ` set (entries t) then 0 else -1, freed, t')
        \<and> entries t' = filter (\<lambda>p. fst p \<noteq> k) (entries t) \<and> room n t'"
    and distinct_keys: "room n t \<Longrightarrow> distinct (map fst (entries t))"
begin

lemma insert_each_ok:
  assumes "room (n + length ps) t" "distinct (map fst ps)"
    "fst ` set ps \<inter> fst ` set (entries t) = {}"
  shows "\<exists>t'. insert_each insert t ps = Some t' \<and> entries t' = entries t @ ps \<and> room n t'"
  using assms
proof (induction ps arbitrary: t)
  case Nil
  then show ?case by simp
next
  case (Cons p ps)
  then have "room (Suc (n + length ps)) t" "fst p \<notin> fst ` set (entries t)" by auto
  then obtain t1 where 1: "insert t (fst p) (snd p) = Some t1" "entries t1 = entries t @ [p]"
    "room (n + length ps) t1"
    using insert_ok [of "n + length ps" t "fst p" "snd p"] by auto
  have "fst ` set ps \<inter> fst ` set (entries t1) = {}" "distinct (map fst ps)"
    using Cons.prems 1(2) by auto
  then obtain t2 where "insert_each insert t1 ps = Some t2" "entries t2 = entries t1 @ ps" "room n t2"
    using Cons.IH [OF 1(3)] by blast
  with 1 show ?case by simp
qed

lemma lookup_after_insert:
  assumes "room (Suc n) t" "k \<notin> fst ` set (entries t)"
  shows "\<exists>t' t''. insert t k v = Some t'
    \<and> lookup t' k' = Some (if k' = k then (True, v, t'')
                          else case map_of (entries t) k' of None \<Rightarrow> (False, None, t'') | Some w \<Rightarrow> (True, w, t''))"
proof -
  obtain t' where t': "insert t k v = Some t'" "entries t' = entries t @ [(k, v)]" "room n t'"
    using insert_ok [OF assms] by blast
  have "map_of (entries t) k = None" using assms(2) by (simp add: map_of_eq_None_iff)
  then have "map_of (entries t') k' = (if k' = k then Some v else map_of (entries t) k')"
    using t'(2) by (auto simp: map_add_def split: option.split)
  then show ?thesis using t'(1) lookup_ok [OF t'(3), of k'] by (auto split: if_splits)
qed

lemma lookup_after_delete:
  assumes "room n t"
  shows "\<exists>r freed t' t''. delete t k = Some (r, freed, t') \<and> lookup t' k = Some (False, None, t'')"
proof -
  obtain r freed t' where t': "delete t k = Some (r, freed, t')"
    "entries t' = filter (\<lambda>p. fst p \<noteq> k) (entries t)" "room n t'"
    using delete_ok [OF assms, of k] by blast
  then have "map_of (entries t') k = None" by (auto simp: map_of_eq_None_iff)
  then show ?thesis using t'(1) lookup_ok [OF t'(3), of k] by auto
qed

end

definition lh_room :: "nat \<Rightarrow> ('k, 'v) lh_table \<Rightarrow> bool" where
  "lh_room n t \<longleftrightarrow> lh_inv t \<and> lh_size t < 2 ^ 30 \<and> lh_count t + int n < 2 ^ 28"

lemma lh_roomE:
  assumes "lh_room n t"
  obtains "is" where "lh_repr t is" "lh_entries t = lh_pairs (lh_tab t) is"
    "distinct (map fst (lh_pairs (lh_tab t) is))"
    "lh_size t < 2 ^ 30" "int (length is) + int n < 2 ^ 28"
  using assms repr_foreach(2) reprD(6) unfolding lh_room_def lh_inv_def by metis

lemma lh_roomI:
  assumes "lh_repr t is" "distinct (map fst (lh_pairs (lh_tab t) is))"
    "lh_size t < 2 ^ 30" "int (length is) + int n < 2 ^ 28"
  shows "lh_room n t"
  using assms repr_foreach(2) [OF assms(1)] reprD(6) [OF assms(1)]
  by (auto simp: lh_room_def lh_inv_def)

lemma lh_delete_ok:
  assumes "lh_room n t"
  obtains r freed t' where "lh_table_delete t k = Some (r, freed, t')" "lh_room n t'"
    "r = (if k \<in> fst ` set (lh_entries t) then 0 else -1)"
    "lh_entries t' = filter (\<lambda>p. fst p \<noteq> k) (lh_entries t)"
proof -
  obtain "is" where r: "lh_repr t is" and E: "lh_entries t = lh_pairs (lh_tab t) is"
    and D: "distinct (map fst (lh_pairs (lh_tab t) is))"
    and sz: "lh_size t < 2 ^ 30" "int (length is) + int n < 2 ^ 28"
    using assms by (rule lh_roomE)
  let ?t = "t\<lparr>lh_lookups := lh_lookups t + 1\<rparr>"
  show thesis
  proof (cases rule: lh_lookup_repr [OF r, of k])
    case (1 m)
    have r': "lh_repr ?t is" using r by simp
    obtain t' js where del: "lh_table_delete_entry ?t m
        = Some (0, if lh_free_fn ?t then [lh_tab ?t ! m] else [], t')" "lh_repr t' js"
      "lh_pairs (lh_tab t') js = lh_pairs (lh_tab ?t) (filter (\<lambda>i. i \<noteq> m) is)" "lh_size t' = lh_size ?t"
      by (rule lh_delete_entry_repr [OF r' 1(1)])
    have uniq: "i \<noteq> m \<longleftrightarrow> the_key (ent_k (lh_tab t ! i)) \<noteq> k" if "i \<in> set is" for i
    proof -
      have "inj_on (\<lambda>i. the_key (ent_k (lh_tab t ! i))) (set is)"
        using D by (simp add: lh_pairs_def distinct_map o_def)
      from inj_on_eq_iff [OF this that 1(1)] show ?thesis using 1(2) by auto
    qed
    then have "filter (\<lambda>i. i \<noteq> m) is = filter (\<lambda>i. the_key (ent_k (lh_tab t ! i)) \<noteq> k) is"
      by (intro filter_cong) auto
    then have pairs: "lh_pairs (lh_tab t') js = filter (\<lambda>p. fst p \<noteq> k) (lh_entries t)"
      using del(3) E by (simp add: lh_pairs_def filter_map o_def)
    have k: "k \<in> fst ` set (lh_entries t)"
      using 1(1,2) by (force simp: E lh_pairs_def)
    have len: "length js \<le> length is" using arg_cong [OF del(3), of length] by simp
    have "lh_room n t'"
      using lh_roomI [OF del(2)] D E sz len del(4) pairs by (simp add: distinct_map_filter)
    then show thesis
      using that [of 0 _ t'] 1(3) del(1) k pairs repr_foreach(2) [OF del(2)]
      by (simp add: lh_table_delete_def)
  next
    case 2
    have "lh_room n ?t" using lh_roomI [of ?t "is"] r D sz by simp
    moreover have "lh_entries ?t = lh_entries t" using repr_foreach(2) [of ?t "is"] r E by simp
    moreover have "filter (\<lambda>p. fst p \<noteq> k) (lh_entries t) = lh_entries t"
      using 2(1) by (auto intro!: filter_True simp: E)
    ultimately show thesis
      using that [of "-1" "[]" ?t] 2 E by (simp add: lh_table_delete_def)
  qed
qed

interpretation lh: ordered_map lh_table_insert lh_table_lookup_ex lh_table_delete lh_entries lh_room
proof unfold_locales
  fix n and t :: "('k, 'v) lh_table" and k v
  assume room: "lh_room (Suc n) t" and k: "k \<notin> fst ` set (lh_entries t)"
  then obtain "is" where r: "lh_repr t is" and E: "lh_entries t = lh_pairs (lh_tab t) is"
    and D: "distinct (map fst (lh_pairs (lh_tab t) is))"
    and sz: "lh_size t < 2 ^ 30" "int (length is) + int (Suc n) < 2 ^ 28"
    using lh_roomE by blast
  obtain t' js where ins: "lh_table_insert t k v = Some t'" "lh_repr t' js"
    "lh_pairs (lh_tab t') js = lh_pairs (lh_tab t) is @ [(k, v)]"
    "lh_size t' = (if lh_overloaded t then 2 * lh_size t else lh_size t)"
    by (rule lh_insert_repr [OF r sz(1)])
  have "lh_size t' < 2 ^ 30"
    using ins(4) sz reprD(6) [OF r] by (auto simp: lh_overloaded_def)
  moreover have "length js = Suc (length is)" using arg_cong [OF ins(3), of length] by simp
  moreover have "distinct (map fst (lh_pairs (lh_tab t') js))" using D k E ins(3) by simp
  ultimately have "lh_room n t'" using lh_roomI [OF ins(2)] sz(2) by simp
  then show "\<exists>t'. lh_table_insert t k v = Some t' \<and> lh_entries t' = lh_entries t @ [(k, v)] \<and> lh_room n t'"
    using ins repr_foreach(2) [OF ins(2)] E by simp
next
  fix n and t :: "('k, 'v) lh_table" and k
  assume "lh_room n t"
  then obtain "is" where r: "lh_repr t is" and E: "lh_entries t = lh_pairs (lh_tab t) is"
    and D: "distinct (map fst (lh_pairs (lh_tab t) is))"
    and sz: "lh_size t < 2 ^ 30" "int (length is) + int n < 2 ^ 28"
    by (rule lh_roomE)
  let ?t = "t\<lparr>lh_lookups := lh_lookups t + 1\<rparr>"
  have "lh_room n ?t" "lh_entries ?t = lh_entries t"
    using lh_roomI [of ?t "is"] repr_foreach(2) [of ?t "is"] r D sz E by simp_all
  moreover have "lh_table_lookup_ex t k = Some (case map_of (lh_entries t) k of
      None \<Rightarrow> (False, None, ?t) | Some v \<Rightarrow> (True, v, ?t))"
  proof (cases rule: lh_lookup_repr [OF r, of k])
    case (1 m)
    then show ?thesis using pairs_map_of [OF D] E by (simp add: lh_table_lookup_ex_def)
  next
    case 2
    then have "map_of (lh_entries t) k = None" using E by (simp add: map_of_eq_None_iff)
    then show ?thesis using 2 by (simp add: lh_table_lookup_ex_def)
  qed
  ultimately show "\<exists>t'. lh_table_lookup_ex t k = Some (case map_of (lh_entries t) k of
      None \<Rightarrow> (False, None, t') | Some v \<Rightarrow> (True, v, t')) \<and> lh_entries t' = lh_entries t \<and> lh_room n t'"
    by blast
next
  fix n and t :: "('k, 'v) lh_table" and k
  assume "lh_room n t"
  then show "\<exists>freed t'. lh_table_delete t k = Some (if k \<in> fst ` set (lh_entries t) then 0 else -1, freed, t')
      \<and> lh_entries t' = filter (\<lambda>p. fst p \<noteq> k) (lh_entries t) \<and> lh_room n t'"
    by (rule lh_delete_ok [where k = k]) blast
next
  fix n and t :: "('k, 'v) lh_table"
  assume "lh_room n t"
  then show "distinct (map fst (lh_entries t))" by (simp add: lh_room_def lh_inv_def)
qed

lemma lh_length_entries: "lh_room n t \<Longrightarrow> lh_table_length t = int (length (lh_entries t))"
  by (erule lh_roomE) (use reprD(6) in \<open>simp add: lh_table_length_def\<close>)

lemma lh_new_room:
  assumes "0 < sz" "sz < 2 ^ 30" "n < 2 ^ 28"
  shows "lh_room n (lh_table_new sz name f h (=))" "lh_entries (lh_table_new sz name f h (=)) = []"
proof -
  let ?t = "lh_table_new sz name f h (=)"
  have r: "lh_repr ?t []" "lh_size ?t = sz"
    using repr_new [OF assms(1)] by (simp_all add: lh_table_new_def)
  show "lh_entries ?t = []" using repr_foreach(2) [OF r(1)] by (simp add: lh_pairs_def)
  have "int n < 2 ^ 28" using assms(3) by simp
  then show "lh_room n ?t" using lh_roomI [OF r(1), of n] assms(2) by (simp add: lh_pairs_def r(2))
qed

section \<open>Properties\<close>

text \<open>
  C9. Inserting a key that is not there returns (the probing loop and the nested resize end),
  puts the pair at the end of the iteration order, keeps everything else, adds one to the
  count, and leaves a well-formed table.
\<close>

theorem lh_table_insert_spec:
  assumes "lh_room (Suc n) t" "k \<notin> fst ` set (lh_entries t)"
  shows "\<exists>t'. lh_table_insert t k v = Some t' \<and> lh_entries t' = lh_entries t @ [(k, v)]
    \<and> lh_room n t' \<and> lh_table_length t' = lh_table_length t + 1"
proof -
  obtain t' where "lh_table_insert t k v = Some t'" "lh_entries t' = lh_entries t @ [(k, v)]"
    "lh_room n t'"
    using lh.insert_ok [OF assms] by blast
  then show ?thesis using lh_length_entries assms(1) by (metis length_append_singleton of_nat_Suc add.commute)
qed

text \<open>A table of two slots in which every key has the same home.\<close>

definition lh_example :: "(string, nat) lh_table" where
  "lh_example = lh_table_new 2 None True (\<lambda>_. 1) (=)"

lemma lh_example_room: "lh_room 5 lh_example" "lh_entries lh_example = []"
  using lh_new_room [of 2 5] by (simp_all add: lh_example_def)

theorem lh_table_insert_spec_witness:
  "\<exists>t'. lh_table_insert lh_example ''a'' (Some 1) = Some t' \<and> lh_entries t' = [(''a'', Some 1)]
    \<and> lh_room 4 t' \<and> lh_table_length t' = 1"
proof -
  have room: "lh_room (Suc 4) lh_example" using lh_example_room by simp
  have fresh: "''a'' \<notin> fst ` set (lh_entries lh_example)" by (simp add: lh_example_room)
  have "lh_table_length lh_example = 0"
    by (simp add: lh_example_def lh_table_new_def lh_table_length_def)
  then show ?thesis
    using lh_table_insert_spec [OF room fresh, of "Some 1"] by (simp add: lh_example_room)
qed

text \<open>
  C8. Looking a key up in a well-formed table returns the value of the pair with that key
  in the iteration order, or not found; the table keeps its entries.
\<close>

theorem lh_table_lookup_spec:
  assumes "lh_room n t"
  shows "\<exists>t'. lh_table_lookup_ex t k
      = Some (case map_of (lh_entries t) k of None \<Rightarrow> (False, None, t') | Some v \<Rightarrow> (True, v, t'))
    \<and> lh_entries t' = lh_entries t \<and> lh_room n t'"
  by (rule lh.lookup_ok [OF assms])

theorem lh_table_lookup_spec_witness:
  "\<exists>t'. lh_table_lookup_ex lh_example ''a'' = Some (False, None, t')
    \<and> lh_entries t' = [] \<and> lh_room 5 t'"
  using lh_table_lookup_spec [OF lh_example_room(1), of "''a''"] by (simp add: lh_example_room)

text \<open>
  C15. Deleting a key removes exactly its pair from the iteration order (result 0), or
  changes nothing when the key is missing (result -1); other keys stay reachable across the
  tombstone, since the table stays well formed.
\<close>

theorem lh_table_delete_spec:
  assumes "lh_room n t"
  shows "\<exists>freed t'. lh_table_delete t k
      = Some (if k \<in> fst ` set (lh_entries t) then 0 else -1, freed, t')
    \<and> lh_entries t' = filter (\<lambda>p. fst p \<noteq> k) (lh_entries t) \<and> lh_room n t'"
  by (rule lh.delete_ok [OF assms])

theorem lh_table_delete_spec_witness:
  "\<exists>t freed t'. lh_table_insert lh_example ''a'' (Some 1) = Some t
    \<and> lh_table_delete t ''a'' = Some (0, freed, t') \<and> lh_entries t' = []"
proof -
  have room: "lh_room (Suc 4) lh_example" using lh_example_room by simp
  obtain t where t: "lh_table_insert lh_example ''a'' (Some 1) = Some t"
    "lh_entries t = [(''a'', Some 1)]" "lh_room 4 t"
    using lh.insert_ok [OF room, of "''a''" "Some 1"] by (auto simp: lh_example_room)
  then show ?thesis using lh_table_delete_spec [OF t(3), of "''a''"] by auto
qed

text \<open>
  Resizing to any size the entries fit into rehashes the whole table without losing,
  reordering or duplicating an entry, and leaves the count alone.
\<close>

theorem lh_table_resize_spec:
  assumes "lh_room n t" "0 < sz" "sz < 2 ^ 30" "100 * lh_table_length t < 66 * sz + 100"
  shows "\<exists>t'. lh_table_resize t sz = Some t' \<and> lh_entries t' = lh_entries t \<and> lh_size t' = sz
    \<and> lh_table_length t' = lh_table_length t \<and> lh_room n t'"
proof -
  obtain "is" where r: "lh_repr t is" and E: "lh_entries t = lh_pairs (lh_tab t) is"
    and D: "distinct (map fst (lh_pairs (lh_tab t) is))" and s: "int (length is) + int n < 2 ^ 28"
    using assms(1) by (rule lh_roomE)
  have fits: "100 * int (length is) < 66 * sz + 100"
    using assms(4) reprD(6) [OF r] by (simp add: lh_table_length_def)
  obtain t' js where 1: "lh_resize_by lh_table_insert t sz = Some t'" "lh_repr t' js"
    "lh_pairs (lh_tab t') js = lh_pairs (lh_tab t) is" "lh_size t' = sz" "lh_count t' = lh_count t"
    by (rule lh_resize_ok [OF inserts_light_insert r assms(2) fits])
  have "length js = length is" using arg_cong [OF 1(3), of length] by simp
  then have "lh_room n t'" using lh_roomI [OF 1(2)] D s assms(3) 1 by simp
  then show ?thesis
    using 1 E repr_foreach(2) [OF 1(2)] by (simp add: lh_table_resize_def lh_table_length_def)
qed

theorem lh_table_resize_spec_witness:
  "\<exists>t'. lh_table_resize lh_example 7 = Some t' \<and> lh_entries t' = [] \<and> lh_size t' = 7
    \<and> lh_table_length t' = 0 \<and> lh_room 5 t'"
proof -
  have "lh_table_length lh_example = 0"
    by (simp add: lh_example_def lh_table_new_def lh_table_length_def)
  then show ?thesis
    using lh_table_resize_spec [OF lh_example_room(1), of 7] by (simp add: lh_example_room)
qed

text \<open>
  Inserting distinct keys one after the other into a new table of any size and walking
  the list gives the pairs back in insertion order, through every resize on the way.
\<close>

theorem lh_insertion_order:
  fixes ps :: "('k \<times> 'v option) list"
  assumes "0 < sz" "sz < 2 ^ 30" "length ps < 2 ^ 28" "distinct (map fst ps)"
  shows "\<exists>t. insert_each lh_table_insert (lh_table_new sz name f h (=)) ps = Some t \<and> lh_entries t = ps"
proof -
  let ?t = "lh_table_new sz name f h (=) :: ('k, 'v) lh_table"
  have r: "lh_room (0 + length ps) ?t" using lh_new_room(1) [OF assms(1-3)] by simp
  have e: "lh_entries ?t = []" by (rule lh_new_room(2) [OF assms(1-3)])
  have "\<exists>t'. insert_each lh_table_insert ?t ps = Some t' \<and> lh_entries t' = lh_entries ?t @ ps \<and> lh_room 0 t'"
    by (rule lh.insert_each_ok) (use r e assms(4) in simp_all)
  then show ?thesis using e by auto
qed

theorem lh_insertion_order_witness:
  "\<exists>t. insert_each lh_table_insert (lh_table_new 1 None False (\<lambda>k. of_nat k) (=))
      [(3, None), (1, Some ''x''), (2::nat, None)] = Some t
    \<and> lh_entries t = [(3, None), (1, Some ''x''), (2, None)]"
  by (rule lh_insertion_order) simp_all

end
