(* ===== verification/Lookup3.thy ===== *)
theory Lookup3
  imports Linkhash
begin

text \<open>
  The hash functions of \<open>linkhash.c\<close>: Bob Jenkins' \<open>hashlittle\<close> with its three ways of reading
  the key (32 bits at a time when the key is aligned to four bytes, 16 bits when it is aligned
  to two, one byte at a time otherwise), the hash of a C string with its lazily chosen seed, and
  the hash of a pointer. The key is the memory it points at, a function from the offset to the
  byte there: the aligned paths also read the bytes after the key, whatever they are. The main
  result is that neither the alignment nor those bytes change the hash.
\<close>

unbundle bit_operations_syntax

section \<open>Reading memory\<close>

type_synonym bytes = "nat \<Rightarrow> 8 word"

text \<open>\<open>k[i]\<close> for a \<open>uint8_t\<close>, \<open>uint16_t\<close> and \<open>uint32_t\<close> pointer on a little-endian machine.\<close>

definition u8 :: "bytes \<Rightarrow> nat \<Rightarrow> 32 word" where
  "u8 k i = ucast (k i)"

definition u16 :: "bytes \<Rightarrow> nat \<Rightarrow> 32 word" where
  "u16 k i = u8 k (2 * i) OR push_bit 8 (u8 k (2 * i + 1))"

definition u32 :: "bytes \<Rightarrow> nat \<Rightarrow> 32 word" where
  "u32 k i = u16 k (2 * i) OR push_bit 16 (u16 k (2 * i + 1))"

section \<open>The mixing steps\<close>

type_synonym abc = "32 word \<times> 32 word \<times> 32 word"

definition rot :: "32 word \<Rightarrow> nat \<Rightarrow> 32 word" where
  "rot x k = push_bit k x OR drop_bit (32 - k) x"

definition mix_line :: "nat \<Rightarrow> abc \<Rightarrow> abc" where
  "mix_line k = (\<lambda>(a, b, c). let a = a - c; a = a XOR rot c k; c = c + b in (a, b, c))"

definition mix :: "abc \<Rightarrow> abc" where
  "mix = (\<lambda>(a, b, c).
     let (a, b, c) = mix_line 4 (a, b, c);
         (b, c, a) = mix_line 6 (b, c, a);
         (c, a, b) = mix_line 8 (c, a, b);
         (a, b, c) = mix_line 16 (a, b, c);
         (b, c, a) = mix_line 19 (b, c, a);
         (c, a, b) = mix_line 4 (c, a, b)
     in (a, b, c))"

definition final :: "abc \<Rightarrow> abc" where
  "final = (\<lambda>(a, b, c).
     let c = c XOR b; c = c - rot b 14;
         a = a XOR c; a = a - rot c 11;
         b = b XOR a; b = b - rot a 25;
         c = c XOR b; c = c - rot b 16;
         a = a XOR c; a = a - rot c 4;
         b = b XOR a; b = b - rot a 14;
         c = c XOR b; c = c - rot b 24
     in (a, b, c))"

section \<open>Twelve bytes at a time\<close>

text \<open>
  The loop the three paths share: while more than twelve bytes are left, the path's own reads
  are added to the state, the state is mixed and the pointer advances.
\<close>

definition advance :: "nat \<Rightarrow> bytes \<Rightarrow> bytes" where
  "advance n k = (\<lambda>i. k (n + i))"

fun hash_blocks :: "(bytes \<Rightarrow> abc \<Rightarrow> abc) \<Rightarrow> bytes \<Rightarrow> nat \<Rightarrow> abc \<Rightarrow> abc \<times> bytes \<times> nat" where
  "hash_blocks add k len s =
     (if 12 < len then hash_blocks add (advance 12 k) (len - 12) (mix (add k s)) else (s, k, len))"

declare hash_blocks.simps [simp del]

definition add32 :: "bytes \<Rightarrow> abc \<Rightarrow> abc" where
  "add32 k = (\<lambda>(a, b, c). (a + u32 k 0, b + u32 k 1, c + u32 k 2))"

definition add16 :: "bytes \<Rightarrow> abc \<Rightarrow> abc" where
  "add16 k = (\<lambda>(a, b, c).
     (a + (u16 k 0 + push_bit 16 (u16 k 1)),
      b + (u16 k 2 + push_bit 16 (u16 k 3)),
      c + (u16 k 4 + push_bit 16 (u16 k 5))))"

definition add8 :: "bytes \<Rightarrow> abc \<Rightarrow> abc" where
  "add8 k = (\<lambda>(a, b, c).
     (a + u8 k 0 + push_bit 8 (u8 k 1) + push_bit 16 (u8 k 2) + push_bit 24 (u8 k 3),
      b + u8 k 4 + push_bit 8 (u8 k 5) + push_bit 16 (u8 k 6) + push_bit 24 (u8 k 7),
      c + u8 k 8 + push_bit 8 (u8 k 9) + push_bit 16 (u8 k 10) + push_bit 24 (u8 k 11)))"

section \<open>The last block\<close>

text \<open>
  The \<open>switch (length)\<close> of each path, for a length of one to twelve. A case that falls through
  is an addition done for every length from its label on.
\<close>

definition last32 :: "bytes \<Rightarrow> nat \<Rightarrow> abc \<Rightarrow> abc" where
  "last32 k len = (\<lambda>(a, b, c).
     if len = 12 then (a + u32 k 0, b + u32 k 1, c + u32 k 2)
     else if len = 11 then (a + u32 k 0, b + u32 k 1, c + (u32 k 2 AND 0xffffff))
     else if len = 10 then (a + u32 k 0, b + u32 k 1, c + (u32 k 2 AND 0xffff))
     else if len = 9 then (a + u32 k 0, b + u32 k 1, c + (u32 k 2 AND 0xff))
     else if len = 8 then (a + u32 k 0, b + u32 k 1, c)
     else if len = 7 then (a + u32 k 0, b + (u32 k 1 AND 0xffffff), c)
     else if len = 6 then (a + u32 k 0, b + (u32 k 1 AND 0xffff), c)
     else if len = 5 then (a + u32 k 0, b + (u32 k 1 AND 0xff), c)
     else if len = 4 then (a + u32 k 0, b, c)
     else if len = 3 then (a + (u32 k 0 AND 0xffffff), b, c)
     else if len = 2 then (a + (u32 k 0 AND 0xffff), b, c)
     else if len = 1 then (a + (u32 k 0 AND 0xff), b, c)
     else (a, b, c))"

definition last16 :: "bytes \<Rightarrow> nat \<Rightarrow> abc \<Rightarrow> abc" where
  "last16 k len = (\<lambda>(a, b, c).
     let w0 = u16 k 0 + push_bit 16 (u16 k 1);
         w1 = u16 k 2 + push_bit 16 (u16 k 3);
         w2 = u16 k 4 + push_bit 16 (u16 k 5)
     in if len = 12 then (a + w0, b + w1, c + w2)
     else if len = 11 then (a + w0, b + w1, c + push_bit 16 (u8 k 10) + u16 k 4)
     else if len = 10 then (a + w0, b + w1, c + u16 k 4)
     else if len = 9 then (a + w0, b + w1, c + u8 k 8)
     else if len = 8 then (a + w0, b + w1, c)
     else if len = 7 then (a + w0, b + push_bit 16 (u8 k 6) + u16 k 2, c)
     else if len = 6 then (a + w0, b + u16 k 2, c)
     else if len = 5 then (a + w0, b + u8 k 4, c)
     else if len = 4 then (a + w0, b, c)
     else if len = 3 then (a + push_bit 16 (u8 k 2) + u16 k 0, b, c)
     else if len = 2 then (a + u16 k 0, b, c)
     else if len = 1 then (a + u8 k 0, b, c)
     else (a, b, c))"

definition last8 :: "bytes \<Rightarrow> nat \<Rightarrow> abc \<Rightarrow> abc" where
  "last8 k len = (\<lambda>(a, b, c).
     let c = (if 12 \<le> len then c + push_bit 24 (u8 k 11) else c);
         c = (if 11 \<le> len then c + push_bit 16 (u8 k 10) else c);
         c = (if 10 \<le> len then c + push_bit 8 (u8 k 9) else c);
         c = (if 9 \<le> len then c + u8 k 8 else c);
         b = (if 8 \<le> len then b + push_bit 24 (u8 k 7) else b);
         b = (if 7 \<le> len then b + push_bit 16 (u8 k 6) else b);
         b = (if 6 \<le> len then b + push_bit 8 (u8 k 5) else b);
         b = (if 5 \<le> len then b + u8 k 4 else b);
         a = (if 4 \<le> len then a + push_bit 24 (u8 k 3) else a);
         a = (if 3 \<le> len then a + push_bit 16 (u8 k 2) else a);
         a = (if 2 \<le> len then a + push_bit 8 (u8 k 1) else a);
         a = (if 1 \<le> len then a + u8 k 0 else a)
     in (a, b, c))"

text \<open>
  \<open>hashlittle\<close>: \<open>le\<close> is \<open>HASH_LITTLE_ENDIAN\<close> and \<open>addr\<close> the address of the key. A length of zero
  at the last block returns \<open>c\<close> without the final mixing.
\<close>

definition hash_with ::
  "(bytes \<Rightarrow> abc \<Rightarrow> abc) \<Rightarrow> (bytes \<Rightarrow> nat \<Rightarrow> abc \<Rightarrow> abc) \<Rightarrow> bytes \<Rightarrow> nat \<Rightarrow> abc \<Rightarrow> 32 word" where
  "hash_with add last_block k len s =
     (case hash_blocks add k len s of (s, k, len) \<Rightarrow>
        if len = 0 then snd (snd s) else snd (snd (final (last_block k len s))))"

definition hashlittle :: "bool \<Rightarrow> nat \<Rightarrow> bytes \<Rightarrow> nat \<Rightarrow> 32 word \<Rightarrow> 32 word" where
  "hashlittle le addr key len initval =
     (let i = 0xdeadbeef + of_nat len + initval; s = (i, i, i) in
      if le \<and> addr mod 4 = 0 then hash_with add32 last32 key len s
      else if le \<and> addr mod 2 = 0 then hash_with add16 last16 key len s
      else hash_with add8 last8 key len s)"

section \<open>The three paths read the same values\<close>

lemma u8_small: "bit (u8 k i) n \<Longrightarrow> n < 8"
  using bit_imp_le_length [of "k i" n] by (simp add: u8_def bit_simps)

lemma u16_small: "bit (u16 k i) n \<Longrightarrow> n < 16"
  by (auto simp: u16_def bit_simps dest: u8_small)

named_theorems read_bits

lemma u16_bytes [read_bits]: "u16 k i = u8 k (2 * i) + push_bit 8 (u8 k (2 * i + 1))"
  unfolding u16_def by (rule disjunctive_add [symmetric]) (auto simp: bit_simps dest: u8_small)

lemma u32_halves [read_bits]: "u32 k i = u16 k (2 * i) + push_bit 16 (u16 k (2 * i + 1))"
  unfolding u32_def by (rule disjunctive_add [symmetric]) (auto simp: bit_simps dest: u16_small)

lemmas [read_bits] = push_bit_add push_bit_push_bit

lemma u32_and_ff: "u32 k i AND 0xff = u8 k (4 * i)"
proof -
  have "u32 k i AND mask 8 = u8 k (4 * i)"
    by (rule bit_eqI)
      (auto simp: u32_def u16_def bit_simps dest: u8_small u16_small)
  then show ?thesis by (simp add: mask_eq_exp_minus_1)
qed

lemma u32_and_ffff: "u32 k i AND 0xffff = u16 k (2 * i)"
proof -
  have "u32 k i AND mask 16 = u16 k (2 * i)"
    by (rule bit_eqI) (auto simp: u32_def bit_simps dest: u16_small)
  then show ?thesis by (simp add: mask_eq_exp_minus_1)
qed

lemma u32_and_ffffff:
  "u32 k i AND 0xffffff = u16 k (2 * i) + push_bit 16 (u8 k (4 * i + 2))"
proof -
  have "u32 k i AND mask 24 = u16 k (2 * i) OR push_bit 16 (u8 k (4 * i + 2))"
    by (rule bit_eqI) (auto simp: u32_def u16_def bit_simps dest: u8_small)
  also have "\<dots> = u16 k (2 * i) + push_bit 16 (u8 k (4 * i + 2))"
    by (rule disjunctive_add [symmetric]) (auto simp: bit_simps dest: u16_small)
  finally show ?thesis by (simp add: mask_eq_exp_minus_1)
qed

lemma add32_add8: "add32 = add8"
  by (rule ext) (simp add: add32_def add8_def read_bits fun_eq_iff algebra_simps del: One_nat_def)

lemma add16_add8: "add16 = add8"
  by (rule ext) (simp add: add16_def add8_def read_bits fun_eq_iff algebra_simps del: One_nat_def)

lemma length_cases:
  assumes "len \<le> 12"
  obtains "len = 0" | "len = 1" | "len = 2" | "len = 3" | "len = 4" | "len = 5" | "len = 6"
    | "len = 7" | "len = 8" | "len = 9" | "len = 10" | "len = 11" | "len = (12 :: nat)"
  using assms by (auto simp: le_Suc_eq numeral_eq_Suc)

lemma last32_last8: "len \<le> 12 \<Longrightarrow> last32 k len s = last8 k len s"
  unfolding last32_def u32_and_ff u32_and_ffff u32_and_ffffff
  by (cases s, erule length_cases) (simp_all add: last8_def read_bits algebra_simps numeral_2_eq_2 [symmetric] del: One_nat_def)

lemma last16_last8: "len \<le> 12 \<Longrightarrow> last16 k len s = last8 k len s"
  by (cases s, erule length_cases) (simp_all add: last16_def last8_def read_bits algebra_simps del: One_nat_def)

lemma hash_blocks_left: "hash_blocks add k len s = (s', k', len') \<Longrightarrow> len' \<le> 12"
proof (induction add k len s rule: hash_blocks.induct)
  case (1 add k len s)
  then show ?case by (simp add: hash_blocks.simps [of add k len s] split: if_splits)
qed

lemma hash_with_last_cong:
  "(\<And>k len s. len \<le> 12 \<Longrightarrow> lst k len s = lst' k len s) \<Longrightarrow>
   hash_with add lst key len s = hash_with add lst' key len s"
  by (auto simp: hash_with_def dest: hash_blocks_left split: prod.split)

lemma hashlittle_bytewise:
  "hashlittle le addr key len iv = hashlittle False 0 key len iv"
  using hash_with_last_cong [OF last32_last8] hash_with_last_cong [OF last16_last8]
  by (simp add: hashlittle_def Let_def add32_add8 add16_add8)

section \<open>Only the key's own bytes matter\<close>

definition same_bytes :: "nat \<Rightarrow> bytes \<Rightarrow> bytes \<Rightarrow> bool" where
  "same_bytes n k k' \<longleftrightarrow> (\<forall>i<n. k i = k' i)"

lemma add8_cong: "same_bytes n k k' \<Longrightarrow> 12 < n \<Longrightarrow> add8 k = add8 k'"
  by (simp add: add8_def u8_def same_bytes_def fun_eq_iff)

lemma last8_cong: "same_bytes n k k' \<Longrightarrow> last8 k n s = last8 k' n s"
  by (cases s) (simp add: last8_def u8_def same_bytes_def)

lemma advance_cong: "same_bytes n k k' \<Longrightarrow> same_bytes (n - d) (advance d k) (advance d k')"
  by (auto simp: same_bytes_def advance_def)

lemma hash8_cong: "same_bytes n k k' \<Longrightarrow> hash_with add8 last8 k n s = hash_with add8 last8 k' n s"
proof (induction n arbitrary: k k' s rule: less_induct)
  case (less n)
  show ?case
  proof (cases "12 < n")
    case True
    then have "hash_with add8 last8 (advance 12 k) (n - 12) (mix (add8 k s))
        = hash_with add8 last8 (advance 12 k') (n - 12) (mix (add8 k s))"
      by (intro less.IH advance_cong less.prems) simp
    then show ?thesis
      using True add8_cong [OF less.prems True] by (simp add: hash_with_def hash_blocks.simps [of _ _ n])
  next
    case False
    then show ?thesis
      using last8_cong [OF less.prems] by (simp add: hash_with_def hash_blocks.simps [of _ _ n])
  qed
qed

section \<open>Hashing and comparing keys\<close>

text \<open>
  A key is the contents of a C string, without the NUL; \<open>addr\<close> is its address and \<open>rest\<close> the
  bytes in memory after the contents. \<open>lh_char_hash\<close> keeps the seed in the static variable
  \<open>random_seed\<close>, which is \<open>-1\<close> until the first call has drawn one that is not \<open>-1\<close>. The values
  \<open>json_c_get_random_seed\<close> returns are the argument \<open>seeds\<close>, in order; a call that runs out of
  them has not returned. \<open>strcmp\<close> gives zero on two strings exactly when the contents are equal.
\<close>

definition block :: "string \<Rightarrow> bytes" where
  "block m = (\<lambda>i. if i < length m then of_nat (code_of (m ! i)) else 0)"

definition lh_char_hash ::
  "bool \<Rightarrow> int list \<Rightarrow> int \<Rightarrow> nat \<Rightarrow> string \<Rightarrow> string \<Rightarrow> (64 word \<times> int \<times> int list) option" where
  "lh_char_hash le seeds random_seed addr rest k =
     do {
       (random_seed, seeds) \<leftarrow>
         (if random_seed = -1
          then (case dropWhile (\<lambda>s. s = -1) seeds of [] \<Rightarrow> None | s # ss \<Rightarrow> Some (s, ss))
          else Some (random_seed, seeds));
       Some (ucast (hashlittle le addr (block (k @ rest)) (length k) (of_int random_seed)),
             random_seed, seeds)
     }"

definition lh_char_equal :: "string \<Rightarrow> string \<Rightarrow> bool" where
  "lh_char_equal k1 k2 \<longleftrightarrow> k1 = k2"

definition LH_PRIME :: "64 word" where
  "LH_PRIME = 0x9e370001"

definition lh_ptr_hash :: "64 word \<Rightarrow> 64 word" where
  "lh_ptr_hash k = drop_bit 4 (k * LH_PRIME) AND (- 1)"

definition lh_ptr_equal :: "64 word \<Rightarrow> 64 word \<Rightarrow> bool" where
  "lh_ptr_equal k1 k2 \<longleftrightarrow> k1 = k2"

text \<open>
  \<open>lh_kchar_table_new\<close> and \<open>lh_kptr_table_new\<close>. The hash function of a string table is
  \<open>lh_char_hash\<close> in a process that has drawn its seed.
\<close>

definition lh_char_hash_seeded :: "bool \<Rightarrow> int \<Rightarrow> string \<Rightarrow> 64 word" where
  "lh_char_hash_seeded le seed k = ucast (hashlittle le 0 (block k) (length k) (of_int seed))"

definition lh_kchar_table_new ::
  "bool \<Rightarrow> int \<Rightarrow> int \<Rightarrow> string option \<Rightarrow> bool \<Rightarrow> (string, 'v) lh_table" where
  "lh_kchar_table_new le seed sz name free_fn =
     lh_table_new sz name free_fn (lh_char_hash_seeded le seed) lh_char_equal"

definition lh_kptr_table_new :: "int \<Rightarrow> string option \<Rightarrow> bool \<Rightarrow> (64 word, 'v) lh_table" where
  "lh_kptr_table_new sz name free_fn = lh_table_new sz name free_fn lh_ptr_hash lh_ptr_equal"

lemma lh_char_equal_eq: "lh_char_equal = (=)"
  by (simp add: lh_char_equal_def fun_eq_iff)

lemma lh_kchar_table_new_room:
  assumes "0 < sz" "sz < 2 ^ 30" "n < 2 ^ 28"
  shows "lh_room n (lh_kchar_table_new le seed sz name f)"
    "lh_entries (lh_kchar_table_new le seed sz name f) = []"
  using lh_new_room [OF assms] by (simp_all add: lh_kchar_table_new_def lh_char_equal_eq)

lemma hashlittle_same:
  assumes "same_bytes len key key'"
  shows "hashlittle le addr key len iv = hashlittle le' addr' key' len iv"
proof -
  have "hashlittle False 0 key len iv = hashlittle False 0 key' len iv"
    using hash8_cong [OF assms] by (simp add: hashlittle_def Let_def)
  then show ?thesis by (simp only: hashlittle_bytewise [of le] hashlittle_bytewise [of le'])
qed

lemma block_append: "same_bytes (length k) (block (k @ rest)) (block k)"
  by (simp add: same_bytes_def block_def nth_append)

text \<open>The inverse of \<open>mix\<close>, line by line from the last one.\<close>

definition unmix_line :: "nat \<Rightarrow> abc \<Rightarrow> abc" where
  "unmix_line k = (\<lambda>(a, b, c). let c = c - b; a = a XOR rot c k; a = a + c in (a, b, c))"

definition unmix :: "abc \<Rightarrow> abc" where
  "unmix = (\<lambda>(a, b, c).
     let (c, a, b) = unmix_line 4 (c, a, b);
         (b, c, a) = unmix_line 19 (b, c, a);
         (a, b, c) = unmix_line 16 (a, b, c);
         (c, a, b) = unmix_line 8 (c, a, b);
         (b, c, a) = unmix_line 6 (b, c, a);
         (a, b, c) = unmix_line 4 (a, b, c)
     in (a, b, c))"

lemma unmix_line_of: "mix_line k s = s' \<Longrightarrow> unmix_line k s' = s"
  by (cases s; cases s') (auto simp: mix_line_def unmix_line_def Let_def xor.assoc)

lemma unmix_mix: "unmix (mix s) = s"
  by (cases s) (simp add: mix_def unmix_def split: prod.splits, auto simp: unmix_line_of [OF refl] dest!: unmix_line_of)

lemma mix_unmix: "mix (unmix s) = s"
proof -
  have "inj mix" by (rule inj_on_inverseI) (rule unmix_mix)
  then have "surj mix" by (intro finite_UNIV_inj_surj) simp_all
  then show ?thesis by (metis surjD unmix_mix)
qed

section \<open>Properties\<close>

text \<open>
  C25. The hash of a key depends on its bytes only: not on the alignment of its address, not on
  the bytes that follow it in memory, and not on which of the three read paths is compiled in.
\<close>

theorem hashlittle_alignment:
  assumes "\<forall>i<len. key i = key' i"
  shows "hashlittle le addr key len iv = hashlittle le' addr' key' len iv"
  by (rule hashlittle_same) (use assms in \<open>simp add: same_bytes_def\<close>)

theorem hashlittle_alignment_witness:
  "hashlittle True 4 (block (''seven'' @ ''xyz'')) 5 0 = hashlittle True 6 (block ''seven'') 5 0"
  by (rule hashlittle_alignment) (simp add: block_def less_Suc_eq numeral_eq_Suc all_conj_distrib)

text \<open>
  \<open>mix\<close> is reversible, as its comment claims: no two states are mixed to the same one, so
  no information of the key read so far is lost between blocks.
\<close>

theorem mix_reversible: "unmix (mix s) = s \<and> mix (unmix s) = s"
  by (simp add: unmix_mix mix_unmix)

text \<open>
  The first call of \<open>lh_char_hash\<close> fixes the seed: it is never \<open>-1\<close>, every later call keeps
  it, and each call gives the hash the string tables use, wherever the key is stored.
\<close>

theorem lh_char_hash_spec:
  assumes "lh_char_hash le seeds seed addr rest k = Some (h, seed', seeds')"
  shows "seed' \<noteq> -1 \<and> h = lh_char_hash_seeded le seed' k
    \<and> lh_char_hash le ss seed' addr' rest' k' = Some (lh_char_hash_seeded le seed' k', seed', ss)"
proof -
  have b: "hashlittle le a (block (x @ r)) (length x) iv = hashlittle le 0 (block x) (length x) iv"
    for a x r iv by (rule hashlittle_same) (rule block_append)
  have "seed' \<noteq> -1"
    using assms by (auto simp: lh_char_hash_def dropWhile_eq_Cons_conv bind_eq_Some_iff split: if_splits list.splits)
  then show ?thesis
    using assms by (auto simp: lh_char_hash_def lh_char_hash_seeded_def b bind_eq_Some_iff
        split: if_splits list.splits)
qed

theorem lh_char_hash_spec_witness:
  "\<exists>h. lh_char_hash True [-1, 7] (-1) 2 ''!'' ''key'' = Some (h, 7, []) \<and> h = lh_char_hash_seeded True 7 ''key''"
proof -
  obtain h where h: "lh_char_hash True [-1, 7] (-1) 2 ''!'' ''key'' = Some (h, 7, [])"
    by (simp add: lh_char_hash_def)
  then show ?thesis using lh_char_hash_spec [OF h] by simp
qed

end
