(* ===== verification/Decimal.thy ===== *)
theory Decimal
  imports C_Prelude
begin

text \<open>
  Decimal numbers as the C library reads and prints them: the value of a string of digits, the
  decimal representation of a number (\<open>"%" PRId64\<close>), what \<open>sscanf\<close> takes as an integer, and the
  facts that connect them.
\<close>

section \<open>Digits\<close>

definition digit :: "nat \<Rightarrow> char" where
  "digit n = char_of (48 + n)"

definition digit_val :: "char \<Rightarrow> nat" where
  "digit_val c = code_of c - 48"

fun digits_val_from :: "nat \<Rightarrow> string \<Rightarrow> nat" where
  "digits_val_from v [] = v"
| "digits_val_from v (c # cs) = digits_val_from (10 * v + digit_val c) cs"

abbreviation digits_val :: "string \<Rightarrow> nat" where
  "digits_val \<equiv> digits_val_from 0"

abbreviation all_digits :: "string \<Rightarrow> bool" where
  "all_digits s \<equiv> \<forall>c\<in>set s. isdigit c"

fun dec :: "nat \<Rightarrow> string" where
  "dec n = (if n < 10 then [digit n] else dec (n div 10) @ [digit (n mod 10)])"

declare dec.simps [simp del]

definition show_int :: "int \<Rightarrow> string" where
  "show_int i = (if i < 0 then CHR ''-'' # dec (nat (- i)) else dec (nat i))"

lemma isdigit_digit [simp]: "n < 10 \<Longrightarrow> isdigit (digit n)"
  by (simp add: isdigit_def digit_def)

lemma digit_val_digit [simp]: "n < 10 \<Longrightarrow> digit_val (digit n) = n"
  by (simp add: digit_val_def digit_def)

lemma digit_digit_val [simp]: "isdigit c \<Longrightarrow> digit (digit_val c) = c"
  by (simp add: digit_val_def digit_def isdigit_def)

lemma digit_val_lt [simp]: "isdigit c \<Longrightarrow> digit_val c < 10"
  unfolding digit_val_def isdigit_def by linarith

lemma isdigit_zero [simp]: "isdigit CHR ''0''"
  by (simp add: isdigit_def code_of_def)

lemma digit_val_zero [simp]: "digit_val CHR ''0'' = 0"
  by (simp add: digit_val_def code_of_def)

lemma isdigit_signs [simp]: "\<not> isdigit CHR ''-''" "\<not> isdigit CHR ''+''" "\<not> isdigit CHR '' ''"
  by (simp_all add: isdigit_def code_of_def)

lemma isdigit_not_space [simp]: "isdigit c \<Longrightarrow> \<not> isspace c"
  by (auto simp: isdigit_def isspace_def code_of_def)

lemma digit_val_zero_iff: "isdigit c \<Longrightarrow> digit_val c = 0 \<longleftrightarrow> c = CHR ''0''"
  using digit_digit_val [of c] digit_digit_val [of "CHR ''0''"]
  by (auto simp: digit_val_def digit_def code_of_def)

lemma digits_val_from_append: "digits_val_from v (s @ t) = digits_val_from (digits_val_from v s) t"
  by (induction v s rule: digits_val_from.induct) auto

lemma digits_val_dec [simp]: "digits_val (dec n) = n"
  by (induction n rule: dec.induct) (subst dec.simps, simp add: digits_val_from_append)

lemma all_digits_dec [simp]: "all_digits (dec n)"
  by (induction n rule: dec.induct) (subst dec.simps, auto)

lemma dec_not_Nil [simp]: "dec n \<noteq> []"
  by (subst dec.simps) simp

lemma dec_inject [simp]: "dec m = dec n \<longleftrightarrow> m = n"
  by (metis digits_val_dec)

lemma NUL_notin_dec [simp]: "NUL \<notin> set (dec n)"
  using all_digits_dec [of n] isdigit_not_NUL by blast

text \<open>A string of digits without a leading zero is the decimal representation of its value.\<close>

lemma digits_val_pos: "all_digits s \<Longrightarrow> 0 < v \<Longrightarrow> 0 < digits_val_from v s"
  by (induction s arbitrary: v) auto

lemma dec_digits_val_from:
  assumes "all_digits s" "0 < v"
  shows "dec (digits_val_from v s) = dec v @ s"
  using assms
proof (induction s arbitrary: v)
  case (Cons c s)
  then have c: "digit_val c < 10" by simp
  then have "dec (10 * v + digit_val c) = dec v @ [c]"
    using Cons.prems by (subst dec.simps) simp
  then show ?case using Cons by simp
qed simp

lemma dec_digits_val:
  assumes "all_digits s" "s \<noteq> []" "hd s = CHR ''0'' \<Longrightarrow> length s = 1"
  shows "dec (digits_val s) = s"
proof (cases s)
  case (Cons c t)
  show ?thesis
  proof (cases "c = CHR ''0''")
    case True
    then show ?thesis using Cons assms
      using digit_digit_val [of "CHR ''0''"] by (simp add: dec.simps [of 0])
  next
    case False
    then have "0 < digit_val c" using digit_val_zero_iff [of c] Cons assms by auto
    then have "dec (digits_val_from (digit_val c) t) = dec (digit_val c) @ t"
      by (intro dec_digits_val_from) (use Cons assms in auto)
    then show ?thesis using Cons assms by (simp add: dec.simps [of "digit_val _"])
  qed
qed (use assms in simp)

section \<open>Integers in a string\<close>

text \<open>
  What the \<open>d\<close> conversion of \<open>sscanf\<close> matches: white space, an optional sign and at least one
  digit. The result is the number written, whatever its size.
\<close>

definition scan_int :: "string \<Rightarrow> int option" where
  "scan_int s =
     (let s = dropWhile isspace s;
          neg = (c_hd s = CHR ''-'');
          s = (if c_hd s = CHR ''-'' \<or> c_hd s = CHR ''+'' then tl s else s);
          ds = takeWhile isdigit s
      in if ds = [] then None else Some (if neg then - int (digits_val ds) else int (digits_val ds)))"

definition clamp64 :: "int \<Rightarrow> int" where
  "clamp64 z = (if z < INT64_MIN then INT64_MIN else if INT64_MAX < z then INT64_MAX else z)"

lemma clamp64_in: "in_i64 z \<Longrightarrow> clamp64 z = z"
  by (simp add: clamp64_def in_i64_def)

lemma scan_int_dropWhile [simp]: "scan_int (dropWhile isspace s) = scan_int s"
  by (simp add: scan_int_def Let_def dropWhile_idem)

lemma takeWhile_digits:
  "all_digits ds \<Longrightarrow> \<not> isdigit (c_hd rest) \<Longrightarrow> takeWhile isdigit (ds @ rest) = ds"
  by (cases rest) (simp_all add: takeWhile_append_stop)

lemma scan_int_digits:
  assumes "all_digits ds" "ds \<noteq> []" "\<not> isdigit (c_hd rest)"
  shows "scan_int (ds @ rest) = Some (int (digits_val ds))"
    "scan_int (CHR ''-'' # ds @ rest) = Some (- int (digits_val ds))"
proof -
  obtain c t where [simp]: "ds = c # t" using assms(2) by (cases ds) auto
  have c: "isdigit c" using assms(1) by simp
  then have "c \<noteq> CHR ''-''" "c \<noteq> CHR ''+''" by auto
  then show "scan_int (ds @ rest) = Some (int (digits_val ds))"
    using assms c takeWhile_digits [of ds rest] by (simp add: scan_int_def Let_def)
  show "scan_int (CHR ''-'' # ds @ rest) = Some (- int (digits_val ds))"
    using assms c takeWhile_digits [of ds rest] by (simp add: scan_int_def Let_def isspace_def)
qed

lemma scan_show_int:
  assumes "\<not> isdigit (c_hd rest)"
  shows "scan_int (show_int i @ rest) = Some i"
  using scan_int_digits [OF all_digits_dec dec_not_Nil assms] by (simp add: show_int_def)

end
