(* ===== verification/Json_Util.thy ===== *)
theory Json_Util
  imports Decimal
begin

text \<open>
  \<open>json_util.c\<close>: parsing a 64-bit integer with a \<open>sscanf\<close> that may not report overflow, and the
  names of the types. \<open>sscanf\<close> with the format \<open>"%" SCNd64\<close> is the argument \<open>sscanf\<close>: \<open>None\<close>
  when nothing was converted, otherwise the value stored and whether \<open>errno\<close> was set to
  \<open>ERANGE\<close>. Two such functions are defined: the conforming one, and the one the workaround is
  for, which wraps around and says nothing.
\<close>

type_synonym sscanf_d64 = "string \<Rightarrow> (int \<times> bool) option"

definition std_sscanf :: sscanf_d64 where
  "std_sscanf s = map_option (\<lambda>z. (clamp64 z, \<not> in_i64 z)) (scan_int s)"

definition wrapping_sscanf :: sscanf_d64 where
  "wrapping_sscanf s = map_option (\<lambda>z. (sint (word_of_int z :: 64 word), False)) (scan_int s)"

section \<open>The test for a broken sscanf\<close>

text \<open>
  \<open>errno\<close> is only compared with \<open>ERANGE\<close>: the flag says whether it is \<open>ERANGE\<close>. It is not
  cleared between the two calls. A call that converts nothing leaves \<open>num64\<close> indeterminate.
\<close>

definition sscanf_is_broken_test :: "sscanf_d64 \<Rightarrow> bool \<Rightarrow> bool option" where
  "sscanf_is_broken_test sscanf errno =
     do {
       (num64, erange) \<leftarrow> sscanf '' -01234567890123456789012345'';
       let ret_errno = erange \<or> errno;
       let is_int64_min = (num64 = INT64_MIN);
       (num64, erange) \<leftarrow> sscanf '' 01234567890123456789012345'';
       let ret_errno2 = erange \<or> ret_errno;
       let is_int64_max = (num64 = INT64_MAX);
       Some (\<not> ret_errno \<or> \<not> is_int64_min \<or> \<not> ret_errno2 \<or> \<not> is_int64_max)
     }"

section \<open>Parsing an integer\<close>

text \<open>\<open>while (buf_sig_digits[0] == '0' && buf_sig_digits[1] != '\0') buf_sig_digits++;\<close>\<close>

fun skip_zeros :: "string \<Rightarrow> string" where
  "skip_zeros (c # d # s) = (if c = CHR ''0'' then skip_zeros (d # s) else c # d # s)"
| "skip_zeros s = s"

text \<open>The workaround: prints the value and compares it with the text. Gives \<open>ERANGE\<close> and the sign.\<close>

definition recheck :: "int \<Rightarrow> bool \<Rightarrow> string \<Rightarrow> bool \<times> bool" where
  "recheck num64 orig_has_neg buf_sig_digits =
     (let buf_sig_digits = skip_zeros buf_sig_digits;
          orig_has_neg = (if num64 = 0 then False else orig_has_neg);
          buf_cmp = show_int num64;
          recheck_has_neg = (c_hd buf_cmp = CHR ''-'');
          buf_cmp = (if recheck_has_neg then tl buf_cmp else buf_cmp);
          buf_cmp_len = length buf_cmp
      in (orig_has_neg \<noteq> recheck_has_neg
          \<or> \<not> strneq buf_cmp_len buf_sig_digits buf_cmp
          \<or> length buf_sig_digits \<noteq> buf_cmp_len \<and> isdigit (c_hd (drop buf_cmp_len buf_sig_digits)),
          orig_has_neg))"

text \<open>
  \<open>json_parse_int64\<close> with the static variable \<open>sscanf_is_broken\<close>; \<open>None\<close> is a return of 1, where
  \<open>*retval\<close> is not written.
\<close>

definition parse_int64_with :: "sscanf_d64 \<Rightarrow> bool \<Rightarrow> string \<Rightarrow> int option" where
  "parse_int64_with sscanf sscanf_is_broken buf =
     (let buf = dropWhile (\<lambda>c. isspace c \<and> c \<noteq> NUL) buf in
      case sscanf buf of
        None \<Rightarrow> None
      | Some (num64, erange) \<Rightarrow>
          (let orig_has_neg = (c_hd buf = CHR ''-'');
               buf_sig_digits = (if orig_has_neg then tl buf else buf);
               (erange, orig_has_neg) =
                 (if sscanf_is_broken \<and> \<not> erange then recheck num64 orig_has_neg buf_sig_digits
                  else (erange, orig_has_neg))
           in Some (if erange then if orig_has_neg then INT64_MIN else INT64_MAX else num64)))"

record sscanf_state =
  sscanf_is_broken :: bool
  sscanf_is_broken_testdone :: bool

definition json_parse_int64 ::
  "sscanf_d64 \<Rightarrow> bool \<Rightarrow> sscanf_state \<Rightarrow> string \<Rightarrow> (int option \<times> sscanf_state) option" where
  "json_parse_int64 sscanf errno st buf =
     do {
       st \<leftarrow> (if \<not> sscanf_is_broken_testdone st
              then do { b \<leftarrow> sscanf_is_broken_test sscanf errno;
                        Some (st\<lparr>sscanf_is_broken := b \<or> sscanf_is_broken st,
                                 sscanf_is_broken_testdone := True\<rparr>) }
              else Some st);
       Some (parse_int64_with sscanf (sscanf_is_broken st) buf, st)
     }"

section \<open>Names of the types\<close>

datatype json_type = json_type_null | json_type_boolean | json_type_double | json_type_int
  | json_type_object | json_type_array | json_type_string

definition json_type_name :: "string list" where
  "json_type_name = [''null'', ''boolean'', ''double'', ''int'', ''object'', ''array'', ''string'']"

fun json_type_int_of :: "json_type \<Rightarrow> int" where
  "json_type_int_of json_type_null = 0"
| "json_type_int_of json_type_boolean = 1"
| "json_type_int_of json_type_double = 2"
| "json_type_int_of json_type_int = 3"
| "json_type_int_of json_type_object = 4"
| "json_type_int_of json_type_array = 5"
| "json_type_int_of json_type_string = 6"

text \<open>An \<open>enum json_type\<close> argument may hold any \<open>int\<close>.\<close>

definition json_type_to_name :: "int \<Rightarrow> string option" where
  "json_type_to_name o_type =
     (if o_type < 0 \<or> int (length json_type_name) \<le> o_type then None
      else Some (json_type_name ! nat o_type))"

section \<open>The conforming case\<close>

lemma dropWhile_space [simp]: "dropWhile (\<lambda>c. isspace c \<and> c \<noteq> NUL) s = dropWhile isspace s"
  by (rule dropWhile_cong) auto

lemma std_not_broken: "sscanf_is_broken_test std_sscanf errno = Some False"
  by (simp add: sscanf_is_broken_test_def std_sscanf_def scan_int_def isspace_def isdigit_def
      code_of_def digit_val_def clamp64_def in_i64_def Let_def)

lemma wrapping_broken: "sscanf_is_broken_test wrapping_sscanf errno = Some True"
  by (simp add: sscanf_is_broken_test_def wrapping_sscanf_def scan_int_def isspace_def isdigit_def
      code_of_def digit_val_def Let_def)

lemma scan_int_neg:
  assumes "scan_int s = Some z" "dropWhile isspace s = s"
  shows "c_hd s = CHR ''-'' \<Longrightarrow> z \<le> 0" "c_hd s \<noteq> CHR ''-'' \<Longrightarrow> 0 \<le> z"
  using assms by (auto simp: scan_int_def Let_def split: if_splits)

lemma parse_int64_conforming:
  "parse_int64_with std_sscanf False buf = map_option clamp64 (scan_int buf)"
proof (cases "scan_int buf")
  case (Some z)
  let ?s = "dropWhile isspace buf"
  have "scan_int ?s = Some z" "dropWhile isspace ?s = ?s" using Some by (simp_all add: dropWhile_idem)
  note * = scan_int_neg [OF this]
  show ?thesis
    using * Some
    by (cases "c_hd ?s = CHR ''-''")
      (auto simp: parse_int64_with_def std_sscanf_def Let_def clamp64_def in_i64_def)
qed (simp add: parse_int64_with_def std_sscanf_def Let_def)

section \<open>The workaround\<close>

lemma strneq_prefix: "NUL \<notin> set c \<Longrightarrow> strneq (length c) s c \<longleftrightarrow> (\<exists>r. s = c @ r)"
proof (induction c arbitrary: s)
  case (Cons x c)
  then show ?case by (cases s) auto
qed simp

lemma skip_zeros_digits:
  assumes "all_digits ds" "ds \<noteq> []" "rest = [] \<or> digits_val ds \<noteq> 0"
  shows "skip_zeros (ds @ rest) = dec (digits_val ds) @ rest"
  using assms
proof (induction ds rule: skip_zeros.induct [case_names two none one])
  case (two c d s)
  show ?case
  proof (cases "c = CHR ''0''")
    case True
    then show ?thesis using two by (simp add: digit_val_zero_iff)
  next
    case False
    then show ?thesis using dec_digits_val [of "c # d # s"] two by simp
  qed
next
  case (one c)
  have c: "dec (digit_val c) = [c]" using one by (simp add: dec.simps [of "digit_val c"])
  then show ?case using one by (cases rest) (auto simp: digit_val_zero_iff)
qed simp

lemma recheck_digits:
  assumes "all_digits ds" "ds \<noteq> []" "rest = [] \<or> digits_val ds \<noteq> 0" "\<not> isdigit (c_hd rest)"
  shows "recheck w neg (ds @ rest) =
    (w \<noteq> (if neg then - int (digits_val ds) else int (digits_val ds)), neg \<and> w \<noteq> 0)"
proof -
  let ?V = "digits_val ds"
  define cmp where "cmp = dec (nat \<bar>w\<bar>)"
  have digits: "all_digits cmp" "cmp \<noteq> []" by (simp_all add: cmp_def)
  then have "c_hd cmp \<noteq> CHR ''-''" by (cases cmp) auto
  then have cmp: "(c_hd (show_int w) = CHR ''-'') = (w < 0)"
    "(if w < 0 then tl (show_int w) else show_int w) = cmp"
    by (cases "w < 0"; simp add: show_int_def cmp_def)+
  have same: "strneq (length cmp) (dec ?V @ rest) cmp \<and> (length (dec ?V @ rest) \<noteq> length cmp \<longrightarrow>
      \<not> isdigit (c_hd (drop (length cmp) (dec ?V @ rest)))) \<longleftrightarrow> ?V = nat \<bar>w\<bar>" (is "?l \<longleftrightarrow> ?r")
  proof
    assume l: ?l
    have "NUL \<notin> set cmp" by (simp add: cmp_def)
    then obtain r where r: "dec ?V @ rest = cmp @ r" using l strneq_prefix by blast
    then have "\<not> isdigit (c_hd r)" using l unfolding r by (cases r) auto
    then have "takeWhile isdigit (dec ?V @ rest) = cmp" using r takeWhile_digits digits(1) by simp
    then show ?r using takeWhile_digits [OF all_digits_dec assms(4)] by (simp add: cmp_def)
  next
    assume ?r
    then show ?l using assms(4) by (simp add: cmp_def strneq_prefix)
  qed
  show ?thesis
    using same cmp skip_zeros_digits [OF assms(1-3)]
    by (cases "w = 0"; cases "w < 0"; cases neg) (auto simp: recheck_def Let_def)
qed

lemma sint_wrap: "in_i64 z \<Longrightarrow> sint (word_of_int z :: 64 word) = z"
  by (simp add: in_i64_def sint_sbintrunc' signed_take_bit_int_eq_self)

lemma sint_wrap_in: "in_i64 (sint (w :: 64 word))"
  using sint_greater_eq [of w] sint_less [of w] by (simp add: in_i64_def)

lemma sint_wrap_zero: "sint (word_of_int z :: 64 word) = 0 \<longleftrightarrow> 2 ^ 64 dvd z"
  by (simp add: signed_eq_0_iff word_of_int_eq_0_iff)

lemma sint_wrap_iff: "sint (word_of_int z :: 64 word) = z \<longleftrightarrow> in_i64 z"
  using sint_wrap [of z] sint_wrap_in [of "word_of_int z"] by auto

lemma wrapped_clamp:
  assumes "w = sint (word_of_int z :: 64 word)" "neg \<Longrightarrow> z \<le> 0" "\<not> neg \<Longrightarrow> 0 \<le> z"
    and "neg \<Longrightarrow> z = 0 \<or> \<not> 2 ^ 64 dvd z"
  shows "(if w \<noteq> z then if neg \<and> w \<noteq> 0 then INT64_MIN else INT64_MAX else w) = clamp64 z"
proof (cases "in_i64 z")
  case True
  then show ?thesis using assms(1) by (simp add: sint_wrap clamp64_in)
next
  case False
  then have "w \<noteq> z" using assms(1) sint_wrap_iff by simp
  moreover have "neg \<Longrightarrow> w \<noteq> 0" using assms(1,4) False sint_wrap_zero [of z] by (auto simp: in_i64_def)
  ultimately show ?thesis using False assms(2,3) by (cases neg) (simp_all add: clamp64_def in_i64_def)
qed

text \<open>A process that has not parsed a number yet.\<close>

definition sscanf_fresh :: sscanf_state where
  "sscanf_fresh = \<lparr>sscanf_is_broken = False, sscanf_is_broken_testdone = False\<rparr>"

lemma json_parse_int64_fresh:
  "json_parse_int64 std_sscanf errno sscanf_fresh buf =
     Some (map_option clamp64 (scan_int buf), \<lparr>sscanf_is_broken = False, sscanf_is_broken_testdone = True\<rparr>)"
  "json_parse_int64 wrapping_sscanf errno sscanf_fresh buf =
     Some (parse_int64_with wrapping_sscanf True buf, \<lparr>sscanf_is_broken = True, sscanf_is_broken_testdone = True\<rparr>)"
  by (simp_all add: json_parse_int64_def sscanf_fresh_def std_not_broken wrapping_broken
      parse_int64_conforming)

section \<open>Properties\<close>

text \<open>
  C31. With a conforming \<open>sscanf\<close>, \<open>json_parse_int64\<close> fails exactly on the strings that do not
  start with an integer and otherwise stores that integer clamped to 64 bits, whatever \<open>errno\<close>
  was before and whether or not the test of \<open>sscanf\<close> has been done.
\<close>

theorem json_parse_int64_spec:
  "st = sscanf_fresh \<or> (sscanf_is_broken_testdone st \<and> \<not> sscanf_is_broken st) \<Longrightarrow>
   \<exists>st'. json_parse_int64 std_sscanf errno st buf = Some (map_option clamp64 (scan_int buf), st')
     \<and> sscanf_is_broken_testdone st' \<and> \<not> sscanf_is_broken st'"
  by (elim disjE; simp add: json_parse_int64_def parse_int64_conforming std_not_broken sscanf_fresh_def)

theorem json_parse_int64_spec_witness:
  "\<exists>st'. json_parse_int64 std_sscanf False sscanf_fresh ''  -42 rest'' = Some (Some (-42), st')
    \<and> sscanf_is_broken_testdone st' \<and> \<not> sscanf_is_broken st'"
proof -
  have "scan_int ''  -42 rest'' = Some (- 42)"
    by (simp add: scan_int_def isspace_def isdigit_def code_of_def digit_val_def Let_def)
  then show ?thesis
    using json_parse_int64_spec [of sscanf_fresh False "''  -42 rest''"] by (simp add: clamp64_def)
qed

text \<open>
  C32. The workaround is right: with a \<open>sscanf\<close> that wraps around silently, an integer written
  without a plus sign gives what a conforming \<open>sscanf\<close> gives, out of range or not. Excluded
  are a zero followed by other text, and negative multiples of \<open>2 ^ 64\<close>, where it is not.
\<close>

lemma scan_int_signed:
  assumes "all_digits ds" "ds \<noteq> []" "\<not> isdigit (c_hd rest)" "\<forall>c\<in>set sp. isspace c"
  shows "dropWhile isspace (sp @ (if neg then ''-'' else []) @ ds @ rest) =
      (if neg then CHR ''-'' # ds @ rest else ds @ rest)"
    "scan_int (sp @ (if neg then ''-'' else []) @ ds @ rest) =
      Some (if neg then - int (digits_val ds) else int (digits_val ds))"
proof -
  show d: "dropWhile isspace (sp @ (if neg then ''-'' else []) @ ds @ rest) =
      (if neg then CHR ''-'' # ds @ rest else ds @ rest)"
    using assms(1,2,4) isdigit_not_space by (cases ds; cases neg) (simp_all add: dropWhile_append2 isspace_def)
  show "scan_int (sp @ (if neg then ''-'' else []) @ ds @ rest) =
      Some (if neg then - int (digits_val ds) else int (digits_val ds))"
    using scan_int_digits [OF assms(1-3)] by (subst scan_int_dropWhile [symmetric], subst d) simp
qed

theorem sscanf_workaround:
  assumes "all_digits ds" "ds \<noteq> []" "\<not> isdigit (c_hd rest)" "\<forall>c\<in>set sp. isspace c"
    and "rest = [] \<or> digits_val ds \<noteq> 0"
    and "neg \<Longrightarrow> digits_val ds = 0 \<or> \<not> 2 ^ 64 dvd int (digits_val ds)"
    and "buf = sp @ (if neg then ''-'' else []) @ ds @ rest"
  shows "map_option fst (json_parse_int64 wrapping_sscanf errno sscanf_fresh buf) =
    map_option fst (json_parse_int64 std_sscanf errno sscanf_fresh buf)"
proof -
  let ?z = "if neg then - int (digits_val ds) else int (digits_val ds)"
  let ?w = "sint (word_of_int ?z :: 64 word)"
  note scan = scan_int_signed [OF assms(1-4), of neg, folded assms(7)]
  have "c_hd (ds @ rest) \<noteq> CHR ''-''" using assms(1,2) by (cases ds) auto
  then have hd: "(c_hd (dropWhile isspace buf) = CHR ''-'') = neg"
    and sig: "(if neg then tl (dropWhile isspace buf) else dropWhile isspace buf) = ds @ rest"
    using scan(1) by auto
  have w: "wrapping_sscanf (dropWhile isspace buf) = Some (?w, False)"
    using scan(2) by (simp add: wrapping_sscanf_def)
  have wrap: "parse_int64_with wrapping_sscanf True buf =
      Some (if ?w \<noteq> ?z then if neg \<and> ?w \<noteq> 0 then INT64_MIN else INT64_MAX else ?w)"
    unfolding parse_int64_with_def Let_def dropWhile_space w hd sig
    by (simp add: recheck_digits [OF assms(1,2,5,3)])
  have "(if ?w \<noteq> ?z then if neg \<and> ?w \<noteq> 0 then INT64_MIN else INT64_MAX else ?w) = clamp64 ?z"
    by (rule wrapped_clamp [OF refl]) (use assms(6) in \<open>simp_all split: if_splits\<close>)
  then show ?thesis using scan(2) wrap by (simp add: json_parse_int64_fresh)
qed

theorem sscanf_workaround_witness:
  "map_option fst (json_parse_int64 wrapping_sscanf False sscanf_fresh ''-99999999999999999999,'')
    = Some (Some INT64_MIN)"
proof -
  have "map_option fst (json_parse_int64 wrapping_sscanf False sscanf_fresh ''-99999999999999999999,'')
      = map_option fst (json_parse_int64 std_sscanf False sscanf_fresh ''-99999999999999999999,'')"
    by (rule sscanf_workaround [where sp = "[]" and neg = True and ds = "''99999999999999999999''" and rest = "'',''"])
      (simp_all add: isdigit_def code_of_def digit_val_def)
  then show ?thesis
    by (simp add: json_parse_int64_fresh scan_int_def isspace_def isdigit_def code_of_def
        digit_val_def clamp64_def Let_def)
qed

text \<open>The three inputs the workaround gets wrong.\<close>

lemma sscanf_workaround_plus:
  "parse_int64_with wrapping_sscanf True ''+5'' = Some INT64_MAX" "scan_int ''+5'' = Some 5"
  by (simp_all add: parse_int64_with_def wrapping_sscanf_def recheck_def scan_int_def isspace_def
      isdigit_def code_of_def digit_val_def show_int_def dec.simps digit_def char_of_def Let_def)

lemma sscanf_workaround_zero:
  "parse_int64_with wrapping_sscanf True ''0,'' = Some INT64_MAX" "scan_int ''0,'' = Some 0"
  by (simp_all add: parse_int64_with_def wrapping_sscanf_def recheck_def scan_int_def isspace_def
      isdigit_def code_of_def digit_val_def show_int_def dec.simps digit_def char_of_def Let_def)

lemma sscanf_workaround_multiple:
  "parse_int64_with wrapping_sscanf True ''-18446744073709551616'' = Some INT64_MAX"
  "scan_int ''-18446744073709551616'' = Some (- 18446744073709551616)"
  by (simp_all add: parse_int64_with_def wrapping_sscanf_def recheck_def scan_int_def isspace_def
      isdigit_def code_of_def digit_val_def show_int_def dec.simps digit_def char_of_def Let_def)

end
