(* ===== verification/Json_Value.thy ===== *)
theory Json_Value
  imports Json_Util
begin

text \<open>
  JSON values as the readers of an object see them (\<open>json_object.c\<close>): the tagged union as a
  datatype, \<open>NULL\<close> as \<open>JNull\<close>, the fields of an object in the order of its list of entries. A
  double is its IEEE 754 bit pattern; one made by \<open>json_object_new_double_s\<close> carries the text
  it was made from. The accessors follow the code: \<open>None\<close> is the undefined conversion of a
  double that does not fit the integer type.
\<close>

section \<open>Doubles\<close>

type_synonym double = "64 word"

definition d_neg :: "double \<Rightarrow> bool" where
  "d_neg d \<longleftrightarrow> 2 ^ 63 \<le> unat d"

definition d_exp :: "double \<Rightarrow> nat" where
  "d_exp d = unat d div 2 ^ 52 mod 2048"

definition d_man :: "double \<Rightarrow> nat" where
  "d_man d = unat d mod 2 ^ 52"

definition d_zero :: "double \<Rightarrow> bool" where
  "d_zero d \<longleftrightarrow> d_exp d = 0 \<and> d_man d = 0"

definition d_isnan :: "double \<Rightarrow> bool" where
  "d_isnan d \<longleftrightarrow> d_exp d = 2047 \<and> d_man d \<noteq> 0"

definition d_isinf :: "double \<Rightarrow> bool" where
  "d_isinf d \<longleftrightarrow> d_exp d = 2047 \<and> d_man d = 0"

text \<open>\<open>HUGE_VAL\<close> and \<open>NAN\<close>.\<close>

definition d_inf :: double where "d_inf = 0x7FF0000000000000"
definition d_minus_inf :: double where "d_minus_inf = 0xFFF0000000000000"
definition d_nan :: double where "d_nan = 0x7FF8000000000000"

text \<open>The conversion to an integer: the value without its fraction.\<close>

definition double_trunc :: "double \<Rightarrow> int option" where
  "double_trunc d =
     (if d_exp d = 2047 then None
      else let m = (if d_exp d = 0 then d_man d else 2 ^ 52 + d_man d);
               e = (if d_exp d = 0 then 1 else d_exp d);
               n = (if 1075 \<le> e then m * 2 ^ (e - 1075) else m div 2 ^ (1075 - e))
           in Some (if d_neg d then - int n else int n))"

text \<open>The conversion from an integer, to the nearest double, ties to even.\<close>

definition round_man :: "nat \<Rightarrow> nat \<Rightarrow> nat" where
  "round_man n l =
     (if l \<le> 52 then n * 2 ^ (52 - l)
      else let q = n div 2 ^ (l - 52); r = n mod 2 ^ (l - 52); half = 2 ^ (l - 53)
           in if half < r \<or> r = half \<and> odd q then q + 1 else q)"

definition double_of_int :: "int \<Rightarrow> double" where
  "double_of_int i =
     (if i = 0 then 0
      else let n = nat \<bar>i\<bar>; l = bit_len n - 1
           in of_nat ((if i < 0 then 2 ^ 63 else 0) + (l + 1023) * 2 ^ 52 + (round_man n l - 2 ^ 52)))"

section \<open>Character classes\<close>

definition json_number_chars :: string where
  "json_number_chars = ''0123456789.+-eE''"

definition json_hex_chars :: string where
  "json_hex_chars = ''0123456789abcdefABCDEF''"

section \<open>Values and constructors\<close>

datatype jval =
    JNull
  | JBool int
  | JInt int
  | JDouble double "string option"
  | JString string
  | JArray "jval list"
  | JObject "(string \<times> jval) list"

definition json_object_new_boolean :: "int \<Rightarrow> jval" where
  "json_object_new_boolean b = JBool b"

definition json_object_new_int :: "int \<Rightarrow> jval" where
  "json_object_new_int i = JInt i"

definition json_object_new_int64 :: "int \<Rightarrow> jval" where
  "json_object_new_int64 i = JInt i"

definition json_object_new_double :: "double \<Rightarrow> jval" where
  "json_object_new_double d = JDouble d None"

definition json_object_new_double_s :: "double \<Rightarrow> string \<Rightarrow> jval" where
  "json_object_new_double_s d ds = JDouble d (Some (cstr ds))"

text \<open>The argument of \<open>new_string\<close> is a C string, that of \<open>new_string_len\<close> a block of bytes.\<close>

definition json_object_new_string :: "string \<Rightarrow> jval" where
  "json_object_new_string s = JString (cstr s)"

definition json_object_new_string_len :: "string \<Rightarrow> int \<Rightarrow> jval option" where
  "json_object_new_string_len s len =
     (if 0 \<le> len \<and> len \<le> int (length s) then Some (JString (take (nat len) s)) else None)"

text \<open>
  \<open>json_object_object_add\<close> on the fields: the value of an existing key is replaced in place, a
  new key goes to the end of the list.
\<close>

fun field_put :: "(string \<times> 'v) list \<Rightarrow> string \<Rightarrow> 'v \<Rightarrow> (string \<times> 'v) list" where
  "field_put [] key val = [(key, val)]"
| "field_put ((k, v) # kvs) key val =
     (if k = key then (k, val) # kvs else (k, v) # field_put kvs key val)"

section \<open>Accessors\<close>

fun json_object_get_type :: "jval \<Rightarrow> json_type" where
  "json_object_get_type JNull = json_type_null"
| "json_object_get_type (JBool b) = json_type_boolean"
| "json_object_get_type (JInt i) = json_type_int"
| "json_object_get_type (JDouble d t) = json_type_double"
| "json_object_get_type (JString s) = json_type_string"
| "json_object_get_type (JArray vs) = json_type_array"
| "json_object_get_type (JObject kvs) = json_type_object"

definition json_object_is_type :: "jval \<Rightarrow> json_type \<Rightarrow> bool" where
  "json_object_is_type v ty \<longleftrightarrow>
     (case v of JNull \<Rightarrow> ty = json_type_null | _ \<Rightarrow> json_object_get_type v = ty)"

fun json_object_get_boolean :: "jval \<Rightarrow> int" where
  "json_object_get_boolean (JBool b) = b"
| "json_object_get_boolean (JInt i) = (if i \<noteq> 0 then 1 else 0)"
| "json_object_get_boolean (JDouble d t) = (if \<not> d_zero d then 1 else 0)"
| "json_object_get_boolean (JString s) = (if length s \<noteq> 0 then 1 else 0)"
| "json_object_get_boolean v = 0"

definition clamp32 :: "int \<Rightarrow> int" where
  "clamp32 z = (if z \<le> INT32_MIN then INT32_MIN else if INT32_MAX \<le> z then INT32_MAX else z)"

text \<open>
  The integer accessors call \<open>json_parse_int64\<close> on a string: \<open>sscanf\<close> is the library function
  and \<open>broken\<close> what its test found.
\<close>

fun json_object_get_int :: "sscanf_d64 \<Rightarrow> bool \<Rightarrow> jval \<Rightarrow> int option" where
  "json_object_get_int sscanf broken (JString s) =
     (case parse_int64_with sscanf broken (cstr s) of None \<Rightarrow> Some 0 | Some z \<Rightarrow> Some (clamp32 z))"
| "json_object_get_int sscanf broken (JInt i) = Some (clamp32 i)"
| "json_object_get_int sscanf broken (JDouble d t) =
     do { z \<leftarrow> double_trunc d; if in_i32 z then Some z else None }"
| "json_object_get_int sscanf broken (JBool b) = Some b"
| "json_object_get_int sscanf broken v = Some 0"

fun json_object_get_int64 :: "sscanf_d64 \<Rightarrow> bool \<Rightarrow> jval \<Rightarrow> int option" where
  "json_object_get_int64 sscanf broken (JInt i) = Some i"
| "json_object_get_int64 sscanf broken (JDouble d t) =
     do { z \<leftarrow> double_trunc d; if in_i64 z then Some z else None }"
| "json_object_get_int64 sscanf broken (JBool b) = Some b"
| "json_object_get_int64 sscanf broken (JString s) =
     (case parse_int64_with sscanf broken (cstr s) of None \<Rightarrow> Some 0 | Some z \<Rightarrow> Some z)"
| "json_object_get_int64 sscanf broken v = Some 0"

text \<open>
  \<open>strtod\<close> gives the value, what is left of the string, and whether \<open>errno\<close> is \<open>ERANGE\<close>.
\<close>

fun json_object_get_double :: "(string \<Rightarrow> double \<times> string \<times> bool) \<Rightarrow> jval \<Rightarrow> double" where
  "json_object_get_double strtod (JDouble d t) = d"
| "json_object_get_double strtod (JInt i) = double_of_int i"
| "json_object_get_double strtod (JBool b) = double_of_int b"
| "json_object_get_double strtod (JString s) =
     (case strtod (cstr s) of (cdouble, errPtr, erange) \<Rightarrow>
        if errPtr = cstr s then 0
        else if errPtr \<noteq> [] then 0
        else if (cdouble = d_inf \<or> cdouble = d_minus_inf) \<and> erange then 0
        else cdouble)"
| "json_object_get_double strtod v = 0"

fun json_object_get_string_len :: "jval \<Rightarrow> int" where
  "json_object_get_string_len (JString s) = int (length s)"
| "json_object_get_string_len v = 0"

section \<open>Lemmas\<close>

lemma clamp32_i32: "in_i32 (clamp32 z)" "in_i32 z \<Longrightarrow> clamp32 z = z"
  by (auto simp: clamp32_def in_i32_def)

lemma clamp32_zero [simp]: "clamp32 0 = 0" "in_i32 0"
  by (simp_all add: clamp32_def in_i32_def)

lemma in_i32_in_i64 [simp]: "in_i32 z \<Longrightarrow> in_i64 z"
  by (simp add: in_i32_def in_i64_def)

lemma clamp32_mono: "y \<le> z \<Longrightarrow> clamp32 y \<le> clamp32 z"
  by (simp add: clamp32_def)

lemma clamp32_clamp64: "clamp32 (clamp64 z) = clamp32 z"
  by (simp add: clamp32_def clamp64_def)

lemma double_fields:
  assumes "e < 2048" "m < 2 ^ 52"
  shows "d_neg (of_nat ((if neg then 2 ^ 63 else 0) + e * 2 ^ 52 + m)) = neg"
    "d_exp (of_nat ((if neg then 2 ^ 63 else 0) + e * 2 ^ 52 + m)) = e"
    "d_man (of_nat ((if neg then 2 ^ 63 else 0) + e * 2 ^ 52 + m)) = m"
proof -
  let ?n = "(if neg then 2 ^ 63 else 0) + e * 2 ^ 52 + m"
  have b: "e * 2 ^ 52 + m < 2 ^ 63"
  proof -
    have "e * 2 ^ 52 \<le> 2047 * 2 ^ 52" using assms(1) by simp
    then show ?thesis using assms(2) by simp
  qed
  define N where "N = ?n"
  have u: "unat (of_nat N :: double) = N"
    using b by (subst unsigned_of_nat) (simp add: take_bit_nat_eq_self N_def)
  have q: "N = (if neg then 2048 + e else e) * 2 ^ 52 + m" by (simp add: N_def)
  have "N div 2 ^ 52 = (if neg then 2048 + e else e)" unfolding q using assms(2) by simp
  moreover have "N mod 2 ^ 52 = m" unfolding q using assms(2) by simp
  moreover have "2 ^ 63 \<le> N \<longleftrightarrow> neg" using b by (simp add: N_def)
  ultimately show "d_neg (of_nat ?n) = neg" "d_exp (of_nat ?n) = e" "d_man (of_nat ?n) = m"
    unfolding N_def [symmetric] d_neg_def d_exp_def d_man_def u using assms(1) by simp_all
qed

lemma trunc_of_int:
  assumes "\<bar>i\<bar> < 2 ^ 53"
  shows "double_trunc (double_of_int i) = Some i"
proof (cases "i = 0")
  case True
  then show ?thesis by (simp add: double_of_int_def double_trunc_def d_exp_def d_man_def d_neg_def)
next
  case False
  define n l where "n = nat \<bar>i\<bar>" "l = bit_len n - 1"
  have b: "2 ^ l \<le> n" "n < 2 ^ Suc l" using bit_len_bounds [of n] False by (auto simp: n_l_def)
  have "n < 2 ^ 53" using assms by (simp add: n_l_def)
  then have "(2::nat) ^ l < 2 ^ 53" using b(1) by linarith
  then have l: "l \<le> 52" using power_less_imp_less_exp [of "2::nat" l 53] by simp
  define m where "m = n * 2 ^ (52 - l)"
  have "(2::nat) ^ l * 2 ^ (52 - l) = 2 ^ 52" using l by (simp add: power_add [symmetric] del: power_Suc)
  moreover have "m < 2 ^ Suc l * 2 ^ (52 - l)" unfolding m_def using b(2) by simp
  moreover have "2 ^ l * 2 ^ (52 - l) \<le> m" unfolding m_def using b(1) by simp
  ultimately have m: "2 ^ 52 \<le> m" "m < 2 * 2 ^ 52" by (simp_all add: mult.assoc)
  have e: "l + 1023 < 2048" "m - 2 ^ 52 < 2 ^ 52" using l m by auto
  have d: "double_of_int i = of_nat ((if i < 0 then 2 ^ 63 else 0) + (l + 1023) * 2 ^ 52 + (m - 2 ^ 52))"
    using False l by (simp add: double_of_int_def Let_def round_man_def m_def n_l_def)
  have "m div 2 ^ (52 - l) = n" by (simp add: m_def)
  moreover have "1075 - (l + 1023) = 52 - l" by simp
  ultimately show ?thesis
    using l m double_fields [OF e, of "i < 0"]
    by (simp add: double_trunc_def d Let_def) (auto simp: n_l_def)
qed

section \<open>Properties\<close>

text \<open>
  The 32-bit accessor is the 64-bit one clamped to 32 bits, whatever the type of the value
  (strings through either kind of \<open>sscanf\<close>), so it never wraps around; for a double the two
  agree where the 32-bit conversion is defined.
\<close>

theorem json_object_get_int_clamps:
  assumes "\<forall>b. v = JBool b \<longrightarrow> in_i32 b"
  shows "(\<forall>z. json_object_get_int sscanf broken v = Some z \<longrightarrow> in_i32 z)
    \<and> ((\<forall>d t. v \<noteq> JDouble d t) \<longrightarrow>
        json_object_get_int sscanf broken v = map_option clamp32 (json_object_get_int64 sscanf broken v))
    \<and> (\<forall>z. json_object_get_int sscanf broken v = Some z \<longrightarrow>
        (\<exists>z'. json_object_get_int64 sscanf broken v = Some z' \<and> z = clamp32 z'))"
  using assms
  by (cases v) (auto simp: clamp32_i32 bind_eq_Some_iff in_i32_in_i64 split: option.splits if_splits,
    metis clamp32_i32(2) in_i32_in_i64)

theorem json_object_get_int_clamps_witness:
  "json_object_get_int std_sscanf False (JInt 3000000000) = Some 2147483647"
proof -
  have "\<forall>b. JInt 3000000000 = JBool b \<longrightarrow> in_i32 b" by simp
  from json_object_get_int_clamps [OF this, of std_sscanf False] show ?thesis
    by (simp add: clamp32_def)
qed

text \<open>
  An integer of less than 54 bits survives the conversion to a double and back: reading an
  int as a double and that double as an int gives the int.
\<close>

theorem int_double_roundtrip:
  assumes "\<bar>i\<bar> < 2 ^ 53"
  shows "json_object_get_int64 sscanf broken
    (json_object_new_double (json_object_get_double strtod (json_object_new_int64 i))) = Some i"
  using trunc_of_int [OF assms] assms
  by (auto simp: abs_less_iff json_object_new_double_def json_object_new_int64_def in_i64_def)

theorem int_double_roundtrip_witness:
  "json_object_get_int64 std_sscanf False
    (json_object_new_double (json_object_get_double (\<lambda>s. (0, s, False)) (json_object_new_int64 (- 77)))) = Some (- 77)"
  by (rule int_double_roundtrip) simp

end
