(* ===== verification/Json_Tokener.thy ===== *)
theory Json_Tokener
  imports Printbuf Json_Value
begin

text \<open>
  The incremental parser (\<open>json_tokener.c\<close>): the tokener with its stack of levels, one definition
  per state of the state machine, the main loop, and the entry points. \<open>str\<close> is the memory from
  the current position on; reading past it, using a level outside the stack, a byte that was
  never written or an object of the wrong type is undefined and gives \<open>None\<close>. Objects are values:
  \<open>NULL\<close> is \<open>JNull\<close>, and \<open>json_object_get\<close>/\<open>json_object_put\<close> are left to the ownership model.
  \<open>setlocale\<close> only selects the C locale for \<open>sscanf\<close>.
\<close>

unbundle bit_operations_syntax

section \<open>Errors, states, the tokener\<close>

datatype json_tokener_error =
    json_tokener_success | json_tokener_continue | json_tokener_error_depth
  | json_tokener_error_parse_eof | json_tokener_error_parse_unexpected
  | json_tokener_error_parse_null | json_tokener_error_parse_boolean
  | json_tokener_error_parse_number | json_tokener_error_parse_array
  | json_tokener_error_parse_object_key_name | json_tokener_error_parse_object_key_sep
  | json_tokener_error_parse_object_value_sep | json_tokener_error_parse_string
  | json_tokener_error_parse_comment | json_tokener_error_size

datatype json_tokener_state =
    st_eatws | st_start | st_finish | st_null | st_comment_start | st_comment | st_comment_eol
  | st_comment_end | st_string | st_string_escape | st_escape_unicode | st_boolean | st_number
  | st_array | st_array_add | st_array_sep | st_object_field_start | st_object_field
  | st_object_field_end | st_object_value | st_object_value_add | st_object_sep
  | st_array_after_sep | st_object_field_start_after_sep | st_inf

record srec =
  sr_state :: json_tokener_state
  sr_saved :: json_tokener_state
  sr_current :: jval
  sr_field_name :: "string option"

record json_tokener =
  tk_pb :: printbuf
  max_depth :: int
  tk_depth :: int
  is_double :: bool
  st_pos :: int
  char_offset :: int
  tk_err :: json_tokener_error
  ucs_char :: "32 word"
  quote_char :: char
  tk_stack :: "srec list"
  tk_flags :: "32 word"

definition JSON_TOKENER_DEFAULT_DEPTH :: int where "JSON_TOKENER_DEFAULT_DEPTH = 32"
definition JSON_TOKENER_STRICT :: "32 word" where "JSON_TOKENER_STRICT = 0x01"

abbreviation strict :: "json_tokener \<Rightarrow> bool" where
  "strict tok \<equiv> tk_flags tok AND JSON_TOKENER_STRICT \<noteq> 0"

definition json_tokener_errors :: "string list" where
  "json_tokener_errors =
    [''success'', ''continue'', ''nesting too deep'', ''unexpected end of data'',
     ''unexpected character'', ''null expected'', ''boolean expected'', ''number expected'',
     ''array value separator '' @ [CHR 0x27] @ '','' @ [CHR 0x27] @ '' expected'',
     ''quoted object property name expected'',
     ''object property name separator '' @ [CHR 0x27] @ '':'' @ [CHR 0x27] @ '' expected'',
     ''object value separator '' @ [CHR 0x27] @ '','' @ [CHR 0x27] @ '' expected'',
     ''invalid string sequence'', ''expected comment'', ''buffer size overflow'']"

definition json_tokener_error_desc :: "int \<Rightarrow> string" where
  "json_tokener_error_desc jerr =
     (if jerr < 0 \<or> int (length json_tokener_errors) \<le> jerr
      then ''Unknown error, invalid json_tokener_error value passed to json_tokener_error_desc()''
      else json_tokener_errors ! nat jerr)"

definition json_tokener_get_error :: "json_tokener \<Rightarrow> json_tokener_error" where
  "json_tokener_get_error tok = tk_err tok"

definition json_tokener_set_flags :: "json_tokener \<Rightarrow> 32 word \<Rightarrow> json_tokener" where
  "json_tokener_set_flags tok fl = tok\<lparr>tk_flags := fl\<rparr>"

text \<open>
  What is allocated beside the buffer: the tokener and its levels, an object or array and the list of
  an array, any other value, room in an array for an element, the name of a field, and its copy in the
  object.
\<close>

datatype memory_use = Mem_tokener | Mem_container | Mem_list | Mem_scalar | Mem_element | Mem_name | Mem_key

text \<open>
  The C library as the tokener uses it. \<open>mem_at\<close>: whether an allocation made at an offset of the
  input succeeds; no two of one use are made at one offset.
\<close>

record libc =
  realloc_ok :: "int \<Rightarrow> bool"
  mem_at :: "memory_use \<Rightarrow> int \<Rightarrow> bool"
  sscanf_d :: sscanf_d64
  sscanf_bad :: bool
  sscanf_lf :: "string \<Rightarrow> double option"

section \<open>Levels\<close>

definition level_ok :: "json_tokener \<Rightarrow> int \<Rightarrow> bool" where
  "level_ok tok d \<longleftrightarrow> 0 \<le> d \<and> d < int (length (tk_stack tok))"

definition top :: "json_tokener \<Rightarrow> srec" where
  "top tok = tk_stack tok ! nat (tk_depth tok)"

definition set_top :: "(srec \<Rightarrow> srec) \<Rightarrow> json_tokener \<Rightarrow> json_tokener" where
  "set_top f tok = tok\<lparr>tk_stack := (tk_stack tok)[nat (tk_depth tok) := f (top tok)]\<rparr>"

text \<open>The assignments \<open>state = \<dots>\<close>, and the pair that leaves a token through the white space state.\<close>

definition goto_state :: "json_tokener_state \<Rightarrow> json_tokener \<Rightarrow> json_tokener" where
  "goto_state s = set_top (\<lambda>r. r\<lparr>sr_state := s\<rparr>)"

definition eatws_then :: "json_tokener_state \<Rightarrow> json_tokener \<Rightarrow> json_tokener" where
  "eatws_then s = set_top (\<lambda>r. r\<lparr>sr_state := st_eatws, sr_saved := s\<rparr>)"

definition set_current :: "jval \<Rightarrow> json_tokener \<Rightarrow> json_tokener" where
  "set_current v = set_top (\<lambda>r. r\<lparr>sr_current := v\<rparr>)"

definition json_tokener_reset_level :: "json_tokener \<Rightarrow> int \<Rightarrow> json_tokener option" where
  "json_tokener_reset_level tok d =
     (if level_ok tok d
      then Some (tok\<lparr>tk_stack := (tk_stack tok)[nat d :=
             \<lparr>sr_state = st_eatws, sr_saved = st_start, sr_current = JNull, sr_field_name = None\<rparr>]\<rparr>)
      else None)"

text \<open>\<open>for (i = d; i >= 0; i--) json_tokener_reset_level (tok, i);\<close> with \<open>n = d + 1\<close>.\<close>

fun reset_levels :: "json_tokener \<Rightarrow> nat \<Rightarrow> json_tokener option" where
  "reset_levels tok 0 = Some tok"
| "reset_levels tok (Suc n) = do { tok \<leftarrow> json_tokener_reset_level tok (int n); reset_levels tok n }"

definition json_tokener_reset :: "json_tokener \<Rightarrow> json_tokener option" where
  "json_tokener_reset tok =
     do { tok \<leftarrow> reset_levels tok (nat (tk_depth tok + 1));
          Some (tok\<lparr>tk_depth := 0, tk_err := json_tokener_success\<rparr>) }"

text \<open>
  \<open>json_tokener_new_ex\<close>: \<open>calloc\<close> gives levels of zeros; the flag says whether the two succeed. Outer
  \<open>None\<close>: undefined; inner \<open>None\<close>: out of memory. A failed \<open>printbuf_new\<close> leaves a null \<open>tok->pb\<close>, which
  is a buffer without bytes: every state that uses it starts with \<open>printbuf_reset\<close>, undefined on both.
\<close>

definition null_printbuf :: printbuf where
  "null_printbuf = \<lparr>buf = [], bpos = 0, size = 0\<rparr>"

lemma printbuf_reset_null: "printbuf_reset null_printbuf = None"
  by (simp add: printbuf_reset_def null_printbuf_def mem_write_def)

definition json_tokener_new_ex :: "bool \<Rightarrow> (int \<Rightarrow> bool) \<Rightarrow> int \<Rightarrow> json_tokener option option" where
  "json_tokener_new_ex mem al d =
     (if \<not> mem then Some None
      else map_option Some (json_tokener_reset
          \<lparr>tk_pb = (case printbuf_new al of None \<Rightarrow> null_printbuf | Some p \<Rightarrow> p),
           max_depth = d, tk_depth = 0, is_double = False, st_pos = 0, char_offset = 0,
           tk_err = json_tokener_success, ucs_char = 0, quote_char = NUL,
           tk_stack = replicate (nat d)
             \<lparr>sr_state = st_eatws, sr_saved = st_eatws, sr_current = JNull, sr_field_name = None\<rparr>,
           tk_flags = 0\<rparr>))"

definition json_tokener_new :: "bool \<Rightarrow> (int \<Rightarrow> bool) \<Rightarrow> json_tokener option option" where
  "json_tokener_new mem al = json_tokener_new_ex mem al JSON_TOKENER_DEFAULT_DEPTH"

section \<open>The position in the input\<close>

text \<open>The local variables of \<open>json_tokener_parse_ex\<close>, with the tokener.\<close>

record pst =
  ps_tok :: json_tokener
  ps_str :: string
  ps_c :: char
  ps_obj :: jval

abbreviation upd_tok :: "(json_tokener \<Rightarrow> json_tokener) \<Rightarrow> pst \<Rightarrow> pst" where
  "upd_tok f ps \<equiv> ps\<lparr>ps_tok := f (ps_tok ps)\<rparr>"

definition PEEK_CHAR :: "int \<Rightarrow> pst \<Rightarrow> (bool \<times> pst) option" where
  "PEEK_CHAR len ps =
     (if char_offset (ps_tok ps) = len then
        if level_ok (ps_tok ps) (tk_depth (ps_tok ps)) then
          Some (False, ps\<lparr>ps_tok := (ps_tok ps)\<lparr>tk_err :=
            (if tk_depth (ps_tok ps) = 0 \<and> sr_state (top (ps_tok ps)) = st_eatws \<and> sr_saved (top (ps_tok ps)) = st_finish
             then json_tokener_success else json_tokener_continue)\<rparr>\<rparr>)
        else None
      else case ps_str ps of [] \<Rightarrow> None | c # _ \<Rightarrow> Some (True, ps\<lparr>ps_c := c\<rparr>))"

definition ADVANCE_CHAR :: "pst \<Rightarrow> (bool \<times> pst) option" where
  "ADVANCE_CHAR ps =
     (case ps_str ps of
        [] \<Rightarrow> None
      | _ # s \<Rightarrow> do { off \<leftarrow> i32 (char_offset (ps_tok ps) + 1);
                      Some (ps_c ps \<noteq> NUL, ps\<lparr>ps_str := s, ps_tok := (ps_tok ps)\<lparr>char_offset := off\<rparr>\<rparr>) })"

text \<open>\<open>!ADVANCE_CHAR (str, tok) || !PEEK_CHAR (c, tok)\<close>, negated.\<close>

definition next_char :: "int \<Rightarrow> pst \<Rightarrow> (bool \<times> pst) option" where
  "next_char len ps =
     do { (ok, ps) \<leftarrow> ADVANCE_CHAR ps; if ok then PEEK_CHAR len ps else Some (False, ps) }"

text \<open>
  The tighter loops: advance until \<open>stop\<close> holds of the character, doing \<open>eff\<close> for each one
  passed. The result says whether it was \<open>stop\<close> that ended the loop.
\<close>

lemma ADVANCE_CHAR_str: "ADVANCE_CHAR ps = Some (r, ps') \<Longrightarrow> ps_str ps = hd (ps_str ps) # ps_str ps'"
  by (auto simp: ADVANCE_CHAR_def bind_eq_Some_iff split: list.splits)

lemma PEEK_CHAR_str: "PEEK_CHAR len ps = Some (r, ps') \<Longrightarrow> ps_str ps' = ps_str ps"
  by (auto simp: PEEK_CHAR_def split: list.splits if_splits)

lemma next_char_str: "next_char len ps = Some (r, ps') \<Longrightarrow> ps_str ps = hd (ps_str ps) # ps_str ps'"
  by (auto simp: next_char_def bind_eq_Some_iff split: if_splits
      dest!: ADVANCE_CHAR_str PEEK_CHAR_str)

function scan ::
  "(char \<Rightarrow> json_tokener \<Rightarrow> json_tokener) \<Rightarrow> (char \<Rightarrow> bool) \<Rightarrow> int \<Rightarrow> pst \<Rightarrow> (bool \<times> pst) option" where
  "scan eff stop len ps =
     (if stop (ps_c ps) then Some (True, ps)
      else case next_char len (upd_tok (eff (ps_c ps)) ps) of
             None \<Rightarrow> None
           | Some (ok, ps') \<Rightarrow> if ok then scan eff stop len ps' else Some (False, ps'))"
  by auto
termination
proof (relation "measure (\<lambda>(eff, stop, len, ps). length (ps_str ps))")
  fix eff :: "char \<Rightarrow> json_tokener \<Rightarrow> json_tokener" and stop :: "char \<Rightarrow> bool" and len ps x ok ps'
  assume "\<not> stop (ps_c ps)" "next_char len (upd_tok (eff (ps_c ps)) ps) = Some x" "(ok, ps') = x" ok
  then have "ps_str ps = hd (ps_str ps) # ps_str ps'" by (auto dest!: next_char_str)
  then have "length (ps_str ps) = Suc (length (ps_str ps'))" by (metis length_Cons)
  then show "((eff, stop, len, ps'), eff, stop, len, ps) \<in> measure (\<lambda>(eff, stop, len, ps). length (ps_str ps))"
    by simp
qed simp

declare scan.simps [simp del]

text \<open>\<open>str - case_start\<close> bytes from \<open>case_start\<close> on.\<close>

definition passed :: "string \<Rightarrow> pst \<Rightarrow> string" where
  "passed case_start ps = take (length case_start - length (ps_str ps)) case_start"

definition append_fast :: "libc \<Rightarrow> string \<Rightarrow> pst \<Rightarrow> pst option" where
  "append_fast lib bs ps =
     do { p \<leftarrow> printbuf_memappend_fast (realloc_ok lib) (tk_pb (ps_tok ps)) bs;
          Some (ps\<lparr>ps_tok := (ps_tok ps)\<lparr>tk_pb := p\<rparr>\<rparr>) }"

definition pb_reset :: "pst \<Rightarrow> pst option" where
  "pb_reset ps = do { p \<leftarrow> printbuf_reset (tk_pb (ps_tok ps)); Some (ps\<lparr>ps_tok := (ps_tok ps)\<lparr>tk_pb := p\<rparr>\<rparr>) }"

section \<open>The states\<close>

text \<open>How a state is left: \<open>break\<close>, \<open>goto redo_char\<close>, \<open>goto out\<close>.\<close>

datatype flow = Brk | Redo | Out

type_synonym step = "libc \<Rightarrow> int \<Rightarrow> pst \<Rightarrow> (flow \<times> pst) option"

definition fail :: "json_tokener_error \<Rightarrow> pst \<Rightarrow> (flow \<times> pst) option" where
  "fail e ps = Some (Out, upd_tok (\<lambda>t. t\<lparr>tk_err := e\<rparr>) ps)"

definition leave :: "flow \<Rightarrow> (json_tokener \<Rightarrow> json_tokener) \<Rightarrow> pst \<Rightarrow> (flow \<times> pst) option" where
  "leave fl f ps = Some (fl, upd_tok f ps)"

definition step_eatws :: step where
  "step_eatws lib len ps =
     do { (ok, ps) \<leftarrow> scan (\<lambda>_ t. t) (\<lambda>c. \<not> isspace c) len ps;
          if \<not> ok then Some (Out, ps)
          else if ps_c ps = CHR ''/'' \<and> \<not> strict (ps_tok ps) then do {
            ps \<leftarrow> pb_reset ps;
            ps \<leftarrow> append_fast lib [ps_c ps] ps;
            leave Brk (goto_state st_comment_start) ps }
          else leave Redo (\<lambda>t. goto_state (sr_saved (top t)) t) ps }"

text \<open>
  \<open>current = json_object_new_\<dots> ()\<close>: a null pointer without memory, which stands for \<open>null\<close>. An array
  object whose list has no memory is undefined, since at the latest giving it back reads the list.
\<close>

definition allocated :: "libc \<Rightarrow> memory_use \<Rightarrow> jval \<Rightarrow> pst \<Rightarrow> jval" where
  "allocated lib use v ps = (if mem_at lib use (char_offset (ps_tok ps)) then v else JNull)"

definition step_start :: step where
  "step_start lib len ps =
     (let c = ps_c ps in
      if c = CHR ''{'' then
        leave Brk (set_current (allocated lib Mem_container (JObject []) ps) \<circ> eatws_then st_object_field_start) ps
      else if c = CHR ''['' then
        let v = allocated lib Mem_container (JArray []) ps in
        if v \<noteq> JNull \<and> \<not> mem_at lib Mem_list (char_offset (ps_tok ps)) then None
        else leave Brk (set_current v \<circ> eatws_then st_array) ps
      else if c = CHR ''I'' \<or> c = CHR ''i'' then do {
        ps \<leftarrow> pb_reset ps;
        leave Redo (\<lambda>t. (goto_state st_inf t)\<lparr>st_pos := 0\<rparr>) ps }
      else if c = CHR ''N'' \<or> c = CHR ''n'' then do {
        ps \<leftarrow> pb_reset ps;
        leave Redo (\<lambda>t. (goto_state st_null t)\<lparr>st_pos := 0\<rparr>) ps }
      else if c = CHR 0x27 \<and> strict (ps_tok ps) then fail json_tokener_error_parse_unexpected ps
      else if c = CHR 0x27 \<or> c = CHR 0x22 then do {
        ps \<leftarrow> pb_reset ps;
        leave Brk (\<lambda>t. (goto_state st_string t)\<lparr>quote_char := c\<rparr>) ps }
      else if c = CHR ''T'' \<or> c = CHR ''t'' \<or> c = CHR ''F'' \<or> c = CHR ''f'' then do {
        ps \<leftarrow> pb_reset ps;
        leave Redo (\<lambda>t. (goto_state st_boolean t)\<lparr>st_pos := 0\<rparr>) ps }
      else if isdigit c \<or> c = CHR ''-'' then do {
        ps \<leftarrow> pb_reset ps;
        leave Redo (\<lambda>t. (goto_state st_number t)\<lparr>is_double := False\<rparr>) ps }
      else fail json_tokener_error_parse_unexpected ps)"

definition step_finish :: step where
  "step_finish lib len ps =
     (let t = ps_tok ps in
      if tk_depth t = 0 then Some (Out, ps)
      else do {
        let obj = sr_current (top t);
        t \<leftarrow> json_tokener_reset_level t (tk_depth t);
        Some (Redo, ps\<lparr>ps_obj := obj, ps_tok := t\<lparr>tk_depth := tk_depth t - 1\<rparr>\<rparr>) })"

text \<open>The literals. The buffer is compared up to the position reached, ignoring case unless strict.\<close>

definition json_null_str :: string where "json_null_str = ''null''"
definition json_inf_str :: string where "json_inf_str = ''Infinity''"
definition json_nan_str :: string where "json_nan_str = ''NaN''"
definition json_true_str :: string where "json_true_str = ''true''"
definition json_false_str :: string where "json_false_str = ''false''"

definition lit_match :: "json_tokener \<Rightarrow> string \<Rightarrow> string \<Rightarrow> bool" where
  "lit_match t lit b \<longleftrightarrow>
     (let size = nat (min (st_pos t + 1) (int (length lit)))
      in \<not> strict t \<and> strncaseeq size lit b \<or> strneq size lit b)"

definition lit_done :: "json_tokener \<Rightarrow> string \<Rightarrow> bool" where
  "lit_done t lit \<longleftrightarrow> st_pos t = int (length lit)"

definition finish_with :: "libc \<Rightarrow> jval \<Rightarrow> pst \<Rightarrow> (flow \<times> pst) option" where
  "finish_with lib v ps = leave Redo (eatws_then st_finish \<circ> set_current (allocated lib Mem_scalar v ps)) ps"

definition more_literal :: "pst \<Rightarrow> (flow \<times> pst) option" where
  "more_literal = leave Brk (\<lambda>t. t\<lparr>st_pos := st_pos t + 1\<rparr>)"

definition step_inf :: step where
  "step_inf lib len ps =
     do { ps \<leftarrow> append_fast lib [ps_c ps] ps;
          infbuf \<leftarrow> read_cstr (buf (tk_pb (ps_tok ps)));
          let is_negative = (c_hd infbuf = CHR ''-'');
          let infbuf = (if is_negative then tl infbuf else infbuf);
          if lit_match (ps_tok ps) json_inf_str infbuf then
            if lit_done (ps_tok ps) json_inf_str
            then finish_with lib (json_object_new_double (if is_negative then d_minus_inf else d_inf)) ps
            else more_literal ps
          else fail json_tokener_error_parse_unexpected ps }"

definition step_null :: step where
  "step_null lib len ps =
     do { ps \<leftarrow> append_fast lib [ps_c ps] ps;
          b \<leftarrow> read_cstr (buf (tk_pb (ps_tok ps)));
          if lit_match (ps_tok ps) json_null_str b then
            if lit_done (ps_tok ps) json_null_str then finish_with lib JNull ps else more_literal ps
          else if lit_match (ps_tok ps) json_nan_str b then
            if lit_done (ps_tok ps) json_nan_str then finish_with lib (json_object_new_double d_nan) ps
            else more_literal ps
          else fail json_tokener_error_parse_null ps }"

definition step_boolean :: step where
  "step_boolean lib len ps =
     do { ps \<leftarrow> append_fast lib [ps_c ps] ps;
          b \<leftarrow> read_cstr (buf (tk_pb (ps_tok ps)));
          if lit_match (ps_tok ps) json_true_str b then
            if lit_done (ps_tok ps) json_true_str then finish_with lib (json_object_new_boolean 1) ps
            else more_literal ps
          else if lit_match (ps_tok ps) json_false_str b then
            if lit_done (ps_tok ps) json_false_str then finish_with lib (json_object_new_boolean 0) ps
            else more_literal ps
          else fail json_tokener_error_parse_boolean ps }"

definition step_comment_start :: step where
  "step_comment_start lib len ps =
     (if ps_c ps = CHR ''*'' then do {
        ps \<leftarrow> append_fast lib [ps_c ps] (upd_tok (goto_state st_comment) ps); Some (Brk, ps) }
      else if ps_c ps = CHR ''/'' then do {
        ps \<leftarrow> append_fast lib [ps_c ps] (upd_tok (goto_state st_comment_eol) ps); Some (Brk, ps) }
      else fail json_tokener_error_parse_comment ps)"

definition step_comment :: step where
  "step_comment lib len ps =
     do { let case_start = ps_str ps;
          (ok, ps) \<leftarrow> scan (\<lambda>_ t. t) (\<lambda>c. c = CHR ''*'') len ps;
          if \<not> ok then do { ps \<leftarrow> append_fast lib (passed case_start ps) ps; Some (Out, ps) }
          else do {
            ps \<leftarrow> append_fast lib (passed case_start ps @ [ps_c ps]) ps;
            leave Brk (goto_state st_comment_end) ps } }"

definition step_comment_eol :: step where
  "step_comment_eol lib len ps =
     do { let case_start = ps_str ps;
          (ok, ps) \<leftarrow> scan (\<lambda>_ t. t) (\<lambda>c. c = CHR 0x0A) len ps;
          ps \<leftarrow> append_fast lib (passed case_start ps) ps;
          if \<not> ok then Some (Out, ps) else leave Brk (goto_state st_eatws) ps }"

definition step_comment_end :: step where
  "step_comment_end lib len ps =
     do { ps \<leftarrow> append_fast lib [ps_c ps] ps;
          leave Brk (goto_state (if ps_c ps = CHR ''/'' then st_eatws else st_comment)) ps }"

text \<open>Strings: the bytes up to the quote or a backslash go to the buffer in one piece.\<close>

definition quote_or_backslash :: "pst \<Rightarrow> char \<Rightarrow> bool" where
  "quote_or_backslash ps c \<longleftrightarrow> c = quote_char (ps_tok ps) \<or> c = CHR 0x5C"

text \<open>The first \<open>tok->pb->bpos\<close> bytes of the buffer, all of them written.\<close>

definition pb_bytes :: "printbuf \<Rightarrow> string option" where
  "pb_bytes p =
     (let bs = take (nat (bpos p)) (buf p)
      in if None \<in> set bs \<or> int (length bs) \<noteq> bpos p then None else Some (map the bs))"

definition step_string :: step where
  "step_string lib len ps =
     do { let case_start = ps_str ps;
          (ok, ps) \<leftarrow> scan (\<lambda>_ t. t) (quote_or_backslash ps) len ps;
          ps \<leftarrow> append_fast lib (passed case_start ps) ps;
          if \<not> ok then Some (Out, ps)
          else if ps_c ps = quote_char (ps_tok ps) then do {
            bs \<leftarrow> pb_bytes (tk_pb (ps_tok ps));
            v \<leftarrow> json_object_new_string_len bs (bpos (tk_pb (ps_tok ps)));
            leave Brk (eatws_then st_finish \<circ> set_current (allocated lib Mem_scalar v ps)) ps }
          else leave Brk (set_top (\<lambda>r. r\<lparr>sr_saved := st_string, sr_state := st_string_escape\<rparr>)) ps }"

definition back_to_saved :: "json_tokener \<Rightarrow> json_tokener" where
  "back_to_saved = set_top (\<lambda>r. r\<lparr>sr_state := sr_saved r\<rparr>)"

definition step_string_escape :: step where
  "step_string_escape lib len ps =
     (let c = ps_c ps in
      if c = CHR 0x22 \<or> c = CHR 0x5C \<or> c = CHR ''/'' then do {
        ps \<leftarrow> append_fast lib [c] ps; leave Brk back_to_saved ps }
      else if c = CHR ''b'' then do { ps \<leftarrow> append_fast lib [CHR 0x08] ps; leave Brk back_to_saved ps }
      else if c = CHR ''n'' then do { ps \<leftarrow> append_fast lib [CHR 0x0A] ps; leave Brk back_to_saved ps }
      else if c = CHR ''r'' then do { ps \<leftarrow> append_fast lib [CHR 0x0D] ps; leave Brk back_to_saved ps }
      else if c = CHR ''t'' then do { ps \<leftarrow> append_fast lib [CHR 0x09] ps; leave Brk back_to_saved ps }
      else if c = CHR ''f'' then do { ps \<leftarrow> append_fast lib [CHR 0x0C] ps; leave Brk back_to_saved ps }
      else if c = CHR ''u'' then
        leave Brk (\<lambda>t. (goto_state st_escape_unicode t)\<lparr>ucs_char := 0, st_pos := 0\<rparr>) ps
      else fail json_tokener_error_parse_string ps)"

section \<open>Unicode escapes\<close>

definition jt_hexdigit :: "char \<Rightarrow> int" where
  "jt_hexdigit x =
     (if code_of x \<le> code_of CHR ''9'' then int (code_of x) - int (code_of CHR ''0'')
      else int (code_of x mod 8) + 9)"

definition IS_HIGH_SURROGATE :: "32 word \<Rightarrow> bool" where
  "IS_HIGH_SURROGATE uc \<longleftrightarrow> uc AND 0xFC00 = 0xD800"

definition IS_LOW_SURROGATE :: "32 word \<Rightarrow> bool" where
  "IS_LOW_SURROGATE uc \<longleftrightarrow> uc AND 0xFC00 = 0xDC00"

definition DECODE_SURROGATE_PAIR :: "32 word \<Rightarrow> 32 word \<Rightarrow> 32 word" where
  "DECODE_SURROGATE_PAIR hi lo = push_bit 10 (hi AND 0x3FF) + (lo AND 0x3FF) + 0x10000"

definition utf8_replacement_char :: string where
  "utf8_replacement_char = [CHR 0xEF, CHR 0xBF, CHR 0xBD]"

text \<open>The conversion to \<open>unsigned char\<close>.\<close>

definition uchar :: "32 word \<Rightarrow> char" where
  "uchar w = char_of (unat w mod 256)"

text \<open>The bytes appended for a character that is not a surrogate.\<close>

definition unescaped_utf :: "32 word \<Rightarrow> string" where
  "unescaped_utf u =
     (if u < 0x80 then [uchar u]
      else if u < 0x800 then [uchar (0xc0 OR drop_bit 6 u), uchar (0x80 OR (u AND 0x3f))]
      else if u < 0x10000 then
        [uchar (0xe0 OR drop_bit 12 u), uchar (0x80 OR (drop_bit 6 u AND 0x3f)),
         uchar (0x80 OR (u AND 0x3f))]
      else if u < 0x110000 then
        [uchar (0xf0 OR (drop_bit 18 u AND 0x07)), uchar (0x80 OR (drop_bit 12 u AND 0x3f)),
         uchar (0x80 OR (drop_bit 6 u AND 0x3f)), uchar (0x80 OR (u AND 0x3f))]
      else utf8_replacement_char)"

text \<open>\<open>str[n]\<close>\<close>

definition str_at :: "pst \<Rightarrow> nat \<Rightarrow> char option" where
  "str_at ps n = (if n < length (ps_str ps) then Some (ps_str ps ! n) else None)"

datatype uflow = UContinue "32 word" | UBreak | UOut

text \<open>
  What follows a high surrogate: when the input goes on with a backslash and a \<open>u\<close>, three
  characters are skipped and the next four digits are read with the surrogate remembered.
\<close>

definition high_surrogate :: "libc \<Rightarrow> int \<Rightarrow> pst \<Rightarrow> (uflow \<times> pst) option" where
  "high_surrogate lib len ps =
     do {
       let got_hi_surrogate = ucs_char (ps_tok ps);
       let off = char_offset (ps_tok ps);
       follows \<leftarrow>
         (if off + 1 \<noteq> len \<and> off + 2 \<noteq> len then do {
            c1 \<leftarrow> str_at ps 1;
            if c1 = CHR 0x5C then do { c2 \<leftarrow> str_at ps 2; Some (c2 = CHR ''u'') } else Some False }
          else Some False);
       if follows then do {
         (ok, ps) \<leftarrow> ADVANCE_CHAR ps;
         (ok, ps) \<leftarrow> (if ok then ADVANCE_CHAR ps else Some (False, ps));
         ps \<leftarrow> (if \<not> ok then append_fast lib utf8_replacement_char ps else Some ps);
         (ok, ps) \<leftarrow> next_char len ps;
         if \<not> ok then do {
           ps \<leftarrow> append_fast lib utf8_replacement_char ps;
           Some (UOut, ps) }
         else Some (UContinue got_hi_surrogate, upd_tok (\<lambda>t. t\<lparr>ucs_char := 0, st_pos := 0\<rparr>) ps) }
       else do {
         ps \<leftarrow> append_fast lib utf8_replacement_char ps;
         Some (UBreak, upd_tok back_to_saved ps) } }"

text \<open>The four digits are complete: \<open>tok->st_pos == 4\<close>.\<close>

definition unicode_char :: "libc \<Rightarrow> int \<Rightarrow> 32 word \<Rightarrow> pst \<Rightarrow> (uflow \<times> pst) option" where
  "unicode_char lib len got_hi_surrogate ps =
     do {
       ps \<leftarrow>
         (if got_hi_surrogate \<noteq> 0 then
            if IS_LOW_SURROGATE (ucs_char (ps_tok ps)) then
              Some (upd_tok (\<lambda>t. t\<lparr>ucs_char := DECODE_SURROGATE_PAIR got_hi_surrogate (ucs_char t)\<rparr>) ps)
            else append_fast lib utf8_replacement_char ps
          else Some ps);
       let u = ucs_char (ps_tok ps);
       if u < 0x800 then do {
         ps \<leftarrow> append_fast lib (unescaped_utf u) ps;
         Some (UBreak, upd_tok back_to_saved ps) }
       else if IS_HIGH_SURROGATE u then high_surrogate lib len ps
       else do {
         ps \<leftarrow> append_fast lib (if IS_LOW_SURROGATE u then utf8_replacement_char else unescaped_utf u) ps;
         Some (UBreak, upd_tok back_to_saved ps) } }"

definition add_hexdigit :: "json_tokener \<Rightarrow> char \<Rightarrow> json_tokener option" where
  "add_hexdigit t c =
     (if 0 \<le> st_pos t \<and> st_pos t \<le> 3
      then Some (t\<lparr>ucs_char := ucs_char t + push_bit (nat ((3 - st_pos t) * 4)) (word_of_int (jt_hexdigit c)),
                   st_pos := st_pos t + 1\<rparr>)
      else None)"

lemma append_fast_str: "append_fast lib bs ps = Some ps' \<Longrightarrow> ps_str ps' = ps_str ps"
  by (auto simp: append_fast_def bind_eq_Some_iff)

lemma next_char_shorter: "next_char len ps = Some (r, ps') \<Longrightarrow> length (ps_str ps') < length (ps_str ps)"
  using next_char_str [of len ps r ps'] by (metis length_Cons lessI)

lemma ADVANCE_CHAR_shorter: "ADVANCE_CHAR ps = Some (r, ps') \<Longrightarrow> length (ps_str ps') < length (ps_str ps)"
  using ADVANCE_CHAR_str [of ps r ps'] by (metis length_Cons lessI)

lemma high_surrogate_shorter:
  "high_surrogate lib len ps = Some (UContinue h, ps') \<Longrightarrow> length (ps_str ps') < length (ps_str ps)"
  by (auto simp: high_surrogate_def Let_def bind_eq_Some_iff split: if_splits
      dest!: append_fast_str next_char_shorter ADVANCE_CHAR_shorter)

lemma unicode_char_shorter:
  "unicode_char lib len hi ps = Some (UContinue h, ps') \<Longrightarrow> length (ps_str ps') < length (ps_str ps)"
  by (auto simp: unicode_char_def Let_def bind_eq_Some_iff split: if_splits
      dest!: append_fast_str high_surrogate_shorter)

function unicode_loop :: "libc \<Rightarrow> int \<Rightarrow> 32 word \<Rightarrow> pst \<Rightarrow> (flow \<times> pst) option" where
  "unicode_loop lib len got_hi_surrogate ps =
     (if \<not> strchr json_hex_chars (ps_c ps) then fail json_tokener_error_parse_string ps
      else case add_hexdigit (ps_tok ps) (ps_c ps) of
        None \<Rightarrow> None
      | Some t \<Rightarrow>
          if st_pos t = 4 then
            case unicode_char lib len got_hi_surrogate (ps\<lparr>ps_tok := t\<rparr>) of
              None \<Rightarrow> None
            | Some (UBreak, ps') \<Rightarrow> Some (Brk, ps')
            | Some (UOut, ps') \<Rightarrow> Some (Out, ps')
            | Some (UContinue hi, ps') \<Rightarrow> unicode_loop lib len hi ps'
          else
            case next_char len (ps\<lparr>ps_tok := t\<rparr>) of
              None \<Rightarrow> None
            | Some (ok, ps') \<Rightarrow>
                if ok then unicode_loop lib len got_hi_surrogate ps'
                else if got_hi_surrogate \<noteq> 0
                then map_option (Pair Out) (append_fast lib utf8_replacement_char ps')
                else Some (Out, ps'))"
  by auto
termination
  by (relation "measure (\<lambda>(lib, len, hi, ps). length (ps_str ps))")
    (auto dest!: unicode_char_shorter next_char_shorter)

declare unicode_loop.simps [simp del]

definition step_escape_unicode :: step where
  "step_escape_unicode lib len ps = unicode_loop lib len 0 ps"

section \<open>Numbers, arrays, objects\<close>

definition number_eff :: "char \<Rightarrow> json_tokener \<Rightarrow> json_tokener" where
  "number_eff c t =
     (if c = CHR ''.'' \<or> c = CHR ''e'' \<or> c = CHR ''E'' then t\<lparr>is_double := True\<rparr> else t)"

definition number_value :: step where
  "number_value lib len ps =
     do { s \<leftarrow> read_cstr (buf (tk_pb (ps_tok ps)));
          if \<not> is_double (ps_tok ps) then
            case parse_int64_with (sscanf_d lib) (sscanf_bad lib) s of
              Some num64 \<Rightarrow>
                if num64 \<noteq> 0 \<and> c_hd s = CHR ''0'' \<and> strict (ps_tok ps)
                then fail json_tokener_error_parse_number ps
                else finish_with lib (json_object_new_int64 num64) ps
            | None \<Rightarrow> fail json_tokener_error_parse_number ps
          else
            case sscanf_lf lib s of
              Some numd \<Rightarrow> finish_with lib (json_object_new_double_s numd s) ps
            | None \<Rightarrow> fail json_tokener_error_parse_number ps }"

definition step_number :: step where
  "step_number lib len ps =
     do { let case_start = ps_str ps;
          (ok, ps) \<leftarrow> scan number_eff (\<lambda>c. \<not> (c \<noteq> NUL \<and> strchr json_number_chars c)) len ps;
          let case_len = length (passed case_start ps);
          if \<not> ok then do { ps \<leftarrow> append_fast lib (passed case_start ps) ps; Some (Out, ps) }
          else do {
            ps \<leftarrow> (if case_len > 0 then append_fast lib (passed case_start ps) ps else Some ps);
            s \<leftarrow> read_cstr (buf (tk_pb (ps_tok ps)));
            if c_hd s = CHR ''-'' \<and> case_len = 1 \<and> (ps_c ps = CHR ''i'' \<or> ps_c ps = CHR ''I'')
            then leave Redo (goto_state st_inf) ps
            else number_value lib len ps } }"

text \<open>One level down, to a value that starts after white space.\<close>

definition descend :: "json_tokener_state \<Rightarrow> pst \<Rightarrow> (flow \<times> pst) option" where
  "descend s ps =
     (let t = ps_tok ps in
      if tk_depth t \<ge> max_depth t - 1 then fail json_tokener_error_depth ps
      else do {
        t \<leftarrow> json_tokener_reset_level ((goto_state s t)\<lparr>tk_depth := tk_depth t + 1\<rparr>) (tk_depth t + 1);
        Some (Redo, ps\<lparr>ps_tok := t\<rparr>) })"

definition step_array :: step where
  "step_array lib len ps =
     (if ps_c ps = CHR '']'' then
        if sr_state (top (ps_tok ps)) = st_array_after_sep \<and> strict (ps_tok ps)
        then fail json_tokener_error_parse_unexpected ps
        else leave Brk (eatws_then st_finish) ps
      else descend st_array_add ps)"

text \<open>Without room for the element \<open>json_object_array_add\<close> fails, which is not looked at.\<close>

definition step_array_add :: step where
  "step_array_add lib len ps =
     (case sr_current (top (ps_tok ps)) of
        JArray vs \<Rightarrow> leave Redo (eatws_then st_array_sep \<circ> set_current (JArray
          (if mem_at lib Mem_element (char_offset (ps_tok ps)) then vs @ [ps_obj ps] else vs))) ps
      | _ \<Rightarrow> None)"

definition step_array_sep :: step where
  "step_array_sep lib len ps =
     (if ps_c ps = CHR '']'' then leave Brk (eatws_then st_finish) ps
      else if ps_c ps = CHR '','' then leave Brk (eatws_then st_array_after_sep) ps
      else fail json_tokener_error_parse_array ps)"

definition step_object_field_start :: step where
  "step_object_field_start lib len ps =
     (let c = ps_c ps in
      if c = CHR ''}'' then
        if sr_state (top (ps_tok ps)) = st_object_field_start_after_sep \<and> strict (ps_tok ps)
        then fail json_tokener_error_parse_unexpected ps
        else leave Brk (eatws_then st_finish) ps
      else if c = CHR 0x22 \<or> c = CHR 0x27 then do {
        ps \<leftarrow> pb_reset (upd_tok (\<lambda>t. t\<lparr>quote_char := c\<rparr>) ps);
        leave Brk (goto_state st_object_field) ps }
      else fail json_tokener_error_parse_object_key_name ps)"

definition step_object_field :: step where
  "step_object_field lib len ps =
     do { let case_start = ps_str ps;
          (ok, ps) \<leftarrow> scan (\<lambda>_ t. t) (quote_or_backslash ps) len ps;
          ps \<leftarrow> append_fast lib (passed case_start ps) ps;
          if \<not> ok then Some (Out, ps)
          else if ps_c ps = quote_char (ps_tok ps) then do {
            s \<leftarrow> read_cstr (buf (tk_pb (ps_tok ps)));
            let name = (if mem_at lib Mem_name (char_offset (ps_tok ps)) then Some s else None);
            leave Brk (eatws_then st_object_field_end \<circ> set_top (\<lambda>r. r\<lparr>sr_field_name := name\<rparr>)) ps }
          else leave Brk (set_top (\<lambda>r. r\<lparr>sr_saved := st_object_field, sr_state := st_string_escape\<rparr>)) ps }"

definition step_object_field_end :: step where
  "step_object_field_end lib len ps =
     (if ps_c ps = CHR '':'' then leave Brk (eatws_then st_object_value) ps
      else fail json_tokener_error_parse_object_key_sep ps)"

definition step_object_value :: step where
  "step_object_value lib len ps = descend st_object_value_add ps"

text \<open>A null name, or the null copy of a new one, is hashed by the table.\<close>

definition step_object_value_add :: step where
  "step_object_value_add lib len ps =
     (case (sr_current (top (ps_tok ps)), sr_field_name (top (ps_tok ps))) of
        (JObject kvs, Some key) \<Rightarrow>
          if map_of kvs key = None \<and> \<not> mem_at lib Mem_key (char_offset (ps_tok ps)) then None
          else leave Redo (eatws_then st_object_sep
            \<circ> set_top (\<lambda>r. r\<lparr>sr_current := JObject (field_put kvs key (ps_obj ps)), sr_field_name := None\<rparr>)) ps
      | _ \<Rightarrow> None)"

definition step_object_sep :: step where
  "step_object_sep lib len ps =
     (if ps_c ps = CHR ''}'' then leave Brk (eatws_then st_finish) ps
      else if ps_c ps = CHR '','' then leave Brk (eatws_then st_object_field_start_after_sep) ps
      else fail json_tokener_error_parse_object_value_sep ps)"

section \<open>The main loop\<close>

fun step_of :: "json_tokener_state \<Rightarrow> step" where
  "step_of st_eatws = step_eatws"
| "step_of st_start = step_start"
| "step_of st_finish = step_finish"
| "step_of st_inf = step_inf"
| "step_of st_null = step_null"
| "step_of st_comment_start = step_comment_start"
| "step_of st_comment = step_comment"
| "step_of st_comment_eol = step_comment_eol"
| "step_of st_comment_end = step_comment_end"
| "step_of st_string = step_string"
| "step_of st_string_escape = step_string_escape"
| "step_of st_escape_unicode = step_escape_unicode"
| "step_of st_boolean = step_boolean"
| "step_of st_number = step_number"
| "step_of st_array_after_sep = step_array"
| "step_of st_array = step_array"
| "step_of st_array_add = step_array_add"
| "step_of st_array_sep = step_array_sep"
| "step_of st_object_field_start = step_object_field_start"
| "step_of st_object_field_start_after_sep = step_object_field_start"
| "step_of st_object_field = step_object_field"
| "step_of st_object_field_end = step_object_field_end"
| "step_of st_object_value = step_object_value"
| "step_of st_object_value_add = step_object_value_add"
| "step_of st_object_sep = step_object_sep"

text \<open>\<open>switch (state)\<close>\<close>

definition tok_step :: step where
  "tok_step lib len ps =
     (if level_ok (ps_tok ps) (tk_depth (ps_tok ps))
      then step_of (sr_state (top (ps_tok ps))) lib len ps else None)"

text \<open>
  One turn of \<open>while (PEEK_CHAR (c, tok))\<close>; after \<open>goto redo_char\<close> the character is not read
  again. \<open>True\<close> says that the next turn starts at \<open>redo_char\<close>; \<open>None\<close> inside: \<open>out\<close> was reached.
\<close>

definition parse_turn :: "libc \<Rightarrow> int \<Rightarrow> bool \<Rightarrow> pst \<Rightarrow> (bool option \<times> pst) option" where
  "parse_turn lib len redo ps =
     do { (ok, ps) \<leftarrow> (if redo then Some (True, ps) else PEEK_CHAR len ps);
          if \<not> ok then Some (None, ps)
          else do {
            (fl, ps) \<leftarrow> tok_step lib len ps;
            case fl of
              Out \<Rightarrow> Some (None, ps)
            | Redo \<Rightarrow> Some (Some True, ps)
            | Brk \<Rightarrow> do { (ok, ps) \<leftarrow> ADVANCE_CHAR ps; Some (if ok then Some False else None, ps) } } }"

partial_function (option) parse_loop :: "libc \<Rightarrow> int \<Rightarrow> bool \<Rightarrow> pst \<Rightarrow> pst option" where
  "parse_loop lib len redo ps =
     (case parse_turn lib len redo ps of
        None \<Rightarrow> None
      | Some (None, ps') \<Rightarrow> Some ps'
      | Some (Some redo', ps') \<Rightarrow> parse_loop lib len redo' ps')"

text \<open>After the label \<open>out\<close>.\<close>

definition parse_out :: "pst \<Rightarrow> (jval \<times> json_tokener) option" where
  "parse_out ps =
     (let t = ps_tok ps; c = ps_c ps in
      if \<not> level_ok t (tk_depth t) then None
      else do {
        let t = (if c \<noteq> NUL \<and> sr_state (top t) = st_finish \<and> tk_depth t = 0 \<and> strict t
                 then t\<lparr>tk_err := json_tokener_error_parse_unexpected\<rparr> else t);
        let t = (if c = NUL \<and> sr_state (top t) \<noteq> st_finish \<and> sr_saved (top t) \<noteq> st_finish
                 then t\<lparr>tk_err := json_tokener_error_parse_eof\<rparr> else t);
        if tk_err t = json_tokener_success then do {
          let ret = sr_current (top t);
          t \<leftarrow> reset_levels t (nat (tk_depth t + 1));
          Some (ret, t) }
        else Some (JNull, t) })"

text \<open>
  \<open>json_tokener_parse_ex\<close> on the memory \<open>s\<close>. With \<open>len\<close> \<open>-1\<close> the length is that of the string
  up to its NUL.
\<close>

definition json_tokener_parse_ex ::
  "libc \<Rightarrow> json_tokener \<Rightarrow> string \<Rightarrow> int \<Rightarrow> (jval \<times> json_tokener) option" where
  "json_tokener_parse_ex lib t s len =
     do {
       let t = t\<lparr>char_offset := 0, tk_err := json_tokener_success\<rparr>;
       size_bad \<leftarrow> (if len = -1
         then if NUL \<in> set s then Some (int (length (cstr s)) > INT32_MAX) else None
         else Some (len < -1));
       if size_bad then Some (JNull, t\<lparr>tk_err := json_tokener_error_size\<rparr>)
       else do {
         ps \<leftarrow> parse_loop lib len False \<lparr>ps_tok = t, ps_str = s, ps_c = CHR 0x01, ps_obj = JNull\<rparr>;
         parse_out ps } }"

text \<open>\<open>json_tokener_free\<close> resets the levels; what it frees is the ownership model's business.\<close>

definition json_tokener_parse_verbose ::
  "libc \<Rightarrow> string \<Rightarrow> (jval \<times> json_tokener_error option) option" where
  "json_tokener_parse_verbose lib s =
     do {
       t \<leftarrow> json_tokener_new (mem_at lib Mem_tokener 0) (realloc_ok lib);
       case t of
         None \<Rightarrow> Some (JNull, None)
       | Some t \<Rightarrow> do {
           (obj, t) \<leftarrow> json_tokener_parse_ex lib t s (-1);
           let error = tk_err t;
           let obj = (if tk_err t \<noteq> json_tokener_success then JNull else obj);
           t \<leftarrow> json_tokener_reset t;
           Some (obj, Some error) } }"

definition json_tokener_parse :: "libc \<Rightarrow> string \<Rightarrow> jval option" where
  "json_tokener_parse lib s = map_option fst (json_tokener_parse_verbose lib s)"

end
