(* ===== verification/Tokener_Steps.thy ===== *)
theory Tokener_Steps
  imports Json_Tokener
begin

text \<open>
  Every state of the parser on any input (\<open>json_tokener.c\<close>). A well-formed tokener \<open>tok_ok\<close> has, at
  each level, the object its state needs and a terminated buffer where the state reads it. From
  such a tokener, with a character left, every state of the switch is defined, reads nothing
  outside the input, and leaves a well-formed tokener with a smaller \<open>potential\<close>: the characters
  left, the depth and a rank of the state. The room of the buffer is paid from the potential.
\<close>

section \<open>Well-formed tokeners\<close>

fun is_array :: "jval \<Rightarrow> bool" where
  "is_array (JArray vs) = True"
| "is_array v = False"

fun is_object :: "jval \<Rightarrow> bool" where
  "is_object (JObject kvs) = True"
| "is_object v = False"

text \<open>What a state needs of its level.\<close>

fun needs :: "json_tokener_state \<Rightarrow> srec \<Rightarrow> bool" where
  "needs st_array r = is_array (sr_current r)"
| "needs st_array_after_sep r = is_array (sr_current r)"
| "needs st_array_sep r = is_array (sr_current r)"
| "needs st_array_add r = is_array (sr_current r)"
| "needs st_object_field_start r = is_object (sr_current r)"
| "needs st_object_field_start_after_sep r = is_object (sr_current r)"
| "needs st_object_sep r = is_object (sr_current r)"
| "needs st_object_field r = is_object (sr_current r)"
| "needs st_object_field_end r = (is_object (sr_current r) \<and> sr_field_name r \<noteq> None)"
| "needs st_object_value r = (is_object (sr_current r) \<and> sr_field_name r \<noteq> None)"
| "needs st_object_value_add r = (is_object (sr_current r) \<and> sr_field_name r \<noteq> None)"
| "needs s r = True"

text \<open>States that white space and comments can lead to, and that an escape can return to.\<close>

definition resting :: "json_tokener_state \<Rightarrow> bool" where
  "resting s \<longleftrightarrow> s \<in> {st_start, st_finish, st_array, st_array_after_sep, st_array_sep, st_object_field_start,
     st_object_field_start_after_sep, st_object_field_end, st_object_value, st_object_sep}"

definition blank_state :: "json_tokener_state \<Rightarrow> bool" where
  "blank_state s \<longleftrightarrow> s \<in> {st_eatws, st_comment_start, st_comment, st_comment_eol, st_comment_end}"

definition escape_state :: "json_tokener_state \<Rightarrow> bool" where
  "escape_state s \<longleftrightarrow> s \<in> {st_string_escape, st_escape_unicode}"

definition top_ok :: "srec \<Rightarrow> bool" where
  "top_ok r \<longleftrightarrow>
     (if blank_state (sr_state r) then resting (sr_saved r) \<and> needs (sr_saved r) r
      else if escape_state (sr_state r)
      then sr_saved r \<in> {st_string, st_object_field} \<and> needs (sr_saved r) r
      else needs (sr_state r) r)"

text \<open>A level below the top waits for a value, or was reset.\<close>

definition below_ok :: "srec \<Rightarrow> bool" where
  "below_ok r \<longleftrightarrow> sr_state r \<in> {st_array_add, st_object_value_add} \<and> needs (sr_state r) r
     \<or> sr_state r = st_eatws \<and> sr_saved r = st_start"

text \<open>In these states the buffer is read as a C string.\<close>

definition texty :: "json_tokener_state \<Rightarrow> bool" where
  "texty s \<longleftrightarrow> s \<in> {st_inf, st_null, st_boolean, st_number, st_string, st_object_field,
     st_string_escape, st_escape_unicode}"

definition core_ok :: "json_tokener \<Rightarrow> bool" where
  "core_ok t \<longleftrightarrow> 0 \<le> tk_depth t \<and> tk_depth t < int (length (tk_stack t))
     \<and> max_depth t = int (length (tk_stack t)) \<and> max_depth t < 2 ^ 20
     \<and> (\<forall>i < nat (tk_depth t). below_ok (tk_stack t ! i))"

definition tok_ok :: "json_tokener \<Rightarrow> bool" where
  "tok_ok t \<longleftrightarrow> core_ok t \<and> top_ok (top t)
     \<and> (texty (sr_state (top t)) \<longrightarrow> pb_terminated (tk_pb t))"

definition digits_ok :: "json_tokener \<Rightarrow> bool" where
  "digits_ok t \<longleftrightarrow> (sr_state (top t) = st_escape_unicode \<longrightarrow> 0 \<le> st_pos t \<and> st_pos t \<le> 3)"

section \<open>The potential\<close>

fun base_rank :: "json_tokener_state \<Rightarrow> nat" where
  "base_rank st_start = 8"
| "base_rank st_finish = 3"
| "base_rank st_null = 5"
| "base_rank st_inf = 5"
| "base_rank st_boolean = 5"
| "base_rank st_number = 7"
| "base_rank st_array = 24"
| "base_rank st_array_after_sep = 24"
| "base_rank st_object_value = 24"
| "base_rank st_array_add = 2"
| "base_rank st_object_value_add = 2"
| "base_rank s = 0"

definition rank :: "srec \<Rightarrow> nat" where
  "rank r = (if sr_state r = st_eatws then base_rank (sr_saved r) + 1 else base_rank (sr_state r))"

definition potential :: "int \<Rightarrow> pst \<Rightarrow> nat" where
  "potential len ps =
     64 * nat (len - char_offset (ps_tok ps)) + 12 * nat (tk_depth (ps_tok ps)) + rank (top (ps_tok ps))"

text \<open>\<open>k\<close> bytes of memory are left from the current position on, at least as many as the length says.\<close>

definition pos_ok :: "int \<Rightarrow> pst \<Rightarrow> bool" where
  "pos_ok len ps \<longleftrightarrow> 0 \<le> char_offset (ps_tok ps) \<and> char_offset (ps_tok ps) \<le> len
     \<and> len < 2 ^ 20 \<and> len \<le> char_offset (ps_tok ps) + int (length (ps_str ps))"

definition at_char :: "int \<Rightarrow> pst \<Rightarrow> bool" where
  "at_char len ps \<longleftrightarrow> char_offset (ps_tok ps) < len"

definition budget :: "nat \<Rightarrow> pst \<Rightarrow> bool" where
  "budget n ps \<longleftrightarrow> pb_room n (tk_pb (ps_tok ps))"

lemma base_rank_le: "base_rank s \<le> 24"
  by (cases s) simp_all

lemma rank_le: "rank r \<le> 25"
  using base_rank_le [of "sr_saved r"] base_rank_le [of "sr_state r"] by (simp add: rank_def)

lemma budget_mono: "budget n ps \<Longrightarrow> m \<le> n \<Longrightarrow> budget m ps"
  unfolding budget_def by (rule pb_room_mono)

section \<open>Changing the top level\<close>

lemma core_level: "core_ok t \<Longrightarrow> level_ok t (tk_depth t)"
  by (simp add: core_ok_def level_ok_def)

lemma set_top_sel [simp]:
  "tk_pb (set_top f t) = tk_pb t" "tk_depth (set_top f t) = tk_depth t" "max_depth (set_top f t) = max_depth t"
  "char_offset (set_top f t) = char_offset t" "st_pos (set_top f t) = st_pos t" "tk_err (set_top f t) = tk_err t"
  "length (tk_stack (set_top f t)) = length (tk_stack t)" "quote_char (set_top f t) = quote_char t"
  "is_double (set_top f t) = is_double t" "ucs_char (set_top f t) = ucs_char t" "tk_flags (set_top f t) = tk_flags t"
  by (simp_all add: set_top_def)

lemma top_set_top [simp]: "core_ok t \<Longrightarrow> top (set_top f t) = f (top t)"
  by (auto simp: core_ok_def top_def set_top_def)

lemma core_set_top [simp]: "core_ok t \<Longrightarrow> core_ok (set_top f t)"
  by (auto simp: core_ok_def set_top_def)

lemma top_ignores [simp]:
  "top (t\<lparr>st_pos := n\<rparr>) = top t" "top (t\<lparr>char_offset := n\<rparr>) = top t" "top (t\<lparr>tk_err := e\<rparr>) = top t"
  "top (t\<lparr>is_double := b\<rparr>) = top t" "top (t\<lparr>quote_char := q\<rparr>) = top t" "top (t\<lparr>ucs_char := w\<rparr>) = top t"
  "top (t\<lparr>tk_pb := p\<rparr>) = top t"
  by (simp_all add: top_def)

lemma core_ignores [simp]:
  "core_ok (t\<lparr>st_pos := n\<rparr>) = core_ok t" "core_ok (t\<lparr>char_offset := n\<rparr>) = core_ok t"
  "core_ok (t\<lparr>tk_err := e\<rparr>) = core_ok t" "core_ok (t\<lparr>is_double := b\<rparr>) = core_ok t"
  "core_ok (t\<lparr>quote_char := q\<rparr>) = core_ok t" "core_ok (t\<lparr>ucs_char := w\<rparr>) = core_ok t"
  "core_ok (t\<lparr>tk_pb := p\<rparr>) = core_ok t"
  by (simp_all add: core_ok_def)

section \<open>Moving on and appending\<close>

text \<open>Where the position is after \<open>k\<close> characters; \<open>e\<close> and \<open>b\<close> are what the scan may set.\<close>

definition moved :: "nat \<Rightarrow> pst \<Rightarrow> pst \<Rightarrow> bool" where
  "moved k ps ps' \<longleftrightarrow> (\<exists>e b c. ps' = ps\<lparr>ps_str := drop k (ps_str ps), ps_c := c,
     ps_tok := (ps_tok ps)\<lparr>char_offset := char_offset (ps_tok ps) + int k, tk_err := e, is_double := b\<rparr>\<rparr>)"

lemma moved_trans: "moved k ps ps' \<Longrightarrow> moved j ps' ps'' \<Longrightarrow> moved (k + j) ps ps''"
  unfolding moved_def by (elim exE) (auto simp: ac_simps intro!: exI)

lemma moved_0: "moved 0 ps ps"
  unfolding moved_def by (intro exI [of _ "tk_err (ps_tok ps)"] exI [of _ "is_double (ps_tok ps)"] exI [of _ "ps_c ps"]) simp

lemma advance_ok:
  assumes "pos_ok len ps" "at_char len ps"
  obtains ps' where "ADVANCE_CHAR ps = Some (ps_c ps \<noteq> NUL, ps')" "moved 1 ps ps'" "pos_ok len ps'" "ps_c ps' = ps_c ps"
proof -
  obtain c s where s: "ps_str ps = c # s"
    using assms by (cases "ps_str ps") (auto simp: pos_ok_def at_char_def)
  let ?ps = "ps\<lparr>ps_str := s, ps_tok := (ps_tok ps)\<lparr>char_offset := char_offset (ps_tok ps) + 1\<rparr>\<rparr>"
  have "i32 (char_offset (ps_tok ps) + 1) = Some (char_offset (ps_tok ps) + 1)"
    by (rule i32_ok) (use assms in \<open>auto simp: pos_ok_def at_char_def\<close>)
  then have "ADVANCE_CHAR ps = Some (ps_c ps \<noteq> NUL, ?ps)"
    using s by (simp add: ADVANCE_CHAR_def del: i32_eq_Some)
  moreover have "moved 1 ps ?ps"
    unfolding moved_def
    by (intro exI [of _ "tk_err (ps_tok ps)"] exI [of _ "is_double (ps_tok ps)"] exI [of _ "ps_c ps"]) (simp add: s)
  moreover have "pos_ok len ?ps" using assms s by (auto simp: pos_ok_def at_char_def)
  ultimately show thesis using that by simp
qed

lemma peek_ok:
  assumes "pos_ok len ps" "core_ok (ps_tok ps)"
  obtains ps' where "PEEK_CHAR len ps = Some (at_char len ps, ps')" "moved 0 ps ps'" "pos_ok len ps'"
    "at_char len ps' = at_char len ps"
proof (cases "at_char len ps")
  case True
  then obtain c s where s: "ps_str ps = c # s"
    using assms by (cases "ps_str ps") (auto simp: pos_ok_def at_char_def)
  have "moved 0 ps (ps\<lparr>ps_c := c\<rparr>)"
    unfolding moved_def
    by (intro exI [of _ "tk_err (ps_tok ps)"] exI [of _ "is_double (ps_tok ps)"] exI [of _ c]) simp
  then show thesis
    using that [of "ps\<lparr>ps_c := c\<rparr>"] True assms(1) s
    by (auto simp: PEEK_CHAR_def at_char_def pos_ok_def)
next
  case False
  then have eq: "char_offset (ps_tok ps) = len" using assms(1) by (auto simp: pos_ok_def at_char_def)
  let ?e = "if tk_depth (ps_tok ps) = 0 \<and> sr_state (top (ps_tok ps)) = st_eatws \<and> sr_saved (top (ps_tok ps)) = st_finish
             then json_tokener_success else json_tokener_continue"
  let ?ps = "ps\<lparr>ps_tok := (ps_tok ps)\<lparr>tk_err := ?e\<rparr>\<rparr>"
  have "moved 0 ps ?ps"
    unfolding moved_def
    by (intro exI [of _ ?e] exI [of _ "is_double (ps_tok ps)"] exI [of _ "ps_c ps"]) simp
  then show thesis
    using that [of ?ps] False eq core_level [OF assms(2)] assms(1)
    by (simp add: PEEK_CHAR_def pos_ok_def at_char_def)
qed


lemma movedD:
  assumes "moved k ps ps'"
  shows "tk_pb (ps_tok ps') = tk_pb (ps_tok ps)" "tk_depth (ps_tok ps') = tk_depth (ps_tok ps)"
    "tk_stack (ps_tok ps') = tk_stack (ps_tok ps)" "max_depth (ps_tok ps') = max_depth (ps_tok ps)"
    "top (ps_tok ps') = top (ps_tok ps)" "core_ok (ps_tok ps') = core_ok (ps_tok ps)"
    "char_offset (ps_tok ps') = char_offset (ps_tok ps) + int k" "ps_str ps' = drop k (ps_str ps)"
    "st_pos (ps_tok ps') = st_pos (ps_tok ps)" "quote_char (ps_tok ps') = quote_char (ps_tok ps)"
    "tk_flags (ps_tok ps') = tk_flags (ps_tok ps)" "ucs_char (ps_tok ps') = ucs_char (ps_tok ps)"
    "ps_obj ps' = ps_obj ps" "tok_ok (ps_tok ps') = tok_ok (ps_tok ps)" "digits_ok (ps_tok ps') = digits_ok (ps_tok ps)"
    "budget n ps' = budget n ps"
  using assms by (auto simp: moved_def top_def core_ok_def tok_ok_def digits_ok_def budget_def)

lemma next_char_ok:
  assumes "pos_ok len ps" "at_char len ps" "core_ok (ps_tok ps)"
  obtains ok ps' where "next_char len ps = Some (ok, ps')" "moved 1 ps ps'" "pos_ok len ps'"
    "ok \<longrightarrow> at_char len ps'"
proof -
  obtain ps1 where a: "ADVANCE_CHAR ps = Some (ps_c ps \<noteq> NUL, ps1)" "moved 1 ps ps1" "pos_ok len ps1"
    using assms(1,2) by (rule advance_ok)
  show thesis
  proof (cases "ps_c ps = NUL")
    case True
    then show ?thesis using that [of False ps1] a by (simp add: next_char_def)
  next
    case False
    have "core_ok (ps_tok ps1)" using movedD(6) [OF a(2)] assms(3) by simp
    then obtain ps2 where p: "PEEK_CHAR len ps1 = Some (at_char len ps1, ps2)" "moved 0 ps1 ps2" "pos_ok len ps2"
        "at_char len ps2 = at_char len ps1"
      by (rule peek_ok [OF a(3)])
    then show ?thesis
      using that [of "at_char len ps1" ps2] a False moved_trans [OF a(2) p(2)] by (simp add: next_char_def)
  qed
qed

text \<open>An effect of a scan that the rest does not depend on.\<close>

definition mild :: "(char \<Rightarrow> json_tokener \<Rightarrow> json_tokener) \<Rightarrow> bool" where
  "mild eff \<longleftrightarrow> (\<forall>c t. \<exists>b. eff c t = t\<lparr>is_double := b\<rparr>)"

lemma mild_simps [simp]: "mild (\<lambda>c t. t)" "mild number_eff"
proof -
  have "t = t\<lparr>is_double := is_double t\<rparr>" for t :: json_tokener by simp
  then show "mild (\<lambda>c t. t)" "mild number_eff" unfolding mild_def number_eff_def by metis+
qed

lemma moved_eff:
  assumes "mild eff" "moved k (upd_tok (eff c) ps) ps'"
  shows "moved k ps ps'"
proof -
  obtain b where "eff c (ps_tok ps) = (ps_tok ps)\<lparr>is_double := b\<rparr>" using assms(1) by (auto simp: mild_def)
  then show ?thesis using assms(2) unfolding moved_def by auto
qed

lemma eff_ok:
  assumes "mild eff"
  shows "pos_ok len (upd_tok (eff c) ps) = pos_ok len ps" "at_char len (upd_tok (eff c) ps) = at_char len ps"
    "core_ok (eff c (ps_tok ps)) = core_ok (ps_tok ps)"
proof -
  obtain b where "eff c (ps_tok ps) = (ps_tok ps)\<lparr>is_double := b\<rparr>" using assms(1) by (auto simp: mild_def)
  then show "pos_ok len (upd_tok (eff c) ps) = pos_ok len ps" "at_char len (upd_tok (eff c) ps) = at_char len ps"
    "core_ok (eff c (ps_tok ps)) = core_ok (ps_tok ps)"
    by (simp_all add: pos_ok_def at_char_def)
qed

lemma scan_reads_ex:
  "mild eff \<Longrightarrow> pos_ok len ps \<Longrightarrow> at_char len ps \<Longrightarrow> core_ok (ps_tok ps) \<Longrightarrow>
   \<exists>ok k ps'. scan eff stop len ps = Some (ok, ps') \<and> moved k ps ps' \<and> pos_ok len ps'
     \<and> (ok \<longrightarrow> at_char len ps' \<and> stop (ps_c ps'))"
proof (induction eff stop len ps rule: scan.induct)
  case (1 eff stop len ps)
  show ?case
  proof (cases "stop (ps_c ps)")
    case True
    then have "scan eff stop len ps = Some (True, ps)" by (simp add: scan.simps)
    then show ?thesis using 1(3,4) True moved_0 by blast
  next
    case False
    have "pos_ok len (upd_tok (eff (ps_c ps)) ps)" "at_char len (upd_tok (eff (ps_c ps)) ps)"
      "core_ok (ps_tok (upd_tok (eff (ps_c ps)) ps))"
      using 1(3-5) eff_ok [OF 1(2)] by simp_all
    then obtain ok ps1 where n: "next_char len (upd_tok (eff (ps_c ps)) ps) = Some (ok, ps1)"
      "moved 1 (upd_tok (eff (ps_c ps)) ps) ps1" "pos_ok len ps1" "ok \<longrightarrow> at_char len ps1"
      by (rule next_char_ok)
    have m: "moved 1 ps ps1" by (rule moved_eff [OF 1(2) n(2)])
    show ?thesis
    proof (cases ok)
      case ok: True
      have "core_ok (ps_tok ps1)" using movedD(6) [OF m] 1(5) by simp
      then obtain ok' k ps' where s: "scan eff stop len ps1 = Some (ok', ps')" "moved k ps1 ps'" "pos_ok len ps'"
        "ok' \<longrightarrow> at_char len ps' \<and> stop (ps_c ps')"
        using 1(1) [OF False n(1) refl ok 1(2) n(3)] n(4) ok by blast
      have "scan eff stop len ps = Some (ok', ps')"
        using False n(1) ok s(1) by (subst scan.simps) simp
      then show ?thesis using moved_trans [OF m s(2)] s(3,4) by blast
    next
      case False': False
      have "scan eff stop len ps = Some (False, ps1)"
        using False n(1) False' by (subst scan.simps) simp
      then show ?thesis using m n(3) by blast
    qed
  qed
qed

lemma scan_reads:
  assumes "mild eff" "pos_ok len ps" "at_char len ps" "core_ok (ps_tok ps)"
  obtains ok k ps' where "scan eff stop len ps = Some (ok, ps')" "moved k ps ps'" "pos_ok len ps'"
    "ok \<longrightarrow> at_char len ps' \<and> stop (ps_c ps')"
  using scan_reads_ex [OF assms] by blast

lemma passed_moved:
  assumes "moved k ps ps'" "pos_ok len ps'" "pos_ok len ps"
  shows "length (passed (ps_str ps) ps') \<le> k"
  by (simp add: passed_def movedD(8) [OF assms(1)])

lemma moved_potential:
  assumes "moved k ps ps'" "pos_ok len ps" "pos_ok len ps'"
  shows "potential len ps' + 64 * k = potential len ps"
proof -
  have "nat (len - char_offset (ps_tok ps)) = nat (len - char_offset (ps_tok ps')) + k"
    using assms(3) movedD(7) [OF assms(1)] by (simp add: pos_ok_def) arith
  then show ?thesis using movedD(2,5) [OF assms(1)] by (simp add: potential_def)
qed

lemma append_ok:
  assumes "budget n ps" "length bs \<le> n"
  obtains p where "append_fast lib bs ps = Some (ps\<lparr>ps_tok := (ps_tok ps)\<lparr>tk_pb := p\<rparr>\<rparr>)"
    "pb_room (n - length bs) p" "pb_terminated (tk_pb (ps_tok ps)) \<Longrightarrow> pb_terminated p"
proof (cases rule: printbuf_memappend_fast_cases [OF assms [unfolded budget_def], of "realloc_ok lib"])
  case (1 p')
  then show ?thesis using that by (simp add: append_fast_def)
next
  case (2 k)
  then show ?thesis
    using that [of "tk_pb (ps_tok ps)"] assms by (simp add: append_fast_def budget_def pb_room_mono)
qed

lemma reset_ok:
  assumes "budget n ps" "m < 2 ^ 28"
  obtains p where "pb_reset ps = Some (ps\<lparr>ps_tok := (ps_tok ps)\<lparr>tk_pb := p\<rparr>\<rparr>)" "pb_room m p" "pb_terminated p"
proof -
  have "pb_inv (tk_pb (ps_tok ps))" "size (tk_pb (ps_tok ps)) < 2 ^ 30"
    using assms(1) by (simp_all add: budget_def pb_room_def)
  then obtain p where "printbuf_reset (tk_pb (ps_tok ps)) = Some p" "pb_terminated p" "pb_room m p"
    by (rule printbuf_reset_room [OF _ _ assms(2)])
  then show thesis using that by (simp add: pb_reset_def)
qed


section \<open>What a step leaves\<close>

definition good :: "nat \<Rightarrow> int \<Rightarrow> pst \<Rightarrow> bool" where
  "good r len ps \<longleftrightarrow> pos_ok len ps \<and> at_char len ps \<and> tok_ok (ps_tok ps) \<and> digits_ok (ps_tok ps)
     \<and> budget (r + potential len ps) ps \<and> r < 2 ^ 27"

definition step_post :: "nat \<Rightarrow> int \<Rightarrow> pst \<Rightarrow> flow \<Rightarrow> pst \<Rightarrow> bool" where
  "step_post r len ps fl ps' \<longleftrightarrow> pos_ok len ps' \<and> tok_ok (ps_tok ps') \<and>
     (case fl of
        Redo \<Rightarrow> at_char len ps' \<and> digits_ok (ps_tok ps') \<and> potential len ps' < potential len ps
          \<and> budget (r + potential len ps') ps'
      | Brk \<Rightarrow> at_char len ps' \<and> digits_ok (ps_tok ps') \<and> potential len ps' < potential len ps + 64
          \<and> budget (r + potential len ps' - 64) ps'
      | Out \<Rightarrow> budget r ps')"

definition step_good :: "nat \<Rightarrow> int \<Rightarrow> pst \<Rightarrow> (flow \<times> pst) option \<Rightarrow> bool" where
  "step_good r len ps res \<longleftrightarrow> (\<exists>fl ps'. res = Some (fl, ps') \<and> step_post r len ps fl ps')"

lemma goodD:
  assumes "good r len ps"
  shows "pos_ok len ps" "at_char len ps" "tok_ok (ps_tok ps)" "core_ok (ps_tok ps)" "top_ok (top (ps_tok ps))"
    "budget (r + potential len ps) ps" "r + potential len ps < 2 ^ 28" "64 \<le> potential len ps"
    "digits_ok (ps_tok ps)" "texty (sr_state (top (ps_tok ps))) \<Longrightarrow> pb_terminated (tk_pb (ps_tok ps))"
proof -
  show "pos_ok len ps" "at_char len ps" "tok_ok (ps_tok ps)" "core_ok (ps_tok ps)" "top_ok (top (ps_tok ps))"
    "budget (r + potential len ps) ps" "digits_ok (ps_tok ps)"
    "texty (sr_state (top (ps_tok ps))) \<Longrightarrow> pb_terminated (tk_pb (ps_tok ps))"
    using assms by (simp_all add: good_def tok_ok_def)
  have "nat (len - char_offset (ps_tok ps)) < 2 ^ 20" "nat (tk_depth (ps_tok ps)) < 2 ^ 20"
    using assms by (auto simp: good_def pos_ok_def at_char_def tok_ok_def core_ok_def)
  then show "r + potential len ps < 2 ^ 28"
    using assms rank_le [of "top (ps_tok ps)"] by (simp add: good_def potential_def)
  have "1 \<le> nat (len - char_offset (ps_tok ps))" using assms by (simp add: good_def at_char_def le_nat_iff)
  then show "64 \<le> potential len ps" by (simp add: potential_def)
qed

text \<open>
  From the start of a step: \<open>k\<close> characters passed, at most \<open>a\<close> bytes appended.
\<close>

definition passed_by :: "nat \<Rightarrow> int \<Rightarrow> pst \<Rightarrow> nat \<Rightarrow> nat \<Rightarrow> pst \<Rightarrow> bool" where
  "passed_by r len ps k a ps' \<longleftrightarrow> pos_ok len ps' \<and> core_ok (ps_tok ps')
     \<and> char_offset (ps_tok ps') = char_offset (ps_tok ps) + int k
     \<and> tk_depth (ps_tok ps') = tk_depth (ps_tok ps) \<and> tk_stack (ps_tok ps') = tk_stack (ps_tok ps)
     \<and> a \<le> potential len ps \<and> budget (r + potential len ps - a) ps'
     \<and> (pb_terminated (tk_pb (ps_tok ps)) \<longrightarrow> pb_terminated (tk_pb (ps_tok ps')))"

lemma passed_by_start: "good r len ps \<Longrightarrow> passed_by r len ps 0 0 ps"
  using goodD by (simp add: passed_by_def)

lemma passed_by_top: "passed_by r len ps k a ps' \<Longrightarrow> top (ps_tok ps') = top (ps_tok ps)"
  by (simp add: passed_by_def top_def)

lemma passed_by_moved:
  assumes "passed_by r len ps k a ps'" "moved j ps' ps''" "pos_ok len ps''"
  shows "passed_by r len ps (k + j) a ps''"
  using assms movedD [OF assms(2)] by (simp add: passed_by_def)

lemma passed_by_append:
  assumes "passed_by r len ps k a ps'" "a + length bs \<le> potential len ps"
  obtains ps'' where "append_fast lib bs ps' = Some ps''" "passed_by r len ps k (a + length bs) ps''"
    "ps_c ps'' = ps_c ps'" "ps_str ps'' = ps_str ps'" "quote_char (ps_tok ps'') = quote_char (ps_tok ps')"
    "at_char len ps'' = at_char len ps'" "is_double (ps_tok ps'') = is_double (ps_tok ps')"
    "tk_flags (ps_tok ps'') = tk_flags (ps_tok ps')" "ucs_char (ps_tok ps'') = ucs_char (ps_tok ps')"
proof -
  have b: "budget (r + potential len ps - a) ps'" using assms(1) by (simp add: passed_by_def)
  have "length bs \<le> r + potential len ps - a" using assms(2) by simp
  from append_ok [OF b this, of lib] obtain p where p:
    "append_fast lib bs ps' = Some (ps'\<lparr>ps_tok := (ps_tok ps')\<lparr>tk_pb := p\<rparr>\<rparr>)"
    "pb_room (r + potential len ps - a - length bs) p"
    "pb_terminated (tk_pb (ps_tok ps')) \<Longrightarrow> pb_terminated p" by blast
  show thesis
    by (rule that [OF p(1)])
      (use assms p in \<open>auto simp: passed_by_def budget_def pos_ok_def at_char_def diff_diff_left\<close>)
qed

lemma passed_by_reset:
  assumes "passed_by r len ps k a ps'" "good r len ps"
  obtains ps'' where "pb_reset ps' = Some ps''" "passed_by r len ps k 0 ps''" "pb_terminated (tk_pb (ps_tok ps''))"
    "ps_c ps'' = ps_c ps'" "at_char len ps'' = at_char len ps'" "tk_flags (ps_tok ps'') = tk_flags (ps_tok ps')"
proof -
  have b: "budget (r + potential len ps - a) ps'" using assms(1) by (simp add: passed_by_def)
  obtain p where p: "pb_reset ps' = Some (ps'\<lparr>ps_tok := (ps_tok ps')\<lparr>tk_pb := p\<rparr>\<rparr>)"
    "pb_room (r + potential len ps) p" "pb_terminated p"
    by (rule reset_ok [OF b goodD(7) [OF assms(2)]])
  show thesis
    by (rule that [OF p(1)]) (use assms p in \<open>auto simp: passed_by_def budget_def pos_ok_def at_char_def\<close>)
qed

text \<open>Leaving with a changed top level.\<close>

lemma potential_top:
  assumes "passed_by r len ps k a ps'" "good r len ps" "core_ok t" "tk_depth t = tk_depth (ps_tok ps')"
    "char_offset t = char_offset (ps_tok ps')"
  shows "potential len (ps'\<lparr>ps_tok := t\<rparr>) + 64 * k + rank (top (ps_tok ps)) = potential len ps + rank (top t)"
proof -
  have "nat (len - char_offset (ps_tok ps)) = nat (len - char_offset (ps_tok ps')) + k"
    using assms(1) by (simp add: passed_by_def pos_ok_def) arith
  then show ?thesis using assms(1,4,5) by (simp add: passed_by_def potential_def)
qed

lemma brk_post:
  assumes p: "passed_by r len ps k a ps'" and g: "good r len ps" and at: "at_char len ps'" and a: "a \<le> 64 * k + 39"
    and t: "tok_ok t" "digits_ok t" "tk_depth t = tk_depth (ps_tok ps')" "char_offset t = char_offset (ps_tok ps')"
      "tk_pb t = tk_pb (ps_tok ps')"
  shows "step_good r len ps (Some (Brk, ps'\<lparr>ps_tok := t\<rparr>))"
proof -
  have pot: "potential len (ps'\<lparr>ps_tok := t\<rparr>) + 64 * k + rank (top (ps_tok ps)) = potential len ps + rank (top t)"
    by (rule potential_top [OF p g]) (use t in \<open>auto simp: tok_ok_def\<close>)
  have "r + potential len (ps'\<lparr>ps_tok := t\<rparr>) - 64 \<le> r + potential len ps - a"
    using pot rank_le [of "top t"] a by linarith
  moreover have "potential len (ps'\<lparr>ps_tok := t\<rparr>) < potential len ps + 64"
    using pot rank_le [of "top t"] by linarith
  moreover have "budget (r + potential len ps - a) (ps'\<lparr>ps_tok := t\<rparr>)" "pos_ok len ps'"
    using p t(5) by (simp_all add: passed_by_def budget_def)
  ultimately show ?thesis
    using t at budget_mono by (auto simp: step_good_def step_post_def pos_ok_def at_char_def)
qed

lemma redo_post:
  assumes p: "passed_by r len ps k a ps'" and g: "good r len ps" and at: "at_char len ps'"
    and a: "a + rank (top t) \<le> rank (top (ps_tok ps)) + 64 * k" "rank (top t) < rank (top (ps_tok ps)) + 64 * k"
    and t: "tok_ok t" "digits_ok t" "tk_depth t = tk_depth (ps_tok ps')" "char_offset t = char_offset (ps_tok ps')"
      "tk_pb t = tk_pb (ps_tok ps')"
  shows "step_good r len ps (Some (Redo, ps'\<lparr>ps_tok := t\<rparr>))"
proof -
  have pot: "potential len (ps'\<lparr>ps_tok := t\<rparr>) + 64 * k + rank (top (ps_tok ps)) = potential len ps + rank (top t)"
    by (rule potential_top [OF p g]) (use t in \<open>auto simp: tok_ok_def\<close>)
  have "r + potential len (ps'\<lparr>ps_tok := t\<rparr>) \<le> r + potential len ps - a"
    using pot a(1) p by (simp add: passed_by_def)
  moreover have "potential len (ps'\<lparr>ps_tok := t\<rparr>) < potential len ps" using pot a(2) by linarith
  moreover have "budget (r + potential len ps - a) (ps'\<lparr>ps_tok := t\<rparr>)" "pos_ok len ps'"
    using p t(5) by (simp_all add: passed_by_def budget_def)
  ultimately show ?thesis
    using t at budget_mono by (auto simp: step_good_def step_post_def pos_ok_def at_char_def)
qed

lemma out_post:
  assumes p: "passed_by r len ps k a ps'" and t: "tok_ok t" "char_offset t = char_offset (ps_tok ps')"
      "tk_pb t = tk_pb (ps_tok ps')"
  shows "step_good r len ps (Some (Out, ps'\<lparr>ps_tok := t\<rparr>))"
proof -
  have "budget (r + potential len ps - a) (ps'\<lparr>ps_tok := t\<rparr>)" "pos_ok len ps'" "a \<le> potential len ps"
    using p t(3) by (simp_all add: passed_by_def budget_def)
  then show ?thesis
    using t budget_mono [of _ "ps'\<lparr>ps_tok := t\<rparr>" r] by (auto simp: step_good_def step_post_def pos_ok_def)
qed

lemma passed_by_tok_ok:
  assumes "passed_by r len ps k a ps'" "good r len ps"
  shows "tok_ok (ps_tok ps')"
    "sr_state (top (ps_tok ps)) \<noteq> st_escape_unicode \<Longrightarrow> digits_ok (ps_tok ps')"
  using assms passed_by_top [OF assms(1)] goodD(3,9) [OF assms(2)]
  by (auto simp: tok_ok_def passed_by_def digits_ok_def)

lemma out_same:
  assumes "passed_by r len ps k a ps'" "good r len ps"
  shows "step_good r len ps (Some (Out, ps'))"
  using out_post [OF assms(1) passed_by_tok_ok(1) [OF assms]] by simp

lemma fail_good:
  assumes "passed_by r len ps k a ps'" "good r len ps"
  shows "step_good r len ps (fail e ps')"
proof -
  have "tok_ok ((ps_tok ps')\<lparr>tk_err := e\<rparr>)"
    using passed_by_tok_ok(1) [OF assms] by (simp add: tok_ok_def)
  from out_post [OF assms(1) this] show ?thesis by (simp add: fail_def)
qed


section \<open>Every step\<close>

lemmas tok_simps = tok_ok_def top_ok_def blank_state_def escape_state_def resting_def texty_def digits_ok_def
  rank_def goto_state_def eatws_then_def set_current_def back_to_saved_def leave_def

lemma restingD:
  assumes "resting s"
  shows "\<not> blank_state s" "\<not> escape_state s" "\<not> texty s" "s \<noteq> st_eatws" "s \<noteq> st_escape_unicode"
  using assms by (auto simp: resting_def blank_state_def escape_state_def texty_def)

lemma step_eatws_good:
  assumes g: "good r len ps" and s: "sr_state (top (ps_tok ps)) = st_eatws"
  shows "step_good r len ps (step_eatws lib len ps)"
proof -
  note G = goodD [OF g]
  obtain ok k ps1 where sc: "scan (\<lambda>_ t. t) (\<lambda>c. \<not> isspace c) len ps = Some (ok, ps1)" "moved k ps ps1"
    "pos_ok len ps1" "ok \<longrightarrow> at_char len ps1 \<and> \<not> isspace (ps_c ps1)"
    by (rule scan_reads [OF mild_simps(1) G(1,2,4)])
  have p1: "passed_by r len ps k 0 ps1"
    using passed_by_moved [OF passed_by_start [OF g] sc(2,3)] by simp
  have rest: "resting (sr_saved (top (ps_tok ps)))" "needs (sr_saved (top (ps_tok ps))) (top (ps_tok ps))"
    using G(5) s by (auto simp: top_ok_def blank_state_def)
  show ?thesis
  proof (cases ok)
    case False
    then have "step_eatws lib len ps = Some (Out, ps1)" using sc(1) by (simp add: step_eatws_def)
    then show ?thesis using out_same [OF p1 g] by simp
  next
    case ok: True
    show ?thesis
    proof (cases "ps_c ps1 = CHR ''/'' \<and> \<not> strict (ps_tok ps1)")
      case True
      obtain ps2 where p2: "pb_reset ps1 = Some ps2" "passed_by r len ps k 0 ps2" "ps_c ps2 = ps_c ps1"
        "at_char len ps2 = at_char len ps1"
        by (rule passed_by_reset [OF p1 g])
      have "0 + length [ps_c ps1] \<le> potential len ps" using G(8) by simp
      then obtain ps3 where p3: "append_fast lib [ps_c ps1] ps2 = Some ps3" "passed_by r len ps k (0 + length [ps_c ps1]) ps3"
        "at_char len ps3 = at_char len ps2"
        by (rule passed_by_append [OF p2(2)])
      have "step_eatws lib len ps = leave Brk (goto_state st_comment_start) ps3"
        using sc(1) ok True p2(1,3) p3(1) by (simp add: step_eatws_def)
      moreover have "step_good r len ps (leave Brk (goto_state st_comment_start) ps3)"
        unfolding leave_def
        by (rule brk_post [OF p3(2) g])
          (use ok sc(4) p2(4) p3 rest passed_by_top [OF p3(2)] in \<open>auto simp: tok_simps passed_by_def\<close>)
      ultimately show ?thesis by simp
    next
      case False
      have "step_eatws lib len ps = leave Redo (\<lambda>t. goto_state (sr_saved (top t)) t) ps1"
        using sc(1) ok False by (auto simp: step_eatws_def)
      moreover have "step_good r len ps (leave Redo (\<lambda>t. goto_state (sr_saved (top t)) t) ps1)"
        unfolding leave_def
      proof (rule redo_post [OF p1 g])
        let ?t = "goto_state (sr_saved (top (ps_tok ps1))) (ps_tok ps1)"
        have core: "core_ok (ps_tok ps1)" using p1 by (simp add: passed_by_def)
        have top: "top ?t = (top (ps_tok ps))\<lparr>sr_state := sr_saved (top (ps_tok ps))\<rparr>"
          using core passed_by_top [OF p1] by (simp add: goto_state_def)
        have "needs s' (r'\<lparr>sr_state := s''\<rparr>) = needs s' r'" for s' s'' r' by (cases s') simp_all
        then show "tok_ok ?t" "digits_ok ?t"
          using core restingD [OF rest(1)] rest(2) by (simp_all add: tok_ok_def top top_ok_def digits_ok_def)
            (simp_all add: goto_state_def)
        show "0 + rank (top ?t) \<le> rank (top (ps_tok ps)) + 64 * k" "rank (top ?t) < rank (top (ps_tok ps)) + 64 * k"
          unfolding top using s restingD(4) [OF rest(1)] by (simp_all add: rank_def)
      qed (use ok sc(4) in \<open>simp_all add: goto_state_def\<close>)
      ultimately show ?thesis by simp
    qed
  qed
qed


text \<open>Leaving from the start of the step.\<close>

lemma brk_start:
  assumes g: "good r len ps" and "tok_ok t" "digits_ok t" "tk_depth t = tk_depth (ps_tok ps)"
    "char_offset t = char_offset (ps_tok ps)" "tk_pb t = tk_pb (ps_tok ps)"
  shows "step_good r len ps (Some (Brk, ps\<lparr>ps_tok := t\<rparr>))"
  by (rule brk_post [OF passed_by_start [OF g] g goodD(2) [OF g] _ assms(2-6)]) simp

lemma fail_start: "good r len ps \<Longrightarrow> step_good r len ps (fail e ps)"
  by (rule fail_good [OF passed_by_start])

text \<open>Emptying the buffer and going on to another state.\<close>

lemma reset_brk:
  assumes g: "good r len ps" and f: "\<And>t. core_ok t \<Longrightarrow> top t = top (ps_tok ps) \<Longrightarrow> pb_terminated (tk_pb t) \<Longrightarrow>
      tok_ok (f t) \<and> digits_ok (f t) \<and> tk_depth (f t) = tk_depth t \<and> char_offset (f t) = char_offset t
      \<and> tk_pb (f t) = tk_pb t"
  shows "step_good r len ps (Option.bind (pb_reset ps) (leave Brk f))"
proof -
  obtain ps2 where p2: "pb_reset ps = Some ps2" "passed_by r len ps 0 0 ps2" "pb_terminated (tk_pb (ps_tok ps2))"
    "at_char len ps2 = at_char len ps"
    by (rule passed_by_reset [OF passed_by_start [OF g] g])
  have "core_ok (ps_tok ps2)" using p2(2) by (simp add: passed_by_def)
  from f [OF this passed_by_top [OF p2(2)] p2(3)] show ?thesis
    using brk_post [OF p2(2) g, of "f (ps_tok ps2)"] p2(1,4) goodD(2) [OF g] by (simp add: leave_def)
qed

lemma reset_redo:
  assumes g: "good r len ps" and f: "\<And>t. core_ok t \<Longrightarrow> top t = top (ps_tok ps) \<Longrightarrow> pb_terminated (tk_pb t) \<Longrightarrow>
      tok_ok (f t) \<and> digits_ok (f t) \<and> tk_depth (f t) = tk_depth t \<and> char_offset (f t) = char_offset t
      \<and> tk_pb (f t) = tk_pb t \<and> rank (top (f t)) < rank (top (ps_tok ps))"
  shows "step_good r len ps (Option.bind (pb_reset ps) (leave Redo f))"
proof -
  obtain ps2 where p2: "pb_reset ps = Some ps2" "passed_by r len ps 0 0 ps2" "pb_terminated (tk_pb (ps_tok ps2))"
    "at_char len ps2 = at_char len ps"
    by (rule passed_by_reset [OF passed_by_start [OF g] g])
  have "core_ok (ps_tok ps2)" using p2(2) by (simp add: passed_by_def)
  from f [OF this passed_by_top [OF p2(2)] p2(3)] show ?thesis
    using redo_post [OF p2(2) g, of "f (ps_tok ps2)"] p2(1,4) goodD(2) [OF g] by (simp add: leave_def)
qed

text \<open>
  The allocations that have to succeed: containers, and the names of fields. A value without
  memory is \<open>null\<close>, and an element without room is left out.
\<close>

definition mem_safe :: "libc \<Rightarrow> bool" where
  "mem_safe lib \<longleftrightarrow> (\<forall>use i. use \<in> {Mem_container, Mem_list, Mem_name, Mem_key} \<longrightarrow> mem_at lib use i)"

lemma step_start_good:
  assumes g: "good r len ps" and s: "sr_state (top (ps_tok ps)) = st_start" and m: "mem_safe lib"
  shows "step_good r len ps (step_start lib len ps)"
proof -
  note G = goodD [OF g]
  have 1: "step_good r len ps (leave Brk (set_current (JObject []) \<circ> eatws_then st_object_field_start) ps)"
    "step_good r len ps (leave Brk (set_current (JArray []) \<circ> eatws_then st_array) ps)"
    unfolding leave_def by (rule brk_start [OF g]; simp add: tok_simps G)+
  have 2: "step_good r len ps (do { ps \<leftarrow> pb_reset ps; leave Redo (\<lambda>t. (goto_state x t)\<lparr>st_pos := 0\<rparr>) ps })"
    if "x \<in> {st_inf, st_null, st_boolean}" for x
    by (rule reset_redo [OF g]) (use that s in \<open>auto simp: tok_simps\<close>)
  have 3: "step_good r len ps (do { ps \<leftarrow> pb_reset ps; leave Brk (\<lambda>t. (goto_state st_string t)\<lparr>quote_char := c\<rparr>) ps })" for c
    by (rule reset_brk [OF g]) (auto simp: tok_simps)
  have 4: "step_good r len ps (do { ps \<leftarrow> pb_reset ps; leave Redo (\<lambda>t. (goto_state st_number t)\<lparr>is_double := False\<rparr>) ps })"
    by (rule reset_redo [OF g]) (use s in \<open>auto simp: tok_simps\<close>)
  show ?thesis
    using 1 2 3 4 fail_start [OF g] m by (simp add: step_start_def Let_def allocated_def mem_safe_def)
qed

lemma step_finish_good:
  assumes g: "good r len ps" and s: "sr_state (top (ps_tok ps)) = st_finish"
  shows "step_good r len ps (step_finish lib len ps)"
proof -
  note G = goodD [OF g]
  let ?t = "ps_tok ps"
  show ?thesis
  proof (cases "tk_depth ?t = 0")
    case True
    then show ?thesis using out_same [OF passed_by_start [OF g] g] by (simp add: step_finish_def Let_def)
  next
    case False
    let ?blank = "\<lparr>sr_state = st_eatws, sr_saved = st_start, sr_current = JNull, sr_field_name = None\<rparr>"
    let ?t' = "?t\<lparr>tk_stack := (tk_stack ?t)[nat (tk_depth ?t) := ?blank], tk_depth := tk_depth ?t - 1\<rparr>"
    let ?ps = "ps\<lparr>ps_obj := sr_current (top ?t), ps_tok := ?t'\<rparr>"
    have d: "0 < tk_depth ?t" "tk_depth ?t < int (length (tk_stack ?t))" using False G(4) by (auto simp: core_ok_def)
    have eq: "step_finish lib len ps = Some (Redo, ?ps)"
      using False d core_level [OF G(4)] by (simp add: step_finish_def Let_def json_tokener_reset_level_def)
    have top': "top ?t' = tk_stack ?t ! nat (tk_depth ?t - 1)"
      using d by (simp add: top_def nth_list_update)
    have below: "below_ok (top ?t')" using G(4) d unfolding top' core_ok_def by simp
    have core: "core_ok ?t'" using G(4) d by (auto simp: core_ok_def nth_list_update)
    have ok: "tok_ok ?t'" "digits_ok ?t'"
      using core below by (auto simp: tok_simps below_ok_def)
    have "rank (top ?t') \<le> 9" using below by (auto simp: below_ok_def rank_def)
    moreover have "potential len ?ps = 64 * nat (len - char_offset ?t) + 12 * nat (tk_depth ?t - 1) + rank (top ?t')"
      unfolding potential_def by simp
    moreover have "potential len ps = 64 * nat (len - char_offset ?t) + 12 * nat (tk_depth ?t) + 3"
      using s by (simp add: potential_def rank_def)
    moreover have "nat (tk_depth ?t) = Suc (nat (tk_depth ?t - 1))" using d by simp
    ultimately have lt: "potential len ?ps < potential len ps" by simp
    have "budget (r + potential len ?ps) ?ps"
      using G(6) lt pb_room_mono by (auto simp: budget_def)
    then show ?thesis
      unfolding eq step_good_def step_post_def
      using ok lt G(1,2) by (auto simp: pos_ok_def at_char_def)
  qed
qed


text \<open>The literals: the character is appended, and the buffer is read.\<close>

lemma finish_with_good:
  assumes p: "passed_by r len ps k a ps'" and g: "good r len ps" and at: "at_char len ps'"
    and a: "a + 4 \<le> rank (top (ps_tok ps)) + 64 * k" "4 < rank (top (ps_tok ps)) + 64 * k"
  shows "step_good r len ps (finish_with lib v ps')"
proof -
  have core: "core_ok (ps_tok ps')" using p by (simp add: passed_by_def)
  let ?t = "(eatws_then st_finish \<circ> set_current (allocated lib Mem_scalar v ps')) (ps_tok ps')"
  have "tok_ok ?t" "digits_ok ?t" "rank (top ?t) = 4" using core by (simp_all add: tok_simps)
  then show ?thesis
    unfolding finish_with_def leave_def
    by (intro redo_post [OF p g at]) (use a in \<open>simp_all add: eatws_then_def set_current_def\<close>)
qed

lemma more_literal_good:
  assumes p: "passed_by r len ps k a ps'" and g: "good r len ps" and at: "at_char len ps'" and a: "a \<le> 64 * k + 39"
    and s: "sr_state (top (ps_tok ps)) \<noteq> st_escape_unicode"
  shows "step_good r len ps (more_literal ps')"
  unfolding more_literal_def leave_def
  by (rule brk_post [OF p g at a])
    (use passed_by_tok_ok [OF p g] passed_by_top [OF p] s in \<open>simp_all add: tok_ok_def digits_ok_def\<close>)

lemma append_char:
  assumes g: "good r len ps" and s: "texty (sr_state (top (ps_tok ps)))"
  obtains ps1 b where "append_fast lib [ps_c ps] ps = Some ps1" "passed_by r len ps 0 1 ps1" "at_char len ps1"
    "read_cstr (buf (tk_pb (ps_tok ps1))) = Some b"
proof -
  have "0 + length [ps_c ps] \<le> potential len ps" using goodD(8) [OF g] by simp
  then obtain ps1 where p1: "append_fast lib [ps_c ps] ps = Some ps1" "passed_by r len ps 0 (0 + length [ps_c ps]) ps1"
    "at_char len ps1 = at_char len ps"
    by (rule passed_by_append [OF passed_by_start [OF g]])
  have "pb_terminated (tk_pb (ps_tok ps1))" "pb_inv (tk_pb (ps_tok ps1))"
    using p1(2) goodD(10) [OF g s] by (auto simp: passed_by_def budget_def pb_room_def)
  then show thesis using that p1 read_cstr_terminated goodD(2) [OF g] by simp
qed

lemma step_inf_good:
  assumes g: "good r len ps" and s: "sr_state (top (ps_tok ps)) = st_inf"
  shows "step_good r len ps (step_inf lib len ps)"
proof -
  obtain ps1 b where p: "append_fast lib [ps_c ps] ps = Some ps1" "passed_by r len ps 0 1 ps1" "at_char len ps1"
    "read_cstr (buf (tk_pb (ps_tok ps1))) = Some b"
    by (rule append_char [OF g]) (simp add: s texty_def)
  have "rank (top (ps_tok ps)) = 5" using s by (simp add: rank_def)
  then show ?thesis
    using p(1,4) finish_with_good [OF p(2) g p(3)] more_literal_good [OF p(2) g p(3)] fail_good [OF p(2) g] s
    by (simp add: step_inf_def Let_def)
qed

lemma step_null_good:
  assumes g: "good r len ps" and s: "sr_state (top (ps_tok ps)) = st_null"
  shows "step_good r len ps (step_null lib len ps)"
proof -
  obtain ps1 b where p: "append_fast lib [ps_c ps] ps = Some ps1" "passed_by r len ps 0 1 ps1" "at_char len ps1"
    "read_cstr (buf (tk_pb (ps_tok ps1))) = Some b"
    by (rule append_char [OF g]) (simp add: s texty_def)
  have "rank (top (ps_tok ps)) = 5" using s by (simp add: rank_def)
  then show ?thesis
    using p(1,4) finish_with_good [OF p(2) g p(3)] more_literal_good [OF p(2) g p(3)] fail_good [OF p(2) g] s
    by (simp add: step_null_def)
qed

lemma step_boolean_good:
  assumes g: "good r len ps" and s: "sr_state (top (ps_tok ps)) = st_boolean"
  shows "step_good r len ps (step_boolean lib len ps)"
proof -
  obtain ps1 b where p: "append_fast lib [ps_c ps] ps = Some ps1" "passed_by r len ps 0 1 ps1" "at_char len ps1"
    "read_cstr (buf (tk_pb (ps_tok ps1))) = Some b"
    by (rule append_char [OF g]) (simp add: s texty_def)
  have "rank (top (ps_tok ps)) = 5" using s by (simp add: rank_def)
  then show ?thesis
    using p(1,4) finish_with_good [OF p(2) g p(3)] more_literal_good [OF p(2) g p(3)] fail_good [OF p(2) g] s
    by (simp add: step_boolean_def)
qed

text \<open>Comments.\<close>

lemma append_leave:
  assumes p: "passed_by r len ps k a ps'" and g: "good r len ps" and at: "at_char len ps'"
    and a: "a + length bs \<le> 64 * k + 39" "a + length bs \<le> potential len ps"
    and f: "\<And>t. core_ok t \<Longrightarrow> top t = top (ps_tok ps) \<Longrightarrow>
      (pb_terminated (tk_pb (ps_tok ps)) \<Longrightarrow> pb_terminated (tk_pb t)) \<Longrightarrow>
      tok_ok (f t) \<and> digits_ok (f t) \<and> tk_depth (f t) = tk_depth t \<and> char_offset (f t) = char_offset t
      \<and> tk_pb (f t) = tk_pb t"
  shows "step_good r len ps (Option.bind (append_fast lib bs ps') (leave Brk f))"
proof -
  obtain ps2 where p2: "append_fast lib bs ps' = Some ps2" "passed_by r len ps k (a + length bs) ps2"
    "at_char len ps2 = at_char len ps'"
    by (rule passed_by_append [OF p a(2)])
  have "core_ok (ps_tok ps2)" "pb_terminated (tk_pb (ps_tok ps)) \<Longrightarrow> pb_terminated (tk_pb (ps_tok ps2))"
    using p2(2) by (simp_all add: passed_by_def)
  from f [OF this(1) passed_by_top [OF p2(2)] this(2)] show ?thesis
    using brk_post [OF p2(2) g, of "f (ps_tok ps2)"] p2(1,3) at a(1) by (simp add: leave_def)
qed

lemma append_out:
  assumes p: "passed_by r len ps k a ps'" and g: "good r len ps" and a: "a + length bs \<le> potential len ps"
  shows "step_good r len ps (Option.bind (append_fast lib bs ps') (\<lambda>ps. Some (Out, ps)))"
proof -
  obtain ps2 where "append_fast lib bs ps' = Some ps2" "passed_by r len ps k (a + length bs) ps2"
    by (rule passed_by_append [OF p a])
  then show ?thesis using out_same [OF _ g] by simp
qed


lemma append_goto:
  "Option.bind (append_fast lib bs (upd_tok (goto_state x) ps)) (\<lambda>ps. Some (Brk, ps))
   = Option.bind (append_fast lib bs ps) (leave Brk (goto_state x))"
  by (cases "printbuf_memappend_fast (realloc_ok lib) (tk_pb (ps_tok ps)) bs")
    (simp_all add: append_fast_def leave_def goto_state_def set_top_def top_def)

lemma step_comment_start_good:
  assumes g: "good r len ps" and s: "sr_state (top (ps_tok ps)) = st_comment_start"
  shows "step_good r len ps (step_comment_start lib len ps)"
proof -
  note G = goodD [OF g]
  have rest: "resting (sr_saved (top (ps_tok ps)))" "needs (sr_saved (top (ps_tok ps))) (top (ps_tok ps))"
    using G(5) s by (auto simp: top_ok_def blank_state_def)
  have "step_good r len ps (Option.bind (append_fast lib [c] ps) (leave Brk (goto_state x)))"
    if "x \<in> {st_comment, st_comment_eol}" for x c
    by (rule append_leave [OF passed_by_start [OF g] g G(2)]) (use that G(8) rest in \<open>auto simp: tok_simps\<close>)
  then show ?thesis using fail_start [OF g] by (simp add: step_comment_start_def append_goto)
qed


lemma passed_room:
  assumes "passed_by r len ps k a ps'" "good r len ps"
  shows "k + 40 \<le> potential len ps"
proof -
  have "k \<le> nat (len - char_offset (ps_tok ps))"
    using assms(1) by (simp add: passed_by_def pos_ok_def) arith
  then show ?thesis
    using goodD(8) [OF assms(2)] by (cases "k = 0") (simp_all add: potential_def)
qed

text \<open>A scan at the start of a step.\<close>

lemma scan_start:
  assumes g: "good r len ps" and eff: "mild eff"
  obtains ok k ps' where "scan eff stop len ps = Some (ok, ps')" "passed_by r len ps k 0 ps'"
    "ok \<longrightarrow> at_char len ps' \<and> stop (ps_c ps')" "length (passed (ps_str ps) ps') \<le> k"
    "quote_char (ps_tok ps') = quote_char (ps_tok ps)"
proof -
  note G = goodD [OF g]
  obtain ok k ps' where sc: "scan eff stop len ps = Some (ok, ps')" "moved k ps ps'" "pos_ok len ps'"
    "ok \<longrightarrow> at_char len ps' \<and> stop (ps_c ps')"
    by (rule scan_reads [OF eff G(1,2,4)])
  show thesis
    by (rule that [OF sc(1) _ sc(4)])
      (use passed_by_moved [OF passed_by_start [OF g] sc(2,3)] passed_moved [OF sc(2,3) G(1)] movedD(10) [OF sc(2)] in simp_all)
qed

lemma step_comment_good:
  assumes g: "good r len ps" and s: "sr_state (top (ps_tok ps)) = st_comment"
  shows "step_good r len ps (step_comment lib len ps)"
proof -
  note G = goodD [OF g]
  have rest: "resting (sr_saved (top (ps_tok ps)))" "needs (sr_saved (top (ps_tok ps))) (top (ps_tok ps))"
    using G(5) s by (auto simp: top_ok_def blank_state_def)
  obtain ok k ps1 where sc: "scan (\<lambda>_ t. t) (\<lambda>c. c = CHR ''*'') len ps = Some (ok, ps1)" "passed_by r len ps k 0 ps1"
    "ok \<longrightarrow> at_char len ps1 \<and> ps_c ps1 = CHR ''*''" "length (passed (ps_str ps) ps1) \<le> k"
    by (rule scan_start [OF g mild_simps(1)])
  note room = passed_room [OF sc(2) g]
  show ?thesis
  proof (cases ok)
    case False
    have "step_good r len ps (Option.bind (append_fast lib (passed (ps_str ps) ps1) ps1) (\<lambda>ps. Some (Out, ps)))"
      by (rule append_out [OF sc(2) g]) (use sc(4) room in simp)
    then show ?thesis using sc(1) False by (simp add: step_comment_def Let_def)
  next
    case True
    have "step_good r len ps (Option.bind (append_fast lib (passed (ps_str ps) ps1 @ [ps_c ps1]) ps1) (leave Brk (goto_state st_comment_end)))"
      by (rule append_leave [OF sc(2) g]) (use sc(3,4) True room rest in \<open>auto simp: tok_simps\<close>)
    then show ?thesis using sc(1) True by (simp add: step_comment_def Let_def)
  qed
qed

lemma step_comment_eol_good:
  assumes g: "good r len ps" and s: "sr_state (top (ps_tok ps)) = st_comment_eol"
  shows "step_good r len ps (step_comment_eol lib len ps)"
proof -
  note G = goodD [OF g]
  have rest: "resting (sr_saved (top (ps_tok ps)))" "needs (sr_saved (top (ps_tok ps))) (top (ps_tok ps))"
    using G(5) s by (auto simp: top_ok_def blank_state_def)
  obtain ok k ps1 where sc: "scan (\<lambda>_ t. t) (\<lambda>c. c = CHR 0x0A) len ps = Some (ok, ps1)" "passed_by r len ps k 0 ps1"
    "ok \<longrightarrow> at_char len ps1 \<and> ps_c ps1 = CHR 0x0A" "length (passed (ps_str ps) ps1) \<le> k"
    by (rule scan_start [OF g mild_simps(1)])
  note room = passed_room [OF sc(2) g]
  show ?thesis
  proof (cases ok)
    case False
    have "step_good r len ps (Option.bind (append_fast lib (passed (ps_str ps) ps1) ps1) (\<lambda>ps. Some (Out, ps)))"
      by (rule append_out [OF sc(2) g]) (use sc(4) room in simp)
    then show ?thesis using sc(1) False by (simp add: step_comment_eol_def Let_def)
  next
    case True
    have "step_good r len ps (Option.bind (append_fast lib (passed (ps_str ps) ps1) ps1) (leave Brk (goto_state st_eatws)))"
      by (rule append_leave [OF sc(2) g]) (use sc(3,4) True room rest in \<open>auto simp: tok_simps\<close>)
    then show ?thesis using sc(1) True by (simp add: step_comment_eol_def Let_def)
  qed
qed

lemma step_comment_end_good:
  assumes g: "good r len ps" and s: "sr_state (top (ps_tok ps)) = st_comment_end"
  shows "step_good r len ps (step_comment_end lib len ps)"
proof -
  note G = goodD [OF g]
  have rest: "resting (sr_saved (top (ps_tok ps)))" "needs (sr_saved (top (ps_tok ps))) (top (ps_tok ps))"
    using G(5) s by (auto simp: top_ok_def blank_state_def)
  have "step_good r len ps (Option.bind (append_fast lib [ps_c ps] ps)
      (leave Brk (goto_state (if ps_c ps = CHR ''/'' then st_eatws else st_comment))))"
    by (rule append_leave [OF passed_by_start [OF g] g G(2)]) (use G(8) rest in \<open>auto simp: tok_simps\<close>)
  moreover have "append_fast lib [ps_c ps] ps = Some ps1 \<Longrightarrow> ps_c ps1 = ps_c ps" for ps1
    by (auto simp: append_fast_def bind_eq_Some_iff)
  ultimately show ?thesis
    by (cases "append_fast lib [ps_c ps] ps") (simp_all add: step_comment_end_def)
qed

text \<open>Strings and field names.\<close>

lemma pb_bytes_ok: "pb_inv p \<Longrightarrow> \<exists>bs. pb_bytes p = Some bs \<and> int (length bs) = bpos p"
  by (auto simp: pb_bytes_def pb_inv_def Let_def)

lemma step_string_good:
  assumes g: "good r len ps" and s: "sr_state (top (ps_tok ps)) = st_string"
  shows "step_good r len ps (step_string lib len ps)"
proof -
  note G = goodD [OF g]
  obtain ok k ps1 where sc: "scan (\<lambda>_ t. t) (quote_or_backslash ps) len ps = Some (ok, ps1)" "passed_by r len ps k 0 ps1"
    "ok \<longrightarrow> at_char len ps1 \<and> quote_or_backslash ps (ps_c ps1)" "length (passed (ps_str ps) ps1) \<le> k"
    by (rule scan_start [OF g mild_simps(1)])
  note room = passed_room [OF sc(2) g]
  have "0 + length (passed (ps_str ps) ps1) \<le> potential len ps" using sc(4) room by simp
  then obtain ps2 where p2: "append_fast lib (passed (ps_str ps) ps1) ps1 = Some ps2"
    "passed_by r len ps k (0 + length (passed (ps_str ps) ps1)) ps2" "at_char len ps2 = at_char len ps1"
    by (rule passed_by_append [OF sc(2)])
  have a: "0 + length (passed (ps_str ps) ps1) \<le> 64 * k + 39" using sc(4) by simp
  have core: "core_ok (ps_tok ps2)" using p2(2) by (simp add: passed_by_def)
  have ended: "pb_terminated (tk_pb (ps_tok ps2))" "pb_inv (tk_pb (ps_tok ps2))"
    using p2(2) G(10) s by (auto simp: passed_by_def budget_def pb_room_def texty_def)
  show ?thesis
  proof (cases ok)
    case False
    then show ?thesis using sc(1) p2(1) out_same [OF p2(2) g] by (simp add: step_string_def Let_def)
  next
    case True
    show ?thesis
    proof (cases "ps_c ps2 = quote_char (ps_tok ps2)")
      case quote: True
      obtain bs where bs: "pb_bytes (tk_pb (ps_tok ps2)) = Some bs" "int (length bs) = bpos (tk_pb (ps_tok ps2))"
        using pb_bytes_ok [OF ended(2)] by blast
      then obtain v where v: "json_object_new_string_len bs (bpos (tk_pb (ps_tok ps2))) = Some v"
        using ended(2) by (auto simp: json_object_new_string_len_def pb_inv_def)
      have "step_good r len ps (leave Brk (eatws_then st_finish \<circ> set_current (allocated lib Mem_scalar v ps2)) ps2)"
        unfolding leave_def
        by (rule brk_post [OF p2(2) g _ a]) (use True sc(3) p2(3) core in \<open>auto simp: tok_simps\<close>)
      then show ?thesis
        using sc(1) p2(1) True quote bs(1) v by (simp add: step_string_def Let_def)
    next
      case bsl: False
      have "step_good r len ps (leave Brk (set_top (\<lambda>r. r\<lparr>sr_saved := st_string, sr_state := st_string_escape\<rparr>)) ps2)"
        unfolding leave_def
        by (rule brk_post [OF p2(2) g _ a]) (use True sc(3) p2(3) core ended in \<open>auto simp: tok_simps\<close>)
      then show ?thesis using sc(1) p2(1) True bsl by (simp add: step_string_def Let_def)
    qed
  qed
qed

lemma step_object_field_good:
  assumes g: "good r len ps" and s: "sr_state (top (ps_tok ps)) = st_object_field" and m: "mem_safe lib"
  shows "step_good r len ps (step_object_field lib len ps)"
proof -
  note G = goodD [OF g]
  have obj: "is_object (sr_current (top (ps_tok ps)))"
    using G(5) s by (simp add: top_ok_def blank_state_def escape_state_def)
  obtain ok k ps1 where sc: "scan (\<lambda>_ t. t) (quote_or_backslash ps) len ps = Some (ok, ps1)" "passed_by r len ps k 0 ps1"
    "ok \<longrightarrow> at_char len ps1 \<and> quote_or_backslash ps (ps_c ps1)" "length (passed (ps_str ps) ps1) \<le> k"
    by (rule scan_start [OF g mild_simps(1)])
  note room = passed_room [OF sc(2) g]
  have "0 + length (passed (ps_str ps) ps1) \<le> potential len ps" using sc(4) room by simp
  then obtain ps2 where p2: "append_fast lib (passed (ps_str ps) ps1) ps1 = Some ps2"
    "passed_by r len ps k (0 + length (passed (ps_str ps) ps1)) ps2" "at_char len ps2 = at_char len ps1"
    by (rule passed_by_append [OF sc(2)])
  have a: "0 + length (passed (ps_str ps) ps1) \<le> 64 * k + 39" using sc(4) by simp
  have core: "core_ok (ps_tok ps2)" using p2(2) by (simp add: passed_by_def)
  have top2: "top (ps_tok ps2) = top (ps_tok ps)" by (rule passed_by_top [OF p2(2)])
  have ended: "pb_terminated (tk_pb (ps_tok ps2))" "pb_inv (tk_pb (ps_tok ps2))"
    using p2(2) G(10) s by (auto simp: passed_by_def budget_def pb_room_def texty_def)
  show ?thesis
  proof (cases ok)
    case False
    then show ?thesis using sc(1) p2(1) out_same [OF p2(2) g] by (simp add: step_object_field_def Let_def)
  next
    case True
    show ?thesis
    proof (cases "ps_c ps2 = quote_char (ps_tok ps2)")
      case quote: True
      let ?f = "eatws_then st_object_field_end \<circ> set_top (\<lambda>r. r\<lparr>sr_field_name := Some (cstr (pb_str (tk_pb (ps_tok ps2))))\<rparr>)"
      have "step_good r len ps (leave Brk ?f ps2)"
        unfolding leave_def
        by (rule brk_post [OF p2(2) g _ a]) (use True sc(3) p2(3) core top2 obj in \<open>auto simp: tok_simps\<close>)
      then show ?thesis
        using sc(1) p2(1) True quote read_cstr_terminated [OF ended(2,1)] m by (simp add: step_object_field_def Let_def mem_safe_def)
    next
      case bsl: False
      have "step_good r len ps (leave Brk (set_top (\<lambda>r. r\<lparr>sr_saved := st_object_field, sr_state := st_string_escape\<rparr>)) ps2)"
        unfolding leave_def
        by (rule brk_post [OF p2(2) g _ a]) (use True sc(3) p2(3) core ended top2 obj in \<open>auto simp: tok_simps\<close>)
      then show ?thesis using sc(1) p2(1) True bsl by (simp add: step_object_field_def Let_def)
    qed
  qed
qed


text \<open>Escapes.\<close>

lemma escape_saved:
  assumes g: "good r len ps" and s: "escape_state (sr_state (top (ps_tok ps)))"
  shows "sr_saved (top (ps_tok ps)) \<in> {st_string, st_object_field}" "needs (sr_saved (top (ps_tok ps))) (top (ps_tok ps))"
    "pb_terminated (tk_pb (ps_tok ps))"
  using goodD(5,10) [OF g] s by (auto simp: top_ok_def blank_state_def escape_state_def texty_def)

lemma saved_ok:
  assumes "core_ok t" "top t = r" "sr_saved r \<in> {st_string, st_object_field}" "needs (sr_saved r) r" "pb_terminated (tk_pb t)"
  shows "tok_ok (back_to_saved t)" "digits_ok (back_to_saved t)"
  using assms by (auto simp: tok_simps)

lemma step_string_escape_good:
  assumes g: "good r len ps" and s: "sr_state (top (ps_tok ps)) = st_string_escape"
  shows "step_good r len ps (step_string_escape lib len ps)"
proof -
  note G = goodD [OF g]
  have esc: "escape_state (sr_state (top (ps_tok ps)))" using s by (simp add: escape_state_def)
  note saved = escape_saved [OF g esc]
  have 1: "step_good r len ps (Option.bind (append_fast lib [c] ps) (leave Brk back_to_saved))" for c
    by (rule append_leave [OF passed_by_start [OF g] g G(2)])
      (use G(8) saved saved_ok in \<open>auto simp: back_to_saved_def\<close>)
  have 2: "step_good r len ps (leave Brk (\<lambda>t. (goto_state st_escape_unicode t)\<lparr>ucs_char := 0, st_pos := 0\<rparr>) ps)"
    unfolding leave_def by (rule brk_start [OF g]) (use saved G(4) in \<open>auto simp: tok_simps\<close>)
  show ?thesis using 1 2 fail_start [OF g] by (simp add: step_string_escape_def Let_def)
qed

lemma at_char_room:
  assumes "passed_by r len ps k a ps'" "at_char len ps'"
  shows "64 * k + 64 \<le> potential len ps"
proof -
  have "k + 1 \<le> nat (len - char_offset (ps_tok ps))"
    using assms by (simp add: passed_by_def at_char_def)
  then show ?thesis by (simp add: potential_def)
qed

lemma passed_by_fields:
  "passed_by r len ps k a ps' \<Longrightarrow> passed_by r len ps k a (ps'\<lparr>ps_tok := (ps_tok ps')\<lparr>ucs_char := w, st_pos := n\<rparr>\<rparr>)"
  "passed_by r len ps k a ps' \<Longrightarrow> passed_by r len ps k a (ps'\<lparr>ps_tok := (ps_tok ps')\<lparr>ucs_char := w\<rparr>\<rparr>)"
  by (simp_all add: passed_by_def pos_ok_def budget_def)

text \<open>How \<open>high_surrogate\<close> and \<open>unicode_char\<close> go on, with at most \<open>b\<close> bytes appended.\<close>

definition uni_post :: "nat \<Rightarrow> int \<Rightarrow> pst \<Rightarrow> nat \<Rightarrow> nat \<Rightarrow> (uflow \<times> pst) option \<Rightarrow> bool" where
  "uni_post r len ps k b res \<longleftrightarrow> (\<exists>fl ps'. res = Some (fl, ps') \<and>
     (case fl of
        UBreak \<Rightarrow> \<exists>ps1 a. ps' = upd_tok back_to_saved ps1 \<and> passed_by r len ps k a ps1 \<and> a \<le> b \<and> at_char len ps1
      | UOut \<Rightarrow> \<exists>k' a. passed_by r len ps k' a ps'
      | UContinue hi \<Rightarrow> \<exists>a. passed_by r len ps (k + 3) a ps' \<and> a \<le> b \<and> at_char len ps' \<and> st_pos (ps_tok ps') = 0))"


lemma utf8_bytes: "length utf8_replacement_char = 3" "length (unescaped_utf u) \<le> 4"
  by (simp_all add: utf8_replacement_char_def unescaped_utf_def)

lemma high_surrogate_good:
  assumes p: "passed_by r len ps k a ps1" and at: "at_char len ps1" and a: "a \<le> b" "b + 6 \<le> potential len ps"
  shows "uni_post r len ps k (b + 3) (high_surrogate lib len ps1)"
proof -
  let ?off = "char_offset (ps_tok ps1)"
  have pos: "pos_ok len ps1" using p by (simp add: passed_by_def)
  have break: "uni_post r len ps k (b + 3) (Option.bind (append_fast lib utf8_replacement_char ps1)
      (\<lambda>ps. Some (UBreak, upd_tok back_to_saved ps)))"
  proof -
    have "a + length utf8_replacement_char \<le> potential len ps" using a utf8_bytes(1) by simp
    then obtain ps2 where "append_fast lib utf8_replacement_char ps1 = Some ps2"
      "passed_by r len ps k (a + length utf8_replacement_char) ps2" "at_char len ps2 = at_char len ps1"
      by (rule passed_by_append [OF p])
    then show ?thesis using a(1) at utf8_bytes(1) by (auto simp: uni_post_def intro!: exI)
  qed
  show ?thesis
  proof (cases "?off + 1 \<noteq> len \<and> ?off + 2 \<noteq> len")
    case False
    then show ?thesis using break by (auto simp: high_surrogate_def Let_def)
  next
    case True
    then have len: "?off + 2 < len" using at by (simp add: at_char_def)
    then have l2: "2 < length (ps_str ps1)" using pos by (simp add: pos_ok_def)
    show ?thesis
    proof (cases "ps_str ps1 ! 1 = CHR 0x5C \<and> ps_str ps1 ! 2 = CHR ''u''")
      case False
      then show ?thesis using break True l2 by (auto simp: high_surrogate_def Let_def str_at_def)
    next
      case follows: True
      have unfold: "high_surrogate lib len ps1 = do {
           (ok, ps) \<leftarrow> ADVANCE_CHAR ps1;
           (ok, ps) \<leftarrow> (if ok then ADVANCE_CHAR ps else Some (False, ps));
           ps \<leftarrow> (if \<not> ok then append_fast lib utf8_replacement_char ps else Some ps);
           (ok, ps) \<leftarrow> next_char len ps;
           if \<not> ok then do {
             ps \<leftarrow> append_fast lib utf8_replacement_char ps;
             Some (UOut, ps) }
           else Some (UContinue (ucs_char (ps_tok ps1)), upd_tok (\<lambda>t. t\<lparr>ucs_char := 0, st_pos := 0\<rparr>) ps) }"
        using True follows l2 by (simp add: high_surrogate_def Let_def str_at_def)
      obtain ps2 where p2: "ADVANCE_CHAR ps1 = Some (ps_c ps1 \<noteq> NUL, ps2)" "moved 1 ps1 ps2" "pos_ok len ps2"
        "ps_c ps2 = ps_c ps1"
        by (rule advance_ok [OF pos at])
      have q2: "passed_by r len ps (k + 1) a ps2" by (rule passed_by_moved [OF p p2(2,3)])
      have at2: "at_char len ps2" using len movedD(7) [OF p2(2)] by (simp add: at_char_def)
      have out: "uni_post r len ps k (b + 3) (Option.bind (append_fast lib utf8_replacement_char ps') (\<lambda>ps. Some (UOut, ps)))"
        if q: "passed_by r len ps j c ps'" and c: "c \<le> b + 3" for j c ps'
      proof -
        have "c + length utf8_replacement_char \<le> potential len ps" using c a utf8_bytes(1) by simp
        then obtain ps3 where "append_fast lib utf8_replacement_char ps' = Some ps3"
          "passed_by r len ps j (c + length utf8_replacement_char) ps3"
          by (rule passed_by_append [OF q])
        then show ?thesis by (auto simp: uni_post_def)
      qed
      show ?thesis
      proof (cases "ps_c ps1 = NUL")
        case nul: True
        have "a + length utf8_replacement_char \<le> potential len ps" using a utf8_bytes(1) by simp
        then obtain ps3 where p3: "append_fast lib utf8_replacement_char ps2 = Some ps3"
          "passed_by r len ps (k + 1) (a + length utf8_replacement_char) ps3" "ps_c ps3 = ps_c ps2"
          "at_char len ps3 = at_char len ps2"
          by (rule passed_by_append [OF q2])
        obtain ps4 where p4: "ADVANCE_CHAR ps3 = Some (ps_c ps3 \<noteq> NUL, ps4)" "moved 1 ps3 ps4" "pos_ok len ps4"
          by (rule advance_ok [of len ps3]) (use p3 at2 in \<open>simp_all add: passed_by_def\<close>)
        have q4: "passed_by r len ps (k + 1 + 1) (a + length utf8_replacement_char) ps4"
          by (rule passed_by_moved [OF p3(2) p4(2,3)])
        have "high_surrogate lib len ps1 = Option.bind (append_fast lib utf8_replacement_char ps4) (\<lambda>ps. Some (UOut, ps))"
          using unfold p2(1) nul p3(1,3) p4(1) p2(4) by (simp add: next_char_def)
        then show ?thesis using out [OF q4] a(1) utf8_bytes(1) by simp
      next
        case False
        obtain ps3 where p3: "ADVANCE_CHAR ps2 = Some (ps_c ps2 \<noteq> NUL, ps3)" "moved 1 ps2 ps3" "pos_ok len ps3"
          by (rule advance_ok [OF p2(3) at2])
        have q3: "passed_by r len ps (k + 1 + 1) a ps3" by (rule passed_by_moved [OF q2 p3(2,3)])
        have at3: "at_char len ps3" using len movedD(7) [OF p2(2)] movedD(7) [OF p3(2)] by (simp add: at_char_def)
        obtain ok ps4 where p4: "next_char len ps3 = Some (ok, ps4)" "moved 1 ps3 ps4" "pos_ok len ps4"
          "ok \<longrightarrow> at_char len ps4"
          by (rule next_char_ok [OF p3(3) at3]) (use q3 in \<open>simp add: passed_by_def\<close>)
        have q4: "passed_by r len ps (k + 1 + 1 + 1) a ps4" by (rule passed_by_moved [OF q3 p4(2,3)])
        show ?thesis
        proof (cases ok)
          case True
          have "high_surrogate lib len ps1 = Some (UContinue (ucs_char (ps_tok ps1)),
              ps4\<lparr>ps_tok := (ps_tok ps4)\<lparr>ucs_char := 0, st_pos := 0\<rparr>\<rparr>)"
            using unfold p2(1,4) False p3(1) p4(1) True by simp
          moreover have "passed_by r len ps (k + 3) a (ps4\<lparr>ps_tok := (ps_tok ps4)\<lparr>ucs_char := 0, st_pos := 0\<rparr>\<rparr>)"
            using passed_by_fields(1) [OF q4] by (simp add: numeral_3_eq_3)
          ultimately show ?thesis
            using p4(4) True a(1) by (auto simp: uni_post_def at_char_def)
        next
          case stop: False
          have "high_surrogate lib len ps1 = Option.bind (append_fast lib utf8_replacement_char ps4) (\<lambda>ps. Some (UOut, ps))"
            using unfold p2(1,4) False p3(1) p4(1) stop by simp
          then show ?thesis using out [OF q4] a(1) by simp
        qed
      qed
    qed
  qed
qed


lemma unicode_char_good:
  assumes p: "passed_by r len ps k a ps1" and at: "at_char len ps1" and a: "a + 20 \<le> potential len ps"
  shows "uni_post r len ps k (a + 9) (unicode_char lib len hi ps1)"
proof -
  obtain ps2 b where p2: "(if hi \<noteq> 0 then
            if IS_LOW_SURROGATE (ucs_char (ps_tok ps1)) then
              Some (upd_tok (\<lambda>t. t\<lparr>ucs_char := DECODE_SURROGATE_PAIR hi (ucs_char t)\<rparr>) ps1)
            else append_fast lib utf8_replacement_char ps1
          else Some ps1) = Some ps2" "passed_by r len ps k b ps2" "b \<le> a + 3" "at_char len ps2"
  proof -
    have "a + length utf8_replacement_char \<le> potential len ps" using a utf8_bytes(1) by simp
    then obtain ps3 where p3: "append_fast lib utf8_replacement_char ps1 = Some ps3"
      "passed_by r len ps k (a + length utf8_replacement_char) ps3" "at_char len ps3 = at_char len ps1"
      by (rule passed_by_append [OF p])
    have "passed_by r len ps k a (upd_tok (\<lambda>t. t\<lparr>ucs_char := DECODE_SURROGATE_PAIR hi (ucs_char t)\<rparr>) ps1)"
      by (rule passed_by_fields(2) [OF p])
    then have q: "passed_by r len ps k a (ps1\<lparr>ps_tok := (ps_tok ps1)\<lparr>ucs_char := DECODE_SURROGATE_PAIR hi (ucs_char (ps_tok ps1))\<rparr>\<rparr>)"
      by simp
    show thesis
    proof (cases "hi \<noteq> 0 \<and> \<not> IS_LOW_SURROGATE (ucs_char (ps_tok ps1))")
      case True
      show thesis by (rule that [OF _ p3(2)]) (use True p3 at utf8_bytes(1) in simp_all)
    next
      case False
      show thesis
      proof (cases "hi \<noteq> 0")
        case True
        show thesis by (rule that [OF _ q]) (use True False at in \<open>simp_all add: at_char_def\<close>)
      next
        case False
        show thesis by (rule that [OF _ p]) (use False at in simp_all)
      qed
    qed
  qed
  have break: "uni_post r len ps k (a + 9) (Option.bind (append_fast lib bs ps2)
      (\<lambda>ps. Some (UBreak, upd_tok back_to_saved ps)))" if bs: "length bs \<le> 4" for bs
  proof -
    have "b + length bs \<le> potential len ps" using a bs p2(3) by simp
    then obtain ps3 where "append_fast lib bs ps2 = Some ps3"
      "passed_by r len ps k (b + length bs) ps3" "at_char len ps3 = at_char len ps2"
      by (rule passed_by_append [OF p2(2)])
    then show ?thesis using p2(3,4) bs by (auto simp: uni_post_def intro!: exI)
  qed
  have high: "uni_post r len ps k (a + 9) (high_surrogate lib len ps2)"
    using high_surrogate_good [OF p2(2,4), of "a + 6" lib] p2(3) a by (simp add: add.commute)
  show ?thesis
    using break [of "unescaped_utf (ucs_char (ps_tok ps2))"] break [of utf8_replacement_char] high utf8_bytes p2(1)
    by (auto simp: unicode_char_def Let_def)
qed

lemma unicode_loop_good:
  assumes g: "good r len ps" and s: "sr_state (top (ps_tok ps)) = st_escape_unicode"
  shows "passed_by r len ps k a ps1 \<Longrightarrow> at_char len ps1 \<Longrightarrow> a \<le> 12 * k \<Longrightarrow>
    0 \<le> st_pos (ps_tok ps1) \<Longrightarrow> st_pos (ps_tok ps1) \<le> 3 \<Longrightarrow> step_good r len ps (unicode_loop lib len hi ps1)"
proof (induction "length (ps_str ps1)" arbitrary: ps1 k a hi rule: less_induct)
  case less
  note p = less.prems(1) and at = less.prems(2)
  have room: "64 * k + 64 \<le> potential len ps" by (rule at_char_room [OF p at])
  show ?case
  proof (cases "strchr json_hex_chars (ps_c ps1)")
    case False
    then show ?thesis using fail_good [OF p g] by (simp add: unicode_loop.simps)
  next
    case True
    let ?w = "ucs_char (ps_tok ps1) + push_bit (nat ((3 - st_pos (ps_tok ps1)) * 4)) (word_of_int (jt_hexdigit (ps_c ps1)))"
    let ?t = "(ps_tok ps1)\<lparr>ucs_char := ?w, st_pos := st_pos (ps_tok ps1) + 1\<rparr>"
    let ?ps = "ps1\<lparr>ps_tok := ?t\<rparr>"
    have add: "add_hexdigit (ps_tok ps1) (ps_c ps1) = Some ?t"
      using less.prems(4,5) by (simp add: add_hexdigit_def)
    have q: "passed_by r len ps k a ?ps" by (rule passed_by_fields(1) [OF p])
    have atq: "at_char len ?ps" using at by (simp add: at_char_def)
    show ?thesis
    proof (cases "st_pos ?t = 4")
      case four: True
      have "a + 20 \<le> potential len ps" using room less.prems(3) by simp
      from unicode_char_good [OF q atq this, of lib hi]
      obtain fl ps2 where u: "unicode_char lib len hi ?ps = Some (fl, ps2)"
        "case fl of
          UBreak \<Rightarrow> \<exists>ps1 b. ps2 = upd_tok back_to_saved ps1 \<and> passed_by r len ps k b ps1 \<and> b \<le> a + 9 \<and> at_char len ps1
        | UOut \<Rightarrow> \<exists>k' b. passed_by r len ps k' b ps2
        | UContinue hi \<Rightarrow> \<exists>b. passed_by r len ps (k + 3) b ps2 \<and> b \<le> a + 9 \<and> at_char len ps2 \<and> st_pos (ps_tok ps2) = 0"
        unfolding uni_post_def by blast
      show ?thesis
      proof (cases fl)
        case (UContinue hi')
        then obtain b where b: "passed_by r len ps (k + 3) b ps2" "b \<le> a + 9" "at_char len ps2" "st_pos (ps_tok ps2) = 0"
          using u(2) by auto
        have "length (ps_str ps2) < length (ps_str ps1)"
          using unicode_char_shorter [of lib len hi ?ps hi' ps2] u(1) UContinue by simp
        moreover have "b \<le> 12 * (k + 3)" using b(2) less.prems(3) by simp
        ultimately have "step_good r len ps (unicode_loop lib len hi' ps2)"
          using less.hyps b by simp
        then show ?thesis using True add four u(1) UContinue by (subst unicode_loop.simps) simp
      next
        case UBreak
        then obtain ps3 b where b: "ps2 = upd_tok back_to_saved ps3" "passed_by r len ps k b ps3" "b \<le> a + 9" "at_char len ps3"
          using u(2) by auto
        have esc: "escape_state (sr_state (top (ps_tok ps)))" using s by (simp add: escape_state_def)
        note saved = escape_saved [OF g esc]
        have ended: "core_ok (ps_tok ps3)" "pb_terminated (tk_pb (ps_tok ps3))"
          using b(2) saved(3) by (simp_all add: passed_by_def)
        have "step_good r len ps (Some (Brk, ps2))" unfolding b(1)
          by (rule brk_post [OF b(2) g b(4) _ saved_ok [OF ended(1) passed_by_top [OF b(2)] saved(1,2) ended(2)]])
            (use b(3) less.prems(3) in \<open>simp_all add: back_to_saved_def\<close>)
        then show ?thesis using True add four u(1) UBreak by (subst unicode_loop.simps) simp
      next
        case UOut
        then obtain k' b where "passed_by r len ps k' b ps2" using u(2) by auto
        then have "step_good r len ps (Some (Out, ps2))" by (rule out_same [OF _ g])
        then show ?thesis using True add four u(1) UOut by (subst unicode_loop.simps) simp
      qed
    next
      case more: False
      have core: "core_ok (ps_tok ?ps)" using q by (simp add: passed_by_def)
      have pos: "pos_ok len ?ps" using q by (simp add: passed_by_def)
      obtain ok ps2 where n: "next_char len ?ps = Some (ok, ps2)" "moved 1 ?ps ps2" "pos_ok len ps2"
        "ok \<longrightarrow> at_char len ps2"
        by (rule next_char_ok [OF pos atq core])
      have q2: "passed_by r len ps (k + 1) a ps2" by (rule passed_by_moved [OF q n(2,3)])
      show ?thesis
      proof (cases ok)
        case ok: True
        have "length (ps_str ps2) < length (ps_str ps1)" using next_char_shorter [OF n(1)] by simp
        moreover have "st_pos (ps_tok ps2) = st_pos (ps_tok ps1) + 1" using movedD(9) [OF n(2)] by simp
        ultimately have "step_good r len ps (unicode_loop lib len hi ps2)"
          using less.hyps [OF _ q2] n(4) ok less.prems(3-5) more by simp
        then show ?thesis using True add more n(1) ok by (subst unicode_loop.simps) simp
      next
        case stop: False
        have "step_good r len ps (Option.bind (append_fast lib utf8_replacement_char ps2) (\<lambda>ps. Some (Out, ps)))"
          by (rule append_out [OF q2 g]) (use room less.prems(3) utf8_bytes(1) in simp)
        moreover have "map_option (Pair Out) m = Option.bind m (\<lambda>ps. Some (Out, ps))" for m :: "pst option"
          by (cases m) simp_all
        ultimately show ?thesis
          using True add more n(1) stop out_same [OF q2 g] by (subst unicode_loop.simps) simp
      qed
    qed
  qed
qed

lemma step_escape_unicode_good:
  assumes g: "good r len ps" and s: "sr_state (top (ps_tok ps)) = st_escape_unicode"
  shows "step_good r len ps (step_escape_unicode lib len ps)"
  using unicode_loop_good [OF g s passed_by_start [OF g] goodD(2) [OF g]] goodD(9) [OF g] s
  by (simp add: step_escape_unicode_def digits_ok_def)


section \<open>Numbers, arrays, objects\<close>

lemma number_value_good:
  assumes p: "passed_by r len ps k a ps1" and g: "good r len ps" and at: "at_char len ps1"
    and a: "a \<le> k" and s: "sr_state (top (ps_tok ps)) = st_number"
  shows "step_good r len ps (number_value lib len ps1)"
proof -
  have ended: "pb_terminated (tk_pb (ps_tok ps1))" "pb_inv (tk_pb (ps_tok ps1))"
    using p goodD(10) [OF g] s by (auto simp: passed_by_def budget_def pb_room_def texty_def)
  have "rank (top (ps_tok ps)) = 7" using s by (simp add: rank_def)
  then have fin: "step_good r len ps (finish_with lib v ps1)" for v
    by (intro finish_with_good [OF p g at]) (use a in simp_all)
  show ?thesis
    using read_cstr_terminated [OF ended(2,1)] fin fail_good [OF p g]
    by (simp add: number_value_def split: option.split)
qed

lemma step_number_good:
  assumes g: "good r len ps" and s: "sr_state (top (ps_tok ps)) = st_number"
  shows "step_good r len ps (step_number lib len ps)"
proof -
  note G = goodD [OF g]
  obtain ok k ps1 where sc: "scan number_eff (\<lambda>c. \<not> (c \<noteq> NUL \<and> strchr json_number_chars c)) len ps = Some (ok, ps1)"
    "passed_by r len ps k 0 ps1" "ok \<longrightarrow> at_char len ps1 \<and> \<not> (ps_c ps1 \<noteq> NUL \<and> strchr json_number_chars (ps_c ps1))"
    "length (passed (ps_str ps) ps1) \<le> k"
    by (rule scan_start [OF g mild_simps(2)])
  let ?n = "passed (ps_str ps) ps1"
  note room = passed_room [OF sc(2) g]
  have len: "0 + length ?n \<le> potential len ps" using sc(4) room by simp
  show ?thesis
  proof (cases ok)
    case False
    have "step_good r len ps (Option.bind (append_fast lib ?n ps1) (\<lambda>ps. Some (Out, ps)))"
      by (rule append_out [OF sc(2) g len])
    then show ?thesis using sc(1) False by (simp add: step_number_def Let_def)
  next
    case True
    obtain ps2 a where p2: "(if length ?n > 0 then append_fast lib ?n ps1 else Some ps1) = Some ps2"
      "passed_by r len ps k a ps2" "a \<le> k" "at_char len ps2"
    proof -
      obtain ps3 where "append_fast lib ?n ps1 = Some ps3" "passed_by r len ps k (0 + length ?n) ps3"
        "at_char len ps3 = at_char len ps1"
        by (rule passed_by_append [OF sc(2) len])
      then show thesis
        using that [of ps3 "length ?n"] that [of ps1 0] sc(2-4) True by (cases "length ?n > 0") simp_all
    qed
    have ended: "pb_terminated (tk_pb (ps_tok ps2))" "pb_inv (tk_pb (ps_tok ps2))"
      using p2(2) G(10) s by (auto simp: passed_by_def budget_def pb_room_def texty_def)
    have core: "core_ok (ps_tok ps2)" using p2(2) by (simp add: passed_by_def)
    have inf: "step_good r len ps (leave Redo (goto_state st_inf) ps2)"
      unfolding leave_def
      by (rule redo_post [OF p2(2) g p2(4)])
        (use p2(3) core ended s in \<open>simp_all add: tok_simps\<close>)
    have num: "step_good r len ps (number_value lib len ps2)"
      by (rule number_value_good [OF p2(2) g p2(4,3) s])
    have eq: "step_number lib len ps = (if c_hd (cstr (pb_str (tk_pb (ps_tok ps2)))) = CHR ''-'' \<and> length ?n = 1
          \<and> (ps_c ps2 = CHR ''i'' \<or> ps_c ps2 = CHR ''I'')
        then leave Redo (goto_state st_inf) ps2 else number_value lib len ps2)"
      using sc(1) True p2(1) read_cstr_terminated [OF ended(2,1)]
      by (simp add: step_number_def Let_def split: if_split_asm)
    show ?thesis unfolding eq using inf num by simp
  qed
qed

text \<open>One level down.\<close>

lemma descend_good:
  assumes g: "good r len ps" and s: "rank (top (ps_tok ps)) = 24"
    and x: "x \<in> {st_array_add, st_object_value_add}" "needs x (top (ps_tok ps))"
  shows "step_good r len ps (descend x ps)"
proof -
  note G = goodD [OF g]
  let ?t = "ps_tok ps"
  show ?thesis
  proof (cases "tk_depth ?t \<ge> max_depth ?t - 1")
    case True
    then show ?thesis using fail_start [OF g] by (simp add: descend_def Let_def)
  next
    case False
    let ?blank = "\<lparr>sr_state = st_eatws, sr_saved = st_start, sr_current = JNull, sr_field_name = None\<rparr>"
    let ?g = "(goto_state x ?t)\<lparr>tk_depth := tk_depth ?t + 1\<rparr>"
    let ?t' = "?g\<lparr>tk_stack := (tk_stack ?g)[nat (tk_depth ?t + 1) := ?blank]\<rparr>"
    let ?ps = "ps\<lparr>ps_tok := ?t'\<rparr>"
    have d: "0 \<le> tk_depth ?t" "tk_depth ?t + 1 < int (length (tk_stack ?t))"
      "nat (tk_depth ?t + 1) = Suc (nat (tk_depth ?t))"
      using False G(4) by (auto simp: core_ok_def)
    have eq: "descend x ps = Some (Redo, ?ps)"
      using False d by (simp add: descend_def Let_def json_tokener_reset_level_def level_ok_def goto_state_def)
    have stack: "tk_stack ?t' = (tk_stack ?t)[nat (tk_depth ?t) := (top ?t)\<lparr>sr_state := x\<rparr>, Suc (nat (tk_depth ?t)) := ?blank]"
      using d(3) by (simp add: goto_state_def set_top_def)
    have top': "top ?t' = ?blank"
      unfolding top_def stack using d by simp
    have "needs s' (r'\<lparr>sr_state := s''\<rparr>) = needs s' r'" for s' s'' r' by (cases s') simp_all
    then have "below_ok ((top ?t)\<lparr>sr_state := x\<rparr>)" using x by (auto simp: below_ok_def)
    then have below: "below_ok (tk_stack ?t' ! i)" if "i < Suc (nat (tk_depth ?t))" for i
      unfolding stack using that G(4) d by (cases "i = nat (tk_depth ?t)") (auto simp: core_ok_def)
    have "tk_depth ?t' = tk_depth ?t + 1" "max_depth ?t' = max_depth ?t" "length (tk_stack ?t') = length (tk_stack ?t)"
      by (simp_all add: goto_state_def)
    then have core: "core_ok ?t'" using below G(4) d unfolding core_ok_def by simp
    have ok: "tok_ok ?t'" "digits_ok ?t'" using core top' by (simp_all add: tok_simps)
    have "potential len ?ps = 64 * nat (len - char_offset ?t) + 12 * nat (tk_depth ?t + 1) + 9"
      unfolding potential_def using top' by (simp add: rank_def goto_state_def)
    moreover have "potential len ps = 64 * nat (len - char_offset ?t) + 12 * nat (tk_depth ?t) + 24"
      using s by (simp add: potential_def)
    ultimately have lt: "potential len ?ps < potential len ps" using d(3) by simp
    have "budget (r + potential len ?ps) ?ps"
      using G(6) lt pb_room_mono by (auto simp: budget_def goto_state_def)
    then show ?thesis
      unfolding eq step_good_def step_post_def
      using ok lt G(1,2) by (auto simp: pos_ok_def at_char_def goto_state_def)
  qed
qed

text \<open>The states of arrays and objects.\<close>

lemma needs_upd [simp]:
  "needs s (rc\<lparr>sr_state := a\<rparr>) = needs s rc" "needs s (rc\<lparr>sr_saved := b\<rparr>) = needs s rc"
  by (cases s; simp)+

lemma to_eatws_brk:
  assumes g: "good r len ps" and x: "resting x" "needs x (top (ps_tok ps))"
  shows "step_good r len ps (leave Brk (eatws_then x) ps)"
  unfolding leave_def
  by (rule brk_start [OF g]) (use x goodD(4) [OF g] in \<open>simp_all add: tok_ok_def top_ok_def blank_state_def
    texty_def digits_ok_def eatws_then_def\<close>)

lemma step_array_good:
  assumes g: "good r len ps" and s: "sr_state (top (ps_tok ps)) \<in> {st_array, st_array_after_sep}"
  shows "step_good r len ps (step_array lib len ps)"
proof -
  have n: "is_array (sr_current (top (ps_tok ps)))" and k: "rank (top (ps_tok ps)) = 24"
    using goodD(5) [OF g] s by (auto simp: tok_simps)
  have "step_good r len ps (leave Brk (eatws_then st_finish) ps)"
    by (rule to_eatws_brk [OF g]) (simp_all add: resting_def)
  moreover have "step_good r len ps (descend st_array_add ps)"
    by (rule descend_good [OF g k]) (simp_all add: n)
  ultimately show ?thesis using fail_start [OF g] by (simp add: step_array_def)
qed

lemma step_array_add_good:
  assumes g: "good r len ps" and s: "sr_state (top (ps_tok ps)) = st_array_add"
  shows "step_good r len ps (step_array_add lib len ps)"
proof -
  note G = goodD [OF g]
  obtain vs where vs: "sr_current (top (ps_tok ps)) = JArray vs"
    using G(5) s by (cases "sr_current (top (ps_tok ps))") (auto simp: tok_simps)
  have "step_good r len ps (leave Redo (eatws_then st_array_sep \<circ> set_current (JArray us)) ps)" for us
    unfolding leave_def
    by (rule redo_post [OF passed_by_start [OF g] g G(2)]) (use s G(4) in \<open>simp_all add: tok_simps\<close>)
  then show ?thesis using vs by (simp add: step_array_add_def)
qed

lemma step_array_sep_good:
  assumes g: "good r len ps" and s: "sr_state (top (ps_tok ps)) = st_array_sep"
  shows "step_good r len ps (step_array_sep lib len ps)"
proof -
  have "is_array (sr_current (top (ps_tok ps)))" using goodD(5) [OF g] s by (auto simp: tok_simps)
  then have "step_good r len ps (leave Brk (eatws_then x) ps)" if "x \<in> {st_finish, st_array_after_sep}" for x
    by (intro to_eatws_brk [OF g]) (use that in \<open>auto simp: resting_def\<close>)
  then show ?thesis using fail_start [OF g] by (simp add: step_array_sep_def)
qed

lemma step_object_field_start_good:
  assumes g: "good r len ps"
    and s: "sr_state (top (ps_tok ps)) \<in> {st_object_field_start, st_object_field_start_after_sep}"
  shows "step_good r len ps (step_object_field_start lib len ps)"
proof -
  note G = goodD [OF g]
  have n: "is_object (sr_current (top (ps_tok ps)))" using G(5) s by (auto simp: tok_simps)
  have "step_good r len ps (leave Brk (eatws_then st_finish) ps)"
    by (rule to_eatws_brk [OF g]) (simp_all add: resting_def)
  moreover have "step_good r len ps (Option.bind (pb_reset (upd_tok (\<lambda>t. t\<lparr>quote_char := q\<rparr>) ps))
      (leave Brk (goto_state st_object_field)))" for q
  proof -
    let ?ps = "upd_tok (\<lambda>t. t\<lparr>quote_char := q\<rparr>) ps"
    have p: "passed_by r len ps 0 0 ?ps"
      using passed_by_start [OF g] by (simp add: passed_by_def pos_ok_def budget_def)
    obtain ps2 where p2: "pb_reset ?ps = Some ps2" "passed_by r len ps 0 0 ps2" "pb_terminated (tk_pb (ps_tok ps2))"
      "at_char len ps2 = at_char len ?ps"
      by (rule passed_by_reset [OF p g])
    have "core_ok (ps_tok ps2)" using p2(2) by (simp add: passed_by_def)
    then have "step_good r len ps (leave Brk (goto_state st_object_field) ps2)"
      unfolding leave_def
      by (intro brk_post [OF p2(2) g])
        (use p2 n G(2) passed_by_top [OF p2(2)] in \<open>simp_all add: tok_simps at_char_def\<close>)
    then show ?thesis using p2(1) by simp
  qed
  ultimately show ?thesis using fail_start [OF g] by (simp add: step_object_field_start_def Let_def)
qed

lemma step_object_field_end_good:
  assumes g: "good r len ps" and s: "sr_state (top (ps_tok ps)) = st_object_field_end"
  shows "step_good r len ps (step_object_field_end lib len ps)"
proof -
  have "needs st_object_value (top (ps_tok ps))" using goodD(5) [OF g] s by (auto simp: tok_simps)
  then have "step_good r len ps (leave Brk (eatws_then st_object_value) ps)"
    by (intro to_eatws_brk [OF g]) (simp_all add: resting_def)
  then show ?thesis using fail_start [OF g] by (simp add: step_object_field_end_def)
qed

lemma step_object_value_good:
  assumes g: "good r len ps" and s: "sr_state (top (ps_tok ps)) = st_object_value"
  shows "step_good r len ps (step_object_value lib len ps)"
  unfolding step_object_value_def
  by (rule descend_good [OF g]) (use goodD(5) [OF g] s in \<open>auto simp: tok_simps\<close>)

lemma step_object_value_add_good:
  assumes g: "good r len ps" and s: "sr_state (top (ps_tok ps)) = st_object_value_add" and m: "mem_safe lib"
  shows "step_good r len ps (step_object_value_add lib len ps)"
proof -
  note G = goodD [OF g]
  obtain kvs key where kv: "sr_current (top (ps_tok ps)) = JObject kvs" "sr_field_name (top (ps_tok ps)) = Some key"
    using G(5) s by (cases "sr_current (top (ps_tok ps))") (auto simp: tok_simps)
  have "step_good r len ps (leave Redo (eatws_then st_object_sep
      \<circ> set_top (\<lambda>r. r\<lparr>sr_current := JObject (field_put kvs key (ps_obj ps)), sr_field_name := None\<rparr>)) ps)"
    unfolding leave_def
    by (rule redo_post [OF passed_by_start [OF g] g G(2)]) (use s G(4) in \<open>simp_all add: tok_simps\<close>)
  then show ?thesis using kv m by (simp add: step_object_value_add_def mem_safe_def)
qed

lemma step_object_sep_good:
  assumes g: "good r len ps" and s: "sr_state (top (ps_tok ps)) = st_object_sep"
  shows "step_good r len ps (step_object_sep lib len ps)"
proof -
  have "is_object (sr_current (top (ps_tok ps)))" using goodD(5) [OF g] s by (auto simp: tok_simps)
  then have "step_good r len ps (leave Brk (eatws_then x) ps)"
    if "x \<in> {st_finish, st_object_field_start_after_sep}" for x
    by (intro to_eatws_brk [OF g]) (use that in \<open>auto simp: resting_def\<close>)
  then show ?thesis using fail_start [OF g] by (simp add: step_object_sep_def)
qed

text \<open>Every state.\<close>

lemma tok_step_good:
  assumes g: "good r len ps" and m: "mem_safe lib"
  shows "step_good r len ps (tok_step lib len ps)"
  using core_level [OF goodD(4) [OF g]]
    step_eatws_good [OF g] step_start_good [OF g _ m] step_finish_good [OF g] step_inf_good [OF g]
    step_null_good [OF g] step_boolean_good [OF g] step_comment_start_good [OF g] step_comment_good [OF g]
    step_comment_eol_good [OF g] step_comment_end_good [OF g] step_string_good [OF g]
    step_string_escape_good [OF g] step_escape_unicode_good [OF g] step_number_good [OF g]
    step_array_good [OF g] step_array_add_good [OF g] step_array_sep_good [OF g]
    step_object_field_start_good [OF g] step_object_field_good [OF g _ m] step_object_field_end_good [OF g]
    step_object_value_good [OF g] step_object_value_add_good [OF g _ m] step_object_sep_good [OF g]
  by (cases "sr_state (top (ps_tok ps))") (simp_all add: tok_step_def)

end
