(* ===== verification/Tokener_Safe.thy ===== *)
theory Tokener_Safe
  imports Tokener_Steps
begin

text \<open>
  A call of \<open>json_tokener_parse_ex\<close> with the length of its input (\<open>json_tokener.c\<close>): it returns,
  whatever the bytes are and whether or not the buffer can grow, it never reads past the length,
  and what it leaves is well-formed again, so that the input can be given in several calls. The
  allocations of containers and names have to succeed (\<open>mem_safe\<close>), which the code does not check.
\<close>

section \<open>The loop\<close>

definition turn_ok :: "nat \<Rightarrow> int \<Rightarrow> bool \<Rightarrow> pst \<Rightarrow> bool" where
  "turn_ok r len redo ps \<longleftrightarrow> pos_ok len ps \<and> tok_ok (ps_tok ps) \<and> digits_ok (ps_tok ps)
     \<and> budget (r + potential len ps) ps \<and> r < 2 ^ 27 \<and> (redo \<longrightarrow> at_char len ps)"

definition ended :: "nat \<Rightarrow> int \<Rightarrow> pst \<Rightarrow> bool" where
  "ended r len ps \<longleftrightarrow> pos_ok len ps \<and> tok_ok (ps_tok ps) \<and> budget r ps"

definition turn_post :: "nat \<Rightarrow> int \<Rightarrow> pst \<Rightarrow> bool option \<Rightarrow> pst \<Rightarrow> bool" where
  "turn_post r len ps next ps' \<longleftrightarrow>
     (case next of None \<Rightarrow> ended r len ps'
      | Some redo \<Rightarrow> turn_ok r len redo ps' \<and> potential len ps' < potential len ps)"

text \<open>A turn that has its character.\<close>

lemma turn_of_char:
  assumes g: "good r len ps" and m: "mem_safe lib"
  obtains nxt ps' where "parse_turn lib len True ps = Some (nxt, ps')" "turn_post r len ps nxt ps'"
proof -
  obtain fl ps1 where st: "tok_step lib len ps = Some (fl, ps1)" "step_post r len ps fl ps1"
    using tok_step_good [OF g m] by (auto simp: step_good_def)
  have r: "r < 2 ^ 27" using g by (simp add: good_def)
  show thesis
  proof (cases fl)
    case Out
    then have "turn_post r len ps None ps1" using st(2) by (simp add: step_post_def turn_post_def ended_def)
    then show thesis using that st(1) Out by (simp add: parse_turn_def)
  next
    case Redo
    then have "turn_post r len ps (Some True) ps1"
      using st(2) r by (simp add: step_post_def turn_post_def turn_ok_def)
    then show thesis using that st(1) Redo by (simp add: parse_turn_def)
  next
    case Brk
    then have p: "pos_ok len ps1" "at_char len ps1" "tok_ok (ps_tok ps1)" "digits_ok (ps_tok ps1)"
      "potential len ps1 < potential len ps + 64" "budget (r + potential len ps1 - 64) ps1"
      using st(2) by (simp_all add: step_post_def)
    obtain ps2 where a: "ADVANCE_CHAR ps1 = Some (ps_c ps1 \<noteq> NUL, ps2)" "moved 1 ps1 ps2" "pos_ok len ps2"
      using p(1,2) by (rule advance_ok)
    have pot: "potential len ps2 + 64 = potential len ps1" using moved_potential [OF a(2) p(1) a(3)] by simp
    have b: "budget (r + potential len ps2) ps2"
      using p(6) pot movedD(16) [OF a(2)] budget_mono by (metis add.assoc add_diff_cancel_right')
    have t: "turn_ok r len False ps2" "ended r len ps2"
      using a(3) p(3,4) movedD(14,15) [OF a(2)] b r budget_mono [OF b, of r] by (simp_all add: turn_ok_def ended_def)
    have "turn_post r len ps (if ps_c ps1 \<noteq> NUL then Some False else None) ps2"
      using t pot p(5) by (simp add: turn_post_def)
    then show thesis using that st(1) Brk a(1) by (simp add: parse_turn_def)
  qed
qed

lemma parse_turn_ok:
  assumes t: "turn_ok r len redo ps" and m: "mem_safe lib"
  obtains nxt ps' where "parse_turn lib len redo ps = Some (nxt, ps')" "turn_post r len ps nxt ps'"
proof (cases redo)
  case True
  then have "good r len ps" using t by (simp add: turn_ok_def good_def)
  then show thesis using m by (rule turn_of_char) (use True that in simp)
next
  case False
  have "pos_ok len ps" "core_ok (ps_tok ps)" using t by (simp_all add: turn_ok_def tok_ok_def)
  then obtain ps1 where p: "PEEK_CHAR len ps = Some (at_char len ps, ps1)" "moved 0 ps ps1" "pos_ok len ps1"
    "at_char len ps1 = at_char len ps"
    by (rule peek_ok)
  have pot: "potential len ps1 = potential len ps"
    using moved_potential [OF p(2) _ p(3)] t by (simp add: turn_ok_def)
  have b: "budget (r + potential len ps1) ps1" "tok_ok (ps_tok ps1)" "digits_ok (ps_tok ps1)" "r < 2 ^ 27"
    using t movedD(14-16) [OF p(2)] pot by (simp_all add: turn_ok_def)
  show thesis
  proof (cases "at_char len ps")
    case True
    then have "good r len ps1" using p(3,4) b by (simp add: good_def)
    then obtain nxt ps' where n: "parse_turn lib len True ps1 = Some (nxt, ps')" "turn_post r len ps1 nxt ps'"
      using m by (rule turn_of_char)
    have "parse_turn lib len redo ps = Some (nxt, ps')" using n(1) p(1) True False by (simp add: parse_turn_def)
    then show thesis using that n(2) pot by (simp add: turn_post_def split: option.splits)
  next
    case ended: False
    have "turn_post r len ps None ps1"
      using p(3) b budget_mono [OF b(1), of r] by (simp add: turn_post_def ended_def)
    then show thesis using that p(1) ended False by (simp add: parse_turn_def)
  qed
qed

lemma parse_loop_returns:
  "mem_safe lib \<Longrightarrow> turn_ok r len redo ps \<Longrightarrow> \<exists>ps'. parse_loop lib len redo ps = Some ps' \<and> ended r len ps'"
proof (induction "potential len ps" arbitrary: redo ps rule: less_induct)
  case less
  obtain nxt ps1 where t: "parse_turn lib len redo ps = Some (nxt, ps1)" "turn_post r len ps nxt ps1"
    using less.prems(2,1) by (rule parse_turn_ok)
  show ?case
  proof (cases nxt)
    case None
    then show ?thesis using t by (subst parse_loop.simps) (simp add: turn_post_def)
  next
    case (Some redo')
    then have "turn_ok r len redo' ps1" "potential len ps1 < potential len ps"
      using t(2) by (simp_all add: turn_post_def)
    then show ?thesis using less.hyps less.prems(1) t(1) Some by (subst parse_loop.simps) simp
  qed
qed

section \<open>After the loop\<close>

definition fresh_level :: srec where
  "fresh_level = \<lparr>sr_state = st_eatws, sr_saved = st_start, sr_current = JNull, sr_field_name = None\<rparr>"

lemma reset_levels_stack:
  "n \<le> length (tk_stack t) \<Longrightarrow>
   reset_levels t n = Some (t\<lparr>tk_stack := replicate n fresh_level @ drop n (tk_stack t)\<rparr>)"
proof (induction n arbitrary: t)
  case (Suc n)
  have "(replicate n fresh_level @ drop n ((tk_stack t)[n := fresh_level]))
      = replicate (Suc n) fresh_level @ drop (Suc n) (tk_stack t)"
    using Suc.prems by (simp add: drop_update_cancel Cons_nth_drop_Suc [symmetric] replicate_app_Cons_same
        nth_list_update)
  then show ?case
    using Suc.prems Suc.IH [of "t\<lparr>tk_stack := (tk_stack t)[n := fresh_level]\<rparr>"]
    by (simp add: json_tokener_reset_level_def level_ok_def fresh_level_def)
qed simp

lemma fresh_level_ok: "top_ok fresh_level" "below_ok fresh_level" "sr_state fresh_level = st_eatws"
  by (simp_all add: fresh_level_def top_ok_def below_ok_def blank_state_def resting_def)

lemma reset_levels_tok_ok:
  assumes "core_ok t"
  obtains t' where "reset_levels t (nat (tk_depth t + 1)) = Some t'" "tok_ok t'" "digits_ok t'"
    "tk_pb t' = tk_pb t" "char_offset t' = char_offset t" "tk_err t' = tk_err t" "max_depth t' = max_depth t"
proof -
  let ?n = "nat (tk_depth t + 1)"
  let ?t = "t\<lparr>tk_stack := replicate ?n fresh_level @ drop ?n (tk_stack t)\<rparr>"
  have n: "?n \<le> length (tk_stack t)" "nat (tk_depth t) < ?n" using assms by (auto simp: core_ok_def)
  have "core_ok ?t" using assms n fresh_level_ok by (auto simp: core_ok_def nth_append)
  moreover have "top ?t = fresh_level" using n by (simp add: top_def nth_append)
  ultimately have "tok_ok ?t" "digits_ok ?t"
    using fresh_level_ok by (simp_all add: tok_ok_def digits_ok_def texty_def)
  then show thesis using that [OF reset_levels_stack [OF n(1)]] by simp
qed

lemma parse_out_ok:
  assumes "ended r len ps"
  obtains v t where "parse_out ps = Some (v, t)" "tok_ok t" "0 \<le> char_offset t" "char_offset t \<le> len"
    "pb_room r (tk_pb t)" "tk_err t \<noteq> json_tokener_success \<longrightarrow> v = JNull"
    "tk_err t = json_tokener_success \<longrightarrow> digits_ok t"
proof -
  have e: "core_ok (ps_tok ps)" "tok_ok (ps_tok ps)" "0 \<le> char_offset (ps_tok ps)" "char_offset (ps_tok ps) \<le> len"
    "pb_room r (tk_pb (ps_tok ps))"
    using assms by (simp_all add: ended_def tok_ok_def pos_ok_def budget_def)
  let ?top = "top (ps_tok ps)" and ?c = "ps_c ps"
  define er1 where "er1 = (if ?c \<noteq> NUL \<and> sr_state ?top = st_finish \<and> tk_depth (ps_tok ps) = 0 \<and> strict (ps_tok ps)
    then json_tokener_error_parse_unexpected else tk_err (ps_tok ps))"
  define er where "er = (if ?c = NUL \<and> sr_state ?top \<noteq> st_finish \<and> sr_saved ?top \<noteq> st_finish
    then json_tokener_error_parse_eof else er1)"
  have same: "t\<lparr>tk_err := json_tokener_success\<rparr> = t" if "tk_err t = json_tokener_success" for t :: json_tokener
    using that by (cases t) simp
  have out: "parse_out ps =
      (let t = (ps_tok ps)\<lparr>tk_err := er\<rparr> in
       if er = json_tokener_success
       then Option.bind (reset_levels t (nat (tk_depth t + 1))) (\<lambda>t'. Some (sr_current (top t), t'))
       else Some (JNull, t))"
    using core_level [OF e(1)] by (auto simp: same parse_out_def Let_def er_def er1_def)
  let ?t = "(ps_tok ps)\<lparr>tk_err := er\<rparr>"
  show thesis
  proof (cases "er = json_tokener_success")
    case True
    have "core_ok ?t" using e(1) by simp
    then obtain t' where t': "reset_levels ?t (nat (tk_depth ?t + 1)) = Some t'" "tok_ok t'" "digits_ok t'"
      "tk_pb t' = tk_pb ?t" "char_offset t' = char_offset ?t" "tk_err t' = tk_err ?t"
      by (rule reset_levels_tok_ok)
    then show thesis using that [of _ t'] out True e by (simp add: Let_def)
  next
    case False
    have "tok_ok ?t" using e(2) by (simp add: tok_ok_def)
    then show thesis using that [of JNull ?t] out False e by (simp add: Let_def)
  qed
qed

section \<open>The call\<close>

text \<open>
  Room for \<open>r\<close> more bytes of buffer, beside what the input of length \<open>len\<close> can need.
\<close>

definition call_room :: "nat \<Rightarrow> json_tokener \<Rightarrow> int \<Rightarrow> nat" where
  "call_room r t len = r + 64 * nat len + 12 * nat (max_depth t) + 25"

lemma parse_ex_returns:
  assumes t: "tok_ok t" "digits_ok t" "pb_room (call_room r t len) (tk_pb t)" "r < 2 ^ 27"
    and len: "0 \<le> len" "len \<le> int (length s)" "len < 2 ^ 20" and m: "mem_safe lib"
  obtains v t' where "json_tokener_parse_ex lib t s len = Some (v, t')" "tok_ok t'" "pb_room r (tk_pb t')"
    "0 \<le> char_offset t'" "char_offset t' \<le> len" "tk_err t' \<noteq> json_tokener_success \<longrightarrow> v = JNull"
    "tk_err t' = json_tokener_success \<longrightarrow> digits_ok t'"
proof -
  let ?t = "t\<lparr>char_offset := 0, tk_err := json_tokener_success\<rparr>"
  let ?ps = "\<lparr>ps_tok = ?t, ps_str = s, ps_c = CHR 0x01, ps_obj = JNull\<rparr>"
  have ok: "tok_ok ?t" "digits_ok ?t" using t(1,2) by (simp_all add: tok_ok_def digits_ok_def)
  have "tk_depth t \<le> max_depth t" using t(1) by (simp add: tok_ok_def core_ok_def)
  then have "nat (tk_depth t) \<le> nat (max_depth t)" by simp
  then have "potential len ?ps \<le> 64 * nat len + 12 * nat (max_depth t) + 25"
    using rank_le [of "top ?t"] by (simp add: potential_def)
  then have "turn_ok r len False ?ps"
    using ok t(3,4) len pb_room_mono by (auto simp: turn_ok_def pos_ok_def budget_def call_room_def)
  then obtain ps' where l: "parse_loop lib len False ?ps = Some ps'" "ended r len ps'"
    using parse_loop_returns [OF m] by blast
  then show thesis
    using that len(1) by (elim parse_out_ok) (simp add: json_tokener_parse_ex_def)
qed

lemma fresh_tokener_ok:
  assumes d: "0 < d" "d < 2 ^ 20" and t: "json_tokener_new_ex mem al d = Some (Some t)" "al 32" and n: "n < 2 ^ 28"
  shows "tok_ok t" "digits_ok t" "pb_room n (tk_pb t)" "max_depth t = d" "tk_depth t = 0"
proof -
  obtain p where p: "printbuf_new al = Some p" using t(2) by (simp add: printbuf_new_def)
  let ?z = "\<lparr>sr_state = st_eatws, sr_saved = st_eatws, sr_current = JNull, sr_field_name = None\<rparr>"
  obtain m where m: "nat d = Suc m" using d(1) by (cases "nat d") auto
  have eq: "tk_pb t = p" "max_depth t = d" "tk_depth t = 0" "tk_stack t = fresh_level # replicate m ?z"
    using t(1) p m by (auto split: if_splits simp: json_tokener_new_ex_def json_tokener_reset_def json_tokener_reset_level_def
        level_ok_def fresh_level_def)
  have "core_ok t" using eq d m by (simp add: core_ok_def)
  moreover have "top t = fresh_level" using eq by (simp add: top_def)
  ultimately show "tok_ok t" "digits_ok t" using fresh_level_ok by (simp_all add: tok_ok_def digits_ok_def texty_def)
  show "pb_room n (tk_pb t)" using printbuf_new_room [OF p n] eq(1) by simp
  show "max_depth t = d" "tk_depth t = 0" using eq by simp_all
qed

section \<open>Properties\<close>

text \<open>
  C6. A call with the length of its input, shorter than 2^20, on a well-formed tokener that was not left
  between the two halves of a surrogate pair (\<open>digits_ok\<close>: there the next call is undefined), while
  containers and names get memory (\<open>mem_safe\<close>): whatever the bytes, the flags, the numbers \<open>sscanf\<close>
  reads, and the outcomes of all other allocations, it returns, has read at most \<open>len\<close> bytes, leaves the
  tokener well-formed with \<open>r\<close> bytes of room in its buffer for later calls, and gives a value only with
  \<open>json_tokener_success\<close>; then, and wherever it stops outside an escape, the next call can follow.
\<close>

theorem json_tokener_parse_ex_safe:
  assumes "tok_ok t" "digits_ok t" "pb_room (call_room r t len) (tk_pb t)" "r < 2 ^ 27"
    and "0 \<le> len" "len \<le> int (length s)" "len < 2 ^ 20" "mem_safe lib"
  shows "\<exists>v t'. json_tokener_parse_ex lib t s len = Some (v, t') \<and> tok_ok t' \<and> pb_room r (tk_pb t')
    \<and> 0 \<le> char_offset t' \<and> char_offset t' \<le> len \<and> (tk_err t' \<noteq> json_tokener_success \<longrightarrow> v = JNull)
    \<and> (tk_err t' = json_tokener_success \<longrightarrow> digits_ok t')
    \<and> (sr_state (top t') \<noteq> st_escape_unicode \<longrightarrow> digits_ok t')"
  by (rule parse_ex_returns [OF assms]) (auto simp: digits_ok_def)

definition lib_plain :: libc where
  "lib_plain = \<lparr>realloc_ok = \<lambda>n. n < 4096, mem_at = \<lambda>use i. use \<noteq> Mem_scalar \<or> i < 100, sscanf_d = std_sscanf, sscanf_bad = False, sscanf_lf = \<lambda>s. None\<rparr>"

text \<open>A tokener with levels for depth 2, used for the input \<open>[nul\<close>, of which the call sees all 4 bytes.\<close>

definition small_tokener :: json_tokener where
  "small_tokener = the (the (json_tokener_new_ex True (\<lambda>n. True) 2))"

lemma small_tokener_new: "json_tokener_new_ex True (\<lambda>n. True) 2 = Some (Some small_tokener)"
  unfolding small_tokener_def
  by (simp add: json_tokener_new_ex_def printbuf_new_def json_tokener_reset_def json_tokener_reset_level_def level_ok_def)

lemma small_tokener_ok:
  "tok_ok small_tokener" "digits_ok small_tokener" "max_depth small_tokener = 2"
  "n < 2 ^ 28 \<Longrightarrow> pb_room n (tk_pb small_tokener)"
  by (rule fresh_tokener_ok [OF _ _ small_tokener_new, of 0], simp_all)+
    (rule fresh_tokener_ok [OF _ _ small_tokener_new], simp_all)

lemma lib_plain_safe: "mem_safe lib_plain"
  by (auto simp: mem_safe_def lib_plain_def)

theorem json_tokener_parse_ex_safe_witness:
  "\<exists>v t'. json_tokener_parse_ex lib_plain small_tokener ''[nul'' 4 = Some (v, t') \<and> tok_ok t' \<and> pb_room 7 (tk_pb t')
    \<and> 0 \<le> char_offset t' \<and> char_offset t' \<le> 4 \<and> (tk_err t' \<noteq> json_tokener_success \<longrightarrow> v = JNull)
    \<and> (tk_err t' = json_tokener_success \<longrightarrow> digits_ok t')
    \<and> (sr_state (top t') \<noteq> st_escape_unicode \<longrightarrow> digits_ok t')"
  by (rule json_tokener_parse_ex_safe) (simp_all add: call_room_def small_tokener_ok lib_plain_safe)

text \<open>
  C7. From a new tokener of any depth below 2^20 that got its buffer, \<open>json_tokener_parse_ex\<close> returns on
  every input shorter than 2^20 bytes given with its length, while containers and names get memory
  (\<open>mem_safe\<close>): the loop over the states ends.
\<close>

theorem json_tokener_parse_ex_returns:
  assumes "json_tokener_new_ex mem al d = Some (Some t)" "al 32" "mem_safe lib"
    and "0 < d" "d < 2 ^ 20" "length s < 2 ^ 20"
  shows "\<exists>v t'. json_tokener_parse_ex lib t s (int (length s)) = Some (v, t')"
proof -
  have n: "call_room 0 t (int (length s)) < 2 ^ 28"
    using fresh_tokener_ok(4) [OF assms(4,5,1,2), of 0] assms(5,6) by (simp add: call_room_def nat_less_iff)
  note t = fresh_tokener_ok [OF assms(4,5,1,2) n]
  have "int (length s) < 2 ^ 20" using assms(6) by simp
  then obtain v t' where "json_tokener_parse_ex lib t s (int (length s)) = Some (v, t')"
    by (rule parse_ex_returns [OF t(1-3) zero_less_power [OF zero_less_numeral] of_nat_0_le_iff order_refl _ assms(3)])
  then show ?thesis by blast
qed

theorem json_tokener_parse_ex_returns_witness:
  "\<exists>v t'. json_tokener_parse_ex lib_plain small_tokener ''{'' (int (length ''{'')) = Some (v, t')"
  by (rule json_tokener_parse_ex_returns [OF small_tokener_new]) (simp_all add: lib_plain_safe)

declare parse_loop.simps [code]

text \<open>Without these allocations: the tokener has no buffer, an array no list, a field no name.\<close>

lemma no_memory_undefined:
  "map_option (map_option (\<lambda>t. json_tokener_parse_ex lib_plain t ''1'' 1)) (json_tokener_new_ex True (\<lambda>n. False) 2)
     = Some (Some None)"
  "json_tokener_parse_ex (lib_plain\<lparr>mem_at := \<lambda>use i. use \<noteq> Mem_list\<rparr>) small_tokener ''[]'' 2 = None"
  "json_tokener_parse_ex (lib_plain\<lparr>mem_at := \<lambda>use i. use \<noteq> Mem_container\<rparr>) small_tokener ''[1]'' 3 = None"
  "json_tokener_parse_ex (lib_plain\<lparr>mem_at := \<lambda>use i. use \<noteq> Mem_name\<rparr>) small_tokener ([CHR ''{'', CHR 0x22, CHR 0x22] @ '':1}'') 6 = None"
  by code_simp+

text \<open>A value without memory is \<open>null\<close>, and the parser reports success.\<close>

lemma no_memory_null:
  "map_option (\<lambda>(v, t). (v, tk_err t))
     (json_tokener_parse_ex (lib_plain\<lparr>mem_at := \<lambda>use i. use \<noteq> Mem_scalar\<rparr>) small_tokener ''[true]'' 6)
   = Some (JArray [JNull], json_tokener_success)"
  by code_simp

text \<open>
  A chunk that ends between the two halves of a surrogate pair leaves \<open>st_pos\<close> at 4; the next
  hexadecimal digit is shifted by a negative amount, which is undefined.
\<close>

definition half_pair :: string where
  "half_pair = [CHR 0x22, CHR 0x5C, CHR ''u'', CHR ''D'', CHR ''8'', CHR ''3'', CHR ''D'', CHR 0x5C, CHR ''u'']"

lemma half_pair_leaves_4:
  "case json_tokener_parse_ex lib_plain small_tokener half_pair 9 of
     None \<Rightarrow> False
   | Some (v, t) \<Rightarrow> tk_err t = json_tokener_continue \<and> json_tokener_parse_ex lib_plain t ''D'' 1 = None"
  by code_simp

text \<open>
  \<open>-Infinity\<close> goes to the state for \<open>Infinity\<close> without setting \<open>st_pos\<close> to 0: after a literal the
  comparison begins at the position the literal left, and the same text is refused.
\<close>

lemma minus_infinity_stale:
  "map_option (tk_err \<circ> snd) (json_tokener_parse_ex lib_plain small_tokener ''[-Infinity]'' 11)
     = Some json_tokener_success"
  "map_option (tk_err \<circ> snd) (json_tokener_parse_ex lib_plain small_tokener ''[null,-Infinity]'' 16)
     = Some json_tokener_error_parse_unexpected"
  by code_simp+

text \<open>A number is what \<open>sscanf\<close> reads of the number characters; the rest of them is dropped.\<close>

lemma number_tail_dropped:
  "map_option (\<lambda>(v, t). (v, tk_err t)) (json_tokener_parse_ex lib_plain small_tokener ''[1-2]'' 5)
     = Some (JArray [JInt 1], json_tokener_success)"
  by code_simp

end
