(* ===== verification/Json_Serialize.thy ===== *)
theory Json_Serialize
  imports Printbuf Json_Value
begin

text \<open>
  Printing a value (\<open>json_object.c\<close>): string escaping, the printers of every type with their
  flags, and \<open>json_object_to_json_string_ext\<close>. The printers work on a print buffer and ignore
  the results of its operations, as the code does; \<open>snprintf\<close> with \<open>"%.17g"\<close> is the argument
  \<open>fmt\<close>. \<open>ser\<close> is the text a value should have, and the main result is that printing returns it.
\<close>

unbundle bit_operations_syntax

section \<open>Flags and constants\<close>

definition JSON_C_TO_STRING_PLAIN :: "32 word" where "JSON_C_TO_STRING_PLAIN = 0"
definition JSON_C_TO_STRING_SPACED :: "32 word" where "JSON_C_TO_STRING_SPACED = push_bit 0 1"
definition JSON_C_TO_STRING_PRETTY :: "32 word" where "JSON_C_TO_STRING_PRETTY = push_bit 1 1"
definition JSON_C_TO_STRING_NOZERO :: "32 word" where "JSON_C_TO_STRING_NOZERO = push_bit 2 1"

abbreviation spaced :: "32 word \<Rightarrow> bool" where
  "spaced flags \<equiv> flags AND JSON_C_TO_STRING_SPACED \<noteq> 0"
abbreviation pretty :: "32 word \<Rightarrow> bool" where
  "pretty flags \<equiv> flags AND JSON_C_TO_STRING_PRETTY \<noteq> 0"
abbreviation nozero :: "32 word \<Rightarrow> bool" where
  "nozero flags \<equiv> flags AND JSON_C_TO_STRING_NOZERO \<noteq> 0"

abbreviation (input) NL :: char where "NL \<equiv> CHR 0x0A"
abbreviation (input) DQ :: char where "DQ \<equiv> CHR 0x22"
abbreviation (input) BSL :: char where "BSL \<equiv> CHR 0x5C"

section \<open>Escaping\<close>

text \<open>The characters of the first \<open>case\<close> and what each is written as.\<close>

fun short_escape :: "char \<Rightarrow> string option" where
  "short_escape c =
     (if c = CHR 0x08 then Some [BSL, CHR ''b'']
      else if c = CHR 0x0A then Some [BSL, CHR ''n'']
      else if c = CHR 0x0D then Some [BSL, CHR ''r'']
      else if c = CHR 0x09 then Some [BSL, CHR ''t'']
      else if c = CHR 0x0C then Some [BSL, CHR ''f'']
      else if c = DQ then Some [BSL, DQ]
      else if c = BSL then Some [BSL, BSL]
      else if c = CHR ''/'' then Some [BSL, CHR ''/'']
      else None)"

declare short_escape.simps [simp del]

definition escape_flush ::
  "(int \<Rightarrow> bool) \<Rightarrow> printbuf \<Rightarrow> string \<Rightarrow> nat \<Rightarrow> nat \<Rightarrow> (int \<times> printbuf) option" where
  "escape_flush al pb str start_offset pos =
     (if start_offset < pos
      then printbuf_memappend al pb (take (pos - start_offset) (drop start_offset str))
      else Some (0, pb))"

text \<open>\<open>while (len--)\<close>, over the bytes of \<open>str\<close> that are left.\<close>

fun json_escape_loop ::
  "(int \<Rightarrow> bool) \<Rightarrow> string \<Rightarrow> nat \<Rightarrow> nat \<Rightarrow> nat \<Rightarrow> printbuf \<Rightarrow> (int \<times> printbuf) option" where
  "json_escape_loop al str 0 pos start_offset pb = escape_flush al pb str start_offset pos"
| "json_escape_loop al str (Suc len) pos start_offset pb =
     (if pos < length str then
        case short_escape (str ! pos) of
          Some e \<Rightarrow> do {
            (_, pb) \<leftarrow> escape_flush al pb str start_offset pos;
            (_, pb) \<leftarrow> printbuf_memappend al pb e;
            json_escape_loop al str len (pos + 1) (pos + 1) pb }
        | None \<Rightarrow>
            if code_of (str ! pos) < code_of CHR '' '' then do {
              (_, pb) \<leftarrow> escape_flush al pb str start_offset pos;
              (_, pb) \<leftarrow> sprintbuf al pb
                (BSL # ''u00'' @ [json_hex_chars ! (code_of (str ! pos) div 16),
                                  json_hex_chars ! (code_of (str ! pos) mod 16)]);
              json_escape_loop al str len (pos + 1) (pos + 1) pb }
            else json_escape_loop al str len (pos + 1) start_offset pb
      else None)"

definition json_escape_str ::
  "(int \<Rightarrow> bool) \<Rightarrow> printbuf \<Rightarrow> string \<Rightarrow> nat \<Rightarrow> (int \<times> printbuf) option" where
  "json_escape_str al pb str len = do { (_, pb) \<leftarrow> json_escape_loop al str len 0 0 pb; Some (0, pb) }"

section \<open>The text of a double\<close>

text \<open>\<open>strchr\<close>, as an offset.\<close>

fun index_of :: "char \<Rightarrow> string \<Rightarrow> nat option" where
  "index_of c [] = None"
| "index_of c (d # s) = (if d = c then Some 0 else map_option Suc (index_of c s))"

text \<open>\<open>for (q = p; *q; q++) if (*q != '0') p = q;\<close>\<close>

fun last_nonzero :: "nat \<Rightarrow> nat \<Rightarrow> string \<Rightarrow> nat" where
  "last_nonzero p q [] = p"
| "last_nonzero p q (c # s) = last_nonzero (if c \<noteq> CHR ''0'' then q else p) (q + 1) s"

text \<open>
  The bytes \<open>json_object_double_to_json_string\<close> appends: the text goes through a buffer of 128
  bytes. \<open>None\<close> where it reads or writes past them.
\<close>

definition double_chars :: "(double \<Rightarrow> string) \<Rightarrow> 32 word \<Rightarrow> double \<Rightarrow> string option" where
  "double_chars fmt flags d =
     (let text = (if d_isnan d then ''NaN''
                  else if d_isinf d then if \<not> d_neg d then ''Infinity'' else ''-Infinity''
                  else fmt d);
          buf = take 127 text;
          (buf, p) = (case index_of CHR '','' buf of
                        Some i \<Rightarrow> (buf[i := CHR ''.''], Some i)
                      | None \<Rightarrow> (buf, index_of CHR ''.'' buf))
      in if p \<noteq> None \<and> nozero flags
         then let p = Suc (the p); p = Suc (last_nonzero p p (drop p buf))
              in if p < 128 then Some (take p (buf @ [NUL])) else None
         else if length text < 128 then Some buf else None)"

section \<open>The printers\<close>

definition indent :: "(int \<Rightarrow> bool) \<Rightarrow> printbuf \<Rightarrow> int \<Rightarrow> 32 word \<Rightarrow> (int \<times> printbuf) option" where
  "indent al pb level flags =
     (if pretty flags then do { n \<leftarrow> i32 (level * 2); printbuf_memset al pb (-1) CHR '' '' n }
      else Some (0, pb))"

abbreviation print_if ::
  "bool \<Rightarrow> (int \<Rightarrow> bool) \<Rightarrow> printbuf \<Rightarrow> string \<Rightarrow> (int \<times> printbuf) option" where
  "print_if c al pb s \<equiv> (if c then sprintbuf al pb s else Some (0, pb))"

text \<open>
  A \<open>_to_json_string\<close> function, and the printer of each type. The printers of an object and of an
  array get those of the children, \<open>None\<close> for a child that is \<open>NULL\<close>; their loops carry
  \<open>had_children\<close>.
\<close>

type_synonym printer = "printbuf \<Rightarrow> int \<Rightarrow> 32 word \<Rightarrow> (int \<times> printbuf) option"

definition json_object_boolean_to_json_string :: "(int \<Rightarrow> bool) \<Rightarrow> int \<Rightarrow> printer" where
  "json_object_boolean_to_json_string al b pb level flags =
     (if b \<noteq> 0 then sprintbuf al pb ''true'' else sprintbuf al pb ''false'')"

definition json_object_int_to_json_string :: "(int \<Rightarrow> bool) \<Rightarrow> int \<Rightarrow> printer" where
  "json_object_int_to_json_string al i pb level flags = sprintbuf al pb (show_int i)"

definition json_object_double_to_json_string ::
  "(int \<Rightarrow> bool) \<Rightarrow> (double \<Rightarrow> string) \<Rightarrow> double \<Rightarrow> printer" where
  "json_object_double_to_json_string al fmt d pb level flags =
     do { s \<leftarrow> double_chars fmt flags d;
          (_, pb) \<leftarrow> printbuf_memappend al pb s;
          Some (int (length s), pb) }"

definition json_object_userdata_to_json_string :: "(int \<Rightarrow> bool) \<Rightarrow> string \<Rightarrow> printer" where
  "json_object_userdata_to_json_string al userdata pb level flags =
     do { let userdata_len = length (cstr userdata);
          (_, pb) \<leftarrow> printbuf_memappend al pb (take userdata_len userdata);
          Some (int userdata_len, pb) }"

definition json_object_string_to_json_string :: "(int \<Rightarrow> bool) \<Rightarrow> string \<Rightarrow> printer" where
  "json_object_string_to_json_string al s pb level flags =
     do { (_, pb) \<leftarrow> sprintbuf al pb [DQ];
          (_, pb) \<leftarrow> json_escape_str al pb s (length s);
          (_, pb) \<leftarrow> sprintbuf al pb [DQ];
          Some (0, pb) }"

definition child_to_json_string :: "(int \<Rightarrow> bool) \<Rightarrow> printer option \<Rightarrow> printer" where
  "child_to_json_string al val pb level flags =
     (case val of None \<Rightarrow> sprintbuf al pb ''null'' | Some f \<Rightarrow> f pb level flags)"

fun fields_to_json_string ::
  "(int \<Rightarrow> bool) \<Rightarrow> (string \<times> printer option) list \<Rightarrow> int \<Rightarrow> printer" where
  "fields_to_json_string al [] had_children pb level flags = Some (had_children, pb)"
| "fields_to_json_string al ((key, val) # iter) had_children pb level flags =
     do { (_, pb) \<leftarrow> print_if (had_children \<noteq> 0) al pb '','';
          (_, pb) \<leftarrow> print_if (had_children \<noteq> 0 \<and> pretty flags) al pb [NL];
          (_, pb) \<leftarrow> print_if (spaced flags) al pb '' '';
          level1 \<leftarrow> i32 (level + 1);
          (_, pb) \<leftarrow> indent al pb level1 flags;
          (_, pb) \<leftarrow> sprintbuf al pb [DQ];
          (_, pb) \<leftarrow> json_escape_str al pb key (length (cstr key));
          (_, pb) \<leftarrow> sprintbuf al pb (if spaced flags then [DQ, CHR '':'', CHR '' ''] else [DQ, CHR '':'']);
          (_, pb) \<leftarrow> child_to_json_string al val pb level1 flags;
          fields_to_json_string al iter 1 pb level flags }"

definition json_object_object_to_json_string ::
  "(int \<Rightarrow> bool) \<Rightarrow> (string \<times> printer option) list \<Rightarrow> printer" where
  "json_object_object_to_json_string al iter pb level flags =
     do { (_, pb) \<leftarrow> sprintbuf al pb ''{'';
          (_, pb) \<leftarrow> print_if (pretty flags) al pb [NL];
          (had_children, pb) \<leftarrow> fields_to_json_string al iter 0 pb level flags;
          (_, pb) \<leftarrow> print_if (pretty flags \<and> had_children \<noteq> 0) al pb [NL];
          (_, pb) \<leftarrow> indent al pb level flags;
          if spaced flags then sprintbuf al pb '' }'' else sprintbuf al pb ''}'' }"

fun elems_to_json_string :: "(int \<Rightarrow> bool) \<Rightarrow> printer option list \<Rightarrow> int \<Rightarrow> printer" where
  "elems_to_json_string al [] had_children pb level flags = Some (had_children, pb)"
| "elems_to_json_string al (val # vals) had_children pb level flags =
     do { (_, pb) \<leftarrow> print_if (had_children \<noteq> 0) al pb '','';
          (_, pb) \<leftarrow> print_if (had_children \<noteq> 0 \<and> pretty flags) al pb [NL];
          (_, pb) \<leftarrow> print_if (spaced flags) al pb '' '';
          level1 \<leftarrow> i32 (level + 1);
          (_, pb) \<leftarrow> indent al pb level1 flags;
          (_, pb) \<leftarrow> child_to_json_string al val pb level1 flags;
          elems_to_json_string al vals 1 pb level flags }"

definition json_object_array_to_json_string :: "(int \<Rightarrow> bool) \<Rightarrow> printer option list \<Rightarrow> printer" where
  "json_object_array_to_json_string al vals pb level flags =
     do { (_, pb) \<leftarrow> sprintbuf al pb ''['';
          (_, pb) \<leftarrow> print_if (pretty flags) al pb [NL];
          (had_children, pb) \<leftarrow> elems_to_json_string al vals 0 pb level flags;
          (_, pb) \<leftarrow> print_if (pretty flags \<and> had_children \<noteq> 0) al pb [NL];
          (_, pb) \<leftarrow> indent al pb level flags;
          if spaced flags then sprintbuf al pb '' ]'' else sprintbuf al pb '']'' }"

text \<open>The \<open>_to_json_string\<close> member of a value, as the constructors set it; \<open>NULL\<close> has none.\<close>

primrec to_json_string :: "(int \<Rightarrow> bool) \<Rightarrow> (double \<Rightarrow> string) \<Rightarrow> jval \<Rightarrow> printer option" where
  "to_json_string al fmt JNull = None"
| "to_json_string al fmt (JBool b) = Some (json_object_boolean_to_json_string al b)"
| "to_json_string al fmt (JInt i) = Some (json_object_int_to_json_string al i)"
| "to_json_string al fmt (JDouble d ds) =
     Some (case ds of None \<Rightarrow> json_object_double_to_json_string al fmt d
           | Some ds \<Rightarrow> json_object_userdata_to_json_string al ds)"
| "to_json_string al fmt (JString s) = Some (json_object_string_to_json_string al s)"
| "to_json_string al fmt (JObject kvs) =
     Some (json_object_object_to_json_string al (map (map_prod id (to_json_string al fmt)) kvs))"
| "to_json_string al fmt (JArray vs) =
     Some (json_object_array_to_json_string al (map (to_json_string al fmt) vs))"

text \<open>
  \<open>json_object_to_json_string_ext\<close>: the object keeps its print buffer from one call to the
  next. The result is the string read from the buffer, \<open>None\<close> inside for \<open>NULL\<close>.
\<close>

definition json_object_to_json_string_ext ::
  "(int \<Rightarrow> bool) \<Rightarrow> (double \<Rightarrow> string) \<Rightarrow> printbuf option \<Rightarrow> jval \<Rightarrow> 32 word \<Rightarrow>
   (string option \<times> printbuf option) option" where
  "json_object_to_json_string_ext al fmt pb v flags =
     (case to_json_string al fmt v of
        None \<Rightarrow> Some (Some ''null'', pb)
      | Some f \<Rightarrow>
        (case (case pb of None \<Rightarrow> printbuf_new al | Some pb \<Rightarrow> Some pb) of
          None \<Rightarrow> Some (None, None)
        | Some pb \<Rightarrow> do {
          pb \<leftarrow> printbuf_reset pb;
          (r, pb) \<leftarrow> f pb 0 flags;
          if r < 0 then Some (None, Some pb)
          else do { s \<leftarrow> read_cstr (buf pb); Some (Some s, Some pb) } }))"

definition json_object_to_json_string ::
  "(int \<Rightarrow> bool) \<Rightarrow> (double \<Rightarrow> string) \<Rightarrow> printbuf option \<Rightarrow> jval \<Rightarrow>
   (string option \<times> printbuf option) option" where
  "json_object_to_json_string al fmt pb v =
     json_object_to_json_string_ext al fmt pb v JSON_C_TO_STRING_SPACED"

definition json_object_get_string ::
  "(int \<Rightarrow> bool) \<Rightarrow> (double \<Rightarrow> string) \<Rightarrow> printbuf option \<Rightarrow> jval \<Rightarrow>
   (string option \<times> printbuf option) option" where
  "json_object_get_string al fmt pb v =
     (case v of JNull \<Rightarrow> Some (None, pb) | JString s \<Rightarrow> Some (Some (cstr s), pb)
      | _ \<Rightarrow> json_object_to_json_string al fmt pb v)"

section \<open>The text of a value\<close>

definition esc_char :: "char \<Rightarrow> string" where
  "esc_char c =
     (case short_escape c of Some e \<Rightarrow> e
      | None \<Rightarrow> if code_of c < 32
          then BSL # ''u00'' @ [json_hex_chars ! (code_of c div 16), json_hex_chars ! (code_of c mod 16)]
          else [c])"

definition esc :: "string \<Rightarrow> string" where
  "esc s = concat (map esc_char s)"

abbreviation spaces :: "nat \<Rightarrow> string" where
  "spaces n \<equiv> replicate n CHR '' ''"

fun items_text :: "32 word \<Rightarrow> nat \<Rightarrow> bool \<Rightarrow> string list \<Rightarrow> string" where
  "items_text flags lev had [] = []"
| "items_text flags lev had (x # xs) =
     (if had then '','' else []) @ (if had \<and> pretty flags then [NL] else [])
     @ (if spaced flags then '' '' else []) @ (if pretty flags then spaces (2 * (lev + 1)) else [])
     @ x @ items_text flags lev True xs"

definition bracket_text :: "32 word \<Rightarrow> nat \<Rightarrow> string \<Rightarrow> string \<Rightarrow> string list \<Rightarrow> string" where
  "bracket_text flags lev opening closing xs =
     opening @ (if pretty flags then [NL] else []) @ items_text flags lev False xs
     @ (if pretty flags \<and> xs \<noteq> [] then [NL] else []) @ (if pretty flags then spaces (2 * lev) else [])
     @ (if spaced flags then CHR '' '' # closing else closing)"

definition field_text :: "32 word \<Rightarrow> string \<Rightarrow> string \<Rightarrow> string" where
  "field_text flags key x =
     [DQ] @ esc (cstr key) @ (if spaced flags then [DQ, CHR '':'', CHR '' ''] else [DQ, CHR '':'']) @ x"

primrec ser :: "(double \<Rightarrow> string) \<Rightarrow> 32 word \<Rightarrow> jval \<Rightarrow> nat \<Rightarrow> string" where
  "ser fmt flags JNull = (\<lambda>lev. ''null'')"
| "ser fmt flags (JBool b) = (\<lambda>lev. if b \<noteq> 0 then ''true'' else ''false'')"
| "ser fmt flags (JInt i) = (\<lambda>lev. show_int i)"
| "ser fmt flags (JDouble d ds) =
     (\<lambda>lev. case ds of None \<Rightarrow> the (double_chars fmt flags d) | Some ds \<Rightarrow> cstr ds)"
| "ser fmt flags (JString s) = (\<lambda>lev. [DQ] @ esc s @ [DQ])"
| "ser fmt flags (JObject kvs) = (\<lambda>lev. bracket_text flags lev ''{'' ''}''
     (map (\<lambda>(k, x). field_text flags k (x (lev + 1))) (map (map_prod id (ser fmt flags)) kvs)))"
| "ser fmt flags (JArray vs) = (\<lambda>lev. bracket_text flags lev ''['' '']''
     (map (\<lambda>x. x (lev + 1)) (map (ser fmt flags) vs)))"

section \<open>Printing appends that text\<close>

abbreviation pemits :: "(printbuf \<Rightarrow> (int \<times> printbuf) option) \<Rightarrow> string \<Rightarrow> bool" where
  "pemits \<equiv> emits pb_str pb_room (\<lambda>_. True)"

abbreviation pcloses :: "(printbuf \<Rightarrow> (int \<times> printbuf) option) \<Rightarrow> string \<Rightarrow> bool" where
  "pcloses \<equiv> emits pb_str pb_room (\<lambda>pb. pb_inv pb \<and> pb_terminated pb)"

named_theorems pemits

lemmas [pemits] = memappend.put_emits sprint.put_emits memappend.put_closes sprint.put_closes

lemma pemits_done [pemits]: "pemits (\<lambda>pb. Some (0, pb)) []"
  by (simp add: emits_done)

lemma pemits_if [pemits]: "pemits (\<lambda>pb. print_if c mem_ok pb s) (if c then s else [])"
  by (simp add: pemits)

lemma pemits_memset:
  assumes "0 \<le> len"
  shows "pemits (\<lambda>pb. printbuf_memset mem_ok pb (-1) c len) (replicate (nat len) c)"
  unfolding emits_def
proof (intro allI impI)
  fix n pb
  assume "pb_room n pb" "length (replicate (nat len) c) \<le> n"
  then have r: "pb_room n pb" "0 \<le> len" "nat len \<le> n" using assms by simp_all
  show "\<exists>r pb'. printbuf_memset mem_ok pb (-1) c len = Some (r, pb') \<and> 0 \<le> r
      \<and> pb_str pb' = pb_str pb @ replicate (nat len) c \<and> pb_room (n - length (replicate (nat len) c)) pb' \<and> True"
    by (cases rule: printbuf_memset_cases [OF r, of mem_ok c]) auto
qed

lemma pemits_indent:
  assumes "lev < 2 ^ 29"
  shows "pemits (\<lambda>pb. indent mem_ok pb (int lev) flags) (if pretty flags then spaces (2 * lev) else [])"
proof -
  have i: "i32 (int lev * 2) = Some (int lev * 2)" by (rule i32_ok) (use assms in simp_all)
  show ?thesis
    unfolding indent_def i
    using pemits_memset [of "int lev * 2" "CHR '' ''"] pemits_done
    by (simp add: nat_mult_distrib mult.commute [of lev])
qed

lemma pemits_flush:
  "pemits (\<lambda>pb. escape_flush mem_ok pb str start pos) (take (pos - start) (drop start str))"
  by (cases "start < pos") (simp_all add: escape_flush_def pemits)

text \<open>Escaping: what is not flushed yet goes before the text of what is left.\<close>

lemma take_drop_snoc:
  assumes "start \<le> pos" "pos < length s"
  shows "take (Suc pos - start) (drop start s) = take (pos - start) (drop start s) @ [s ! pos]"
  using assms by (simp add: Suc_diff_le take_Suc_conv_app_nth)

lemma pemits_escape_loop:
  assumes "pos + len \<le> length str" "start \<le> pos"
  shows "pemits (json_escape_loop mem_ok str len pos start)
    (take (pos - start) (drop start str) @ esc (take len (drop pos str)))"
  using assms
proof (induction len arbitrary: pos start)
  case 0
  then show ?case using pemits_flush by (simp add: esc_def)
next
  case (Suc len)
  let ?c = "str ! pos"
  let ?kept = "take (pos - start) (drop start str)"
  have pos: "pos < length str" using Suc.prems by simp
  then have rest: "take (Suc len) (drop pos str) = ?c # take len (drop (Suc pos) str)"
    by (metis Cons_nth_drop_Suc take_Suc_Cons)
  have esc: "esc (take (Suc len) (drop pos str)) = esc_char ?c @ esc (take len (drop (Suc pos) str))"
    by (simp add: rest esc_def)
  have next_at: "pemits (json_escape_loop mem_ok str len (Suc pos) (Suc pos)) (esc (take len (drop (Suc pos) str)))"
    using Suc.IH [of "Suc pos" "Suc pos"] Suc.prems by simp
  have escaped: "pemits (\<lambda>pb. escape_flush mem_ok pb str start pos \<bind> (\<lambda>(_, pb). M pb \<bind>
      (\<lambda>(_, pb). json_escape_loop mem_ok str len (Suc pos) (Suc pos) pb)))
      (?kept @ esc (take (Suc len) (drop pos str)))"
    if "pemits M (esc_char ?c)" for M
    unfolding esc by (intro emits_bind pemits_flush that next_at)
  show ?case
  proof (cases "short_escape ?c")
    case (Some e)
    then show ?thesis
      using escaped [of "\<lambda>pb. printbuf_memappend mem_ok pb e"] pos
      by (simp add: pemits esc_char_def del: take_Suc)
  next
    case None
    show ?thesis
    proof (cases "code_of ?c < 32")
      case True
      then show ?thesis
        using None escaped [of "\<lambda>pb. sprintbuf mem_ok pb (esc_char ?c)"] pos
        by (simp add: pemits esc_char_def code_of_def)
    next
      case False
      have "esc_char ?c = [?c]" using None False by (simp add: esc_char_def)
      then have "take (Suc pos - start) (drop start str) @ esc (take len (drop (Suc pos) str))
          = ?kept @ esc (take (Suc len) (drop pos str))"
        using take_drop_snoc [of start pos str] Suc.prems pos by (simp add: esc)
      then show ?thesis
        using None False Suc.IH [of "Suc pos" start] Suc.prems pos by (simp add: code_of_def)
    qed
  qed
qed

lemma pemits_escape [pemits]:
  assumes "len \<le> length s"
  shows "pemits (\<lambda>pb. json_escape_str mem_ok pb s len) (esc (take len s))"
  using emits_drop [OF pemits_escape_loop [of 0 len s 0]] assms by (simp add: json_escape_str_def)

section \<open>Objects and arrays\<close>

text \<open>
  A printer that appends the text of its value at every level, as far as the text is short
  enough for the arithmetic on levels.
\<close>

definition prints :: "32 word \<Rightarrow> printer option \<Rightarrow> (nat \<Rightarrow> string) \<Rightarrow> bool" where
  "prints flags f txt \<longleftrightarrow> (\<forall>lev. lev + length (txt lev) < 2 ^ 29 \<longrightarrow>
     pcloses (\<lambda>pb. child_to_json_string mem_ok f pb (int lev) flags) (txt lev))"

lemma printsD:
  "prints flags f txt \<Longrightarrow> lev + length (txt lev) < 2 ^ 29 \<Longrightarrow>
   pemits (\<lambda>pb. child_to_json_string mem_ok f pb (int lev) flags) (txt lev)"
  unfolding prints_def by (blast intro: emits_weaken)

lemma i32_level: "lev < 2 ^ 29 \<Longrightarrow> i32 (int lev + 1) = Some (int (Suc lev))"
  by (subst i32_ok) simp_all

lemma pemits_elems:
  assumes "list_all2 (prints flags) fs txts" "0 \<le> had"
    and "Suc lev + length (concat (map (\<lambda>t. t (Suc lev)) txts)) < 2 ^ 29"
  shows "pemits (\<lambda>pb. elems_to_json_string mem_ok fs had pb (int lev) flags)
    (items_text flags lev (had \<noteq> 0) (map (\<lambda>t. t (Suc lev)) txts))"
  using assms
proof (induction fs txts arbitrary: had rule: list_all2_induct)
  case Nil
  then show ?case by (simp add: emits_done)
next
  case (Cons f fs t ts)
  have lev: "lev < 2 ^ 29" "Suc lev < 2 ^ 29" "Suc lev + length (t (Suc lev)) < 2 ^ 29"
    "Suc lev + length (concat (map (\<lambda>t. t (Suc lev)) ts)) < 2 ^ 29" using Cons.prems by simp_all
  have child: "pemits (\<lambda>pb. child_to_json_string mem_ok f pb (int (Suc lev)) flags) (t (Suc lev))"
    by (rule printsD [of flags f t]) (use Cons.hyps lev(3) in simp_all)
  have rest: "pemits (\<lambda>pb. elems_to_json_string mem_ok fs 1 pb (int lev) flags)
      (items_text flags lev True (map (\<lambda>t. t (Suc lev)) ts))"
    using Cons.IH [of 1] lev(4) by simp
  show ?case
    unfolding elems_to_json_string.simps i32_level [OF lev(1)] list.map items_text.simps bind.bind_lunit
      Suc_eq_plus1 [symmetric]
    by (intro emits_bind pemits_if pemits_indent lev(2) child rest)
qed

lemma pemits_fields:
  assumes "list_all2 (\<lambda>p q. fst p = fst q \<and> prints flags (snd p) (snd q)) fs txts" "0 \<le> had"
    and "Suc lev + length (concat (map (\<lambda>(k, t). t (Suc lev)) txts)) < 2 ^ 29"
  shows "pemits (\<lambda>pb. fields_to_json_string mem_ok fs had pb (int lev) flags)
    (items_text flags lev (had \<noteq> 0) (map (\<lambda>(k, t). field_text flags k (t (Suc lev))) txts))"
  using assms
proof (induction fs txts arbitrary: had rule: list_all2_induct)
  case Nil
  then show ?case by (simp add: emits_done)
next
  case (Cons p fs q ts)
  obtain k f t where [simp]: "p = (k, f)" "q = (k, t)" using Cons.hyps by (cases p; cases q) auto
  have lev: "lev < 2 ^ 29" "Suc lev < 2 ^ 29" "Suc lev + length (t (Suc lev)) < 2 ^ 29"
    "Suc lev + length (concat (map (\<lambda>(k, t). t (Suc lev)) ts)) < 2 ^ 29" using Cons.prems by simp_all
  have child: "pemits (\<lambda>pb. child_to_json_string mem_ok f pb (int (Suc lev)) flags) (t (Suc lev))"
    by (rule printsD [of flags f t]) (use Cons.hyps lev(3) in simp_all)
  have rest: "pemits (\<lambda>pb. fields_to_json_string mem_ok fs 1 pb (int lev) flags)
      (items_text flags lev True (map (\<lambda>(k, t). field_text flags k (t (Suc lev))) ts))"
    using Cons.IH [of 1] lev(4) by simp
  have "length (cstr k) \<le> length k" "take (length (cstr k)) k = cstr k"
    by (simp_all add: cstr_def length_takeWhile_le takeWhile_eq_take [symmetric])
  then have key: "pemits (\<lambda>pb. json_escape_str mem_ok pb k (length (cstr k))) (esc (cstr k))"
    using pemits_escape [of "length (cstr k)" k] by simp
  show ?case
    unfolding \<open>p = (k, f)\<close> \<open>q = (k, t)\<close> fields_to_json_string.simps i32_level [OF lev(1)] list.map
      items_text.simps bind.bind_lunit Suc_eq_plus1 [symmetric] case_prod_conv field_text_def append_assoc
    by (intro emits_bind pemits_if pemits_indent lev(2) child key sprint.put_emits
        rest [unfolded field_text_def append_assoc])
qed

text \<open>\<open>had_children\<close> after the loops.\<close>

lemma elems_had_children:
  "elems_to_json_string al fs had pb level flags = Some (r, pb') \<Longrightarrow> r = (if fs = [] then had else 1)"
proof (induction fs arbitrary: had pb)
  case (Cons f fs)
  have "elems_to_json_string al fs 1 pb level flags = Some (r, pb') \<Longrightarrow> r = 1" for pb
    using Cons.IH [of 1 pb] by (simp split: if_splits)
  then show ?case using Cons.prems by (clarsimp simp: bind_eq_Some_iff)
qed simp

lemma fields_had_children:
  "fields_to_json_string al fs had pb level flags = Some (r, pb') \<Longrightarrow> r = (if fs = [] then had else 1)"
proof (induction fs arbitrary: had pb)
  case (Cons p fs)
  have "fields_to_json_string al fs 1 pb level flags = Some (r, pb') \<Longrightarrow> r = 1" for pb
    using Cons.IH [of 1 pb] by (simp split: if_splits)
  then show ?case using Cons.prems by (cases p) (clarsimp simp: bind_eq_Some_iff)
qed simp

lemma length_items_text: "length (concat xs) \<le> length (items_text flags lev had xs)"
proof (induction xs arbitrary: had)
  case (Cons x xs)
  show ?case
    using Cons.IH [of True] unfolding items_text.simps concat.simps length_append by linarith
qed simp

lemma bracket_bound:
  assumes "lev + length (bracket_text flags lev opening closing xs) < 2 ^ 29" "opening \<noteq> []"
  shows "lev < 2 ^ 29" "Suc lev + length (concat xs) < 2 ^ 29"
proof -
  have "0 < length opening" using assms(2) by simp
  then have "Suc (length (items_text flags lev False xs)) \<le> length (bracket_text flags lev opening closing xs)"
    unfolding bracket_text_def length_append by linarith
  then show "lev < 2 ^ 29" "Suc lev + length (concat xs) < 2 ^ 29"
    using length_items_text [of xs flags lev False] assms(1) by linarith+
qed

lemma concat_field_text:
  "length (concat (map (\<lambda>(k, t). t l) ts)) \<le> length (concat (map (\<lambda>(k, t). field_text flags k (t l)) ts))"
  by (induction ts) (auto simp: field_text_def)

lemma pcloses_closing:
  "pcloses (\<lambda>pb. if spaced flags then sprintbuf mem_ok pb (CHR '' '' # c) else sprintbuf mem_ok pb c)
    (if spaced flags then CHR '' '' # c else c)"
  by (simp add: pemits)

lemma pcloses_array:
  assumes "list_all2 (prints flags) fs txts"
    and "lev + length (bracket_text flags lev ''['' '']'' (map (\<lambda>t. t (Suc lev)) txts)) < 2 ^ 29"
  shows "pcloses (\<lambda>pb. json_object_array_to_json_string mem_ok fs pb (int lev) flags)
    (bracket_text flags lev ''['' '']'' (map (\<lambda>t. t (Suc lev)) txts))"
proof -
  have b: "lev < 2 ^ 29" "Suc lev + length (concat (map (\<lambda>t. t (Suc lev)) txts)) < 2 ^ 29"
    by (rule bracket_bound [OF assms(2)]; simp)+
  have none: "(fs = []) = (txts = [])" using list_all2_lengthD [OF assms(1)] by auto
  have elems: "pemits (\<lambda>pb. elems_to_json_string mem_ok fs 0 pb (int lev) flags)
      (items_text flags lev False (map (\<lambda>t. t (Suc lev)) txts))"
    using pemits_elems [OF assms(1), of 0 lev] b by simp
  have nl: "pemits (\<lambda>pb. print_if (pretty flags \<and> r \<noteq> 0) mem_ok pb [NL])
      (if pretty flags \<and> map (\<lambda>t. t (Suc lev)) txts \<noteq> [] then [NL] else [])"
    if "elems_to_json_string mem_ok fs 0 pb (int lev) flags = Some (r, pb')" for r pb pb'
    using elems_had_children [OF that] pemits_if none by (cases "pretty flags \<and> r \<noteq> 0") (auto simp: emits_done pemits)
  show ?thesis
    unfolding json_object_array_to_json_string_def bracket_text_def
    by (intro emits_bind sprint.put_emits pemits_if elems nl pemits_indent b(1) pcloses_closing)
qed

lemma pcloses_object:
  assumes "list_all2 (\<lambda>p q. fst p = fst q \<and> prints flags (snd p) (snd q)) fs txts"
    and "lev + length (bracket_text flags lev ''{'' ''}''
      (map (\<lambda>(k, t). field_text flags k (t (Suc lev))) txts)) < 2 ^ 29"
  shows "pcloses (\<lambda>pb. json_object_object_to_json_string mem_ok fs pb (int lev) flags)
    (bracket_text flags lev ''{'' ''}'' (map (\<lambda>(k, t). field_text flags k (t (Suc lev))) txts))"
proof -
  have b: "lev < 2 ^ 29"
      "Suc lev + length (concat (map (\<lambda>(k, t). field_text flags k (t (Suc lev))) txts)) < 2 ^ 29"
    by (rule bracket_bound [OF assms(2)]; simp)+
  have none: "(fs = []) = (txts = [])" using list_all2_lengthD [OF assms(1)] by auto
  have "Suc lev + length (concat (map (\<lambda>(k, t). t (Suc lev)) txts)) < 2 ^ 29"
    using b(2) concat_field_text [of "Suc lev" txts flags] by linarith
  then have fields: "pemits (\<lambda>pb. fields_to_json_string mem_ok fs 0 pb (int lev) flags)
      (items_text flags lev False (map (\<lambda>(k, t). field_text flags k (t (Suc lev))) txts))"
    using pemits_fields [OF assms(1), of 0 lev] by simp
  have nl: "pemits (\<lambda>pb. print_if (pretty flags \<and> r \<noteq> 0) mem_ok pb [NL])
      (if pretty flags \<and> map (\<lambda>(k, t). field_text flags k (t (Suc lev))) txts \<noteq> [] then [NL] else [])"
    if "fields_to_json_string mem_ok fs 0 pb (int lev) flags = Some (r, pb')" for r pb pb'
    using fields_had_children [OF that] pemits_if none
    by (cases "pretty flags \<and> r \<noteq> 0") (auto simp: emits_done pemits)
  show ?thesis
    unfolding json_object_object_to_json_string_def bracket_text_def
    by (intro emits_bind sprint.put_emits pemits_if fields nl pemits_indent b(1) pcloses_closing)
qed

section \<open>Every value is printed as its text\<close>

lemma pcloses_scalars:
  "pcloses (\<lambda>pb. json_object_boolean_to_json_string mem_ok b pb lev flags) (if b \<noteq> 0 then ''true'' else ''false'')"
  "pcloses (\<lambda>pb. json_object_int_to_json_string mem_ok i pb lev flags) (show_int i)"
  "pcloses (\<lambda>pb. json_object_userdata_to_json_string mem_ok ds pb lev flags) (cstr ds)"
  "double_chars fmt flags d = Some s \<Longrightarrow>
    pcloses (\<lambda>pb. json_object_double_to_json_string mem_ok fmt d pb lev flags) s"
  "pcloses (\<lambda>pb. json_object_string_to_json_string mem_ok t pb lev flags) ([DQ] @ esc t @ [DQ])"
proof -
  have c: "take (length (cstr ds)) ds = cstr ds" for ds
    by (simp add: cstr_def takeWhile_eq_take [symmetric])
  show "pcloses (\<lambda>pb. json_object_userdata_to_json_string mem_ok ds pb lev flags) (cstr ds)"
    unfolding json_object_userdata_to_json_string_def Let_def c
    by (rule emits_drop [OF memappend.put_closes]) simp
  show "double_chars fmt flags d = Some s \<Longrightarrow>
      pcloses (\<lambda>pb. json_object_double_to_json_string mem_ok fmt d pb lev flags) s"
    using emits_drop [OF memappend.put_closes, of "int (length s)" s]
    by (simp add: json_object_double_to_json_string_def)
  have "pcloses (\<lambda>pb. json_object_string_to_json_string mem_ok t pb lev flags) ([DQ] @ esc (take (length t) t) @ [DQ])"
    unfolding json_object_string_to_json_string_def
    by (intro emits_bind sprint.put_emits sprint.put_closes pemits_escape order_refl emits_drop)
  then show "pcloses (\<lambda>pb. json_object_string_to_json_string mem_ok t pb lev flags) ([DQ] @ esc t @ [DQ])"
    by simp
qed (simp_all add: json_object_boolean_to_json_string_def json_object_int_to_json_string_def pemits)

text \<open>The number formatter yields texts the double printer can hold.\<close>

definition fmt_ok :: "(double \<Rightarrow> string) \<Rightarrow> 32 word \<Rightarrow> bool" where
  "fmt_ok fmt flags \<longleftrightarrow> (\<forall>d. \<exists>s. double_chars fmt flags d = Some s)"

lemma prints_ser:
  assumes "fmt_ok fmt flags"
  shows "prints flags (to_json_string mem_ok fmt v) (ser fmt flags v)"
proof (induction v)
  case (JDouble d ds)
  obtain s where "double_chars fmt flags d = Some s" using assms by (auto simp: fmt_ok_def)
  then show ?case
    using pcloses_scalars by (cases ds) (simp_all add: prints_def child_to_json_string_def)
next
  case (JArray vs)
  then have "list_all2 (prints flags) (map (to_json_string mem_ok fmt) vs) (map (ser fmt flags) vs)"
    by (simp add: list.rel_map list.rel_refl_strong)
  from pcloses_array [OF this] show ?case by (simp add: prints_def child_to_json_string_def)
next
  case (JObject kvs)
  have "list_all2 (\<lambda>p q. fst p = fst q \<and> prints flags (snd p) (snd q))
      (map (map_prod id (to_json_string mem_ok fmt)) kvs) (map (map_prod id (ser fmt flags)) kvs)"
    unfolding list.rel_map by (rule list.rel_refl_strong) (use JObject in \<open>auto simp: snds.simps\<close>)
  from pcloses_object [OF this] show ?case by (simp add: prints_def child_to_json_string_def)
qed (use pcloses_scalars in \<open>simp_all add: prints_def child_to_json_string_def pemits\<close>)

lemma to_json_string_ext_text:
  assumes "fmt_ok fmt flags" "length (ser fmt flags v 0) < 2 ^ 28"
    and "case pb of None \<Rightarrow> True | Some p \<Rightarrow> pb_inv p \<and> size p < 2 ^ 30"
  shows "\<exists>pb'. json_object_to_json_string_ext mem_ok fmt pb v flags = Some (Some (cstr (ser fmt flags v 0)), pb')"
proof (cases "to_json_string mem_ok fmt v")
  case None
  then have "v = JNull" by (cases v) auto
  then show ?thesis by (simp add: json_object_to_json_string_ext_def cstr_def)
next
  case (Some f)
  obtain p where p: "(case pb of None \<Rightarrow> printbuf_new mem_ok | Some pb \<Rightarrow> Some pb) = Some p"
    "pb_inv p" "size p < 2 ^ 30"
    using assms(3) by (cases pb) (auto simp: printbuf_new_def pb_inv_def)
  then obtain q where q: "printbuf_reset p = Some q" "pb_str q = []" "pb_room (length (ser fmt flags v 0)) q"
    using printbuf_reset_room [OF p(2,3) assms(2)] by metis
  have "pcloses (\<lambda>pb. f pb 0 flags) (ser fmt flags v 0)"
    using prints_ser [OF assms(1), of v, unfolded prints_def Some, rule_format, of 0] assms(2)
    by (simp add: child_to_json_string_def)
  then obtain r s where s: "f q 0 flags = Some (r, s)" "0 \<le> r" "pb_str s = ser fmt flags v 0"
    "pb_inv s" "pb_terminated s"
    by (rule emitsD [where b = q and n = "length (ser fmt flags v 0)"]) (use q in auto)
  then have "read_cstr (buf s) = Some (cstr (ser fmt flags v 0))" using read_cstr_terminated [of s] by simp
  then show ?thesis using Some p(1) q(1) s by (simp add: json_object_to_json_string_ext_def)
qed

section \<open>Printed text has no NUL\<close>

lemma NUL_notin_esc: "NUL \<notin> set (esc s)"
proof -
  have "NUL \<notin> set (esc_char c)" for c
  proof (cases "short_escape c")
    case None
    have l: "length json_hex_chars = 22" and hex: "NUL \<notin> set json_hex_chars"
      by (simp_all add: json_hex_chars_def)
    have "i < 22 \<Longrightarrow> json_hex_chars ! i \<noteq> NUL" for i
      using nth_mem [of i json_hex_chars] l hex by metis
    then have hex: "code_of c < 32 \<Longrightarrow> json_hex_chars ! (code_of c div 16) \<noteq> NUL"
      "json_hex_chars ! (code_of c mod 16) \<noteq> NUL" by simp_all
    then show ?thesis using None hex by (auto simp: esc_char_def code_of_def)
  qed (auto simp: esc_char_def short_escape.simps split: if_splits)
  then show ?thesis by (auto simp: esc_def)
qed

lemma NUL_notin_show_int: "NUL \<notin> set (show_int i)"
  by (simp add: show_int_def)

lemma NUL_notin_items: "\<forall>x\<in>set xs. NUL \<notin> set x \<Longrightarrow> NUL \<notin> set (items_text flags lev had xs)"
  by (induction xs arbitrary: had) auto

lemma NUL_notin_bracket:
  "NUL \<notin> set opening \<Longrightarrow> NUL \<notin> set closing \<Longrightarrow> \<forall>x\<in>set xs. NUL \<notin> set x \<Longrightarrow>
   NUL \<notin> set (bracket_text flags lev opening closing xs)"
  using NUL_notin_items [of xs] by (auto simp: bracket_text_def)

definition fmt_no_NUL :: "(double \<Rightarrow> string) \<Rightarrow> 32 word \<Rightarrow> bool" where
  "fmt_no_NUL fmt flags \<longleftrightarrow> (\<forall>d s. double_chars fmt flags d = Some s \<longrightarrow> NUL \<notin> set s)"

lemma NUL_notin_ser:
  assumes "fmt_ok fmt flags" "fmt_no_NUL fmt flags"
  shows "NUL \<notin> set (ser fmt flags v lev)"
proof (induction v arbitrary: lev)
  case (JDouble d ds)
  then show ?case using assms by (cases ds) (auto simp: fmt_ok_def fmt_no_NUL_def dest: spec [of _ d])
next
  case (JObject kvs)
  have "NUL \<notin> set (bracket_text flags lev ''{'' ''}''
      (map (\<lambda>(k, v). field_text flags k (ser fmt flags v (lev + 1))) kvs))"
    by (rule NUL_notin_bracket) (use JObject in \<open>auto simp: field_text_def NUL_notin_esc snds.simps\<close>)
  then show ?case by (simp add: comp_def case_prod_unfold)
next
  case (JArray vs)
  have "NUL \<notin> set (bracket_text flags lev ''['' '']'' (map (\<lambda>v. ser fmt flags v (lev + 1)) vs))"
    by (rule NUL_notin_bracket) (use JArray in auto)
  then show ?case by (simp add: comp_def)
qed (auto simp: NUL_notin_esc NUL_notin_show_int)

section \<open>Properties\<close>

text \<open>
  C12. Printing a value of any shape with any flags, into a new or a used print buffer, is
  defined and returns exactly the text of the value, as a C string that ends where the text
  ends: no byte is lost to a NUL inside it.
\<close>

theorem json_object_to_json_string_ext_spec:
  assumes "fmt_ok fmt flags" "fmt_no_NUL fmt flags" "length (ser fmt flags v 0) < 2 ^ 28"
    and "case pb of None \<Rightarrow> True | Some p \<Rightarrow> pb_inv p \<and> size p < 2 ^ 30"
  shows "\<exists>pb'. json_object_to_json_string_ext mem_ok fmt pb v flags = Some (Some (ser fmt flags v 0), pb')"
  using to_json_string_ext_text [OF assms(1,3,4)] NUL_notin_ser [OF assms(1,2)] by (simp add: cstr_id)

lemma fmt_example: "fmt_ok (\<lambda>d. ''1.5'') flags" "fmt_no_NUL (\<lambda>d. ''1.5'') flags"
  by (auto simp: fmt_ok_def fmt_no_NUL_def double_chars_def Let_def split: if_splits)

theorem json_object_to_json_string_ext_spec_witness:
  "\<exists>pb'. json_object_to_json_string_ext mem_ok (\<lambda>d. ''1.5'') None
      (JObject [(''a'', JArray [JInt (-7), JNull]), (''b'', JString [DQ])]) JSON_C_TO_STRING_PLAIN
    = Some (Some ([CHR ''{'', DQ] @ ''a'' @ [DQ] @ '':[-7,null],'' @ [DQ] @ ''b'' @ [DQ, CHR '':'', DQ, BSL, DQ, DQ, CHR ''}'']), pb')"
proof -
  let ?v = "JObject [(''a'', JArray [JInt (-7), JNull]), (''b'', JString [DQ])]"
  have t: "ser (\<lambda>d. ''1.5'') JSON_C_TO_STRING_PLAIN ?v 0 =
      [CHR ''{'', DQ] @ ''a'' @ [DQ] @ '':[-7,null],'' @ [DQ] @ ''b'' @ [DQ, CHR '':'', DQ, BSL, DQ, DQ, CHR ''}'']"
    by (simp add: bracket_text_def field_text_def JSON_C_TO_STRING_PLAIN_def esc_def esc_char_def cstr_def
        short_escape.simps show_int_def dec.simps [of 7] digit_def char_of_def bit_0 code_of_def)
  show ?thesis
    using json_object_to_json_string_ext_spec [OF fmt_example, of JSON_C_TO_STRING_PLAIN ?v None] unfolding t by simp
qed

lemma last_nonzero_append:
  "last_nonzero p q (s @ t) = last_nonzero (last_nonzero p q s) (q + length s) t"
  by (induction s arbitrary: p q) auto

lemma last_nonzero_zeros: "last_nonzero p q (replicate k CHR ''0'') = p"
  by (induction k arbitrary: q) auto

lemma index_of_append: "c \<notin> set s \<Longrightarrow> index_of c (s @ c # t) = Some (length s)"
  by (induction s) auto

lemma index_of_None: "c \<notin> set s \<Longrightarrow> index_of c s = None"
  by (induction s) auto

lemma nozero_text:
  assumes "\<not> d_isnan d" "\<not> d_isinf d" "fmt d = ip @ CHR ''.'' # f @ replicate k CHR ''0''"
    and "CHR ''.'' \<notin> set ip" "CHR '','' \<notin> set (ip @ f)" "f \<noteq> []" "last f \<noteq> CHR ''0'' \<or> length f = 1"
    and "length (fmt d) < 127"
  shows "double_chars fmt flags d = Some (if nozero flags then ip @ CHR ''.'' # f else fmt d)"
proof -
  let ?n = "Suc (length ip)"
  have "last_nonzero ?n ?n (f @ replicate k CHR ''0'') = length ip + length f"
  proof (cases f rule: rev_cases)
    case (snoc g c)
    then show ?thesis using assms(7)
      by (cases "c = CHR ''0''") (auto simp: last_nonzero_append last_nonzero_zeros)
  qed (use assms(6) in simp)
  then have l: "Suc (last_nonzero ?n ?n (f @ replicate k CHR ''0'')) = length (ip @ CHR ''.'' # f)" by simp
  have c: "CHR '','' \<notin> set (fmt d)" using assms(3,5) by auto
  have t: "take 127 (fmt d) = fmt d" using assms(8) by simp
  have p: "index_of CHR ''.'' (fmt d) = Some (length ip)" using assms(3,4) index_of_append by simp
  have d: "drop ?n (fmt d) = f @ replicate k CHR ''0''" using assms(3) by simp
  have b: "length (ip @ CHR ''.'' # f) < 128" using assms(3,8) by simp
  have k: "take (length (ip @ CHR ''.'' # f)) (fmt d @ [NUL]) = ip @ CHR ''.'' # f" using assms(3) by simp
  have x: "(if d_isnan d then ''NaN'' else if d_isinf d then if \<not> d_neg d then ''Infinity'' else ''-Infinity''
      else fmt d) = fmt d" using assms(1,2) by simp
  show ?thesis
    unfolding double_chars_def Let_def x t index_of_None [OF c] option.case prod.case p option.sel d l k
    using b assms(8) by simp
qed

text \<open>
  \<open>JSON_C_TO_STRING_NOZERO\<close> cuts the zeros at the end of the text, but leaves at least one
  character after the point; without the flag the text is printed unchanged.
\<close>

theorem nozero_spec:
  assumes "\<not> d_isnan d" "\<not> d_isinf d" "fmt d = ip @ CHR ''.'' # f @ replicate k CHR ''0''"
    and "CHR ''.'' \<notin> set ip" "CHR '','' \<notin> set (ip @ f)" "f \<noteq> []" "last f \<noteq> CHR ''0'' \<or> length f = 1"
    and "length (fmt d) < 127"
  shows "double_chars fmt flags d = Some (if nozero flags then ip @ CHR ''.'' # f else fmt d)"
  by (rule nozero_text) (fact assms)+

theorem nozero_spec_witness:
  "double_chars (\<lambda>d. ''2.500'') JSON_C_TO_STRING_NOZERO 0 = Some ''2.5''"
proof -
  have "double_chars (\<lambda>d. ''2.500'') JSON_C_TO_STRING_NOZERO 0 =
      Some (if nozero JSON_C_TO_STRING_NOZERO then ''2'' @ CHR ''.'' # ''5'' else ''2.500'')"
    by (rule nozero_spec [where k = 2]) (simp_all add: d_isnan_def d_isinf_def d_exp_def numeral_2_eq_2)
  then show ?thesis by (simp add: JSON_C_TO_STRING_NOZERO_def)
qed

text \<open>The zeros it cuts may belong to an exponent: this text changes its value.\<close>

lemma nozero_exponent:
  "double_chars (\<lambda>d. ''1.5e-10'') JSON_C_TO_STRING_NOZERO 0 = Some ''1.5e-1''"
proof -
  have "double_chars (\<lambda>d. ''1.5e-10'') JSON_C_TO_STRING_NOZERO 0 =
      Some (if nozero JSON_C_TO_STRING_NOZERO then ''1'' @ CHR ''.'' # ''5e-1'' else ''1.5e-10'')"
    by (rule nozero_text [where k = 1]) (simp_all add: d_isnan_def d_isinf_def d_exp_def)
  then show ?thesis by (simp add: JSON_C_TO_STRING_NOZERO_def)
qed

end
