(* ===== verification/Tokener_Run.thy ===== *)
theory Tokener_Run
  imports Json_Tokener Json_Serialize
begin

text \<open>
  Runs of the tokener on a NUL-terminated string (\<open>len = -1\<close>): what a stretch of turns of the main
  loop does to the levels, the buffer and the position. \<open>reaches\<close> relates two points of a run at
  the label \<open>redo_char\<close>, \<open>sees\<close> is the part of the state the proofs follow. From the lemmas on
  white space, strings, numbers and literals follows that parsing inverts printing.
\<close>

section \<open>Points of a run\<close>

definition lib_ok :: "libc \<Rightarrow> bool" where
  "lib_ok lib \<longleftrightarrow> realloc_ok lib = mem_ok \<and> (\<forall>use i. mem_at lib use i)"

lemma allocated_ok: "lib_ok lib \<Longrightarrow> allocated lib use v ps = v"
  by (simp add: lib_ok_def allocated_def)

definition reaches :: "libc \<Rightarrow> pst \<Rightarrow> pst \<Rightarrow> bool" where
  "reaches lib ps ps' \<longleftrightarrow> parse_loop lib (-1) True ps = parse_loop lib (-1) True ps'"

lemma reaches_refl [simp]: "reaches lib ps ps"
  by (simp add: reaches_def)

lemma reaches_trans: "reaches lib ps ps' \<Longrightarrow> reaches lib ps' ps'' \<Longrightarrow> reaches lib ps ps''"
  by (simp add: reaches_def)

definition sees :: "int \<Rightarrow> int \<Rightarrow> pst \<Rightarrow> srec list \<Rightarrow> srec \<Rightarrow> string \<Rightarrow> bool" where
  "sees K md ps below r s \<longleftrightarrow>
     pb_inv (tk_pb (ps_tok ps)) \<and> size (tk_pb (ps_tok ps)) < 2 ^ 30
     \<and> tk_depth (ps_tok ps) = int (length below) \<and> length below < length (tk_stack (ps_tok ps))
     \<and> max_depth (ps_tok ps) = md \<and> md = int (length (tk_stack (ps_tok ps)))
     \<and> take (Suc (length below)) (tk_stack (ps_tok ps)) = below @ [r]
     \<and> tk_err (ps_tok ps) = json_tokener_success
     \<and> 0 \<le> char_offset (ps_tok ps) \<and> char_offset (ps_tok ps) + int (length s) = K \<and> K < 2 ^ 28
     \<and> ps_str ps = s \<and> s \<noteq> [] \<and> ps_c ps = hd s"

lemma seesD:
  assumes "sees K md ps below r s"
  shows "pb_inv (tk_pb (ps_tok ps))" "size (tk_pb (ps_tok ps)) < 2 ^ 30"
    "tk_depth (ps_tok ps) = int (length below)" "length below < length (tk_stack (ps_tok ps))"
    "max_depth (ps_tok ps) = md" "tk_err (ps_tok ps) = json_tokener_success"
    "0 \<le> char_offset (ps_tok ps)" "char_offset (ps_tok ps) + int (length s) = K" "K < 2 ^ 28"
    "ps_str ps = s" "s \<noteq> []" "ps_c ps = hd s" "md = int (length (tk_stack (ps_tok ps)))"
  using assms by (simp_all add: sees_def)

lemma sees_top:
  assumes "sees K md ps below r s"
  shows "top (ps_tok ps) = r" "level_ok (ps_tok ps) (tk_depth (ps_tok ps))"
proof -
  have "tk_stack (ps_tok ps) ! length below = take (Suc (length below)) (tk_stack (ps_tok ps)) ! length below"
    by simp
  also have "\<dots> = r" using assms by (simp add: sees_def)
  finally show "top (ps_tok ps) = r" using seesD(3) [OF assms] by (simp add: top_def)
  show "level_ok (ps_tok ps) (tk_depth (ps_tok ps))" using seesD(3,4) [OF assms] by (simp add: level_ok_def)
qed

lemma sees_set_top:
  "sees K md ps below r s \<Longrightarrow> sees K md (upd_tok (set_top f) ps) below (f r) s"
  using sees_top [of K md ps below r s] by (simp add: sees_def set_top_def take_update_swap)

lemma sees_goto: "sees K md ps below r s \<Longrightarrow> sees K md (upd_tok (goto_state x) ps) below (r\<lparr>sr_state := x\<rparr>) s"
  unfolding goto_state_def by (rule sees_set_top)

lemma sees_eatws_then:
  "sees K md ps below r s \<Longrightarrow>
   sees K md (upd_tok (eatws_then x) ps) below (r\<lparr>sr_state := st_eatws, sr_saved := x\<rparr>) s"
  unfolding eatws_then_def by (rule sees_set_top)

text \<open>The fields of the tokener \<open>sees\<close> does not look at.\<close>

lemma sees_ignores [simp]:
  "sees K md (ps\<lparr>ps_obj := v\<rparr>) below r s = sees K md ps below r s"
  "sees K md (ps\<lparr>ps_tok := t\<lparr>st_pos := n\<rparr>\<rparr>) below r s = sees K md (ps\<lparr>ps_tok := t\<rparr>) below r s"
  "sees K md (ps\<lparr>ps_tok := t\<lparr>is_double := b\<rparr>\<rparr>) below r s = sees K md (ps\<lparr>ps_tok := t\<rparr>) below r s"
  "sees K md (ps\<lparr>ps_tok := t\<lparr>quote_char := q\<rparr>\<rparr>) below r s = sees K md (ps\<lparr>ps_tok := t\<rparr>) below r s"
  "sees K md (ps\<lparr>ps_tok := t\<lparr>ucs_char := w\<rparr>\<rparr>) below r s = sees K md (ps\<lparr>ps_tok := t\<rparr>) below r s"
  by (simp_all add: sees_def)

lemma sees_pb:
  "sees K md ps below r s \<Longrightarrow> pb_inv p \<Longrightarrow> size p < 2 ^ 30 \<Longrightarrow>
   sees K md (upd_tok (\<lambda>t. t\<lparr>tk_pb := p\<rparr>) ps) below r s"
  by (simp add: sees_def)

section \<open>Turns\<close>

lemma tok_step_sees:
  "sees K md ps below r s \<Longrightarrow> tok_step lib len ps = step_of (sr_state r) lib len ps"
  using sees_top [of K md ps below r s] by (simp add: tok_step_def)

lemma reaches_redo:
  assumes "sees K md ps below r s" "step_of (sr_state r) lib (-1) ps = Some (Redo, ps')"
  shows "reaches lib ps ps'"
  using assms(2) unfolding reaches_def
  by (subst parse_loop.simps) (simp add: parse_turn_def tok_step_sees [OF assms(1)])

text \<open>One character further.\<close>

definition adv :: "nat \<Rightarrow> pst \<Rightarrow> pst" where
  "adv n ps = ps\<lparr>ps_str := drop n (ps_str ps), ps_c := hd (drop n (ps_str ps)),
     ps_tok := (ps_tok ps)\<lparr>char_offset := char_offset (ps_tok ps) + int n\<rparr>\<rparr>"

lemma adv_sel [simp]:
  "tk_pb (ps_tok (adv n ps)) = tk_pb (ps_tok ps)" "ps_obj (adv n ps) = ps_obj ps"
  "st_pos (ps_tok (adv n ps)) = st_pos (ps_tok ps)" "is_double (ps_tok (adv n ps)) = is_double (ps_tok ps)"
  "quote_char (ps_tok (adv n ps)) = quote_char (ps_tok ps)" "ucs_char (ps_tok (adv n ps)) = ucs_char (ps_tok ps)"
  "tk_flags (ps_tok (adv n ps)) = tk_flags (ps_tok ps)"
  "ps_str (adv n ps) = drop n (ps_str ps)" "ps_c (adv n ps) = hd (drop n (ps_str ps))"
  by (simp_all add: adv_def)

lemma sees_adv:
  "sees K md ps below r (pre @ s) \<Longrightarrow> s \<noteq> [] \<Longrightarrow> sees K md (adv (length pre) ps) below r s"
  by (simp add: sees_def adv_def)

lemma ADVANCE_sees:
  assumes "sees K md ps below r (c # s)"
  shows "ADVANCE_CHAR ps =
    Some (c \<noteq> NUL, ps\<lparr>ps_str := s, ps_tok := (ps_tok ps)\<lparr>char_offset := char_offset (ps_tok ps) + 1\<rparr>\<rparr>)"
proof -
  have "i32 (char_offset (ps_tok ps) + 1) = Some (char_offset (ps_tok ps) + 1)"
    by (rule i32_ok) (use seesD(7-9) [OF assms] in simp_all)
  then show ?thesis using seesD(10,12) [OF assms] by (simp add: ADVANCE_CHAR_def del: i32_eq_Some)
qed

lemma PEEK_ok:
  assumes "0 \<le> char_offset (ps_tok ps)" "ps_str ps = c # s"
  shows "PEEK_CHAR (-1) ps = Some (True, ps\<lparr>ps_c := c\<rparr>)"
  using assms by (simp add: PEEK_CHAR_def)

lemma next_char_sees:
  assumes "sees K md ps below r (c # x # s)" "c \<noteq> NUL"
  shows "next_char (-1) ps = Some (True, adv 1 ps)"
  using assms(2) seesD(7,10) [OF assms(1)]
  by (simp add: next_char_def ADVANCE_sees [OF assms(1)] PEEK_CHAR_def adv_def)

lemma reaches_brk:
  assumes "sees K md ps below r s" "step_of (sr_state r) lib (-1) ps = Some (Brk, ps')"
    and "sees K md ps' below' r' (c # x # s')" "c \<noteq> NUL"
  shows "reaches lib ps (adv 1 ps')" "sees K md (adv 1 ps') below' r' (x # s')"
proof -
  let ?q = "ps'\<lparr>ps_str := x # s', ps_tok := (ps_tok ps')\<lparr>char_offset := char_offset (ps_tok ps') + 1\<rparr>\<rparr>"
  have "parse_loop lib (-1) True ps = parse_loop lib (-1) False ?q"
    using assms(2,4)
    by (subst parse_loop.simps) (simp add: parse_turn_def tok_step_sees [OF assms(1)] ADVANCE_sees [OF assms(3)])
  also have "\<dots> = parse_loop lib (-1) True (?q\<lparr>ps_c := x\<rparr>)"
    using seesD(7) [OF assms(3)]
    by (subst (1 2) parse_loop.simps) (simp add: parse_turn_def PEEK_CHAR_def)
  also have "?q\<lparr>ps_c := x\<rparr> = adv 1 ps'" using seesD(10) [OF assms(3)] by (simp add: adv_def)
  finally show "reaches lib ps (adv 1 ps')" by (simp add: reaches_def)
  show "sees K md (adv 1 ps') below' r' (x # s')"
    using sees_adv [of K md ps' below' r' "[c]" "x # s'"] assms(3) by simp
qed

text \<open>The tighter loops, when the stopping character is there.\<close>

lemma scan_run:
  assumes "sees K md ps below r (pre @ c # s)" "\<forall>x\<in>set pre. \<not> stop x \<and> x \<noteq> NUL" "stop c"
  shows "scan (\<lambda>x t. if P x then t\<lparr>is_double := True\<rparr> else t) stop (-1) ps =
    Some (True, upd_tok (\<lambda>t. t\<lparr>is_double := is_double t \<or> (\<exists>x\<in>set pre. P x)\<rparr>) (adv (length pre) ps))"
  using assms
proof (induction pre arbitrary: ps)
  case Nil
  then have "ps_c ps = c" "ps_str ps = c # s" using seesD(10,12) by fastforce+
  then show ?case using Nil.prems(3) by (simp add: scan.simps [of _ _ _ ps] adv_def)
next
  case (Cons x pre)
  let ?eff = "\<lambda>x t. if P x then t\<lparr>is_double := True\<rparr> else t"
  let ?q = "upd_tok (?eff x) ps"
  have x: "ps_c ps = x" "\<not> stop x" "x \<noteq> NUL" using Cons.prems seesD(12) [OF Cons.prems(1)] by simp_all
  have q: "sees K md ?q below r (x # (pre @ c # s))" using Cons.prems(1) by simp
  then have n: "next_char (-1) ?q = Some (True, adv 1 ?q)"
    using x next_char_sees [of K md ?q below r x "hd (pre @ c # s)" "tl (pre @ c # s)"] by (cases pre) simp_all
  have "sees K md (adv 1 ?q) below r (pre @ c # s)"
    using sees_adv [of K md ?q below r "[x]" "pre @ c # s"] q by simp
  from Cons.IH [OF this] Cons.prems(2,3)
  have "scan ?eff stop (-1) (adv 1 ?q) =
      Some (True, upd_tok (\<lambda>t. t\<lparr>is_double := is_double t \<or> (\<exists>x\<in>set pre. P x)\<rparr>) (adv (length pre) (adv 1 ?q)))"
    by simp
  then show ?case
    using x n by (subst scan.simps) (simp add: adv_def algebra_simps)
qed

lemma passed_adv:
  "ps_str ps = pre @ s \<Longrightarrow> passed (pre @ s) (upd_tok f (adv (length pre) ps)) = pre"
  by (simp add: passed_def adv_def)

section \<open>The buffer\<close>

abbreviation acc :: "pst \<Rightarrow> string" where
  "acc ps \<equiv> pb_str (tk_pb (ps_tok ps))"

lemma length_pb_str: "pb_inv p \<Longrightarrow> int (length (pb_str p)) = bpos p"
  by (simp add: pb_inv_def pb_str_def min_def) linarith

lemma pb_bytes_pb_str: "pb_inv p \<Longrightarrow> pb_bytes p = Some (pb_str p)"
  using length_pb_str [of p] by (auto simp: pb_inv_def pb_bytes_def pb_str_def Let_def)

lemma append_run:
  assumes "lib_ok lib" "sees K md ps below r s" "length (acc ps) + length bs < 2 ^ 28"
  obtains p where "append_fast lib bs ps = Some (upd_tok (\<lambda>t. t\<lparr>tk_pb := p\<rparr>) ps)"
    "pb_str p = acc ps @ bs" "read_cstr (buf p) = Some (cstr (acc ps @ bs))"
    "pb_inv p" "size p < 2 ^ 30"
    "sees K md (upd_tok (\<lambda>t. t\<lparr>tk_pb := p\<rparr>) ps) below r s"
proof -
  have "pb_room (length bs) (tk_pb (ps_tok ps))"
    using seesD(1,2) [OF assms(2)] length_pb_str [OF seesD(1) [OF assms(2)]] assms(3)
    by (simp add: pb_room_def)
  then obtain p where p: "printbuf_memappend_fast mem_ok (tk_pb (ps_tok ps)) bs = Some p"
    "pb_str p = acc ps @ bs" "pb_terminated p" "pb_room 0 p"
    by (cases rule: printbuf_memappend_fast_cases [of _ _ bs mem_ok, OF _ order_refl]) simp_all
  then have i: "pb_inv p" "size p < 2 ^ 30" by (simp_all add: pb_room_def)
  show thesis
    by (rule that [of p])
      (use p i assms(1) read_cstr_terminated [of p] sees_pb [OF assms(2)] in
        \<open>simp_all add: append_fast_def lib_ok_def\<close>)
qed

lemma reset_run:
  assumes "sees K md ps below r s"
  obtains p where "pb_reset ps = Some (upd_tok (\<lambda>t. t\<lparr>tk_pb := p\<rparr>) ps)" "pb_str p = []"
    "sees K md (upd_tok (\<lambda>t. t\<lparr>tk_pb := p\<rparr>) ps) below r s"
proof -
  obtain p where p: "printbuf_reset (tk_pb (ps_tok ps)) = Some p" "pb_str p = []" "pb_room 0 p"
    using printbuf_reset_room [OF seesD(1,2) [OF assms], of 0] by auto
  then have i: "pb_inv p" "size p < 2 ^ 30" by (simp_all add: pb_room_def)
  show thesis by (rule that [of p]) (use p sees_pb [OF assms i] in \<open>simp_all add: pb_reset_def\<close>)
qed

section \<open>White space and the ends of values\<close>

text \<open>A goal reached from a point of the run.\<close>

definition goes :: "libc \<Rightarrow> pst \<Rightarrow> (pst \<Rightarrow> bool) \<Rightarrow> bool" where
  "goes lib ps P \<longleftrightarrow> (\<exists>ps'. reaches lib ps ps' \<and> P ps')"

lemma goesI: "reaches lib ps ps' \<Longrightarrow> P ps' \<Longrightarrow> goes lib ps P"
  by (auto simp: goes_def)

lemma goes_trans:
  "goes lib ps P \<Longrightarrow> (\<And>ps'. P ps' \<Longrightarrow> goes lib ps' Q) \<Longrightarrow> goes lib ps Q"
  by (auto simp: goes_def intro: reaches_trans)

lemma goes_mono: "goes lib ps P \<Longrightarrow> (\<And>ps'. P ps' \<Longrightarrow> Q ps') \<Longrightarrow> goes lib ps Q"
  by (auto simp: goes_def)

lemma goes_reaches: "reaches lib ps ps' \<Longrightarrow> goes lib ps' P \<Longrightarrow> goes lib ps P"
  by (auto simp: goes_def intro: reaches_trans)

lemma brk_goes:
  assumes "sees K md ps below r s" "step_of (sr_state r) lib (-1) ps = Some (Brk, ps')"
    and "sees K md ps' below' r' (c # x # s')" "c \<noteq> NUL"
  shows "goes lib ps (\<lambda>ps'. sees K md ps' below' r' (x # s'))"
  using goesI [of lib ps "adv 1 ps'" "\<lambda>ps'. sees K md ps' below' r' (x # s')"] reaches_brk [OF assms] by blast

abbreviation ws :: "string \<Rightarrow> bool" where "ws w \<equiv> \<forall>c\<in>set w. isspace c"

lemma scan_id_run:
  assumes "sees K md ps below r (pre @ c # s)" "\<forall>x\<in>set pre. \<not> stop x \<and> x \<noteq> NUL" "stop c"
  shows "scan (\<lambda>_ t. t) stop (-1) ps = Some (True, adv (length pre) ps)"
  using scan_run [OF assms, of "\<lambda>_. False"] by simp

lemma eatws_run:
  assumes "sees K md ps below r (w @ c # s)" "sr_state r = st_eatws" "ws w" "\<not> isspace c" "c \<noteq> CHR ''/''"
  shows "goes lib ps (\<lambda>ps'. sees K md ps' below (r\<lparr>sr_state := sr_saved r\<rparr>) (c # s)
    \<and> ps_obj ps' = ps_obj ps)"
proof -
  let ?q = "adv (length w) ps"
  have q: "sees K md ?q below r (c # s)" using sees_adv [OF assms(1)] by simp
  have "\<forall>x\<in>set w. \<not> \<not> isspace x \<and> x \<noteq> NUL" using assms(3) by auto
  then have sc: "scan (\<lambda>_ t. t) (\<lambda>c. \<not> isspace c) (-1) ps = Some (True, ?q)"
    by (rule scan_id_run [OF assms(1)]) (rule assms(4))
  have "step_of (sr_state r) lib (-1) ps = Some (Redo, upd_tok (\<lambda>t. goto_state (sr_saved (top t)) t) ?q)"
    using assms(2,5) seesD(12) [OF q] by (simp add: step_eatws_def sc leave_def)
  then have "reaches lib ps (upd_tok (goto_state (sr_saved r)) ?q)"
    using reaches_redo [OF assms(1)] sees_top(1) [OF q] by simp
  then show ?thesis by (rule goesI) (use sees_goto [OF q] in simp)
qed

text \<open>A level: white space comes next, then the state \<open>s\<close>.\<close>

definition lvl :: "json_tokener_state \<Rightarrow> jval \<Rightarrow> string option \<Rightarrow> srec" where
  "lvl s v k = \<lparr>sr_state = st_eatws, sr_saved = s, sr_current = v, sr_field_name = k\<rparr>"

lemma lvl_sel [simp]:
  "sr_state (lvl s v k) = st_eatws" "sr_saved (lvl s v k) = s" "sr_current (lvl s v k) = v"
  "sr_field_name (lvl s v k) = k"
  by (simp_all add: lvl_def)

text \<open>The value at a deeper level is complete: it goes to \<open>obj\<close> and the level above resumes.\<close>

lemma finish_run:
  assumes "sees K md ps (below @ [r]) (lvl st_finish v k) (w @ c # s)" "ws w" "\<not> isspace c" "c \<noteq> CHR ''/''"
  shows "goes lib ps (\<lambda>ps'. sees K md ps' below r (c # s) \<and> ps_obj ps' = v)"
proof -
  let ?r = "(lvl st_finish v k)\<lparr>sr_state := st_finish\<rparr>"
  have "goes lib ps (\<lambda>ps'. sees K md ps' (below @ [r]) ?r (c # s))"
    using goes_mono [OF eatws_run [OF assms(1) _ assms(2-4), of lib]] by simp
  then show ?thesis
  proof (rule goes_trans)
    fix ps'
    assume q: "sees K md ps' (below @ [r]) ?r (c # s)"
    define t where "t = (ps_tok ps')\<lparr>tk_stack := (tk_stack (ps_tok ps'))[Suc (length below) :=
        \<lparr>sr_state = st_eatws, sr_saved = st_start, sr_current = JNull, sr_field_name = None\<rparr>]\<rparr>"
    have reset: "json_tokener_reset_level (ps_tok ps') (tk_depth (ps_tok ps')) = Some t"
      using sees_top(2) [OF q] seesD(3) [OF q] by (simp add: json_tokener_reset_level_def t_def nat_add_distrib)
    have "step_of (sr_state ?r) lib (-1) ps' =
        Some (Redo, ps'\<lparr>ps_obj := v, ps_tok := t\<lparr>tk_depth := int (length below)\<rparr>\<rparr>)"
      using reset sees_top(1) [OF q] seesD(3) [OF q] by (simp add: step_finish_def Let_def t_def)
    from reaches_redo [OF q this]
    show "goes lib ps' (\<lambda>ps'. sees K md ps' below r (c # s) \<and> ps_obj ps' = v)"
    proof (rule goesI)
      have st: "take (Suc (Suc (length below))) (tk_stack (ps_tok ps')) = below @ [r, ?r]"
        using q by (simp add: sees_def)
      have "take (Suc (length below)) (tk_stack t) = take (Suc (length below)) (tk_stack (ps_tok ps'))"
        by (simp add: t_def)
      also have "\<dots> = take (Suc (length below)) (below @ [r, ?r])"
        unfolding st [symmetric] by (simp del: take_Suc_Cons)
      finally have "take (Suc (length below)) (tk_stack t) = below @ [r]" by simp
      then show "sees K md (ps'\<lparr>ps_obj := v, ps_tok := t\<lparr>tk_depth := int (length below)\<rparr>\<rparr>) below r (c # s)
          \<and> ps_obj (ps'\<lparr>ps_obj := v, ps_tok := t\<lparr>tk_depth := int (length below)\<rparr>\<rparr>) = v"
        using seesD [OF q] by (simp add: sees_def t_def)
    qed
  qed
qed

text \<open>One level down.\<close>

lemma descend_run:
  assumes "sees K md ps below r s" "step_of (sr_state r) lib (-1) ps = descend x ps"
    and "int (length below) + 1 < md"
  shows "goes lib ps (\<lambda>ps'. sees K md ps' (below @ [r\<lparr>sr_state := x\<rparr>]) (lvl st_start JNull None) s)"
proof -
  let ?t = "(goto_state x (ps_tok ps))\<lparr>tk_depth := int (length below) + 1\<rparr>"
  define t where "t = ?t\<lparr>tk_stack := (tk_stack ?t)[Suc (length below) := lvl st_start JNull None]\<rparr>"
  have q: "sees K md (upd_tok (goto_state x) ps) below (r\<lparr>sr_state := x\<rparr>) s" by (rule sees_goto [OF assms(1)])
  have "Suc (length below) < length (tk_stack (ps_tok ps))" using seesD(13) [OF assms(1)] assms(3) by linarith
  then have l: "Suc (length below) < length (tk_stack (goto_state x (ps_tok ps)))"
    by (simp add: goto_state_def set_top_def)
  then have "json_tokener_reset_level ?t (int (length below) + 1) = Some t"
    by (simp add: json_tokener_reset_level_def level_ok_def t_def lvl_def nat_add_distrib)
  then have "descend x ps = Some (Redo, ps\<lparr>ps_tok := t\<rparr>)"
    using seesD(3,5) [OF assms(1)] assms(3) by (simp add: descend_def Let_def)
  then have "reaches lib ps (ps\<lparr>ps_tok := t\<rparr>)" using reaches_redo [OF assms(1)] assms(2) by simp
  then show ?thesis
  proof (rule goesI)
    have "take (Suc (length below)) (tk_stack (goto_state x (ps_tok ps))) = below @ [r\<lparr>sr_state := x\<rparr>]"
      using q by (simp add: sees_def)
    then have "take (Suc (Suc (length below))) (tk_stack t) = below @ [r\<lparr>sr_state := x\<rparr>, lvl st_start JNull None]"
      using l by (simp add: t_def take_Suc_conv_app_nth)
    then show "sees K md (ps\<lparr>ps_tok := t\<rparr>) (below @ [r\<lparr>sr_state := x\<rparr>]) (lvl st_start JNull None) s"
      using l seesD [OF q] by (simp add: sees_def t_def)
  qed
qed

section \<open>Numbers and literals\<close>

text \<open>The functions of the C library behave: allocation succeeds and \<open>sscanf\<close> conforms.\<close>

definition lib_std :: "libc \<Rightarrow> bool" where
  "lib_std lib \<longleftrightarrow> lib_ok lib \<and> sscanf_d lib = std_sscanf \<and> \<not> sscanf_bad lib"

lemma lib_std_ok: "lib_std lib \<Longrightarrow> lib_ok lib"
  by (simp add: lib_std_def)

lemma finish_with_run:
  assumes "sees K md ps below r s0" "step_of (sr_state r) lib (-1) ps = finish_with lib v ps'" and lib: "lib_ok lib"
    and "sees K md ps' below r s" "sr_field_name r = k"
  shows "goes lib ps (\<lambda>ps'. sees K md ps' below (lvl st_finish v k) s)"
proof (rule goesI)
  show "reaches lib ps (upd_tok (eatws_then st_finish \<circ> set_current v) ps')"
    by (rule reaches_redo [OF assms(1)]) (simp add: assms(2) finish_with_def leave_def allocated_ok [OF lib])
  have "sees K md (upd_tok (eatws_then st_finish) (upd_tok (set_current v) ps')) below
      ((r\<lparr>sr_current := v\<rparr>)\<lparr>sr_state := st_eatws, sr_saved := st_finish\<rparr>) s"
    by (rule sees_eatws_then) (unfold set_current_def, rule sees_set_top [OF assms(4)])
  moreover have "(r\<lparr>sr_current := v\<rparr>)\<lparr>sr_state := st_eatws, sr_saved := st_finish\<rparr> = lvl st_finish v k"
    using assms(5) by (cases r) (simp add: lvl_def)
  ultimately show "sees K md (upd_tok (eatws_then st_finish \<circ> set_current v) ps') below (lvl st_finish v k) s"
    by simp
qed

definition dbl_char :: "char \<Rightarrow> bool" where
  "dbl_char c \<longleftrightarrow> c = CHR ''.'' \<or> c = CHR ''e'' \<or> c = CHR ''E''"

definition delimiter :: "char \<Rightarrow> bool" where
  "delimiter c \<longleftrightarrow> c = NUL \<or> c = CHR '','' \<or> c = CHR '']'' \<or> c = CHR ''}'' \<or> isspace c"

lemma delimiter_facts:
  assumes "delimiter c"
  shows "\<not> (c \<noteq> NUL \<and> strchr json_number_chars c)" "c \<noteq> CHR ''i''" "c \<noteq> CHR ''I''" "\<not> isdigit c"
proof -
  have "c = NUL \<or> c = CHR '','' \<or> c = CHR '']'' \<or> c = CHR ''}'' \<or> c = CHR '' '' \<or> c = CHR 0x09
      \<or> c = CHR 0x0A \<or> c = CHR 0x0B \<or> c = CHR 0x0C \<or> c = CHR 0x0D"
    using assms by (simp add: delimiter_def isspace_def)
  then show "\<not> (c \<noteq> NUL \<and> strchr json_number_chars c)" "c \<noteq> CHR ''i''" "c \<noteq> CHR ''I''" "\<not> isdigit c"
    by (elim disjE; simp add: strchr_def json_number_chars_def isdigit_def code_of_def)+
qed

lemma NUL_not_number: "\<forall>x\<in>set t. x \<in> set json_number_chars \<Longrightarrow> NUL \<notin> set t"
proof -
  have "NUL \<notin> set json_number_chars" by (simp add: json_number_chars_def)
  then show "\<forall>x\<in>set t. x \<in> set json_number_chars \<Longrightarrow> NUL \<notin> set t" by blast
qed

lemma number_run:
  assumes "lib_ok lib" "sees K md ps below r (t @ c # s)" "\<not> is_double (ps_tok ps)" "acc ps = []"
    and "\<forall>x\<in>set t. x \<in> set json_number_chars" "t \<noteq> []" "t \<noteq> ''-''" "delimiter c"
  obtains ps' where "step_number lib (-1) ps = number_value lib (-1) ps'" "sees K md ps' below r (c # s)"
    "read_cstr (buf (tk_pb (ps_tok ps'))) = Some t" "is_double (ps_tok ps') \<longleftrightarrow> (\<exists>x\<in>set t. dbl_char x)"
proof -
  have eff: "number_eff = (\<lambda>x t. if dbl_char x then t\<lparr>is_double := True\<rparr> else t)"
    by (intro ext) (simp add: number_eff_def dbl_char_def)
  have nonul: "NUL \<notin> set t" using NUL_not_number [OF assms(5)] .
  let ?q = "upd_tok (\<lambda>u. u\<lparr>is_double := is_double u \<or> (\<exists>x\<in>set t. dbl_char x)\<rparr>) (adv (length t) ps)"
  have "\<forall>x\<in>set t. \<not> \<not> (x \<noteq> NUL \<and> strchr json_number_chars x) \<and> x \<noteq> NUL"
    using assms(5) nonul by (auto simp: strchr_def)
  from scan_run [OF assms(2) this delimiter_facts(1) [OF assms(8)], of dbl_char]
  have sc: "scan number_eff (\<lambda>c. \<not> (c \<noteq> NUL \<and> strchr json_number_chars c)) (-1) ps = Some (True, ?q)"
    unfolding eff .
  have q: "sees K md ?q below r (c # s)" using sees_adv [OF assms(2)] by simp
  have str: "ps_str ps = t @ c # s" using seesD(10) [OF assms(2)] .
  have pass: "passed (ps_str ps) ?q = t" unfolding str by (rule passed_adv [OF str])
  have "length (acc ?q) + length t < 2 ^ 28" using assms(4) seesD(7-9) [OF assms(2)] by simp
  then obtain p where p: "append_fast lib t ?q = Some (upd_tok (\<lambda>u. u\<lparr>tk_pb := p\<rparr>) ?q)"
    "pb_str p = acc ?q @ t" "read_cstr (buf p) = Some (cstr (acc ?q @ t))" "pb_inv p" "size p < 2 ^ 30"
    "sees K md (upd_tok (\<lambda>u. u\<lparr>tk_pb := p\<rparr>) ?q) below r (c # s)"
    by (rule append_run [OF assms(1) q])
  let ?z = "upd_tok (\<lambda>u. u\<lparr>tk_pb := p\<rparr>) ?q"
  have read: "read_cstr (buf (tk_pb (ps_tok ?z))) = Some t"
    using p(3) assms(4) nonul by (simp add: cstr_id)
  have c: "ps_c ?z = c" using seesD(12) [OF p(6)] by simp
  show thesis
  proof (rule that [of ?z])
    show "step_number lib (-1) ps = number_value lib (-1) ?z"
      unfolding step_number_def Let_def sc bind.bind_lunit prod.case pass
      using assms(6) p(1) read c delimiter_facts(2,3) [OF assms(8)] by simp
    show "is_double (ps_tok ?z) \<longleftrightarrow> (\<exists>x\<in>set t. dbl_char x)" using assms(3) by simp
  qed (rule p(6), rule read)
qed

lemma isdigit_cases:
  assumes "isdigit c"
  shows "c \<in> set ''0123456789''"
proof -
  obtain n where n: "c = char_of n" "48 \<le> n" "n \<le> (57 :: nat)"
    using assms by (metis char_of_code_of isdigit_def)
  then have "n = 48 \<or> n = 49 \<or> n = 50 \<or> n = 51 \<or> n = 52 \<or> n = 53 \<or> n = 54 \<or> n = 55 \<or> n = 56 \<or> n = 57"
    by arith
  then show ?thesis unfolding n(1) by (elim disjE; simp add: char_of_def bit_0)
qed

lemma digit_not_dbl: "isdigit c \<Longrightarrow> \<not> dbl_char c" "isdigit c \<Longrightarrow> c \<in> set json_number_chars"
  by (drule isdigit_cases, force simp: dbl_char_def json_number_chars_def)+

lemma dec_leading: "c_hd (dec n) = CHR ''0'' \<Longrightarrow> n = 0"
proof (induction n rule: dec.induct)
  case (1 n)
  show ?case
  proof (cases "n < 10")
    case True
    then have "digit n = CHR ''0''" using 1 by (simp add: dec.simps [of n])
    then show ?thesis using True digit_val_digit [of n] by (metis digit_val_zero)
  next
    case False
    then have "dec n = dec (n div 10) @ [digit (n mod 10)]" by (simp add: dec.simps [of n])
    then have "c_hd (dec (n div 10)) = CHR ''0''" using 1 by (cases "dec (n div 10)") auto
    then show ?thesis using 1 False by simp
  qed
qed

lemma show_int_chars:
  "\<forall>x\<in>set (show_int i). x \<in> set json_number_chars \<and> \<not> dbl_char x" "show_int i \<noteq> []" "show_int i \<noteq> ''-''"
  "i \<noteq> 0 \<Longrightarrow> c_hd (show_int i) \<noteq> CHR ''0''" "isdigit (c_hd (show_int i)) \<or> c_hd (show_int i) = CHR ''-''"
proof -
  have "\<forall>x\<in>set (dec n). x \<in> set json_number_chars \<and> \<not> dbl_char x" for n
    using all_digits_dec [of n] digit_not_dbl by blast
  moreover have "CHR ''-'' \<in> set json_number_chars" "\<not> dbl_char CHR ''-''"
    by (simp_all add: dbl_char_def json_number_chars_def)
  ultimately show "\<forall>x\<in>set (show_int i). x \<in> set json_number_chars \<and> \<not> dbl_char x"
    by (simp add: show_int_def)
  have d: "isdigit (c_hd (dec n))" for n using all_digits_dec [of n] dec_not_Nil [of n] by (cases "dec n") auto
  then have "dec n \<noteq> ''-''" for n by (metis c_hd_simps(2) isdigit_signs(1))
  then show "show_int i \<noteq> ''-''" by (simp add: show_int_def)
  show "i \<noteq> 0 \<Longrightarrow> c_hd (show_int i) \<noteq> CHR ''0''" using dec_leading [of "nat i"] by (cases "i < 0") (auto simp: show_int_def)
  show "isdigit (c_hd (show_int i)) \<or> c_hd (show_int i) = CHR ''-''" using d by (simp add: show_int_def)
qed (simp add: show_int_def)

lemma int_run:
  assumes "lib_std lib" "sees K md ps below r (show_int i @ c # s)" "\<not> is_double (ps_tok ps)" "acc ps = []"
    and "sr_state r = st_number" "delimiter c" "in_i64 i"
  shows "goes lib ps (\<lambda>ps'. sees K md ps' below (lvl st_finish (JInt i) (sr_field_name r)) (c # s))"
proof -
  obtain ps' where ps': "step_number lib (-1) ps = number_value lib (-1) ps'" "sees K md ps' below r (c # s)"
    "read_cstr (buf (tk_pb (ps_tok ps'))) = Some (show_int i)" "\<not> is_double (ps_tok ps')"
    by (rule number_run [OF lib_std_ok [OF assms(1)] assms(2-4) _ _ _ assms(6)])
      (use show_int_chars [of i] in auto)
  have "scan_int (show_int i) = Some i" using scan_show_int [of "[]" i] by simp
  then have "number_value lib (-1) ps' = finish_with lib (JInt i) ps'"
    using assms(1,7) ps'(3,4) show_int_chars(4) [of i]
    by (auto simp: number_value_def lib_std_def parse_int64_conforming clamp64_in json_object_new_int64_def)
  then show ?thesis
    using finish_with_run [OF assms(2) _ lib_std_ok [OF assms(1)] ps'(2) refl, of "JInt i"] ps'(1) assms(5) by simp
qed

definition dtext :: "libc \<Rightarrow> double \<Rightarrow> string \<Rightarrow> bool" where
  "dtext lib d t \<longleftrightarrow> (\<forall>x\<in>set t. x \<in> set json_number_chars) \<and> (\<exists>x\<in>set t. dbl_char x)
     \<and> (isdigit (c_hd t) \<or> c_hd t = CHR ''-'') \<and> sscanf_lf lib t = Some d"

lemma double_run:
  assumes "lib_std lib" "sees K md ps below r (t @ c # s)" "\<not> is_double (ps_tok ps)" "acc ps = []"
    and "sr_state r = st_number" "delimiter c" "dtext lib d t"
  shows "goes lib ps (\<lambda>ps'. sees K md ps' below (lvl st_finish (JDouble d (Some t)) (sr_field_name r)) (c # s))"
proof -
  have t: "\<forall>x\<in>set t. x \<in> set json_number_chars" "\<exists>x\<in>set t. dbl_char x" "sscanf_lf lib t = Some d"
    using assms(7) by (simp_all add: dtext_def)
  then have "t \<noteq> []" "t \<noteq> ''-''" by (auto simp: dbl_char_def)
  then obtain ps' where ps': "step_number lib (-1) ps = number_value lib (-1) ps'" "sees K md ps' below r (c # s)"
    "read_cstr (buf (tk_pb (ps_tok ps'))) = Some t" "is_double (ps_tok ps')"
    using number_run [OF lib_std_ok [OF assms(1)] assms(2-4) t(1) _ _ assms(6)] t(2) by metis
  have "number_value lib (-1) ps' = finish_with lib (JDouble d (Some t)) ps'"
    using ps'(3,4) t(3) cstr_id [OF NUL_not_number [OF t(1)]]
    by (simp add: number_value_def json_object_new_double_s_def)
  then show ?thesis
    using finish_with_run [OF assms(2) _ lib_std_ok [OF assms(1)] ps'(2) refl, of "JDouble d (Some t)"] ps'(1) assms(5) by simp
qed

lemma strneq_take: "strneq n s (take n s)"
proof (induction n arbitrary: s)
  case (Suc n)
  then show ?case by (cases s) auto
qed simp

lemma strneq_append: "strneq (length s) s (s @ t)"
  by (induction s) auto

lemma lit_match_prefix:
  assumes "st_pos t = int k" "k < length lit"
  shows "lit_match t lit (take (Suc k) lit)"
proof -
  have "nat (min (st_pos t + 1) (int (length lit))) = Suc k" using assms by (simp add: min_def nat_add_distrib)
  then show ?thesis unfolding lit_match_def Let_def by (metis strneq_take)
qed

text \<open>
  A literal, read from its \<open>k\<close>-th character on. The step of the state is described by \<open>step\<close>: a
  buffer that starts like the literal either completes it or asks for more.
\<close>

lemma literal_run:
  assumes lib: "lib_ok lib" and lit: "NUL \<notin> set lit" "lit \<noteq> []" "length lit < 100"
    and step: "\<And>ps ps1 b. append_fast lib [ps_c ps] ps = Some ps1 \<Longrightarrow>
      read_cstr (buf (tk_pb (ps_tok ps1))) = Some b \<Longrightarrow> lit_match (ps_tok ps1) lit b \<Longrightarrow>
      c_hd b = c_hd lit \<Longrightarrow> 0 \<le> st_pos (ps_tok ps1) \<Longrightarrow>
      step_of X lib (-1) ps = (if lit_done (ps_tok ps1) lit then finish_with lib v ps1 else more_literal ps1)"
    and "sees K md ps below r (drop k lit @ c # s)" "sr_state r = X" "acc ps = take k lit"
    and "st_pos (ps_tok ps) = int k" "k \<le> length lit"
  shows "goes lib ps (\<lambda>ps'. sees K md ps' below (lvl st_finish v (sr_field_name r)) (c # s))"
  using assms(6-)
proof (induction "length lit - k" arbitrary: k ps)
  case 0
  then have k: "k = length lit" by simp
  then have sees: "sees K md ps below r (c # s)" using 0 by simp
  obtain p where p: "append_fast lib [c] ps = Some (upd_tok (\<lambda>u. u\<lparr>tk_pb := p\<rparr>) ps)"
    "pb_str p = acc ps @ [c]" "read_cstr (buf p) = Some (cstr (acc ps @ [c]))" "pb_inv p" "size p < 2 ^ 30"
    "sees K md (upd_tok (\<lambda>u. u\<lparr>tk_pb := p\<rparr>) ps) below r (c # s)"
    by (rule append_run [OF lib sees, of "[c]"]) (use 0 k lit in simp_all)
  have b: "cstr (acc ps @ [c]) = lit @ cstr [c]" using 0 k lit(1) by (simp add: cstr_append)
  have "lit_match (ps_tok (upd_tok (\<lambda>u. u\<lparr>tk_pb := p\<rparr>) ps)) lit (lit @ cstr [c])"
    using 0 k strneq_append [of lit] by (simp add: lit_match_def)
  moreover have "c_hd (lit @ cstr [c]) = c_hd lit" using lit(2) by (cases lit) simp_all
  ultimately have "step_of X lib (-1) ps = finish_with lib v (upd_tok (\<lambda>u. u\<lparr>tk_pb := p\<rparr>) ps)"
    using step [of ps "upd_tok (\<lambda>u. u\<lparr>tk_pb := p\<rparr>) ps" "lit @ cstr [c]"] p(1,3) b seesD(12) [OF sees] 0 k
    by (simp add: lit_done_def)
  then show ?case using finish_with_run [OF sees _ lib p(6) refl, of v] 0 by simp
next
  case (Suc n)
  then have k: "k < length lit" by simp
  obtain x where x: "lit ! k = x" "drop k lit = x # drop (Suc k) lit" "x \<noteq> NUL"
    using k lit(1) by (metis Cons_nth_drop_Suc nth_mem)
  have pre: "take (Suc k) lit = take k lit @ [x]" using k x(1) by (simp add: take_Suc_conv_app_nth)
  let ?s = "drop (Suc k) lit @ c # s"
  have sees: "sees K md ps below r (x # ?s)" using Suc.prems(1) x(2) by simp
  obtain p where p: "append_fast lib [x] ps = Some (upd_tok (\<lambda>u. u\<lparr>tk_pb := p\<rparr>) ps)"
    "pb_str p = acc ps @ [x]" "read_cstr (buf p) = Some (cstr (acc ps @ [x]))" "pb_inv p" "size p < 2 ^ 30"
    "sees K md (upd_tok (\<lambda>u. u\<lparr>tk_pb := p\<rparr>) ps) below r (x # ?s)"
    by (rule append_run [OF lib sees, of "[x]"]) (use Suc.prems lit in simp_all)
  let ?q = "upd_tok (\<lambda>u. u\<lparr>tk_pb := p\<rparr>) ps"
  have "NUL \<notin> set (take (Suc k) lit)" using lit(1) by (meson in_set_takeD)
  then have b: "cstr (acc ps @ [x]) = take (Suc k) lit" using Suc.prems(3) pre by (simp add: cstr_id)
  have "lit_match (ps_tok ?q) lit (take (Suc k) lit)" using Suc.prems(4) k by (simp add: lit_match_prefix)
  moreover have "c_hd (take (Suc k) lit) = c_hd lit" using lit(2) by (cases lit) simp_all
  ultimately have "step_of (sr_state r) lib (-1) ps = Some (Brk, upd_tok (\<lambda>t. t\<lparr>st_pos := st_pos t + 1\<rparr>) ?q)"
    using step [of ps ?q "take (Suc k) lit"] p(1,3) b seesD(12) [OF sees] Suc.prems(2,4) k
    by (simp add: lit_done_def more_literal_def leave_def)
  from reaches_brk [OF sees this, of below r x "hd ?s" "tl ?s"] p(6) x(3)
  have n: "reaches lib ps (adv 1 (upd_tok (\<lambda>t. t\<lparr>st_pos := st_pos t + 1\<rparr>) ?q))"
    "sees K md (adv 1 (upd_tok (\<lambda>t. t\<lparr>st_pos := st_pos t + 1\<rparr>) ?q)) below r ?s"
    by (cases "drop (Suc k) lit"; simp)+
  show ?case
    by (rule goes_reaches [OF n(1)], rule Suc.hyps(1) [of "Suc k"])
      (use n(2) Suc.hyps(2) Suc.prems p(2) pre k in simp_all)
qed

lemma not_true_false: "c_hd b = CHR ''f'' \<Longrightarrow> 0 \<le> st_pos t \<Longrightarrow> \<not> lit_match t json_true_str b"
proof -
  assume b: "c_hd b = CHR ''f''" "0 \<le> st_pos t"
  then obtain m where "nat (min (st_pos t + 1) (int (length json_true_str))) = Suc m"
    by (cases "nat (min (st_pos t + 1) (int (length json_true_str)))") (auto simp: json_true_str_def)
  then show ?thesis
    using b(1) by (cases b) (auto simp: lit_match_def Let_def strncaseeq_def json_true_str_def tolower_def code_of_def)
qed

lemma null_run:
  assumes "lib_ok lib" "sees K md ps below r (''null'' @ c # s)" "sr_state r = st_null" "acc ps = []"
    "st_pos (ps_tok ps) = 0"
  shows "goes lib ps (\<lambda>ps'. sees K md ps' below (lvl st_finish JNull (sr_field_name r)) (c # s))"
  by (rule literal_run [OF assms(1), of "''null''" st_null _ _ _ _ _ _ 0])
    (use assms in \<open>auto simp: step_null_def json_null_str_def\<close>)

lemma true_run:
  assumes "lib_ok lib" "sees K md ps below r (''true'' @ c # s)" "sr_state r = st_boolean" "acc ps = []"
    "st_pos (ps_tok ps) = 0"
  shows "goes lib ps (\<lambda>ps'. sees K md ps' below (lvl st_finish (JBool 1) (sr_field_name r)) (c # s))"
  by (rule literal_run [OF assms(1), of "''true''" st_boolean _ _ _ _ _ _ 0])
    (use assms in \<open>auto simp: step_boolean_def json_true_str_def json_object_new_boolean_def\<close>)

lemma false_run:
  assumes "lib_ok lib" "sees K md ps below r (''false'' @ c # s)" "sr_state r = st_boolean" "acc ps = []"
    "st_pos (ps_tok ps) = 0"
  shows "goes lib ps (\<lambda>ps'. sees K md ps' below (lvl st_finish (JBool 0) (sr_field_name r)) (c # s))"
  by (rule literal_run [OF assms(1), of "''false''" st_boolean _ _ _ _ _ _ 0])
    (use assms not_true_false in \<open>auto simp: step_boolean_def json_false_str_def json_object_new_boolean_def\<close>)

lemma inf_run:
  assumes "lib_ok lib" "sees K md ps below r (''Infinity'' @ c # s)" "sr_state r = st_inf" "acc ps = []"
    "st_pos (ps_tok ps) = 0"
  shows "goes lib ps (\<lambda>ps'. sees K md ps' below (lvl st_finish (JDouble d_inf None) (sr_field_name r)) (c # s))"
  by (rule literal_run [OF assms(1), of "''Infinity''" st_inf _ _ _ _ _ _ 0])
    (use assms in \<open>auto simp: step_inf_def json_inf_str_def json_object_new_double_def\<close>)

text \<open>A buffer is compared with \<open>null\<close> before \<open>NaN\<close>; they differ from the second character on.\<close>

lemma null_or_nan:
  assumes "lit_match t json_nan_str b" "lit_match t json_null_str b" "0 \<le> st_pos t"
  shows "st_pos t = 0"
proof (rule ccontr)
  assume "st_pos t \<noteq> 0"
  then have pos: "2 \<le> st_pos t + 1" using assms(3) by simp
  have size: "\<exists>m. nat (min (st_pos t + 1) n) = Suc (Suc m)" if "2 \<le> n" for n :: int
  proof -
    have "2 \<le> nat (min (st_pos t + 1) n)" using pos that by simp
    then show ?thesis by (metis add_2_eq_Suc le_Suc_ex)
  qed
  obtain m m' where size2: "nat (min (st_pos t + 1) 3) = Suc (Suc m)" "nat (min (st_pos t + 1) 4) = Suc (Suc m')"
    using size [of 3] size [of 4] by auto
  have ua: False if "CHR ''u'' = x" "CHR ''a'' = x" for x
    using trans [OF that(1) that(2) [symmetric]] by simp
  show False
    using assms(1,2) size2
    by (cases b; cases "tl b") (auto simp: lit_match_def Let_def strncaseeq_def json_nan_str_def json_null_str_def
        tolower_def code_of_def split: if_splits, (erule ua, assumption)+)
qed

lemma nan_run:
  assumes "lib_ok lib" "sees K md ps below r (''NaN'' @ c # s)" "sr_state r = st_null" "acc ps = []"
    "st_pos (ps_tok ps) = 0"
  shows "goes lib ps (\<lambda>ps'. sees K md ps' below (lvl st_finish (JDouble d_nan None) (sr_field_name r)) (c # s))"
proof (rule literal_run [OF assms(1), of json_nan_str st_null _ _ _ _ _ _ 0])
  fix ps ps1 b
  assume a: "append_fast lib [ps_c ps] ps = Some ps1" "read_cstr (buf (tk_pb (ps_tok ps1))) = Some b"
    "lit_match (ps_tok ps1) json_nan_str b" "0 \<le> st_pos (ps_tok ps1)"
  show "step_of st_null lib (-1) ps =
      (if lit_done (ps_tok ps1) json_nan_str then finish_with lib (JDouble d_nan None) ps1 else more_literal ps1)"
    using a null_or_nan [OF a(3) _ a(4)]
    by (auto simp: step_null_def lit_done_def json_nan_str_def json_null_str_def json_object_new_double_def)
qed (use assms in \<open>simp_all add: json_nan_str_def\<close>)

section \<open>Strings\<close>

definition plain :: "char \<Rightarrow> bool" where
  "plain x \<longleftrightarrow> short_escape x = None \<and> 32 \<le> code_of x"

lemma plain_facts: "plain x \<Longrightarrow> x \<noteq> DQ \<and> x \<noteq> BSL \<and> x \<noteq> NUL" "plain x \<Longrightarrow> esc_char x = [x]"
proof -
  have "short_escape DQ \<noteq> None" "short_escape BSL \<noteq> None" "code_of NUL < 32"
    by (simp_all add: short_escape.simps code_of_def)
  then show "plain x \<Longrightarrow> x \<noteq> DQ \<and> x \<noteq> BSL \<and> x \<noteq> NUL" unfolding plain_def by fastforce
qed (simp add: plain_def esc_char_def)

lemma esc_plain: "\<forall>x\<in>set s. plain x \<Longrightarrow> esc s = s"
  by (induction s) (simp_all add: esc_def plain_facts)

lemma esc_append: "esc (s @ t) = esc s @ esc t"
  by (simp add: esc_def)

lemma esc_Cons: "esc (x # s) = esc_char x @ esc s"
  by (simp add: esc_def)

lemma not_plain_cases:
  assumes "\<not> plain x"
  obtains e where "short_escape x = Some [BSL, e]" "esc_char x = [BSL, e]"
  | "short_escape x = None" "code_of x < 32"
    "esc_char x = [BSL, CHR ''u'', CHR ''0'', CHR ''0'',
       json_hex_chars ! (code_of x div 16), json_hex_chars ! (code_of x mod 16)]"
proof (cases "short_escape x")
  case None
  then show thesis using assms that(2) by (simp add: plain_def esc_char_def)
next
  case (Some e)
  then show thesis using that(1) by (auto simp: short_escape.simps esc_char_def split: if_splits)
qed

text \<open>From the character after the backslash back to the state of the string.\<close>

lemma back_to_saved_sees:
  "sees K md ps below r s \<Longrightarrow> sees K md (upd_tok back_to_saved ps) below (r\<lparr>sr_state := sr_saved r\<rparr>) s"
  unfolding back_to_saved_def by (rule sees_set_top)

lemma short_escape_run:
  assumes "lib_ok lib" "short_escape x = Some [BSL, e]" "sees K md ps below r (e # c # s)"
    and "sr_state r = st_string_escape" "length (acc ps) < 2 ^ 28 - 1"
  shows "goes lib ps (\<lambda>ps'. sees K md ps' below (r\<lparr>sr_state := sr_saved r\<rparr>) (c # s)
    \<and> acc ps' = acc ps @ [x] \<and> quote_char (ps_tok ps') = quote_char (ps_tok ps))"
proof -
  obtain p where p: "append_fast lib [x] ps = Some (upd_tok (\<lambda>u. u\<lparr>tk_pb := p\<rparr>) ps)"
    "pb_str p = acc ps @ [x]" "read_cstr (buf p) = Some (cstr (acc ps @ [x]))" "pb_inv p" "size p < 2 ^ 30"
    "sees K md (upd_tok (\<lambda>u. u\<lparr>tk_pb := p\<rparr>) ps) below r (e # c # s)"
    by (rule append_run [OF assms(1,3), of "[x]"]) (use assms(5) in simp_all)
  have e: "e \<noteq> NUL" using assms(2) by (auto simp: short_escape.simps split: if_splits)
  have "step_string_escape lib (-1) ps = do { ps \<leftarrow> append_fast lib [x] ps; leave Brk back_to_saved ps }"
    using assms(2) seesD(12) [OF assms(3)]
    by (auto simp: short_escape.simps step_string_escape_def split: if_splits)
  then have "step_of (sr_state r) lib (-1) ps = Some (Brk, upd_tok back_to_saved (upd_tok (\<lambda>u. u\<lparr>tk_pb := p\<rparr>) ps))"
    using p(1) assms(4) by (simp add: leave_def)
  note b = reaches_brk [OF assms(3) this back_to_saved_sees [OF p(6)] e]
  show ?thesis
    by (rule goesI [OF b(1)]) (use b(2) p(2) in \<open>simp add: back_to_saved_def set_top_def\<close>)
qed

lemma hexdigit_hex: "i < 16 \<Longrightarrow> jt_hexdigit (json_hex_chars ! i) = int i \<and> json_hex_chars ! i \<in> set json_hex_chars
    \<and> json_hex_chars ! i \<noteq> NUL"
proof -
  assume "i < 16"
  then have "i = 0 \<or> i = 1 \<or> i = 2 \<or> i = 3 \<or> i = 4 \<or> i = 5 \<or> i = 6 \<or> i = 7 \<or> i = 8 \<or> i = 9 \<or> i = 10
      \<or> i = 11 \<or> i = 12 \<or> i = 13 \<or> i = 14 \<or> i = 15" by arith
  then show ?thesis by (elim disjE; simp add: json_hex_chars_def jt_hexdigit_def code_of_def)
qed

lemma unicode_digit:
  assumes "sees K md ps below r (json_hex_chars ! i # c # s)" "i < 16" "st_pos (ps_tok ps) = int n" "n < 3"
  shows "unicode_loop lib (-1) 0 ps = unicode_loop lib (-1) 0
    (adv 1 (upd_tok (\<lambda>t. t\<lparr>ucs_char := ucs_char t + push_bit ((3 - n) * 4) (of_nat i), st_pos := int (Suc n)\<rparr>) ps))"
proof -
  let ?f = "\<lambda>t. t\<lparr>ucs_char := ucs_char t + push_bit ((3 - n) * 4) (of_nat i), st_pos := int (Suc n)\<rparr>"
  have c: "ps_c ps = json_hex_chars ! i" using seesD(12) [OF assms(1)] by simp
  have "nat ((3 - int n) * 4) = (3 - n) * 4" using assms(4) by (simp add: nat_mult_distrib nat_diff_distrib)
  then have "add_hexdigit (ps_tok ps) (ps_c ps) = Some (?f (ps_tok ps))"
    using assms(3,4) hexdigit_hex [OF assms(2)] c by (simp add: add_hexdigit_def add.commute)
  moreover have "next_char (-1) (ps\<lparr>ps_tok := ?f (ps_tok ps)\<rparr>) = Some (True, adv 1 (upd_tok ?f ps))"
    using next_char_sees [of K md "upd_tok ?f ps" below r] assms(1) hexdigit_hex [OF assms(2)] by simp
  moreover have "strchr json_hex_chars (ps_c ps)" using hexdigit_hex [OF assms(2)] c by (simp add: strchr_def)
  ultimately show ?thesis using assms(4) by (subst unicode_loop.simps) simp
qed

lemma unicode_last:
  assumes "lib_ok lib" "sees K md ps below r (json_hex_chars ! i # s)" "i < 16" "st_pos (ps_tok ps) = 3"
    and "ucs_char (ps_tok ps) + of_nat i = of_nat (code_of x)" "code_of x < 32" "length (acc ps) < 2 ^ 28 - 1"
  obtains ps' where "unicode_loop lib (-1) 0 ps = Some (Brk, upd_tok back_to_saved ps')"
    "sees K md ps' below r (json_hex_chars ! i # s)" "acc ps' = acc ps @ [x]"
    "quote_char (ps_tok ps') = quote_char (ps_tok ps)"
proof -
  let ?f = "\<lambda>t. t\<lparr>ucs_char := of_nat (code_of x), st_pos := 4\<rparr>"
  have c: "ps_c ps = json_hex_chars ! i" using seesD(12) [OF assms(2)] by simp
  have a: "add_hexdigit (ps_tok ps) (ps_c ps) = Some (?f (ps_tok ps))"
    using assms(4,5) hexdigit_hex [OF assms(3)] c by (simp add: add_hexdigit_def)
  have q: "sees K md (upd_tok ?f ps) below r (json_hex_chars ! i # s)" using assms(2) by simp
  have l: "length (acc (upd_tok ?f ps)) + length [x] < 2 ^ 28" using assms(7) by simp
  obtain p where p: "append_fast lib [x] (upd_tok ?f ps) = Some (upd_tok (\<lambda>u. u\<lparr>tk_pb := p\<rparr>) (upd_tok ?f ps))"
    "pb_str p = acc (upd_tok ?f ps) @ [x]" "read_cstr (buf p) = Some (cstr (acc (upd_tok ?f ps) @ [x]))"
    "pb_inv p" "size p < 2 ^ 30"
    "sees K md (upd_tok (\<lambda>u. u\<lparr>tk_pb := p\<rparr>) (upd_tok ?f ps)) below r (json_hex_chars ! i # s)"
    by (rule append_run [OF assms(1) q l])
  have u: "unat (of_nat (code_of x) :: 32 word) = code_of x"
    using assms(6) by (subst unsigned_of_nat) (simp add: take_bit_nat_eq_self)
  then have small: "(of_nat (code_of x) :: 32 word) < 0x80" using assms(6) by (simp add: word_less_nat_alt)
  then have small': "(of_nat (code_of x) :: 32 word) < 0x800" by (rule order.strict_trans) simp
  have utf: "unescaped_utf (of_nat (code_of x)) = [x]" using small u assms(6) by (simp add: unescaped_utf_def uchar_def)
  have "unicode_char lib (-1) 0 (ps\<lparr>ps_tok := ?f (ps_tok ps)\<rparr>) =
      Some (UBreak, upd_tok back_to_saved (upd_tok (\<lambda>u. u\<lparr>tk_pb := p\<rparr>) (upd_tok ?f ps)))"
    using p(1) small' by (simp add: unicode_char_def Let_def utf)
  moreover have "strchr json_hex_chars (ps_c ps)" using hexdigit_hex [OF assms(3)] c by (simp add: strchr_def)
  ultimately have "unicode_loop lib (-1) 0 ps =
      Some (Brk, upd_tok back_to_saved (upd_tok (\<lambda>u. u\<lparr>tk_pb := p\<rparr>) (upd_tok ?f ps)))"
    using a by (subst unicode_loop.simps) simp
  from that [OF this p(6)] p(2) show thesis by simp
qed

lemma unicode_escape_run:
  assumes "lib_ok lib" "code_of x < 32"
    and "sees K md ps below r (CHR ''u'' # CHR ''0'' # CHR ''0'' # json_hex_chars ! (code_of x div 16)
      # json_hex_chars ! (code_of x mod 16) # c # s)"
    and "sr_state r = st_string_escape" "length (acc ps) < 2 ^ 28 - 1"
  shows "goes lib ps (\<lambda>ps'. sees K md ps' below (r\<lparr>sr_state := sr_saved r\<rparr>) (c # s)
    \<and> acc ps' = acc ps @ [x] \<and> quote_char (ps_tok ps') = quote_char (ps_tok ps))"
proof -
  let ?h = "\<lambda>i. json_hex_chars ! i" and ?a = "code_of x div 16" and ?b = "code_of x mod 16"
  let ?r = "r\<lparr>sr_state := st_escape_unicode\<rparr>"
  have h0: "?h 0 = CHR ''0''" by (simp add: json_hex_chars_def)
  let ?p0 = "upd_tok (\<lambda>t. (goto_state st_escape_unicode t)\<lparr>ucs_char := 0, st_pos := 0\<rparr>) ps"
  have "step_of (sr_state r) lib (-1) ps = Some (Brk, ?p0)"
    using assms(4) seesD(12) [OF assms(3)] by (simp add: step_string_escape_def leave_def)
  moreover have "sees K md ?p0 below ?r (CHR ''u'' # ?h 0 # ?h 0 # ?h ?a # ?h ?b # c # s)"
    using sees_goto [OF assms(3)] h0 by simp
  ultimately have 1: "reaches lib ps (adv 1 ?p0)" "sees K md (adv 1 ?p0) below ?r (?h 0 # ?h 0 # ?h ?a # ?h ?b # c # s)"
    using reaches_brk [OF assms(3)] by simp_all
  define upd where "upd n i ps = adv 1 (upd_tok (\<lambda>t. t\<lparr>ucs_char := ucs_char t + push_bit ((3 - n) * 4) (of_nat i),
      st_pos := int (Suc n)\<rparr>) ps)" for n i and ps :: pst
  have upd_sees: "sees K md (upd n i ps) below ?r (z # zs)"
    if "sees K md ps below ?r (y # z # zs)" for n i ps y z zs
    using sees_adv [of K md "upd_tok (\<lambda>t. t\<lparr>ucs_char := ucs_char t + push_bit ((3 - n) * 4) (of_nat i),
        st_pos := int (Suc n)\<rparr>) ps" below ?r "[y]" "z # zs"] that by (simp add: upd_def)
  have upd_sel: "st_pos (ps_tok (upd n i ps)) = int (Suc n)" "acc (upd n i ps) = acc ps"
    "ucs_char (ps_tok (upd n i ps)) = ucs_char (ps_tok ps) + push_bit ((3 - n) * 4) (of_nat i)"
    "quote_char (ps_tok (upd n i ps)) = quote_char (ps_tok ps)" for n i ps
    by (simp_all add: upd_def)
  have digit: "unicode_loop lib (-1) 0 ps = unicode_loop lib (-1) 0 (upd n i ps)"
    if "sees K md ps below ?r (?h i # z # zs)" "i < 16" "st_pos (ps_tok ps) = int n" "n < 3" for ps n i z zs
    unfolding upd_def by (rule unicode_digit [OF that])
  let ?p1 = "upd 0 0 (adv 1 ?p0)" let ?p2 = "upd 1 0 ?p1" let ?p3 = "upd 2 ?a ?p2"
  note s1 = upd_sees [OF 1(2), of 0 0] note s2 = upd_sees [OF s1, of 1 0]
  note s3 = upd_sees [OF s2, of 2 ?a]
  have a: "?a < 16" using assms(2) by simp
  have "unicode_loop lib (-1) 0 (adv 1 ?p0) = unicode_loop lib (-1) 0 ?p1"
    by (rule digit [OF 1(2)]) simp_all
  also have "\<dots> = unicode_loop lib (-1) 0 ?p2" by (rule digit [OF s1]) (simp_all add: upd_sel)
  also have "\<dots> = unicode_loop lib (-1) 0 ?p3" by (rule digit [OF s2 a]) (simp_all add: upd_sel)
  finally have loop: "unicode_loop lib (-1) 0 (adv 1 ?p0) = unicode_loop lib (-1) 0 ?p3" .
  have "(push_bit 4 (of_nat ?a) + of_nat ?b :: 32 word) = of_nat (code_of x)"
  proof -
    have "(push_bit 4 (of_nat ?a) + of_nat ?b :: 32 word) = of_nat ?a * 16 + of_nat ?b"
      by (simp add: push_bit_eq_mult)
    also have "\<dots> = of_nat (?a * 16 + ?b)" by (simp only: of_nat_add of_nat_mult of_nat_numeral)
    finally show ?thesis by (simp only: div_mult_mod_eq)
  qed
  then have u: "ucs_char (ps_tok ?p3) + of_nat ?b = of_nat (code_of x)" by (simp add: upd_sel)
  obtain q where q: "unicode_loop lib (-1) 0 ?p3 = Some (Brk, upd_tok back_to_saved q)"
    "sees K md q below ?r (?h ?b # c # s)" "acc q = acc ?p3 @ [x]"
    "quote_char (ps_tok q) = quote_char (ps_tok ?p3)"
    by (rule unicode_last [OF assms(1) s3 _ _ u assms(2)]) (use assms(5) in \<open>simp_all add: upd_sel goto_state_def set_top_def\<close>)
  have "step_of (sr_state ?r) lib (-1) (adv 1 ?p0) = Some (Brk, upd_tok back_to_saved q)"
    using loop q(1) by (simp add: step_escape_unicode_def)
  note 2 = reaches_brk [OF 1(2) this back_to_saved_sees [OF q(2)]]
  have "?h ?b \<noteq> NUL" using hexdigit_hex [of ?b] by simp
  then show ?thesis
    using 2 q(3,4) 1(1)
    by (intro goes_reaches [OF 1(1)] goesI [OF 2(1)])
      (simp_all add: upd_sel back_to_saved_def goto_state_def set_top_def)
qed

lemma escape_run:
  assumes "lib_ok lib" "\<not> plain x" "sees K md ps below r (tl (esc_char x) @ c # s)"
    and "sr_state r = st_string_escape" "length (acc ps) < 2 ^ 28 - 1"
  shows "goes lib ps (\<lambda>ps'. sees K md ps' below (r\<lparr>sr_state := sr_saved r\<rparr>) (c # s)
    \<and> acc ps' = acc ps @ [x] \<and> quote_char (ps_tok ps') = quote_char (ps_tok ps))"
proof (cases rule: not_plain_cases [OF assms(2)])
  case (1 e)
  then show ?thesis using short_escape_run [OF assms(1) 1(1) _ assms(4,5)] assms(3) by simp
next
  case 2
  then show ?thesis using unicode_escape_run [OF assms(1) 2(2) _ assms(4,5)] assms(3) by simp
qed

text \<open>The two states that read the inside of a string: only the step at the closing quote differs.\<close>

definition string_scan :: "json_tokener_state \<Rightarrow> bool" where
  "string_scan X \<longleftrightarrow> X = st_string \<or> X = st_object_field"

lemma string_scan_run:
  assumes "lib_ok lib" "sees K md ps below r (pre @ c # s)" "quote_char (ps_tok ps) = DQ"
    and "\<forall>x\<in>set pre. plain x" "c = DQ \<or> c = BSL" "length (acc ps) + length pre < 2 ^ 28"
  obtains p where "scan (\<lambda>_ t. t) (quote_or_backslash ps) (-1) ps = Some (True, adv (length pre) ps)"
    "append_fast lib (passed (ps_str ps) (adv (length pre) ps)) (adv (length pre) ps) =
      Some (upd_tok (\<lambda>u. u\<lparr>tk_pb := p\<rparr>) (adv (length pre) ps))"
    "pb_str p = acc ps @ pre" "read_cstr (buf p) = Some (cstr (acc ps @ pre))" "pb_inv p"
    "sees K md (upd_tok (\<lambda>u. u\<lparr>tk_pb := p\<rparr>) (adv (length pre) ps)) below r (c # s)"
proof -
  have sc: "scan (\<lambda>_ t. t) (quote_or_backslash ps) (-1) ps = Some (True, adv (length pre) ps)"
    by (rule scan_id_run [OF assms(2)])
      (use assms(3-5) plain_facts in \<open>auto simp: quote_or_backslash_def\<close>)
  have q: "sees K md (adv (length pre) ps) below r (c # s)" using sees_adv [OF assms(2)] by simp
  have pass: "passed (ps_str ps) (adv (length pre) ps) = pre"
    using seesD(10) [OF assms(2)] passed_adv [of ps pre "c # s" "\<lambda>t. t"] by simp
  obtain p where "append_fast lib pre (adv (length pre) ps) = Some (upd_tok (\<lambda>u. u\<lparr>tk_pb := p\<rparr>) (adv (length pre) ps))"
    "pb_str p = acc (adv (length pre) ps) @ pre" "read_cstr (buf p) = Some (cstr (acc (adv (length pre) ps) @ pre))"
    "pb_inv p" "size p < 2 ^ 30" "sees K md (upd_tok (\<lambda>u. u\<lparr>tk_pb := p\<rparr>) (adv (length pre) ps)) below r (c # s)"
    by (rule append_run [OF assms(1) q, of pre]) (use assms(6) in simp_all)
  then show thesis using that [of p] sc pass by simp
qed

text \<open>The inside of a string up to the last piece before the closing quote.\<close>

lemma string_body_run:
  assumes "lib_ok lib" "string_scan X"
    and "sees K md ps below r (esc t @ DQ # s)" "sr_state r = X" "quote_char (ps_tok ps) = DQ"
    and "int (length (acc ps)) \<le> char_offset (ps_tok ps)"
  shows "goes lib ps (\<lambda>ps'. \<exists>pre v. sees K md ps' below (r\<lparr>sr_saved := v\<rparr>) (pre @ DQ # s)
    \<and> (\<forall>x\<in>set pre. plain x) \<and> acc ps' @ pre = acc ps @ t \<and> quote_char (ps_tok ps') = DQ
    \<and> length (acc ps') + length pre < 2 ^ 28)"
  using assms(3-6)
proof (induction "length t" arbitrary: t ps r rule: less_induct)
  case less
  define pre where "pre = takeWhile plain t"
  have pre: "\<forall>x\<in>set pre. plain x" by (auto simp: pre_def dest: set_takeWhileD)
  have off: "int (length (acc ps)) + int (length (esc t @ DQ # s)) < 2 ^ 28"
    using seesD(8,9) [OF less.prems(1)] less.prems(4) by linarith
  show ?case
  proof (cases "dropWhile plain t")
    case Nil
    then have t: "t = pre" using takeWhile_dropWhile_id [of plain t] unfolding pre_def by (metis append_Nil2)
    then have e: "esc t = pre" using esc_plain [OF pre] by simp
    have "length (acc ps) + length pre < 2 ^ 28" using off e by simp
    moreover have "sees K md ps below (r\<lparr>sr_saved := sr_saved r\<rparr>) (pre @ DQ # s)"
      using less.prems(1) unfolding e by simp
    moreover have "acc ps @ pre = acc ps @ t" by (simp only: t [symmetric])
    ultimately show ?thesis using less.prems(3) pre by (intro goesI [OF reaches_refl]) blast
  next
    case (Cons x t2)
    then have t: "t = pre @ x # t2" using takeWhile_dropWhile_id [of plain t] unfolding pre_def by metis
    have x: "\<not> plain x" using Cons by (simp add: dropWhile_eq_Cons_conv)
    then have "esc_char x = BSL # tl (esc_char x)" by (cases rule: not_plain_cases) simp_all
    then have e: "esc t = pre @ BSL # tl (esc_char x) @ esc t2"
      by (simp add: t esc_append esc_Cons esc_plain [OF pre])
    let ?rest = "tl (esc_char x) @ esc t2 @ DQ # s"
    have sees: "sees K md ps below r (pre @ BSL # ?rest)" using less.prems(1) e by simp
    have len: "length (acc ps) + length pre < 2 ^ 28 - 1" using off e by simp
    obtain p where p: "scan (\<lambda>_ t. t) (quote_or_backslash ps) (-1) ps = Some (True, adv (length pre) ps)"
      "append_fast lib (passed (ps_str ps) (adv (length pre) ps)) (adv (length pre) ps) =
        Some (upd_tok (\<lambda>u. u\<lparr>tk_pb := p\<rparr>) (adv (length pre) ps))"
      "pb_str p = acc ps @ pre" "read_cstr (buf p) = Some (cstr (acc ps @ pre))" "pb_inv p"
      "sees K md (upd_tok (\<lambda>u. u\<lparr>tk_pb := p\<rparr>) (adv (length pre) ps)) below r (BSL # ?rest)"
      by (rule string_scan_run [OF assms(1) sees less.prems(3) pre]) (use len in simp_all)
    let ?q = "upd_tok (\<lambda>u. u\<lparr>tk_pb := p\<rparr>) (adv (length pre) ps)"
    let ?set = "set_top (\<lambda>r. r\<lparr>sr_saved := X, sr_state := st_string_escape\<rparr>)"
    let ?r = "r\<lparr>sr_saved := X, sr_state := st_string_escape\<rparr>"
    have "step_of (sr_state r) lib (-1) ps = Some (Brk, upd_tok ?set ?q)"
      using assms(2) less.prems(2,3) p(1,2) seesD(12) [OF p(6)]
      by (auto simp: string_scan_def step_string_def step_object_field_def Let_def leave_def)
    moreover have "?rest = hd ?rest # tl ?rest" by (cases ?rest) simp_all
    ultimately have 1: "reaches lib ps (adv 1 (upd_tok ?set ?q))" "sees K md (adv 1 (upd_tok ?set ?q)) below ?r ?rest"
      using reaches_brk [OF sees, of lib "upd_tok ?set ?q" below ?r BSL "hd ?rest" "tl ?rest"]
        sees_set_top [OF p(6), of "\<lambda>r. r\<lparr>sr_saved := X, sr_state := st_string_escape\<rparr>"] by simp_all
    have a: "acc (adv 1 (upd_tok ?set ?q)) = acc ps @ pre" using p(3) by (simp add: set_top_def)
    have qc: "quote_char (ps_tok (adv 1 (upd_tok ?set ?q))) = DQ" using less.prems(3) by (simp add: set_top_def)
    have r: "?r\<lparr>sr_state := sr_saved ?r\<rparr> = r\<lparr>sr_saved := X\<rparr>" using less.prems(2) by simp
    have n: "esc t2 @ DQ # s = hd (esc t2 @ DQ # s) # tl (esc t2 @ DQ # s)" by (cases "esc t2") simp_all
    have "goes lib (adv 1 (upd_tok ?set ?q)) (\<lambda>ps'. sees K md ps' below (r\<lparr>sr_saved := X\<rparr>) (esc t2 @ DQ # s)
        \<and> acc ps' = acc ps @ pre @ [x] \<and> quote_char (ps_tok ps') = DQ)"
      using escape_run [OF assms(1) x, of K md "adv 1 (upd_tok ?set ?q)" below ?r "hd (esc t2 @ DQ # s)" "tl (esc t2 @ DQ # s)"]
        1(2) len a qc r n by simp
    then show ?thesis
    proof (intro goes_reaches [OF 1(1)], elim goes_trans)
      fix ps'
      assume q: "sees K md ps' below (r\<lparr>sr_saved := X\<rparr>) (esc t2 @ DQ # s)
        \<and> acc ps' = acc ps @ pre @ [x] \<and> quote_char (ps_tok ps') = DQ"
      then have "char_offset (ps_tok ps') = char_offset (ps_tok ps) + int (length pre) + 1 + int (length (tl (esc_char x)))"
        using seesD(8) [OF conjunct1 [OF q]] seesD(8) [OF sees] by simp
      then have "int (length (acc ps')) \<le> char_offset (ps_tok ps')" using q less.prems(4) by simp
      then show "goes lib ps' (\<lambda>ps'. \<exists>pre v. sees K md ps' below (r\<lparr>sr_saved := v\<rparr>) (pre @ DQ # s)
        \<and> (\<forall>x\<in>set pre. plain x) \<and> acc ps' @ pre = acc ps @ t \<and> quote_char (ps_tok ps') = DQ
        \<and> length (acc ps') + length pre < 2 ^ 28)"
        using less.hyps [of t2 ps' "r\<lparr>sr_saved := X\<rparr>"] q less.prems(2) t by simp
    qed
  qed
qed

section \<open>The start of a value\<close>

lemma set_state_lvl: "(lvl s v k)\<lparr>sr_state := x, sr_saved := y\<rparr> = \<lparr>sr_state = x, sr_saved = y, sr_current = v, sr_field_name = k\<rparr>"
  by (simp add: lvl_def)

text \<open>A level in a state other than white space.\<close>

definition lv :: "json_tokener_state \<Rightarrow> json_tokener_state \<Rightarrow> jval \<Rightarrow> string option \<Rightarrow> srec" where
  "lv x y v k = \<lparr>sr_state = x, sr_saved = y, sr_current = v, sr_field_name = k\<rparr>"

lemma lv_simps [simp]:
  "sr_state (lv x y v k) = x" "sr_saved (lv x y v k) = y" "sr_current (lv x y v k) = v"
  "sr_field_name (lv x y v k) = k"
  "(lvl s v k)\<lparr>sr_state := x\<rparr> = lv x s v k" "(lv x y v k)\<lparr>sr_state := z\<rparr> = lv z y v k"
  "(lv x y v k)\<lparr>sr_saved := z\<rparr> = lv x z v k" "(lv x y v k)\<lparr>sr_current := v'\<rparr> = lv x y v' k"
  "(lv x y v k)\<lparr>sr_field_name := k'\<rparr> = lv x y v k'"
  "lv st_eatws y v k = lvl y v k" "(lvl x v k)\<lparr>sr_saved := z\<rparr> = lvl z v k"
  "(lvl x v k)\<lparr>sr_current := v'\<rparr> = lvl x v' k" "(lvl x v k)\<lparr>sr_field_name := k'\<rparr> = lvl x v k'"
  by (simp_all add: lv_def lvl_def)

lemma eatws_lvl:
  assumes "sees K md ps below (lvl x v k) (w @ c # s)" "ws w" "\<not> isspace c" "c \<noteq> CHR ''/''"
  shows "goes lib ps (\<lambda>ps'. sees K md ps' below (lv x x v k) (c # s) \<and> ps_obj ps' = ps_obj ps)"
  using eatws_run [OF assms(1) _ assms(2-4), of lib] by simp

lemma punct_run:
  assumes "sees K md ps below (lvl s0 v k) (w @ c # x # s)" "ws w" "\<not> isspace c" "c \<noteq> CHR ''/''" "c \<noteq> NUL"
    and "\<And>ps. ps_c ps = c \<Longrightarrow> sees K md ps below (lv s0 s0 v k) (c # x # s) \<Longrightarrow>
      step_of s0 lib (-1) ps = leave Brk (eatws_then s1) ps"
  shows "goes lib ps (\<lambda>ps'. sees K md ps' below (lvl s1 v k) (x # s))"
proof (rule goes_trans [OF eatws_lvl [OF assms(1-4), of lib]])
  fix ps'
  assume "sees K md ps' below (lv s0 s0 v k) (c # x # s) \<and> ps_obj ps' = ps_obj ps"
  then have q: "sees K md ps' below (lv s0 s0 v k) (c # x # s)" ..
  have "step_of (sr_state (lv s0 s0 v k)) lib (-1) ps' = Some (Brk, upd_tok (eatws_then s1) ps')"
    using assms(6) [OF _ q] seesD(12) [OF q] by (simp add: leave_def)
  from reaches_brk [OF q this sees_eatws_then [OF q] assms(5)]
  show "goes lib ps' (\<lambda>ps'. sees K md ps' below (lvl s1 v k) (x # s))"
    by (intro goesI) (simp_all)
qed

lemma start_number_run:
  assumes "sees K md ps below (lv st_start st_start JNull None) (c # s)" "isdigit c \<or> c = CHR ''-''"
  shows "goes lib ps (\<lambda>ps'. sees K md ps' below (lv st_number st_start JNull None) (c # s)
    \<and> \<not> is_double (ps_tok ps') \<and> acc ps' = [])"
proof -
  have c: "c \<in> set ''0123456789-''" using assms(2) isdigit_cases [of c] by auto
  obtain p where p: "pb_reset ps = Some (upd_tok (\<lambda>t. t\<lparr>tk_pb := p\<rparr>) ps)" "pb_str p = []"
    "sees K md (upd_tok (\<lambda>t. t\<lparr>tk_pb := p\<rparr>) ps) below (lv st_start st_start JNull None) (c # s)"
    by (rule reset_run [OF assms(1)])
  let ?q = "upd_tok (\<lambda>t. (goto_state st_number t)\<lparr>is_double := False\<rparr>) (upd_tok (\<lambda>t. t\<lparr>tk_pb := p\<rparr>) ps)"
  have "step_of st_start lib (-1) ps = Some (Redo, ?q)"
    using c assms(2) p(1) seesD(12) [OF assms(1)]
    by (elim disjE; simp add: step_start_def Let_def leave_def) auto
  then have "reaches lib ps ?q" using reaches_redo [OF assms(1)] by simp
  then show ?thesis
    by (rule goesI) (use sees_goto [OF p(3), of st_number] p(2) in \<open>simp add: goto_state_def set_top_def\<close>)
qed

lemma start_literal_run:
  assumes "sees K md ps below (lv st_start st_start JNull None) (c # s)"
    and "(c = CHR ''n'' \<or> c = CHR ''N'') \<and> X = st_null \<or> c = CHR ''I'' \<and> X = st_inf \<or> (c = CHR ''t'' \<or> c = CHR ''f'') \<and> X = st_boolean"
  shows "goes lib ps (\<lambda>ps'. sees K md ps' below (lv X st_start JNull None) (c # s)
    \<and> st_pos (ps_tok ps') = 0 \<and> acc ps' = [])"
proof -
  obtain p where p: "pb_reset ps = Some (upd_tok (\<lambda>t. t\<lparr>tk_pb := p\<rparr>) ps)" "pb_str p = []"
    "sees K md (upd_tok (\<lambda>t. t\<lparr>tk_pb := p\<rparr>) ps) below (lv st_start st_start JNull None) (c # s)"
    by (rule reset_run [OF assms(1)])
  let ?q = "upd_tok (\<lambda>t. (goto_state X t)\<lparr>st_pos := 0\<rparr>) (upd_tok (\<lambda>t. t\<lparr>tk_pb := p\<rparr>) ps)"
  have "step_of st_start lib (-1) ps = Some (Redo, ?q)"
    using assms(2) p(1) seesD(12) [OF assms(1)] by (elim disjE conjE; simp add: step_start_def Let_def leave_def)
  then have "reaches lib ps ?q" using reaches_redo [OF assms(1)] by simp
  then show ?thesis
    by (rule goesI) (use sees_goto [OF p(3), of X] p(2) in \<open>simp add: goto_state_def set_top_def\<close>)
qed

text \<open>An opening brace or bracket, and an opening quote.\<close>

lemma start_open_run:
  assumes lib: "lib_ok lib" and "sees K md ps below (lv st_start st_start JNull None) (c # x # s)"
    and "c = CHR ''['' \<and> v = JArray [] \<and> X = st_array \<or> c = CHR ''{'' \<and> v = JObject [] \<and> X = st_object_field_start"
  shows "goes lib ps (\<lambda>ps'. sees K md ps' below (lvl X v None) (x # s))"
proof -
  let ?q = "upd_tok (set_current v \<circ> eatws_then X) ps"
  have "step_of (sr_state (lv st_start st_start JNull None)) lib (-1) ps = Some (Brk, ?q)"
    using assms(3) seesD(12) [OF assms(2)] lib by (elim disjE conjE; simp add: step_start_def Let_def leave_def allocated_def lib_ok_def)
  moreover have "sees K md (upd_tok (set_current v) (upd_tok (eatws_then X) ps)) below (lvl X v None) (c # x # s)"
    using sees_set_top [OF sees_eatws_then [OF assms(2), of X], of "\<lambda>r. r\<lparr>sr_current := v\<rparr>"]
    by (simp add: set_current_def lvl_def lv_def)
  then have "sees K md ?q below (lvl X v None) (c # x # s)" by simp
  moreover have "c \<noteq> NUL" using assms(3) by auto
  ultimately have "reaches lib ps (adv 1 ?q)" "sees K md (adv 1 ?q) below (lvl X v None) (x # s)"
    using reaches_brk [OF assms(2)] by blast+
  then show ?thesis by (rule goesI)
qed

lemma string_run:
  assumes "lib_ok lib" "sees K md ps below (lv st_start st_start JNull None) ([DQ] @ esc t @ [DQ] @ c # s)"
  shows "goes lib ps (\<lambda>ps'. sees K md ps' below (lvl st_finish (JString t) None) (c # s))"
proof -
  let ?s = "esc t @ DQ # c # s"
  have n: "?s = hd ?s # tl ?s" by (cases "esc t") simp_all
  have sees: "sees K md ps below (lv st_start st_start JNull None) (DQ # ?s)" using assms(2) by simp
  obtain p where p: "pb_reset ps = Some (upd_tok (\<lambda>t. t\<lparr>tk_pb := p\<rparr>) ps)" "pb_str p = []"
    "sees K md (upd_tok (\<lambda>t. t\<lparr>tk_pb := p\<rparr>) ps) below (lv st_start st_start JNull None) (DQ # ?s)"
    by (rule reset_run [OF sees])
  let ?q = "upd_tok (\<lambda>t. (goto_state st_string t)\<lparr>quote_char := DQ\<rparr>) (upd_tok (\<lambda>t. t\<lparr>tk_pb := p\<rparr>) ps)"
  have "step_of (sr_state (lv st_start st_start JNull None)) lib (-1) ps = Some (Brk, ?q)"
    using p(1) seesD(12) [OF sees] by (simp add: step_start_def Let_def leave_def)
  moreover have "sees K md ?q below (lv st_string st_start JNull None) (DQ # hd ?s # tl ?s)"
    using sees_goto [OF p(3), of st_string] n by simp
  ultimately have 1: "reaches lib ps (adv 1 ?q)" "sees K md (adv 1 ?q) below (lv st_string st_start JNull None) ?s"
    using reaches_brk [OF sees, of lib ?q below _ DQ "hd ?s" "tl ?s"] n by simp_all
  have "goes lib (adv 1 ?q) (\<lambda>ps'. \<exists>pre v. sees K md ps' below (lv st_string v JNull None) (pre @ DQ # c # s)
      \<and> (\<forall>x\<in>set pre. plain x) \<and> acc ps' @ pre = t \<and> quote_char (ps_tok ps') = DQ
      \<and> length (acc ps') + length pre < 2 ^ 28)"
    using string_body_run [OF assms(1) _ 1(2), of st_string] p(2) seesD(7) [OF 1(2)]
    by (simp add: string_scan_def goto_state_def set_top_def)
  then show ?thesis
  proof (intro goes_reaches [OF 1(1)], elim goes_trans exE conjE)
    fix ps' pre v
    assume q: "sees K md ps' below (lv st_string v JNull None) (pre @ DQ # c # s)" "\<forall>x\<in>set pre. plain x"
      "acc ps' @ pre = t" "quote_char (ps_tok ps') = DQ" "length (acc ps') + length pre < 2 ^ 28"
    obtain p where p: "scan (\<lambda>_ t. t) (quote_or_backslash ps') (-1) ps' = Some (True, adv (length pre) ps')"
      "append_fast lib (passed (ps_str ps') (adv (length pre) ps')) (adv (length pre) ps') =
        Some (upd_tok (\<lambda>u. u\<lparr>tk_pb := p\<rparr>) (adv (length pre) ps'))"
      "pb_str p = acc ps' @ pre" "read_cstr (buf p) = Some (cstr (acc ps' @ pre))" "pb_inv p"
      "sees K md (upd_tok (\<lambda>u. u\<lparr>tk_pb := p\<rparr>) (adv (length pre) ps')) below (lv st_string v JNull None) (DQ # c # s)"
      by (rule string_scan_run [OF assms(1) q(1) q(4) q(2) _ q(5)]) simp_all
    let ?q = "upd_tok (\<lambda>u. u\<lparr>tk_pb := p\<rparr>) (adv (length pre) ps')"
    have t: "pb_bytes p = Some t" "bpos p = int (length t)"
      using pb_bytes_pb_str [OF p(5)] length_pb_str [OF p(5)] p(3) q(3) by simp_all
    have "step_of (sr_state (lv st_string v JNull None)) lib (-1) ps' =
        Some (Brk, upd_tok (eatws_then st_finish \<circ> set_current (JString t)) ?q)"
      using p(1,2) q(4) seesD(12) [OF p(6)] t
      by (simp add: step_string_def Let_def leave_def json_object_new_string_len_def allocated_ok [OF assms(1)])
    moreover have "sees K md (upd_tok (eatws_then st_finish) (upd_tok (set_current (JString t)) ?q)) below
        (lvl st_finish (JString t) None) (DQ # c # s)"
      using sees_eatws_then [OF sees_set_top [OF p(6), of "\<lambda>r. r\<lparr>sr_current := JString t\<rparr>"], of st_finish]
      by (simp add: set_current_def lv_def lvl_def)
    then have "sees K md (upd_tok (eatws_then st_finish \<circ> set_current (JString t)) ?q) below
        (lvl st_finish (JString t) None) (DQ # c # s)" by simp
    ultimately show "goes lib ps' (\<lambda>ps'. sees K md ps' below (lvl st_finish (JString t) None) (c # s))"
      by (rule brk_goes [OF q(1)]) simp
  qed
qed

end
