(* ===== verification/Json_Roundtrip.thy ===== *)
theory Json_Roundtrip
  imports Tokener_Run
begin

text \<open>
  Parsing inverts printing: for every value the parser can produce, the text the printers give
  for it, with any flags, parses back to the value. By induction on the value, with one lemma
  for the elements of an array and one for the fields of an object.
\<close>

section \<open>Values and their texts\<close>

text \<open>
  The values a text stands for: booleans are 0 or 1, integers fit 64 bits, a double carries the
  text it was read from or is \<open>Infinity\<close> or \<open>NaN\<close>, keys are distinct C strings. \<open>-Infinity\<close> is left out:
  after a literal the parser refuses it (\<open>minus_infinity_stale\<close>). \<open>height\<close> counts the levels the tokener needs.
\<close>

primrec wf_val :: "libc \<Rightarrow> jval \<Rightarrow> bool" where
  "wf_val lib JNull = True"
| "wf_val lib (JBool b) = (b = 0 \<or> b = 1)"
| "wf_val lib (JInt i) = in_i64 i"
| "wf_val lib (JDouble d ds) = (case ds of None \<Rightarrow> d = d_inf \<or> d = d_nan | Some t \<Rightarrow> dtext lib d t)"
| "wf_val lib (JString s) = True"
| "wf_val lib (JArray vs) = list_all (\<lambda>b. b) (map (wf_val lib) vs)"
| "wf_val lib (JObject kvs) =
     (distinct (map fst kvs) \<and> (\<forall>k\<in>fst ` set kvs. NUL \<notin> set k)
      \<and> list_all snd (map (map_prod id (wf_val lib)) kvs))"

lemma special_text:
  "double_chars fmt flags d_inf = Some ''Infinity''" "double_chars fmt flags d_nan = Some ''NaN''"
proof -
  have facts: "d_isnan d_nan" "\<not> d_isnan d_inf" "d_isinf d_inf" "\<not> d_neg d_inf" by (simp_all add: d_isnan_def d_isinf_def d_neg_def d_exp_def d_man_def d_nan_def d_inf_def)
  have plain: "double_chars fmt flags d = Some t"
    if "(if d_isnan d then ''NaN'' else if d_isinf d then if \<not> d_neg d then ''Infinity'' else ''-Infinity'' else fmt d) = t"
      "CHR '','' \<notin> set t" "CHR ''.'' \<notin> set t" "length t < 128" for d t
    using that(2-4) unfolding double_chars_def that(1) by (simp add: Let_def index_of_None)
  show "double_chars fmt flags d_inf = Some ''Infinity''" "double_chars fmt flags d_nan = Some ''NaN''"
    by (rule plain; simp add: facts)+
qed

primrec height :: "jval \<Rightarrow> nat" where
  "height JNull = 0"
| "height (JBool b) = 0"
| "height (JInt i) = 0"
| "height (JDouble d ds) = 0"
| "height (JString s) = 0"
| "height (JArray vs) = foldr (\<lambda>n m. max (Suc n) m) (map height vs) 0"
| "height (JObject kvs) = foldr (\<lambda>n m. max (Suc (snd n)) m) (map (map_prod id height) kvs) 0"

lemma height_elem: "v \<in> set vs \<Longrightarrow> Suc (height v) \<le> height (JArray vs)"
  by (induction vs) auto

lemma height_field: "(k, v) \<in> set kvs \<Longrightarrow> Suc (height v) \<le> height (JObject kvs)"
  by (induction kvs) auto

lemma ser_head:
  assumes "wf_val lib v"
  shows "\<exists>h t. ser fmt flags v lev = h # t \<and> \<not> isspace h \<and> h \<noteq> CHR ''/'' \<and> h \<noteq> CHR '']''"
proof -
  have d: "\<exists>h t. s = h # t \<and> \<not> isspace h \<and> h \<noteq> CHR ''/'' \<and> h \<noteq> CHR '']''"
    if "isdigit (c_hd s) \<or> c_hd s = CHR ''-''" for s
  proof (cases s)
    case (Cons h t)
    then have "h \<in> set ''0123456789-''" using that isdigit_cases [of h] by auto
    then show ?thesis using Cons by (auto simp: isspace_def)
  qed (use that in \<open>simp add: isdigit_def code_of_def\<close>)
  show ?thesis
  proof (cases v)
    case (JInt i)
    then show ?thesis using d [OF show_int_chars(5)] by simp
  next
    case (JDouble x ds)
    show ?thesis
    proof (cases ds)
      case None
      then have "x = d_inf \<or> x = d_nan" using assms JDouble by simp
      then show ?thesis using None JDouble special_text [of fmt flags] by (auto simp: isspace_def)
    next
      case (Some t)
      then have "dtext lib x t" using assms JDouble by simp
      moreover from this have "cstr t = t" by (simp add: dtext_def cstr_id NUL_not_number)
      ultimately show ?thesis using d [of t] JDouble Some by (simp add: dtext_def)
    qed
  qed (auto simp: bracket_text_def isspace_def)
qed

text \<open>What parsing the text of one value does, whatever follows it.\<close>

definition parses :: "libc \<Rightarrow> (double \<Rightarrow> string) \<Rightarrow> 32 word \<Rightarrow> jval \<Rightarrow> bool" where
  "parses lib fmt flags v \<longleftrightarrow>
     (\<forall>K md ps below w lev c s.
        sees K md ps below (lvl st_start JNull None) (w @ ser fmt flags v lev @ c # s) \<longrightarrow> ws w \<longrightarrow>
        delimiter c \<longrightarrow> int (length below) + int (height v) < md \<longrightarrow>
        goes lib ps (\<lambda>ps'. sees K md ps' below (lvl st_finish v None) (c # s)))"

lemma parsesD:
  assumes "parses lib fmt flags v"
    and "sees K md ps below (lvl st_start JNull None) (ser fmt flags v lev @ r)"
    and "delimiter (c_hd r)" "r \<noteq> []" "int (length below) + int (height v) < md"
  shows "goes lib ps (\<lambda>ps'. sees K md ps' below (lvl st_finish v None) r)"
proof -
  obtain c s where "r = c # s" using assms(4) by (cases r) auto
  then show ?thesis
    using assms(1) [unfolded parses_def, rule_format, of K md ps below "[]" lev c s] assms(2,3,5) by simp
qed

text \<open>One child of an array or an object: white space, the level below, the value, back.\<close>

lemma child_run:
  assumes "parses lib fmt flags v" "wf_val lib v"
    and "sees K md ps below (lvl s0 cur k) (w @ ser fmt flags v lev @ w2 @ c # s)" "ws w" "ws w2"
    and "delimiter c" "\<not> isspace c" "int (length below) + 1 + int (height v) < md"
    and "\<And>ps c. ps_c ps = c \<Longrightarrow> c \<noteq> CHR '']'' \<Longrightarrow> step_of s0 lib (-1) ps = descend X ps"
  shows "goes lib ps (\<lambda>ps'. sees K md ps' below (lv X s0 cur k) (c # s) \<and> ps_obj ps' = v)"
proof -
  let ?r = "w2 @ c # s"
  obtain h t where h: "ser fmt flags v lev = h # t" "\<not> isspace h" "h \<noteq> CHR ''/''" "h \<noteq> CHR '']''"
    using ser_head [OF assms(2)] by blast
  have c: "c \<noteq> CHR ''/''" using assms(6) by (auto simp: delimiter_def isspace_def)
  have d: "delimiter (c_hd ?r)" "?r \<noteq> []" using assms(5,6) by (cases w2; simp add: delimiter_def)+
  have 1: "goes lib ps (\<lambda>ps'. sees K md ps' below (lv s0 s0 cur k) (ser fmt flags v lev @ ?r))"
    using eatws_lvl [of K md ps below s0 cur k w h "t @ ?r" lib] assms(3,4) h
    by (auto elim: goes_mono)
  have 2: "goes lib ps' (\<lambda>ps'. sees K md ps' (below @ [lv X s0 cur k]) (lvl st_start JNull None) (ser fmt flags v lev @ ?r))"
    if q: "sees K md ps' below (lv s0 s0 cur k) (ser fmt flags v lev @ ?r)" for ps'
    using descend_run [OF q, of lib X] assms(8,9) seesD(12) [OF q] h by simp
  have 3: "goes lib ps' (\<lambda>ps'. sees K md ps' (below @ [lv X s0 cur k]) (lvl st_finish v None) ?r)"
    if "sees K md ps' (below @ [lv X s0 cur k]) (lvl st_start JNull None) (ser fmt flags v lev @ ?r)" for ps'
    by (rule parsesD [OF assms(1) that d]) (use assms(8) in simp)
  show ?thesis
    by (rule goes_trans [OF goes_trans [OF goes_trans [OF 1 2] 3] finish_run [OF _ assms(5,7) c]])
qed

section \<open>Arrays\<close>

text \<open>The white space \<open>items_text\<close> puts before an item.\<close>

definition item_ws :: "32 word \<Rightarrow> nat \<Rightarrow> bool \<Rightarrow> string" where
  "item_ws flags lev had =
     (if had \<and> pretty flags then [NL] else []) @ (if spaced flags then '' '' else [])
     @ (if pretty flags then spaces (2 * (lev + 1)) else [])"

lemma ws_item_ws: "ws (item_ws flags lev had)"
  by (auto simp: item_ws_def isspace_def)

lemma items_text_Cons:
  "items_text flags lev False (x # xs) = item_ws flags lev False @ x @ items_text flags lev True xs"
  "items_text flags lev True (x # xs) = CHR '','' # item_ws flags lev True @ x @ items_text flags lev True xs"
  by (simp_all add: item_ws_def)

lemma array_add_run:
  assumes lib: "lib_ok lib" and "sees K md ps below (lv st_array_add x (JArray vs) None) (c # s)" "ps_obj ps = v"
  shows "goes lib ps (\<lambda>ps'. sees K md ps' below (lvl st_array_sep (JArray (vs @ [v])) None) (c # s))"
proof -
  let ?q = "upd_tok (eatws_then st_array_sep) (upd_tok (set_current (JArray (vs @ [v]))) ps)"
  have "step_of (sr_state (lv st_array_add x (JArray vs) None)) lib (-1) ps = Some (Redo, ?q)"
    using sees_top(1) [OF assms(2)] assms(3) lib by (simp add: step_array_add_def leave_def lib_ok_def)
  from reaches_redo [OF assms(2) this] show ?thesis
    by (rule goesI)
      (use sees_eatws_then [OF sees_set_top [OF assms(2), of "\<lambda>r. r\<lparr>sr_current := JArray (vs @ [v])\<rparr>"], of st_array_sep] in
        \<open>simp add: set_current_def\<close>)
qed

lemma array_item_run:
  assumes lib: "lib_ok lib" and "parses lib fmt flags v" "wf_val lib v"
    and "sees K md ps below (lvl s0 (JArray xs) None) (w @ ser fmt flags v lev @ w2 @ c # x # s)" "ws w" "ws w2"
    and "s0 = st_array \<or> s0 = st_array_after_sep" "int (length below) + 1 + int (height v) < md"
    and "c = CHR '','' \<and> s1 = st_array_after_sep \<or> c = CHR '']'' \<and> s1 = st_finish"
  shows "goes lib ps (\<lambda>ps'. sees K md ps' below (lvl s1 (JArray (xs @ [v])) None) (x # s))"
proof -
  have d: "delimiter c" "\<not> isspace c" "c \<noteq> CHR ''/''" "c \<noteq> NUL"
    using assms(9) by (auto simp: delimiter_def isspace_def)
  have 1: "goes lib ps (\<lambda>ps'. sees K md ps' below (lv st_array_add s0 (JArray xs) None) (c # x # s) \<and> ps_obj ps' = v)"
    by (rule child_run [OF assms(2-4,5,6) d(1,2) assms(8)]) (use assms(7) in \<open>auto simp: step_array_def\<close>)
  have 2: "goes lib ps' (\<lambda>ps'. sees K md ps' below (lvl s1 (JArray (xs @ [v])) None) (x # s))"
    if "sees K md ps' below (lvl st_array_sep (JArray (xs @ [v])) None) (c # x # s)" for ps'
    by (rule punct_run [where w = "[]" and c = c]) (use that d assms(9) in \<open>auto simp: step_array_sep_def\<close>)
  show ?thesis
    by (rule goes_trans [OF 1]) (elim conjE, rule goes_trans [OF array_add_run [OF lib] 2])
qed

text \<open>The items of an array, from the white space before the first one to the closing bracket.\<close>

lemma array_items_run:
  assumes lib: "lib_ok lib" and "\<forall>v\<in>set (v0 # vs). parses lib fmt flags v \<and> wf_val lib v \<and> int (length below) + 1 + int (height v) < md"
    and "sees K md ps below (lvl s0 (JArray xs) None)
      (w @ ser fmt flags v0 (lev + 1) @ items_text flags lev True (map (\<lambda>v. ser fmt flags v (lev + 1)) vs)
       @ w2 @ CHR '']'' # c # s)"
    and "ws w" "ws w2" "s0 = st_array \<or> s0 = st_array_after_sep"
  shows "goes lib ps (\<lambda>ps'. sees K md ps' below (lvl st_finish (JArray (xs @ v0 # vs)) None) (c # s))"
  using assms(2-)
proof (induction vs arbitrary: v0 xs w s0 ps)
  case Nil
  then show ?case
    using array_item_run [OF lib, of fmt flags v0 K md ps below s0 xs w "lev + 1" w2 "CHR '']''" c s st_finish] by simp
next
  case (Cons v1 vs)
  let ?r = "item_ws flags lev True @ ser fmt flags v1 (lev + 1) @
    items_text flags lev True (map (\<lambda>v. ser fmt flags v (lev + 1)) vs) @ w2 @ CHR '']'' # c # s"
  obtain h t where h: "?r = h # t" by (cases ?r) auto
  have "goes lib ps (\<lambda>ps'. sees K md ps' below (lvl st_array_after_sep (JArray (xs @ [v0])) None) (h # t))"
    using array_item_run [OF lib, of fmt flags v0 K md ps below s0 xs w "lev + 1" "[]" "CHR '',''" h t st_array_after_sep]
      Cons.prems h by (simp add: items_text_Cons del: items_text.simps)
  then show ?case
    unfolding h [symmetric]
  proof (rule goes_trans)
    fix ps'
    assume "sees K md ps' below (lvl st_array_after_sep (JArray (xs @ [v0])) None) ?r"
    then show "goes lib ps' (\<lambda>ps'. sees K md ps' below (lvl st_finish (JArray (xs @ v0 # v1 # vs)) None) (c # s))"
      using Cons.IH [of v1 ps' st_array_after_sep "xs @ [v0]" "item_ws flags lev True"] Cons.prems ws_item_ws [of flags lev True]
      by simp
  qed
qed

section \<open>Objects\<close>

text \<open>The key of a field, from the white space before its quote to the closing quote.\<close>

lemma key_run:
  assumes "lib_ok lib" "sees K md ps below (lvl s0 v None) (w @ [DQ] @ esc t @ [DQ] @ c # s)" "ws w"
    and "s0 = st_object_field_start \<or> s0 = st_object_field_start_after_sep" "NUL \<notin> set t"
  shows "goes lib ps (\<lambda>ps'. sees K md ps' below (lvl st_object_field_end v (Some t)) (c # s))"
proof -
  let ?s = "esc t @ DQ # c # s"
  have n: "?s = hd ?s # tl ?s" by (cases "esc t") simp_all
  have 1: "goes lib ps (\<lambda>ps'. sees K md ps' below (lv s0 s0 v None) (DQ # ?s))"
    by (rule goes_mono [OF eatws_lvl [OF _ assms(3)]]) (use assms(2) in \<open>auto simp: isspace_def\<close>)
  have 2: "goes lib ps (\<lambda>ps'. sees K md ps' below (lv st_object_field s0 v None) ?s
      \<and> quote_char (ps_tok ps') = DQ \<and> acc ps' = [])"
    if sees: "sees K md ps below (lv s0 s0 v None) (DQ # ?s)" for ps
  proof -
    let ?init = "upd_tok (\<lambda>t. t\<lparr>quote_char := DQ\<rparr>) ps"
    obtain p where p: "pb_reset ?init = Some (upd_tok (\<lambda>t. t\<lparr>tk_pb := p\<rparr>) ?init)" "pb_str p = []"
      "sees K md (upd_tok (\<lambda>t. t\<lparr>tk_pb := p\<rparr>) ?init) below (lv s0 s0 v None) (DQ # ?s)"
      by (rule reset_run [of K md ?init below "lv s0 s0 v None" "DQ # ?s"]) (use sees in simp_all)
    let ?q = "upd_tok (goto_state st_object_field) (upd_tok (\<lambda>t. t\<lparr>tk_pb := p\<rparr>) ?init)"
    have "step_of (sr_state (lv s0 s0 v None)) lib (-1) ps = Some (Brk, ?q)"
      using p(1) seesD(12) [OF sees] assms(4) by (auto simp: step_object_field_start_def Let_def leave_def)
    moreover have "sees K md ?q below (lv st_object_field s0 v None) (DQ # hd ?s # tl ?s)"
      using sees_goto [OF p(3), of st_object_field] n by simp
    ultimately have "reaches lib ps (adv 1 ?q)" "sees K md (adv 1 ?q) below (lv st_object_field s0 v None) ?s"
      using reaches_brk [OF sees, of lib ?q below _ DQ "hd ?s" "tl ?s"] n by simp_all
    then show ?thesis by (rule goesI [OF _ conjI]) (use p(2) in \<open>simp add: goto_state_def set_top_def\<close>)
  qed
  have 3: "goes lib ps (\<lambda>ps'. \<exists>pre x. sees K md ps' below (lv st_object_field x v None) (pre @ DQ # c # s)
      \<and> (\<forall>x\<in>set pre. plain x) \<and> acc ps' @ pre = t \<and> quote_char (ps_tok ps') = DQ
      \<and> length (acc ps') + length pre < 2 ^ 28)"
    if "sees K md ps below (lv st_object_field s0 v None) ?s \<and> quote_char (ps_tok ps) = DQ \<and> acc ps = []" for ps
    using string_body_run [OF assms(1) _ conjunct1 [OF that], of st_object_field] that seesD(7) [OF conjunct1 [OF that]]
    by (simp add: string_scan_def)
  have 4: "goes lib ps (\<lambda>ps'. sees K md ps' below (lvl st_object_field_end v (Some t)) (c # s))"
    if e: "\<exists>pre x. sees K md ps below (lv st_object_field x v None) (pre @ DQ # c # s)
      \<and> (\<forall>x\<in>set pre. plain x) \<and> acc ps @ pre = t \<and> quote_char (ps_tok ps) = DQ
      \<and> length (acc ps) + length pre < 2 ^ 28" for ps
  proof -
    obtain pre x where q: "sees K md ps below (lv st_object_field x v None) (pre @ DQ # c # s)" "\<forall>x\<in>set pre. plain x"
      "acc ps @ pre = t" "quote_char (ps_tok ps) = DQ" "length (acc ps) + length pre < 2 ^ 28"
      using e by blast
    obtain p where p: "scan (\<lambda>_ t. t) (quote_or_backslash ps) (-1) ps = Some (True, adv (length pre) ps)"
      "append_fast lib (passed (ps_str ps) (adv (length pre) ps)) (adv (length pre) ps) =
        Some (upd_tok (\<lambda>u. u\<lparr>tk_pb := p\<rparr>) (adv (length pre) ps))"
      "pb_str p = acc ps @ pre" "read_cstr (buf p) = Some (cstr (acc ps @ pre))" "pb_inv p"
      "sees K md (upd_tok (\<lambda>u. u\<lparr>tk_pb := p\<rparr>) (adv (length pre) ps)) below (lv st_object_field x v None) (DQ # c # s)"
      by (rule string_scan_run [OF assms(1) q(1) q(4) q(2) _ q(5)]) simp_all
    let ?q = "upd_tok (\<lambda>u. u\<lparr>tk_pb := p\<rparr>) (adv (length pre) ps)"
    let ?name = "set_top (\<lambda>r. r\<lparr>sr_field_name := Some t\<rparr>)"
    have "step_of (sr_state (lv st_object_field x v None)) lib (-1) ps =
        Some (Brk, upd_tok (eatws_then st_object_field_end \<circ> ?name) ?q)"
      using p(1,2,4) q(3,4) seesD(12) [OF p(6)] cstr_id [OF assms(5)] assms(1) by (simp add: step_object_field_def Let_def leave_def lib_ok_def)
    moreover have "sees K md (upd_tok (eatws_then st_object_field_end) (upd_tok ?name ?q)) below
        (lvl st_object_field_end v (Some t)) (DQ # c # s)"
      using sees_eatws_then [OF sees_set_top [OF p(6), of "\<lambda>r. r\<lparr>sr_field_name := Some t\<rparr>"], of st_object_field_end]
      by (simp add: lv_def lvl_def)
    then have "sees K md (upd_tok (eatws_then st_object_field_end \<circ> ?name) ?q) below
        (lvl st_object_field_end v (Some t)) (DQ # c # s)" by simp
    ultimately show ?thesis by (rule brk_goes [OF q(1)]) simp
  qed
  show ?thesis by (rule goes_trans [OF goes_trans [OF goes_trans [OF 1 2] 3] 4])
qed

lemma field_put_fresh: "k \<notin> fst ` set kvs \<Longrightarrow> field_put kvs k v = kvs @ [(k, v)]"
  by (induction kvs k v rule: field_put.induct) auto

lemma object_value_add_run:
  assumes lib: "lib_ok lib" and "sees K md ps below (lv st_object_value_add x (JObject kvs) (Some k)) (c # s)" "ps_obj ps = v"
    and "k \<notin> fst ` set kvs"
  shows "goes lib ps (\<lambda>ps'. sees K md ps' below (lvl st_object_sep (JObject (kvs @ [(k, v)])) None) (c # s))"
proof -
  let ?f = "\<lambda>r. r\<lparr>sr_current := JObject (kvs @ [(k, v)]), sr_field_name := None\<rparr>"
  let ?q = "upd_tok (eatws_then st_object_sep) (upd_tok (set_top ?f) ps)"
  have "step_of (sr_state (lv st_object_value_add x (JObject kvs) (Some k))) lib (-1) ps = Some (Redo, ?q)"
    using sees_top(1) [OF assms(2)] assms(3) field_put_fresh [OF assms(4)] lib
    by (simp add: step_object_value_add_def leave_def lib_ok_def)
  from reaches_redo [OF assms(2) this] show ?thesis
    by (rule goesI) (use sees_eatws_then [OF sees_set_top [OF assms(2), of ?f], of st_object_sep] in simp)
qed

text \<open>One field, up to the comma or the closing brace after it.\<close>

lemma object_field_run:
  assumes "lib_ok lib" "parses lib fmt flags v" "wf_val lib v"
    and "sees K md ps below (lvl s0 (JObject kvs) None) (w @ field_text flags k (ser fmt flags v lev) @ w2 @ c # x # s)"
    and "ws w" "ws w2" "s0 = st_object_field_start \<or> s0 = st_object_field_start_after_sep"
    and "int (length below) + 1 + int (height v) < md"
    and "c = CHR '','' \<and> s1 = st_object_field_start_after_sep \<or> c = CHR ''}'' \<and> s1 = st_finish"
    and "NUL \<notin> set k" "k \<notin> fst ` set kvs"
  shows "goes lib ps (\<lambda>ps'. sees K md ps' below (lvl s1 (JObject (kvs @ [(k, v)])) None) (x # s))"
proof -
  have d: "delimiter c" "\<not> isspace c" "c \<noteq> CHR ''/''" "c \<noteq> NUL"
    using assms(9) by (auto simp: delimiter_def isspace_def)
  let ?sp = "if spaced flags then '' '' else []"
  let ?val = "?sp @ ser fmt flags v lev @ w2 @ c # x # s"
  obtain h t where h: "?val = h # t" by (cases ?val) auto
  have "sees K md ps below (lvl s0 (JObject kvs) None) (w @ [DQ] @ esc k @ [DQ] @ CHR '':'' # ?val)"
    using assms(4) cstr_id [OF assms(10)] by (simp add: field_text_def split: if_splits)
  then have 1: "goes lib ps (\<lambda>ps'. sees K md ps' below (lvl st_object_field_end (JObject kvs) (Some k)) (CHR '':'' # ?val))"
    by (rule key_run [OF assms(1)]) (use assms in simp_all)
  have 2: "goes lib ps (\<lambda>ps'. sees K md ps' below (lvl st_object_value (JObject kvs) (Some k)) ?val)"
    if "sees K md ps below (lvl st_object_field_end (JObject kvs) (Some k)) (CHR '':'' # ?val)" for ps
    using that unfolding h
    by (intro punct_run [where w = "[]" and c = "CHR '':''"]) (auto simp: step_object_field_end_def isspace_def)
  have 3: "goes lib ps (\<lambda>ps'. sees K md ps' below (lv st_object_value_add st_object_value (JObject kvs) (Some k)) (c # x # s)
      \<and> ps_obj ps' = v)"
    if "sees K md ps below (lvl st_object_value (JObject kvs) (Some k)) ?val" for ps
    by (rule child_run [OF assms(2,3) that _ assms(6) d(1,2) assms(8)]) (auto simp: step_object_value_def isspace_def)
  have 4: "goes lib ps (\<lambda>ps'. sees K md ps' below (lvl st_object_sep (JObject (kvs @ [(k, v)])) None) (c # x # s))"
    if "sees K md ps below (lv st_object_value_add st_object_value (JObject kvs) (Some k)) (c # x # s) \<and> ps_obj ps = v" for ps
    using object_value_add_run [OF assms(1) conjunct1 [OF that] conjunct2 [OF that] assms(11)] .
  have 5: "goes lib ps (\<lambda>ps'. sees K md ps' below (lvl s1 (JObject (kvs @ [(k, v)])) None) (x # s))"
    if "sees K md ps below (lvl st_object_sep (JObject (kvs @ [(k, v)])) None) (c # x # s)" for ps
    by (rule punct_run [where w = "[]" and c = c]) (use that d assms(9) in \<open>auto simp: step_object_sep_def\<close>)
  show ?thesis
    by (rule goes_trans [OF goes_trans [OF goes_trans [OF goes_trans [OF 1 2] 3] 4] 5])
qed

definition field_ser :: "(double \<Rightarrow> string) \<Rightarrow> 32 word \<Rightarrow> nat \<Rightarrow> string \<times> jval \<Rightarrow> string" where
  "field_ser fmt flags lev kv = field_text flags (fst kv) (ser fmt flags (snd kv) lev)"

lemma object_fields_run:
  assumes "lib_ok lib"
    and "\<forall>(k, v)\<in>set (kv # kvs2). parses lib fmt flags v \<and> wf_val lib v \<and> int (length below) + 1 + int (height v) < md
      \<and> NUL \<notin> set k"
    and "distinct (map fst (kvs @ kv # kvs2))"
    and "sees K md ps below (lvl s0 (JObject kvs) None)
      (w @ field_ser fmt flags (lev + 1) kv @ items_text flags lev True (map (field_ser fmt flags (lev + 1)) kvs2) @ w2 @ CHR ''}'' # c # s)"
    and "ws w" "ws w2" "s0 = st_object_field_start \<or> s0 = st_object_field_start_after_sep"
  shows "goes lib ps (\<lambda>ps'. sees K md ps' below (lvl st_finish (JObject (kvs @ kv # kvs2)) None) (c # s))"
  using assms(2-)
proof (induction kvs2 arbitrary: kv kvs w s0 ps)
  case Nil
  obtain k v where kv: "kv = (k, v)" by (cases kv)
  have s: "sees K md ps below (lvl s0 (JObject kvs) None)
      (w @ field_text flags k (ser fmt flags v (lev + 1)) @ w2 @ CHR ''}'' # c # s)"
    using Nil.prems(3) by (simp add: kv field_ser_def)
  show ?case unfolding kv
    by (rule object_field_run [OF assms(1) _ _ s]) (use Nil.prems in \<open>auto simp: kv\<close>)
next
  case (Cons kv1 kvs2)
  obtain k v where kv: "kv = (k, v)" by (cases kv)
  let ?r = "item_ws flags lev True @ field_ser fmt flags (lev + 1) kv1 @ items_text flags lev True (map (field_ser fmt flags (lev + 1)) kvs2) @ w2 @ CHR ''}'' # c # s"
  obtain h t where h: "?r = h # t" by (cases ?r) (auto simp: field_ser_def field_text_def split: prod.splits)
  have s: "sees K md ps below (lvl s0 (JObject kvs) None)
      (w @ field_text flags k (ser fmt flags v (lev + 1)) @ [] @ CHR '','' # h # t)"
    using Cons.prems(3) unfolding h [symmetric]
    by (simp add: kv field_ser_def [of _ _ _ "(k, v)"] items_text_Cons del: items_text.simps)
  have "goes lib ps (\<lambda>ps'. sees K md ps' below (lvl st_object_field_start_after_sep (JObject (kvs @ [(k, v)])) None) (h # t))"
    by (rule object_field_run [OF assms(1) _ _ s]) (use Cons.prems in \<open>auto simp: kv\<close>)
  then show ?case
    unfolding h [symmetric]
  proof (rule goes_trans)
    fix ps'
    assume "sees K md ps' below (lvl st_object_field_start_after_sep (JObject (kvs @ [(k, v)])) None) ?r"
    then show "goes lib ps' (\<lambda>ps'. sees K md ps' below (lvl st_finish (JObject (kvs @ kv # kv1 # kvs2)) None) (c # s))"
      using Cons.IH [of kv1 "kvs @ [(k, v)]" ps' st_object_field_start_after_sep "item_ws flags lev True"]
        Cons.prems ws_item_ws [of flags lev True] by (simp add: kv)
  qed
qed

section \<open>Values\<close>

definition open_ws :: "32 word \<Rightarrow> string" where
  "open_ws flags = (if pretty flags then [NL] else [])"

definition close_ws :: "32 word \<Rightarrow> nat \<Rightarrow> bool \<Rightarrow> string" where
  "close_ws flags lev had =
     (if pretty flags \<and> had then [NL] else []) @ (if pretty flags then spaces (2 * lev) else [])
     @ (if spaced flags then '' '' else [])"

lemma ws_brackets: "ws (open_ws flags)" "ws (close_ws flags lev had)" "ws (open_ws flags @ item_ws flags lev had)"
  by (auto simp: open_ws_def close_ws_def item_ws_def isspace_def)

lemma bracket_text_ws:
  "bracket_text flags lev [o1] [c1] [] = o1 # (open_ws flags @ close_ws flags lev False) @ [c1]"
  "bracket_text flags lev [o1] [c1] (x # xs) = o1 # (open_ws flags @ item_ws flags lev False) @ x
     @ items_text flags lev True xs @ close_ws flags lev True @ [c1]"
  by (simp_all add: bracket_text_def items_text_Cons open_ws_def close_ws_def del: items_text.simps(2))

lemma parsesI:
  assumes "wf_val lib v"
    and "\<And>K md ps below lev c s. sees K md ps below (lv st_start st_start JNull None) (ser fmt flags v lev @ c # s) \<Longrightarrow>
      delimiter c \<Longrightarrow> int (length below) + int (height v) < md \<Longrightarrow>
      goes lib ps (\<lambda>ps'. sees K md ps' below (lvl st_finish v None) (c # s))"
  shows "parses lib fmt flags v"
  unfolding parses_def
proof (intro allI impI)
  fix K md ps below w lev c s
  assume a: "sees K md ps below (lvl st_start JNull None) (w @ ser fmt flags v lev @ c # s)" "ws w"
    "delimiter c" "int (length below) + int (height v) < md"
  obtain h t where h: "ser fmt flags v lev = h # t" "\<not> isspace h" "h \<noteq> CHR ''/''"
    using ser_head [OF assms(1)] by blast
  have "goes lib ps (\<lambda>ps'. sees K md ps' below (lv st_start st_start JNull None) (ser fmt flags v lev @ c # s))"
    using eatws_lvl [of K md ps below st_start JNull None w h "t @ c # s" lib] a(1,2) h by (auto elim: goes_mono)
  then show "goes lib ps (\<lambda>ps'. sees K md ps' below (lvl st_finish v None) (c # s))"
    by (rule goes_trans) (rule assms(2) [OF _ a(3,4)])
qed

lemma parses_scalars:
  assumes "lib_std lib"
  shows "parses lib fmt flags JNull" "b = 0 \<or> b = 1 \<Longrightarrow> parses lib fmt flags (JBool b)"
    "in_i64 i \<Longrightarrow> parses lib fmt flags (JInt i)"
    "dtext lib d t \<Longrightarrow> parses lib fmt flags (JDouble d (Some t))"
    "parses lib fmt flags (JString u)" "d = d_inf \<or> d = d_nan \<Longrightarrow> parses lib fmt flags (JDouble d None)"
proof -
  note lib = lib_std_ok [OF assms]
  show "parses lib fmt flags JNull"
  proof (rule parsesI)
    fix K md ps below lev c s
    assume a: "sees K md ps below (lv st_start st_start JNull None) (ser fmt flags JNull lev @ c # s)"
    have "goes lib ps (\<lambda>ps'. sees K md ps' below (lv st_null st_start JNull None) (''null'' @ c # s)
        \<and> st_pos (ps_tok ps') = 0 \<and> acc ps' = [])"
      using start_literal_run [of K md ps below "CHR ''n''" "''ull'' @ c # s" st_null lib] a by simp
    then show "goes lib ps (\<lambda>ps'. sees K md ps' below (lvl st_finish JNull None) (c # s))"
    proof (rule goes_trans, elim conjE)
      fix ps' assume q: "sees K md ps' below (lv st_null st_start JNull None) (''null'' @ c # s)"
        "st_pos (ps_tok ps') = 0" "acc ps' = []"
      show "goes lib ps' (\<lambda>ps'. sees K md ps' below (lvl st_finish JNull None) (c # s))"
        using null_run [OF lib q(1) _ q(3,2)] by simp
    qed
  qed simp
  show "parses lib fmt flags (JBool b)" if b: "b = 0 \<or> b = 1"
  proof (rule parsesI)
    fix K md ps below lev c s
    let ?t = "if b = 0 then ''false'' else ''true''"
    assume a: "sees K md ps below (lv st_start st_start JNull None) (ser fmt flags (JBool b) lev @ c # s)"
    have "goes lib ps (\<lambda>ps'. sees K md ps' below (lv st_boolean st_start JNull None) (?t @ c # s)
        \<and> st_pos (ps_tok ps') = 0 \<and> acc ps' = [])"
      using start_literal_run [of K md ps below "if b = 0 then CHR ''f'' else CHR ''t''"
          "(if b = 0 then ''alse'' else ''rue'') @ c # s" st_boolean lib] a b by auto
    then show "goes lib ps (\<lambda>ps'. sees K md ps' below (lvl st_finish (JBool b) None) (c # s))"
    proof (rule goes_trans, elim conjE)
      fix ps' assume q: "sees K md ps' below (lv st_boolean st_start JNull None) (?t @ c # s)"
        "st_pos (ps_tok ps') = 0" "acc ps' = []"
      show "goes lib ps' (\<lambda>ps'. sees K md ps' below (lvl st_finish (JBool b) None) (c # s))"
      proof (cases "b = 0")
        case True
        then show ?thesis using false_run [OF lib _ _ q(3,2), of K md below _ c s] q(1) by fastforce
      next
        case False
        then show ?thesis using true_run [OF lib _ _ q(3,2), of K md below _ c s] q(1) b by fastforce
      qed
    qed
  qed (use b in simp)
  have num: "goes lib ps (\<lambda>ps'. sees K md ps' below (lv st_number st_start JNull None) (t @ c # s)
      \<and> \<not> is_double (ps_tok ps') \<and> acc ps' = [])"
    if a: "sees K md ps below (lv st_start st_start JNull None) (t @ c # s)" "isdigit (c_hd t) \<or> c_hd t = CHR ''-''"
    for K md ps below t c s
  proof -
    have "t \<noteq> []" using that(2) by (auto simp: isdigit_def code_of_def)
    then obtain h u where "t = h # u" by (cases t) auto
    then show ?thesis using start_number_run [of K md ps below h "u @ c # s" lib] a by simp
  qed
  show "parses lib fmt flags (JInt i)" if i: "in_i64 i"
  proof (rule parsesI)
    fix K md ps below lev c s
    assume a: "sees K md ps below (lv st_start st_start JNull None) (ser fmt flags (JInt i) lev @ c # s)" "delimiter c"
    have "goes lib ps (\<lambda>ps'. sees K md ps' below (lv st_number st_start JNull None) (show_int i @ c # s)
        \<and> \<not> is_double (ps_tok ps') \<and> acc ps' = [])"
      by (rule num) (use a show_int_chars(5) in simp_all)
    then show "goes lib ps (\<lambda>ps'. sees K md ps' below (lvl st_finish (JInt i) None) (c # s))"
      by (rule goes_trans) (use int_run [OF assms _ _ _ _ a(2) i] in fastforce)
  qed (use i in simp)
  show "parses lib fmt flags (JDouble d (Some t))" if d: "dtext lib d t"
  proof (rule parsesI)
    fix K md ps below lev c s
    have "cstr t = t" using d by (simp add: dtext_def cstr_id NUL_not_number)
    moreover assume "sees K md ps below (lv st_start st_start JNull None) (ser fmt flags (JDouble d (Some t)) lev @ c # s)"
    ultimately have a: "sees K md ps below (lv st_start st_start JNull None) (t @ c # s)" by simp
    assume c: "delimiter c"
    have "goes lib ps (\<lambda>ps'. sees K md ps' below (lv st_number st_start JNull None) (t @ c # s)
        \<and> \<not> is_double (ps_tok ps') \<and> acc ps' = [])"
      by (rule num [OF a]) (use d in \<open>simp add: dtext_def\<close>)
    then show "goes lib ps (\<lambda>ps'. sees K md ps' below (lvl st_finish (JDouble d (Some t)) None) (c # s))"
      by (rule goes_trans) (use double_run [OF assms _ _ _ _ c d] in fastforce)
  qed (use d in simp)
  show "parses lib fmt flags (JString u)"
    by (rule parsesI) (use string_run [OF lib] in simp_all)
  show "parses lib fmt flags (JDouble d None)" if d: "d = d_inf \<or> d = d_nan"
  proof (rule parsesI)
    fix K md ps below lev c s
    assume a: "sees K md ps below (lv st_start st_start JNull None) (ser fmt flags (JDouble d None) lev @ c # s)"
    show "goes lib ps (\<lambda>ps'. sees K md ps' below (lvl st_finish (JDouble d None) None) (c # s))"
    proof (cases "d = d_inf")
      case True
      have "goes lib ps (\<lambda>ps'. sees K md ps' below (lv st_inf st_start JNull None) (''Infinity'' @ c # s)
          \<and> st_pos (ps_tok ps') = 0 \<and> acc ps' = [])"
        using start_literal_run [of K md ps below "CHR ''I''" "''nfinity'' @ c # s" st_inf lib] a True special_text by simp
      then show ?thesis
      proof (rule goes_trans, elim conjE)
        fix ps' assume q: "sees K md ps' below (lv st_inf st_start JNull None) (''Infinity'' @ c # s)"
          "st_pos (ps_tok ps') = 0" "acc ps' = []"
        show "goes lib ps' (\<lambda>ps'. sees K md ps' below (lvl st_finish (JDouble d None) None) (c # s))"
          using inf_run [OF lib q(1) _ q(3,2)] True by simp
      qed
    next
      case False
      then have n: "d = d_nan" using d by simp
      have "goes lib ps (\<lambda>ps'. sees K md ps' below (lv st_null st_start JNull None) (''NaN'' @ c # s)
          \<and> st_pos (ps_tok ps') = 0 \<and> acc ps' = [])"
        using start_literal_run [of K md ps below "CHR ''N''" "''aN'' @ c # s" st_null lib] a n special_text by simp
      then show ?thesis
      proof (rule goes_trans, elim conjE)
        fix ps' assume q: "sees K md ps' below (lv st_null st_start JNull None) (''NaN'' @ c # s)"
          "st_pos (ps_tok ps') = 0" "acc ps' = []"
        show "goes lib ps' (\<lambda>ps'. sees K md ps' below (lvl st_finish (JDouble d None) None) (c # s))"
          using nan_run [OF lib q(1) _ q(3,2)] n by simp
      qed
    qed
  qed (use d in simp)
qed

lemma parses_array:
  assumes lib: "lib_ok lib" and "\<And>v. v \<in> set vs \<Longrightarrow> parses lib fmt flags v" "wf_val lib (JArray vs)"
  shows "parses lib fmt flags (JArray vs)"
proof (rule parsesI [OF assms(3)])
  fix K md ps below lev c s
  assume a: "sees K md ps below (lv st_start st_start JNull None) (ser fmt flags (JArray vs) lev @ c # s)"
    "delimiter c" "int (length below) + int (height (JArray vs)) < md"
  obtain x t where x: "tl (ser fmt flags (JArray vs) lev) @ c # s = x # t"
    by (cases "tl (ser fmt flags (JArray vs) lev) @ c # s") auto
  have head: "ser fmt flags (JArray vs) lev = CHR ''['' # tl (ser fmt flags (JArray vs) lev)"
    by (simp add: bracket_text_def)
  have "goes lib ps (\<lambda>ps'. sees K md ps' below (lvl st_array (JArray []) None) (x # t))"
    using start_open_run [OF lib, of K md ps below "CHR ''[''" x t "JArray []" st_array] a(1) x head
    by (metis append_Cons)
  then show "goes lib ps (\<lambda>ps'. sees K md ps' below (lvl st_finish (JArray vs) None) (c # s))"
    unfolding x [symmetric]
  proof (rule goes_trans)
    fix ps'
    assume q: "sees K md ps' below (lvl st_array (JArray []) None) (tl (ser fmt flags (JArray vs) lev) @ c # s)"
    show "goes lib ps' (\<lambda>ps'. sees K md ps' below (lvl st_finish (JArray vs) None) (c # s))"
    proof (cases vs)
      case Nil
      have s: "sees K md ps' below (lvl st_array (JArray []) None)
          ((open_ws flags @ close_ws flags lev False) @ CHR '']'' # c # s)"
        using q by (simp add: Nil bracket_text_ws)
      have st: "step_of st_array lib (-1) ps = leave Brk (eatws_then st_finish) ps"
        if "ps_c ps = CHR '']''" "sees K md ps below (lv st_array st_array (JArray []) None) (CHR '']'' # c # s)" for ps
        using that(1) sees_top(1) [OF that(2)] by (simp add: step_array_def)
      show ?thesis unfolding Nil
        by (rule punct_run [OF s _ _ _ _ st]) (use ws_brackets in \<open>simp_all add: ball_Un isspace_def\<close>)
    next
      case (Cons v0 vs')
      have wf: "\<forall>v\<in>set vs. wf_val lib v" using assms(3) by (simp add: list_all_iff)
      have h: "int (length below) + 1 + int (height v) < md" if "v \<in> set vs" for v
        using height_elem [OF that] a(3) by linarith
      show ?thesis
        using array_items_run [OF lib, of v0 vs' fmt flags below md K ps' st_array "[]"
            "open_ws flags @ item_ws flags lev False" lev "close_ws flags lev True" c s] q assms(2) wf h ws_brackets [of flags]
        by (simp add: Cons bracket_text_ws comp_def del: height.simps wf_val.simps)
    qed
  qed
qed

lemma parses_object:
  assumes "lib_ok lib" "\<And>k v. (k, v) \<in> set kvs \<Longrightarrow> parses lib fmt flags v" "wf_val lib (JObject kvs)"
  shows "parses lib fmt flags (JObject kvs)"
proof (rule parsesI [OF assms(3)])
  fix K md ps below lev c s
  assume a: "sees K md ps below (lv st_start st_start JNull None) (ser fmt flags (JObject kvs) lev @ c # s)"
    "delimiter c" "int (length below) + int (height (JObject kvs)) < md"
  let ?ser = "ser fmt flags (JObject kvs) lev"
  obtain x t where x: "tl ?ser @ c # s = x # t" by (cases "tl ?ser @ c # s") auto
  have head: "?ser = CHR ''{'' # tl ?ser" by (simp add: bracket_text_def)
  have "goes lib ps (\<lambda>ps'. sees K md ps' below (lvl st_object_field_start (JObject []) None) (x # t))"
    using start_open_run [OF assms(1), of K md ps below "CHR ''{''" x t "JObject []" st_object_field_start] a(1) x head
    by (metis append_Cons)
  then show "goes lib ps (\<lambda>ps'. sees K md ps' below (lvl st_finish (JObject kvs) None) (c # s))"
    unfolding x [symmetric]
  proof (rule goes_trans)
    fix ps'
    assume q: "sees K md ps' below (lvl st_object_field_start (JObject []) None) (tl ?ser @ c # s)"
    show "goes lib ps' (\<lambda>ps'. sees K md ps' below (lvl st_finish (JObject kvs) None) (c # s))"
    proof (cases kvs)
      case Nil
      have s: "sees K md ps' below (lvl st_object_field_start (JObject []) None)
          ((open_ws flags @ close_ws flags lev False) @ CHR ''}'' # c # s)"
        using q by (simp add: Nil bracket_text_ws)
      have st: "step_of st_object_field_start lib (-1) ps = leave Brk (eatws_then st_finish) ps"
        if "ps_c ps = CHR ''}''" "sees K md ps below (lv st_object_field_start st_object_field_start (JObject []) None) (CHR ''}'' # c # s)" for ps
        using that(1) sees_top(1) [OF that(2)] by (simp add: step_object_field_start_def)
      show ?thesis unfolding Nil
        by (rule punct_run [OF s _ _ _ _ st]) (use ws_brackets in \<open>simp_all add: ball_Un isspace_def\<close>)
    next
      case (Cons kv kvs')
      have wf: "\<forall>(k, v)\<in>set kvs. wf_val lib v \<and> NUL \<notin> set k" "distinct (map fst kvs)"
        using assms(3) by (auto simp: list_all_iff)
      have h: "int (length below) + 1 + int (height v) < md" if "(k, v) \<in> set kvs" for k v
        using height_field [OF that] a(3) by linarith
      have ok: "\<forall>(k, v)\<in>set (kv # kvs'). parses lib fmt flags v \<and> wf_val lib v \<and> int (length below) + 1 + int (height v) < md
          \<and> NUL \<notin> set k"
        using wf h assms(2) unfolding Cons [symmetric] by blast
      have t: "?ser = CHR ''{'' # (open_ws flags @ item_ws flags lev False) @ field_ser fmt flags (lev + 1) kv
          @ items_text flags lev True (map (field_ser fmt flags (lev + 1)) kvs') @ close_ws flags lev True @ ''}''"
        by (simp add: Cons bracket_text_ws field_ser_def [abs_def] comp_def case_prod_unfold del: items_text.simps)
      have q': "sees K md ps' below (lvl st_object_field_start (JObject []) None)
          ((open_ws flags @ item_ws flags lev False) @ field_ser fmt flags (lev + 1) kv
           @ items_text flags lev True (map (field_ser fmt flags (lev + 1)) kvs') @ close_ws flags lev True @ CHR ''}'' # c # s)"
        using q unfolding t by simp
      have "goes lib ps' (\<lambda>ps'. sees K md ps' below (lvl st_finish (JObject ([] @ kv # kvs')) None) (c # s))"
        by (rule object_fields_run [OF assms(1) ok _ q']) (use wf(2) ws_brackets in \<open>simp_all add: Cons\<close>)
      then show ?thesis by (simp add: Cons)
    qed
  qed
qed

lemma parses_all: "lib_std lib \<Longrightarrow> wf_val lib v \<Longrightarrow> parses lib fmt flags v"
proof (induction v)
  case (JDouble d ds)
  then show ?case using parses_scalars(4,6) by (cases ds) auto
next
  case (JArray vs)
  then show ?case by (intro parses_array lib_std_ok) (auto simp: list_all_iff)
next
  case (JObject kvs)
  have "parses lib fmt flags v" if "(k, v) \<in> set kvs" for k v
    by (rule JObject.IH [OF that]) (use JObject.prems that in \<open>auto simp: list_all_iff\<close>)
  then show ?case using JObject.prems by (intro parses_object) (simp_all add: lib_std_ok)
qed (use parses_scalars in auto)

section \<open>The whole input\<close>

text \<open>The end of the input at depth 0, and what follows the label \<open>out\<close>.\<close>

lemma finish_root:
  assumes "sees K md ps [] (lvl st_finish v None) (NUL # s)"
  shows "\<exists>ps'. parse_loop lib (-1) True ps = Some ps' \<and> sees K md ps' [] (lv st_finish st_finish v None) (NUL # s)"
proof -
  have "goes lib ps (\<lambda>ps'. sees K md ps' [] (lv st_finish st_finish v None) (NUL # s))"
    by (rule goes_mono [OF eatws_lvl [where w = "[]"]]) (use assms in \<open>auto simp: isspace_def\<close>)
  then obtain ps' where r: "reaches lib ps ps'" and q: "sees K md ps' [] (lv st_finish st_finish v None) (NUL # s)"
    by (auto simp: goes_def)
  have "parse_loop lib (-1) True ps' = Some ps'"
    using seesD(3) [OF q]
    by (subst parse_loop.simps) (simp add: parse_turn_def tok_step_sees [OF q] step_finish_def Let_def)
  then show ?thesis using r q by (auto simp: reaches_def)
qed

lemma parse_out_root:
  assumes "sees K md ps [] (lv st_finish st_finish v None) (NUL # s)"
  shows "\<exists>t. parse_out ps = Some (v, t) \<and> tk_err t = json_tokener_success \<and> tk_depth t = 0 \<and> tk_stack t \<noteq> []"
  using seesD [OF assms] sees_top [OF assms]
  by (simp add: parse_out_def Let_def numeral_nat json_tokener_reset_level_def level_ok_def)

text \<open>\<open>json_tokener_parse_verbose\<close>: a new tokener, one run of the loop, what follows \<open>out\<close>.\<close>

lemma verbose_run:
  assumes "lib_ok lib" "NUL \<in> set s" "length s < 2 ^ 28"
  obtains q where "sees (int (length s)) 32 q [] (lvl st_start JNull None) s"
    "\<And>ps v t. parse_loop lib (-1) True q = Some ps \<Longrightarrow> parse_out ps = Some (v, t) \<Longrightarrow>
      json_tokener_parse_verbose lib s = map_option
        (\<lambda>t'. (if tk_err t \<noteq> json_tokener_success then JNull else v, Some (tk_err t))) (json_tokener_reset t)"
proof -
  obtain p where p: "printbuf_new mem_ok = Some p" "pb_inv p" "size p < 2 ^ 30"
    using printbuf_new_room [of mem_ok _ 0] by (auto simp: pb_room_def printbuf_new_def )
  let ?z = "\<lparr>sr_state = st_eatws, sr_saved = st_eatws, sr_current = JNull, sr_field_name = None\<rparr>"
  define t where "t = \<lparr>tk_pb = p, max_depth = 32, tk_depth = 0, is_double = False, st_pos = 0, char_offset = 0,
    tk_err = json_tokener_success, ucs_char = 0, quote_char = NUL,
    tk_stack = lvl st_start JNull None # replicate 31 ?z, tk_flags = 0\<rparr>"
  have new: "json_tokener_new (mem_at lib Mem_tokener 0) (realloc_ok lib) = Some (Some t)"
    using assms(1) p(1)
    by (simp add: json_tokener_new_def json_tokener_new_ex_def JSON_TOKENER_DEFAULT_DEPTH_def lib_ok_def t_def lvl_def
        json_tokener_reset_def json_tokener_reset_level_def level_ok_def numeral_eq_Suc)
  let ?q = "\<lparr>ps_tok = t, ps_str = s, ps_c = hd s, ps_obj = JNull\<rparr>"
  let ?init = "\<lparr>ps_tok = t, ps_str = s, ps_c = CHR 0x01, ps_obj = JNull\<rparr>"
  obtain x u where x: "s = x # u" using assms(2) by (cases s) auto
  have peek: "parse_loop lib (-1) False ?init = parse_loop lib (-1) True ?q"
  proof -
    have "PEEK_CHAR (-1) ?init = Some (True, ?q)" by (rule trans [OF PEEK_ok [of _ x u]]) (simp_all add: t_def x)
    then have "parse_turn lib (-1) False ?init = parse_turn lib (-1) True ?q" by (simp add: parse_turn_def)
    then show ?thesis unfolding parse_loop.simps [of lib "-1" False ?init] parse_loop.simps [of lib "-1" True ?q] by simp
  qed
  have sees: "sees (int (length s)) 32 ?q [] (lvl st_start JNull None) s"
    using p(2,3) assms(3) x by (simp add: sees_def t_def)
  have t0: "t\<lparr>char_offset := 0, tk_err := json_tokener_success\<rparr> = t" by (simp add: t_def)
  have n: "\<not> int (length (cstr s)) > INT32_MAX"
  proof -
    have "length (cstr s) \<le> length s" unfolding cstr_def by (rule length_takeWhile_le)
    then show ?thesis using assms(3) by simp
  qed
  show thesis
  proof (rule that [OF sees])
    fix ps v t'
    assume "parse_loop lib (-1) True ?q = Some ps" "parse_out ps = Some (v, t')"
    then have "json_tokener_parse_ex lib t s (-1) = Some (v, t')"
      unfolding json_tokener_parse_ex_def Let_def t0 using peek n assms(2) by simp
    then show "json_tokener_parse_verbose lib s = map_option
        (\<lambda>u. (if tk_err t' \<noteq> json_tokener_success then JNull else v, Some (tk_err t'))) (json_tokener_reset t')"
      using new by (cases "json_tokener_reset t'") (simp_all add: json_tokener_parse_verbose_def)
  qed
qed

lemma parse_verbose_text:
  assumes "lib_std lib" "wf_val lib v" "height v \<le> 31" "length (ser fmt flags v 0) < 2 ^ 28 - 1"
  shows "json_tokener_parse_verbose lib (ser fmt flags v 0 @ [NUL]) = Some (v, Some json_tokener_success)"
proof -
  let ?s = "ser fmt flags v 0"
  obtain q where q: "sees (int (length (?s @ [NUL]))) 32 q [] (lvl st_start JNull None) (?s @ [NUL])"
    and run: "\<And>ps v t. parse_loop lib (-1) True q = Some ps \<Longrightarrow> parse_out ps = Some (v, t) \<Longrightarrow>
      json_tokener_parse_verbose lib (?s @ [NUL]) = map_option
        (\<lambda>t'. (if tk_err t \<noteq> json_tokener_success then JNull else v, Some (tk_err t))) (json_tokener_reset t)"
    by (rule verbose_run [OF lib_std_ok [OF assms(1)], of "?s @ [NUL]"]) (use assms(4) in auto)
  let ?K = "int (length (?s @ [NUL]))"
  obtain ps1 where r1: "reaches lib q ps1" and q1: "sees ?K 32 ps1 [] (lvl st_finish v None) [NUL]"
    using parses_all [OF assms(1,2), of fmt flags, unfolded parses_def, rule_format, of ?K 32 q "[]" "[]" 0 NUL "[]"]
      q assms(3) by (auto simp: goes_def delimiter_def)
  obtain ps2 where p2: "parse_loop lib (-1) True ps1 = Some ps2" and
    q2: "sees ?K 32 ps2 [] (lv st_finish st_finish v None) [NUL]"
    using finish_root [OF q1] by blast
  obtain t' where t': "parse_out ps2 = Some (v, t')" "tk_err t' = json_tokener_success" "tk_depth t' = 0" "tk_stack t' \<noteq> []"
    using parse_out_root [OF q2] by blast
  have "parse_loop lib (-1) True q = Some ps2" using r1 p2 by (simp add: reaches_def)
  from run [OF this t'(1)] show ?thesis
    using t'(2-4) by (simp add: json_tokener_reset_def json_tokener_reset_level_def level_ok_def)
qed

section \<open>Printing and parsing\<close>

text \<open>
  C2. Parsing inverts printing: whatever the formatting flags, the string printed for a value, at most
  31 levels deep and 2^28 bytes long, is parsed to that same value without an error, with a standard
  \<open>sscanf\<close> and memory for everything. The value is built from \<open>null\<close>, booleans, 64-bit integers, doubles
  that carry the number text they were read from, \<open>Infinity\<close>, \<open>NaN\<close>, any strings, arrays, and objects
  whose keys are distinct and without NUL. Not \<open>-Infinity\<close>, which is refused after another literal.
\<close>

theorem json_print_parse_roundtrip:
  assumes "lib_std lib" "wf_val lib v" "height v \<le> 31" "fmt_ok fmt flags" "fmt_no_NUL fmt flags"
    and "length (ser fmt flags v 0) < 2 ^ 28 - 1"
  shows "\<exists>s pb. json_object_to_json_string_ext mem_ok fmt None v flags = Some (Some s, pb)
    \<and> json_tokener_parse_verbose lib (s @ [NUL]) = Some (v, Some json_tokener_success)"
proof -
  have "cstr (ser fmt flags v 0) = ser fmt flags v 0" using NUL_notin_ser [OF assms(4,5)] by (simp add: cstr_id)
  then show ?thesis
    using to_json_string_ext_text [OF assms(4), of v None] parse_verbose_text [OF assms(1-3,6)] assms(6) by auto
qed

text \<open>A library with \<open>sscanf\<close> for one double.\<close>

definition lib_example :: libc where
  "lib_example = \<lparr>realloc_ok = mem_ok, mem_at = (\<lambda>_ _. True), sscanf_d = std_sscanf, sscanf_bad = False,
     sscanf_lf = (\<lambda>s. if s = ''1.5'' then Some 0x3FF8000000000000 else None)\<rparr>"

theorem json_print_parse_roundtrip_witness:
  "\<exists>s pb. json_object_to_json_string_ext mem_ok (\<lambda>d. ''1.5'') None
        (JObject [(''a'', JArray [JInt (-7), JNull, JDouble d_inf None, JDouble 0x3FF8000000000000 (Some ''1.5'')]), (''b'', JString [DQ, NUL])])
        JSON_C_TO_STRING_PRETTY = Some (Some s, pb)
    \<and> json_tokener_parse_verbose lib_example (s @ [NUL]) = Some
        (JObject [(''a'', JArray [JInt (-7), JNull, JDouble d_inf None, JDouble 0x3FF8000000000000 (Some ''1.5'')]), (''b'', JString [DQ, NUL])],
         Some json_tokener_success)"
proof (rule json_print_parse_roundtrip [OF _ _ _ fmt_example])
  show "lib_std lib_example" by (simp add: lib_std_def lib_ok_def lib_example_def)
  show "wf_val lib_example (JObject [(''a'', JArray [JInt (-7), JNull, JDouble d_inf None, JDouble 0x3FF8000000000000 (Some ''1.5'')]), (''b'', JString [DQ, NUL])])"
    by (simp add: dtext_def lib_example_def json_number_chars_def dbl_char_def isdigit_def code_of_def in_i64_def)

qed (simp_all add: bracket_text_def field_text_def special_text JSON_C_TO_STRING_PRETTY_def JSON_C_TO_STRING_SPACED_def esc_def esc_char_def cstr_def
    short_escape.simps show_int_def dec.simps [of 7] code_of_def)

end
