(* ===== verification/Tokener_Depth.thy ===== *)
theory Tokener_Depth
  imports Tokener_Safe Json_Roundtrip
begin

text \<open>
  The limit on the depth (\<open>json_tokener.c\<close>, the states \<open>json_tokener_state_array\<close> and
  \<open>json_tokener_state_object_value\<close>): a document that opens more levels than the tokener has is
  refused with \<open>json_tokener_error_depth\<close> before a level outside the stack is used.
\<close>

section \<open>Opening arrays\<close>

text \<open>A character that begins a value: the white space state and the array state pass it on.\<close>

definition begins :: "char \<Rightarrow> bool" where
  "begins c \<longleftrightarrow> \<not> isspace c \<and> c \<noteq> CHR ''/'' \<and> c \<noteq> CHR '']'' \<and> c \<noteq> NUL"

lemma begins_open: "begins (CHR ''['')"
  by (simp add: begins_def isspace_def)

lemma open_arrays_run:
  assumes lib: "lib_ok lib" and "begins c" "int (length below + n) < md"
    and "sees K md ps below (lvl st_start JNull None) (replicate (Suc n) (CHR ''['') @ c # s)"
  shows "goes lib ps (\<lambda>ps'. \<exists>below'. length below' = length below + n
    \<and> sees K md ps' below' (lvl st_array (JArray []) None) (c # s))"
  using assms(3,4)
proof (induction n arbitrary: below ps)
  case 0
  have "goes lib ps (\<lambda>ps'. sees K md ps' below (lv st_start st_start JNull None) (CHR ''['' # c # s))"
    by (rule goes_mono [OF eatws_lvl [where w = "[]"]]) (use 0 begins_open in \<open>auto simp: begins_def\<close>)
  then have "goes lib ps (\<lambda>ps'. sees K md ps' below (lvl st_array (JArray []) None) (c # s))"
    by (rule goes_trans) (rule start_open_run [OF lib], simp_all)
  then show ?case by (rule goes_mono) auto
next
  case (Suc n)
  let ?rest = "replicate n (CHR ''['') @ c # s"
  have "goes lib ps (\<lambda>ps'. sees K md ps' below (lv st_start st_start JNull None) (CHR ''['' # CHR ''['' # ?rest))"
    by (rule goes_mono [OF eatws_lvl [where w = "[]"]]) (use Suc.prems begins_open in \<open>auto simp: begins_def\<close>)
  then have "goes lib ps (\<lambda>ps'. sees K md ps' below (lvl st_array (JArray []) None) (CHR ''['' # ?rest))"
    by (rule goes_trans) (rule start_open_run [OF lib], simp_all)
  then have "goes lib ps (\<lambda>ps'. sees K md ps' below (lv st_array st_array (JArray []) None) (CHR ''['' # ?rest))"
    by (rule goes_trans) (rule goes_mono [OF eatws_lvl [where w = "[]"]], use begins_open in \<open>auto simp: begins_def\<close>)
  then have "goes lib ps (\<lambda>ps'. sees K md ps' (below @ [lv st_array_add st_array (JArray []) None])
      (lvl st_start JNull None) (CHR ''['' # ?rest))"
  proof (rule goes_trans)
    fix q
    assume q: "sees K md q below (lv st_array st_array (JArray []) None) (CHR ''['' # ?rest)"
    have "step_of (sr_state (lv st_array st_array (JArray []) None)) lib (-1) q = descend st_array_add q"
      using seesD(12) [OF q] by (simp add: step_array_def)
    then show "goes lib q (\<lambda>ps'. sees K md ps' (below @ [lv st_array_add st_array (JArray []) None])
      (lvl st_start JNull None) (CHR ''['' # ?rest))"
      using descend_run [OF q] Suc.prems(1) by simp
  qed
  then show ?case
  proof (rule goes_trans)
    fix q
    assume "sees K md q (below @ [lv st_array_add st_array (JArray []) None])
      (lvl st_start JNull None) (CHR ''['' # ?rest)"
    then have "goes lib q (\<lambda>ps'. \<exists>below'. length below' = length (below @ [lv st_array_add st_array (JArray []) None]) + n
        \<and> sees K md ps' below' (lvl st_array (JArray []) None) (c # s))"
      using Suc.prems(1) by (intro Suc.IH) simp_all
    then show "goes lib q (\<lambda>ps'. \<exists>below'. length below' = length below + Suc n
        \<and> sees K md ps' below' (lvl st_array (JArray []) None) (c # s))"
      by simp
  qed
qed

text \<open>At the last level there is no level below.\<close>

lemma too_deep:
  assumes "sees K md ps below (lv st_array st_array (JArray []) None) (c # s)" "begins c"
    and "int (length below) \<ge> md - 1"
  shows "parse_loop lib (-1) True ps = Some (upd_tok (\<lambda>t. t\<lparr>tk_err := json_tokener_error_depth\<rparr>) ps)"
proof -
  have "step_of st_array lib (-1) ps = fail json_tokener_error_depth ps"
    using seesD(3,5,12) [OF assms(1)] assms(2,3) by (simp add: step_array_def begins_def descend_def)
  then show ?thesis
    by (subst parse_loop.simps) (simp add: parse_turn_def tok_step_sees [OF assms(1)] fail_def)
qed

lemma parse_out_depth:
  assumes "sees K md ps below (lv st_array st_array (JArray []) None) (c # s)" "begins c"
  shows "parse_out (upd_tok (\<lambda>t. t\<lparr>tk_err := json_tokener_error_depth\<rparr>) ps) =
    Some (JNull, (ps_tok ps)\<lparr>tk_err := json_tokener_error_depth\<rparr>)"
  using seesD(12) [OF assms(1)] sees_top [OF assms(1)] assms(2)
  by (simp add: parse_out_def Let_def level_ok_def begins_def)

lemma reset_sees:
  assumes "sees K md ps below r s"
  shows "json_tokener_reset ((ps_tok ps)\<lparr>tk_err := e\<rparr>) \<noteq> None"
proof -
  have "nat (tk_depth ((ps_tok ps)\<lparr>tk_err := e\<rparr>) + 1) \<le> length (tk_stack ((ps_tok ps)\<lparr>tk_err := e\<rparr>))"
    using seesD(3,4) [OF assms] by simp
  then show ?thesis unfolding json_tokener_reset_def by (subst reset_levels_stack) simp_all
qed

section \<open>Properties\<close>

text \<open>
  C28. With memory for everything, a string that opens 32 arrays (\<open>JSON_TOKENER_DEFAULT_DEPTH\<close>) and begins one more value, whatever
  follows, is refused with \<open>json_tokener_error_depth\<close> and no value.
\<close>

theorem json_tokener_parse_too_deep:
  assumes "lib_ok lib" "begins c" "NUL \<in> set s" "length s < 2 ^ 27"
  shows "json_tokener_parse_verbose lib (replicate 32 (CHR ''['') @ c # s) = Some (JNull, Some json_tokener_error_depth)"
proof -
  let ?s = "replicate (Suc 31) (CHR ''['') @ c # s"
  have s: "?s = replicate 32 (CHR ''['') @ c # s" by (simp add: numeral_eq_Suc)
  obtain q where q: "sees (int (length ?s)) 32 q [] (lvl st_start JNull None) ?s"
    and run: "\<And>ps v t. parse_loop lib (-1) True q = Some ps \<Longrightarrow> parse_out ps = Some (v, t) \<Longrightarrow>
      json_tokener_parse_verbose lib ?s = map_option
        (\<lambda>t'. (if tk_err t \<noteq> json_tokener_success then JNull else v, Some (tk_err t))) (json_tokener_reset t)"
    by (rule verbose_run [OF assms(1), of ?s]) (use assms(3,4) in auto)
  have "goes lib q (\<lambda>ps'. \<exists>below'. length below' = length ([] :: srec list) + 31
    \<and> sees (int (length ?s)) 32 ps' below' (lvl st_array (JArray []) None) (c # s))"
    by (rule open_arrays_run [OF assms(1,2) _ q]) simp
  then obtain p below where p: "reaches lib q p" "length below = 31"
    "sees (int (length ?s)) 32 p below (lvl st_array (JArray []) None) (c # s)"
    by (auto simp: goes_def)
  have "goes lib p (\<lambda>ps'. sees (int (length ?s)) 32 ps' below (lv st_array st_array (JArray []) None) (c # s))"
    by (rule goes_mono [OF eatws_lvl [where w = "[]"]]) (use p(3) assms(2) in \<open>auto simp: begins_def\<close>)
  then obtain p' where p': "reaches lib p p'"
    "sees (int (length ?s)) 32 p' below (lv st_array st_array (JArray []) None) (c # s)"
    by (auto simp: goes_def)
  have "parse_loop lib (-1) True q = Some (upd_tok (\<lambda>t. t\<lparr>tk_err := json_tokener_error_depth\<rparr>) p')"
    using p(1) p'(1) too_deep [OF p'(2) assms(2), of lib] p(2) by (simp add: reaches_def)
  from run [OF this parse_out_depth [OF p'(2) assms(2)]] show ?thesis
    unfolding s using reset_sees [OF p'(2), of json_tokener_error_depth] by auto
qed

theorem json_tokener_parse_too_deep_witness:
  "json_tokener_parse_verbose lib_example (replicate 32 (CHR ''['') @ CHR ''1'' # [NUL]) = Some (JNull, Some json_tokener_error_depth)"
  by (rule json_tokener_parse_too_deep) (simp_all add: lib_ok_def lib_example_def begins_def isspace_def)

end
