(* ===== verification/Json_Heap.thy ===== *)
theory Json_Heap
  imports Json_Value Lookup3 Arraylist "HOL-Library.Multiset"
begin

text \<open>
  The objects of \<open>json_object.c\<close> in memory: tagged cells with a reference count, and
  \<open>json_object_put\<close>, which frees a cell and puts what it holds. A store maps addresses to
  cells; an address is not given out twice, so using freed memory is \<open>None\<close>. The held
  references are a multiset of addresses, and \<open>heap_ok\<close> says that every count is the number of
  references from live cells and from holders.
\<close>

section \<open>Cells\<close>

type_synonym addr = nat

text \<open>The member of the union that was written last; \<open>O_zero\<close> is the union as \<open>calloc\<close> leaves it.\<close>

datatype odata =
    O_zero
  | O_boolean int
  | O_double double
  | O_int64 int
  | O_string string
  | O_object "(string, addr) lh_table"
  | O_array "addr array_list option"

datatype delete_fn = generic_delete | string_delete | object_delete | array_delete

text \<open>
  The serializers of the library: the standard one of a type, the one that prints the user data,
  and others by a number. \<open>o_user_del\<close> is set when \<open>_user_delete\<close> is; of the library's own there
  is only \<open>json_object_free_userdata\<close>, which frees the text and touches no object.
\<close>

datatype to_string_fn = To_json json_type | To_userdata | To_other nat

record json_object =
  o_type :: json_type
  o_delete :: delete_fn
  o_to_json :: "to_string_fn option"
  o_refs :: int
  o_data :: odata
  o_user_del :: bool
  o_userdata :: "string option"

record heap =
  cells :: "addr \<Rightarrow> json_object option"
  next_addr :: addr

definition store_cell :: "addr \<Rightarrow> json_object \<Rightarrow> heap \<Rightarrow> heap" where
  "store_cell a c h = h\<lparr>cells := (cells h)(a \<mapsto> c)\<rparr>"

definition free_cell :: "addr \<Rightarrow> heap \<Rightarrow> heap option" where
  "free_cell a h = (if a \<in> dom (cells h) then Some (h\<lparr>cells := (cells h)(a := None)\<rparr>) else None)"

lemma store_cell_simps [simp]:
  "cells (store_cell a c h) = (cells h)(a \<mapsto> c)" "next_addr (store_cell a c h) = next_addr h"
  by (simp_all add: store_cell_def)

section \<open>Reference counting\<close>

definition json_object_get :: "addr option \<Rightarrow> heap \<Rightarrow> (addr option \<times> heap) option" where
  "json_object_get jso h =
     (case jso of
        None \<Rightarrow> Some (None, h)
      | Some a \<Rightarrow> do {
          c \<leftarrow> cells h a;
          n \<leftarrow> i32 (o_refs c + 1);
          Some (jso, store_cell a (c\<lparr>o_refs := n\<rparr>) h) })"

text \<open>
  What \<open>_delete\<close> puts before it frees the cell: \<open>array_list_free\<close> calls
  \<open>json_object_array_entry_free\<close> on the elements, \<open>lh_table_free\<close> calls
  \<open>json_object_lh_entry_free\<close> on the entries.
\<close>

definition json_object_lh_entry_free :: "(string, addr) lh_entry \<Rightarrow> addr option" where
  "json_object_lh_entry_free ent = ent_v ent"

definition json_object_array_entry_free :: "addr \<Rightarrow> addr option" where
  "json_object_array_entry_free data = Some data"

fun json_object_object_delete :: "odata \<Rightarrow> addr option list option" where
  "json_object_object_delete (O_object t) = map_option (map json_object_lh_entry_free) (lh_table_free t)"
| "json_object_object_delete d = None"

fun json_object_array_delete :: "odata \<Rightarrow> addr option list option" where
  "json_object_array_delete (O_array (Some a)) =
     map_option (map json_object_array_entry_free) (array_list_free a)"
| "json_object_array_delete d = None"

fun json_object_string_delete :: "odata \<Rightarrow> addr option list option" where
  "json_object_string_delete (O_string s) = Some []"
| "json_object_string_delete d = None"

text \<open>The call through \<open>jso->_delete\<close>.\<close>

fun delete_children :: "delete_fn \<Rightarrow> odata \<Rightarrow> addr option list option" where
  "delete_children generic_delete d = Some []"
| "delete_children string_delete d = json_object_string_delete d"
| "delete_children object_delete d = json_object_object_delete d"
| "delete_children array_delete d = json_object_array_delete d"

fun each :: "('a \<Rightarrow> 's \<Rightarrow> 's option) \<Rightarrow> 'a list \<Rightarrow> 's \<Rightarrow> 's option" where
  "each f [] s = Some s"
| "each f (x # xs) s = do { s \<leftarrow> f x s; each f xs s }"

lemma each_mono [partial_function_mono]:
  assumes "\<And>x s. monotone option.le_fun option_ord (\<lambda>f. B f x s)"
  shows "monotone option.le_fun option_ord (\<lambda>f. each (B f) xs s)"
proof (induction xs arbitrary: s)
  case Nil
  show ?case by (simp add: option.const_mono)
next
  case (Cons x xs)
  show ?case unfolding each.simps
    by (rule bind_mono [OF assms]) (rule Cons.IH)
qed

text \<open>The result and the heap; the cell is freed after what it holds was put.\<close>

partial_function (option) json_object_put :: "addr option \<Rightarrow> heap \<Rightarrow> (int \<times> heap) option" where
  "json_object_put jso h =
     (case jso of
        None \<Rightarrow> Some (0, h)
      | Some a \<Rightarrow> do {
          c \<leftarrow> cells h a;
          n \<leftarrow> i32 (o_refs c - 1);
          let h = store_cell a (c\<lparr>o_refs := n\<rparr>) h;
          if n = 0
          then do {
            ps \<leftarrow> delete_children (o_delete c) (o_data c);
            h \<leftarrow> each (\<lambda>p h. do { (r, h) \<leftarrow> json_object_put p h; Some h }) ps h;
            h \<leftarrow> free_cell a h;
            Some (1, h) }
          else Some (0, h) })"


section \<open>The invariant\<close>

text \<open>
  A cell is well typed when its tag, its \<open>_delete\<close> function and the member of the union agree,
  and what the member points to is a well-formed table or array.
\<close>

fun data_typed :: "json_type \<Rightarrow> delete_fn \<Rightarrow> odata \<Rightarrow> bool" where
  "data_typed ty del (O_boolean b) \<longleftrightarrow> ty = json_type_boolean \<and> del = generic_delete"
| "data_typed ty del (O_double d) \<longleftrightarrow> ty = json_type_double \<and> del = generic_delete"
| "data_typed ty del (O_int64 i) \<longleftrightarrow> ty = json_type_int \<and> del = generic_delete"
| "data_typed ty del (O_string s) \<longleftrightarrow> ty = json_type_string \<and> del = string_delete"
| "data_typed ty del (O_object t) \<longleftrightarrow>
     ty = json_type_object \<and> del = object_delete \<and> lh_free_fn t \<and> lh_room 0 t"
| "data_typed ty del (O_array (Some a)) \<longleftrightarrow> ty = json_type_array \<and> del = array_delete \<and> arr_inv a"
| "data_typed ty del d \<longleftrightarrow> False"

definition cell_typed :: "json_object \<Rightarrow> bool" where
  "cell_typed c \<longleftrightarrow> data_typed (o_type c) (o_delete c) (o_data c)"

fun kids :: "odata \<Rightarrow> addr list" where
  "kids (O_object t) = pointers (map snd (lh_entries t))"
| "kids (O_array (Some a)) = pointers (arr_list a)"
| "kids d = []"

definition kids_at :: "heap \<Rightarrow> addr \<Rightarrow> addr list" where
  "kids_at h a = (case cells h a of Some c \<Rightarrow> kids (o_data c) | None \<Rightarrow> [])"

definition ref_count :: "heap \<Rightarrow> addr \<Rightarrow> nat" where
  "ref_count h a = (case cells h a of Some c \<Rightarrow> nat (o_refs c) | None \<Rightarrow> 0)"

text \<open>A cell with count 0 is being deleted; the others are live.\<close>

definition live :: "heap \<Rightarrow> addr set" where
  "live h = {a. \<exists>c. cells h a = Some c \<and> o_refs c \<noteq> 0}"

definition owed :: "heap \<Rightarrow> addr multiset \<Rightarrow> addr multiset" where
  "owed h E = (\<Sum>a\<in>live h. mset (kids_at h a)) + E"

definition heap_ok :: "heap \<Rightarrow> addr multiset \<Rightarrow> bool" where
  "heap_ok h E \<longleftrightarrow>
     finite (dom (cells h)) \<and> (\<forall>a\<in>dom (cells h). a < next_addr h)
     \<and> (\<forall>a c. cells h a = Some c \<longrightarrow> cell_typed c \<and> 0 \<le> o_refs c \<and> o_refs c \<le> INT32_MAX)
     \<and> (\<forall>a. count (owed h E) a = ref_count h a)"

definition settled :: "heap \<Rightarrow> bool" where
  "settled h \<longleftrightarrow> live h = dom (cells h)"

text \<open>What \<open>put\<close> may change: cells disappear and counts go down, the content stays.\<close>

definition shrunk :: "heap \<Rightarrow> heap \<Rightarrow> bool" where
  "shrunk h h' \<longleftrightarrow> next_addr h' = next_addr h
     \<and> (\<forall>a c'. cells h' a = Some c' \<longrightarrow>
          (\<exists>c. cells h a = Some c \<and> c' = c\<lparr>o_refs := o_refs c'\<rparr> \<and> (o_refs c' = 0 \<longrightarrow> o_refs c = 0)))
     \<and> (\<forall>a c. cells h a = Some c \<longrightarrow> o_refs c = 0 \<longrightarrow> cells h' a = Some c)"

lemma live_subset: "live h \<subseteq> dom (cells h)"
  by (auto simp: live_def)

lemma liveI: "cells h a = Some c \<Longrightarrow> o_refs c \<noteq> 0 \<Longrightarrow> a \<in> live h"
  by (auto simp: live_def)

lemma settled_refs:
  assumes "settled h" "cells h a = Some c"
  shows "o_refs c \<noteq> 0"
proof -
  have "a \<in> live h" using assms by (simp add: settled_def domI)
  then show ?thesis using assms(2) by (auto simp: live_def)
qed

lemma heap_okD:
  assumes "heap_ok h E"
  shows "finite (dom (cells h))" "finite (live h)" "\<And>a. count (owed h E) a = ref_count h a"
    "\<And>a c. cells h a = Some c \<Longrightarrow> cell_typed c" "\<And>a c. cells h a = Some c \<Longrightarrow> 0 \<le> o_refs c"
    "\<And>a c. cells h a = Some c \<Longrightarrow> o_refs c \<le> INT32_MAX" "\<And>a. a \<in> dom (cells h) \<Longrightarrow> a < next_addr h"
  using assms finite_subset [OF live_subset] unfolding heap_ok_def by blast+

lemma ref_count_pos: "0 < ref_count h a \<Longrightarrow> a \<in> live h"
  by (auto simp: ref_count_def live_def split: option.splits)

lemma owed_live: "heap_ok h E \<Longrightarrow> a \<in># owed h E \<Longrightarrow> a \<in> live h"
  using ref_count_pos heap_okD(3) by (metis count_greater_zero_iff)

lemma held_live: "heap_ok h E \<Longrightarrow> a \<in># E \<Longrightarrow> a \<in> live h"
  by (rule owed_live) (auto simp: owed_def)

lemma kid_live: "heap_ok h E \<Longrightarrow> a \<in> live h \<Longrightarrow> b \<in> set (kids_at h a) \<Longrightarrow> b \<in> live h"
proof (rule owed_live)
  assume h: "heap_ok h E" "a \<in> live h" "b \<in> set (kids_at h a)"
  have "mset (kids_at h a) \<subseteq># (\<Sum>a\<in>live h. mset (kids_at h a))"
    using sum.remove [OF heap_okD(2) [OF h(1)] h(2)] by (metis mset_subset_eq_add_left)
  then show "b \<in># owed h E" using h(3) mset_subset_eqD by (fastforce simp: owed_def)
qed

lemma shrunk_refl [simp]: "shrunk h h"
  by (auto simp: shrunk_def)

lemma shrunkD:
  assumes "shrunk h h'"
  shows "next_addr h' = next_addr h"
    "cells h' a = Some c' \<Longrightarrow> \<exists>c. cells h a = Some c \<and> c' = c\<lparr>o_refs := o_refs c'\<rparr> \<and> (o_refs c' = 0 \<longrightarrow> o_refs c = 0)"
    "cells h a = Some c \<Longrightarrow> o_refs c = 0 \<Longrightarrow> cells h' a = Some c"
  using assms unfolding shrunk_def by blast+

lemma shrunk_trans:
  assumes "shrunk h h'" "shrunk h' h''"
  shows "shrunk h h''"
  unfolding shrunk_def
proof (intro conjI allI impI)
  fix a c''
  assume "cells h'' a = Some c''"
  then obtain c' where c': "cells h' a = Some c'" "c'' = c'\<lparr>o_refs := o_refs c''\<rparr>"
      "o_refs c'' = 0 \<longrightarrow> o_refs c' = 0"
    using shrunkD(2) [OF assms(2)] by blast
  then obtain c where c: "cells h a = Some c" "c' = c\<lparr>o_refs := o_refs c'\<rparr>" "o_refs c' = 0 \<longrightarrow> o_refs c = 0"
    using shrunkD(2) [OF assms(1)] by blast
  have "c'' = c\<lparr>o_refs := o_refs c''\<rparr>" by (subst c'(2), subst c(2)) simp
  then show "\<exists>c. cells h a = Some c \<and> c'' = c\<lparr>o_refs := o_refs c''\<rparr> \<and> (o_refs c'' = 0 \<longrightarrow> o_refs c = 0)"
    using c c'(3) by blast
qed (use shrunkD(1,3) [OF assms(1)] shrunkD(1,3) [OF assms(2)] in auto)

lemma shrunk_drop:
  assumes s: "shrunk (store_cell a d h) h'" and c: "cells h a = Some c" "o_refs c \<noteq> 0"
    and h'': "cells h'' = (cells h')(a := None)" "next_addr h'' = next_addr h'"
  shows "shrunk h h''"
  unfolding shrunk_def
proof (intro conjI allI impI)
  fix b c'
  assume b: "cells h'' b = Some c'"
  then have "b \<noteq> a" "cells h' b = Some c'" using h''(1) by (auto split: if_splits)
  then show "\<exists>c. cells h b = Some c \<and> c' = c\<lparr>o_refs := o_refs c'\<rparr> \<and> (o_refs c' = 0 \<longrightarrow> o_refs c = 0)"
    using shrunkD(2) [OF s, of b c'] by simp
next
  fix b c0
  assume b: "cells h b = Some c0" "o_refs c0 = 0"
  then have "b \<noteq> a" using c by auto
  then show "cells h'' b = Some c0" using shrunkD(3) [OF s, of b c0] b h''(1) by simp
qed (use shrunkD(1) [OF s] h''(2) in simp)

section \<open>Storing, freeing and counting\<close>

lemma live_store:
  "live (store_cell a c h) = (if o_refs c = 0 then live h - {a} else insert a (live h))"
  by (auto simp: live_def)

lemma kids_at_store: "kids_at (store_cell a c h) b = (if b = a then kids (o_data c) else kids_at h b)"
  by (simp add: kids_at_def)

lemma ref_count_store: "ref_count (store_cell a c h) b = (if b = a then nat (o_refs c) else ref_count h b)"
  by (simp add: ref_count_def)

lemma owed_store:
  assumes "heap_ok h E" "cells h a = Some c0" "o_refs c0 \<noteq> 0"
  shows "owed (store_cell a c h) E' + mset (kids (o_data c0)) + E =
    (if o_refs c = 0 then {#} else mset (kids (o_data c))) + E' + owed h E"
proof -
  let ?S = "\<Sum>b\<in>live h - {a}. mset (kids_at h b)"
  have fin: "finite (live h)" and a: "a \<in> live h"
    using assms heap_okD(2) liveI by blast+
  have old: "owed h E = mset (kids (o_data c0)) + ?S + E"
    using sum.remove [OF fin a, of "\<lambda>b. mset (kids_at h b)"] assms(2) by (simp add: owed_def kids_at_def)
  have rest: "(\<Sum>b\<in>live h - {a}. mset (kids_at (store_cell a c h) b)) = ?S"
    by (rule sum.cong) (auto simp: kids_at_store)
  have "(\<Sum>b\<in>live (store_cell a c h). mset (kids_at (store_cell a c h) b))
      = (if o_refs c = 0 then {#} else mset (kids (o_data c))) + ?S"
  proof (cases "o_refs c = 0")
    case True
    then show ?thesis using rest by (simp add: live_store)
  next
    case False
    then have "live (store_cell a c h) = live h" using a by (auto simp: live_store)
    then show ?thesis
      using False sum.remove [OF fin a, of "\<lambda>b. mset (kids_at (store_cell a c h) b)"] rest
      by (simp add: kids_at_store)
  qed
  then show ?thesis using old by (simp add: owed_def)
qed

lemma store_ok:
  assumes h: "heap_ok h E" "cells h a = Some c0" "o_refs c0 \<noteq> 0"
    and c: "cell_typed c" "0 \<le> o_refs c" "o_refs c \<le> INT32_MAX"
    and cnt: "(if o_refs c = 0 then {#} else mset (kids (o_data c))) + E' + replicate_mset (nat (o_refs c0)) a
      = mset (kids (o_data c0)) + E + replicate_mset (nat (o_refs c)) a"
  shows "heap_ok (store_cell a c h) E'"
proof -
  have "count (owed (store_cell a c h) E') b = ref_count (store_cell a c h) b" for b
  proof -
    have "count (owed (store_cell a c h) E') b + count (mset (kids (o_data c0)) + E) b
      = count ((if o_refs c = 0 then {#} else mset (kids (o_data c))) + E') b + ref_count h b"
      using arg_cong [OF owed_store [OF h, of c E'], of "\<lambda>m. count m b"] heap_okD(3) [OF h(1), of b]
      by simp
    moreover have "count ((if o_refs c = 0 then {#} else mset (kids (o_data c))) + E') b
        + (if b = a then nat (o_refs c0) else 0)
      = count (mset (kids (o_data c0)) + E) b + (if b = a then nat (o_refs c) else 0)"
      using arg_cong [OF cnt, of "\<lambda>m. count m b"] by (auto simp: )
    ultimately show ?thesis using h(2) by (auto simp: ref_count_store) (simp_all add: ref_count_def)
  qed
  moreover have "finite (dom (cells (store_cell a c h)))" using heap_okD(1) [OF h(1)] by simp
  ultimately show ?thesis using h c unfolding heap_ok_def by auto
qed


lemma free_ok:
  assumes h: "heap_ok h E" "cells h a = Some c" "o_refs c = 0"
  obtains h' where "free_cell a h = Some h'" "cells h' = (cells h)(a := None)" "next_addr h' = next_addr h"
    "heap_ok h' E" "owed h' E = owed h E"
proof -
  let ?h = "h\<lparr>cells := (cells h)(a := None)\<rparr>"
  have live: "live ?h = live h" "a \<notin> live h" using h by (auto simp: live_def)
  have "(\<Sum>b\<in>live h. mset (kids_at ?h b)) = (\<Sum>b\<in>live h. mset (kids_at h b))"
    using live(2) by (intro sum.cong) (auto simp: kids_at_def)
  then have owed: "owed ?h E = owed h E" using live by (simp add: owed_def)
  have "ref_count ?h b = ref_count h b" for b
    using h by (simp add: ref_count_def)
  then have "heap_ok ?h E" using h owed unfolding heap_ok_def by auto
  moreover have "free_cell a h = Some ?h" using h(2) by (simp add: free_cell_def domI)
  ultimately show thesis using that [of ?h] owed by simp
qed

section \<open>\<open>put\<close> returns\<close>

definition put_good :: "addr \<Rightarrow> heap \<Rightarrow> addr multiset \<Rightarrow> bool" where
  "put_good a h E \<longleftrightarrow> (\<exists>r h'. json_object_put (Some a) h = Some (r, h')
     \<and> heap_ok h' (E - {#a#}) \<and> shrunk h h' \<and> size (owed h' (E - {#a#})) < size (owed h E)
     \<and> r = (if a \<in> dom (cells h') then 0 else 1))"

abbreviation put_each :: "addr option list \<Rightarrow> heap \<Rightarrow> heap option" where
  "put_each \<equiv> each (\<lambda>p h. Option.bind (json_object_put p h) (\<lambda>(r, h). Some h))"

lemma put_None [simp]: "json_object_put None h = Some (0, h)"
  by (simp add: json_object_put.simps)

lemma pointers_simps [simp]: "pointers [] = []" "pointers (None # ps) = pointers ps"
  "pointers (Some a # ps) = a # pointers ps" "pointers (ps @ qs) = pointers ps @ pointers qs"
  by (simp_all add: pointers_def)

lemma put_each_good:
  assumes IH: "\<And>h E a. size (owed h E) < N \<Longrightarrow> heap_ok h E \<Longrightarrow> a \<in># E \<Longrightarrow> put_good a h E"
  shows "heap_ok h E \<Longrightarrow> mset (pointers ps) \<subseteq># E \<Longrightarrow> size (owed h E) < N \<Longrightarrow>
    \<exists>h'. put_each ps h = Some h' \<and> heap_ok h' (E - mset (pointers ps)) \<and> shrunk h h'
      \<and> size (owed h' (E - mset (pointers ps))) \<le> size (owed h E)"
proof (induction ps arbitrary: h E)
  case Nil
  then show ?case by simp
next
  case (Cons p ps)
  show ?case
  proof (cases p)
    case None
    then show ?thesis using Cons by simp
  next
    case (Some a)
    with Cons.prems have a: "a \<in># E" and sub: "mset (pointers ps) \<subseteq># E - {#a#}"
      by (simp_all add: insert_subset_eq_iff)
    obtain r h1 where p: "json_object_put (Some a) h = Some (r, h1)" "heap_ok h1 (E - {#a#})" "shrunk h h1"
        "size (owed h1 (E - {#a#})) < size (owed h E)"
      using IH [OF Cons.prems(3,1) a] unfolding put_good_def by blast
    obtain h2 where h2: "put_each ps h1 = Some h2" "heap_ok h2 (E - {#a#} - mset (pointers ps))" "shrunk h1 h2"
        "size (owed h2 (E - {#a#} - mset (pointers ps))) \<le> size (owed h1 (E - {#a#}))"
      using Cons.IH [OF p(2) sub] p(4) Cons.prems(3) by auto
    then show ?thesis using p Some shrunk_trans [OF p(3) h2(3)] by auto
  qed
qed

lemma table_free_kids:
  assumes "lh_room n t" "lh_free_fn t"
  shows "map_option (map json_object_lh_entry_free) (lh_table_free t) = Some (map snd (lh_entries t))"
proof -
  obtain "is" where r: "lh_repr t is" using assms(1) by (rule lh_roomE)
  show ?thesis
    using repr_foreach [OF r] assms(2)
    by (simp add: lh_table_free_def lh_pairs_def json_object_lh_entry_free_def o_def)
qed

lemma array_free_kids:
  assumes "arr_inv a"
  shows "\<exists>ps. array_list_free a = Some ps \<and> pointers (map json_object_array_entry_free ps) = pointers (arr_list a)"
proof -
  have "pointers (map Some xs) = xs" for xs :: "addr list" by (induction xs) simp_all
  then show ?thesis
    using assms by (auto simp: array_list_free_def arr_inv_def arr_list_def pointers_def json_object_array_entry_free_def [abs_def])
qed

lemma children_kids:
  assumes "cell_typed c"
  obtains ps where "delete_children (o_delete c) (o_data c) = Some ps" "pointers ps = kids (o_data c)"
  using assms table_free_kids array_free_kids unfolding cell_typed_def
  by (cases "(o_type c, o_delete c, o_data c)" rule: data_typed.cases) force+

lemma put_ok: "heap_ok h E \<Longrightarrow> a \<in># E \<Longrightarrow> put_good a h E"
proof (induction "size (owed h E)" arbitrary: h E a rule: less_induct)
  case less
  obtain c where c: "cells h a = Some c" "o_refs c \<noteq> 0"
    using held_live [OF less.prems] by (auto simp: live_def)
  have typed: "cell_typed c" "0 < o_refs c" "o_refs c \<le> INT32_MAX"
    using heap_okD(4-6) [OF less.prems(1) c(1)] c(2) by auto
  let ?n = "o_refs c - 1"
  let ?c = "c\<lparr>o_refs := ?n\<rparr>" and ?E = "E - {#a#}"
  let ?h = "store_cell a ?c h"
  have n: "i32 ?n = Some ?n" using typed by simp
  have E: "E = add_mset a ?E" using less.prems(2) by simp
  have suc: "nat (o_refs c) = Suc (nat ?n)" using typed by simp
  show ?case
  proof (cases "?n = 0")
    case False
    have ok: "heap_ok ?h ?E"
      by (rule store_ok [OF less.prems(1) c]) (use typed False suc E in \<open>auto simp: cell_typed_def\<close>)
    have "owed ?h ?E + E = ?E + owed h E"
      using owed_store [OF less.prems(1) c, of ?c ?E] False by simp
    from arg_cong [OF this, of size] have "size (owed ?h ?E) < size (owed h E)"
      using arg_cong [OF E, of size] by simp
    moreover have "shrunk h ?h" using c False by (auto simp: shrunk_def)
    moreover have "json_object_put (Some a) h = Some (0, ?h)"
      using c n False by (subst json_object_put.simps) (simp add: Let_def i32_def)
    ultimately show ?thesis
      unfolding put_good_def using ok by (intro exI [of _ 0] exI [of _ ?h]) simp
  next
    case True
    let ?K = "mset (kids (o_data c))"
    obtain ps where ps: "delete_children (o_delete c) (o_data c) = Some ps" "pointers ps = kids (o_data c)"
      by (rule children_kids [OF typed(1)])
    have ok: "heap_ok ?h (?K + ?E)"
      by (rule store_ok [OF less.prems(1) c]) (use typed True suc E in \<open>auto simp: cell_typed_def\<close>)
    have "owed ?h (?K + ?E) + ?K + E = (?K + ?E) + owed h E"
      using owed_store [OF less.prems(1) c, of ?c "?K + ?E"] True by simp
    from arg_cong [OF this, of size] have size: "size (owed ?h (?K + ?E)) < size (owed h E)"
      using arg_cong [OF E, of size] by simp
    have sub: "mset (pointers ps) \<subseteq># ?K + ?E" by (simp add: ps(2))
    obtain h2 where h2: "put_each ps ?h = Some h2" "heap_ok h2 (?K + ?E - ?K)" "shrunk ?h h2"
        "size (owed h2 (?K + ?E - ?K)) \<le> size (owed ?h (?K + ?E))"
      using put_each_good [OF less.hyps ok sub size] ps(2) by auto
    have a2: "cells h2 a = Some ?c" using shrunkD(3) [OF h2(3)] True by simp
    have eq: "?K + ?E - ?K = ?E" by simp
    obtain h3 where h3: "free_cell a h2 = Some h3" "cells h3 = (cells h2)(a := None)"
        "next_addr h3 = next_addr h2" "heap_ok h3 ?E" "owed h3 ?E = owed h2 ?E"
      by (rule free_ok [OF h2(2) a2]) (use True eq in auto)
    have "json_object_put (Some a) h = Some (1, h3)"
      using c n True ps(1) h2(1) h3(1) by (subst json_object_put.simps) (simp add: Let_def i32_def)
    moreover have "shrunk h h3" by (rule shrunk_drop [OF h2(3) c h3(2,3)])
    moreover have "size (owed h3 ?E) < size (owed h E)" using h3(5) h2(4) size eq by simp
    ultimately show ?thesis
      unfolding put_good_def using h3(2,4) by auto
  qed
qed


lemma put_each_ok:
  assumes "heap_ok h E" "mset (pointers ps) \<subseteq># E"
  obtains h' where "put_each ps h = Some h'" "heap_ok h' (E - mset (pointers ps))" "shrunk h h'"
  using put_each_good [OF put_ok assms lessI] by blast

section \<open>What survives\<close>

text \<open>Reachable from a held reference.\<close>

inductive held :: "heap \<Rightarrow> addr multiset \<Rightarrow> addr \<Rightarrow> bool" for h E where
  held_ref: "a \<in># E \<Longrightarrow> held h E a"
| held_kid: "held h E b \<Longrightarrow> a \<in> set (kids_at h b) \<Longrightarrow> held h E a"

definition same_data :: "heap \<Rightarrow> heap \<Rightarrow> addr \<Rightarrow> bool" where
  "same_data h h' a \<longleftrightarrow> (\<exists>c c'. cells h a = Some c \<and> cells h' a = Some c' \<and> c' = c\<lparr>o_refs := o_refs c'\<rparr>)"

lemma same_dataD: "same_data h h' a \<Longrightarrow> map_option o_data (cells h' a) = map_option o_data (cells h a)"
  unfolding same_data_def by (metis json_object.select_convs(5) json_object.surjective
      json_object.update_convs(4) option.simps(9))

lemma same_data_kids: "same_data h h' a \<Longrightarrow> kids_at h' a = kids_at h a"
  by (drule same_dataD) (auto simp: kids_at_def split: option.splits)

lemma shrunk_same: "shrunk h h' \<Longrightarrow> a \<in> dom (cells h') \<Longrightarrow> same_data h h' a"
  using shrunkD(2) by (fastforce simp: same_data_def)

lemma held_survives:
  assumes "heap_ok h' E" "shrunk h h'" "held h E a"
  shows "a \<in> live h' \<and> same_data h h' a"
  using assms(3)
proof induction
  case (held_ref a)
  then show ?case
    using held_live [OF assms(1)] shrunk_same [OF assms(2)] live_subset by blast
next
  case (held_kid b a)
  then have "a \<in> live h'" using kid_live [OF assms(1)] same_data_kids by metis
  then show ?case using shrunk_same [OF assms(2)] live_subset by blast
qed

lemma shrunk_settled: "shrunk h h' \<Longrightarrow> settled h \<Longrightarrow> settled h'"
  unfolding settled_def using shrunkD(2) [of h h'] live_subset [of h']
  by (force simp: live_def dom_def)

section \<open>\<open>put\<close> does not read what survives\<close>

definition redo :: "addr \<Rightarrow> odata \<Rightarrow> heap \<Rightarrow> heap" where
  "redo a d h = (case cells h a of Some c \<Rightarrow> store_cell a (c\<lparr>o_data := d\<rparr>) h | None \<Rightarrow> h)"

lemma cells_redo: "cells (redo a d h) b = (if b = a then map_option (\<lambda>c. c\<lparr>o_data := d\<rparr>) (cells h a) else cells h b)"
  by (auto simp: redo_def split: option.splits)

lemma dom_redo [simp]: "dom (cells (redo a d h)) = dom (cells h)"
  by (auto simp: cells_redo split: if_splits)

lemma refs_data_commute: "c\<lparr>o_data := d, o_refs := n\<rparr> = c\<lparr>o_refs := n, o_data := d\<rparr>"
  by (cases c) simp

lemma kids_at_redo [simp]: "b \<noteq> a \<Longrightarrow> kids_at (redo a d h) b = kids_at h b"
  by (simp add: kids_at_def cells_redo)

lemma redo_store:
  "a \<noteq> b \<Longrightarrow> redo a d (store_cell b c h) = store_cell b c (redo a d h)"
  "redo a d (store_cell a c h) = store_cell a (c\<lparr>o_data := d\<rparr>) h"
  by (auto simp: redo_def store_cell_def fun_upd_twist split: option.splits)

lemma store_redo: "store_cell a c (redo a d h) = store_cell a c h"
  by (simp add: redo_def store_cell_def split: option.split)

lemma free_redo:
  "a \<noteq> b \<Longrightarrow> free_cell b h = Some h' \<Longrightarrow> free_cell b (redo a d h) = Some (redo a d h')"
  by (auto simp: free_cell_def redo_def store_cell_def fun_upd_twist split: if_splits option.splits)

lemma each_unread:
  assumes f: "\<And>p h r h'. f p h = Some (r, h') \<Longrightarrow> a \<in> dom (cells h') \<Longrightarrow>
      a \<in> dom (cells h) \<and> g p (redo a d h) = Some (r, redo a d h')"
  shows "each (\<lambda>p h. Option.bind (f p h) (\<lambda>(r, h). Some h)) ps h = Some h' \<Longrightarrow> a \<in> dom (cells h') \<Longrightarrow>
    a \<in> dom (cells h) \<and> each (\<lambda>p h. Option.bind (g p h) (\<lambda>(r, h). Some h)) ps (redo a d h) = Some (redo a d h')"
proof (induction ps arbitrary: h)
  case (Cons p ps)
  then obtain r h1 where h1: "f p h = Some (r, h1)"
      "each (\<lambda>p h. Option.bind (f p h) (\<lambda>(r, h). Some h)) ps h1 = Some h'"
    by (auto simp: bind_eq_Some_iff)
  show ?case using Cons.IH [OF h1(2) Cons.prems(2)] f [OF h1(1)] by simp
qed simp

definition unread :: "addr \<Rightarrow> odata \<Rightarrow> addr option \<Rightarrow> heap \<Rightarrow> int \<times> heap \<Rightarrow> bool" where
  "unread a d p h y \<longleftrightarrow> (a \<in> dom (cells (snd y)) \<longrightarrow>
     a \<in> dom (cells h) \<and> json_object_put p (redo a d h) = Some (fst y, redo a d (snd y)))"

lemma put_unread_step:
  assumes f: "\<And>p h y. f p h = Some y \<Longrightarrow> unread a d p h y"
    and c: "cells h b = Some c"
    and e: "(if n = 0
       then do {
         ps \<leftarrow> delete_children (o_delete c) (o_data c);
         h \<leftarrow> each (\<lambda>p h. Option.bind (f p h) (\<lambda>(r, h). Some h)) ps (store_cell b (c\<lparr>o_refs := n\<rparr>) h);
         h \<leftarrow> free_cell b h;
         Some (1, h) }
       else Some (0, store_cell b (c\<lparr>o_refs := n\<rparr>) h)) = Some (r, h')"
    and n: "i32 (o_refs c - 1) = Some n" and a: "a \<in> dom (cells h')"
  shows "a \<in> dom (cells h) \<and> json_object_put (Some b) (redo a d h) = Some (r, redo a d h')"
proof (cases "n = 0")
  case False
  then have eq: "r = 0" "h' = store_cell b (c\<lparr>o_refs := n\<rparr>) h" using e by auto
  have "json_object_put (Some b) (redo a d h) = Some (0, redo a d h')"
  proof (cases "a = b")
    case True
    then show ?thesis
      using c n False eq by (subst json_object_put.simps)
        (auto simp: cells_redo redo_store store_redo refs_data_commute i32_def Let_def split: if_splits)
  next
    case False
    then show ?thesis
      using c n \<open>n \<noteq> 0\<close> eq by (subst json_object_put.simps)
        (auto simp: cells_redo redo_store i32_def Let_def split: if_splits)
  qed
  then show ?thesis using eq a c by auto
next
  case True
  with e obtain ps h2 where ps: "delete_children (o_delete c) (o_data c) = Some ps"
    and h2: "each (\<lambda>p h. Option.bind (f p h) (\<lambda>(r, h). Some h)) ps (store_cell b (c\<lparr>o_refs := n\<rparr>) h) = Some h2"
    and h': "free_cell b h2 = Some h'" and r: "r = 1"
    by (auto simp: bind_eq_Some_iff)
  have ne: "a \<noteq> b" and a2: "a \<in> dom (cells h2)"
    using h' a by (auto simp: free_cell_def split: if_splits)
  have step: "\<And>p h r h'. f p h = Some (r, h') \<Longrightarrow> a \<in> dom (cells h') \<Longrightarrow>
      a \<in> dom (cells h) \<and> json_object_put p (redo a d h) = Some (r, redo a d h')"
    using f by (fastforce simp: unread_def)
  have "a \<in> dom (cells h)"
    "put_each ps (store_cell b (c\<lparr>o_refs := n\<rparr>) (redo a d h)) = Some (redo a d h2)"
    using each_unread [OF step h2 a2] ne by (auto simp: redo_store)
  then show ?thesis
    using c n True ps free_redo [OF ne h'] r ne
    by (subst json_object_put.simps) (auto simp: cells_redo i32_def Let_def split: if_splits)
qed

lemma put_unread: "json_object_put p h = Some y \<Longrightarrow> unread a d p h y"
proof (induction rule: json_object_put.raw_induct [rotated, consumes 1, case_names step])
  case (step f p h y)
  obtain r h' where y: "y = (r, h')" by fastforce
  show ?case
  proof (cases p)
    case None
    then show ?thesis using step(2) by (auto simp: unread_def)
  next
    case (Some b)
    then obtain c n where "cells h b = Some c" "i32 (o_refs c - 1) = Some n"
      "(if n = 0
       then do {
         ps \<leftarrow> delete_children (o_delete c) (o_data c);
         h \<leftarrow> each (\<lambda>p h. Option.bind (f p h) (\<lambda>(r, h). Some h)) ps (store_cell b (c\<lparr>o_refs := n\<rparr>) h);
         h \<leftarrow> free_cell b h;
         Some (1, h) }
       else Some (0, store_cell b (c\<lparr>o_refs := n\<rparr>) h)) = Some (r, h')"
      using step(2) y by (simp add: Let_def bind_eq_Some_iff del: i32_eq_Some) blast
    then have "a \<in> dom (cells h') \<Longrightarrow> a \<in> dom (cells h) \<and>
        json_object_put (Some b) (redo a d h) = Some (r, redo a d h')"
      using put_unread_step [where f = f] step(1) by blast
    then show ?thesis using Some y by (simp add: unread_def)
  qed
qed

lemma put_each_unread:
  assumes "put_each ps h = Some h'" "a \<in> dom (cells h')"
  shows "put_each ps (redo a d h) = Some (redo a d h')"
  using each_unread [OF _ assms, where d = d] put_unread by (fastforce simp: unread_def)


section \<open>Replacing what a cell holds\<close>

definition heap_wf :: "heap \<Rightarrow> addr multiset \<Rightarrow> bool" where
  "heap_wf h E \<longleftrightarrow> heap_ok h E \<and> settled h"

text \<open>\<open>jso->o.c_object\<close> and \<open>jso->o.c_array\<close>, and a store to what they point to.\<close>

definition c_object :: "addr \<Rightarrow> heap \<Rightarrow> (string, addr) lh_table option" where
  "c_object a h = (case map_option o_data (cells h a) of Some (O_object t) \<Rightarrow> Some t | _ \<Rightarrow> None)"

definition c_array :: "addr \<Rightarrow> heap \<Rightarrow> addr array_list option" where
  "c_array a h = (case map_option o_data (cells h a) of Some (O_array (Some l)) \<Rightarrow> Some l | _ \<Rightarrow> None)"

definition set_data :: "addr \<Rightarrow> odata \<Rightarrow> heap \<Rightarrow> heap option" where
  "set_data a d h = map_option (\<lambda>c. store_cell a (c\<lparr>o_data := d\<rparr>) h) (cells h a)"

text \<open>What happened to the heap: cell \<open>a\<close> holds \<open>d\<close> now, some others may be gone.\<close>

definition replaced :: "addr \<Rightarrow> odata \<Rightarrow> heap \<Rightarrow> heap \<Rightarrow> bool" where
  "replaced a d h h' \<longleftrightarrow> a \<in> dom (cells h') \<and> shrunk (redo a d h) h'"

lemma c_object_Some: "c_object a h = Some t \<longleftrightarrow> (\<exists>c. cells h a = Some c \<and> o_data c = O_object t)"
  by (auto simp: c_object_def split: option.splits odata.splits)

lemma c_array_Some: "c_array a h = Some l \<longleftrightarrow> (\<exists>c. cells h a = Some c \<and> o_data c = O_array (Some l))"
  by (auto simp: c_array_def split: option.splits odata.splits)

lemma replaced_data:
  assumes "replaced a d h h'"
  shows "map_option o_data (cells h' a) = Some d"
    "b \<in> dom (cells h') \<Longrightarrow> b \<noteq> a \<Longrightarrow> same_data h h' b"
proof -
  have s: "same_data (redo a d h) h' b" if "b \<in> dom (cells h')" for b
    using shrunk_same that assms by (simp add: replaced_def)
  show "map_option o_data (cells h' a) = Some d"
    using same_dataD [OF s, of a] s [of a] assms
    by (cases "cells h a") (auto simp: replaced_def same_data_def cells_redo)
  show "b \<in> dom (cells h') \<Longrightarrow> b \<noteq> a \<Longrightarrow> same_data h h' b"
    using s [of b] by (simp add: same_data_def cells_redo)
qed

text \<open>Until a path passes the cell that is changed, it is the same path.\<close>

lemma held_redo:
  assumes "held h E b"
  shows "held (redo a d h) E b \<or> held (redo a d h) E a"
  using assms
proof induction
  case (held_ref b)
  then show ?case by (blast intro: held.held_ref)
next
  case (held_kid c b)
  then show ?case
    by (cases "c = a") (auto intro: held.held_kid)
qed

lemma replace_ok:
  assumes h: "heap_wf h E" and c: "cells h a = Some c" and typed: "cell_typed (c\<lparr>o_data := d\<rparr>)"
    and refs: "mset (kids d) + E' + mset (pointers ps) = mset (kids (o_data c)) + E"
    and keep: "held h E' a"
  obtains h1 h' where "put_each ps h = Some h1" "set_data a d h1 = Some h'" "heap_wf h' E'" "replaced a d h h'"
proof -
  let ?h = "store_cell a (c\<lparr>o_data := d\<rparr>) h" and ?E = "E' + mset (pointers ps)"
  have ok: "heap_ok h E" "settled h" using h by (auto simp: heap_wf_def)
  have nz: "o_refs c \<noteq> 0" "0 \<le> o_refs c" "o_refs c \<le> INT32_MAX"
    using settled_refs [OF ok(2) c] heap_okD(5,6) [OF ok(1) c] by auto
  have redo: "redo a d h = ?h" using c by (simp add: redo_def)
  have restore: "redo a (o_data c) ?h = h"
    using c by (simp add: redo_def store_cell_def fun_upd_idem)
  have ok': "heap_ok ?h ?E"
    by (rule store_ok [OF ok(1) c nz(1)]) (use nz typed refs in \<open>auto simp: ac_simps\<close>)
  obtain h2 where h2: "put_each ps ?h = Some h2" "heap_ok h2 (?E - mset (pointers ps))" "shrunk ?h h2"
    using put_each_ok [OF ok', of ps] by auto
  have ok2: "heap_ok h2 E'" using h2(2) by simp
  have "held ?h E' a" using held_redo [OF keep, of a d] redo by auto
  then have a: "a \<in> dom (cells h2)"
    using held_survives [OF ok2 h2(3)] live_subset by blast
  have "settled ?h" using ok(2) c nz(1) by (auto simp: settled_def live_store)
  then have wf: "heap_wf h2 E'" using ok2 shrunk_settled [OF h2(3)] by (simp add: heap_wf_def)
  have rep: "replaced a d h h2" using h2(3) a redo by (simp add: replaced_def)
  have run: "put_each ps h = Some (redo a (o_data c) h2)"
    using put_each_unread [OF h2(1) a, of "o_data c"] restore by simp
  obtain c2 where c2: "cells h2 a = Some c2" using a by auto
  have "o_data c2 = d" using replaced_data(1) [OF rep] c2 by simp
  then have "set_data a d (redo a (o_data c) h2) = Some h2"
    using c2 by (simp add: set_data_def cells_redo store_redo) (simp add: store_cell_def fun_upd_idem)
  then show thesis using that [OF run] wf rep by blast
qed

lemma put_wf:
  assumes "heap_wf h E" "a \<in># E"
  obtains r h' where "json_object_put (Some a) h = Some (r, h')" "heap_wf h' (E - {#a#})" "shrunk h h'"
    "r = (if a \<in> dom (cells h') then 0 else 1)"
  using put_ok [of h E a] assms shrunk_settled unfolding put_good_def heap_wf_def by blast

lemma get_wf:
  assumes "heap_wf h E" "cells h a = Some c" "o_refs c < INT32_MAX"
  obtains h' where "json_object_get (Some a) h = Some (Some a, h')" "heap_wf h' (add_mset a E)"
    "cells h' = (cells h)(a \<mapsto> c\<lparr>o_refs := o_refs c + 1\<rparr>)" "next_addr h' = next_addr h"
proof -
  let ?c = "c\<lparr>o_refs := o_refs c + 1\<rparr>"
  have ok: "heap_ok h E" "settled h" using assms by (auto simp: heap_wf_def)
  have c: "o_refs c \<noteq> 0" "0 \<le> o_refs c" "cell_typed c"
    using settled_refs [OF ok(2) assms(2)] assms(2) heap_okD(4,5) [OF ok(1)] by auto
  have "heap_ok (store_cell a ?c h) (add_mset a E)"
    by (rule store_ok [OF ok(1) assms(2) c(1)])
      (use c assms(3) in \<open>auto simp: cell_typed_def nat_add_distrib\<close>)
  moreover have "settled (store_cell a ?c h)"
    using ok(2) c assms(2) by (auto simp: settled_def live_store)
  moreover have "json_object_get (Some a) h = Some (Some a, store_cell a ?c h)"
    using assms(2,3) c by (simp add: json_object_get_def i32_def in_i32_def)
  ultimately show thesis using that by (simp add: heap_wf_def)
qed

text \<open>A cell that nothing refers to yet, with one reference held.\<close>

lemma new_cell_wf:
  assumes h: "heap_wf h E" and c: "cell_typed c" "o_refs c = 1" "kids (o_data c) = []"
  defines "h' \<equiv> store_cell (next_addr h) c h\<lparr>next_addr := Suc (next_addr h)\<rparr>"
  shows "heap_wf h' (add_mset (next_addr h) E)"
proof -
  let ?a = "next_addr h"
  have ok: "heap_ok h E" "settled h" using h by (auto simp: heap_wf_def)
  have free: "cells h ?a = None" using heap_okD(7) [OF ok(1), of ?a] by auto
  have cells: "cells h' = (cells h)(?a \<mapsto> c)" "next_addr h' = Suc ?a" by (simp_all add: h'_def)
  have live: "live h' = insert ?a (live h)" "?a \<notin> live h"
    using c(2) free by (auto simp: live_def cells)
  have "(\<Sum>b\<in>live h. mset (kids_at h' b)) = (\<Sum>b\<in>live h. mset (kids_at h b))"
    using live(2) by (intro sum.cong) (auto simp: kids_at_def cells)
  then have "owed h' (add_mset ?a E) = add_mset ?a (owed h E)"
    using live heap_okD(2) [OF ok(1)] c(3) by (simp add: owed_def kids_at_def cells)
  moreover have "count (owed h E) b = ref_count h b" for b by (rule heap_okD(3) [OF ok(1)])
  ultimately have "count (owed h' (add_mset ?a E)) b = ref_count h' b" for b
    using free c(2) by (auto simp: ref_count_def cells)
  moreover have "finite (dom (cells h'))" using heap_okD(1) [OF ok(1)] by (simp add: cells)
  moreover have "settled h'" using ok(2) live by (auto simp: settled_def cells)
  ultimately show ?thesis
    using ok(1) c(1,2) unfolding heap_wf_def heap_ok_def by (auto simp: cells less_Suc_eq)
qed

end
