(* ===== verification/Json_Object.thy ===== *)
theory Json_Object
  imports Json_Heap
begin

text \<open>
  Making JSON objects and arrays in memory and changing what they hold (\<open>json_object.c\<close>), over the
  heap of \<open>Json_Heap\<close>. The table or array of a cell is stored back once, after the references it
  gave up were put: \<open>put\<close> does not read the data of a cell that survives it (\<open>put_unread\<close>), and
  one that does not survive makes the store undefined, as it is in the code.
\<close>

section \<open>Construction\<close>

text \<open>The flag says whether \<open>calloc\<close> succeeds.\<close>

definition json_object_new :: "bool \<Rightarrow> json_type \<Rightarrow> heap \<Rightarrow> addr option \<times> heap" where
  "json_object_new mem ty h =
     (if mem
      then (Some (next_addr h),
            (store_cell (next_addr h)
              \<lparr>o_type = ty, o_delete = generic_delete, o_to_json = None, o_refs = 1, o_data = O_zero,
               o_user_del = False, o_userdata = None\<rparr> h)\<lparr>next_addr := Suc (next_addr h)\<rparr>)
      else (None, h))"

definition json_object_generic_delete :: "addr \<Rightarrow> heap \<Rightarrow> heap option" where
  "json_object_generic_delete a h = free_cell a h"

definition upd_cell :: "addr \<Rightarrow> (json_object \<Rightarrow> json_object) \<Rightarrow> heap \<Rightarrow> heap option" where
  "upd_cell a f h = map_option (\<lambda>c. store_cell a (f c) h) (cells h a)"

definition heap_new_boolean :: "bool \<Rightarrow> int \<Rightarrow> heap \<Rightarrow> (addr option \<times> heap) option" where
  "heap_new_boolean mem b h =
     (case json_object_new mem json_type_boolean h of
        (None, h) \<Rightarrow> Some (None, h)
      | (Some a, h) \<Rightarrow> do {
          h \<leftarrow> upd_cell a (\<lambda>c. c\<lparr>o_to_json := Some (To_json json_type_boolean), o_data := O_boolean b\<rparr>) h;
          Some (Some a, h) })"

definition heap_new_int64 :: "bool \<Rightarrow> int \<Rightarrow> heap \<Rightarrow> (addr option \<times> heap) option" where
  "heap_new_int64 mem i h =
     (case json_object_new mem json_type_int h of
        (None, h) \<Rightarrow> Some (None, h)
      | (Some a, h) \<Rightarrow> do {
          h \<leftarrow> upd_cell a (\<lambda>c. c\<lparr>o_to_json := Some (To_json json_type_int), o_data := O_int64 i\<rparr>) h;
          Some (Some a, h) })"

definition heap_new_double :: "bool \<Rightarrow> double \<Rightarrow> heap \<Rightarrow> (addr option \<times> heap) option" where
  "heap_new_double mem d h =
     (case json_object_new mem json_type_double h of
        (None, h) \<Rightarrow> Some (None, h)
      | (Some a, h) \<Rightarrow> do {
          h \<leftarrow> upd_cell a (\<lambda>c. c\<lparr>o_to_json := Some (To_json json_type_double), o_data := O_double d\<rparr>) h;
          Some (Some a, h) })"

text \<open>
  Without a function the standard one of the type is set, and \<open>NULL\<close> for \<open>json_type_null\<close>.
\<close>

definition json_object_set_serializer ::
  "addr \<Rightarrow> to_string_fn option \<Rightarrow> string option \<Rightarrow> bool \<Rightarrow> heap \<Rightarrow> heap option" where
  "json_object_set_serializer a to_string_func userdata user_delete h =
     upd_cell a (\<lambda>c.
       let c = c\<lparr>o_userdata := None, o_user_del := False\<rparr> in
       case to_string_func of
         None \<Rightarrow> c\<lparr>o_to_json := (if o_type c = json_type_null then None else Some (To_json (o_type c)))\<rparr>
       | Some f \<Rightarrow> c\<lparr>o_to_json := Some f, o_userdata := userdata, o_user_del := user_delete\<rparr>) h"

text \<open>The second flag says whether \<open>strdup\<close> succeeds.\<close>

definition heap_new_double_s :: "bool \<Rightarrow> bool \<Rightarrow> double \<Rightarrow> string \<Rightarrow> heap \<Rightarrow> (addr option \<times> heap) option" where
  "heap_new_double_s mem dup d ds h = do {
     (jso, h) \<leftarrow> heap_new_double mem d h;
     case jso of
       None \<Rightarrow> Some (None, h)
     | Some a \<Rightarrow>
         if \<not> dup
         then do { h \<leftarrow> json_object_generic_delete a h; Some (None, h) }
         else do {
           h \<leftarrow> json_object_set_serializer a (Some To_userdata) (Some (cstr ds)) True h;
           Some (Some a, h) } }"

definition heap_new_string :: "bool \<Rightarrow> bool \<Rightarrow> string \<Rightarrow> heap \<Rightarrow> (addr option \<times> heap) option" where
  "heap_new_string mem dup s h =
     (case json_object_new mem json_type_string h of
        (None, h) \<Rightarrow> Some (None, h)
      | (Some a, h) \<Rightarrow> do {
          h \<leftarrow> upd_cell a (\<lambda>c. c\<lparr>o_delete := string_delete, o_to_json := Some (To_json json_type_string)\<rparr>) h;
          if \<not> dup
          then do { h \<leftarrow> json_object_generic_delete a h; Some (None, h) }
          else do {
            h \<leftarrow> upd_cell a (\<lambda>c. c\<lparr>o_data := O_string (cstr s)\<rparr>) h;
            Some (Some a, h) } })"

definition heap_new_string_len ::
  "bool \<Rightarrow> bool \<Rightarrow> string \<Rightarrow> int \<Rightarrow> heap \<Rightarrow> (addr option \<times> heap) option" where
  "heap_new_string_len mem dup s n h =
     (case json_object_new mem json_type_string h of
        (None, h) \<Rightarrow> Some (None, h)
      | (Some a, h) \<Rightarrow> do {
          h \<leftarrow> upd_cell a (\<lambda>c. c\<lparr>o_delete := string_delete, o_to_json := Some (To_json json_type_string)\<rparr>) h;
          if \<not> dup
          then do { h \<leftarrow> json_object_generic_delete a h; Some (None, h) }
          else if n < 0 \<or> int (length s) < n then None
          else do {
            h \<leftarrow> upd_cell a (\<lambda>c. c\<lparr>o_data := O_string (take (nat n) s)\<rparr>) h;
            Some (Some a, h) } })"

definition JSON_OBJECT_DEF_HASH_ENTRIES :: int where
  "JSON_OBJECT_DEF_HASH_ENTRIES = 16"

text \<open>\<open>lh_kchar_table_new\<close> ends the process when it has no memory, so the check after it is idle.\<close>

definition json_object_new_object ::
  "bool \<Rightarrow> int \<Rightarrow> bool \<Rightarrow> heap \<Rightarrow> (addr option \<times> heap) option" where
  "json_object_new_object le seed mem h =
     (case json_object_new mem json_type_object h of
        (None, h) \<Rightarrow> Some (None, h)
      | (Some a, h) \<Rightarrow> do {
          h \<leftarrow> upd_cell a (\<lambda>c. c\<lparr>o_delete := object_delete, o_to_json := Some (To_json json_type_object),
                 o_data := O_object (lh_kchar_table_new le seed JSON_OBJECT_DEF_HASH_ENTRIES None True)\<rparr>) h;
          Some (Some a, h) })"

text \<open>The array may be missing: the code does not look at what \<open>array_list_new\<close> returns.\<close>

definition json_object_new_array :: "bool \<Rightarrow> (int \<Rightarrow> bool) \<Rightarrow> heap \<Rightarrow> (addr option \<times> heap) option" where
  "json_object_new_array mem al h =
     (case json_object_new mem json_type_array h of
        (None, h) \<Rightarrow> Some (None, h)
      | (Some a, h) \<Rightarrow> do {
          h \<leftarrow> upd_cell a (\<lambda>c. c\<lparr>o_delete := array_delete, o_to_json := Some (To_json json_type_array),
                 o_data := O_array (array_list_new al)\<rparr>) h;
          Some (Some a, h) })"

section \<open>Objects\<close>

text \<open>\<open>NULL\<close> unless the cell is tagged as an object; then its table.\<close>

definition json_object_get_object :: "addr option \<Rightarrow> heap \<Rightarrow> (string, addr) lh_table option option" where
  "json_object_get_object jso h =
     (case jso of
        None \<Rightarrow> Some None
      | Some a \<Rightarrow> do {
          c \<leftarrow> cells h a;
          if o_type c = json_type_object then map_option Some (c_object a h) else Some None })"

text \<open>
  The flag says whether \<open>strdup\<close> of a new key succeeds: the code does not look at what it returns,
  and \<open>lh_table_insert\<close> hashes the null pointer.
\<close>

definition json_object_object_add ::
  "bool \<Rightarrow> addr \<Rightarrow> string \<Rightarrow> addr option \<Rightarrow> heap \<Rightarrow> heap option" where
  "json_object_object_add dup jso key val h = do {
     t \<leftarrow> c_object jso h;
     (existing_entry, t) \<leftarrow> lh_table_lookup_entry t key;
     case existing_entry of
       None \<Rightarrow>
         if \<not> dup then None
         else do {
           t \<leftarrow> lh_table_insert t key val;
           set_data jso (O_object t) h }
     | Some n \<Rightarrow> do {
         (r, h) \<leftarrow> json_object_put (ent_v (lh_tab t ! n)) h;
         set_data jso (O_object (lh_upd n (\<lambda>e. e\<lparr>ent_v := val\<rparr>) t)) h } }"

definition json_object_object_length :: "addr \<Rightarrow> heap \<Rightarrow> int option" where
  "json_object_object_length jso h = map_option lh_table_length (c_object jso h)"

text \<open>Found flag, \<open>*value\<close>, heap.\<close>

definition json_object_object_get_ex ::
  "addr option \<Rightarrow> string \<Rightarrow> heap \<Rightarrow> (bool \<times> addr option \<times> heap) option" where
  "json_object_object_get_ex jso key h =
     (case jso of
        None \<Rightarrow> Some (False, None, h)
      | Some a \<Rightarrow> do {
          c \<leftarrow> cells h a;
          if o_type c = json_type_object
          then do {
            t \<leftarrow> c_object a h;
            (found, value, t) \<leftarrow> lh_table_lookup_ex t key;
            h \<leftarrow> set_data a (O_object t) h;
            Some (found, value, h) }
          else Some (False, None, h) })"

definition json_object_object_get :: "addr option \<Rightarrow> string \<Rightarrow> heap \<Rightarrow> (addr option \<times> heap) option" where
  "json_object_object_get jso key h = do {
     (found, result, h) \<leftarrow> json_object_object_get_ex jso key h;
     Some (result, h) }"

definition json_object_object_del :: "addr \<Rightarrow> string \<Rightarrow> heap \<Rightarrow> heap option" where
  "json_object_object_del jso key h = do {
     t \<leftarrow> c_object jso h;
     (r, freed, t) \<leftarrow> lh_table_delete t key;
     h \<leftarrow> put_each (map json_object_lh_entry_free freed) h;
     set_data jso (O_object t) h }"

section \<open>Arrays\<close>

definition json_object_get_array :: "addr option \<Rightarrow> heap \<Rightarrow> addr array_list option option" where
  "json_object_get_array jso h =
     (case jso of
        None \<Rightarrow> Some None
      | Some a \<Rightarrow> do {
          c \<leftarrow> cells h a;
          if o_type c = json_type_array
          then (case o_data c of O_array l \<Rightarrow> Some l | _ \<Rightarrow> None) else Some None })"

definition json_object_array_length :: "addr \<Rightarrow> heap \<Rightarrow> int option" where
  "json_object_array_length jso h = map_option array_list_length (c_array jso h)"

definition json_object_array_put_idx ::
  "(int \<Rightarrow> bool) \<Rightarrow> addr \<Rightarrow> int \<Rightarrow> addr option \<Rightarrow> heap \<Rightarrow> (int \<times> heap) option" where
  "json_object_array_put_idx al jso idx val h = do {
     a \<leftarrow> c_array jso h;
     (r, freed, a) \<leftarrow> array_list_put_idx al a idx val;
     h \<leftarrow> put_each (map json_object_array_entry_free freed) h;
     h \<leftarrow> set_data jso (O_array (Some a)) h;
     Some (r, h) }"

definition json_object_array_add ::
  "(int \<Rightarrow> bool) \<Rightarrow> addr \<Rightarrow> addr option \<Rightarrow> heap \<Rightarrow> (int \<times> heap) option" where
  "json_object_array_add al jso val h = do {
     a \<leftarrow> c_array jso h;
     (r, freed, a) \<leftarrow> array_list_add al a val;
     h \<leftarrow> put_each (map json_object_array_entry_free freed) h;
     h \<leftarrow> set_data jso (O_array (Some a)) h;
     Some (r, h) }"

definition json_object_array_get_idx :: "addr \<Rightarrow> int \<Rightarrow> heap \<Rightarrow> addr option option" where
  "json_object_array_get_idx jso idx h = do { a \<leftarrow> c_array jso h; array_list_get_idx a idx }"

definition json_object_array_sort ::
  "(addr option list \<Rightarrow> addr option list) \<Rightarrow> addr \<Rightarrow> heap \<Rightarrow> heap option" where
  "json_object_array_sort sort_fn jso h = do {
     a \<leftarrow> c_array jso h;
     set_data jso (O_array (Some (array_list_sort sort_fn a))) h }"

section \<open>Tables\<close>

lemma room_mono: "lh_room n t \<Longrightarrow> m \<le> n \<Longrightarrow> lh_room m t"
  by (auto simp: lh_room_def)

lemma field_put_new: "k \<notin> fst ` set kvs \<Longrightarrow> field_put kvs k v = kvs @ [(k, v)]"
  by (induction kvs k v rule: field_put.induct) auto

lemma field_put_keys: "fst ` set (field_put kvs k v) = insert k (fst ` set kvs)"
  by (induction kvs k v rule: field_put.induct) auto

lemma pointers_Cons: "pointers (x # xs) = pointers [x] @ pointers xs"
  by (cases x) simp_all

lemma field_put_pointers:
  "map_of kvs k = Some old \<Longrightarrow>
   mset (pointers (map snd (field_put kvs k v))) + mset (pointers [old])
   = mset (pointers (map snd kvs)) + mset (pointers [v])"
proof (induction kvs k v rule: field_put.induct)
  case (2 k' v' kvs key val)
  show ?case
  proof (cases "k' = key")
    case True
    then show ?thesis using 2(2) pointers_Cons [of v' "map snd kvs"] pointers_Cons [of val "map snd kvs"] by (simp add: ac_simps)
  next
    case False
    then show ?thesis using 2 pointers_Cons [of v' "map snd kvs"]
      pointers_Cons [of v' "map snd (field_put kvs key val)"] by simp
  qed
qed simp

lemma insert_kept:
  assumes "lh_room (Suc n) t" "k \<notin> fst ` set (lh_entries t)"
  obtains t' where "lh_table_insert t k v = Some t'" "lh_entries t' = field_put (lh_entries t) k v"
    "lh_room n t'" "lh_free_fn t' = lh_free_fn t"
proof -
  obtain t' where t': "lh_table_insert t k v = Some t'" "lh_entries t' = lh_entries t @ [(k, v)]" "lh_room n t'"
    using lh.insert_ok [OF assms] by blast
  obtain "is" where r: "lh_repr t is" "lh_size t < 2 ^ 30" using assms(1) by (rule lh_roomE)
  have "lh_free_fn t' = lh_free_fn t" by (rule lh_insert_repr [OF r, of k v]) (use t' in simp)
  then show thesis using that t' field_put_new [OF assms(2)] by metis
qed

lemma pairs_frame: "i \<notin> set is \<Longrightarrow> lh_pairs (tab[i := e]) is = lh_pairs tab is"
  by (induction "is") (auto simp: lh_pairs_def)

lemma pairs_set_value:
  assumes "distinct is" "distinct (map fst (lh_pairs tab is))" "n \<in> set is" "n < length tab"
    "ent_k (tab ! n) = Key k"
  shows "lh_pairs (tab[n := (tab ! n)\<lparr>ent_v := v\<rparr>]) is = field_put (lh_pairs tab is) k v"
  using assms
proof (induction "is")
  case (Cons i "is")
  let ?tab = "tab[n := (tab ! n)\<lparr>ent_v := v\<rparr>]"
  have Cons_pairs: "lh_pairs tab' (i # is) = (the_key (ent_k (tab' ! i)), ent_v (tab' ! i)) # lh_pairs tab' is" for tab' :: "(string, addr) lh_entry list"
    by (simp add: lh_pairs_def)
  show ?case
  proof (cases "i = n")
    case True
    then have "lh_pairs ?tab is = lh_pairs tab is"
      using Cons.prems(1) by (simp add: pairs_frame)
    then show ?thesis using Cons.prems(4,5) True by (simp add: lh_pairs_def)
  next
    case False
    then have n: "n \<in> set is" using Cons.prems(3) by simp
    then have "k \<in> set (map fst (lh_pairs tab is))"
      using Cons.prems(5) by (force simp: lh_pairs_def)
    then have "the_key (ent_k (tab ! i)) \<noteq> k"
      using Cons.prems(2) by (auto simp: lh_pairs_def)
    then show ?thesis using Cons n False by (simp add: lh_pairs_def)
  qed
qed simp


lemma repr_set_value:
  assumes r: "lh_repr t is"
  shows "lh_repr (lh_upd m (\<lambda>e. e\<lparr>ent_v := v\<rparr>) t) is"
proof -
  let ?tab = "(lh_tab t)[m := (lh_tab t ! m)\<lparr>ent_v := v\<rparr>]"
  have k: "ent_k (?tab ! i) = ent_k (lh_tab t ! i)" for i
    by (cases "m < length (lh_tab t)"; cases "i = m") (simp_all add: list_update_beyond)
  then have "slot_free (?tab ! i) = slot_free (lh_tab t ! i)" for i
    by (simp add: slot_free_def)
  moreover have "probe_ok ?tab h = probe_ok (lh_tab t) h" for h
    using k by (simp add: probe_ok_def)
  moreover have "dseg ?tab p c is q x = dseg (lh_tab t) p c is q x" for p c q x
    by (rule dseg_update_payload) simp_all
  ultimately show ?thesis using r by (simp add: lh_repr_def lh_upd_def lh_hash_def [abs_def])
qed

definition looked_up :: "('k, 'v) lh_table \<Rightarrow> ('k, 'v) lh_table" where
  "looked_up t = t\<lparr>lh_lookups := lh_lookups t + 1\<rparr>"

lemma looked_up_room: "lh_room n t \<Longrightarrow> lh_room n (looked_up t)"
  by (erule lh_roomE, rule lh_roomI) (simp_all add: looked_up_def)

lemma looked_up_entries:
  assumes "lh_room n t"
  shows "lh_entries (looked_up t) = lh_entries t"
proof -
  obtain "is" where r: "lh_repr t is" using assms by (rule lh_roomE)
  then have "lh_repr (looked_up t) is" by (simp add: looked_up_def)
  from repr_foreach(2) [OF this] repr_foreach(2) [OF r] show ?thesis by (simp add: looked_up_def)
qed

lemma looked_up_free [simp]: "lh_free_fn (looked_up t) = lh_free_fn t"
  by (simp add: looked_up_def)

lemma set_value_ok:
  fixes v :: "'v option"
  assumes room: "lh_room n t" and m: "m < length (lh_tab t)" "ent_k (lh_tab t ! m) = Key key"
  defines "t' \<equiv> lh_upd m (\<lambda>e. e\<lparr>ent_v := v\<rparr>) t"
  shows "lh_room n t'" "lh_entries t' = field_put (lh_entries t) key v" "lh_free_fn t' = lh_free_fn t"
    "map_of (lh_entries t) key = Some (ent_v (lh_tab t ! m))"
proof -
  obtain "is" where r: "lh_repr t is" and E: "lh_entries t = lh_pairs (lh_tab t) is"
    and D: "distinct (map fst (lh_pairs (lh_tab t) is))"
    and sz: "lh_size t < 2 ^ 30" "int (length is) + int n < 2 ^ 28"
    using room by (rule lh_roomE)
  have m_is: "m \<in> set is" using reprD(5) [OF r] m by (simp add: slot_free_def)
  have r': "lh_repr t' is" unfolding t'_def by (rule repr_set_value [OF r])
  have pairs: "lh_pairs (lh_tab t') is = field_put (lh_pairs (lh_tab t) is) key v"
    using pairs_set_value [OF reprD(4) [OF r] D m_is m] by (simp add: t'_def lh_upd_def)
  show "lh_entries t' = field_put (lh_entries t) key v"
    using repr_foreach(2) [OF r'] pairs E by simp
  have "map fst (lh_pairs (lh_tab t') is) = map fst (lh_pairs (lh_tab t) is)"
    using m(1) by (auto simp: lh_pairs_def t'_def lh_upd_def nth_list_update)
  then show "lh_room n t'"
    using lh_roomI [OF r', of n] D sz by (simp add: t'_def lh_upd_def)
  show "lh_free_fn t' = lh_free_fn t" by (simp add: t'_def lh_upd_def)
  show "map_of (lh_entries t) key = Some (ent_v (lh_tab t ! m))"
    using pairs_map_of [OF D m_is m(2)] E by simp
qed

lemma lookup_entry_cases:
  assumes room: "lh_room n t"
  obtains (found) m where "lh_table_lookup_entry t key = Some (Some m, looked_up t)"
      "m < length (lh_tab (looked_up t))" "ent_k (lh_tab (looked_up t) ! m) = Key key"
  | (missing) "lh_table_lookup_entry t key = Some (None, looked_up t)"
      "key \<notin> fst ` set (lh_entries t)"
proof -
  obtain "is" where r: "lh_repr t is" and E: "lh_entries t = lh_pairs (lh_tab t) is"
    using room by (rule lh_roomE)
  show thesis
  proof (cases rule: lh_lookup_repr [OF r, of key])
    case (1 m)
    then show ?thesis using found [of m] reprD(5) [OF r] by (auto simp: looked_up_def)
  next
    case 2
    then show ?thesis using missing E by (simp add: looked_up_def)
  qed
qed

lemma lookup_ex_kept:
  fixes t :: "(string, 'v) lh_table"
  assumes "lh_room n t"
  shows "lh_table_lookup_ex t key =
    Some (case map_of (lh_entries t) key of None \<Rightarrow> (False, None, looked_up t) | Some v \<Rightarrow> (True, v, looked_up t))"
proof (cases rule: lookup_entry_cases [OF assms, of key])
  case (1 m)
  then show ?thesis
    using set_value_ok(4) [OF looked_up_room [OF assms] 1(2,3)] looked_up_entries [OF assms]
    by (simp add: lh_table_lookup_ex_def)
next
  case 2
  then have "map_of (lh_entries t) key = None" by (simp add: map_of_eq_None_iff)
  then show ?thesis using 2 by (simp add: lh_table_lookup_ex_def)
qed

lemma delete_pointers:
  "distinct (map fst kvs) \<Longrightarrow> mset (pointers (map snd (filter (\<lambda>p. fst p \<noteq> k) kvs)))
    + mset (pointers (case map_of kvs k of Some v \<Rightarrow> [v] | None \<Rightarrow> []))
   = mset (pointers (map snd kvs))"
proof (induction kvs)
  case (Cons p kvs)
  obtain k' v' where p: "p = (k', v')" by fastforce
  have rest: "pointers (map snd ((k', v') # kvs)) = pointers [v'] @ pointers (map snd kvs)"
    using pointers_Cons [of v' "map snd kvs"] by simp
  show ?case
  proof (cases "k' = k")
    case True
    then have "filter (\<lambda>p. fst p \<noteq> k) kvs = kvs" using Cons.prems p by (intro filter_True) auto
    then show ?thesis using True p rest by simp
  next
    case False
    then show ?thesis
      using Cons p rest pointers_Cons [of v' "map snd (filter (\<lambda>p. fst p \<noteq> k) kvs)"] by simp
  qed
qed simp

lemma delete_kept:
  assumes room: "lh_room n t" and free: "lh_free_fn t"
  obtains r freed t' where "lh_table_delete t key = Some (r, freed, t')" "lh_room n t'"
    "lh_entries t' = filter (\<lambda>p. fst p \<noteq> key) (lh_entries t)" "lh_free_fn t'"
    "map json_object_lh_entry_free freed = (case map_of (lh_entries t) key of Some v \<Rightarrow> [v] | None \<Rightarrow> [])"
proof -
  obtain r freed t' where t': "lh_table_delete t key = Some (r, freed, t')" "lh_room n t'"
    "lh_entries t' = filter (\<lambda>p. fst p \<noteq> key) (lh_entries t)"
    using lh_delete_ok [OF room] by metis
  let ?t = "looked_up t"
  have "lh_free_fn t' \<and> map json_object_lh_entry_free freed
      = (case map_of (lh_entries t) key of Some v \<Rightarrow> [v] | None \<Rightarrow> [])"
  proof (cases rule: lookup_entry_cases [OF room, of key])
    case (1 m)
    obtain "is" where r: "lh_repr ?t is" using looked_up_room [OF room] by (rule lh_roomE)
    have m: "m \<in> set is" using reprD(5) [OF r] 1(2,3) by (simp add: slot_free_def)
    have "lh_table_delete_entry ?t m = Some (r, freed, t')"
      using t'(1) 1(1) by (simp add: lh_table_delete_def)
    moreover obtain t2 where "lh_table_delete_entry ?t m = Some (0, if lh_free_fn ?t then [lh_tab ?t ! m] else [], t2)"
      "lh_free_fn t2 = lh_free_fn ?t"
      by (rule lh_delete_entry_repr [OF r m])
    ultimately have "freed = [lh_tab ?t ! m] \<and> lh_free_fn t'" using free by simp
    then show ?thesis
      using set_value_ok(4) [OF looked_up_room [OF room] 1(2,3)] looked_up_entries [OF room]
      by (simp add: json_object_lh_entry_free_def)
  next
    case 2
    then have "map_of (lh_entries t) key = None" by (simp add: map_of_eq_None_iff)
    then show ?thesis using t'(1) 2(1) free by (auto simp: lh_table_delete_def)
  qed
  then show thesis using that t' by blast
qed


section \<open>Each operation on a well-formed heap\<close>

definition fields :: "addr \<Rightarrow> heap \<Rightarrow> (string \<times> addr option) list" where
  "fields a h = (case c_object a h of Some t \<Rightarrow> lh_entries t | None \<Rightarrow> [])"

definition elems :: "addr \<Rightarrow> heap \<Rightarrow> addr option list" where
  "elems a h = (case c_array a h of Some l \<Rightarrow> arr_list l | None \<Rightarrow> [])"

lemma object_cell:
  assumes "heap_wf h E" "c_object jso h = Some t"
  obtains c where "cells h jso = Some c" "o_data c = O_object t" "o_type c = json_type_object"
    "lh_free_fn t" "lh_room 0 t" "\<forall>t'. cell_typed (c\<lparr>o_data := O_object t'\<rparr>) \<longleftrightarrow> lh_free_fn t' \<and> lh_room 0 t'"
proof -
  obtain c where c: "cells h jso = Some c" "o_data c = O_object t"
    using assms(2) by (auto simp: c_object_Some)
  moreover have "cell_typed c" using assms(1) c(1) heap_okD(4) by (auto simp: heap_wf_def)
  ultimately show thesis using that by (auto simp: cell_typed_def)
qed

lemma array_cell:
  assumes "heap_wf h E" "c_array jso h = Some l"
  obtains c where "cells h jso = Some c" "o_data c = O_array (Some l)" "o_type c = json_type_array" "arr_inv l"
    "\<forall>l'. cell_typed (c\<lparr>o_data := O_array (Some l')\<rparr>) \<longleftrightarrow> arr_inv l'"
proof -
  obtain c where c: "cells h jso = Some c" "o_data c = O_array (Some l)"
    using assms(2) by (auto simp: c_array_Some)
  moreover have "cell_typed c" using assms(1) c(1) heap_okD(4) by (auto simp: heap_wf_def)
  ultimately show thesis using that by (auto simp: cell_typed_def)
qed

lemma replaced_fields: "replaced a (O_object t) h h' \<Longrightarrow> fields a h' = lh_entries t \<and> c_object a h' = Some t"
  by (drule replaced_data(1)) (auto simp: fields_def c_object_def)

lemma replaced_elems: "replaced a (O_array (Some l)) h h' \<Longrightarrow> elems a h' = arr_list l \<and> c_array a h' = Some l"
  by (drule replaced_data(1)) (auto simp: elems_def c_array_def)

text \<open>The reference to \<open>val\<close> passes from the caller to the container.\<close>

abbreviation given :: "addr option \<Rightarrow> addr multiset" where
  "given val \<equiv> mset (pointers [val])"

lemma put_each_one: "put_each [p] h = Some h' \<longleftrightarrow> (\<exists>r. json_object_put p h = Some (r, h'))"
  by (auto simp: bind_eq_Some_iff)

lemma add_ok:
  assumes wf: "heap_wf h E" and t: "c_object jso h = Some t" "lh_room 1 t"
    and val: "given val \<subseteq># E" and keep: "held h (E - given val) jso"
  obtains h' t' where "json_object_object_add True jso key val h = Some h'" "heap_wf h' (E - given val)"
    "replaced jso (O_object t') h h'" "lh_entries t' = field_put (lh_entries t) key val"
proof -
  obtain c where c: "cells h jso = Some c" "o_data c = O_object t" "lh_free_fn t"
    "\<forall>t'. cell_typed (c\<lparr>o_data := O_object t'\<rparr>) \<longleftrightarrow> lh_free_fn t' \<and> lh_room 0 t'"
    using wf t(1) by (rule object_cell)
  have E: "E - given val + given val = E" using val by simp
  have room: "lh_room 1 (looked_up t)" "lh_entries (looked_up t) = lh_entries t"
    using looked_up_room looked_up_entries t(2) by blast+
  show thesis
  proof (cases rule: lookup_entry_cases [OF t(2), of key])
    case (1 m)
    let ?old = "ent_v (lh_tab (looked_up t) ! m)" and ?t = "lh_upd m (\<lambda>e. e\<lparr>ent_v := val\<rparr>) (looked_up t)"
    note set = set_value_ok(1-3) [OF room(1) 1(2,3), of val, unfolded room(2)]
      set_value_ok(4) [OF room(1) 1(2,3), unfolded room(2)]
    have typed: "cell_typed (c\<lparr>o_data := O_object ?t\<rparr>)"
      using c(3,4) set(1,3) room_mono by (auto simp del: One_nat_def)
    have cnt: "mset (kids (O_object ?t)) + (E - given val) + given ?old = mset (kids (o_data c)) + E"
      using field_put_pointers [OF set(4), of val] E set(2) c(2) by (simp add: ac_simps)
    obtain h1 h' where r: "put_each [?old] h = Some h1" "set_data jso (O_object ?t) h1 = Some h'"
        "heap_wf h' (E - given val)" "replaced jso (O_object ?t) h h'"
      by (rule replace_ok [OF wf c(1) typed cnt keep])
    obtain r where "json_object_put ?old h = Some (r, h1)" using r(1) put_each_one by blast
    then have "json_object_object_add True jso key val h = Some h'"
      using t(1) 1(1) r(2) by (simp add: json_object_object_add_def)
    then show thesis using that r(3,4) set(2) by blast
  next
    case 2
    obtain t' where t': "lh_table_insert (looked_up t) key val = Some t'"
      "lh_entries t' = field_put (lh_entries t) key val" "lh_room 0 t'" "lh_free_fn t'"
      using insert_kept [of 0 "looked_up t" key val] room 2(2) c(3) by auto
    have typed: "cell_typed (c\<lparr>o_data := O_object t'\<rparr>)" using c(4) t' by simp
    have cnt: "mset (kids (O_object t')) + (E - given val) + mset (pointers []) = mset (kids (o_data c)) + E"
      using E c(2) t'(2) field_put_new [OF 2(2), of val] by (simp add: ac_simps)
    obtain h1 h' where r: "put_each [] h = Some h1" "set_data jso (O_object t') h1 = Some h'"
        "heap_wf h' (E - given val)" "replaced jso (O_object t') h h'"
      by (rule replace_ok [OF wf c(1) typed cnt keep])
    then have "json_object_object_add True jso key val h = Some h'"
      using t(1) 2(1) t'(1) by (simp add: json_object_object_add_def)
    then show thesis using that r(3,4) t'(2) by blast
  qed
qed

lemma del_ok:
  assumes wf: "heap_wf h E" and t: "c_object jso h = Some t" and keep: "held h E jso"
  obtains h' t' where "json_object_object_del jso key h = Some h'" "heap_wf h' E"
    "replaced jso (O_object t') h h'" "lh_entries t' = filter (\<lambda>p. fst p \<noteq> key) (lh_entries t)"
proof -
  obtain c where c: "cells h jso = Some c" "o_data c = O_object t" "lh_free_fn t" "lh_room 0 t"
    "\<forall>t'. cell_typed (c\<lparr>o_data := O_object t'\<rparr>) \<longleftrightarrow> lh_free_fn t' \<and> lh_room 0 t'"
    using wf t(1) by (rule object_cell)
  obtain r freed t' where t': "lh_table_delete t key = Some (r, freed, t')" "lh_room 0 t'"
    "lh_entries t' = filter (\<lambda>p. fst p \<noteq> key) (lh_entries t)" "lh_free_fn t'"
    "map json_object_lh_entry_free freed = (case map_of (lh_entries t) key of Some v \<Rightarrow> [v] | None \<Rightarrow> [])"
    by (rule delete_kept [OF c(4,3)])
  have "distinct (map fst (lh_entries t))" using c(4) by (simp add: lh_room_def lh_inv_def)
  from delete_pointers [OF this, of key]
  have cnt: "mset (kids (O_object t')) + E + mset (pointers (map json_object_lh_entry_free freed))
      = mset (kids (o_data c)) + E"
    using t'(3,5) c(2) by (simp add: ac_simps)
  have typed: "cell_typed (c\<lparr>o_data := O_object t'\<rparr>)" using c(5) t' by simp
  obtain h1 h' where r: "put_each (map json_object_lh_entry_free freed) h = Some h1"
      "set_data jso (O_object t') h1 = Some h'" "heap_wf h' E" "replaced jso (O_object t') h h'"
    by (rule replace_ok [OF wf c(1) typed cnt keep])
  then have "json_object_object_del jso key h = Some h'"
    using t t'(1) by (simp add: json_object_object_del_def)
  then show thesis using that r(3,4) t'(3) by blast
qed

lemma get_ex_ok:
  assumes wf: "heap_wf h E" and t: "c_object jso h = Some t" and keep: "held h E jso"
  obtains h' t' where "json_object_object_get_ex (Some jso) key h =
      Some (case map_of (lh_entries t) key of None \<Rightarrow> (False, None, h') | Some v \<Rightarrow> (True, v, h'))"
    "heap_wf h' E" "replaced jso (O_object t') h h'" "lh_entries t' = lh_entries t"
proof -
  obtain c where c: "cells h jso = Some c" "o_data c = O_object t" "o_type c = json_type_object"
    "lh_free_fn t" "lh_room 0 t"
    "\<forall>t'. cell_typed (c\<lparr>o_data := O_object t'\<rparr>) \<longleftrightarrow> lh_free_fn t' \<and> lh_room 0 t'"
    using wf t(1) by (rule object_cell)
  let ?t = "looked_up t"
  have ok: "lh_room 0 ?t" "lh_entries ?t = lh_entries t"
    using looked_up_room looked_up_entries c(5) by blast+
  have typed: "cell_typed (c\<lparr>o_data := O_object ?t\<rparr>)" using c(4,6) ok by simp
  have cnt: "mset (kids (O_object ?t)) + E + mset (pointers []) = mset (kids (o_data c)) + E"
    using ok c(2) by simp
  obtain h1 h' where r: "put_each [] h = Some h1"
      "set_data jso (O_object ?t) h1 = Some h'" "heap_wf h' E" "replaced jso (O_object ?t) h h'"
    by (rule replace_ok [OF wf c(1) typed cnt keep])
  then have "json_object_object_get_ex (Some jso) key h =
      Some (case map_of (lh_entries t) key of None \<Rightarrow> (False, None, h') | Some v \<Rightarrow> (True, v, h'))"
    using t c(1,3) lookup_ex_kept [OF c(5), of key]
    by (simp add: json_object_object_get_ex_def split: option.split)
  then show thesis using that r(3,4) ok(2) by blast
qed


lemma pointers_update:
  "i < length xs \<Longrightarrow> mset (pointers (xs[i := x])) + mset (pointers [xs ! i]) = mset (pointers xs) + given x"
proof (induction xs arbitrary: i)
  case (Cons y xs)
  show ?case
  proof (cases i)
    case 0
    then show ?thesis
      using pointers_Cons [of y xs] pointers_Cons [of x xs] by (simp add: ac_simps)
  next
    case (Suc j)
    then show ?thesis
      using Cons.IH [of j] Cons.prems pointers_Cons [of y xs] pointers_Cons [of y "xs[j := x]"] by simp
  qed
qed simp

lemma list_put_pointers:
  "mset (pointers (list_put xs i x)) + mset (if i < length xs then pointers [xs ! i] else [])
   = mset (pointers xs) + given x"
proof (cases "i < length xs")
  case True
  then show ?thesis using pointers_update by (simp add: list_put_def)
next
  case False
  have "pointers (replicate n None) = ([] :: 'a list)" for n by (induction n) simp_all
  then show ?thesis using False by (simp add: list_put_def)
qed

lemma array_entries [simp]: "pointers (map json_object_array_entry_free ps) = ps"
  by (induction ps) (simp_all add: json_object_array_entry_free_def)

lemma put_idx_ok:
  assumes wf: "heap_wf h E" and l: "c_array jso h = Some l" "cap l < 2 ^ 30" "0 \<le> idx" "idx < INT32_MAX"
    and val: "given val \<subseteq># E" and keep: "held h (E - given val) jso"
  obtains (ok) h' l' where "json_object_array_put_idx al jso idx val h = Some (0, h')" "heap_wf h' (E - given val)"
      "replaced jso (O_array (Some l')) h h'" "arr_list l' = list_put (arr_list l) (nat idx) val"
  | (nomem) k where "\<not> al k" "json_object_array_put_idx al jso idx val h = Some (-1, h)"
proof -
  obtain c where c: "cells h jso = Some c" "o_data c = O_array (Some l)" "arr_inv l"
    "\<forall>l'. cell_typed (c\<lparr>o_data := O_array (Some l')\<rparr>) \<longleftrightarrow> arr_inv l'"
    using wf l(1) by (rule array_cell)
  show thesis
  proof (cases rule: array_list_put_idx_cases [OF c(3) l(2-4), of al val])
    case (1 l')
    let ?ps = "if nat idx < length (arr_list l) then pointers [arr_list l ! nat idx] else []"
    have typed: "cell_typed (c\<lparr>o_data := O_array (Some l')\<rparr>)" using c(4) 1(2) by simp
    have cnt: "mset (kids (O_array (Some l'))) + (E - given val) + mset (pointers (map json_object_array_entry_free ?ps))
        = mset (kids (o_data c)) + E"
      using list_put_pointers [of "arr_list l" "nat idx" val] val c(2) 1(3)
      by (simp only: kids.simps array_entries) (metis add.assoc add.commute subset_mset.diff_add)
    obtain h1 h' where r: "put_each (map json_object_array_entry_free ?ps) h = Some h1"
        "set_data jso (O_array (Some l')) h1 = Some h'" "heap_wf h' (E - given val)"
        "replaced jso (O_array (Some l')) h h'"
      by (rule replace_ok [OF wf c(1) typed cnt keep])
    have "json_object_array_put_idx al jso idx val h = Some (0, h')"
      using l(1) 1(1) r(1,2) by (simp only: json_object_array_put_idx_def) simp
    then show thesis using ok r(3,4) 1(3) by blast
  next
    case (2 k)
    have "set_data jso (O_array (Some l)) h = Some h"
      using c(1,2) by (cases c) (simp add: set_data_def store_cell_def fun_upd_idem)
    then show thesis using nomem 2 l(1) by (simp add: json_object_array_put_idx_def)
  qed
qed

lemma array_add_put: "c_array jso h = Some l \<Longrightarrow>
   json_object_array_add al jso val h = json_object_array_put_idx al jso (len l) val h"
  by (simp add: json_object_array_add_def json_object_array_put_idx_def array_list_add_def)

lemma sort_ok:
  assumes wf: "heap_wf h E" and l: "c_array jso h = Some l" and keep: "held h E jso"
    and perm: "mset (sort_fn (arr_list l)) = mset (arr_list l)"
  obtains h' l' where "json_object_array_sort sort_fn jso h = Some h'" "heap_wf h' E"
    "replaced jso (O_array (Some l')) h h'" "arr_list l' = sort_fn (arr_list l)"
proof -
  obtain c where c: "cells h jso = Some c" "o_data c = O_array (Some l)" "arr_inv l"
    "\<forall>l'. cell_typed (c\<lparr>o_data := O_array (Some l')\<rparr>) \<longleftrightarrow> arr_inv l'"
    using wf l(1) by (rule array_cell)
  let ?l = "array_list_sort sort_fn l"
  have n: "length (sort_fn (arr_list l)) = nat (len l)"
    using perm c(3) by (metis length_arr_list mset_eq_length)
  then have sorted: "arr_list ?l = sort_fn (arr_list l)"
    by (simp add: array_list_sort_def arr_list_def)
  have inv: "arr_inv ?l"
    using c(3) n by (auto simp: arr_inv_def array_list_sort_def arr_list_def)
  have typed: "cell_typed (c\<lparr>o_data := O_array (Some ?l)\<rparr>)" using c(4) inv by simp
  have "mset (pointers xs) = image_mset the (filter_mset (\<lambda>x. x \<noteq> None) (mset xs))" for xs :: "addr option list"
    by (simp add: pointers_def)
  then have cnt: "mset (kids (O_array (Some ?l))) + E + mset (pointers []) = mset (kids (o_data c)) + E"
    using sorted perm c(2) by simp
  obtain h1 h' where r: "put_each [] h = Some h1"
      "set_data jso (O_array (Some ?l)) h1 = Some h'" "heap_wf h' E" "replaced jso (O_array (Some ?l)) h h'"
    by (rule replace_ok [OF wf c(1) typed cnt keep])
  then show thesis using that l sorted by (simp add: json_object_array_sort_def)
qed

section \<open>New objects\<close>

text \<open>Every constructor gives a fresh well-typed cell with one reference, or changes no cell.\<close>

definition created :: "heap \<Rightarrow> addr multiset \<Rightarrow> (odata \<Rightarrow> bool) \<Rightarrow> (addr option \<times> heap) option \<Rightarrow> bool" where
  "created h E P res \<longleftrightarrow> (\<exists>jso h'. res = Some (jso, h')
     \<and> heap_wf h' (E + given jso) \<and> (\<forall>b. b \<in> dom (cells h) \<longrightarrow> cells h' b = cells h b)
     \<and> (case jso of None \<Rightarrow> dom (cells h') = dom (cells h)
        | Some a \<Rightarrow> a \<notin> dom (cells h) \<and> dom (cells h') = insert a (dom (cells h))
            \<and> (\<exists>c. cells h' a = Some c \<and> o_refs c = 1 \<and> P (o_data c))))"

definition with_new :: "heap \<Rightarrow> json_object \<Rightarrow> heap" where
  "with_new h c = (store_cell (next_addr h) c h)\<lparr>next_addr := Suc (next_addr h)\<rparr>"

definition blank :: "json_type \<Rightarrow> json_object" where
  "blank ty = \<lparr>o_type = ty, o_delete = generic_delete, o_to_json = None, o_refs = 1, o_data = O_zero,
     o_user_del = False, o_userdata = None\<rparr>"

lemma json_object_new_eq: "json_object_new mem ty h = (if mem then (Some (next_addr h), with_new h (blank ty)) else (None, h))"
  by (simp add: json_object_new_def with_new_def blank_def)

lemma upd_with_new: "upd_cell (next_addr h) f (with_new h c) = Some (with_new h (f c))"
  by (simp add: upd_cell_def with_new_def store_cell_def)

lemma created_cell:
  assumes "heap_wf h E" "cell_typed c" "o_refs c = 1" "kids (o_data c) = []" "P (o_data c)"
  shows "created h E P (Some (Some (next_addr h), with_new h c))"
proof -
  have "next_addr h \<notin> dom (cells h)"
    using assms(1) heap_okD(7) by (fastforce simp: heap_wf_def)
  then show ?thesis
    using new_cell_wf [OF assms(1-4)] assms(3,5) by (auto simp: created_def with_new_def)
qed

lemma created_none:
  assumes wf: "heap_wf h E" and h': "cells h' = cells h" "next_addr h \<le> next_addr h'"
  shows "created h E P (Some (None, h'))"
proof -
  have "heap_wf h' E"
    using wf h' by (auto simp: heap_wf_def heap_ok_def settled_def owed_def live_def ref_count_def kids_at_def
        intro: less_le_trans)
  then show ?thesis using h' by (simp add: created_def)
qed

lemma delete_with_new:
  assumes "heap_wf h E"
  shows "created h E P (Option.bind (json_object_generic_delete (next_addr h) (with_new h c)) (\<lambda>h. Some (None, h)))"
proof -
  let ?h = "h\<lparr>next_addr := Suc (next_addr h)\<rparr>"
  have "cells h (next_addr h) = None" using assms heap_okD(7) by (fastforce simp: heap_wf_def)
  then have "json_object_generic_delete (next_addr h) (with_new h c) = Some ?h"
    by (simp add: json_object_generic_delete_def free_cell_def with_new_def store_cell_def fun_upd_idem)
  moreover have "created h E P (Some (None, ?h))" by (rule created_none [OF assms]) simp_all
  ultimately show ?thesis by simp
qed

lemmas new_simps = json_object_new_eq upd_with_new cell_typed_def blank_def json_object_set_serializer_def Let_def

lemma created_boolean: "heap_wf h E \<Longrightarrow> created h E (\<lambda>d. d = O_boolean b) (heap_new_boolean mem b h)"
  by (auto simp: heap_new_boolean_def new_simps intro!: created_none created_cell)

lemma created_int64: "heap_wf h E \<Longrightarrow> created h E (\<lambda>d. d = O_int64 i) (heap_new_int64 mem i h)"
  by (auto simp: heap_new_int64_def new_simps intro!: created_none created_cell)

lemma created_double: "heap_wf h E \<Longrightarrow> created h E (\<lambda>d'. d' = O_double d) (heap_new_double mem d h)"
  by (auto simp: heap_new_double_def new_simps intro!: created_none created_cell)

lemma created_double_s:
  assumes "heap_wf h E"
  shows "created h E (\<lambda>d'. d' = O_double d) (heap_new_double_s mem dup d ds h)"
  using assms
  by (auto simp: heap_new_double_s_def heap_new_double_def new_simps intro!: created_none created_cell delete_with_new)

lemma created_string:
  assumes "heap_wf h E"
  shows "created h E (\<lambda>d. d = O_string (cstr s)) (heap_new_string mem dup s h)"
  using assms
  by (auto simp: heap_new_string_def new_simps intro!: created_none created_cell delete_with_new)

lemma created_string_len:
  assumes "heap_wf h E" "0 \<le> n" "n \<le> int (length s)"
  shows "created h E (\<lambda>d. d = O_string (take (nat n) s)) (heap_new_string_len mem dup s n h)"
  using assms
  by (auto simp: heap_new_string_len_def new_simps intro!: created_none created_cell delete_with_new)

lemma created_object:
  assumes "heap_wf h E"
  shows "created h E (\<lambda>d. \<exists>t. d = O_object t \<and> lh_entries t = [] \<and> lh_room (2 ^ 20) t)
     (json_object_new_object le seed mem h)"
proof -
  let ?t = "lh_kchar_table_new le seed JSON_OBJECT_DEF_HASH_ENTRIES None True :: (string, addr) lh_table"
  have "lh_room (2 ^ 20) ?t" "lh_room 0 ?t" "lh_entries ?t = []" "lh_free_fn ?t"
    by (simp_all add: lh_kchar_table_new_room(1) lh_kchar_table_new_room(2) [of _ 0] JSON_OBJECT_DEF_HASH_ENTRIES_def)
      (simp add: lh_kchar_table_new_def lh_table_new_def)
  then show ?thesis
    using assms by (auto simp: json_object_new_object_def new_simps intro!: created_none created_cell)
qed

lemma created_array:
  assumes "heap_wf h E" "al ARRAY_LIST_DEFAULT_SIZE"
  shows "created h E (\<lambda>d. \<exists>l. d = O_array (Some l) \<and> arr_list l = [] \<and> cap l = ARRAY_LIST_DEFAULT_SIZE)
     (json_object_new_array mem al h)"
proof -
  obtain l :: "addr array_list" where l: "array_list_new al = Some l" using assms(2) by (simp add: array_list_new_def)
  then have "arr_inv l" "arr_list l = []" "cap l = ARRAY_LIST_DEFAULT_SIZE"
    using arr_new_inv [OF l] assms(2) by (auto simp: array_list_new_def)
  then show ?thesis
    using assms(1) by (auto simp: l json_object_new_array_def new_simps intro!: created_none created_cell)
qed

end
