(* ===== verification/Json_Client.thy ===== *)
theory Json_Client
  imports Json_Object
begin

text \<open>
  Programs that use the objects of \<open>json_object.c\<close>, and the values the objects stand for. The
  library's rules for references (\<open>json_object.h\<close>): a new object and \<open>json_object_get\<close> give the
  caller a reference, \<open>json_object_put\<close> and adding to a container take one. A program that keeps
  them never runs into undefined behaviour, and every cell keeps its type.
\<close>

section \<open>Values in the heap\<close>

text \<open>
  \<open>reads h p v\<close>: pointer \<open>p\<close> stands for the value \<open>v\<close>. The text of a double is the user data when
  the serializer prints it.
\<close>

inductive reads :: "heap \<Rightarrow> addr option \<Rightarrow> jval \<Rightarrow> bool" for h where
  reads_null: "reads h None JNull"
| reads_boolean: "cells h a = Some c \<Longrightarrow> o_data c = O_boolean b \<Longrightarrow> reads h (Some a) (JBool b)"
| reads_int64: "cells h a = Some c \<Longrightarrow> o_data c = O_int64 i \<Longrightarrow> reads h (Some a) (JInt i)"
| reads_double: "cells h a = Some c \<Longrightarrow> o_data c = O_double d \<Longrightarrow>
    ds = (if o_to_json c = Some To_userdata then o_userdata c else None) \<Longrightarrow> reads h (Some a) (JDouble d ds)"
| reads_string: "cells h a = Some c \<Longrightarrow> o_data c = O_string s \<Longrightarrow> reads h (Some a) (JString s)"
| reads_array: "cells h a = Some c \<Longrightarrow> o_data c = O_array (Some l) \<Longrightarrow>
    list_all2 (reads h) (arr_list l) vs \<Longrightarrow> reads h (Some a) (JArray vs)"
| reads_object: "cells h a = Some c \<Longrightarrow> o_data c = O_object t \<Longrightarrow>
    map fst (lh_entries t) = map fst kvs \<Longrightarrow> list_all2 (reads h) (map snd (lh_entries t)) (map snd kvs) \<Longrightarrow> reads h (Some a) (JObject kvs)"

inductive_cases reads_NoneE [elim!]: "reads h None v"
inductive_cases reads_SomeE: "reads h (Some a) v"
inductive_cases reads_ArrayE: "reads h p (JArray vs)"
inductive_cases reads_ObjectE: "reads h p (JObject kvs)"

text \<open>Reachable from a pointer.\<close>

abbreviation reaches :: "heap \<Rightarrow> addr option \<Rightarrow> addr \<Rightarrow> bool" where
  "reaches h p a \<equiv> held h (given p) a"

lemma reaches_self: "reaches h (Some a) a"
  by (rule held.held_ref) simp

lemma reaches_kid:
  assumes "reaches h q a" "set (pointers [q]) \<subseteq> set (kids_at h b)"
  shows "reaches h (Some b) a"
  using assms(1)
proof induction
  case (held_ref a)
  then show ?case using assms(2) by (cases q) (auto intro: held.held_kid [OF held.held_ref, of b])
next
  case (held_kid c a)
  then show ?case by (blast intro: held.held_kid)
qed

lemma pointers_mem: "p \<in> set ps \<Longrightarrow> set (pointers [p]) \<subseteq> set (pointers ps)"
  by (induction ps) (auto simp: pointers_def)

lemma same_data_cell:
  assumes "same_data h h' a" "cells h a = Some c"
  obtains c' where "cells h' a = Some c'" "o_data c' = o_data c" "o_to_json c' = o_to_json c"
    "o_userdata c' = o_userdata c"
proof -
  obtain c' where c': "cells h' a = Some c'" "c' = c\<lparr>o_refs := o_refs c'\<rparr>"
    using assms by (auto simp: same_data_def)
  show thesis by (rule that [OF c'(1)]; subst c'(2); simp)
qed

text \<open>A value is read the same after a change elsewhere, as long as its cells are there.\<close>

definition kept_reads :: "heap \<Rightarrow> heap \<Rightarrow> addr \<Rightarrow> addr option \<Rightarrow> jval \<Rightarrow> bool" where
  "kept_reads h h' jso p v \<longleftrightarrow> (set (pointers [p]) \<subseteq> live h' \<longrightarrow> \<not> reaches h p jso \<longrightarrow> reads h' p v)"

lemma kept_kids:
  assumes ok: "heap_ok h' E'" and all: "list_all2 (\<lambda>p v. reads h p v \<and> kept_reads h h' jso p v) ps vs"
    and a: "a \<in> live h'" "same_data h h' a" "\<not> reaches h (Some a) jso"
    and kids: "kids_at h a = pointers ps"
  shows "list_all2 (reads h') ps vs"
  using all
proof (rule list.rel_mono_strong)
  fix p v
  assume p: "p \<in> set ps" and r: "reads h p v \<and> kept_reads h h' jso p v"
  have sub: "set (pointers [p]) \<subseteq> set (kids_at h a)" using pointers_mem [OF p] kids by simp
  then have "set (pointers [p]) \<subseteq> live h'"
    using kid_live [OF ok a(1)] same_data_kids [OF a(2)] by auto
  moreover have "\<not> reaches h p jso" using reaches_kid [OF _ sub] a(3) by blast
  ultimately show "reads h' p v" using r by (simp add: kept_reads_def)
qed

lemma leaf_kept:
  assumes "\<And>b. b \<in> live h' \<Longrightarrow> b \<noteq> jso \<Longrightarrow> same_data h h' b"
    and "a \<in> live h'" "\<not> reaches h (Some a) jso" "cells h a = Some c"
  shows "\<exists>c'. cells h' a = Some c' \<and> o_data c' = o_data c \<and> o_to_json c' = o_to_json c \<and> o_userdata c' = o_userdata c"
proof -
  have "a \<noteq> jso" using assms(3) reaches_self by blast
  with same_data_cell [OF assms(1) assms(4)] assms(2) show ?thesis by metis
qed

lemma reads_survives:
  assumes ok: "heap_ok h' E'" and same: "\<And>b. b \<in> live h' \<Longrightarrow> b \<noteq> jso \<Longrightarrow> same_data h h' b"
  shows "reads h p v \<Longrightarrow> kept_reads h h' jso p v"
proof (induction rule: reads.induct)
  case reads_null
  show ?case by (simp add: kept_reads_def reads.reads_null)
next
  case (reads_array a c l vs)
  show ?case unfolding kept_reads_def
  proof (intro impI)
    assume a: "set (pointers [Some a]) \<subseteq> live h'" "\<not> reaches h (Some a) jso"
    have s: "same_data h h' a" using a same reaches_self by auto
    obtain c' where c': "cells h' a = Some c'" "o_data c' = O_array (Some l)"
      using same_data_cell [OF s reads_array(1)] reads_array(2) by metis
    have "list_all2 (reads h') (arr_list l) vs"
      by (rule kept_kids [OF ok reads_array(3) _ s a(2)]) (use a reads_array(1,2) in \<open>auto simp: kids_at_def\<close>)
    then show "reads h' (Some a) (JArray vs)" by (rule reads.reads_array [OF c'])
  qed
next
  case (reads_object a c t kvs)
  show ?case unfolding kept_reads_def
  proof (intro impI)
    assume a: "set (pointers [Some a]) \<subseteq> live h'" "\<not> reaches h (Some a) jso"
    have s: "same_data h h' a" using a same reaches_self by auto
    obtain c' where c': "cells h' a = Some c'" "o_data c' = O_object t"
      using same_data_cell [OF s reads_object(1)] reads_object(2) by metis
    have "list_all2 (reads h') (map snd (lh_entries t)) (map snd kvs)"
      by (rule kept_kids [OF ok reads_object(4) _ s a(2)]) (use a reads_object(1,2) in \<open>auto simp: kids_at_def\<close>)
    then show "reads h' (Some a) (JObject kvs)" by (rule reads.reads_object [OF c' reads_object(3)])
  qed
next
  case (reads_boolean a c b)
  then show ?case using leaf_kept [OF same] by (fastforce simp: kept_reads_def intro: reads.reads_boolean)
next
  case (reads_int64 a c i)
  then show ?case using leaf_kept [OF same] by (fastforce simp: kept_reads_def intro: reads.reads_int64)
next
  case (reads_double a c d ds)
  then show ?case using leaf_kept [OF same] by (fastforce simp: kept_reads_def intro: reads.reads_double)
next
  case (reads_string a c s)
  then show ?case using leaf_kept [OF same] by (fastforce simp: kept_reads_def intro: reads.reads_string)
qed


text \<open>What stands for a value contains no cycle.\<close>

lemma held_empty: "\<not> held h {#} a"
proof
  assume "held h {#} a"
  then show False by induction auto
qed

lemma reaches_compose: "reaches h (Some b) a \<Longrightarrow> held h E b \<Longrightarrow> held h E a"
proof (induction rule: held.induct)
  case (held_ref a)
  then show ?case by simp
next
  case (held_kid c a)
  then show ?case by (blast intro: held.held_kid)
qed

lemma reaches_first: "reaches h (Some k) a \<Longrightarrow> a = k \<or> (\<exists>k'\<in>set (kids_at h k). reaches h (Some k') a)"
proof (induction rule: held.induct)
  case (held_ref a)
  then show ?case by simp
next
  case (held_kid c a)
  then show ?case using reaches_self by (blast intro: held.held_kid)
qed

lemma kid_cycle:
  assumes IH: "\<And>k'. k' \<in> set (kids_at h k) \<Longrightarrow> \<not> reaches h (Some k') k" and k: "k \<in> set (kids_at h a)"
  shows "\<not> reaches h (Some k) a"
proof
  assume r: "reaches h (Some k) a"
  have ak: "reaches h (Some a) k" by (rule held.held_kid [OF reaches_self k])
  from reaches_first [OF r] show False
  proof
    assume "a = k"
    then show False using IH k reaches_self by blast
  next
    assume "\<exists>k'\<in>set (kids_at h k). reaches h (Some k') a"
    then show False using IH reaches_compose [OF ak] by blast
  qed
qed

lemma pointers_kid: "k \<in> set (pointers ps) \<Longrightarrow> Some k \<in> set ps"
  by (auto simp: pointers_def)

lemma list_all2_left: "list_all2 (\<lambda>p v. P p \<and> Q p v) ps vs \<Longrightarrow> x \<in> set ps \<Longrightarrow> P x"
  by (auto simp: list_all2_conv_all_nth in_set_conv_nth)

definition no_cycle :: "heap \<Rightarrow> addr option \<Rightarrow> bool" where
  "no_cycle h p \<longleftrightarrow> (\<forall>a k. p = Some a \<longrightarrow> k \<in> set (kids_at h a) \<longrightarrow> \<not> reaches h (Some k) a)"

lemma no_cycle_kids:
  assumes "list_all2 (\<lambda>p v. reads h p v \<and> no_cycle h p) ps vs" "kids_at h a = pointers ps"
  shows "no_cycle h (Some a)"
  unfolding no_cycle_def
proof (intro allI impI)
  fix b k
  assume b: "Some a = Some b" "k \<in> set (kids_at h b)"
  then have "Some k \<in> set ps" using assms(2) by (auto dest: pointers_kid)
  then have "no_cycle h (Some k)"
    using list_all2_left [of "no_cycle h" "reads h" ps vs] assms(1) by (simp add: conj_commute)
  then show "\<not> reaches h (Some k) b" using kid_cycle [of h k b] b(2) by (simp add: no_cycle_def)
qed

lemma reads_no_cycle: "reads h p v \<Longrightarrow> no_cycle h p"
proof (induction rule: reads.induct)
  case (reads_array a c l vs)
  then show ?case by (intro no_cycle_kids [of h "arr_list l" vs a]) (simp_all add: kids_at_def)
next
  case (reads_object a c t kvs)
  then show ?case
    by (intro no_cycle_kids [of h "map snd (lh_entries t)" "map snd kvs" a]) (simp_all add: kids_at_def)
qed (auto simp: no_cycle_def kids_at_def)

section \<open>Containers and the values they stand for\<close>

lemma replaced_live:
  assumes "heap_wf h' E'" "replaced a d h h'"
  shows "a \<in> live h'" "\<And>b. b \<in> live h' \<Longrightarrow> b \<noteq> a \<Longrightarrow> same_data h h' b"
  using assms replaced_data(2) live_subset by (auto simp: heap_wf_def settled_def replaced_def)

lemma field_put_rel:
  "map fst ps = map fst kvs \<Longrightarrow> list_all2 R (map snd ps) (map snd kvs) \<Longrightarrow> R p v \<Longrightarrow>
   map fst (field_put ps k p) = map fst (field_put kvs k v)
     \<and> list_all2 R (map snd (field_put ps k p)) (map snd (field_put kvs k v))"
proof (induction ps arbitrary: kvs)
  case (Cons x ps)
  then obtain k' v' kvs' where "kvs = (k', v') # kvs'" by (cases kvs) auto
  with Cons show ?case by (cases x) auto
qed simp

lemma field_put_values: "p \<in> snd ` set (field_put kvs k v) \<Longrightarrow> p = v \<or> p \<in> snd ` set kvs"
  by (induction kvs k v rule: field_put.induct) (auto split: if_splits)

text \<open>New children of a cell, each read in the old heap and not reaching the cell.\<close>

lemma children_read:
  assumes wf: "heap_wf h' E'" and rep: "replaced a d h h'" and kids: "kids d = pointers ps"
    and ps: "list_all2 (reads h) ps vs" "\<And>p. p \<in> set ps \<Longrightarrow> \<not> reaches h p a"
  shows "list_all2 (reads h') ps vs"
  using ps(1)
proof (rule list.rel_mono_strong)
  fix p v
  assume p: "p \<in> set ps" and r: "reads h p v"
  have ok: "heap_ok h' E'" using wf by (simp add: heap_wf_def)
  have "kids_at h' a = pointers ps"
    using replaced_data(1) [OF rep] kids by (auto simp: kids_at_def split: option.splits)
  then have "set (pointers [p]) \<subseteq> live h'"
    using kid_live [OF ok replaced_live(1) [OF wf rep]] pointers_mem [OF p] by auto
  then show "reads h' p v"
    using reads_survives [OF ok replaced_live(2) [OF wf rep] r] ps(2) [OF p] by (simp add: kept_reads_def)
qed

lemma fields_no_cycle:
  assumes "reads h (Some a) v" "p \<in> set ps" "kids_at h a = pointers ps"
  shows "\<not> reaches h p a"
proof
  assume r: "reaches h p a"
  show False
  proof (cases p)
    case None
    then show False using r held_empty by simp
  next
    case (Some k)
    then show False
      using reads_no_cycle [OF assms(1)] pointers_mem [OF assms(2)] assms(3) r by (auto simp: no_cycle_def)
  qed
qed


lemma add_reads:
  assumes wf: "heap_wf h E" and jso: "reads h (Some jso) (JObject kvs)" "\<forall>t. c_object jso h = Some t \<longrightarrow> lh_room 1 t"
    and val: "given val \<subseteq># E" "reads h val v" "\<not> reaches h val jso" and keep: "held h (E - given val) jso"
  obtains h' where "json_object_object_add True jso key val h = Some h'" "heap_wf h' (E - given val)"
    "reads h' (Some jso) (JObject (field_put kvs key v))"
proof -
  obtain c t where c: "cells h jso = Some c" "o_data c = O_object t" "map fst (lh_entries t) = map fst kvs"
    "list_all2 (reads h) (map snd (lh_entries t)) (map snd kvs)"
    using jso(1) by (auto elim: reads_ObjectE)
  have t: "c_object jso h = Some t" using c by (simp add: c_object_Some)
  obtain h' t' where h': "json_object_object_add True jso key val h = Some h'" "heap_wf h' (E - given val)"
    "replaced jso (O_object t') h h'" "lh_entries t' = field_put (lh_entries t) key val"
    using jso(2) t by (blast intro: add_ok [OF wf t _ val(1) keep])
  note put = field_put_rel [OF c(3,4) val(2), of key, folded h'(4)]
  have kids: "\<not> reaches h p jso" if "p \<in> set (map snd (lh_entries t'))" for p
  proof (cases "p = val")
    case False
    then have "p \<in> set (map snd (lh_entries t))"
      using that field_put_values [of p "lh_entries t" key val] h'(4) by auto
    then show ?thesis by (rule fields_no_cycle [OF jso(1)]) (simp add: kids_at_def c)
  qed (use val(3) in simp)
  have "list_all2 (reads h') (map snd (lh_entries t')) (map snd (field_put kvs key v))"
    by (rule children_read [OF h'(2,3) _ _ kids]) (use put in simp_all)
  moreover obtain c' where "cells h' jso = Some c'" "o_data c' = O_object t'"
    using replaced_fields [OF h'(3)] by (auto simp: c_object_Some)
  ultimately have "reads h' (Some jso) (JObject (field_put kvs key v))"
    using put by (intro reads.reads_object) simp_all
  then show thesis using that h' by blast
qed


lemma del_reads:
  assumes wf: "heap_wf h E" and jso: "reads h (Some jso) (JObject kvs)" and keep: "held h E jso"
  obtains h' where "json_object_object_del jso key h = Some h'" "heap_wf h' E"
    "reads h' (Some jso) (JObject (filter (\<lambda>p. fst p \<noteq> key) kvs))"
proof -
  obtain c t where c: "cells h jso = Some c" "o_data c = O_object t" "map fst (lh_entries t) = map fst kvs"
    "list_all2 (reads h) (map snd (lh_entries t)) (map snd kvs)"
    using jso(1) by (auto elim: reads_ObjectE)
  have t: "c_object jso h = Some t" using c by (simp add: c_object_Some)
  obtain h' t' where h': "json_object_object_del jso key h = Some h'" "heap_wf h' E"
    "replaced jso (O_object t') h h'" "lh_entries t' = filter (\<lambda>p. fst p \<noteq> key) (lh_entries t)"
    by (rule del_ok [OF wf t keep])
  have kids: "\<not> reaches h p jso" if "p \<in> set (map snd (lh_entries t'))" for p
    by (rule fields_no_cycle [OF jso(1), of _ "map snd (lh_entries t)"]) (use that h'(4) c in \<open>auto simp: kids_at_def\<close>)
  have fil: "map fst (filter (\<lambda>p. fst p \<noteq> key) ps) = map fst (filter (\<lambda>p. fst p \<noteq> key) kvs)
      \<and> list_all2 R (map snd (filter (\<lambda>p. fst p \<noteq> key) ps)) (map snd (filter (\<lambda>p. fst p \<noteq> key) kvs))"
    if "map fst ps = map fst kvs" "list_all2 R (map snd ps) (map snd kvs)" for ps R
    using that
  proof (induction ps arbitrary: kvs)
    case (Cons x ps)
    then obtain k' v' kvs' where "kvs = (k', v') # kvs'" by (cases kvs) auto
    with Cons show ?case by (cases x) auto
  qed simp
  note del = fil [OF c(3,4), folded h'(4)]
  have "list_all2 (reads h') (map snd (lh_entries t')) (map snd (filter (\<lambda>p. fst p \<noteq> key) kvs))"
    by (rule children_read [OF h'(2,3) _ _ kids]) (use del in simp_all)
  moreover obtain c' where "cells h' jso = Some c'" "o_data c' = O_object t'"
    using replaced_fields [OF h'(3)] by (auto simp: c_object_Some)
  ultimately have "reads h' (Some jso) (JObject (filter (\<lambda>p. fst p \<noteq> key) kvs))"
    using del by (intro reads.reads_object) simp_all
  then show thesis using that h' by blast
qed

lemma map_of_rel:
  "map fst ps = map fst kvs \<Longrightarrow> list_all2 R (map snd ps) (map snd kvs) \<Longrightarrow>
   rel_option R (map_of ps k) (map_of kvs k)"
proof (induction ps arbitrary: kvs)
  case (Cons x ps)
  then obtain k' v' kvs' where "kvs = (k', v') # kvs'" by (cases kvs) auto
  with Cons show ?case by (cases x) auto
qed simp

text \<open>Looking a field up gives a pointer that stands for the field's value, and changes no value.\<close>

lemma get_reads:
  assumes wf: "heap_wf h E" and jso: "reads h (Some jso) (JObject kvs)" and keep: "held h E jso"
  obtains found p h' where "json_object_object_get_ex (Some jso) key h = Some (found, p, h')" "heap_wf h' E"
    "reads h' (Some jso) (JObject kvs)"
    "case map_of kvs key of None \<Rightarrow> \<not> found \<and> p = None | Some v \<Rightarrow> found \<and> reads h' p v"
proof -
  obtain c t where c: "cells h jso = Some c" "o_data c = O_object t" "map fst (lh_entries t) = map fst kvs"
    "list_all2 (reads h) (map snd (lh_entries t)) (map snd kvs)"
    using jso(1) by (auto elim: reads_ObjectE)
  have t: "c_object jso h = Some t" using c by (simp add: c_object_Some)
  obtain h' t' where h': "json_object_object_get_ex (Some jso) key h =
      Some (case map_of (lh_entries t) key of None \<Rightarrow> (False, None, h') | Some v \<Rightarrow> (True, v, h'))"
    "heap_wf h' E" "replaced jso (O_object t') h h'" "lh_entries t' = lh_entries t"
    by (rule get_ex_ok [OF wf t keep])
  have kids: "\<not> reaches h p jso" if "p \<in> set (map snd (lh_entries t))" for p
    by (rule fields_no_cycle [OF jso(1) that]) (simp add: kids_at_def c)
  have read: "list_all2 (reads h') (map snd (lh_entries t)) (map snd kvs)"
    by (rule children_read [OF h'(2,3) _ c(4) kids]) (simp_all add: h'(4))
  obtain c' where "cells h' jso = Some c'" "o_data c' = O_object t'"
    using replaced_fields [OF h'(3)] by (auto simp: c_object_Some)
  then have "reads h' (Some jso) (JObject kvs)"
    using read c(3) h'(4) by (intro reads.reads_object [where t = t']) simp_all
  moreover have "rel_option (reads h') (map_of (lh_entries t) key) (map_of kvs key)"
    by (rule map_of_rel [OF c(3) read])
  ultimately show thesis
    using that h'(1,2) by (cases "map_of (lh_entries t) key"; cases "map_of kvs key") auto
qed


definition jlist_put :: "jval list \<Rightarrow> nat \<Rightarrow> jval \<Rightarrow> jval list" where
  "jlist_put vs i v = (if i < length vs then vs[i := v] else vs @ replicate (i - length vs) JNull @ [v])"

lemma array_put_reads:
  assumes wf: "heap_wf h E" and jso: "reads h (Some jso) (JArray vs)"
    and l: "\<forall>l. c_array jso h = Some l \<longrightarrow> cap l < 2 ^ 30" "0 \<le> idx" "idx < INT32_MAX"
    and val: "given val \<subseteq># E" "reads h val v" "\<not> reaches h val jso" and keep: "held h (E - given val) jso"
  obtains (ok) h' where "json_object_array_put_idx al jso idx val h = Some (0, h')" "heap_wf h' (E - given val)"
      "reads h' (Some jso) (JArray (jlist_put vs (nat idx) v))"
  | (nomem) k where "\<not> al k" "json_object_array_put_idx al jso idx val h = Some (-1, h)"
proof -
  obtain c l where c: "cells h jso = Some c" "o_data c = O_array (Some l)" "list_all2 (reads h) (arr_list l) vs"
    using jso(1) by (auto elim: reads_ArrayE)
  have a: "c_array jso h = Some l" "cap l < 2 ^ 30" using c l(1) by (simp_all add: c_array_Some)
  show thesis
  proof (cases rule: put_idx_ok [OF wf a l(2,3) val(1) keep, of al])
    case (1 h' l')
    have read: "list_all2 (reads h) (arr_list l') (jlist_put vs (nat idx) v)"
      using c(3) val(2) list_all2_lengthD [OF c(3)] 1(4)
      by (auto simp: list_put_def jlist_put_def list_all2_append list_all2_update_cong
          list_all2_conv_all_nth [of _ "replicate _ _"] intro: reads.reads_null)
    have kids: "\<not> reaches h p jso" if "p \<in> set (arr_list l')" for p
    proof -
      have "p = val \<or> p = None \<or> p \<in> set (arr_list l)"
        using that 1(4) set_update_subset_insert [of "arr_list l" "nat idx" val]
        by (auto simp: list_put_def split: if_splits)
      then show ?thesis
        using val(3) held_empty fields_no_cycle [OF jso(1), of p "arr_list l"] c by (auto simp: kids_at_def)
    qed
    have read': "list_all2 (reads h') (arr_list l') (jlist_put vs (nat idx) v)"
      by (rule children_read [OF 1(2,3) _ read kids]) simp_all
    obtain c' where "cells h' jso = Some c'" "o_data c' = O_array (Some l')"
      using replaced_elems [OF 1(3)] by (auto simp: c_array_Some)
    then have "reads h' (Some jso) (JArray (jlist_put vs (nat idx) v))"
      using read' by (rule reads.reads_array)
    then show ?thesis using ok 1(1,2) by blast
  next
    case (2 k)
    then show ?thesis using nomem by blast
  qed
qed

section \<open>Client programs\<close>

text \<open>
  A call, with the outcomes of the allocations in it. The second component of the state is what
  the caller holds: it is not in memory, the documentation tells the caller to keep it.
\<close>

datatype call =
    Get addr
  | Put addr
  | New_boolean bool int
  | New_int64 bool int
  | New_double bool double
  | New_double_s bool bool double string
  | New_string bool bool string
  | New_string_len bool bool string int
  | New_object bool int bool
  | New_array bool "int \<Rightarrow> bool"
  | Object_add bool addr string "addr option"
  | Object_get addr string
  | Object_del addr string
  | Array_put_idx "int \<Rightarrow> bool" addr int "addr option"
  | Array_add "int \<Rightarrow> bool" addr "addr option"
  | Array_sort "addr option list \<Rightarrow> addr option list" addr

type_synonym client = "heap \<times> addr multiset"

abbreviation take_new :: "addr multiset \<Rightarrow> (addr option \<times> heap) option \<Rightarrow> client option" where
  "take_new E \<equiv> map_option (\<lambda>(jso, h). (h, E + given jso))"

fun exec :: "call \<Rightarrow> client \<Rightarrow> client option" where
  "exec (Get a) (h, E) = map_option (\<lambda>(p, h). (h, add_mset a E)) (json_object_get (Some a) h)"
| "exec (Put a) (h, E) = map_option (\<lambda>(r, h). (h, E - {#a#})) (json_object_put (Some a) h)"
| "exec (New_boolean mem b) (h, E) = take_new E (heap_new_boolean mem b h)"
| "exec (New_int64 mem i) (h, E) = take_new E (heap_new_int64 mem i h)"
| "exec (New_double mem d) (h, E) = take_new E (heap_new_double mem d h)"
| "exec (New_double_s mem dup d ds) (h, E) = take_new E (heap_new_double_s mem dup d ds h)"
| "exec (New_string mem dup s) (h, E) = take_new E (heap_new_string mem dup s h)"
| "exec (New_string_len mem dup s n) (h, E) = take_new E (heap_new_string_len mem dup s n h)"
| "exec (New_object le seed mem) (h, E) = take_new E (json_object_new_object le seed mem h)"
| "exec (New_array mem al) (h, E) = take_new E (json_object_new_array mem al h)"
| "exec (Object_add dup jso key val) (h, E) =
     map_option (\<lambda>h. (h, E - given val)) (json_object_object_add dup jso key val h)"
| "exec (Object_get jso key) (h, E) =
     map_option (\<lambda>(p, h). (h, E)) (json_object_object_get (Some jso) key h)"
| "exec (Object_del jso key) (h, E) = map_option (\<lambda>h. (h, E)) (json_object_object_del jso key h)"
| "exec (Array_put_idx al jso idx val) (h, E) =
     map_option (\<lambda>(r, h). (h, if r = 0 then E - given val else E)) (json_object_array_put_idx al jso idx val h)"
| "exec (Array_add al jso val) (h, E) =
     map_option (\<lambda>(r, h). (h, if r = 0 then E - given val else E)) (json_object_array_add al jso val h)"
| "exec (Array_sort sort_fn jso) (h, E) = map_option (\<lambda>h. (h, E)) (json_object_array_sort sort_fn jso h)"

text \<open>
  What the documentation asks of the caller: an object that is used is reachable from a reference
  the caller holds (not counting one the call takes), the reference that is taken is held, the
  type is right, and tables and arrays stay within the sizes their counters can hold.
\<close>

fun allowed :: "call \<Rightarrow> client \<Rightarrow> bool" where
  "allowed (Get a) (h, E) \<longleftrightarrow> held h E a \<and> int (ref_count h a) < INT32_MAX"
| "allowed (Put a) (h, E) \<longleftrightarrow> a \<in># E"
| "allowed (New_string_len mem dup s n) (h, E) \<longleftrightarrow> 0 \<le> n \<and> n \<le> int (length s)"
| "allowed (Object_add dup jso key val) (h, E) \<longleftrightarrow>
     given val \<subseteq># E \<and> held h (E - given val) jso \<and> (\<exists>t. c_object jso h = Some t \<and> lh_room 1 t)"
| "allowed (Object_get jso key) (h, E) \<longleftrightarrow> held h E jso"
| "allowed (Object_del jso key) (h, E) \<longleftrightarrow> held h E jso \<and> c_object jso h \<noteq> None"
| "allowed (Array_put_idx al jso idx val) (h, E) \<longleftrightarrow>
     given val \<subseteq># E \<and> held h (E - given val) jso \<and> 0 \<le> idx \<and> idx < INT32_MAX
     \<and> (\<exists>l. c_array jso h = Some l \<and> cap l < 2 ^ 30)"
| "allowed (Array_add al jso val) (h, E) \<longleftrightarrow>
     given val \<subseteq># E \<and> held h (E - given val) jso \<and> (\<exists>l. c_array jso h = Some l \<and> cap l < 2 ^ 30)"
| "allowed (Array_sort sort_fn jso) (h, E) \<longleftrightarrow>
     held h E jso \<and> (\<exists>l. c_array jso h = Some l \<and> mset (sort_fn (arr_list l)) = mset (arr_list l))"
| "allowed c s \<longleftrightarrow> True"

text \<open>
  Two allocations the library does not check: the array of a new array object, and the copy of a key
  that is new to an object. Every other allocation may fail.
\<close>

fun memory_ok :: "call \<Rightarrow> bool" where
  "memory_ok (New_array mem al) \<longleftrightarrow> al ARRAY_LIST_DEFAULT_SIZE"
| "memory_ok (Object_add dup jso key val) \<longleftrightarrow> dup"
| "memory_ok c \<longleftrightarrow> True"

fun obeys :: "call list \<Rightarrow> client \<Rightarrow> bool" where
  "obeys [] s \<longleftrightarrow> True"
| "obeys (c # cs) s \<longleftrightarrow> allowed c s \<and> (case exec c s of None \<Rightarrow> True | Some s \<Rightarrow> obeys cs s)"

definition client_ok :: "client \<Rightarrow> bool" where
  "client_ok s \<longleftrightarrow> heap_wf (fst s) (snd s)"

lemma held_cell: "heap_wf h E \<Longrightarrow> held h E a \<Longrightarrow> \<exists>c. cells h a = Some c \<and> cell_typed c"
  using held_survives [of h E h a] live_subset [of h] heap_okD(4)
  by (fastforce simp: heap_wf_def)

lemma take_new_ok: "created h E P res \<Longrightarrow> \<exists>s'. take_new E res = Some s' \<and> client_ok s'"
  by (auto simp: created_def client_ok_def)

lemmas created_each = created_boolean created_int64 created_double created_double_s
  created_string created_string_len created_object created_array

lemma object_type: "cell_typed c \<Longrightarrow> o_type c = json_type_object \<Longrightarrow> \<exists>t. o_data c = O_object t"
  by (cases "(o_type c, o_delete c, o_data c)" rule: data_typed.cases) (auto simp: cell_typed_def)

lemma exec_ok: "client_ok s \<Longrightarrow> allowed c s \<Longrightarrow> memory_ok c \<Longrightarrow> \<exists>s'. exec c s = Some s' \<and> client_ok s'"
proof (induction c s rule: exec.induct)
  case (1 a h E)
  then obtain c where c: "cells h a = Some c" "cell_typed c"
    using held_cell [of h E a] by (auto simp: client_ok_def)
  then have lt: "o_refs c < INT32_MAX" using 1(2) by (auto simp: ref_count_def split: if_splits)
  have "heap_wf h E" using 1(1) by (simp add: client_ok_def)
  then obtain h' where "json_object_get (Some a) h = Some (Some a, h')" "heap_wf h' (add_mset a E)"
    using c(1) lt by (rule get_wf)
  then show ?case by (simp add: client_ok_def)
next
  case (2 a h E)
  then have "heap_wf h E" "a \<in># E" by (simp_all add: client_ok_def)
  then obtain r h' where "json_object_put (Some a) h = Some (r, h')" "heap_wf h' (E - {#a#})"
    by (rule put_wf)
  then show ?case by (simp add: client_ok_def)
next
  case (10 mem al h E)
  then have "heap_wf h E" "al ARRAY_LIST_DEFAULT_SIZE" by (simp_all add: client_ok_def)
  then show ?case unfolding exec.simps by (rule take_new_ok [OF created_array])
next
  case (11 dup jso key val h E)
  then obtain t where t: "c_object jso h = Some t" "lh_room 1 t" "given val \<subseteq># E" "held h (E - given val) jso"
    and dup: "dup" "heap_wf h E" by (auto simp: client_ok_def)
  obtain h' where "json_object_object_add dup jso key val h = Some h'" "heap_wf h' (E - given val)"
    by (rule add_ok [OF dup(2) t]) (simp add: dup(1))
  then show ?case by (simp add: client_ok_def)
next
  case (12 jso key h E)
  then obtain c where c: "cells h jso = Some c" "cell_typed c"
    using held_cell [of h E jso] by (auto simp: client_ok_def)
  show ?case
  proof (cases "o_type c = json_type_object")
    case True
    then obtain t where t: "c_object jso h = Some t" using object_type c by (auto simp: c_object_Some)
    have wf: "heap_wf h E" "held h E jso" using 12 by (simp_all add: client_ok_def)
    obtain h' where "json_object_object_get_ex (Some jso) key h =
        Some (case map_of (lh_entries t) key of None \<Rightarrow> (False, None, h') | Some v \<Rightarrow> (True, v, h'))"
      "heap_wf h' E"
      by (rule get_ex_ok [OF wf(1) t wf(2)])
    then show ?thesis by (auto simp: json_object_object_get_def client_ok_def split: option.split)
  next
    case False
    then show ?thesis
      using c 12(1) by (simp add: json_object_object_get_def json_object_object_get_ex_def client_ok_def)
  qed
next
  case (13 jso key h E)
  then show ?case using del_ok [of h E jso _ key] by (auto simp: client_ok_def)
next
  case (14 al jso idx val h E)
  then obtain l where l: "c_array jso h = Some l" "cap l < 2 ^ 30" "0 \<le> idx" "idx < INT32_MAX" "given val \<subseteq># E"
    "held h (E - given val) jso" "heap_wf h E" by (auto simp: client_ok_def)
  show ?case
    by (cases rule: put_idx_ok [OF l(7,1-6), of al]) (use l(7) in \<open>auto simp: client_ok_def\<close>)
next
  case (15 al jso val h E)
  then obtain l where l: "c_array jso h = Some l" "cap l < 2 ^ 30" "given val \<subseteq># E"
    "held h (E - given val) jso" "heap_wf h E" by (auto simp: client_ok_def)
  have "arr_inv l" using array_cell [OF l(5,1)] by blast
  then have n: "0 \<le> len l" "len l < INT32_MAX" using l(2) by (auto simp: arr_inv_def)
  show ?case
    by (cases rule: put_idx_ok [OF l(5,1,2) n l(3,4), of al])
      (use l(1,5) array_add_put in \<open>auto simp: client_ok_def\<close>)
next
  case (16 sort_fn jso h E)
  then obtain l where l: "c_array jso h = Some l" "mset (sort_fn (arr_list l)) = mset (arr_list l)"
    "held h E jso" "heap_wf h E" by (auto simp: client_ok_def)
  show ?case by (rule sort_ok [of h E jso l sort_fn]) (use l in \<open>auto simp: client_ok_def\<close>)
qed ((simp only: exec.simps, rule take_new_ok, rule created_each, (force simp: client_ok_def)+)+)


text \<open>The tag of the member that was written.\<close>

fun tag_of :: "odata \<Rightarrow> json_type option" where
  "tag_of (O_boolean b) = Some json_type_boolean"
| "tag_of (O_double d) = Some json_type_double"
| "tag_of (O_int64 i) = Some json_type_int"
| "tag_of (O_string s) = Some json_type_string"
| "tag_of (O_object t) = Some json_type_object"
| "tag_of (O_array (Some l)) = Some json_type_array"
| "tag_of d = None"

lemma typed_tag: "cell_typed c \<Longrightarrow> tag_of (o_data c) = Some (o_type c)"
  by (cases "(o_type c, o_delete c, o_data c)" rule: data_typed.cases) (auto simp: cell_typed_def)

lemma client_runs:
  "client_ok s \<Longrightarrow> obeys cs s \<Longrightarrow> list_all memory_ok cs \<Longrightarrow> \<exists>s'. each exec cs s = Some s' \<and> client_ok s'"
proof (induction cs arbitrary: s)
  case (Cons c cs)
  then obtain s1 where s1: "exec c s = Some s1" "client_ok s1" using exec_ok by fastforce
  then show ?case using Cons by simp
qed simp

text \<open>Where no object contains itself, every object is reachable from a held reference.\<close>

lemma finite_kids: "heap_ok h E \<Longrightarrow> finite {(a, b). a \<in> live h \<and> b \<in> set (kids_at h a)}"
proof -
  assume "heap_ok h E"
  then have "finite (SIGMA a:live h. set (kids_at h a))" using heap_okD(2) by auto
  then show ?thesis by (rule finite_subset [rotated]) auto
qed

lemma all_held:
  assumes wf: "heap_wf h E" and acyclic: "acyclic {(a, b). b \<in> set (kids_at h a)}" and a: "a \<in> dom (cells h)"
  shows "held h E a"
proof (rule ccontr)
  let ?r = "{(a, b). a \<in> live h \<and> b \<in> set (kids_at h a)}"
  have ok: "heap_ok h E" "live h = dom (cells h)" using wf by (auto simp: heap_wf_def settled_def)
  have "acyclic ?r" by (rule acyclic_subset [OF acyclic]) auto
  with finite_kids [OF ok(1)] have wfr: "wf ?r" by (rule finite_acyclic_wf)
  let ?Q = "{b \<in> live h. \<not> held h E b}"
  assume "\<not> held h E a"
  then have "a \<in> ?Q" using a ok(2) by simp
  then obtain b where "b \<in> ?Q" and min: "\<And>c. (c, b) \<in> ?r \<Longrightarrow> c \<notin> ?Q"
    by (rule wfE_min [OF wfr]) blast
  then have b: "b \<in> live h" "\<not> held h E b" by simp_all
  have "b \<in># owed h E"
    using b(1) heap_okD(3) [OF ok(1), of b] heap_okD(5) [OF ok(1)]
    by (auto simp: live_def ref_count_def) (metis count_greater_zero_iff nat_0_iff not_le le_zero_eq order_antisym zero_less_nat_eq)
  then have "b \<in># (\<Sum>c\<in>live h. mset (kids_at h c)) \<or> b \<in># E" by (simp add: owed_def)
  then show False
  proof
    assume "b \<in># E"
    then show False using b(2) held.held_ref by blast
  next
    assume "b \<in># (\<Sum>c\<in>live h. mset (kids_at h c))"
    then obtain c where "c \<in> live h" "b \<in> set (kids_at h c)"
      using heap_okD(2) [OF ok(1)] by (auto simp: set_mset_sum)
    then show False using b min [of c] held.held_kid by blast
  qed
qed

lemma same_reads:
  assumes "heap_wf h E" "heap_ok h' E'" "shrunk h h'" "given p \<subseteq># E'" "E' \<subseteq># E" "reads h p v"
  shows "reads h' p v"
proof -
  have "next_addr h \<notin> live h"
    using heap_okD(7) assms(1) live_subset by (fastforce simp: heap_wf_def)
  moreover have "held h E b" if "reaches h p b" for b
    using that
  proof induction
    case (held_ref a)
    then show ?case using assms(4,5) by (meson held.held_ref mset_subset_eqD)
  qed (blast intro: held.held_kid)
  ultimately have "\<not> reaches h p (next_addr h)"
    using held_survives [of h E h] assms(1) by (auto simp: heap_wf_def)
  moreover have "set (pointers [p]) \<subseteq> live h'"
    using held_live [OF assms(2)] assms(4) by (metis mset_subset_eqD set_mset_mset subsetI)
  ultimately show ?thesis
    using reads_survives [OF assms(2) _ assms(6)] shrunk_same [OF assms(3)] live_subset
    by (metis kept_reads_def subsetD)
qed

section \<open>Two small programs\<close>

definition heap_empty :: heap where
  "heap_empty = \<lparr>cells = Map.empty, next_addr = 0\<rparr>"

lemma heap_empty_ok: "client_ok (heap_empty, {#})"
  by (simp add: client_ok_def heap_wf_def heap_ok_def settled_def heap_empty_def live_def owed_def ref_count_def)

definition list_calls :: "call list" where
  "list_calls = [New_array True (\<lambda>_. True), New_int64 True 7, Array_add (\<lambda>_. True) 0 (Some 1)]"

definition list_heap :: heap where
  "list_heap = fst (the (each exec list_calls (heap_empty, {#})))"

definition field_calls :: "call list" where
  "field_calls = [New_object True 7 True, New_int64 True 5]"

definition field_heap :: heap where
  "field_heap = fst (the (each exec field_calls (heap_empty, {#})))"

lemma calls_memory: "list_all memory_ok list_calls" "list_all memory_ok field_calls"
  by (simp_all add: list_calls_def field_calls_def)

text \<open>Without these allocations the calls are undefined: the next use of the array, and adding the field.\<close>

lemma array_no_memory: "each exec [New_array True (\<lambda>_. False), Array_add al 0 val] (heap_empty, {#}) = None"
  by (simp add: heap_empty_def json_object_new_array_def json_object_new_def upd_cell_def store_cell_def
      array_list_new_def json_object_array_add_def c_array_def)

lemma add_no_memory:
  "c_object jso h = Some t \<Longrightarrow> lh_table_lookup_entry t key = Some (None, t') \<Longrightarrow>
    exec (Object_add False jso key val) (h, E) = None"
  by (simp add: json_object_object_add_def)

lemmas program_simps = list_calls_def field_calls_def heap_empty_def json_object_new_array_def
  json_object_new_object_def heap_new_int64_def json_object_new_def upd_cell_def store_cell_def
  json_object_array_add_def array_list_add_def array_list_put_idx_def array_list_expand_internal_def
  array_list_new_def ARRAY_LIST_DEFAULT_SIZE_def c_array_def set_data_def

lemma array_of_none: "replicate 32 None = None # replicate 31 None"
  by (simp add: numeral_eq_Suc)

lemma list_run:
  "\<exists>h. each exec list_calls (heap_empty, {#}) = Some (h, {#0#}) \<and> obeys list_calls (heap_empty, {#})
    \<and> cells h 0 = Some \<lparr>o_type = json_type_array, o_delete = array_delete, o_to_json = Some (To_json json_type_array),
        o_refs = 1, o_data = O_array (Some \<lparr>arr = Some 1 # replicate 31 None, len = 1, cap = 32\<rparr>),
        o_user_del = False, o_userdata = None\<rparr>
    \<and> (\<exists>c. cells h 1 = Some c \<and> o_data c = O_int64 7) \<and> dom (cells h) = {0, 1}"
  by (auto simp: program_simps array_of_none intro: held_ref)

lemma list_heap:
  "each exec list_calls (heap_empty, {#}) = Some (list_heap, {#0#})" "obeys list_calls (heap_empty, {#})"
  "heap_wf list_heap {#0#}" "kids_at list_heap = (\<lambda>a. if a = 0 then [1] else [])"
proof -
  obtain h where h: "each exec list_calls (heap_empty, {#}) = Some (h, {#0#})" "obeys list_calls (heap_empty, {#})"
    "\<exists>c. cells h 0 = Some c \<and> o_data c = O_array (Some \<lparr>arr = Some 1 # replicate 31 None, len = 1, cap = 32\<rparr>)"
    "\<exists>c. cells h 1 = Some c \<and> o_data c = O_int64 7" "dom (cells h) = {0, 1}"
    using list_run by auto
  have eq: "list_heap = h" using h(1) by (simp add: list_heap_def)
  show "each exec list_calls (heap_empty, {#}) = Some (list_heap, {#0#})" "obeys list_calls (heap_empty, {#})"
    using h eq by simp_all
  show "heap_wf list_heap {#0#}"
    using client_runs [OF heap_empty_ok h(2)] calls_memory h(1) eq by (simp add: client_ok_def)
  have "kids_at list_heap a = (if a = 0 then [1] else [])" for a
  proof (cases "a = 0 \<or> a = 1")
    case True
    then show ?thesis using h(3,4) eq by (auto simp: kids_at_def arr_list_def)
  next
    case False
    then have "a \<notin> dom (cells h)" using h(5) by simp
    then have "cells h a = None" by (simp add: domIff)
    then show ?thesis using False eq by (simp add: kids_at_def)
  qed
  then show "kids_at list_heap = (\<lambda>a. if a = 0 then [1] else [])" by blast
qed

lemma field_run:
  "\<exists>h. each exec field_calls (heap_empty, {#}) = Some (h, {#0, 1#}) \<and> obeys field_calls (heap_empty, {#})
    \<and> (\<exists>c. cells h 0 = Some c \<and> o_data c = O_object (lh_kchar_table_new True 7 16 None True))
    \<and> (\<exists>c. cells h 1 = Some c \<and> o_data c = O_int64 5)"
  by (auto simp: program_simps JSON_OBJECT_DEF_HASH_ENTRIES_def)

lemma field_heap:
  "heap_wf field_heap {#0, 1#}" "reads field_heap (Some 0) (JObject [])" "reads field_heap (Some 1) (JInt 5)"
  "\<forall>t. c_object 0 field_heap = Some t \<longrightarrow> lh_room 1 t" "\<not> reaches field_heap (Some 1) 0"
proof -
  obtain h where h: "each exec field_calls (heap_empty, {#}) = Some (h, {#0, 1#})" "obeys field_calls (heap_empty, {#})"
    "\<exists>c. cells h 0 = Some c \<and> o_data c = O_object (lh_kchar_table_new True 7 16 None True)"
    "\<exists>c. cells h 1 = Some c \<and> o_data c = O_int64 5"
    using field_run by auto
  have eq: "field_heap = h" using h(1) by (simp add: field_heap_def)
  show "heap_wf field_heap {#0, 1#}"
    using client_runs [OF heap_empty_ok h(2)] calls_memory h(1) eq by (simp add: client_ok_def)
  show "reads field_heap (Some 0) (JObject [])"
    using h(3) eq by (auto intro: reads_object simp: lh_kchar_table_new_room(2) [of _ 0])
  show "reads field_heap (Some 1) (JInt 5)" using h(4) eq by (auto intro: reads_int64)
  show "\<forall>t. c_object 0 field_heap = Some t \<longrightarrow> lh_room 1 t"
    using h(3) eq lh_kchar_table_new_room(1) [of 16 1] by (auto simp: c_object_Some)
  have "kids_at h 1 = []" using h(4) by (auto simp: kids_at_def)
  then show "\<not> reaches field_heap (Some 1) 0" using reaches_first eq by fastforce
qed

section \<open>Properties\<close>

text \<open>
  C5. \<open>json_object_put\<close> returns on every well-formed heap, whatever the object contains, cycles
  included, for a reference the caller holds: it never touches freed memory, gives back exactly
  that reference, reports \<open>1\<close> exactly when the object is gone, keeps all counts right, and every
  value the caller still holds reads as before.
\<close>

theorem json_object_put_spec:
  assumes "heap_wf h E" "a \<in># E"
  shows "\<exists>r h'. json_object_put (Some a) h = Some (r, h') \<and> heap_wf h' (E - {#a#})
    \<and> r = (if a \<in> dom (cells h') then 0 else 1)
    \<and> (\<forall>p v. given p \<subseteq># E - {#a#} \<longrightarrow> reads h p v \<longrightarrow> reads h' p v)"
proof -
  obtain r h' where h': "json_object_put (Some a) h = Some (r, h')" "heap_wf h' (E - {#a#})" "shrunk h h'"
    "r = (if a \<in> dom (cells h') then 0 else 1)"
    by (rule put_wf [OF assms])
  then show ?thesis
    using same_reads [OF assms(1) _ h'(3)] by (auto simp: heap_wf_def)
qed

theorem json_object_put_spec_witness:
  "\<exists>r h'. json_object_put (Some 0) list_heap = Some (r, h') \<and> heap_wf h' {#}"
  using json_object_put_spec [OF list_heap(3), of 0] by auto

text \<open>
  C21. Nothing leaks: when the caller gives back every reference it holds, in any order, and no
  object contains itself, no object is left in memory.
\<close>

theorem json_heap_no_leak:
  assumes "heap_wf h (mset ps)" "acyclic {(a, b). b \<in> set (kids_at h a)}"
  shows "\<exists>h'. put_each (map Some ps) h = Some h' \<and> cells h' = Map.empty"
proof -
  have ok: "heap_ok h (mset ps)" "settled h" using assms(1) by (auto simp: heap_wf_def)
  have "pointers (map Some ps) = ps" by (induction ps) simp_all
  then obtain h' where h': "put_each (map Some ps) h = Some h'" "heap_ok h' {#}" "shrunk h h'"
    using put_each_ok [OF ok(1), of "map Some ps"] by auto
  have wf: "heap_wf h' {#}" using h' shrunk_settled [OF h'(3) ok(2)] by (simp add: heap_wf_def)
  have "set (kids_at h' b) \<subseteq> set (kids_at h b)" for b
  proof (cases "b \<in> dom (cells h')")
    case True
    then show ?thesis using same_data_kids [OF shrunk_same [OF h'(3)]] by simp
  next
    case False
    then have "cells h' b = None" by auto
    then show ?thesis by (simp add: kids_at_def)
  qed
  then have "acyclic {(a, b). b \<in> set (kids_at h' a)}"
    by (intro acyclic_subset [OF assms(2)]) blast
  then have "dom (cells h') = {}" using all_held [OF wf] held_empty by blast
  then show ?thesis using h'(1) by auto
qed

theorem json_heap_no_leak_witness:
  "\<exists>h'. put_each [Some 0] list_heap = Some h' \<and> cells h' = Map.empty"
proof -
  have "{(a, b). b \<in> set (kids_at list_heap a)} = {(0, 1)}"
    by (auto simp: list_heap(4) split: if_splits)
  then have "acyclic {(a, b). b \<in> set (kids_at list_heap a)}" using wf_acyclic [of "{}"] by (simp add: acyclic_insert)
  then show ?thesis using json_heap_no_leak [of list_heap "[0]"] list_heap(3) by simp
qed

text \<open>
  C3. A program that keeps the library's rules for references and sizes, using any of the calls in
  any order, never runs into undefined behaviour, and at its end every cell in memory still has the
  type its tag says: the union is never read through the wrong member. Two allocations have to
  succeed, which the library does not check: the array of a new array object and the copy of a
  key that is new to an object. All others may fail.
\<close>

theorem json_client_safe:
  assumes "client_ok s" "obeys cs s" "list_all memory_ok cs"
  shows "\<exists>h E. each exec cs s = Some (h, E) \<and> heap_wf h E
    \<and> (\<forall>a c. cells h a = Some c \<longrightarrow> tag_of (o_data c) = Some (o_type c) \<and> 0 < o_refs c)"
proof -
  obtain h E where s: "each exec cs s = Some (h, E)" "heap_wf h E"
    using client_runs [OF assms] by (auto simp: client_ok_def)
  then have "cell_typed c \<and> 0 < o_refs c" if "cells h a = Some c" for a c
    using that heap_okD(4,5) [of h E a c] settled_refs [of h a c] by (fastforce simp: heap_wf_def)
  then show ?thesis using s typed_tag by blast
qed

theorem json_client_safe_witness:
  "\<exists>h E. each exec list_calls (heap_empty, {#}) = Some (h, E) \<and> heap_wf h E"
  using json_client_safe [OF heap_empty_ok list_heap(2) calls_memory(1)] by blast

text \<open>
  C4. Adding a field in memory is \<open>field_put\<close> on the values: when \<open>jso\<close> stands for an object and
  \<open>val\<close> for a value that does not contain \<open>jso\<close>, afterwards \<open>jso\<close> stands for the object with the
  field set, the reference to \<open>val\<close> has passed to it, and a value the key had before is put. The
  copy of the key has to succeed, and the table of the object to have room for one more field.
\<close>

theorem json_object_add_refines:
  assumes "heap_wf h E" "reads h (Some jso) (JObject kvs)" "\<forall>t. c_object jso h = Some t \<longrightarrow> lh_room 1 t"
    and "given val \<subseteq># E" "reads h val v" "\<not> reaches h val jso" "held h (E - given val) jso"
  shows "\<exists>h'. json_object_object_add True jso key val h = Some h' \<and> heap_wf h' (E - given val)
    \<and> reads h' (Some jso) (JObject (field_put kvs key v))"
  by (rule add_reads [OF assms]) blast

theorem json_object_add_refines_witness:
  "\<exists>h'. json_object_object_add True 0 ''a'' (Some 1) field_heap = Some h'
    \<and> reads h' (Some 0) (JObject [(''a'', JInt 5)])"
  using json_object_add_refines [OF field_heap(1,2,4), of "Some 1" "JInt 5" "''a''"] field_heap(3,5)
    held_ref [of 0 "{#0#}"] by auto

end
