(* ===== verification/Json_Iterator.thy ===== *)
theory Json_Iterator
  imports Json_Client
begin

text \<open>
  Iterating over the fields of an object (\<open>json-c/json_object_iterator.c\<close>). An iterator is a
  pointer to an entry of the object's table, written as the object and the index of the entry;
  \<open>None\<close> is the \<open>NULL\<close> of the end. The assertions of the code are compiled out, so going on from
  the end dereferences \<open>NULL\<close>.
\<close>

section \<open>Iterators\<close>

type_synonym json_object_iterator = "(addr \<times> nat) option"

definition kObjectEndIterValue :: json_object_iterator where
  "kObjectEndIterValue = None"

definition iter_entry :: "json_object_iterator \<Rightarrow> heap \<Rightarrow> (string, addr) lh_entry option" where
  "iter_entry iter h =
     (case iter of
        None \<Rightarrow> None
      | Some (a, n) \<Rightarrow> do {
          t \<leftarrow> c_object a h;
          if n < length (lh_tab t) then Some (lh_tab t ! n) else None })"

definition json_object_iter_begin :: "addr option \<Rightarrow> heap \<Rightarrow> json_object_iterator option" where
  "json_object_iter_begin obj h = do {
     pTable \<leftarrow> json_object_get_object obj h;
     a \<leftarrow> obj;
     t \<leftarrow> pTable;
     Some (map_option (Pair a) (lh_head t)) }"

definition json_object_iter_end :: "addr option \<Rightarrow> json_object_iterator" where
  "json_object_iter_end obj = kObjectEndIterValue"

definition json_object_iter_next :: "json_object_iterator \<Rightarrow> heap \<Rightarrow> json_object_iterator option" where
  "json_object_iter_next iter h = do {
     e \<leftarrow> iter_entry iter h;
     (a, n) \<leftarrow> iter;
     Some (map_option (Pair a) (ent_next e)) }"

definition json_object_iter_peek_name :: "json_object_iterator \<Rightarrow> heap \<Rightarrow> string option" where
  "json_object_iter_peek_name iter h = do {
     e \<leftarrow> iter_entry iter h;
     case ent_k e of Key k \<Rightarrow> Some k | _ \<Rightarrow> None }"

definition json_object_iter_peek_value :: "json_object_iterator \<Rightarrow> heap \<Rightarrow> addr option option" where
  "json_object_iter_peek_value iter h = do {
     e \<leftarrow> iter_entry iter h;
     Some (ent_v e) }"

definition json_object_iter_equal :: "json_object_iterator \<Rightarrow> json_object_iterator \<Rightarrow> bool" where
  "json_object_iter_equal iter1 iter2 \<longleftrightarrow> iter1 = iter2"

definition json_object_iter_init_default :: json_object_iterator where
  "json_object_iter_init_default = None"

text \<open>
  The loop of the example in \<open>json_object_iterator.h\<close>: what it sees until the iterator equals
  \<open>itEnd\<close>. It is \<open>None\<close> when it does not end.
\<close>

partial_function (option) iterate ::
  "json_object_iterator \<Rightarrow> json_object_iterator \<Rightarrow> heap \<Rightarrow> (string \<times> addr option) list option" where
  "iterate it itEnd h =
     (if json_object_iter_equal it itEnd then Some []
      else do {
        k \<leftarrow> json_object_iter_peek_name it h;
        v \<leftarrow> json_object_iter_peek_value it h;
        it \<leftarrow> json_object_iter_next it h;
        kvs \<leftarrow> iterate it itEnd h;
        Some ((k, v) # kvs) })"

section \<open>The loop sees the entries in order\<close>

lemma iterate_end: "iterate None (json_object_iter_end obj) h = Some []"
  by (subst iterate.simps)
    (simp add: json_object_iter_equal_def json_object_iter_end_def kObjectEndIterValue_def)

lemma iterate_segment:
  assumes t: "c_object a h = Some t" and "dseg (lh_tab t) p c is q None"
    and "\<And>i. i \<in> set is \<Longrightarrow> \<not> slot_free (lh_tab t ! i)"
  shows "iterate (map_option (Pair a) c) (json_object_iter_end obj) h = Some (lh_pairs (lh_tab t) is)"
  using assms(2,3)
proof (induction "is" arbitrary: p c)
  case Nil
  then show ?case using iterate_end by (simp add: lh_pairs_def)
next
  case (Cons i "is")
  then have c: "c = Some i" "i < length (lh_tab t)"
    "dseg (lh_tab t) (Some i) (ent_next (lh_tab t ! i)) is q None" by auto
  obtain k where k: "ent_k (lh_tab t ! i) = Key k"
    using Cons.prems(2) [of i] by (auto simp: slot_free_iff)
  have entry: "iter_entry (Some (a, i)) h = Some (lh_tab t ! i)"
    using t c by (simp add: iter_entry_def)
  have "iterate (map_option (Pair a) (ent_next (lh_tab t ! i))) (json_object_iter_end obj) h
      = Some (lh_pairs (lh_tab t) is)"
    using Cons.IH [OF c(3)] Cons.prems(2) by simp
  then show ?case
    using c(1) k entry
    by (subst iterate.simps)
      (simp add: json_object_iter_equal_def json_object_iter_end_def kObjectEndIterValue_def lh_pairs_def
        json_object_iter_peek_name_def json_object_iter_peek_value_def json_object_iter_next_def)
qed

lemma iterate_fields:
  assumes "heap_wf h E" "c_object a h = Some t"
  obtains it where "json_object_iter_begin (Some a) h = Some it"
    "iterate it (json_object_iter_end (Some a)) h = Some (lh_entries t)"
proof -
  obtain c where c: "cells h a = Some c" "o_type c = json_type_object" "lh_room 0 t"
    using assms by (rule object_cell)
  obtain "is" where r: "lh_repr t is" "lh_entries t = lh_pairs (lh_tab t) is"
    using c(3) by (rule lh_roomE)
  have "json_object_iter_begin (Some a) h = Some (map_option (Pair a) (lh_head t))"
    using c(1,2) assms(2) by (simp add: json_object_iter_begin_def json_object_get_object_def)
  moreover have "iterate (map_option (Pair a) (lh_head t)) (json_object_iter_end (Some a)) h = Some (lh_entries t)"
    using iterate_segment [OF assms(2) reprD(3) [OF r(1)]] reprD(5) [OF r(1)] r(2) by simp
  ultimately show thesis using that by blast
qed

section \<open>Properties\<close>

text \<open>
  Iterating from \<open>begin\<close> to \<open>end\<close> over an object in memory ends, and sees each field once, in
  the order they were added, with a pointer that stands for its value.
\<close>

theorem json_object_iter_spec:
  assumes "heap_wf h E" "reads h (Some obj) (JObject kvs)"
  shows "\<exists>it ps. json_object_iter_begin (Some obj) h = Some it
    \<and> iterate it (json_object_iter_end (Some obj)) h = Some ps
    \<and> map fst ps = map fst kvs \<and> list_all2 (reads h) (map snd ps) (map snd kvs)"
proof -
  obtain c t where c: "cells h obj = Some c" "o_data c = O_object t" "map fst (lh_entries t) = map fst kvs"
    "list_all2 (reads h) (map snd (lh_entries t)) (map snd kvs)"
    using assms(2) by (auto elim: reads_ObjectE)
  then have "c_object obj h = Some t" by (simp add: c_object_Some)
  from iterate_fields [OF assms(1) this] c(3,4) show ?thesis by metis
qed

theorem json_object_iter_spec_witness:
  "\<exists>h it ps. json_object_object_add True 0 ''a'' (Some 1) field_heap = Some h
    \<and> json_object_iter_begin (Some 0) h = Some it
    \<and> iterate it (json_object_iter_end (Some 0)) h = Some ps \<and> map fst ps = [''a'']"
proof -
  obtain h where h: "json_object_object_add True 0 ''a'' (Some 1) field_heap = Some h" "heap_wf h {#0#}"
    "reads h (Some 0) (JObject (field_put [] ''a'' (JInt 5)))"
    using add_reads [OF field_heap(1,2,4), of "Some 1" "JInt 5" "''a''"] field_heap(3,5)
      held_ref [of 0 "{#0#}"] by auto
  then show ?thesis using json_object_iter_spec [OF h(2,3)] by auto
qed

end
