(* ===== verification/Json_File.thy ===== *)
theory Json_File
  imports Json_Roundtrip Tokener_Safe
begin

text \<open>
  Reading and writing of JSON files (\<open>json-c/json_util.c\<close>). The answers of \<open>read\<close> and \<open>write\<close> are
  given by the number of the call (\<open>progress\<close> in \<open>C_Prelude\<close>). A failure is \<open>NULL\<close>,
  which is \<open>JNull\<close> here. Messages are left out.
\<close>

section \<open>Reading\<close>

definition JSON_FILE_BUF_SIZE :: nat where "JSON_FILE_BUF_SIZE = 4096"

text \<open>The loop over \<open>read\<close>; \<open>rest\<close> is what the file has left. The result of the append is ignored.\<close>

function read_loop :: "(int \<Rightarrow> bool) \<Rightarrow> (nat \<Rightarrow> nat option) \<Rightarrow> nat \<Rightarrow> string \<Rightarrow> printbuf \<Rightarrow> (bool \<times> printbuf) option" where
  "read_loop al rd i rest pb =
     (case rd i of
        None \<Rightarrow> Some (False, pb)
      | Some n \<Rightarrow>
          let bs = take (min n JSON_FILE_BUF_SIZE) rest in
          if bs = [] then Some (True, pb)
          else do {
            (r, pb) \<leftarrow> printbuf_memappend al pb bs;
            read_loop al rd (Suc i) (drop (length bs) rest) pb })"
  by auto
termination by (relation "measure (\<lambda>(al, rd, i, rest, pb). length rest)") auto

declare read_loop.simps [simp del]

definition json_object_from_file :: "libc \<Rightarrow> string option \<Rightarrow> (nat \<Rightarrow> nat option) \<Rightarrow> jval option" where
  "json_object_from_file lib file rd =
     (case file of
        None \<Rightarrow> Some JNull
      | Some s \<Rightarrow>
        (case printbuf_new (realloc_ok lib) of
          None \<Rightarrow> Some JNull
        | Some pb \<Rightarrow> do {
            (ok, pb) \<leftarrow> read_loop (realloc_ok lib) rd 0 s pb;
            if \<not> ok then Some JNull
            else do {
              str \<leftarrow> read_cstr (buf pb);
              json_tokener_parse lib (str @ [NUL]) } }))"

section \<open>Writing\<close>

text \<open>The loop over \<open>write\<close>; not returning is \<open>None\<close>. \<open>out\<close> is what has reached the file.\<close>

partial_function (option) write_loop ::
  "(nat \<Rightarrow> nat option) \<Rightarrow> string \<Rightarrow> nat \<Rightarrow> nat \<Rightarrow> nat \<Rightarrow> string \<Rightarrow> (int \<times> string) option" where
  "write_loop wr json_str wsize i wpos out =
     (if wpos < wsize then
        (case wr i of
           None \<Rightarrow> Some (-1, out)
         | Some n \<Rightarrow>
             let ret = min n (wsize - wpos)
             in write_loop wr json_str wsize (Suc i) (wpos + ret) (out @ take ret (drop wpos json_str)))
      else Some (0, out))"

text \<open>\<open>opens\<close>: \<open>open\<close> succeeds, and empties the file. The result has the file and the object's buffer.\<close>

definition json_object_to_file_ext ::
  "(int \<Rightarrow> bool) \<Rightarrow> (double \<Rightarrow> string) \<Rightarrow> bool \<Rightarrow> (nat \<Rightarrow> nat option) \<Rightarrow> string option \<Rightarrow> printbuf option \<Rightarrow> jval \<Rightarrow> 32 word \<Rightarrow>
   (int \<times> string option \<times> printbuf option) option" where
  "json_object_to_file_ext al fmt opens wr file pb obj flags =
     (if obj = JNull then Some (-1, file, pb)
      else if \<not> opens then Some (-1, file, pb)
      else do {
        (json_str, pb) \<leftarrow> json_object_to_json_string_ext al fmt pb obj flags;
        case json_str of
          None \<Rightarrow> Some (-1, Some [], pb)
        | Some json_str \<Rightarrow> do {
            (r, out) \<leftarrow> write_loop wr json_str (length json_str mod 2 ^ 32) 0 0 [];
            Some (r, Some out, pb) } })"

definition json_object_to_file ::
  "(int \<Rightarrow> bool) \<Rightarrow> (double \<Rightarrow> string) \<Rightarrow> bool \<Rightarrow> (nat \<Rightarrow> nat option) \<Rightarrow> string option \<Rightarrow> printbuf option \<Rightarrow> jval \<Rightarrow>
   (int \<times> string option \<times> printbuf option) option" where
  "json_object_to_file al fmt opens wr file pb obj = json_object_to_file_ext al fmt opens wr file pb obj JSON_C_TO_STRING_PLAIN"

section \<open>Calls that make progress\<close>

lemma read_loop_step:
  assumes "rd i = Some n" "bs = take (min n JSON_FILE_BUF_SIZE) rest" "bs \<noteq> []" "printbuf_memappend al pb bs = Some (r, p)"
  shows "read_loop al rd i rest pb = read_loop al rd (Suc i) (drop (length bs) rest) p"
  unfolding read_loop.simps [of _ _ i rest] using assms(1,3,4) by (simp add: Let_def flip: assms(2) del: take_eq_Nil)

lemma read_loop_all:
  assumes "progress rd"
  shows "pb_room (length rest) pb \<Longrightarrow> \<exists>pb'. read_loop mem_ok rd i rest pb = Some (True, pb') \<and> pb_inv pb'
    \<and> pb_str pb' = pb_str pb @ rest \<and> pb_terminated pb' = (rest \<noteq> [] \<or> pb_terminated pb)"
proof (induction rest arbitrary: i pb rule: length_induct)
  case (1 rest)
  obtain n where n: "rd i = Some n" "0 < n" using assms by (auto simp: progress_def)
  let ?bs = "take (min n JSON_FILE_BUF_SIZE) rest"
  show ?case
  proof (cases "rest = []")
    case True
    then show ?thesis using 1(2) n(1) by (auto simp: read_loop.simps pb_room_def)
  next
    case False
    then have bs: "?bs \<noteq> []" using n(2) by (simp add: JSON_FILE_BUF_SIZE_def)
    obtain p where p: "printbuf_memappend mem_ok pb ?bs = Some (int (length ?bs), p)"
      "pb_str p = pb_str pb @ ?bs" "pb_terminated p" "pb_room (length rest - length ?bs) p"
      by (rule printbuf_memappend_cases [OF 1(2), of ?bs mem_ok]) simp_all
    let ?r = "drop (length ?bs) rest"
    have cut: "?bs @ ?r = rest" by (simp add: min_def)
    have "length ?r < length rest" "pb_room (length ?r) p" using bs False n(2) p(4) by (auto simp: JSON_FILE_BUF_SIZE_def)
    then obtain pb' where q: "read_loop mem_ok rd (Suc i) ?r p = Some (True, pb')" "pb_inv pb'" "pb_str pb' = pb_str p @ ?r"
      "pb_terminated pb'"
      using 1(1) p(3) by blast
    have "read_loop mem_ok rd i rest pb = Some (True, pb')"
      using read_loop_step [of rd i n ?bs rest, OF n(1) refl bs p(1)] q(1) by simp
    moreover have "pb_str pb' = pb_str pb @ rest" using q(3) p(2) cut by simp
    ultimately show ?thesis using q False by blast
  qed
qed

text \<open>The result does not depend on how the reads cut the file. An empty file reads memory never written.\<close>

lemma json_object_from_file_progress:
  assumes "progress rd" "lib_ok lib" "length s < 2 ^ 28"
  shows "json_object_from_file lib (Some s) rd = (if s = [] then None else json_tokener_parse lib (cstr s @ [NUL]))"
proof -
  obtain p where p: "printbuf_new mem_ok = Some p" "pb_str p = []" "pb_room (length s) p"
    using printbuf_new_room [of mem_ok _ "length s"] assms(3) by (auto simp: printbuf_new_def)
  show ?thesis
  proof (cases "s = []")
    case True
    obtain n where "rd 0 = Some n" using assms(1) by (auto simp: progress_def)
    then show ?thesis using True assms(2)
      by (simp add: json_object_from_file_def lib_ok_def read_loop.simps printbuf_new_def numeral_eq_Suc)
  next
    case False
    obtain p' where "read_loop mem_ok rd 0 s p = Some (True, p')" "pb_inv p'" "pb_str p' = s" "pb_terminated p'"
      using read_loop_all [OF assms(1) p(3), of 0] p(2) False by auto
    then show ?thesis using False p(1) assms(2) read_cstr_terminated [of p']
      by (simp add: json_object_from_file_def lib_ok_def)
  qed
qed

lemma write_loop_all:
  assumes "progress wr" "wsize \<le> length s"
  shows "wpos \<le> wsize \<Longrightarrow> write_loop wr s wsize i wpos out = Some (0, out @ take (wsize - wpos) (drop wpos s))"
proof (induction "wsize - wpos" arbitrary: wpos i out rule: less_induct)
  case less
  obtain n where n: "wr i = Some n" "0 < n" using assms(1) by (auto simp: progress_def)
  show ?case
  proof (cases "wpos < wsize")
    case True
    let ?r = "min n (wsize - wpos)"
    have r: "wsize - (wpos + ?r) < wsize - wpos" "wpos + ?r \<le> wsize" using True n(2) by auto
    have "write_loop wr s wsize i wpos out = write_loop wr s wsize (Suc i) (wpos + ?r) (out @ take ?r (drop wpos s))"
      using True n(1) by (subst write_loop.simps) (simp add: Let_def)
    also have "\<dots> = Some (0, (out @ take ?r (drop wpos s)) @ take (wsize - (wpos + ?r)) (drop (wpos + ?r) s))"
      by (rule less.hyps [OF r])
    also have "(out @ take ?r (drop wpos s)) @ take (wsize - (wpos + ?r)) (drop (wpos + ?r) s) = out @ take (wsize - wpos) (drop wpos s)"
      using r take_add [of ?r "wsize - (wpos + ?r)" "drop wpos s"] by (simp add: add.commute)
    finally show ?thesis .
  next
    case False
    then show ?thesis using less.prems by (subst write_loop.simps) simp
  qed
qed

text \<open>
  C18. Writing a value to a new file and reading it back: however many bytes each \<open>write\<close> and each \<open>read\<close>
  moves, as long as each moves one, \<open>json_object_to_file_ext\<close> returns 0 and \<open>json_object_from_file\<close> on what
  it wrote gives the value. The values are those of \<open>json_print_parse_roundtrip\<close> other than \<open>null\<close>:
  \<open>-Infinity\<close> is left out, and so are depths past 31 and texts from 2^28 bytes on.
\<close>

theorem json_file_roundtrip:
  assumes "lib_std lib" "wf_val lib v" "height v \<le> 31" "fmt_ok fmt flags" "fmt_no_NUL fmt flags"
    and len: "length (ser fmt flags v 0) < 2 ^ 28 - 1"
    and v: "v \<noteq> JNull" and wr: "progress wr" and rd: "progress rd"
  shows "\<exists>s pb. json_object_to_file_ext mem_ok fmt True wr file None v flags = Some (0, Some s, pb)
    \<and> json_object_from_file lib (Some s) rd = Some v"
proof -
  let ?s = "ser fmt flags v 0"
  have c: "cstr ?s = ?s" using NUL_notin_ser [OF assms(4,5)] by (simp add: cstr_id)
  obtain pb where t: "json_object_to_json_string_ext mem_ok fmt None v flags = Some (Some ?s, pb)"
    using to_json_string_ext_text [OF assms(4), of v None] len c by auto
  have "length ?s mod 2 ^ 32 = length ?s" using len by simp
  then have "json_object_to_file_ext mem_ok fmt True wr file None v flags = Some (0, Some ?s, pb)"
    using v t write_loop_all [OF wr, of "length ?s" ?s 0 0 "[]"] by (simp add: json_object_to_file_ext_def)
  moreover have "?s \<noteq> []" using ser_head [OF assms(2), of fmt flags 0] by auto
  then have "json_object_from_file lib (Some ?s) rd = Some v"
    using json_object_from_file_progress [OF rd lib_std_ok [OF assms(1)], of ?s] len c parse_verbose_text [OF assms(1-3) len]
    by (simp add: json_tokener_parse_def)
  ultimately show ?thesis by blast
qed

lemma json_file_roundtrip_witness:
  "\<exists>s pb. json_object_to_file_ext mem_ok (\<lambda>d. ''1.5'') True (\<lambda>_. Some 1) None None
        (JObject [(''a'', JArray [JInt (-7), JNull]), (''b'', JString [DQ, NUL])]) JSON_C_TO_STRING_PRETTY = Some (0, Some s, pb)
    \<and> json_object_from_file lib_example (Some s) (\<lambda>i. Some (Suc i)) = Some (JObject [(''a'', JArray [JInt (-7), JNull]), (''b'', JString [DQ, NUL])])"
proof (rule json_file_roundtrip [OF _ _ _ fmt_example])
  show "lib_std lib_example" by (simp add: lib_std_def lib_ok_def lib_example_def)
  show "progress (\<lambda>_. Some 1)" "progress (\<lambda>i. Some (Suc i))" by (simp_all add: progress_def)
  show "wf_val lib_example (JObject [(''a'', JArray [JInt (-7), JNull]), (''b'', JString [DQ, NUL])])"
    by (simp add: in_i64_def)
qed (simp_all add: bracket_text_def field_text_def JSON_C_TO_STRING_PRETTY_def JSON_C_TO_STRING_SPACED_def esc_def esc_char_def cstr_def
    short_escape.simps show_int_def dec.simps [of 7] code_of_def)

section \<open>Errors\<close>

text \<open>A read that fails gives \<open>NULL\<close>, whatever was read before.\<close>

lemma read_loop_error:
  assumes "progress rd"
  shows "pb_room (length rest) pb \<Longrightarrow> k * JSON_FILE_BUF_SIZE < length rest \<Longrightarrow>
    \<exists>pb'. read_loop mem_ok (rd(i + k := None)) i rest pb = Some (False, pb')"
proof (induction k arbitrary: i rest pb)
  case 0
  then show ?case by (auto simp: read_loop.simps)
next
  case (Suc k)
  obtain n where n: "rd i = Some n" "0 < n" using assms by (auto simp: progress_def)
  let ?bs = "take (min n JSON_FILE_BUF_SIZE) rest"
  obtain p where p: "printbuf_memappend mem_ok pb ?bs = Some (int (length ?bs), p)" "pb_room (length rest - length ?bs) p"
    by (rule printbuf_memappend_cases [OF Suc(2), of ?bs mem_ok]) simp_all
  let ?rd = "rd(i + Suc k := None)"
  have bs: "?bs \<noteq> []" and k: "k * JSON_FILE_BUF_SIZE < length (drop (length ?bs) rest)"
    using Suc(3) n(2) by (auto simp: JSON_FILE_BUF_SIZE_def)
  have i: "?rd i = Some n" using n(1) by simp
  have "pb_room (length (drop (length ?bs) rest)) p" using p(2) by simp
  from Suc(1) [OF this k, of "Suc i"] show ?case unfolding read_loop_step [of ?rd i n ?bs rest, OF i refl bs p(1)] by (simp add: fun_upd_def)
qed

lemma json_object_from_file_error:
  assumes "progress rd" "lib_ok lib" "length s < 2 ^ 28" "k * JSON_FILE_BUF_SIZE < length s"
  shows "json_object_from_file lib (Some s) (rd(k := None)) = Some JNull"
proof -
  obtain p where p: "printbuf_new mem_ok = Some p" "pb_room (length s) p"
    using printbuf_new_room [of mem_ok _ "length s"] assms(3) by (auto simp: printbuf_new_def)
  then show ?thesis using read_loop_error [OF assms(1) p(2) assms(4), of 0] assms(2)
    by (auto simp: json_object_from_file_def lib_ok_def)
qed

text \<open>A \<open>write\<close> that moves nothing is repeated for ever.\<close>

lemma write_loop_stuck: "wpos < wsize \<Longrightarrow> write_loop (\<lambda>_. Some 0) s wsize i wpos out = None"
proof (rule ccontr)
  define P where "P = (\<lambda>(wr :: nat \<Rightarrow> nat option) (s :: string) wsize (i :: nat) wpos (out :: string) (y :: int \<times> string).
    wr = (\<lambda>_. Some 0) \<longrightarrow> \<not> wpos < (wsize :: nat))"
  assume w: "wpos < wsize" "write_loop (\<lambda>_. Some 0) s wsize i wpos out \<noteq> None"
  then obtain y where y: "write_loop (\<lambda>_. Some 0) s wsize i wpos out = Some y" by blast
  have "P (\<lambda>_. Some 0) s wsize i wpos out y"
    by (rule write_loop.raw_induct [of P, OF _ y]) (force simp: P_def Let_def split: if_splits)
  with w show False by (simp add: P_def)
qed

text \<open>An append that fails is not noticed: the value of a part of the file is returned.\<close>

lemma json_object_from_file_truncated:
  "json_object_from_file (lib_plain\<lparr>realloc_ok := \<lambda>n. n \<le> 48\<rparr>)
     (Some ''1234567890123456789012345678901234567890'') (\<lambda>i. Some (if i = 0 then 2 else 4096)) = Some (JInt 12)"
  by code_simp

end
