(* ===== verification/Random_Seed.thy ===== *)
theory Random_Seed
  imports C_Prelude
begin

text \<open>
  The seed of the string hash (\<open>json-c/random_seed.c\<close>) as it is compiled for the device, without
  \<open>ENABLE_RDRAND\<close>: from \<open>/dev/urandom\<close>, else from the time.
\<close>

datatype seed_result = Seed int | Exit int

definition S_IFCHR :: "32 word" where "S_IFCHR = 0x2000"

text \<open>\<open>st\<close>: \<open>st_mode\<close> of the file, \<open>None\<close> when \<open>stat\<close> fails.\<close>

definition has_dev_urandom :: "32 word option \<Rightarrow> bool" where
  "has_dev_urandom st = (case st of None \<Rightarrow> False | Some st_mode \<Rightarrow> st_mode AND S_IFCHR \<noteq> 0)"

text \<open>\<open>dev\<close>: what \<open>read\<close> puts into the four bytes, on a little-endian machine; \<open>None\<close> when \<open>open\<close> fails.\<close>

definition int_of_bytes :: "8 word list \<Rightarrow> int" where
  "int_of_bytes bs = sint (word_of_nat (foldr (\<lambda>b n. unat b + 256 * n) bs 0) :: 32 word)"

definition get_dev_random_seed :: "8 word list option \<Rightarrow> seed_result" where
  "get_dev_random_seed dev =
     (case dev of None \<Rightarrow> Exit 1 | Some bs \<Rightarrow> if length bs \<noteq> 4 then Exit 1 else Seed (int_of_bytes bs))"

definition get_time_seed :: "64 word \<Rightarrow> int option" where
  "get_time_seed now = i32 (sint (ucast now :: 32 word) * 433494437)"

definition json_c_get_random_seed :: "32 word option \<Rightarrow> 8 word list option \<Rightarrow> 64 word \<Rightarrow> seed_result option" where
  "json_c_get_random_seed st dev now =
     (if has_dev_urandom st then Some (get_dev_random_seed dev) else map_option Seed (get_time_seed now))"

text \<open>The seed of a device that answers is any \<open>int\<close>.\<close>

lemma int_of_bytes_range: "in_i32 (int_of_bytes bs)"
  using sint_range_size [of "word_of_nat (foldr (\<lambda>b n. unat b + 256 * n) bs 0) :: 32 word"]
  by (simp add: int_of_bytes_def in_i32_def word_size)

lemma int_of_bytes_onto: "in_i32 x \<Longrightarrow> \<exists>bs. length bs = 4 \<and> int_of_bytes bs = x"
proof -
  assume x: "in_i32 x"
  define n where "n = unat (word_of_int x :: 32 word)"
  define b :: "nat \<Rightarrow> 8 word" where "b k = word_of_nat (n div 256 ^ k mod 256)" for k
  have u: "unat (b k) = n div 256 ^ k mod 256" for k
    by (simp add: b_def unsigned_of_nat take_bit_eq_mod)
  have "n < 2 ^ 32" unfolding n_def using unsigned_less [of "word_of_int x :: 32 word"] by simp
  then have "foldr (\<lambda>b n. unat b + 256 * n) (map b [0, 1, 2, 3]) 0 = n"
  proof -
    assume "n < 2 ^ 32"
    define q where "q = n div 256"
    define r where "r = q div 256"
    define s where "s = r div 256"
    have "n div 256 = q" "n div 65536 = r" "n div 16777216 = s"
      by (simp_all add: q_def r_def s_def flip: div_mult2_eq)
    moreover have "s < 256" using \<open>n < 2 ^ 32\<close> by (simp add: q_def r_def s_def flip: div_mult2_eq) 
    moreover have "n = n mod 256 + 256 * q" "q = q mod 256 + 256 * r" "r = r mod 256 + 256 * s"
      by (simp_all add: q_def r_def s_def)
    ultimately show ?thesis by (simp add: u)
  qed
  then have "int_of_bytes (map b [0, 1, 2, 3]) = sint (word_of_int x :: 32 word)"
    by (simp add: int_of_bytes_def n_def)
  also have "\<dots> = x" using x by (simp add: signed_of_int in_i32_def signed_take_bit_int_eq_self)
  finally show ?thesis by (intro exI [of _ "map b [0, 1, 2, 3]"]) simp
qed

text \<open>From five seconds after the epoch on, the product overflows: the fallback is undefined.\<close>

lemma get_time_seed_overflows:
  assumes "5 \<le> t" "t < 2 ^ 31"
  shows "get_time_seed (word_of_nat t) = None"
proof -
  have "ucast (word_of_nat t :: 64 word) = (word_of_nat t :: 32 word)"
    by transfer (simp add: take_bit_of_nat)
  moreover have "sint (word_of_nat t :: 32 word) = int t"
    using assms(2) by (simp add: signed_of_nat signed_take_bit_int_eq_self)
  ultimately show ?thesis using assms(1) by (simp add: get_time_seed_def in_i32_def)
qed

text \<open>The bit of \<open>S_IFCHR\<close> is also set for a block device (\<open>S_IFBLK\<close>), which passes the test.\<close>

lemma has_dev_urandom_block: "has_dev_urandom (Some 0x61B6)"
  by (simp add: has_dev_urandom_def S_IFCHR_def)

end
