(* ===== verification/Media_Info.thy ===== *)
theory Media_Info
  imports C_Prelude "HOL-Library.Signed_Division"
begin

text \<open>
  The layout of the video buffers (\<open>sdm845/kernel-headers/media/msm_media_info.h\<close>): the stride
  and scanline count of every plane of a colour format, and the size of the whole buffer. An
  \<open>unsigned int\<close> is a 32-bit word that wraps; arithmetic on \<open>int\<close> that overflows is undefined.
  \<open>buffer_bytes\<close> gives the sizes as natural numbers, and the main result is that the code
  computes them without wrapping for all sizes up to 16384 by 16384.
\<close>

section \<open>Formats and macros\<close>

datatype color_fmts =
    COLOR_FMT_NV12 | COLOR_FMT_NV21 | COLOR_FMT_NV12_MVTB | COLOR_FMT_NV12_UBWC
  | COLOR_FMT_NV12_BPP10_UBWC | COLOR_FMT_RGBA8888 | COLOR_FMT_RGBA8888_UBWC
  | COLOR_FMT_RGBA1010102_UBWC | COLOR_FMT_RGB565_UBWC | COLOR_FMT_P010_UBWC | COLOR_FMT_P010

text \<open>
  The functions take the format as an \<open>int\<close>: \<open>None\<close> stands for every value that is no enumerator.
  \<open>fmt_in\<close> is a group of \<open>case\<close> labels.
\<close>

type_synonym color_fmt = "color_fmts option"

definition fmt_in :: "color_fmt \<Rightarrow> color_fmts list \<Rightarrow> bool" where
  "fmt_in f fs = (case f of None \<Rightarrow> False | Some x \<Rightarrow> x \<in> set fs)"

text \<open>The macros, once for unsigned and once for signed operands.\<close>

definition MSM_MEDIA_ALIGN :: "32 word \<Rightarrow> 32 word \<Rightarrow> 32 word" where
  "MSM_MEDIA_ALIGN sz al =
     (if al AND (al - 1) \<noteq> 0 then ((sz + al - 1) div al) * al else (sz + al - 1) AND NOT (al - 1))"

definition MSM_MEDIA_ALIGN_int :: "int \<Rightarrow> int \<Rightarrow> int option" where
  "MSM_MEDIA_ALIGN_int sz al =
     do { a \<leftarrow> i32 (sz + al);
          a \<leftarrow> i32 (a - 1);
          if al AND (al - 1) \<noteq> 0 then i32 ((a sdiv al) * al) else Some (a AND NOT (al - 1)) }"

definition MSM_MEDIA_ROUNDUP :: "int \<Rightarrow> int \<Rightarrow> int option" where
  "MSM_MEDIA_ROUNDUP sz r = do { a \<leftarrow> i32 (sz + (r - 1)); i32 (a sdiv r) }"

definition MSM_MEDIA_MAX :: "32 word \<Rightarrow> 32 word \<Rightarrow> 32 word" where
  "MSM_MEDIA_MAX a b = (if a > b then a else b)"

abbreviation uint_of :: "int \<Rightarrow> 32 word" where "uint_of i \<equiv> word_of_int i"

text \<open>\<open>(height + 1) >> 1\<close>\<close>

definition half :: "int \<Rightarrow> int option" where
  "half h = do { a \<leftarrow> i32 (h + 1); Some (drop_bit 1 a) }"

section \<open>Strides and scanlines\<close>

definition VENUS_EXTRADATA_SIZE :: "int \<Rightarrow> int \<Rightarrow> 32 word" where
  "VENUS_EXTRADATA_SIZE width height = 16 * 1024"

text \<open>\<open>VENUS_Y_STRIDE\<close> and \<open>VENUS_UV_STRIDE\<close> have the same body.\<close>

definition VENUS_Y_STRIDE :: "color_fmt \<Rightarrow> int \<Rightarrow> 32 word option" where
  "VENUS_Y_STRIDE color_fmt width =
     (if width = 0 then Some 0
      else if fmt_in color_fmt [COLOR_FMT_NV21, COLOR_FMT_NV12, COLOR_FMT_NV12_MVTB, COLOR_FMT_NV12_UBWC]
      then Some (MSM_MEDIA_ALIGN (uint_of width) 128)
      else if fmt_in color_fmt [COLOR_FMT_NV12_BPP10_UBWC] then do {
        stride \<leftarrow> MSM_MEDIA_ALIGN_int width 192;
        Some (MSM_MEDIA_ALIGN (uint_of stride * 4 div 3) 256) }
      else if fmt_in color_fmt [COLOR_FMT_P010_UBWC] then do {
        w2 \<leftarrow> i32 (width * 2); Some (MSM_MEDIA_ALIGN (uint_of w2) 256) }
      else if fmt_in color_fmt [COLOR_FMT_P010] then do {
        w2 \<leftarrow> i32 (width * 2); Some (MSM_MEDIA_ALIGN (uint_of w2) 128) }
      else Some 0)"

definition VENUS_UV_STRIDE :: "color_fmt \<Rightarrow> int \<Rightarrow> 32 word option" where
  "VENUS_UV_STRIDE color_fmt width =
     (if width = 0 then Some 0
      else if fmt_in color_fmt [COLOR_FMT_NV21, COLOR_FMT_NV12, COLOR_FMT_NV12_MVTB, COLOR_FMT_NV12_UBWC]
      then Some (MSM_MEDIA_ALIGN (uint_of width) 128)
      else if fmt_in color_fmt [COLOR_FMT_NV12_BPP10_UBWC] then do {
        stride \<leftarrow> MSM_MEDIA_ALIGN_int width 192;
        Some (MSM_MEDIA_ALIGN (uint_of stride * 4 div 3) 256) }
      else if fmt_in color_fmt [COLOR_FMT_P010_UBWC] then do {
        w2 \<leftarrow> i32 (width * 2); Some (MSM_MEDIA_ALIGN (uint_of w2) 256) }
      else if fmt_in color_fmt [COLOR_FMT_P010] then do {
        w2 \<leftarrow> i32 (width * 2); Some (MSM_MEDIA_ALIGN (uint_of w2) 128) }
      else Some 0)"

definition VENUS_Y_SCANLINES :: "color_fmt \<Rightarrow> int \<Rightarrow> 32 word option" where
  "VENUS_Y_SCANLINES color_fmt height =
     (if height = 0 then Some 0
      else if fmt_in color_fmt [COLOR_FMT_NV21, COLOR_FMT_NV12, COLOR_FMT_NV12_MVTB, COLOR_FMT_NV12_UBWC, COLOR_FMT_P010]
      then Some (MSM_MEDIA_ALIGN (uint_of height) 32)
      else if fmt_in color_fmt [COLOR_FMT_NV12_BPP10_UBWC, COLOR_FMT_P010_UBWC]
      then Some (MSM_MEDIA_ALIGN (uint_of height) 16)
      else Some 0)"

definition VENUS_UV_SCANLINES :: "color_fmt \<Rightarrow> int \<Rightarrow> 32 word option" where
  "VENUS_UV_SCANLINES color_fmt height =
     (if height = 0 then Some 0
      else if fmt_in color_fmt [COLOR_FMT_NV21, COLOR_FMT_NV12, COLOR_FMT_NV12_MVTB, COLOR_FMT_NV12_BPP10_UBWC,
        COLOR_FMT_P010_UBWC, COLOR_FMT_P010]
      then do { h \<leftarrow> half height; Some (MSM_MEDIA_ALIGN (uint_of h) 16) }
      else if fmt_in color_fmt [COLOR_FMT_NV12_UBWC]
      then do { h \<leftarrow> half height; Some (MSM_MEDIA_ALIGN (uint_of h) 32) }
      else Some 0)"

text \<open>The tail the metadata functions share, with the tile size and the alignment.\<close>

definition meta_of :: "int \<Rightarrow> int \<Rightarrow> int \<Rightarrow> 32 word option" where
  "meta_of n tile al =
     do { m \<leftarrow> MSM_MEDIA_ROUNDUP n tile; m \<leftarrow> MSM_MEDIA_ALIGN_int m al; Some (uint_of m) }"

definition VENUS_Y_META_STRIDE :: "color_fmt \<Rightarrow> int \<Rightarrow> 32 word option" where
  "VENUS_Y_META_STRIDE color_fmt width =
     (if width = 0 then Some 0
      else if fmt_in color_fmt [COLOR_FMT_NV12_UBWC, COLOR_FMT_P010_UBWC] then meta_of width 32 64
      else if fmt_in color_fmt [COLOR_FMT_NV12_BPP10_UBWC] then meta_of width 48 64
      else Some 0)"

definition VENUS_Y_META_SCANLINES :: "color_fmt \<Rightarrow> int \<Rightarrow> 32 word option" where
  "VENUS_Y_META_SCANLINES color_fmt height =
     (if height = 0 then Some 0
      else if fmt_in color_fmt [COLOR_FMT_NV12_UBWC] then meta_of height 8 16
      else if fmt_in color_fmt [COLOR_FMT_NV12_BPP10_UBWC, COLOR_FMT_P010_UBWC] then meta_of height 4 16
      else Some 0)"

definition VENUS_UV_META_STRIDE :: "color_fmt \<Rightarrow> int \<Rightarrow> 32 word option" where
  "VENUS_UV_META_STRIDE color_fmt width =
     (if width = 0 then Some 0
      else if fmt_in color_fmt [COLOR_FMT_NV12_UBWC, COLOR_FMT_P010_UBWC] then do { w \<leftarrow> half width; meta_of w 16 64 }
      else if fmt_in color_fmt [COLOR_FMT_NV12_BPP10_UBWC] then do { w \<leftarrow> half width; meta_of w 24 64 }
      else Some 0)"

definition VENUS_UV_META_SCANLINES :: "color_fmt \<Rightarrow> int \<Rightarrow> 32 word option" where
  "VENUS_UV_META_SCANLINES color_fmt height =
     (if height = 0 then Some 0
      else if fmt_in color_fmt [COLOR_FMT_NV12_UBWC] then do { h \<leftarrow> half height; meta_of h 8 16 }
      else if fmt_in color_fmt [COLOR_FMT_NV12_BPP10_UBWC, COLOR_FMT_P010_UBWC]
      then do { h \<leftarrow> half height; meta_of h 4 16 }
      else Some 0)"

definition VENUS_RGB_STRIDE :: "color_fmt \<Rightarrow> int \<Rightarrow> 32 word option" where
  "VENUS_RGB_STRIDE color_fmt width =
     (if width = 0 then Some 0
      else if fmt_in color_fmt [COLOR_FMT_RGBA8888] then Some (MSM_MEDIA_ALIGN (uint_of width * 4) 128)
      else if fmt_in color_fmt [COLOR_FMT_RGB565_UBWC] then Some (MSM_MEDIA_ALIGN (uint_of width * 2) 256)
      else if fmt_in color_fmt [COLOR_FMT_RGBA8888_UBWC, COLOR_FMT_RGBA1010102_UBWC]
      then Some (MSM_MEDIA_ALIGN (uint_of width * 4) 256)
      else Some 0)"

definition VENUS_RGB_SCANLINES :: "color_fmt \<Rightarrow> int \<Rightarrow> 32 word option" where
  "VENUS_RGB_SCANLINES color_fmt height =
     (if height = 0 then Some 0
      else if fmt_in color_fmt [COLOR_FMT_RGBA8888] then Some (MSM_MEDIA_ALIGN (uint_of height) 32)
      else if fmt_in color_fmt [COLOR_FMT_RGBA8888_UBWC, COLOR_FMT_RGBA1010102_UBWC, COLOR_FMT_RGB565_UBWC]
      then Some (MSM_MEDIA_ALIGN (uint_of height) 16)
      else Some 0)"

definition VENUS_RGB_META_STRIDE :: "color_fmt \<Rightarrow> int \<Rightarrow> 32 word option" where
  "VENUS_RGB_META_STRIDE color_fmt width =
     (if width = 0 then Some 0
      else if fmt_in color_fmt [COLOR_FMT_RGBA8888_UBWC, COLOR_FMT_RGBA1010102_UBWC, COLOR_FMT_RGB565_UBWC]
      then meta_of width 16 64
      else Some 0)"

definition VENUS_RGB_META_SCANLINES :: "color_fmt \<Rightarrow> int \<Rightarrow> 32 word option" where
  "VENUS_RGB_META_SCANLINES color_fmt height =
     (if height = 0 then Some 0
      else if fmt_in color_fmt [COLOR_FMT_RGBA8888_UBWC, COLOR_FMT_RGBA1010102_UBWC, COLOR_FMT_RGB565_UBWC]
      then meta_of height 4 16
      else Some 0)"

section \<open>The buffer\<close>

text \<open>The cases of the \<open>switch\<close>. The additional rows of a large NV12 frame come after the size.\<close>

definition last_rows :: "int \<Rightarrow> int \<Rightarrow> 32 word \<Rightarrow> 32 word" where
  "last_rows width height sz =
     (if width \<ge> 2400 \<and> height \<ge> 2400
      then MSM_MEDIA_ALIGN (sz + MSM_MEDIA_ALIGN (uint_of width) 512 * 512) 4096 else sz)"

definition nv12_size :: "32 word \<Rightarrow> 32 word \<Rightarrow> 32 word \<Rightarrow> 32 word \<Rightarrow> 32 word \<Rightarrow> 32 word" where
  "nv12_size extra_size y_stride y_sclines uv_stride uv_sclines =
     (let y_plane = y_stride * y_sclines; uv_plane = uv_stride * uv_sclines + 4096
      in MSM_MEDIA_ALIGN (y_plane + uv_plane + MSM_MEDIA_MAX extra_size (8 * y_stride)) 4096)"

definition mvtb_size :: "32 word \<Rightarrow> 32 word \<Rightarrow> 32 word \<Rightarrow> 32 word \<Rightarrow> 32 word \<Rightarrow> 32 word" where
  "mvtb_size extra_size y_stride y_sclines uv_stride uv_sclines =
     (let y_plane = y_stride * y_sclines; uv_plane = uv_stride * uv_sclines + 4096
      in MSM_MEDIA_ALIGN (2 * (y_plane + uv_plane) + extra_size) 4096)"

text \<open>The four planes of a compressed format with the given scanlines for them.\<close>

definition ubwc_planes :: "color_fmt \<Rightarrow> int \<Rightarrow> int \<Rightarrow> 32 word \<Rightarrow> 32 word \<Rightarrow> 32 word \<Rightarrow> 32 word \<Rightarrow> 32 word option" where
  "ubwc_planes color_fmt width height y_stride y_sclines uv_stride uv_sclines =
     do { let y_ubwc_plane = MSM_MEDIA_ALIGN (y_stride * y_sclines) 4096;
          let uv_ubwc_plane = MSM_MEDIA_ALIGN (uv_stride * uv_sclines) 4096;
          y_meta_stride \<leftarrow> VENUS_Y_META_STRIDE color_fmt width;
          y_meta_scanlines \<leftarrow> VENUS_Y_META_SCANLINES color_fmt height;
          let y_meta_plane = MSM_MEDIA_ALIGN (y_meta_stride * y_meta_scanlines) 4096;
          uv_meta_stride \<leftarrow> VENUS_UV_META_STRIDE color_fmt width;
          uv_meta_scanlines \<leftarrow> VENUS_UV_META_SCANLINES color_fmt height;
          let uv_meta_plane = MSM_MEDIA_ALIGN (uv_meta_stride * uv_meta_scanlines) 4096;
          Some (y_ubwc_plane + uv_ubwc_plane + y_meta_plane + uv_meta_plane) }"

definition VENUS_BUFFER_SIZE :: "color_fmt \<Rightarrow> int \<Rightarrow> int \<Rightarrow> 32 word option" where
  "VENUS_BUFFER_SIZE color_fmt width height =
     (let extra_size = VENUS_EXTRADATA_SIZE width height in
      if width = 0 \<or> height = 0 then Some 0
      else do {
        y_stride \<leftarrow> VENUS_Y_STRIDE color_fmt width;
        uv_stride \<leftarrow> VENUS_UV_STRIDE color_fmt width;
        y_sclines \<leftarrow> VENUS_Y_SCANLINES color_fmt height;
        uv_sclines \<leftarrow> VENUS_UV_SCANLINES color_fmt height;
        rgb_stride \<leftarrow> VENUS_RGB_STRIDE color_fmt width;
        rgb_scanlines \<leftarrow> VENUS_RGB_SCANLINES color_fmt height;
        if fmt_in color_fmt [COLOR_FMT_NV21, COLOR_FMT_NV12]
        then Some (last_rows width height (nv12_size extra_size y_stride y_sclines uv_stride uv_sclines))
        else if fmt_in color_fmt [COLOR_FMT_P010]
        then Some (nv12_size extra_size y_stride y_sclines uv_stride uv_sclines)
        else if fmt_in color_fmt [COLOR_FMT_NV12_MVTB]
        then Some (mvtb_size extra_size y_stride y_sclines uv_stride uv_sclines)
        else if fmt_in color_fmt [COLOR_FMT_NV12_UBWC] then do {
          h \<leftarrow> half height;
          y_sclines \<leftarrow> VENUS_Y_SCANLINES color_fmt h;
          uv_sclines \<leftarrow> VENUS_UV_SCANLINES color_fmt h;
          planes \<leftarrow> ubwc_planes color_fmt width h y_stride y_sclines uv_stride uv_sclines;
          Some (last_rows width height
            (MSM_MEDIA_ALIGN (planes * 2 + MSM_MEDIA_MAX (extra_size + 8192) (48 * y_stride)) 4096)) }
        else if fmt_in color_fmt [COLOR_FMT_NV12_BPP10_UBWC] then do {
          planes \<leftarrow> ubwc_planes color_fmt width height y_stride y_sclines uv_stride uv_sclines;
          Some (MSM_MEDIA_ALIGN (planes + MSM_MEDIA_MAX (extra_size + 8192) (48 * y_stride)) 4096) }
        else if fmt_in color_fmt [COLOR_FMT_P010_UBWC] then do {
          planes \<leftarrow> ubwc_planes color_fmt width height y_stride y_sclines uv_stride uv_sclines;
          Some (MSM_MEDIA_ALIGN planes 4096) }
        else if fmt_in color_fmt [COLOR_FMT_RGBA8888]
        then Some (MSM_MEDIA_ALIGN (MSM_MEDIA_ALIGN (rgb_stride * rgb_scanlines) 4096) 4096)
        else if fmt_in color_fmt [COLOR_FMT_RGBA8888_UBWC, COLOR_FMT_RGBA1010102_UBWC, COLOR_FMT_RGB565_UBWC] then do {
          rgb_meta_stride \<leftarrow> VENUS_RGB_META_STRIDE color_fmt width;
          rgb_meta_scanlines \<leftarrow> VENUS_RGB_META_SCANLINES color_fmt height;
          Some (MSM_MEDIA_ALIGN (MSM_MEDIA_ALIGN (rgb_stride * rgb_scanlines) 4096
            + MSM_MEDIA_ALIGN (rgb_meta_stride * rgb_meta_scanlines) 4096) 4096) }
        else Some 0 })"

definition VENUS_VIEW2_OFFSET :: "color_fmt \<Rightarrow> int \<Rightarrow> int \<Rightarrow> 32 word option" where
  "VENUS_VIEW2_OFFSET color_fmt width height =
     (if width = 0 \<or> height = 0 then Some 0
      else do {
        y_stride \<leftarrow> VENUS_Y_STRIDE color_fmt width;
        uv_stride \<leftarrow> VENUS_UV_STRIDE color_fmt width;
        y_sclines \<leftarrow> VENUS_Y_SCANLINES color_fmt height;
        uv_sclines \<leftarrow> VENUS_UV_SCANLINES color_fmt height;
        if fmt_in color_fmt [COLOR_FMT_NV12_MVTB]
        then Some (y_stride * y_sclines + uv_stride * uv_sclines) else Some 0 })"

section \<open>The sizes as numbers\<close>

text \<open>\<open>align_up n a\<close> is the least multiple of \<open>a\<close> that is at least \<open>n\<close>.\<close>

definition align_up :: "nat \<Rightarrow> nat \<Rightarrow> nat" where
  "align_up n a = ((n + (a - 1)) div a) * a"

lemma align_up_bounds:
  assumes "0 < a"
  shows "n \<le> align_up n a" "align_up n a < n + a" "a dvd align_up n a"
proof -
  let ?q = "(n + (a - 1)) div a"
  have d: "?q * a + (n + (a - 1)) mod a = n + (a - 1)" by simp
  have m: "(n + (a - 1)) mod a < a" using assms by simp
  show "n \<le> align_up n a" using d m unfolding align_up_def by linarith
  show "align_up n a < n + a" using d assms unfolding align_up_def by linarith
  show "a dvd align_up n a" by (simp add: align_up_def)
qed

lemma align_up_mono: "n \<le> m \<Longrightarrow> align_up n a \<le> align_up m a"
  by (simp add: align_up_def div_le_mono)

lemma align_up_idem: "0 < a \<Longrightarrow> a dvd n \<Longrightarrow> align_up n a = n"
  using div_mult_self4 [of a _ "a - 1"] by (auto simp: align_up_def elim!: dvdE)

text \<open>The two forms of the macro, on words and on integers.\<close>

lemma and_not_mask:
  "(w :: 32 word) AND NOT (mask k) = push_bit k (drop_bit k w)"
  "(a :: int) AND NOT (mask k) = push_bit k (drop_bit k a)"
  by (rule bit_eqI; auto simp: bit_simps)+

lemma exp_and_mask: "(2 :: 32 word) ^ k AND mask k = 0" "(2 :: int) ^ k AND mask k = 0"
  by (rule bit_eqI; auto simp: bit_simps)+

lemma MSM_MEDIA_ALIGN_exp:
  assumes "unat w + 2 ^ k \<le> 2 ^ 32" "k < 32"
  shows "unat (MSM_MEDIA_ALIGN w (2 ^ k)) = align_up (unat w) (2 ^ k)"
proof -
  let ?n = "unat w + (2 ^ k - 1)"
  have m: "(2 :: 32 word) ^ k - 1 = mask k" by (simp add: mask_eq_exp_minus_1)
  have "unat (mask k :: 32 word) = mask k" using assms(2) by (intro bit_eqI) (auto simp: bit_simps)
  then have "unat (mask k :: 32 word) = 2 ^ k - 1" by (simp add: mask_eq_exp_minus_1)
  moreover have n: "?n < 2 ^ 32" using assms(1) by (simp add: Suc_le_eq [symmetric] algebra_simps)
  ultimately have u: "unat (w + mask k) = ?n" by (subst unat_add_lem [THEN iffD1]) simp_all
  have "MSM_MEDIA_ALIGN w (2 ^ k) = push_bit k (drop_bit k (w + mask k))"
    unfolding MSM_MEDIA_ALIGN_def m exp_and_mask by (simp add: add_diff_eq [symmetric] m and_not_mask)
  also have "unat \<dots> = take_bit 32 ((?n div 2 ^ k) * 2 ^ k)"
    unfolding unsigned_push_bit_eq unat_drop_bit_eq u unfolding push_bit_eq_mult drop_bit_eq_div by simp
  also have "\<dots> = (?n div 2 ^ k) * 2 ^ k"
    by (rule take_bit_nat_eq_self) (use n div_times_less_eq_dividend [of ?n "2 ^ k"] in linarith)
  finally show ?thesis by (simp add: align_up_def)
qed

text \<open>On words of numbers the macros are the functions on numbers.\<close>

lemma align_of_nat:
  assumes "n \<le> 2 ^ 31" "k < 31"
  shows "MSM_MEDIA_ALIGN (of_nat n) (2 ^ k) = of_nat (align_up n (2 ^ k))"
proof -
  have k: "(2::nat) ^ k \<le> 2 ^ 30" using assms(2) by (intro power_increasing) simp_all
  then have "unat (of_nat n :: 32 word) = n" using assms(1) by (simp add: unat_of_nat)
  then have "unat (MSM_MEDIA_ALIGN (of_nat n) (2 ^ k)) = align_up n (2 ^ k)"
    using MSM_MEDIA_ALIGN_exp [of "of_nat n" k] assms k by simp
  then show ?thesis by (metis of_nat_unat ucast_id)
qed

lemmas align_words = align_of_nat [of _ 4, simplified] align_of_nat [of _ 5, simplified] align_of_nat [of _ 7, simplified]
  align_of_nat [of _ 8, simplified] align_of_nat [of _ 9, simplified] align_of_nat [of _ 12, simplified]

lemma max_of_nat:
  "m < 2 ^ 32 \<Longrightarrow> n < 2 ^ 32 \<Longrightarrow> MSM_MEDIA_MAX (of_nat m) (of_nat n) = of_nat (max m n)"
  by (auto simp: MSM_MEDIA_MAX_def word_less_nat_alt unat_of_nat max_def)

lemma div_of_nat:
  assumes "m < 2 ^ 32" "n < 2 ^ 32"
  shows "(of_nat m :: 32 word) div of_nat n = of_nat (m div n)"
proof -
  have "unat ((of_nat m :: 32 word) div of_nat n) = m div n" using assms by (simp add: unat_div unat_of_nat)
  then show ?thesis by (metis of_nat_unat ucast_id)
qed

lemma sdiv_nonneg: "0 \<le> a \<Longrightarrow> 0 < b \<Longrightarrow> a sdiv b = a div (b :: int)"
  by (auto simp: signed_divide_int_def sgn_if)

lemma int_align_up: "0 \<le> i \<Longrightarrow> 0 < a \<Longrightarrow> int (align_up (nat i) a) = ((i + (int a - 1)) div int a) * int a"
  by (simp add: align_up_def zdiv_int of_nat_diff Suc_le_eq add_diff_eq)

lemma and_minus_exp: "(a :: int) AND - (2 ^ k) = a div 2 ^ k * 2 ^ k"
  by (simp add: minus_exp_eq_not_mask and_not_mask drop_bit_eq_div push_bit_eq_mult)

lemma MSM_MEDIA_ALIGN_int_ok:
  assumes "0 \<le> i" "i \<le> 2 ^ 20"
  shows "MSM_MEDIA_ALIGN_int i 192 = Some (int (align_up (nat i) 192))"
    "MSM_MEDIA_ALIGN_int i 64 = Some (int (align_up (nat i) 64))"
    "MSM_MEDIA_ALIGN_int i 16 = Some (int (align_up (nat i) 16))"
proof -
  have b: "(i + 191) div 192 * 192 \<le> i + 191" "0 \<le> (i + 191) div 192" using assms(1) by linarith+
  show "MSM_MEDIA_ALIGN_int i 192 = Some (int (align_up (nat i) 192))"
    using assms b unfolding int_align_up [OF assms(1), of 192, simplified]
    by (simp add: MSM_MEDIA_ALIGN_int_def sdiv_nonneg in_i32_def)
  show "MSM_MEDIA_ALIGN_int i 64 = Some (int (align_up (nat i) 64))"
    using assms unfolding int_align_up [OF assms(1), of 64, simplified]
    by (simp add: MSM_MEDIA_ALIGN_int_def and_minus_exp [of _ 6, simplified] in_i32_def add.commute)
  show "MSM_MEDIA_ALIGN_int i 16 = Some (int (align_up (nat i) 16))"
    using assms unfolding int_align_up [OF assms(1), of 16, simplified]
    by (simp add: MSM_MEDIA_ALIGN_int_def and_minus_exp [of _ 4, simplified] in_i32_def add.commute)
qed

lemma MSM_MEDIA_ROUNDUP_ok:
  assumes "0 \<le> i" "i \<le> 2 ^ 20" "0 < t" "t \<le> 64"
  shows "MSM_MEDIA_ROUNDUP i t = Some ((i + (t - 1)) div t)" "0 \<le> (i + (t - 1)) div t"
    "(i + (t - 1)) div t \<le> i + (t - 1)"
proof -
  show b: "0 \<le> (i + (t - 1)) div t" "(i + (t - 1)) div t \<le> i + (t - 1)"
    using assms zdiv_mono2 [of "i + (t - 1)" 1 t] by (simp_all add: pos_imp_zdiv_nonneg_iff)
  show "MSM_MEDIA_ROUNDUP i t = Some ((i + (t - 1)) div t)"
    using assms b by (simp add: MSM_MEDIA_ROUNDUP_def in_i32_def sdiv_nonneg)
qed

text \<open>The length of a row or column of metadata for \<open>n\<close> pixels.\<close>

definition meta_len :: "nat \<Rightarrow> nat \<Rightarrow> nat \<Rightarrow> nat" where
  "meta_len n tile al = align_up ((n + (tile - 1)) div tile) al"

lemma meta_of_nat:
  assumes "n \<le> 16384" "0 < t" "t \<le> 64" "al = 64 \<or> al = 16"
  shows "meta_of (int n) (int t) (int al) = Some (of_nat (meta_len n t al))"
proof -
  let ?m = "(int n + (int t - 1)) div int t"
  have r: "MSM_MEDIA_ROUNDUP (int n) (int t) = Some ?m" "0 \<le> ?m" "?m \<le> int n + (int t - 1)"
    using MSM_MEDIA_ROUNDUP_ok [of "int n" "int t"] assms by simp_all
  have n: "nat ?m = (n + (t - 1)) div t"
  proof -
    have "int t - 1 = int (t - 1)" using assms(2) by simp
    then have "?m = int ((n + (t - 1)) div t)" by (simp only: zdiv_int of_nat_add)
    then show ?thesis by simp
  qed
  have "MSM_MEDIA_ALIGN_int ?m (int al) = Some (int (align_up (nat ?m) al))"
    using MSM_MEDIA_ALIGN_int_ok [of ?m] r(2,3) assms by auto
  then show ?thesis using r(1) n by (simp add: meta_of_def meta_len_def)
qed

lemma meta_len_le:
  assumes "n \<le> 16384" "0 < t" "t \<le> 64" "al = 64 \<or> al = 16"
  shows "meta_len n t al \<le> 17000"
proof -
  have "(n + (t - 1)) div t \<le> n + (t - 1)" by (rule div_le_dividend)
  moreover have "meta_len n t al < (n + (t - 1)) div t + al"
    unfolding meta_len_def using assms(4) by (intro align_up_bounds) auto
  ultimately show ?thesis using assms by linarith
qed

section \<open>The sizes as natural numbers\<close>

text \<open>Bytes of a line of the luma plane and of an RGB line, and the alignments.\<close>

fun line_bytes :: "color_fmts \<Rightarrow> nat \<Rightarrow> nat" where
  "line_bytes COLOR_FMT_NV12_BPP10_UBWC w = align_up w 192 * 4 div 3"
| "line_bytes COLOR_FMT_P010_UBWC w = 2 * w"
| "line_bytes COLOR_FMT_P010 w = 2 * w"
| "line_bytes COLOR_FMT_RGBA8888 w = 4 * w"
| "line_bytes COLOR_FMT_RGBA8888_UBWC w = 4 * w"
| "line_bytes COLOR_FMT_RGBA1010102_UBWC w = 4 * w"
| "line_bytes COLOR_FMT_RGB565_UBWC w = 2 * w"
| "line_bytes _ w = w"

fun is_rgb :: "color_fmts \<Rightarrow> bool" where
  "is_rgb f = (f \<in> {COLOR_FMT_RGBA8888, COLOR_FMT_RGBA8888_UBWC, COLOR_FMT_RGBA1010102_UBWC, COLOR_FMT_RGB565_UBWC})"

fun stride_align :: "color_fmts \<Rightarrow> nat" where
  "stride_align f = (if f \<in> {COLOR_FMT_NV12, COLOR_FMT_NV21, COLOR_FMT_NV12_MVTB, COLOR_FMT_NV12_UBWC, COLOR_FMT_P010, COLOR_FMT_RGBA8888}
     then 128 else 256)"

fun line_align :: "color_fmts \<Rightarrow> nat" where
  "line_align f = (if f \<in> {COLOR_FMT_NV12, COLOR_FMT_NV21, COLOR_FMT_NV12_MVTB, COLOR_FMT_NV12_UBWC, COLOR_FMT_P010, COLOR_FMT_RGBA8888}
     then 32 else 16)"

definition stride :: "color_fmts \<Rightarrow> nat \<Rightarrow> nat" where
  "stride f w = align_up (line_bytes f w) (stride_align f)"

definition lines :: "color_fmts \<Rightarrow> nat \<Rightarrow> nat" where
  "lines f h = align_up h (line_align f)"

definition uv_lines :: "color_fmts \<Rightarrow> nat \<Rightarrow> nat" where
  "uv_lines f h = align_up ((h + 1) div 2) (if f = COLOR_FMT_NV12_UBWC then 32 else 16)"

lemma stride_le:
  assumes "w \<le> 16384"
  shows "stride f w \<le> 66000" "\<not> is_rgb f \<Longrightarrow> stride f w \<le> 33100"
proof -
  have "align_up w 192 * 4 div 3 \<le> 22100"
    using align_up_bounds(2) [of 192 w] assms by linarith
  then have "line_bytes f w \<le> 65536 \<and> (\<not> is_rgb f \<longrightarrow> line_bytes f w \<le> 32768)" using assms by (cases f) auto
  moreover have "0 < stride_align f \<and> stride_align f \<le> 256" by simp
  ultimately show "stride f w \<le> 66000" "\<not> is_rgb f \<Longrightarrow> stride f w \<le> 33100"
    using align_up_bounds(2) [of "stride_align f" "line_bytes f w"] unfolding stride_def by linarith+
qed

lemma lines_le:
  assumes "h \<le> 16384"
  shows "lines f h \<le> 16416" "uv_lines f h \<le> 8225"
proof -
  have "0 < line_align f \<and> line_align f \<le> 32" by simp
  then show "lines f h \<le> 16416"
    using align_up_bounds(2) [of "line_align f" h] assms unfolding lines_def by linarith
  show "uv_lines f h \<le> 8225"
    using align_up_bounds(2) [of 32 "(h + 1) div 2"] align_up_bounds(2) [of 16 "(h + 1) div 2"] assms
    by (cases "f = COLOR_FMT_NV12_UBWC") (simp_all add: uv_lines_def)
qed

fun tile_width :: "color_fmts \<Rightarrow> nat" where
  "tile_width f = (if f = COLOR_FMT_NV12_BPP10_UBWC then 48 else if is_rgb f then 16 else 32)"

fun tile_height :: "color_fmts \<Rightarrow> nat" where
  "tile_height f = (if f = COLOR_FMT_NV12_UBWC then 8 else 4)"

definition meta_bytes :: "color_fmts \<Rightarrow> nat \<Rightarrow> nat \<Rightarrow> nat" where
  "meta_bytes f w h = meta_len w (tile_width f) 64 * meta_len h (tile_height f) 16"

definition uv_meta_bytes :: "color_fmts \<Rightarrow> nat \<Rightarrow> nat \<Rightarrow> nat" where
  "uv_meta_bytes f w h =
     meta_len ((w + 1) div 2) (tile_width f div 2) 64 * meta_len ((h + 1) div 2) (tile_height f) 16"

abbreviation page :: "nat \<Rightarrow> nat" where "page n \<equiv> align_up n 4096"

text \<open>The planes in the order of the layout; an interlaced or two-view format has them twice.\<close>

fun plane_bytes :: "color_fmts \<Rightarrow> nat \<Rightarrow> nat \<Rightarrow> nat list" where
  "plane_bytes f w h =
     (let s = stride f w;
          linear = [s * lines f h, s * uv_lines f h + 4096];
          ubwc = (\<lambda>h. [page (s * lines f h), page (s * uv_lines f h), page (meta_bytes f w h), page (uv_meta_bytes f w h)])
      in case f of
           COLOR_FMT_NV12 \<Rightarrow> linear | COLOR_FMT_NV21 \<Rightarrow> linear | COLOR_FMT_P010 \<Rightarrow> linear
         | COLOR_FMT_NV12_MVTB \<Rightarrow> linear @ linear
         | COLOR_FMT_NV12_UBWC \<Rightarrow> ubwc ((h + 1) div 2) @ ubwc ((h + 1) div 2)
         | COLOR_FMT_NV12_BPP10_UBWC \<Rightarrow> ubwc h | COLOR_FMT_P010_UBWC \<Rightarrow> ubwc h
         | COLOR_FMT_RGBA8888 \<Rightarrow> [page (s * lines f h)]
         | _ \<Rightarrow> [page (s * lines f h), page (meta_bytes f w h)])"

fun padding :: "color_fmts \<Rightarrow> nat \<Rightarrow> nat" where
  "padding f w =
     (case f of
        COLOR_FMT_NV12 \<Rightarrow> max 16384 (8 * stride f w) | COLOR_FMT_NV21 \<Rightarrow> max 16384 (8 * stride f w)
      | COLOR_FMT_P010 \<Rightarrow> max 16384 (8 * stride f w) | COLOR_FMT_NV12_MVTB \<Rightarrow> 16384
      | COLOR_FMT_NV12_UBWC \<Rightarrow> max 24576 (48 * stride f w)
      | COLOR_FMT_NV12_BPP10_UBWC \<Rightarrow> max 24576 (48 * stride f w)
      | _ \<Rightarrow> 0)"

definition large_frame :: "color_fmts \<Rightarrow> nat \<Rightarrow> nat \<Rightarrow> bool" where
  "large_frame f w h \<longleftrightarrow> f \<in> {COLOR_FMT_NV12, COLOR_FMT_NV21, COLOR_FMT_NV12_UBWC} \<and> 2400 \<le> w \<and> 2400 \<le> h"

definition buffer_bytes :: "color_fmts \<Rightarrow> nat \<Rightarrow> nat \<Rightarrow> nat" where
  "buffer_bytes f w h =
     (let n = page (sum_list (plane_bytes f w h) + padding f w)
      in if large_frame f w h then page (n + align_up w 512 * 512) else n)"

section \<open>The code computes these sizes\<close>

lemma half_of_nat: "n \<le> 16384 \<Longrightarrow> half (int n) = Some (int ((n + 1) div 2))"
  by (simp add: half_def drop_bit_eq_div in_i32_def zdiv_int add.commute)

lemma stride_code:
  assumes "0 < w" "w \<le> 16384"
  shows "VENUS_Y_STRIDE (Some f) (int w) = Some (if is_rgb f then 0 else of_nat (stride f w))"
    "VENUS_UV_STRIDE (Some f) (int w) = Some (if is_rgb f then 0 else of_nat (stride f w))"
    "VENUS_RGB_STRIDE (Some f) (int w) = Some (if is_rgb f then of_nat (stride f w) else 0)"
proof -
  have a: "align_up w 192 \<le> 16575" using align_up_bounds(2) [of 192 w] assms(2) by linarith
  have d: "(of_nat (align_up w 192) * 4 div 3 :: 32 word) = of_nat (align_up w 192 * 4 div 3)"
    using div_of_nat [of "align_up w 192 * 4" 3] a by simp
  have m: "(of_nat w * 2 :: 32 word) = of_nat (w * 2)" "(of_nat w * 4 :: 32 word) = of_nat (w * 4)" by simp_all
  have al: "MSM_MEDIA_ALIGN_int (int w) 192 = Some (int (align_up w 192))"
    using MSM_MEDIA_ALIGN_int_ok(1) [of "int w"] assms(2) by simp
  have i: "i32 (int w * 2) = Some (int (w * 2))" using assms(2) by (simp add: in_i32_def)
  show "VENUS_Y_STRIDE (Some f) (int w) = Some (if is_rgb f then 0 else of_nat (stride f w))"
    using assms a by (cases f; simp add: VENUS_Y_STRIDE_def fmt_in_def stride_def al d i m align_words mult.commute [of 2] del: of_nat_mult)
  show "VENUS_UV_STRIDE (Some f) (int w) = Some (if is_rgb f then 0 else of_nat (stride f w))"
    using assms a by (cases f; simp add: VENUS_UV_STRIDE_def fmt_in_def stride_def al d i m align_words mult.commute [of 2] del: of_nat_mult)
  show "VENUS_RGB_STRIDE (Some f) (int w) = Some (if is_rgb f then of_nat (stride f w) else 0)"
    using assms by (cases f; simp add: VENUS_RGB_STRIDE_def fmt_in_def stride_def m align_words mult.commute [of 2] mult.commute [of 4] del: of_nat_mult)
qed

lemma lines_code:
  assumes "0 < h" "h \<le> 16384"
  shows "VENUS_Y_SCANLINES (Some f) (int h) = Some (if is_rgb f then 0 else of_nat (lines f h))"
    "VENUS_UV_SCANLINES (Some f) (int h) = Some (if is_rgb f then 0 else of_nat (uv_lines f h))"
    "VENUS_RGB_SCANLINES (Some f) (int h) = Some (if is_rgb f then of_nat (lines f h) else 0)"
  using assms half_of_nat [OF assms(2)]
  by (cases f; simp add: VENUS_Y_SCANLINES_def VENUS_UV_SCANLINES_def VENUS_RGB_SCANLINES_def fmt_in_def lines_def
      uv_lines_def align_words)+

text \<open>The metadata of the compressed formats.\<close>

lemma meta_code:
  assumes "0 < n" "n \<le> 16384" "f \<in> {COLOR_FMT_NV12_UBWC, COLOR_FMT_NV12_BPP10_UBWC, COLOR_FMT_P010_UBWC}"
  shows "VENUS_Y_META_STRIDE (Some f) (int n) = Some (of_nat (meta_len n (tile_width f) 64))"
    "VENUS_Y_META_SCANLINES (Some f) (int n) = Some (of_nat (meta_len n (tile_height f) 16))"
    "VENUS_UV_META_STRIDE (Some f) (int n) = Some (of_nat (meta_len ((n + 1) div 2) (tile_width f div 2) 64))"
    "VENUS_UV_META_SCANLINES (Some f) (int n) = Some (of_nat (meta_len ((n + 1) div 2) (tile_height f) 16))"
proof -
  have h: "(n + 1) div 2 \<le> 16384" "half (int n) = Some (int ((n + 1) div 2))"
    using assms(2) half_of_nat by (linarith, simp)
  have ok: "meta_of (int m) (int t) (int al) = Some (of_nat (meta_len m t al))"
    if "m = n \<or> m = (n + 1) div 2" "0 < t" "t \<le> 64" "al = 64 \<or> al = 16" for m t al
    by (rule meta_of_nat [OF _ that(2-4)]) (use that(1) assms(2) h(1) in auto)
  note n = ok [of n] and u = ok [of "(n + 1) div 2"]
  show "VENUS_Y_META_STRIDE (Some f) (int n) = Some (of_nat (meta_len n (tile_width f) 64))"
    using assms(1,3) n [of 32 64] n [of 48 64] by (auto simp: VENUS_Y_META_STRIDE_def fmt_in_def)
  show "VENUS_Y_META_SCANLINES (Some f) (int n) = Some (of_nat (meta_len n (tile_height f) 16))"
    using assms(1,3) n [of 8 16] n [of 4 16] by (auto simp: VENUS_Y_META_SCANLINES_def fmt_in_def)
  show "VENUS_UV_META_STRIDE (Some f) (int n) = Some (of_nat (meta_len ((n + 1) div 2) (tile_width f div 2) 64))"
    using assms(1,3) h(2) u [of 16 64] u [of 24 64] by (auto simp: VENUS_UV_META_STRIDE_def fmt_in_def)
  show "VENUS_UV_META_SCANLINES (Some f) (int n) = Some (of_nat (meta_len ((n + 1) div 2) (tile_height f) 16))"
    using assms(1,3) h(2) u [of 8 16] u [of 4 16] by (auto simp: VENUS_UV_META_SCANLINES_def fmt_in_def)
qed

lemma rgb_meta_code:
  assumes "0 < n" "n \<le> 16384" "f \<in> {COLOR_FMT_RGBA8888_UBWC, COLOR_FMT_RGBA1010102_UBWC, COLOR_FMT_RGB565_UBWC}"
  shows "VENUS_RGB_META_STRIDE (Some f) (int n) = Some (of_nat (meta_len n (tile_width f) 64))"
    "VENUS_RGB_META_SCANLINES (Some f) (int n) = Some (of_nat (meta_len n (tile_height f) 16))"
  using assms(1,3) meta_of_nat [OF assms(2), of 16 64] meta_of_nat [OF assms(2), of 4 16]
  by (auto simp: VENUS_RGB_META_STRIDE_def VENUS_RGB_META_SCANLINES_def fmt_in_def)

lemma plane_le:
  assumes "w \<le> 16384" "h \<le> 16384"
  shows "stride f w * lines f h \<le> 66000 * 16416" "\<not> is_rgb f \<Longrightarrow> stride f w * lines f h \<le> 33100 * 16416"
    "\<not> is_rgb f \<Longrightarrow> stride f w * uv_lines f h \<le> 33100 * 8225"
    "meta_bytes f w h \<le> 17000 * 17000" "uv_meta_bytes f w h \<le> 17000 * 17000"
proof -
  note b = stride_le [OF assms(1)] lines_le [OF assms(2)]
  show "stride f w * lines f h \<le> 66000 * 16416" by (rule mult_le_mono) (use b in auto)
  show "stride f w * lines f h \<le> 33100 * 16416" if "\<not> is_rgb f" by (rule mult_le_mono) (use b that in auto)
  show "stride f w * uv_lines f h \<le> 33100 * 8225" if "\<not> is_rgb f" by (rule mult_le_mono) (use b that in auto)
  show "meta_bytes f w h \<le> 17000 * 17000"
    unfolding meta_bytes_def by (rule mult_le_mono; rule meta_len_le) (use assms in auto)
  have "(w + 1) div 2 \<le> 16384" "(h + 1) div 2 \<le> 16384" using assms by linarith+
  then show "uv_meta_bytes f w h \<le> 17000 * 17000"
    unfolding uv_meta_bytes_def by (intro mult_le_mono meta_len_le) (auto simp: is_rgb.simps)
qed

text \<open>The four planes of a compressed format.\<close>

lemma page_le: "n \<le> B \<Longrightarrow> page n \<le> B + 4095"
  using align_up_bounds(2) [of 4096 n] by linarith

lemma page_word: "n \<le> 2 ^ 31 \<Longrightarrow> MSM_MEDIA_ALIGN (of_nat n) 4096 = of_nat (page n)"
  using align_words(6) by simp

lemma ubwc_planes_code:
  assumes "0 < w" "w \<le> 16384" "0 < h" "h \<le> 16384"
    and "f \<in> {COLOR_FMT_NV12_UBWC, COLOR_FMT_NV12_BPP10_UBWC, COLOR_FMT_P010_UBWC}"
  defines "n \<equiv> page (stride f w * lines f h) + page (stride f w * uv_lines f h) + page (meta_bytes f w h)
    + page (uv_meta_bytes f w h)"
  shows "ubwc_planes (Some f) (int w) (int h) (of_nat (stride f w)) (of_nat (lines f h)) (of_nat (stride f w)) (of_nat (uv_lines f h))
    = Some (of_nat n)" "n \<le> stride f w * lines f h + stride f w * uv_lines f h + 580000000"
proof -
  have r: "\<not> is_rgb f" using assms(5) by auto
  note b = plane_le(2,3) [OF assms(2,4) r] plane_le(4,5) [OF assms(2,4), of f]
  show "n \<le> stride f w * lines f h + stride f w * uv_lines f h + 580000000"
    unfolding n_def using page_le [OF order_refl, of "stride f w * lines f h"] page_le [OF order_refl, of "stride f w * uv_lines f h"]
      page_le [OF b(3)] page_le [OF b(4)] by simp
  have "MSM_MEDIA_ALIGN (of_nat m) 4096 = of_nat (page m)" if "m \<le> 33100 * 16416" for m
    by (rule page_word) (use that in simp)
  note p = this [OF b(1)] page_word [OF order_trans [OF b(2)]] page_word [OF order_trans [OF b(3)]] page_word [OF order_trans [OF b(4)]]
  show "ubwc_planes (Some f) (int w) (int h) (of_nat (stride f w)) (of_nat (lines f h)) (of_nat (stride f w)) (of_nat (uv_lines f h))
    = Some (of_nat n)"
    using p meta_code [OF assms(1,2,5)] meta_code [OF assms(3,4,5)]
    by (simp add: ubwc_planes_def n_def meta_bytes_def uv_meta_bytes_def)
qed

lemma pad_word:
  "s \<le> 40000 \<Longrightarrow> MSM_MEDIA_MAX 16384 (8 * of_nat s) = of_nat (max 16384 (8 * s))"
  "s \<le> 40000 \<Longrightarrow> MSM_MEDIA_MAX 24576 (48 * of_nat s) = of_nat (max 24576 (48 * s))"
  using max_of_nat [of 16384 "8 * s"] max_of_nat [of 24576 "48 * s"] by simp_all

lemma nv12_size_code:
  assumes "s \<le> 33100" "s * l \<le> 33100 * 16416" "s * u \<le> 33100 * 8225"
  shows "nv12_size 16384 (of_nat s) (of_nat l) (of_nat s) (of_nat u)
    = of_nat (page (s * l + (s * u + 4096) + max 16384 (8 * s)))"
proof -
  have "nv12_size 16384 (of_nat s) (of_nat l) (of_nat s) (of_nat u)
      = MSM_MEDIA_ALIGN (of_nat (s * l + (s * u + 4096) + max 16384 (8 * s))) 4096"
    using assms(1) pad_word(1) [of s] by (simp add: nv12_size_def Let_def)
  then show ?thesis using assms page_word [of "s * l + (s * u + 4096) + max 16384 (8 * s)"] by simp
qed

lemma mvtb_size_code:
  assumes "s * l \<le> 33100 * 16416" "s * u \<le> 33100 * 8225"
  shows "mvtb_size 16384 (of_nat s) (of_nat l) (of_nat s) (of_nat u)
    = of_nat (page (2 * (s * l + (s * u + 4096)) + 16384))"
proof -
  have "mvtb_size 16384 (of_nat s) (of_nat l) (of_nat s) (of_nat u)
      = MSM_MEDIA_ALIGN (of_nat (2 * (s * l + (s * u + 4096)) + 16384)) 4096"
    by (simp add: mvtb_size_def Let_def)
  then show ?thesis using assms page_word [of "2 * (s * l + (s * u + 4096)) + 16384"] by simp
qed

lemma last_rows_code:
  assumes "w \<le> 16384" "n \<le> 2000000000"
  shows "last_rows (int w) (int h) (of_nat n)
    = of_nat (if 2400 \<le> w \<and> 2400 \<le> h then page (n + align_up w 512 * 512) else n)"
proof -
  have "align_up w 512 \<le> 16895" using align_up_bounds(2) [of 512 w] assms(1) by linarith
  then have "MSM_MEDIA_ALIGN (of_nat (n + align_up w 512 * 512)) 4096 = of_nat (page (n + align_up w 512 * 512))"
    using assms(2) by (intro page_word) simp
  then show ?thesis using assms(1) align_words(5) [of w] by (simp add: last_rows_def)
qed

lemma interlaced_le:
  assumes "w \<le> 16384" "h \<le> 16384"
  shows "stride COLOR_FMT_NV12_UBWC w * lines COLOR_FMT_NV12_UBWC ((h + 1) div 2) \<le> 16600 * 8300"
    "stride COLOR_FMT_NV12_UBWC w * uv_lines COLOR_FMT_NV12_UBWC ((h + 1) div 2) \<le> 16600 * 4200"
proof -
  have "stride COLOR_FMT_NV12_UBWC w \<le> 16600"
    using align_up_bounds(2) [of 128 w] assms(1) by (simp add: stride_def)
  moreover have "lines COLOR_FMT_NV12_UBWC ((h + 1) div 2) \<le> 8300"
    using align_up_bounds(2) [of 32 "(h + 1) div 2"] assms(2) by (simp add: lines_def)
  moreover have "uv_lines COLOR_FMT_NV12_UBWC ((h + 1) div 2) \<le> 4200"
    using align_up_bounds(2) [of 32 "((h + 1) div 2 + 1) div 2"] assms(2) by (simp add: uv_lines_def)
  ultimately show "stride COLOR_FMT_NV12_UBWC w * lines COLOR_FMT_NV12_UBWC ((h + 1) div 2) \<le> 16600 * 8300"
    "stride COLOR_FMT_NV12_UBWC w * uv_lines COLOR_FMT_NV12_UBWC ((h + 1) div 2) \<le> 16600 * 4200"
    by (blast intro: mult_le_mono)+
qed

text \<open>One lemma for each group of formats.\<close>

lemmas buffer_calls = VENUS_BUFFER_SIZE_def VENUS_EXTRADATA_SIZE_def Let_def stride_code lines_code fmt_in_def

lemma last_rows_le: "w \<le> 16384 \<Longrightarrow> n \<le> 2000000000 \<Longrightarrow> page (n + align_up w 512 * 512) < 2 ^ 32"
  using align_up_bounds(2) [of 512 w] align_up_bounds(2) [of 4096 "n + align_up w 512 * 512"] by simp

lemma buffer_linear:
  assumes "0 < w" "w \<le> 16384" "0 < h" "h \<le> 16384"
    and "f \<in> {COLOR_FMT_NV12, COLOR_FMT_NV21, COLOR_FMT_P010, COLOR_FMT_NV12_MVTB}"
  shows "VENUS_BUFFER_SIZE (Some f) (int w) (int h) = Some (of_nat (buffer_bytes f w h)) \<and> buffer_bytes f w h < 2 ^ 32"
proof -
  have r: "\<not> is_rgb f" using assms(5) by auto
  note b = stride_le(2) [OF assms(2) r] plane_le(2,3) [OF assms(2,4) r]
  let ?y = "stride f w * lines f h" and ?u = "stride f w * uv_lines f h"
  let ?n = "page (?y + (?u + 4096) + max 16384 (8 * stride f w))" and ?m = "page (2 * (?y + (?u + 4096)) + 16384)"
  have n: "?n \<le> 2000000000" using page_le [OF order_refl, of "?y + (?u + 4096) + max 16384 (8 * stride f w)"] b by simp
  have m: "?m < 2 ^ 32" using page_le [OF order_refl, of "2 * (?y + (?u + 4096)) + 16384"] b by simp
  note codes = nv12_size_code [OF b] mvtb_size_code [OF b(2,3)] last_rows_code [OF assms(2) n, of h]
  have "?n < 2 ^ 32" using n by simp
  then show ?thesis
    using assms codes last_rows_le [OF assms(2) n] m
    by (elim insertE emptyE)
      (simp_all add: buffer_calls buffer_bytes_def large_frame_def add.assoc algebra_simps)
qed

lemma page_page [simp]: "page (page n) = page n"
  by (rule align_up_idem) (simp_all add: align_up_bounds)

lemma page_add [simp]: "page (page m + page n) = page m + page n"
  by (rule align_up_idem) (simp_all add: align_up_bounds)

lemma buffer_rgb:
  assumes "0 < w" "w \<le> 16384" "0 < h" "h \<le> 16384" "is_rgb f"
  shows "VENUS_BUFFER_SIZE (Some f) (int w) (int h) = Some (of_nat (buffer_bytes f w h)) \<and> buffer_bytes f w h < 2 ^ 32"
proof -
  let ?y = "stride f w * lines f h" and ?m = "meta_bytes f w h"
  note b = plane_le(1,4) [OF assms(2,4), of f]
  have p: "MSM_MEDIA_ALIGN (of_nat (stride f w) * of_nat (lines f h)) 4096 = of_nat (page ?y)"
    "MSM_MEDIA_ALIGN (of_nat (meta_len w (tile_width f) 64) * of_nat (meta_len h (tile_height f) 16)) 4096 = of_nat (page ?m)"
    using page_word [of ?y] page_word [of ?m] b by (simp_all add: meta_bytes_def)
  have l: "page ?y \<le> 66000 * 16416 + 4095" "page ?m \<le> 17000 * 17000 + 4095" using page_le b by blast+
  have q: "MSM_MEDIA_ALIGN (of_nat (page ?y)) 4096 = of_nat (page ?y)"
    "MSM_MEDIA_ALIGN (of_nat (page ?y) + of_nat (page ?m)) 4096 = of_nat (page ?y + page ?m)"
    using page_word [of "page ?y"] page_word [of "page ?y + page ?m"] l by simp_all
  show ?thesis
    using assms rgb_meta_code [OF assms(1,2)] rgb_meta_code [OF assms(3,4)] p q l
    by (cases f) (simp_all add: buffer_calls buffer_bytes_def large_frame_def)
qed

lemma buffer_ubwc:
  assumes "0 < w" "w \<le> 16384" "0 < h" "h \<le> 16384"
    and "f \<in> {COLOR_FMT_NV12_BPP10_UBWC, COLOR_FMT_P010_UBWC}"
  shows "VENUS_BUFFER_SIZE (Some f) (int w) (int h) = Some (of_nat (buffer_bytes f w h)) \<and> buffer_bytes f w h < 2 ^ 32"
proof -
  have r: "\<not> is_rgb f" and f: "f \<in> {COLOR_FMT_NV12_UBWC, COLOR_FMT_NV12_BPP10_UBWC, COLOR_FMT_P010_UBWC}"
    using assms(5) by auto
  let ?n = "page (stride f w * lines f h) + page (stride f w * uv_lines f h) + page (meta_bytes f w h)
    + page (uv_meta_bytes f w h)" and ?p = "max 24576 (48 * stride f w)"
  note b = stride_le(2) [OF assms(2) r] plane_le(2,3) [OF assms(2,4) r]
  note u = ubwc_planes_code [OF assms(1-4) f]
  have n: "?n \<le> 1400000000" using u(2) b by simp
  have "?p \<le> 1600000" using b(1) by simp
  then have np: "?n + ?p \<le> 1500000000" using n by linarith
  have "MSM_MEDIA_ALIGN (of_nat m) 4096 = of_nat (page m) \<and> page m < 2 ^ 32" if "m \<le> 1500000000" for m
    using page_word [of m] page_le [OF that] that by simp
  note w = this [OF np] this [OF order_trans [OF n]]
  show ?thesis
  proof (cases "f = COLOR_FMT_P010_UBWC")
    case True
    have "sum_list (plane_bytes f w h) + padding f w = ?n" using True by (simp add: Let_def)
    then have "buffer_bytes f w h = page ?n" using True by (simp only: buffer_bytes_def Let_def large_frame_def) simp
    moreover have "VENUS_BUFFER_SIZE (Some f) (int w) (int h) = Some (MSM_MEDIA_ALIGN (of_nat ?n) 4096)"
      using assms(1-4) True u(1) by (simp add: VENUS_BUFFER_SIZE_def Let_def stride_code lines_code) (simp add: fmt_in_def)
    ultimately show ?thesis using w(2) by simp
  next
    case False
    then show ?thesis
      using assms(1-5) u(1) w pad_word(2) [of "stride f w"] b(1)
      by (elim insertE emptyE) (simp_all add: buffer_calls buffer_bytes_def large_frame_def add.assoc)
  qed
qed

lemma buffer_interlaced:
  assumes "0 < w" "w \<le> 16384" "0 < h" "h \<le> 16384"
  shows "VENUS_BUFFER_SIZE (Some COLOR_FMT_NV12_UBWC) (int w) (int h)
      = Some (of_nat (buffer_bytes COLOR_FMT_NV12_UBWC w h)) \<and> buffer_bytes COLOR_FMT_NV12_UBWC w h < 2 ^ 32"
proof -
  let ?f = COLOR_FMT_NV12_UBWC and ?h = "(h + 1) div 2"
  let ?n = "page (stride ?f w * lines ?f ?h) + page (stride ?f w * uv_lines ?f ?h) + page (meta_bytes ?f w ?h)
    + page (uv_meta_bytes ?f w ?h)" and ?p = "max 24576 (48 * stride ?f w)"
  have h: "0 < ?h" "?h \<le> 16384" using assms(3,4) by linarith+
  note u = ubwc_planes_code [OF assms(1,2) h, of ?f, simplified]
  have s: "stride ?f w \<le> 33100" by (rule stride_le(2) [OF assms(2)]) simp
  have "?p \<le> 1600000" using s by simp
  moreover have "?n \<le> 800000000" using u(2) interlaced_le [OF assms(2,4)] by simp
  moreover have "a * 2 + b \<le> 1990000000" if "b \<le> 1600000" "a \<le> 800000000" for a b :: nat using that by linarith
  ultimately have n: "?n * 2 + ?p \<le> 1990000000" by blast
  then have p: "page (?n * 2 + ?p) \<le> 2000000000" using page_le [OF n] by simp
  have w: "MSM_MEDIA_ALIGN (of_nat (?n * 2 + ?p)) 4096 = of_nat (page (?n * 2 + ?p))"
    using n by (intro page_word) simp
  note codes = last_rows_code [OF assms(2) p, of h] last_rows_le [OF assms(2) p]
  have b: "buffer_bytes ?f w h = (if 2400 \<le> w \<and> 2400 \<le> h then page (page (?n * 2 + ?p) + align_up w 512 * 512)
      else page (?n * 2 + ?p))"
  proof -
    have "sum_list (plane_bytes ?f w h) = ?n * 2" by (simp add: Let_def)
    then show ?thesis by (simp only: buffer_bytes_def Let_def large_frame_def) simp
  qed
  have "VENUS_BUFFER_SIZE (Some ?f) (int w) (int h) =
      Some (last_rows (int w) (int h) (MSM_MEDIA_ALIGN (of_nat ?n * 2 + MSM_MEDIA_MAX 24576 (48 * of_nat (stride ?f w))) 4096))"
    using assms u(1) half_of_nat [OF assms(4)] h
    by (simp add: VENUS_BUFFER_SIZE_def VENUS_EXTRADATA_SIZE_def Let_def stride_code lines_code lines_code [OF h, simplified] fmt_in_def)
  also have "\<dots> = Some (last_rows (int w) (int h) (of_nat (page (?n * 2 + ?p))))"
    using pad_word(2) [of "stride ?f w"] s by (simp only: w [symmetric] of_nat_add of_nat_mult of_nat_numeral)
  finally show ?thesis using codes p unfolding b by simp
qed

lemma buffer_code:
  assumes "0 < w" "w \<le> 16384" "0 < h" "h \<le> 16384"
  shows "VENUS_BUFFER_SIZE (Some f) (int w) (int h) = Some (of_nat (buffer_bytes f w h)) \<and> buffer_bytes f w h < 2 ^ 32"
  using buffer_linear [OF assms, of f] buffer_rgb [OF assms, of f] buffer_ubwc [OF assms, of f] buffer_interlaced [OF assms]
  by (cases f) auto

lemma buffer_bytes_planes:
  "sum_list (plane_bytes f w h) \<le> buffer_bytes f w h" "4096 dvd buffer_bytes f w h"
  "f \<in> {COLOR_FMT_NV12, COLOR_FMT_NV21, COLOR_FMT_NV12_MVTB, COLOR_FMT_P010} \<Longrightarrow>
    stride f w * lines f h + stride f w * uv_lines f h \<le> buffer_bytes f w h"
proof -
  let ?n = "sum_list (plane_bytes f w h) + padding f w"
  have "page ?n \<le> page (page ?n + align_up w 512 * 512)"
    using align_up_bounds(1) [of 4096 "page ?n + align_up w 512 * 512"] by linarith
  then have "page ?n \<le> buffer_bytes f w h" by (simp add: buffer_bytes_def Let_def del: plane_bytes.simps padding.simps)
  then show 1: "sum_list (plane_bytes f w h) \<le> buffer_bytes f w h"
    using align_up_bounds(1) [of 4096 ?n] by linarith
  show "4096 dvd buffer_bytes f w h"
    by (simp add: buffer_bytes_def Let_def align_up_bounds del: plane_bytes.simps padding.simps)
  assume "f \<in> {COLOR_FMT_NV12, COLOR_FMT_NV21, COLOR_FMT_NV12_MVTB, COLOR_FMT_P010}"
  then have "stride f w * lines f h + stride f w * uv_lines f h \<le> sum_list (plane_bytes f w h)" by (auto simp: Let_def)
  then show "stride f w * lines f h + stride f w * uv_lines f h \<le> buffer_bytes f w h" using 1 by linarith
qed

section \<open>Properties\<close>



text \<open>
  C40. The planes lie inside the buffer. For a linear format the lines of the luma plane, as long
  and as many as the code says, and then those of the chroma plane, fit in the size the code
  says, every line has room for its pixels, and the size is a number of whole pages.
\<close>

theorem VENUS_planes_fit:
  assumes "0 < w" "w \<le> 16384" "0 < h" "h \<le> 16384"
    and "f \<in> {COLOR_FMT_NV12, COLOR_FMT_NV21, COLOR_FMT_NV12_MVTB, COLOR_FMT_P010}"
  shows "\<exists>ys yl us ul s. VENUS_Y_STRIDE (Some f) (int w) = Some ys \<and> VENUS_Y_SCANLINES (Some f) (int h) = Some yl
    \<and> VENUS_UV_STRIDE (Some f) (int w) = Some us \<and> VENUS_UV_SCANLINES (Some f) (int h) = Some ul
    \<and> VENUS_BUFFER_SIZE (Some f) (int w) (int h) = Some s
    \<and> line_bytes f w \<le> unat ys \<and> h \<le> unat yl \<and> line_bytes f w \<le> unat us \<and> (h + 1) div 2 \<le> unat ul
    \<and> unat ys * unat yl + unat us * unat ul \<le> unat s \<and> 4096 dvd unat s"
proof -
  have r: "\<not> is_rgb f" using assms(5) by auto
  have u: "unat (of_nat (stride f w) :: 32 word) = stride f w" "unat (of_nat (lines f h) :: 32 word) = lines f h"
    "unat (of_nat (uv_lines f h) :: 32 word) = uv_lines f h"
    using stride_le(2) [OF assms(2) r] lines_le [OF assms(4), of f] by (simp_all add: unat_of_nat)
  have "line_bytes f w \<le> stride f w" "h \<le> lines f h" "(h + 1) div 2 \<le> uv_lines f h"
    by (simp_all add: stride_def lines_def uv_lines_def align_up_bounds)
  then show ?thesis
    using assms r u buffer_code [OF assms(1-4), of f] buffer_bytes_planes [of f w h]
    by (simp add: stride_code lines_code unat_of_nat)
qed

theorem VENUS_planes_fit_witness:
  "\<exists>ys yl us ul s. VENUS_Y_STRIDE (Some COLOR_FMT_NV12) 1920 = Some ys \<and> VENUS_Y_SCANLINES (Some COLOR_FMT_NV12) 1080 = Some yl
    \<and> VENUS_UV_STRIDE (Some COLOR_FMT_NV12) 1920 = Some us \<and> VENUS_UV_SCANLINES (Some COLOR_FMT_NV12) 1080 = Some ul
    \<and> VENUS_BUFFER_SIZE (Some COLOR_FMT_NV12) 1920 1080 = Some s
    \<and> 1920 \<le> unat ys \<and> 1080 \<le> unat yl \<and> 1920 \<le> unat us \<and> 540 \<le> unat ul
    \<and> unat ys * unat yl + unat us * unat ul \<le> unat s \<and> 4096 dvd unat s"
  using VENUS_planes_fit [of 1920 1080 COLOR_FMT_NV12] by simp

text \<open>
  The second view of a multi-view frame starts where the first one ends, and as much room as
  the first one has is left for it in the buffer.
\<close>

theorem VENUS_VIEW2_fits:
  assumes "0 < w" "w \<le> 16384" "0 < h" "h \<le> 16384"
  shows "\<exists>off s. VENUS_VIEW2_OFFSET (Some COLOR_FMT_NV12_MVTB) (int w) (int h) = Some off
    \<and> VENUS_BUFFER_SIZE (Some COLOR_FMT_NV12_MVTB) (int w) (int h) = Some s
    \<and> unat off = stride COLOR_FMT_NV12_MVTB w * (lines COLOR_FMT_NV12_MVTB h + uv_lines COLOR_FMT_NV12_MVTB h)
    \<and> 2 * unat off \<le> unat s"
proof -
  let ?f = COLOR_FMT_NV12_MVTB
  let ?n = "stride ?f w * (lines ?f h + uv_lines ?f h)"
  have "?n \<le> 33100 * 16416 + 33100 * 8225"
    using plane_le(2,3) [OF assms(2,4), of ?f] by (simp add: distrib_left)
  then have u: "unat (of_nat ?n :: 32 word) = ?n" unfolding unat_of_nat by simp
  have "VENUS_VIEW2_OFFSET (Some ?f) (int w) (int h) = Some (of_nat ?n)"
    using assms by (simp add: VENUS_VIEW2_OFFSET_def fmt_in_def stride_code lines_code distrib_left)
  moreover have "2 * ?n \<le> buffer_bytes ?f w h"
    using buffer_bytes_planes(1) [of ?f w h] by (simp add: Let_def algebra_simps)
  ultimately show ?thesis using buffer_code [OF assms, of ?f] u by (simp add: unat_of_nat)
qed

theorem VENUS_VIEW2_fits_witness:
  "\<exists>off s. VENUS_VIEW2_OFFSET (Some COLOR_FMT_NV12_MVTB) 1920 1080 = Some off
    \<and> VENUS_BUFFER_SIZE (Some COLOR_FMT_NV12_MVTB) 1920 1080 = Some s \<and> unat off = 3133440 \<and> 2 * unat off \<le> unat s"
  using VENUS_VIEW2_fits [of 1920 1080] by (simp add: stride_def lines_def uv_lines_def align_up_def)

text \<open>Beyond the bound the size wraps: this frame of 4 GiB gets an empty buffer.\<close>

lemma VENUS_BUFFER_SIZE_wraps: "VENUS_BUFFER_SIZE (Some COLOR_FMT_RGBA8888) 32768 32768 = Some 0"
  by (simp add: VENUS_BUFFER_SIZE_def VENUS_EXTRADATA_SIZE_def Let_def fmt_in_def VENUS_Y_STRIDE_def VENUS_UV_STRIDE_def
      VENUS_Y_SCANLINES_def VENUS_UV_SCANLINES_def VENUS_RGB_STRIDE_def VENUS_RGB_SCANLINES_def MSM_MEDIA_ALIGN_def)

end
