(* ===== verification/Hdmi_Modes.thy ===== *)
theory Hdmi_Modes
  imports C_Prelude
begin

text \<open>
  The video modes of HDMI (\<open>sdm845/kernel-headers/video/msm_hdmi_modes.h\<close>): the numbers of the formats,
  the timing of each, and the macros that fill a table of timings indexed by the number. A number is a
  constant \<open>int\<close>, here a \<open>nat\<close>; the fields of a timing are \<open>uint32_t\<close>, \<open>true\<close> and \<open>false\<close> are 1 and 0.
  Only numbers that a timing or the size of the table needs are given.
\<close>

section \<open>Timings\<close>

datatype aspect_ratio =
    HDMI_RES_AR_INVALID | HDMI_RES_AR_4_3 | HDMI_RES_AR_5_4 | HDMI_RES_AR_16_9 | HDMI_RES_AR_16_10
  | HDMI_RES_AR_64_27 | HDMI_RES_AR_256_135 | HDMI_RES_AR_MAX

record msm_hdmi_mode_timing_info =
  video_format :: "32 word"
  active_h :: "32 word"
  front_porch_h :: "32 word"
  pulse_width_h :: "32 word"
  back_porch_h :: "32 word"
  active_low_h :: "32 word"
  active_v :: "32 word"
  front_porch_v :: "32 word"
  pulse_width_v :: "32 word"
  back_porch_v :: "32 word"
  active_low_v :: "32 word"
  pixel_freq :: "32 word"
  refresh_rate :: "32 word"
  interlaced :: "32 word"
  supported :: "32 word"
  ar :: aspect_ratio
  pixel_formats :: "32 word"

text \<open>The initializer of a timing, in the order of the fields.\<close>

definition timing_info where
  "timing_info vf ah fh pwh bh lh av fv pwv bv lv pf rr il s a px = \<lparr>video_format = word_of_nat vf,
     active_h = ah, front_porch_h = fh, pulse_width_h = pwh, back_porch_h = bh, active_low_h = lh,
     active_v = av, front_porch_v = fv, pulse_width_v = pwv, back_porch_v = bv, active_low_v = lv,
     pixel_freq = pf, refresh_rate = rr, interlaced = il, supported = s, ar = a, pixel_formats = px\<rparr>"

section \<open>Numbers\<close>

definition HDMI_VFRMT_640x480p60_4_3 :: nat where "HDMI_VFRMT_640x480p60_4_3 = 1"
definition HDMI_VFRMT_720x480p60_4_3 :: nat where "HDMI_VFRMT_720x480p60_4_3 = 2"
definition HDMI_VFRMT_720x480p60_16_9 :: nat where "HDMI_VFRMT_720x480p60_16_9 = 3"
definition HDMI_VFRMT_1280x720p60_16_9 :: nat where "HDMI_VFRMT_1280x720p60_16_9 = 4"
definition HDMI_VFRMT_1920x1080i60_16_9 :: nat where "HDMI_VFRMT_1920x1080i60_16_9 = 5"
definition HDMI_VFRMT_720x480i60_4_3 :: nat where "HDMI_VFRMT_720x480i60_4_3 = 6"
definition HDMI_VFRMT_1440x480i60_4_3 :: nat where "HDMI_VFRMT_1440x480i60_4_3 = HDMI_VFRMT_720x480i60_4_3"
definition HDMI_VFRMT_720x480i60_16_9 :: nat where "HDMI_VFRMT_720x480i60_16_9 = 7"
definition HDMI_VFRMT_1440x480i60_16_9 :: nat where "HDMI_VFRMT_1440x480i60_16_9 = HDMI_VFRMT_720x480i60_16_9"
definition HDMI_VFRMT_1920x1080p60_16_9 :: nat where "HDMI_VFRMT_1920x1080p60_16_9 = 16"
definition HDMI_VFRMT_720x576p50_4_3 :: nat where "HDMI_VFRMT_720x576p50_4_3 = 17"
definition HDMI_VFRMT_720x576p50_16_9 :: nat where "HDMI_VFRMT_720x576p50_16_9 = 18"
definition HDMI_VFRMT_1280x720p50_16_9 :: nat where "HDMI_VFRMT_1280x720p50_16_9 = 19"
definition HDMI_VFRMT_720x576i50_4_3 :: nat where "HDMI_VFRMT_720x576i50_4_3 = 21"
definition HDMI_VFRMT_1440x576i50_4_3 :: nat where "HDMI_VFRMT_1440x576i50_4_3 = HDMI_VFRMT_720x576i50_4_3"
definition HDMI_VFRMT_720x576i50_16_9 :: nat where "HDMI_VFRMT_720x576i50_16_9 = 22"
definition HDMI_VFRMT_1440x576i50_16_9 :: nat where "HDMI_VFRMT_1440x576i50_16_9 = HDMI_VFRMT_720x576i50_16_9"
definition HDMI_VFRMT_1920x1080p50_16_9 :: nat where "HDMI_VFRMT_1920x1080p50_16_9 = 31"
definition HDMI_VFRMT_1920x1080p24_16_9 :: nat where "HDMI_VFRMT_1920x1080p24_16_9 = 32"
definition HDMI_VFRMT_1920x1080p25_16_9 :: nat where "HDMI_VFRMT_1920x1080p25_16_9 = 33"
definition HDMI_VFRMT_1920x1080p30_16_9 :: nat where "HDMI_VFRMT_1920x1080p30_16_9 = 34"
definition HDMI_VFRMT_3840x2160p24_16_9 :: nat where "HDMI_VFRMT_3840x2160p24_16_9 = 93"
definition HDMI_VFRMT_3840x2160p25_16_9 :: nat where "HDMI_VFRMT_3840x2160p25_16_9 = 94"
definition HDMI_VFRMT_3840x2160p30_16_9 :: nat where "HDMI_VFRMT_3840x2160p30_16_9 = 95"
definition HDMI_VFRMT_3840x2160p50_16_9 :: nat where "HDMI_VFRMT_3840x2160p50_16_9 = 96"
definition HDMI_VFRMT_3840x2160p60_16_9 :: nat where "HDMI_VFRMT_3840x2160p60_16_9 = 97"
definition HDMI_VFRMT_4096x2160p24_256_135 :: nat where "HDMI_VFRMT_4096x2160p24_256_135 = 98"
definition HDMI_VFRMT_4096x2160p25_256_135 :: nat where "HDMI_VFRMT_4096x2160p25_256_135 = 99"
definition HDMI_VFRMT_4096x2160p30_256_135 :: nat where "HDMI_VFRMT_4096x2160p30_256_135 = 100"
definition HDMI_VFRMT_4096x2160p50_256_135 :: nat where "HDMI_VFRMT_4096x2160p50_256_135 = 101"
definition HDMI_VFRMT_4096x2160p60_256_135 :: nat where "HDMI_VFRMT_4096x2160p60_256_135 = 102"
definition HDMI_VFRMT_3840x2160p24_64_27 :: nat where "HDMI_VFRMT_3840x2160p24_64_27 = 103"
definition HDMI_VFRMT_3840x2160p25_64_27 :: nat where "HDMI_VFRMT_3840x2160p25_64_27 = 104"
definition HDMI_VFRMT_3840x2160p30_64_27 :: nat where "HDMI_VFRMT_3840x2160p30_64_27 = 105"
definition HDMI_VFRMT_3840x2160p50_64_27 :: nat where "HDMI_VFRMT_3840x2160p50_64_27 = 106"
definition HDMI_VFRMT_3840x2160p60_64_27 :: nat where "HDMI_VFRMT_3840x2160p60_64_27 = 107"
definition HDMI_VFRMT_END :: nat where "HDMI_VFRMT_END = 127"
definition EVFRMT_OFF :: "nat \<Rightarrow> nat" where "EVFRMT_OFF x = HDMI_VFRMT_END + x"
definition HDMI_EVFRMT_3840x2160p30_16_9 :: nat where "HDMI_EVFRMT_3840x2160p30_16_9 = EVFRMT_OFF 1"
definition HDMI_EVFRMT_3840x2160p25_16_9 :: nat where "HDMI_EVFRMT_3840x2160p25_16_9 = EVFRMT_OFF 2"
definition HDMI_EVFRMT_3840x2160p24_16_9 :: nat where "HDMI_EVFRMT_3840x2160p24_16_9 = EVFRMT_OFF 3"
definition HDMI_EVFRMT_4096x2160p24_16_9 :: nat where "HDMI_EVFRMT_4096x2160p24_16_9 = EVFRMT_OFF 4"
definition HDMI_EVFRMT_END :: nat where "HDMI_EVFRMT_END = HDMI_EVFRMT_4096x2160p24_16_9"
definition WQXGA_OFF :: "nat \<Rightarrow> nat" where "WQXGA_OFF x = HDMI_EVFRMT_END + x"
definition HDMI_VFRMT_2560x1600p60_16_9 :: nat where "HDMI_VFRMT_2560x1600p60_16_9 = WQXGA_OFF 1"
definition HDMI_WQXGAFRMT_END :: nat where "HDMI_WQXGAFRMT_END = HDMI_VFRMT_2560x1600p60_16_9"
definition WXGA_OFF :: "nat \<Rightarrow> nat" where "WXGA_OFF x = HDMI_WQXGAFRMT_END + x"
definition HDMI_VFRMT_1280x800p60_16_10 :: nat where "HDMI_VFRMT_1280x800p60_16_10 = WXGA_OFF 1"
definition HDMI_VFRMT_1366x768p60_16_10 :: nat where "HDMI_VFRMT_1366x768p60_16_10 = WXGA_OFF 2"
definition HDMI_WXGAFRMT_END :: nat where "HDMI_WXGAFRMT_END = HDMI_VFRMT_1366x768p60_16_10"
definition ETI_OFF :: "nat \<Rightarrow> nat" where "ETI_OFF x = HDMI_WXGAFRMT_END + x"
definition HDMI_VFRMT_800x600p60_4_3 :: nat where "HDMI_VFRMT_800x600p60_4_3 = ETI_OFF 1"
definition ETI_VFRMT_END :: nat where "ETI_VFRMT_END = HDMI_VFRMT_800x600p60_4_3"
definition ETII_OFF :: "nat \<Rightarrow> nat" where "ETII_OFF x = ETI_VFRMT_END + x"
definition HDMI_VFRMT_1024x768p60_4_3 :: nat where "HDMI_VFRMT_1024x768p60_4_3 = ETII_OFF 1"
definition HDMI_VFRMT_1280x1024p60_5_4 :: nat where "HDMI_VFRMT_1280x1024p60_5_4 = ETII_OFF 2"
definition ETII_VFRMT_END :: nat where "ETII_VFRMT_END = HDMI_VFRMT_1280x1024p60_5_4"
definition ETIII_OFF :: "nat \<Rightarrow> nat" where "ETIII_OFF x = ETII_VFRMT_END + x"
definition HDMI_VFRMT_848x480p60_16_9 :: nat where "HDMI_VFRMT_848x480p60_16_9 = ETIII_OFF 1"
definition HDMI_VFRMT_1280x960p60_4_3 :: nat where "HDMI_VFRMT_1280x960p60_4_3 = ETIII_OFF 2"
definition HDMI_VFRMT_1360x768p60_16_9 :: nat where "HDMI_VFRMT_1360x768p60_16_9 = ETIII_OFF 3"
definition HDMI_VFRMT_1440x900p60_16_10 :: nat where "HDMI_VFRMT_1440x900p60_16_10 = ETIII_OFF 4"
definition HDMI_VFRMT_1400x1050p60_4_3 :: nat where "HDMI_VFRMT_1400x1050p60_4_3 = ETIII_OFF 5"
definition HDMI_VFRMT_1680x1050p60_16_10 :: nat where "HDMI_VFRMT_1680x1050p60_16_10 = ETIII_OFF 6"
definition HDMI_VFRMT_1600x1200p60_4_3 :: nat where "HDMI_VFRMT_1600x1200p60_4_3 = ETIII_OFF 7"
definition HDMI_VFRMT_1920x1200p60_16_10 :: nat where "HDMI_VFRMT_1920x1200p60_16_10 = ETIII_OFF 8"
definition ETIII_VFRMT_END :: nat where "ETIII_VFRMT_END = HDMI_VFRMT_1920x1200p60_16_10"
definition RESERVE_OFF :: "nat \<Rightarrow> nat" where "RESERVE_OFF x = ETIII_VFRMT_END + x"
definition HDMI_VFRMT_RESERVE8 :: nat where "HDMI_VFRMT_RESERVE8 = RESERVE_OFF 8"
definition RESERVE_VFRMT_END :: nat where "RESERVE_VFRMT_END = HDMI_VFRMT_RESERVE8"
definition HDMI_VFRMT_MAX :: nat where "HDMI_VFRMT_MAX = RESERVE_VFRMT_END + 1"

definition VFRMT_NOT_SUPPORTED :: "nat \<Rightarrow> msm_hdmi_mode_timing_info" where
  "VFRMT_NOT_SUPPORTED VFRMT = timing_info VFRMT 0 0 0 0 0 0 0 0 0 0 0 0 0 0 HDMI_RES_AR_INVALID 0"

section \<open>The timing of each mode\<close>

definition HDMI_VFRMT_640x480p60_4_3_TIMING :: msm_hdmi_mode_timing_info where
  "HDMI_VFRMT_640x480p60_4_3_TIMING = timing_info HDMI_VFRMT_640x480p60_4_3 640 16 96 48 1 480 10 2 33 1 25200 60000 0 1 HDMI_RES_AR_4_3 0"
definition HDMI_VFRMT_720x480p60_4_3_TIMING :: msm_hdmi_mode_timing_info where
  "HDMI_VFRMT_720x480p60_4_3_TIMING = timing_info HDMI_VFRMT_720x480p60_4_3 720 16 62 60 1 480 9 6 30 1 27027 60000 0 1 HDMI_RES_AR_4_3 0"
definition HDMI_VFRMT_720x480p60_16_9_TIMING :: msm_hdmi_mode_timing_info where
  "HDMI_VFRMT_720x480p60_16_9_TIMING = timing_info HDMI_VFRMT_720x480p60_16_9 720 16 62 60 1 480 9 6 30 1 27027 60000 0 1 HDMI_RES_AR_16_9 0"
definition HDMI_VFRMT_1280x720p60_16_9_TIMING :: msm_hdmi_mode_timing_info where
  "HDMI_VFRMT_1280x720p60_16_9_TIMING = timing_info HDMI_VFRMT_1280x720p60_16_9 1280 110 40 220 0 720 5 5 20 0 74250 60000 0 1 HDMI_RES_AR_16_9 0"
definition HDMI_VFRMT_1920x1080i60_16_9_TIMING :: msm_hdmi_mode_timing_info where
  "HDMI_VFRMT_1920x1080i60_16_9_TIMING = timing_info HDMI_VFRMT_1920x1080i60_16_9 1920 88 44 148 0 540 2 5 5 0 74250 60000 0 1 HDMI_RES_AR_16_9 0"
definition HDMI_VFRMT_1440x480i60_4_3_TIMING :: msm_hdmi_mode_timing_info where
  "HDMI_VFRMT_1440x480i60_4_3_TIMING = timing_info HDMI_VFRMT_1440x480i60_4_3 1440 38 124 114 1 240 4 3 15 1 27000 60000 1 1 HDMI_RES_AR_4_3 0"
definition HDMI_VFRMT_1440x480i60_16_9_TIMING :: msm_hdmi_mode_timing_info where
  "HDMI_VFRMT_1440x480i60_16_9_TIMING = timing_info HDMI_VFRMT_1440x480i60_16_9 1440 38 124 114 1 240 4 3 15 1 27000 60000 1 1 HDMI_RES_AR_16_9 0"
definition HDMI_VFRMT_1920x1080p60_16_9_TIMING :: msm_hdmi_mode_timing_info where
  "HDMI_VFRMT_1920x1080p60_16_9_TIMING = timing_info HDMI_VFRMT_1920x1080p60_16_9 1920 88 44 148 0 1080 4 5 36 0 148500 60000 0 1 HDMI_RES_AR_16_9 0"
definition HDMI_VFRMT_720x576p50_4_3_TIMING :: msm_hdmi_mode_timing_info where
  "HDMI_VFRMT_720x576p50_4_3_TIMING = timing_info HDMI_VFRMT_720x576p50_4_3 720 12 64 68 1 576 5 5 39 1 27000 50000 0 1 HDMI_RES_AR_4_3 0"
definition HDMI_VFRMT_720x576p50_16_9_TIMING :: msm_hdmi_mode_timing_info where
  "HDMI_VFRMT_720x576p50_16_9_TIMING = timing_info HDMI_VFRMT_720x576p50_16_9 720 12 64 68 1 576 5 5 39 1 27000 50000 0 1 HDMI_RES_AR_16_9 0"
definition HDMI_VFRMT_1280x720p50_16_9_TIMING :: msm_hdmi_mode_timing_info where
  "HDMI_VFRMT_1280x720p50_16_9_TIMING = timing_info HDMI_VFRMT_1280x720p50_16_9 1280 440 40 220 0 720 5 5 20 0 74250 50000 0 1 HDMI_RES_AR_16_9 0"
definition HDMI_VFRMT_1440x576i50_4_3_TIMING :: msm_hdmi_mode_timing_info where
  "HDMI_VFRMT_1440x576i50_4_3_TIMING = timing_info HDMI_VFRMT_1440x576i50_4_3 1440 24 126 138 1 288 2 3 19 1 27000 50000 1 1 HDMI_RES_AR_4_3 0"
definition HDMI_VFRMT_1440x576i50_16_9_TIMING :: msm_hdmi_mode_timing_info where
  "HDMI_VFRMT_1440x576i50_16_9_TIMING = timing_info HDMI_VFRMT_1440x576i50_16_9 1440 24 126 138 1 288 2 3 19 1 27000 50000 1 1 HDMI_RES_AR_16_9 0"
definition HDMI_VFRMT_1920x1080p50_16_9_TIMING :: msm_hdmi_mode_timing_info where
  "HDMI_VFRMT_1920x1080p50_16_9_TIMING = timing_info HDMI_VFRMT_1920x1080p50_16_9 1920 528 44 148 0 1080 4 5 36 0 148500 50000 0 1 HDMI_RES_AR_16_9 0"
definition HDMI_VFRMT_1920x1080p24_16_9_TIMING :: msm_hdmi_mode_timing_info where
  "HDMI_VFRMT_1920x1080p24_16_9_TIMING = timing_info HDMI_VFRMT_1920x1080p24_16_9 1920 638 44 148 0 1080 4 5 36 0 74250 24000 0 1 HDMI_RES_AR_16_9 0"
definition HDMI_VFRMT_1920x1080p25_16_9_TIMING :: msm_hdmi_mode_timing_info where
  "HDMI_VFRMT_1920x1080p25_16_9_TIMING = timing_info HDMI_VFRMT_1920x1080p25_16_9 1920 528 44 148 0 1080 4 5 36 0 74250 25000 0 1 HDMI_RES_AR_16_9 0"
definition HDMI_VFRMT_1920x1080p30_16_9_TIMING :: msm_hdmi_mode_timing_info where
  "HDMI_VFRMT_1920x1080p30_16_9_TIMING = timing_info HDMI_VFRMT_1920x1080p30_16_9 1920 88 44 148 0 1080 4 5 36 0 74250 30000 0 1 HDMI_RES_AR_16_9 0"
definition HDMI_VFRMT_1024x768p60_4_3_TIMING :: msm_hdmi_mode_timing_info where
  "HDMI_VFRMT_1024x768p60_4_3_TIMING = timing_info HDMI_VFRMT_1024x768p60_4_3 1024 24 136 160 0 768 2 6 29 0 65000 60000 0 1 HDMI_RES_AR_4_3 0"
definition HDMI_VFRMT_1280x1024p60_5_4_TIMING :: msm_hdmi_mode_timing_info where
  "HDMI_VFRMT_1280x1024p60_5_4_TIMING = timing_info HDMI_VFRMT_1280x1024p60_5_4 1280 48 112 248 0 1024 1 3 38 0 108000 60000 0 1 HDMI_RES_AR_5_4 0"
definition HDMI_VFRMT_2560x1600p60_16_9_TIMING :: msm_hdmi_mode_timing_info where
  "HDMI_VFRMT_2560x1600p60_16_9_TIMING = timing_info HDMI_VFRMT_2560x1600p60_16_9 2560 48 32 80 0 1600 3 6 37 0 268500 60000 0 1 HDMI_RES_AR_16_9 0"
definition HDMI_EVFRMT_3840x2160p30_16_9_TIMING :: msm_hdmi_mode_timing_info where
  "HDMI_EVFRMT_3840x2160p30_16_9_TIMING = timing_info HDMI_EVFRMT_3840x2160p30_16_9 3840 176 88 296 0 2160 8 10 72 0 297000 30000 0 1 HDMI_RES_AR_16_9 0"
definition HDMI_EVFRMT_3840x2160p25_16_9_TIMING :: msm_hdmi_mode_timing_info where
  "HDMI_EVFRMT_3840x2160p25_16_9_TIMING = timing_info HDMI_EVFRMT_3840x2160p25_16_9 3840 1056 88 296 0 2160 8 10 72 0 297000 25000 0 1 HDMI_RES_AR_16_9 0"
definition HDMI_EVFRMT_3840x2160p24_16_9_TIMING :: msm_hdmi_mode_timing_info where
  "HDMI_EVFRMT_3840x2160p24_16_9_TIMING = timing_info HDMI_EVFRMT_3840x2160p24_16_9 3840 1276 88 296 0 2160 8 10 72 0 297000 24000 0 1 HDMI_RES_AR_16_9 0"
definition HDMI_EVFRMT_4096x2160p24_16_9_TIMING :: msm_hdmi_mode_timing_info where
  "HDMI_EVFRMT_4096x2160p24_16_9_TIMING = timing_info HDMI_EVFRMT_4096x2160p24_16_9 4096 1020 88 296 0 2160 8 10 72 0 297000 24000 0 1 HDMI_RES_AR_16_9 0"
definition HDMI_VFRMT_800x600p60_4_3_TIMING :: msm_hdmi_mode_timing_info where
  "HDMI_VFRMT_800x600p60_4_3_TIMING = timing_info HDMI_VFRMT_800x600p60_4_3 800 40 128 88 0 600 1 4 23 0 40000 60000 0 1 HDMI_RES_AR_4_3 0"
definition HDMI_VFRMT_848x480p60_16_9_TIMING :: msm_hdmi_mode_timing_info where
  "HDMI_VFRMT_848x480p60_16_9_TIMING = timing_info HDMI_VFRMT_848x480p60_16_9 848 16 112 112 0 480 6 8 23 0 33750 60000 0 1 HDMI_RES_AR_16_9 0"
definition HDMI_VFRMT_1280x960p60_4_3_TIMING :: msm_hdmi_mode_timing_info where
  "HDMI_VFRMT_1280x960p60_4_3_TIMING = timing_info HDMI_VFRMT_1280x960p60_4_3 1280 96 112 312 0 960 1 3 36 0 108000 60000 0 1 HDMI_RES_AR_4_3 0"
definition HDMI_VFRMT_1360x768p60_16_9_TIMING :: msm_hdmi_mode_timing_info where
  "HDMI_VFRMT_1360x768p60_16_9_TIMING = timing_info HDMI_VFRMT_1360x768p60_16_9 1360 64 112 256 0 768 3 6 18 0 85500 60000 0 1 HDMI_RES_AR_16_9 0"
definition HDMI_VFRMT_1440x900p60_16_10_TIMING :: msm_hdmi_mode_timing_info where
  "HDMI_VFRMT_1440x900p60_16_10_TIMING = timing_info HDMI_VFRMT_1440x900p60_16_10 1440 48 32 80 0 900 3 6 17 1 88750 60000 0 1 HDMI_RES_AR_16_10 0"
definition HDMI_VFRMT_1400x1050p60_4_3_TIMING :: msm_hdmi_mode_timing_info where
  "HDMI_VFRMT_1400x1050p60_4_3_TIMING = timing_info HDMI_VFRMT_1400x1050p60_4_3 1400 48 32 80 0 1050 3 4 23 1 101000 60000 0 1 HDMI_RES_AR_4_3 0"
definition HDMI_VFRMT_1680x1050p60_16_10_TIMING :: msm_hdmi_mode_timing_info where
  "HDMI_VFRMT_1680x1050p60_16_10_TIMING = timing_info HDMI_VFRMT_1680x1050p60_16_10 1680 48 32 80 0 1050 3 6 21 1 119000 60000 0 1 HDMI_RES_AR_16_10 0"
definition HDMI_VFRMT_1600x1200p60_4_3_TIMING :: msm_hdmi_mode_timing_info where
  "HDMI_VFRMT_1600x1200p60_4_3_TIMING = timing_info HDMI_VFRMT_1600x1200p60_4_3 1600 64 192 304 0 1200 1 3 46 0 162000 60000 0 1 HDMI_RES_AR_4_3 0"
definition HDMI_VFRMT_1920x1200p60_16_10_TIMING :: msm_hdmi_mode_timing_info where
  "HDMI_VFRMT_1920x1200p60_16_10_TIMING = timing_info HDMI_VFRMT_1920x1200p60_16_10 1920 48 32 80 0 1200 3 6 26 1 154000 60000 0 1 HDMI_RES_AR_16_10 0"
definition HDMI_VFRMT_1366x768p60_16_10_TIMING :: msm_hdmi_mode_timing_info where
  "HDMI_VFRMT_1366x768p60_16_10_TIMING = timing_info HDMI_VFRMT_1366x768p60_16_10 1366 70 143 213 0 768 3 3 24 0 85500 60000 0 1 HDMI_RES_AR_16_10 0"
definition HDMI_VFRMT_1280x800p60_16_10_TIMING :: msm_hdmi_mode_timing_info where
  "HDMI_VFRMT_1280x800p60_16_10_TIMING = timing_info HDMI_VFRMT_1280x800p60_16_10 1280 72 128 200 1 800 3 6 22 0 83500 60000 0 1 HDMI_RES_AR_16_10 0"
definition HDMI_VFRMT_3840x2160p24_16_9_TIMING :: msm_hdmi_mode_timing_info where
  "HDMI_VFRMT_3840x2160p24_16_9_TIMING = timing_info HDMI_VFRMT_3840x2160p24_16_9 3840 1276 88 296 0 2160 8 10 72 0 297000 24000 0 1 HDMI_RES_AR_16_9 0"
definition HDMI_VFRMT_3840x2160p25_16_9_TIMING :: msm_hdmi_mode_timing_info where
  "HDMI_VFRMT_3840x2160p25_16_9_TIMING = timing_info HDMI_VFRMT_3840x2160p25_16_9 3840 1056 88 296 0 2160 8 10 72 0 297000 25000 0 1 HDMI_RES_AR_16_9 0"
definition HDMI_VFRMT_3840x2160p30_16_9_TIMING :: msm_hdmi_mode_timing_info where
  "HDMI_VFRMT_3840x2160p30_16_9_TIMING = timing_info HDMI_VFRMT_3840x2160p30_16_9 3840 176 88 296 0 2160 8 10 72 0 297000 30000 0 1 HDMI_RES_AR_16_9 0"
definition HDMI_VFRMT_3840x2160p50_16_9_TIMING :: msm_hdmi_mode_timing_info where
  "HDMI_VFRMT_3840x2160p50_16_9_TIMING = timing_info HDMI_VFRMT_3840x2160p50_16_9 3840 1056 88 296 0 2160 8 10 72 0 594000 50000 0 1 HDMI_RES_AR_16_9 0"
definition HDMI_VFRMT_3840x2160p60_16_9_TIMING :: msm_hdmi_mode_timing_info where
  "HDMI_VFRMT_3840x2160p60_16_9_TIMING = timing_info HDMI_VFRMT_3840x2160p60_16_9 3840 176 88 296 0 2160 8 10 72 0 594000 60000 0 1 HDMI_RES_AR_16_9 0"
definition HDMI_VFRMT_4096x2160p24_256_135_TIMING :: msm_hdmi_mode_timing_info where
  "HDMI_VFRMT_4096x2160p24_256_135_TIMING = timing_info HDMI_VFRMT_4096x2160p24_256_135 4096 1020 88 296 0 2160 8 10 72 0 297000 24000 0 1 HDMI_RES_AR_256_135 0"
definition HDMI_VFRMT_4096x2160p25_256_135_TIMING :: msm_hdmi_mode_timing_info where
  "HDMI_VFRMT_4096x2160p25_256_135_TIMING = timing_info HDMI_VFRMT_4096x2160p25_256_135 4096 968 88 128 0 2160 8 10 72 0 297000 25000 0 1 HDMI_RES_AR_256_135 0"
definition HDMI_VFRMT_4096x2160p30_256_135_TIMING :: msm_hdmi_mode_timing_info where
  "HDMI_VFRMT_4096x2160p30_256_135_TIMING = timing_info HDMI_VFRMT_4096x2160p30_256_135 4096 88 88 128 0 2160 8 10 72 0 297000 30000 0 1 HDMI_RES_AR_256_135 0"
definition HDMI_VFRMT_4096x2160p50_256_135_TIMING :: msm_hdmi_mode_timing_info where
  "HDMI_VFRMT_4096x2160p50_256_135_TIMING = timing_info HDMI_VFRMT_4096x2160p50_256_135 4096 968 88 128 0 2160 8 10 72 0 594000 50000 0 1 HDMI_RES_AR_256_135 0"
definition HDMI_VFRMT_4096x2160p60_256_135_TIMING :: msm_hdmi_mode_timing_info where
  "HDMI_VFRMT_4096x2160p60_256_135_TIMING = timing_info HDMI_VFRMT_4096x2160p60_256_135 4096 88 88 128 0 2160 8 10 72 0 594000 60000 0 1 HDMI_RES_AR_256_135 0"
definition HDMI_VFRMT_3840x2160p24_64_27_TIMING :: msm_hdmi_mode_timing_info where
  "HDMI_VFRMT_3840x2160p24_64_27_TIMING = timing_info HDMI_VFRMT_3840x2160p24_64_27 3840 1276 88 296 0 2160 8 10 72 0 297000 24000 0 1 HDMI_RES_AR_64_27 0"
definition HDMI_VFRMT_3840x2160p25_64_27_TIMING :: msm_hdmi_mode_timing_info where
  "HDMI_VFRMT_3840x2160p25_64_27_TIMING = timing_info HDMI_VFRMT_3840x2160p25_64_27 3840 1056 88 296 0 2160 8 10 72 0 297000 25000 0 1 HDMI_RES_AR_64_27 0"
definition HDMI_VFRMT_3840x2160p30_64_27_TIMING :: msm_hdmi_mode_timing_info where
  "HDMI_VFRMT_3840x2160p30_64_27_TIMING = timing_info HDMI_VFRMT_3840x2160p30_64_27 3840 176 88 296 0 2160 8 10 72 0 297000 30000 0 1 HDMI_RES_AR_64_27 0"
definition HDMI_VFRMT_3840x2160p50_64_27_TIMING :: msm_hdmi_mode_timing_info where
  "HDMI_VFRMT_3840x2160p50_64_27_TIMING = timing_info HDMI_VFRMT_3840x2160p50_64_27 3840 1056 88 296 0 2160 8 10 72 0 594000 50000 0 1 HDMI_RES_AR_64_27 0"
definition HDMI_VFRMT_3840x2160p60_64_27_TIMING :: msm_hdmi_mode_timing_info where
  "HDMI_VFRMT_3840x2160p60_64_27_TIMING = timing_info HDMI_VFRMT_3840x2160p60_64_27 3840 176 88 296 0 2160 8 10 72 0 594000 60000 0 1 HDMI_RES_AR_64_27 0"

definition MSM_HDMI_MODES_CEA :: "32 word" where "MSM_HDMI_MODES_CEA = 1"
definition MSM_HDMI_MODES_XTND :: "32 word" where "MSM_HDMI_MODES_XTND = 2"
definition MSM_HDMI_MODES_DVI :: "32 word" where "MSM_HDMI_MODES_DVI = 4"
definition MSM_HDMI_MODES_ALL :: "32 word" where
  "MSM_HDMI_MODES_ALL = MSM_HDMI_MODES_CEA OR MSM_HDMI_MODES_XTND OR MSM_HDMI_MODES_DVI"

section \<open>Filling a table\<close>

text \<open>A table is an array; writing past it is undefined.\<close>

type_synonym timing_lut = "msm_hdmi_mode_timing_info list"

definition MSM_HDMI_MODES_SET_TIMING :: "timing_lut \<Rightarrow> nat \<Rightarrow> msm_hdmi_mode_timing_info \<Rightarrow> timing_lut option" where
  "MSM_HDMI_MODES_SET_TIMING lut mode timing = (if mode < length lut then Some (lut[mode := timing]) else None)"

fun set_timings :: "(nat \<times> msm_hdmi_mode_timing_info) list \<Rightarrow> timing_lut \<Rightarrow> timing_lut option" where
  "set_timings [] lut = Some lut"
| "set_timings ((mode, timing) # ms) lut = do { lut \<leftarrow> MSM_HDMI_MODES_SET_TIMING lut mode timing; set_timings ms lut }"

definition MSM_HDMI_MODES_INIT_TIMINGS :: "timing_lut \<Rightarrow> timing_lut option" where
  "MSM_HDMI_MODES_INIT_TIMINGS lut = set_timings (map (\<lambda>i. (i, VFRMT_NOT_SUPPORTED i)) [0..<HDMI_VFRMT_MAX]) lut"

definition cea_timings :: "(nat \<times> msm_hdmi_mode_timing_info) list" where
  "cea_timings = [(HDMI_VFRMT_640x480p60_4_3, HDMI_VFRMT_640x480p60_4_3_TIMING),
    (HDMI_VFRMT_720x480p60_4_3, HDMI_VFRMT_720x480p60_4_3_TIMING),
    (HDMI_VFRMT_720x480p60_16_9, HDMI_VFRMT_720x480p60_16_9_TIMING),
    (HDMI_VFRMT_1280x720p60_16_9, HDMI_VFRMT_1280x720p60_16_9_TIMING),
    (HDMI_VFRMT_1920x1080i60_16_9, HDMI_VFRMT_1920x1080i60_16_9_TIMING),
    (HDMI_VFRMT_1440x480i60_4_3, HDMI_VFRMT_1440x480i60_4_3_TIMING),
    (HDMI_VFRMT_1440x480i60_16_9, HDMI_VFRMT_1440x480i60_16_9_TIMING),
    (HDMI_VFRMT_1920x1080p60_16_9, HDMI_VFRMT_1920x1080p60_16_9_TIMING),
    (HDMI_VFRMT_720x576p50_4_3, HDMI_VFRMT_720x576p50_4_3_TIMING),
    (HDMI_VFRMT_720x576p50_16_9, HDMI_VFRMT_720x576p50_16_9_TIMING),
    (HDMI_VFRMT_1280x720p50_16_9, HDMI_VFRMT_1280x720p50_16_9_TIMING),
    (HDMI_VFRMT_1440x576i50_4_3, HDMI_VFRMT_1440x576i50_4_3_TIMING),
    (HDMI_VFRMT_1440x576i50_16_9, HDMI_VFRMT_1440x576i50_16_9_TIMING),
    (HDMI_VFRMT_1920x1080p50_16_9, HDMI_VFRMT_1920x1080p50_16_9_TIMING),
    (HDMI_VFRMT_1920x1080p24_16_9, HDMI_VFRMT_1920x1080p24_16_9_TIMING),
    (HDMI_VFRMT_1920x1080p25_16_9, HDMI_VFRMT_1920x1080p25_16_9_TIMING),
    (HDMI_VFRMT_1920x1080p30_16_9, HDMI_VFRMT_1920x1080p30_16_9_TIMING),
    (HDMI_VFRMT_3840x2160p24_16_9, HDMI_VFRMT_3840x2160p24_16_9_TIMING),
    (HDMI_VFRMT_3840x2160p25_16_9, HDMI_VFRMT_3840x2160p25_16_9_TIMING),
    (HDMI_VFRMT_3840x2160p30_16_9, HDMI_VFRMT_3840x2160p30_16_9_TIMING),
    (HDMI_VFRMT_3840x2160p50_16_9, HDMI_VFRMT_3840x2160p50_16_9_TIMING),
    (HDMI_VFRMT_3840x2160p60_16_9, HDMI_VFRMT_3840x2160p60_16_9_TIMING),
    (HDMI_VFRMT_4096x2160p24_256_135, HDMI_VFRMT_4096x2160p24_256_135_TIMING),
    (HDMI_VFRMT_4096x2160p25_256_135, HDMI_VFRMT_4096x2160p25_256_135_TIMING),
    (HDMI_VFRMT_4096x2160p30_256_135, HDMI_VFRMT_4096x2160p30_256_135_TIMING),
    (HDMI_VFRMT_4096x2160p50_256_135, HDMI_VFRMT_4096x2160p50_256_135_TIMING),
    (HDMI_VFRMT_4096x2160p60_256_135, HDMI_VFRMT_4096x2160p60_256_135_TIMING),
    (HDMI_VFRMT_3840x2160p24_64_27, HDMI_VFRMT_3840x2160p24_64_27_TIMING),
    (HDMI_VFRMT_3840x2160p25_64_27, HDMI_VFRMT_3840x2160p25_64_27_TIMING),
    (HDMI_VFRMT_3840x2160p30_64_27, HDMI_VFRMT_3840x2160p30_64_27_TIMING),
    (HDMI_VFRMT_3840x2160p50_64_27, HDMI_VFRMT_3840x2160p50_64_27_TIMING),
    (HDMI_VFRMT_3840x2160p60_64_27, HDMI_VFRMT_3840x2160p60_64_27_TIMING)]"

definition xtnd_timings :: "(nat \<times> msm_hdmi_mode_timing_info) list" where
  "xtnd_timings = [(HDMI_EVFRMT_3840x2160p30_16_9, HDMI_EVFRMT_3840x2160p30_16_9_TIMING),
    (HDMI_EVFRMT_3840x2160p25_16_9, HDMI_EVFRMT_3840x2160p25_16_9_TIMING),
    (HDMI_EVFRMT_3840x2160p24_16_9, HDMI_EVFRMT_3840x2160p24_16_9_TIMING),
    (HDMI_EVFRMT_4096x2160p24_16_9, HDMI_EVFRMT_4096x2160p24_16_9_TIMING)]"

definition dvi_timings :: "(nat \<times> msm_hdmi_mode_timing_info) list" where
  "dvi_timings = [(HDMI_VFRMT_1024x768p60_4_3, HDMI_VFRMT_1024x768p60_4_3_TIMING),
    (HDMI_VFRMT_1280x1024p60_5_4, HDMI_VFRMT_1280x1024p60_5_4_TIMING),
    (HDMI_VFRMT_2560x1600p60_16_9, HDMI_VFRMT_2560x1600p60_16_9_TIMING),
    (HDMI_VFRMT_800x600p60_4_3, HDMI_VFRMT_800x600p60_4_3_TIMING),
    (HDMI_VFRMT_848x480p60_16_9, HDMI_VFRMT_848x480p60_16_9_TIMING),
    (HDMI_VFRMT_1280x960p60_4_3, HDMI_VFRMT_1280x960p60_4_3_TIMING),
    (HDMI_VFRMT_1360x768p60_16_9, HDMI_VFRMT_1360x768p60_16_9_TIMING),
    (HDMI_VFRMT_1440x900p60_16_10, HDMI_VFRMT_1440x900p60_16_10_TIMING),
    (HDMI_VFRMT_1400x1050p60_4_3, HDMI_VFRMT_1400x1050p60_4_3_TIMING),
    (HDMI_VFRMT_1680x1050p60_16_10, HDMI_VFRMT_1680x1050p60_16_10_TIMING),
    (HDMI_VFRMT_1600x1200p60_4_3, HDMI_VFRMT_1600x1200p60_4_3_TIMING),
    (HDMI_VFRMT_1920x1200p60_16_10, HDMI_VFRMT_1920x1200p60_16_10_TIMING),
    (HDMI_VFRMT_1366x768p60_16_10, HDMI_VFRMT_1366x768p60_16_10_TIMING),
    (HDMI_VFRMT_1280x800p60_16_10, HDMI_VFRMT_1280x800p60_16_10_TIMING)]"

text \<open>The three \<open>if\<close>s one after the other.\<close>

definition MSM_HDMI_MODES_SET_SUPP_TIMINGS :: "timing_lut \<Rightarrow> 32 word \<Rightarrow> timing_lut option" where
  "MSM_HDMI_MODES_SET_SUPP_TIMINGS lut type = do {
     lut \<leftarrow> (if type AND MSM_HDMI_MODES_CEA \<noteq> 0 then set_timings cea_timings lut else Some lut);
     lut \<leftarrow> (if type AND MSM_HDMI_MODES_XTND \<noteq> 0 then set_timings xtnd_timings lut else Some lut);
     if type AND MSM_HDMI_MODES_DVI \<noteq> 0 then set_timings dvi_timings lut else Some lut }"

lemmas hdmi_numbers =
  HDMI_VFRMT_640x480p60_4_3_def HDMI_VFRMT_720x480p60_4_3_def HDMI_VFRMT_720x480p60_16_9_def
  HDMI_VFRMT_1280x720p60_16_9_def HDMI_VFRMT_1920x1080i60_16_9_def HDMI_VFRMT_720x480i60_4_3_def
  HDMI_VFRMT_1440x480i60_4_3_def HDMI_VFRMT_720x480i60_16_9_def HDMI_VFRMT_1440x480i60_16_9_def
  HDMI_VFRMT_1920x1080p60_16_9_def HDMI_VFRMT_720x576p50_4_3_def HDMI_VFRMT_720x576p50_16_9_def
  HDMI_VFRMT_1280x720p50_16_9_def HDMI_VFRMT_720x576i50_4_3_def HDMI_VFRMT_1440x576i50_4_3_def
  HDMI_VFRMT_720x576i50_16_9_def HDMI_VFRMT_1440x576i50_16_9_def HDMI_VFRMT_1920x1080p50_16_9_def
  HDMI_VFRMT_1920x1080p24_16_9_def HDMI_VFRMT_1920x1080p25_16_9_def HDMI_VFRMT_1920x1080p30_16_9_def
  HDMI_VFRMT_3840x2160p24_16_9_def HDMI_VFRMT_3840x2160p25_16_9_def HDMI_VFRMT_3840x2160p30_16_9_def
  HDMI_VFRMT_3840x2160p50_16_9_def HDMI_VFRMT_3840x2160p60_16_9_def HDMI_VFRMT_4096x2160p24_256_135_def
  HDMI_VFRMT_4096x2160p25_256_135_def HDMI_VFRMT_4096x2160p30_256_135_def HDMI_VFRMT_4096x2160p50_256_135_def
  HDMI_VFRMT_4096x2160p60_256_135_def HDMI_VFRMT_3840x2160p24_64_27_def HDMI_VFRMT_3840x2160p25_64_27_def
  HDMI_VFRMT_3840x2160p30_64_27_def HDMI_VFRMT_3840x2160p50_64_27_def HDMI_VFRMT_3840x2160p60_64_27_def
  HDMI_VFRMT_END_def EVFRMT_OFF_def HDMI_EVFRMT_3840x2160p30_16_9_def
  HDMI_EVFRMT_3840x2160p25_16_9_def HDMI_EVFRMT_3840x2160p24_16_9_def HDMI_EVFRMT_4096x2160p24_16_9_def
  HDMI_EVFRMT_END_def WQXGA_OFF_def HDMI_VFRMT_2560x1600p60_16_9_def
  HDMI_WQXGAFRMT_END_def WXGA_OFF_def HDMI_VFRMT_1280x800p60_16_10_def
  HDMI_VFRMT_1366x768p60_16_10_def HDMI_WXGAFRMT_END_def ETI_OFF_def
  HDMI_VFRMT_800x600p60_4_3_def ETI_VFRMT_END_def ETII_OFF_def
  HDMI_VFRMT_1024x768p60_4_3_def HDMI_VFRMT_1280x1024p60_5_4_def ETII_VFRMT_END_def
  ETIII_OFF_def HDMI_VFRMT_848x480p60_16_9_def HDMI_VFRMT_1280x960p60_4_3_def
  HDMI_VFRMT_1360x768p60_16_9_def HDMI_VFRMT_1440x900p60_16_10_def HDMI_VFRMT_1400x1050p60_4_3_def
  HDMI_VFRMT_1680x1050p60_16_10_def HDMI_VFRMT_1600x1200p60_4_3_def HDMI_VFRMT_1920x1200p60_16_10_def
  ETIII_VFRMT_END_def RESERVE_OFF_def HDMI_VFRMT_RESERVE8_def
  RESERVE_VFRMT_END_def HDMI_VFRMT_MAX_def

lemmas hdmi_timings =
  HDMI_VFRMT_640x480p60_4_3_TIMING_def HDMI_VFRMT_720x480p60_4_3_TIMING_def HDMI_VFRMT_720x480p60_16_9_TIMING_def
  HDMI_VFRMT_1280x720p60_16_9_TIMING_def HDMI_VFRMT_1920x1080i60_16_9_TIMING_def HDMI_VFRMT_1440x480i60_4_3_TIMING_def
  HDMI_VFRMT_1440x480i60_16_9_TIMING_def HDMI_VFRMT_1920x1080p60_16_9_TIMING_def HDMI_VFRMT_720x576p50_4_3_TIMING_def
  HDMI_VFRMT_720x576p50_16_9_TIMING_def HDMI_VFRMT_1280x720p50_16_9_TIMING_def HDMI_VFRMT_1440x576i50_4_3_TIMING_def
  HDMI_VFRMT_1440x576i50_16_9_TIMING_def HDMI_VFRMT_1920x1080p50_16_9_TIMING_def HDMI_VFRMT_1920x1080p24_16_9_TIMING_def
  HDMI_VFRMT_1920x1080p25_16_9_TIMING_def HDMI_VFRMT_1920x1080p30_16_9_TIMING_def HDMI_VFRMT_1024x768p60_4_3_TIMING_def
  HDMI_VFRMT_1280x1024p60_5_4_TIMING_def HDMI_VFRMT_2560x1600p60_16_9_TIMING_def HDMI_EVFRMT_3840x2160p30_16_9_TIMING_def
  HDMI_EVFRMT_3840x2160p25_16_9_TIMING_def HDMI_EVFRMT_3840x2160p24_16_9_TIMING_def HDMI_EVFRMT_4096x2160p24_16_9_TIMING_def
  HDMI_VFRMT_800x600p60_4_3_TIMING_def HDMI_VFRMT_848x480p60_16_9_TIMING_def HDMI_VFRMT_1280x960p60_4_3_TIMING_def
  HDMI_VFRMT_1360x768p60_16_9_TIMING_def HDMI_VFRMT_1440x900p60_16_10_TIMING_def HDMI_VFRMT_1400x1050p60_4_3_TIMING_def
  HDMI_VFRMT_1680x1050p60_16_10_TIMING_def HDMI_VFRMT_1600x1200p60_4_3_TIMING_def HDMI_VFRMT_1920x1200p60_16_10_TIMING_def
  HDMI_VFRMT_1366x768p60_16_10_TIMING_def HDMI_VFRMT_1280x800p60_16_10_TIMING_def HDMI_VFRMT_3840x2160p24_16_9_TIMING_def
  HDMI_VFRMT_3840x2160p25_16_9_TIMING_def HDMI_VFRMT_3840x2160p30_16_9_TIMING_def HDMI_VFRMT_3840x2160p50_16_9_TIMING_def
  HDMI_VFRMT_3840x2160p60_16_9_TIMING_def HDMI_VFRMT_4096x2160p24_256_135_TIMING_def HDMI_VFRMT_4096x2160p25_256_135_TIMING_def
  HDMI_VFRMT_4096x2160p30_256_135_TIMING_def HDMI_VFRMT_4096x2160p50_256_135_TIMING_def HDMI_VFRMT_4096x2160p60_256_135_TIMING_def
  HDMI_VFRMT_3840x2160p24_64_27_TIMING_def HDMI_VFRMT_3840x2160p25_64_27_TIMING_def HDMI_VFRMT_3840x2160p30_64_27_TIMING_def
  HDMI_VFRMT_3840x2160p50_64_27_TIMING_def HDMI_VFRMT_3840x2160p60_64_27_TIMING_def

section \<open>What a table holds\<close>

lemma set_timings_ok:
  "\<forall>(m, t)\<in>set ms. m < length lut \<Longrightarrow> \<exists>lut'. set_timings ms lut = Some lut' \<and> length lut' = length lut
     \<and> (\<forall>i<length lut. lut' ! i = (case map_of (rev ms) i of None \<Rightarrow> lut ! i | Some t \<Rightarrow> t))"
proof (induction ms arbitrary: lut)
  case (Cons x ms)
  obtain m t where x: "x = (m, t)" by (cases x)
  have "\<forall>(k, s)\<in>set ms. k < length (lut[m := t])" "m < length lut" using Cons.prems by (auto simp: x)
  with Cons.IH [of "lut[m := t]"] obtain lut' where "set_timings ms (lut[m := t]) = Some lut'" "length lut' = length lut"
    "\<forall>i<length lut. lut' ! i = (case map_of (rev ms) i of None \<Rightarrow> lut[m := t] ! i | Some t \<Rightarrow> t)" by auto
  then show ?case using \<open>m < length lut\<close>
    by (auto simp: x MSM_HDMI_MODES_SET_TIMING_def map_add_def nth_list_update split: option.splits)
qed simp

text \<open>The modes that a type selects.\<close>

definition selected :: "32 word \<Rightarrow> (nat \<times> msm_hdmi_mode_timing_info) list" where
  "selected type = (if type AND MSM_HDMI_MODES_CEA \<noteq> 0 then cea_timings else [])
     @ (if type AND MSM_HDMI_MODES_XTND \<noteq> 0 then xtnd_timings else [])
     @ (if type AND MSM_HDMI_MODES_DVI \<noteq> 0 then dvi_timings else [])"

lemma set_timings_append: "set_timings (ms @ ns) lut = set_timings ms lut \<bind> set_timings ns"
  by (induction ms arbitrary: lut) (auto simp: MSM_HDMI_MODES_SET_TIMING_def)

lemma set_timings_Nil: "set_timings [] = Some"
  by (rule ext) simp

lemma set_supp_selected: "MSM_HDMI_MODES_SET_SUPP_TIMINGS lut type = set_timings (selected type) lut"
proof -
  have "set_timings (xtnd_timings @ dvi_timings) = (\<lambda>lut. set_timings xtnd_timings lut \<bind> set_timings dvi_timings)"
    by (rule ext) (rule set_timings_append)
  then show ?thesis
    by (simp add: MSM_HDMI_MODES_SET_SUPP_TIMINGS_def selected_def set_timings_append set_timings_Nil)
qed

definition all_timings :: "(nat \<times> msm_hdmi_mode_timing_info) list" where
  "all_timings = cea_timings @ xtnd_timings @ dvi_timings"

lemma all_timings_distinct: "distinct (map fst all_timings)"
  by code_simp

lemma all_timings_ok:
  "list_all (\<lambda>(m, t). m < HDMI_VFRMT_MAX \<and> video_format t = word_of_nat m \<and> supported t = 1) all_timings"
  by code_simp

lemma selected_subset: "set (selected type) \<subseteq> set all_timings"
  by (auto simp: selected_def all_timings_def)

lemma selected_distinct: "distinct (map fst (selected type))"
  using all_timings_distinct by (auto simp: selected_def all_timings_def)

text \<open>
  C36. A table with room for \<open>HDMI_VFRMT_MAX\<close> timings is filled without writing past it: afterwards
  entry \<open>i\<close> is the timing of mode \<open>i\<close> when the type selects it, and else says that the mode is not
  supported. Every entry has its own number, and the supported ones are exactly those selected.
\<close>

theorem hdmi_table_spec:
  assumes len: "HDMI_VFRMT_MAX \<le> length lut"
  shows "\<exists>lut'. (MSM_HDMI_MODES_INIT_TIMINGS lut \<bind> (\<lambda>lut. MSM_HDMI_MODES_SET_SUPP_TIMINGS lut type)) = Some lut'
    \<and> length lut' = length lut
    \<and> (\<forall>i<HDMI_VFRMT_MAX. lut' ! i = (case map_of (selected type) i of None \<Rightarrow> VFRMT_NOT_SUPPORTED i | Some t \<Rightarrow> t)
        \<and> video_format (lut' ! i) = word_of_nat i
        \<and> (supported (lut' ! i) \<noteq> 0 \<longleftrightarrow> i \<in> fst ` set (selected type)))"
proof -
  let ?init = "map (\<lambda>i. (i, VFRMT_NOT_SUPPORTED i)) [0..<HDMI_VFRMT_MAX]"
  have "\<forall>(m, t)\<in>set ?init. m < length lut" using len by auto
  from set_timings_ok [OF this] obtain l1 where l1: "set_timings ?init lut = Some l1" "length l1 = length lut"
    and n1: "\<forall>i<length lut. l1 ! i = (case map_of (rev ?init) i of None \<Rightarrow> lut ! i | Some t \<Rightarrow> t)" by blast
  have init: "l1 ! i = VFRMT_NOT_SUPPORTED i" if "i < HDMI_VFRMT_MAX" for i
  proof -
    have "distinct (map fst (rev ?init))" by (simp add: rev_map comp_def)
    then have "map_of (rev ?init) i = Some (VFRMT_NOT_SUPPORTED i)"
      using that by (intro map_of_is_SomeI) auto
    then show ?thesis using n1 len that by simp
  qed
  have ok: "m < HDMI_VFRMT_MAX \<and> video_format t = word_of_nat m \<and> supported t = 1" if "(m, t) \<in> set (selected type)" for m t
    using all_timings_ok selected_subset that by (fastforce simp: list_all_iff)
  have "\<forall>(m, t)\<in>set (selected type). m < length l1" using ok len l1(2) by fastforce
  from set_timings_ok [OF this] obtain l2 where l2: "set_timings (selected type) l1 = Some l2" "length l2 = length l1"
    and n2: "\<forall>i<length l1. l2 ! i = (case map_of (rev (selected type)) i of None \<Rightarrow> l1 ! i | Some t \<Rightarrow> t)" by blast
  have rv: "map_of (rev (selected type)) = map_of (selected type)"
    by (rule iffD2 [OF map_of_inject_set]) (use selected_distinct in \<open>simp_all add: rev_map [symmetric]\<close>)
  have e: "l2 ! i = (case map_of (selected type) i of None \<Rightarrow> VFRMT_NOT_SUPPORTED i | Some t \<Rightarrow> t)" if "i < HDMI_VFRMT_MAX" for i
    using n2 init [OF that] that len l1(2) unfolding rv by (simp split: option.split)
  have "l2 ! i = (case map_of (selected type) i of None \<Rightarrow> VFRMT_NOT_SUPPORTED i | Some t \<Rightarrow> t)
      \<and> video_format (l2 ! i) = word_of_nat i \<and> (supported (l2 ! i) \<noteq> 0 \<longleftrightarrow> i \<in> fst ` set (selected type))"
    if "i < HDMI_VFRMT_MAX" for i
  proof (cases "map_of (selected type) i")
    case None
    then have "i \<notin> fst ` set (selected type)" by (simp add: map_of_eq_None_iff)
    then show ?thesis using e [OF that] None by (simp add: VFRMT_NOT_SUPPORTED_def timing_info_def)
  next
    case (Some t)
    then have "(i, t) \<in> set (selected type)" by (rule map_of_SomeD)
    then show ?thesis using e [OF that] Some ok [of i t] by force
  qed
  moreover have "(MSM_HDMI_MODES_INIT_TIMINGS lut \<bind> (\<lambda>lut. MSM_HDMI_MODES_SET_SUPP_TIMINGS lut type)) = Some l2"
    using l1(1) l2(1) by (simp add: MSM_HDMI_MODES_INIT_TIMINGS_def set_supp_selected)
  moreover have "length l2 = length lut" using l1(2) l2(2) by simp
  ultimately show ?thesis by blast
qed

lemma hdmi_table_spec_witness:
  "\<exists>lut'. (MSM_HDMI_MODES_INIT_TIMINGS (replicate 154 (VFRMT_NOT_SUPPORTED 0))
       \<bind> (\<lambda>lut. MSM_HDMI_MODES_SET_SUPP_TIMINGS lut MSM_HDMI_MODES_DVI)) = Some lut'
    \<and> lut' ! HDMI_VFRMT_1024x768p60_4_3 = HDMI_VFRMT_1024x768p60_4_3_TIMING \<and> supported (lut' ! HDMI_VFRMT_1920x1080p60_16_9) = 0"
proof -
  have "HDMI_VFRMT_MAX = 154" "HDMI_VFRMT_1024x768p60_4_3 < HDMI_VFRMT_MAX" "HDMI_VFRMT_1920x1080p60_16_9 < HDMI_VFRMT_MAX"
    "map_of (selected MSM_HDMI_MODES_DVI) HDMI_VFRMT_1024x768p60_4_3 = Some HDMI_VFRMT_1024x768p60_4_3_TIMING"
    "map_of (selected MSM_HDMI_MODES_DVI) HDMI_VFRMT_1920x1080p60_16_9 = None"
    by code_simp+
  moreover from this(5) have "HDMI_VFRMT_1920x1080p60_16_9 \<notin> fst ` set (selected MSM_HDMI_MODES_DVI)"
    by (simp add: map_of_eq_None_iff)
  ultimately show ?thesis
    using hdmi_table_spec [of "replicate 154 (VFRMT_NOT_SUPPORTED 0)" MSM_HDMI_MODES_DVI] by fastforce
qed

section \<open>Pixel clocks\<close>

definition total_h :: "msm_hdmi_mode_timing_info \<Rightarrow> int" where
  "total_h t = uint (active_h t) + uint (front_porch_h t) + uint (pulse_width_h t) + uint (back_porch_h t)"

definition total_v :: "msm_hdmi_mode_timing_info \<Rightarrow> int" where
  "total_v t = uint (active_v t) + uint (front_porch_v t) + uint (pulse_width_v t) + uint (back_porch_v t)"

text \<open>The frequency (in kHz) is that of all pixels of a field, shown \<open>refresh_rate\<close> / 1000 times a second, within one percent.\<close>

definition clock_ok :: "msm_hdmi_mode_timing_info \<Rightarrow> bool" where
  "clock_ok t \<longleftrightarrow> 100 * \<bar>uint (pixel_freq t) * 1000000 - total_h t * total_v t * uint (refresh_rate t)\<bar>
     \<le> uint (pixel_freq t) * 1000000"

text \<open>
  The pixel clock of every mode agrees, within one percent, with its total width and height and its
  refresh rate, with a single exception: 1920x1080i60, whose porches and whose flag \<open>interlaced\<close> are
  not those of the mode.
\<close>

theorem hdmi_pixel_clocks:
  "filter (\<lambda>(m, t). \<not> clock_ok t) all_timings = [(HDMI_VFRMT_1920x1080i60_16_9, HDMI_VFRMT_1920x1080i60_16_9_TIMING)]"
  by code_simp

end
