(* ===== verification/Video_Formats.thy ===== *)
theory Video_Formats
  imports C_Prelude
begin

text \<open>
  The formats of video frames (\<open>sdm845/kernel-headers/linux/videodev2.h\<close>): the codes of four characters,
  every pixel format, and the macros that classify fields and buffers and choose the defaults of a colour
  space. An enumerator of an \<open>enum\<close> is a constructor; a code is an unsigned word.
\<close>

section \<open>Codes of four characters\<close>

definition v4l2_fourcc :: "char \<Rightarrow> char \<Rightarrow> char \<Rightarrow> char \<Rightarrow> 32 word" where
  "v4l2_fourcc a b c d = word_of_nat (code_of a) OR push_bit 8 (word_of_nat (code_of b))
     OR push_bit 16 (word_of_nat (code_of c)) OR push_bit 24 (word_of_nat (code_of d))"

definition v4l2_fourcc_be :: "char \<Rightarrow> char \<Rightarrow> char \<Rightarrow> char \<Rightarrow> 32 word" where
  "v4l2_fourcc_be a b c d = v4l2_fourcc a b c d OR push_bit 31 1"

section \<open>Pixel formats\<close>

definition V4L2_PIX_FMT_RGB332 :: "32 word" where "V4L2_PIX_FMT_RGB332 = v4l2_fourcc CHR ''R'' CHR ''G'' CHR ''B'' CHR ''1''"
definition V4L2_PIX_FMT_RGB444 :: "32 word" where "V4L2_PIX_FMT_RGB444 = v4l2_fourcc CHR ''R'' CHR ''4'' CHR ''4'' CHR ''4''"
definition V4L2_PIX_FMT_ARGB444 :: "32 word" where "V4L2_PIX_FMT_ARGB444 = v4l2_fourcc CHR ''A'' CHR ''R'' CHR ''1'' CHR ''2''"
definition V4L2_PIX_FMT_XRGB444 :: "32 word" where "V4L2_PIX_FMT_XRGB444 = v4l2_fourcc CHR ''X'' CHR ''R'' CHR ''1'' CHR ''2''"
definition V4L2_PIX_FMT_RGB555 :: "32 word" where "V4L2_PIX_FMT_RGB555 = v4l2_fourcc CHR ''R'' CHR ''G'' CHR ''B'' CHR ''O''"
definition V4L2_PIX_FMT_ARGB555 :: "32 word" where "V4L2_PIX_FMT_ARGB555 = v4l2_fourcc CHR ''A'' CHR ''R'' CHR ''1'' CHR ''5''"
definition V4L2_PIX_FMT_XRGB555 :: "32 word" where "V4L2_PIX_FMT_XRGB555 = v4l2_fourcc CHR ''X'' CHR ''R'' CHR ''1'' CHR ''5''"
definition V4L2_PIX_FMT_RGB565 :: "32 word" where "V4L2_PIX_FMT_RGB565 = v4l2_fourcc CHR ''R'' CHR ''G'' CHR ''B'' CHR ''P''"
definition V4L2_PIX_FMT_RGB555X :: "32 word" where "V4L2_PIX_FMT_RGB555X = v4l2_fourcc CHR ''R'' CHR ''G'' CHR ''B'' CHR ''Q''"
definition V4L2_PIX_FMT_ARGB555X :: "32 word" where "V4L2_PIX_FMT_ARGB555X = v4l2_fourcc_be CHR ''A'' CHR ''R'' CHR ''1'' CHR ''5''"
definition V4L2_PIX_FMT_XRGB555X :: "32 word" where "V4L2_PIX_FMT_XRGB555X = v4l2_fourcc_be CHR ''X'' CHR ''R'' CHR ''1'' CHR ''5''"
definition V4L2_PIX_FMT_RGB565X :: "32 word" where "V4L2_PIX_FMT_RGB565X = v4l2_fourcc CHR ''R'' CHR ''G'' CHR ''B'' CHR ''R''"
definition V4L2_PIX_FMT_BGR666 :: "32 word" where "V4L2_PIX_FMT_BGR666 = v4l2_fourcc CHR ''B'' CHR ''G'' CHR ''R'' CHR ''H''"
definition V4L2_PIX_FMT_BGR24 :: "32 word" where "V4L2_PIX_FMT_BGR24 = v4l2_fourcc CHR ''B'' CHR ''G'' CHR ''R'' CHR ''3''"
definition V4L2_PIX_FMT_RGB24 :: "32 word" where "V4L2_PIX_FMT_RGB24 = v4l2_fourcc CHR ''R'' CHR ''G'' CHR ''B'' CHR ''3''"
definition V4L2_PIX_FMT_BGR32 :: "32 word" where "V4L2_PIX_FMT_BGR32 = v4l2_fourcc CHR ''B'' CHR ''G'' CHR ''R'' CHR ''4''"
definition V4L2_PIX_FMT_ABGR32 :: "32 word" where "V4L2_PIX_FMT_ABGR32 = v4l2_fourcc CHR ''A'' CHR ''R'' CHR ''2'' CHR ''4''"
definition V4L2_PIX_FMT_XBGR32 :: "32 word" where "V4L2_PIX_FMT_XBGR32 = v4l2_fourcc CHR ''X'' CHR ''R'' CHR ''2'' CHR ''4''"
definition V4L2_PIX_FMT_RGB32 :: "32 word" where "V4L2_PIX_FMT_RGB32 = v4l2_fourcc CHR ''R'' CHR ''G'' CHR ''B'' CHR ''4''"
definition V4L2_PIX_FMT_ARGB32 :: "32 word" where "V4L2_PIX_FMT_ARGB32 = v4l2_fourcc CHR ''B'' CHR ''A'' CHR ''2'' CHR ''4''"
definition V4L2_PIX_FMT_XRGB32 :: "32 word" where "V4L2_PIX_FMT_XRGB32 = v4l2_fourcc CHR ''B'' CHR ''X'' CHR ''2'' CHR ''4''"
definition V4L2_PIX_FMT_RGBA8888_UBWC :: "32 word" where "V4L2_PIX_FMT_RGBA8888_UBWC = v4l2_fourcc CHR ''Q'' CHR ''R'' CHR ''G'' CHR ''B''"
definition V4L2_PIX_FMT_GREY :: "32 word" where "V4L2_PIX_FMT_GREY = v4l2_fourcc CHR ''G'' CHR ''R'' CHR ''E'' CHR ''Y''"
definition V4L2_PIX_FMT_Y4 :: "32 word" where "V4L2_PIX_FMT_Y4 = v4l2_fourcc CHR ''Y'' CHR ''0'' CHR ''4'' CHR '' ''"
definition V4L2_PIX_FMT_Y6 :: "32 word" where "V4L2_PIX_FMT_Y6 = v4l2_fourcc CHR ''Y'' CHR ''0'' CHR ''6'' CHR '' ''"
definition V4L2_PIX_FMT_Y10 :: "32 word" where "V4L2_PIX_FMT_Y10 = v4l2_fourcc CHR ''Y'' CHR ''1'' CHR ''0'' CHR '' ''"
definition V4L2_PIX_FMT_Y12 :: "32 word" where "V4L2_PIX_FMT_Y12 = v4l2_fourcc CHR ''Y'' CHR ''1'' CHR ''2'' CHR '' ''"
definition V4L2_PIX_FMT_Y16 :: "32 word" where "V4L2_PIX_FMT_Y16 = v4l2_fourcc CHR ''Y'' CHR ''1'' CHR ''6'' CHR '' ''"
definition V4L2_PIX_FMT_Y16_BE :: "32 word" where "V4L2_PIX_FMT_Y16_BE = v4l2_fourcc_be CHR ''Y'' CHR ''1'' CHR ''6'' CHR '' ''"
definition V4L2_PIX_FMT_Y10BPACK :: "32 word" where "V4L2_PIX_FMT_Y10BPACK = v4l2_fourcc CHR ''Y'' CHR ''1'' CHR ''0'' CHR ''B''"
definition V4L2_PIX_FMT_PAL8 :: "32 word" where "V4L2_PIX_FMT_PAL8 = v4l2_fourcc CHR ''P'' CHR ''A'' CHR ''L'' CHR ''8''"
definition V4L2_PIX_FMT_UV8 :: "32 word" where "V4L2_PIX_FMT_UV8 = v4l2_fourcc CHR ''U'' CHR ''V'' CHR ''8'' CHR '' ''"
definition V4L2_PIX_FMT_YUYV :: "32 word" where "V4L2_PIX_FMT_YUYV = v4l2_fourcc CHR ''Y'' CHR ''U'' CHR ''Y'' CHR ''V''"
definition V4L2_PIX_FMT_YYUV :: "32 word" where "V4L2_PIX_FMT_YYUV = v4l2_fourcc CHR ''Y'' CHR ''Y'' CHR ''U'' CHR ''V''"
definition V4L2_PIX_FMT_YVYU :: "32 word" where "V4L2_PIX_FMT_YVYU = v4l2_fourcc CHR ''Y'' CHR ''V'' CHR ''Y'' CHR ''U''"
definition V4L2_PIX_FMT_UYVY :: "32 word" where "V4L2_PIX_FMT_UYVY = v4l2_fourcc CHR ''U'' CHR ''Y'' CHR ''V'' CHR ''Y''"
definition V4L2_PIX_FMT_VYUY :: "32 word" where "V4L2_PIX_FMT_VYUY = v4l2_fourcc CHR ''V'' CHR ''Y'' CHR ''U'' CHR ''Y''"
definition V4L2_PIX_FMT_Y41P :: "32 word" where "V4L2_PIX_FMT_Y41P = v4l2_fourcc CHR ''Y'' CHR ''4'' CHR ''1'' CHR ''P''"
definition V4L2_PIX_FMT_YUV444 :: "32 word" where "V4L2_PIX_FMT_YUV444 = v4l2_fourcc CHR ''Y'' CHR ''4'' CHR ''4'' CHR ''4''"
definition V4L2_PIX_FMT_YUV555 :: "32 word" where "V4L2_PIX_FMT_YUV555 = v4l2_fourcc CHR ''Y'' CHR ''U'' CHR ''V'' CHR ''O''"
definition V4L2_PIX_FMT_YUV565 :: "32 word" where "V4L2_PIX_FMT_YUV565 = v4l2_fourcc CHR ''Y'' CHR ''U'' CHR ''V'' CHR ''P''"
definition V4L2_PIX_FMT_YUV32 :: "32 word" where "V4L2_PIX_FMT_YUV32 = v4l2_fourcc CHR ''Y'' CHR ''U'' CHR ''V'' CHR ''4''"
definition V4L2_PIX_FMT_HI240 :: "32 word" where "V4L2_PIX_FMT_HI240 = v4l2_fourcc CHR ''H'' CHR ''I'' CHR ''2'' CHR ''4''"
definition V4L2_PIX_FMT_HM12 :: "32 word" where "V4L2_PIX_FMT_HM12 = v4l2_fourcc CHR ''H'' CHR ''M'' CHR ''1'' CHR ''2''"
definition V4L2_PIX_FMT_M420 :: "32 word" where "V4L2_PIX_FMT_M420 = v4l2_fourcc CHR ''M'' CHR ''4'' CHR ''2'' CHR ''0''"
definition V4L2_PIX_FMT_NV12 :: "32 word" where "V4L2_PIX_FMT_NV12 = v4l2_fourcc CHR ''N'' CHR ''V'' CHR ''1'' CHR ''2''"
definition V4L2_PIX_FMT_NV21 :: "32 word" where "V4L2_PIX_FMT_NV21 = v4l2_fourcc CHR ''N'' CHR ''V'' CHR ''2'' CHR ''1''"
definition V4L2_PIX_FMT_NV16 :: "32 word" where "V4L2_PIX_FMT_NV16 = v4l2_fourcc CHR ''N'' CHR ''V'' CHR ''1'' CHR ''6''"
definition V4L2_PIX_FMT_NV61 :: "32 word" where "V4L2_PIX_FMT_NV61 = v4l2_fourcc CHR ''N'' CHR ''V'' CHR ''6'' CHR ''1''"
definition V4L2_PIX_FMT_NV24 :: "32 word" where "V4L2_PIX_FMT_NV24 = v4l2_fourcc CHR ''N'' CHR ''V'' CHR ''2'' CHR ''4''"
definition V4L2_PIX_FMT_NV42 :: "32 word" where "V4L2_PIX_FMT_NV42 = v4l2_fourcc CHR ''N'' CHR ''V'' CHR ''4'' CHR ''2''"
definition V4L2_PIX_FMT_NV12_UBWC :: "32 word" where "V4L2_PIX_FMT_NV12_UBWC = v4l2_fourcc CHR ''Q'' CHR ''1'' CHR ''2'' CHR ''8''"
definition V4L2_PIX_FMT_NV12_TP10_UBWC :: "32 word" where "V4L2_PIX_FMT_NV12_TP10_UBWC = v4l2_fourcc CHR ''Q'' CHR ''1'' CHR ''2'' CHR ''A''"
definition V4L2_PIX_FMT_NV12_P010_UBWC :: "32 word" where "V4L2_PIX_FMT_NV12_P010_UBWC = v4l2_fourcc CHR ''Q'' CHR ''1'' CHR ''2'' CHR ''B''"
definition V4L2_PIX_FMT_NV12M :: "32 word" where "V4L2_PIX_FMT_NV12M = v4l2_fourcc CHR ''N'' CHR ''M'' CHR ''1'' CHR ''2''"
definition V4L2_PIX_FMT_NV21M :: "32 word" where "V4L2_PIX_FMT_NV21M = v4l2_fourcc CHR ''N'' CHR ''M'' CHR ''2'' CHR ''1''"
definition V4L2_PIX_FMT_NV16M :: "32 word" where "V4L2_PIX_FMT_NV16M = v4l2_fourcc CHR ''N'' CHR ''M'' CHR ''1'' CHR ''6''"
definition V4L2_PIX_FMT_NV61M :: "32 word" where "V4L2_PIX_FMT_NV61M = v4l2_fourcc CHR ''N'' CHR ''M'' CHR ''6'' CHR ''1''"
definition V4L2_PIX_FMT_NV12MT :: "32 word" where "V4L2_PIX_FMT_NV12MT = v4l2_fourcc CHR ''T'' CHR ''M'' CHR ''1'' CHR ''2''"
definition V4L2_PIX_FMT_NV12MT_16X16 :: "32 word" where "V4L2_PIX_FMT_NV12MT_16X16 = v4l2_fourcc CHR ''V'' CHR ''M'' CHR ''1'' CHR ''2''"
definition V4L2_PIX_FMT_YUV410 :: "32 word" where "V4L2_PIX_FMT_YUV410 = v4l2_fourcc CHR ''Y'' CHR ''U'' CHR ''V'' CHR ''9''"
definition V4L2_PIX_FMT_YVU410 :: "32 word" where "V4L2_PIX_FMT_YVU410 = v4l2_fourcc CHR ''Y'' CHR ''V'' CHR ''U'' CHR ''9''"
definition V4L2_PIX_FMT_YUV411P :: "32 word" where "V4L2_PIX_FMT_YUV411P = v4l2_fourcc CHR ''4'' CHR ''1'' CHR ''1'' CHR ''P''"
definition V4L2_PIX_FMT_YUV420 :: "32 word" where "V4L2_PIX_FMT_YUV420 = v4l2_fourcc CHR ''Y'' CHR ''U'' CHR ''1'' CHR ''2''"
definition V4L2_PIX_FMT_YVU420 :: "32 word" where "V4L2_PIX_FMT_YVU420 = v4l2_fourcc CHR ''Y'' CHR ''V'' CHR ''1'' CHR ''2''"
definition V4L2_PIX_FMT_YUV422P :: "32 word" where "V4L2_PIX_FMT_YUV422P = v4l2_fourcc CHR ''4'' CHR ''2'' CHR ''2'' CHR ''P''"
definition V4L2_PIX_FMT_YUV420M :: "32 word" where "V4L2_PIX_FMT_YUV420M = v4l2_fourcc CHR ''Y'' CHR ''M'' CHR ''1'' CHR ''2''"
definition V4L2_PIX_FMT_YVU420M :: "32 word" where "V4L2_PIX_FMT_YVU420M = v4l2_fourcc CHR ''Y'' CHR ''M'' CHR ''2'' CHR ''1''"
definition V4L2_PIX_FMT_YUV422M :: "32 word" where "V4L2_PIX_FMT_YUV422M = v4l2_fourcc CHR ''Y'' CHR ''M'' CHR ''1'' CHR ''6''"
definition V4L2_PIX_FMT_YVU422M :: "32 word" where "V4L2_PIX_FMT_YVU422M = v4l2_fourcc CHR ''Y'' CHR ''M'' CHR ''6'' CHR ''1''"
definition V4L2_PIX_FMT_YUV444M :: "32 word" where "V4L2_PIX_FMT_YUV444M = v4l2_fourcc CHR ''Y'' CHR ''M'' CHR ''2'' CHR ''4''"
definition V4L2_PIX_FMT_YVU444M :: "32 word" where "V4L2_PIX_FMT_YVU444M = v4l2_fourcc CHR ''Y'' CHR ''M'' CHR ''4'' CHR ''2''"
definition V4L2_PIX_FMT_SBGGR8 :: "32 word" where "V4L2_PIX_FMT_SBGGR8 = v4l2_fourcc CHR ''B'' CHR ''A'' CHR ''8'' CHR ''1''"
definition V4L2_PIX_FMT_SGBRG8 :: "32 word" where "V4L2_PIX_FMT_SGBRG8 = v4l2_fourcc CHR ''G'' CHR ''B'' CHR ''R'' CHR ''G''"
definition V4L2_PIX_FMT_SGRBG8 :: "32 word" where "V4L2_PIX_FMT_SGRBG8 = v4l2_fourcc CHR ''G'' CHR ''R'' CHR ''B'' CHR ''G''"
definition V4L2_PIX_FMT_SRGGB8 :: "32 word" where "V4L2_PIX_FMT_SRGGB8 = v4l2_fourcc CHR ''R'' CHR ''G'' CHR ''G'' CHR ''B''"
definition V4L2_PIX_FMT_SBGGR10 :: "32 word" where "V4L2_PIX_FMT_SBGGR10 = v4l2_fourcc CHR ''B'' CHR ''G'' CHR ''1'' CHR ''0''"
definition V4L2_PIX_FMT_SGBRG10 :: "32 word" where "V4L2_PIX_FMT_SGBRG10 = v4l2_fourcc CHR ''G'' CHR ''B'' CHR ''1'' CHR ''0''"
definition V4L2_PIX_FMT_SGRBG10 :: "32 word" where "V4L2_PIX_FMT_SGRBG10 = v4l2_fourcc CHR ''B'' CHR ''A'' CHR ''1'' CHR ''0''"
definition V4L2_PIX_FMT_SRGGB10 :: "32 word" where "V4L2_PIX_FMT_SRGGB10 = v4l2_fourcc CHR ''R'' CHR ''G'' CHR ''1'' CHR ''0''"
definition V4L2_PIX_FMT_SBGGR10P :: "32 word" where "V4L2_PIX_FMT_SBGGR10P = v4l2_fourcc CHR ''p'' CHR ''B'' CHR ''A'' CHR ''A''"
definition V4L2_PIX_FMT_SGBRG10P :: "32 word" where "V4L2_PIX_FMT_SGBRG10P = v4l2_fourcc CHR ''p'' CHR ''G'' CHR ''A'' CHR ''A''"
definition V4L2_PIX_FMT_SGRBG10P :: "32 word" where "V4L2_PIX_FMT_SGRBG10P = v4l2_fourcc CHR ''p'' CHR ''g'' CHR ''A'' CHR ''A''"
definition V4L2_PIX_FMT_SRGGB10P :: "32 word" where "V4L2_PIX_FMT_SRGGB10P = v4l2_fourcc CHR ''p'' CHR ''R'' CHR ''A'' CHR ''A''"
definition V4L2_PIX_FMT_SBGGR10ALAW8 :: "32 word" where "V4L2_PIX_FMT_SBGGR10ALAW8 = v4l2_fourcc CHR ''a'' CHR ''B'' CHR ''A'' CHR ''8''"
definition V4L2_PIX_FMT_SGBRG10ALAW8 :: "32 word" where "V4L2_PIX_FMT_SGBRG10ALAW8 = v4l2_fourcc CHR ''a'' CHR ''G'' CHR ''A'' CHR ''8''"
definition V4L2_PIX_FMT_SGRBG10ALAW8 :: "32 word" where "V4L2_PIX_FMT_SGRBG10ALAW8 = v4l2_fourcc CHR ''a'' CHR ''g'' CHR ''A'' CHR ''8''"
definition V4L2_PIX_FMT_SRGGB10ALAW8 :: "32 word" where "V4L2_PIX_FMT_SRGGB10ALAW8 = v4l2_fourcc CHR ''a'' CHR ''R'' CHR ''A'' CHR ''8''"
definition V4L2_PIX_FMT_SBGGR10DPCM8 :: "32 word" where "V4L2_PIX_FMT_SBGGR10DPCM8 = v4l2_fourcc CHR ''b'' CHR ''B'' CHR ''A'' CHR ''8''"
definition V4L2_PIX_FMT_SGBRG10DPCM8 :: "32 word" where "V4L2_PIX_FMT_SGBRG10DPCM8 = v4l2_fourcc CHR ''b'' CHR ''G'' CHR ''A'' CHR ''8''"
definition V4L2_PIX_FMT_SGRBG10DPCM8 :: "32 word" where "V4L2_PIX_FMT_SGRBG10DPCM8 = v4l2_fourcc CHR ''B'' CHR ''D'' CHR ''1'' CHR ''0''"
definition V4L2_PIX_FMT_SRGGB10DPCM8 :: "32 word" where "V4L2_PIX_FMT_SRGGB10DPCM8 = v4l2_fourcc CHR ''b'' CHR ''R'' CHR ''A'' CHR ''8''"
definition V4L2_PIX_FMT_SBGGR12 :: "32 word" where "V4L2_PIX_FMT_SBGGR12 = v4l2_fourcc CHR ''B'' CHR ''G'' CHR ''1'' CHR ''2''"
definition V4L2_PIX_FMT_SGBRG12 :: "32 word" where "V4L2_PIX_FMT_SGBRG12 = v4l2_fourcc CHR ''G'' CHR ''B'' CHR ''1'' CHR ''2''"
definition V4L2_PIX_FMT_SGRBG12 :: "32 word" where "V4L2_PIX_FMT_SGRBG12 = v4l2_fourcc CHR ''B'' CHR ''A'' CHR ''1'' CHR ''2''"
definition V4L2_PIX_FMT_SRGGB12 :: "32 word" where "V4L2_PIX_FMT_SRGGB12 = v4l2_fourcc CHR ''R'' CHR ''G'' CHR ''1'' CHR ''2''"
definition V4L2_PIX_FMT_SBGGR16 :: "32 word" where "V4L2_PIX_FMT_SBGGR16 = v4l2_fourcc CHR ''B'' CHR ''Y'' CHR ''R'' CHR ''2''"
definition V4L2_PIX_FMT_SBGGR10DPCM6 :: "32 word" where "V4L2_PIX_FMT_SBGGR10DPCM6 = v4l2_fourcc CHR ''b'' CHR ''B'' CHR ''A'' CHR ''6''"
definition V4L2_PIX_FMT_SGBRG10DPCM6 :: "32 word" where "V4L2_PIX_FMT_SGBRG10DPCM6 = v4l2_fourcc CHR ''b'' CHR ''G'' CHR ''A'' CHR ''6''"
definition V4L2_PIX_FMT_SGRBG10DPCM6 :: "32 word" where "V4L2_PIX_FMT_SGRBG10DPCM6 = v4l2_fourcc CHR ''B'' CHR ''D'' CHR ''1'' CHR ''6''"
definition V4L2_PIX_FMT_SRGGB10DPCM6 :: "32 word" where "V4L2_PIX_FMT_SRGGB10DPCM6 = v4l2_fourcc CHR ''b'' CHR ''R'' CHR ''A'' CHR ''6''"
definition V4L2_PIX_FMT_SBGGRPLAIN16 :: "32 word" where "V4L2_PIX_FMT_SBGGRPLAIN16 = v4l2_fourcc CHR ''B'' CHR ''G'' CHR ''1'' CHR ''6''"
definition V4L2_PIX_FMT_SGBRGPLAIN16 :: "32 word" where "V4L2_PIX_FMT_SGBRGPLAIN16 = v4l2_fourcc CHR ''G'' CHR ''B'' CHR ''1'' CHR ''6''"
definition V4L2_PIX_FMT_SGRBGPLAIN16 :: "32 word" where "V4L2_PIX_FMT_SGRBGPLAIN16 = v4l2_fourcc CHR ''G'' CHR ''R'' CHR ''1'' CHR ''6''"
definition V4L2_PIX_FMT_SRGGBPLAIN16 :: "32 word" where "V4L2_PIX_FMT_SRGGBPLAIN16 = v4l2_fourcc CHR ''R'' CHR ''G'' CHR ''1'' CHR ''6''"
definition V4L2_PIX_FMT_MJPEG :: "32 word" where "V4L2_PIX_FMT_MJPEG = v4l2_fourcc CHR ''M'' CHR ''J'' CHR ''P'' CHR ''G''"
definition V4L2_PIX_FMT_JPEG :: "32 word" where "V4L2_PIX_FMT_JPEG = v4l2_fourcc CHR ''J'' CHR ''P'' CHR ''E'' CHR ''G''"
definition V4L2_PIX_FMT_DV :: "32 word" where "V4L2_PIX_FMT_DV = v4l2_fourcc CHR ''d'' CHR ''v'' CHR ''s'' CHR ''d''"
definition V4L2_PIX_FMT_MPEG :: "32 word" where "V4L2_PIX_FMT_MPEG = v4l2_fourcc CHR ''M'' CHR ''P'' CHR ''E'' CHR ''G''"
definition V4L2_PIX_FMT_H264 :: "32 word" where "V4L2_PIX_FMT_H264 = v4l2_fourcc CHR ''H'' CHR ''2'' CHR ''6'' CHR ''4''"
definition V4L2_PIX_FMT_H264_NO_SC :: "32 word" where "V4L2_PIX_FMT_H264_NO_SC = v4l2_fourcc CHR ''A'' CHR ''V'' CHR ''C'' CHR ''1''"
definition V4L2_PIX_FMT_H264_MVC :: "32 word" where "V4L2_PIX_FMT_H264_MVC = v4l2_fourcc CHR ''M'' CHR ''2'' CHR ''6'' CHR ''4''"
definition V4L2_PIX_FMT_H263 :: "32 word" where "V4L2_PIX_FMT_H263 = v4l2_fourcc CHR ''H'' CHR ''2'' CHR ''6'' CHR ''3''"
definition V4L2_PIX_FMT_MPEG1 :: "32 word" where "V4L2_PIX_FMT_MPEG1 = v4l2_fourcc CHR ''M'' CHR ''P'' CHR ''G'' CHR ''1''"
definition V4L2_PIX_FMT_MPEG2 :: "32 word" where "V4L2_PIX_FMT_MPEG2 = v4l2_fourcc CHR ''M'' CHR ''P'' CHR ''G'' CHR ''2''"
definition V4L2_PIX_FMT_MPEG4 :: "32 word" where "V4L2_PIX_FMT_MPEG4 = v4l2_fourcc CHR ''M'' CHR ''P'' CHR ''G'' CHR ''4''"
definition V4L2_PIX_FMT_XVID :: "32 word" where "V4L2_PIX_FMT_XVID = v4l2_fourcc CHR ''X'' CHR ''V'' CHR ''I'' CHR ''D''"
definition V4L2_PIX_FMT_VC1_ANNEX_G :: "32 word" where "V4L2_PIX_FMT_VC1_ANNEX_G = v4l2_fourcc CHR ''V'' CHR ''C'' CHR ''1'' CHR ''G''"
definition V4L2_PIX_FMT_VC1_ANNEX_L :: "32 word" where "V4L2_PIX_FMT_VC1_ANNEX_L = v4l2_fourcc CHR ''V'' CHR ''C'' CHR ''1'' CHR ''L''"
definition V4L2_PIX_FMT_VP8 :: "32 word" where "V4L2_PIX_FMT_VP8 = v4l2_fourcc CHR ''V'' CHR ''P'' CHR ''8'' CHR ''0''"
definition V4L2_PIX_FMT_VP9 :: "32 word" where "V4L2_PIX_FMT_VP9 = v4l2_fourcc CHR ''V'' CHR ''P'' CHR ''9'' CHR ''0''"
definition V4L2_PIX_FMT_DIVX_311 :: "32 word" where "V4L2_PIX_FMT_DIVX_311 = v4l2_fourcc CHR ''D'' CHR ''I'' CHR ''V'' CHR ''3''"
definition V4L2_PIX_FMT_DIVX :: "32 word" where "V4L2_PIX_FMT_DIVX = v4l2_fourcc CHR ''D'' CHR ''I'' CHR ''V'' CHR ''X''"
definition V4L2_PIX_FMT_HEVC :: "32 word" where "V4L2_PIX_FMT_HEVC = v4l2_fourcc CHR ''H'' CHR ''E'' CHR ''V'' CHR ''C''"
definition V4L2_PIX_FMT_HEVC_HYBRID :: "32 word" where "V4L2_PIX_FMT_HEVC_HYBRID = v4l2_fourcc CHR ''H'' CHR ''V'' CHR ''C'' CHR ''H''"
definition V4L2_PIX_FMT_TME :: "32 word" where "V4L2_PIX_FMT_TME = v4l2_fourcc CHR ''T'' CHR ''M'' CHR ''E'' CHR ''0''"
definition V4L2_PIX_FMT_CPIA1 :: "32 word" where "V4L2_PIX_FMT_CPIA1 = v4l2_fourcc CHR ''C'' CHR ''P'' CHR ''I'' CHR ''A''"
definition V4L2_PIX_FMT_WNVA :: "32 word" where "V4L2_PIX_FMT_WNVA = v4l2_fourcc CHR ''W'' CHR ''N'' CHR ''V'' CHR ''A''"
definition V4L2_PIX_FMT_SN9C10X :: "32 word" where "V4L2_PIX_FMT_SN9C10X = v4l2_fourcc CHR ''S'' CHR ''9'' CHR ''1'' CHR ''0''"
definition V4L2_PIX_FMT_SN9C20X_I420 :: "32 word" where "V4L2_PIX_FMT_SN9C20X_I420 = v4l2_fourcc CHR ''S'' CHR ''9'' CHR ''2'' CHR ''0''"
definition V4L2_PIX_FMT_PWC1 :: "32 word" where "V4L2_PIX_FMT_PWC1 = v4l2_fourcc CHR ''P'' CHR ''W'' CHR ''C'' CHR ''1''"
definition V4L2_PIX_FMT_PWC2 :: "32 word" where "V4L2_PIX_FMT_PWC2 = v4l2_fourcc CHR ''P'' CHR ''W'' CHR ''C'' CHR ''2''"
definition V4L2_PIX_FMT_ET61X251 :: "32 word" where "V4L2_PIX_FMT_ET61X251 = v4l2_fourcc CHR ''E'' CHR ''6'' CHR ''2'' CHR ''5''"
definition V4L2_PIX_FMT_SPCA501 :: "32 word" where "V4L2_PIX_FMT_SPCA501 = v4l2_fourcc CHR ''S'' CHR ''5'' CHR ''0'' CHR ''1''"
definition V4L2_PIX_FMT_SPCA505 :: "32 word" where "V4L2_PIX_FMT_SPCA505 = v4l2_fourcc CHR ''S'' CHR ''5'' CHR ''0'' CHR ''5''"
definition V4L2_PIX_FMT_SPCA508 :: "32 word" where "V4L2_PIX_FMT_SPCA508 = v4l2_fourcc CHR ''S'' CHR ''5'' CHR ''0'' CHR ''8''"
definition V4L2_PIX_FMT_SPCA561 :: "32 word" where "V4L2_PIX_FMT_SPCA561 = v4l2_fourcc CHR ''S'' CHR ''5'' CHR ''6'' CHR ''1''"
definition V4L2_PIX_FMT_PAC207 :: "32 word" where "V4L2_PIX_FMT_PAC207 = v4l2_fourcc CHR ''P'' CHR ''2'' CHR ''0'' CHR ''7''"
definition V4L2_PIX_FMT_MR97310A :: "32 word" where "V4L2_PIX_FMT_MR97310A = v4l2_fourcc CHR ''M'' CHR ''3'' CHR ''1'' CHR ''0''"
definition V4L2_PIX_FMT_JL2005BCD :: "32 word" where "V4L2_PIX_FMT_JL2005BCD = v4l2_fourcc CHR ''J'' CHR ''L'' CHR ''2'' CHR ''0''"
definition V4L2_PIX_FMT_SN9C2028 :: "32 word" where "V4L2_PIX_FMT_SN9C2028 = v4l2_fourcc CHR ''S'' CHR ''O'' CHR ''N'' CHR ''X''"
definition V4L2_PIX_FMT_SQ905C :: "32 word" where "V4L2_PIX_FMT_SQ905C = v4l2_fourcc CHR ''9'' CHR ''0'' CHR ''5'' CHR ''C''"
definition V4L2_PIX_FMT_PJPG :: "32 word" where "V4L2_PIX_FMT_PJPG = v4l2_fourcc CHR ''P'' CHR ''J'' CHR ''P'' CHR ''G''"
definition V4L2_PIX_FMT_OV511 :: "32 word" where "V4L2_PIX_FMT_OV511 = v4l2_fourcc CHR ''O'' CHR ''5'' CHR ''1'' CHR ''1''"
definition V4L2_PIX_FMT_OV518 :: "32 word" where "V4L2_PIX_FMT_OV518 = v4l2_fourcc CHR ''O'' CHR ''5'' CHR ''1'' CHR ''8''"
definition V4L2_PIX_FMT_STV0680 :: "32 word" where "V4L2_PIX_FMT_STV0680 = v4l2_fourcc CHR ''S'' CHR ''6'' CHR ''8'' CHR ''0''"
definition V4L2_PIX_FMT_TM6000 :: "32 word" where "V4L2_PIX_FMT_TM6000 = v4l2_fourcc CHR ''T'' CHR ''M'' CHR ''6'' CHR ''0''"
definition V4L2_PIX_FMT_CIT_YYVYUY :: "32 word" where "V4L2_PIX_FMT_CIT_YYVYUY = v4l2_fourcc CHR ''C'' CHR ''I'' CHR ''T'' CHR ''V''"
definition V4L2_PIX_FMT_KONICA420 :: "32 word" where "V4L2_PIX_FMT_KONICA420 = v4l2_fourcc CHR ''K'' CHR ''O'' CHR ''N'' CHR ''I''"
definition V4L2_PIX_FMT_JPGL :: "32 word" where "V4L2_PIX_FMT_JPGL = v4l2_fourcc CHR ''J'' CHR ''P'' CHR ''G'' CHR ''L''"
definition V4L2_PIX_FMT_SE401 :: "32 word" where "V4L2_PIX_FMT_SE401 = v4l2_fourcc CHR ''S'' CHR ''4'' CHR ''0'' CHR ''1''"
definition V4L2_PIX_FMT_S5C_UYVY_JPG :: "32 word" where "V4L2_PIX_FMT_S5C_UYVY_JPG = v4l2_fourcc CHR ''S'' CHR ''5'' CHR ''C'' CHR ''I''"
definition V4L2_PIX_FMT_Y8I :: "32 word" where "V4L2_PIX_FMT_Y8I = v4l2_fourcc CHR ''Y'' CHR ''8'' CHR ''I'' CHR '' ''"
definition V4L2_PIX_FMT_Y12I :: "32 word" where "V4L2_PIX_FMT_Y12I = v4l2_fourcc CHR ''Y'' CHR ''1'' CHR ''2'' CHR ''I''"
definition V4L2_PIX_FMT_Z16 :: "32 word" where "V4L2_PIX_FMT_Z16 = v4l2_fourcc CHR ''Z'' CHR ''1'' CHR ''6'' CHR '' ''"
definition V4L2_PIX_FMT_SDE_ABGR_8888 :: "32 word" where "V4L2_PIX_FMT_SDE_ABGR_8888 = v4l2_fourcc CHR ''R'' CHR ''A'' CHR ''2'' CHR ''4''"
definition V4L2_PIX_FMT_SDE_RGBA_8888 :: "32 word" where "V4L2_PIX_FMT_SDE_RGBA_8888 = v4l2_fourcc CHR ''A'' CHR ''B'' CHR ''2'' CHR ''4''"
definition V4L2_PIX_FMT_SDE_RGBX_8888 :: "32 word" where "V4L2_PIX_FMT_SDE_RGBX_8888 = v4l2_fourcc CHR ''X'' CHR ''B'' CHR ''2'' CHR ''4''"
definition V4L2_PIX_FMT_SDE_XBGR_8888 :: "32 word" where "V4L2_PIX_FMT_SDE_XBGR_8888 = v4l2_fourcc CHR ''R'' CHR ''X'' CHR ''2'' CHR ''4''"
definition V4L2_PIX_FMT_SDE_RGBA_5551 :: "32 word" where "V4L2_PIX_FMT_SDE_RGBA_5551 = v4l2_fourcc CHR ''R'' CHR ''A'' CHR ''1'' CHR ''5''"
definition V4L2_PIX_FMT_SDE_ABGR_1555 :: "32 word" where "V4L2_PIX_FMT_SDE_ABGR_1555 = v4l2_fourcc CHR ''A'' CHR ''B'' CHR ''1'' CHR ''5''"
definition V4L2_PIX_FMT_SDE_BGRA_5551 :: "32 word" where "V4L2_PIX_FMT_SDE_BGRA_5551 = v4l2_fourcc CHR ''B'' CHR ''A'' CHR ''1'' CHR ''5''"
definition V4L2_PIX_FMT_SDE_BGRX_5551 :: "32 word" where "V4L2_PIX_FMT_SDE_BGRX_5551 = v4l2_fourcc CHR ''B'' CHR ''X'' CHR ''1'' CHR ''5''"
definition V4L2_PIX_FMT_SDE_RGBX_5551 :: "32 word" where "V4L2_PIX_FMT_SDE_RGBX_5551 = v4l2_fourcc CHR ''R'' CHR ''X'' CHR ''1'' CHR ''5''"
definition V4L2_PIX_FMT_SDE_XBGR_1555 :: "32 word" where "V4L2_PIX_FMT_SDE_XBGR_1555 = v4l2_fourcc CHR ''X'' CHR ''B'' CHR ''1'' CHR ''5''"
definition V4L2_PIX_FMT_SDE_RGBA_4444 :: "32 word" where "V4L2_PIX_FMT_SDE_RGBA_4444 = v4l2_fourcc CHR ''R'' CHR ''A'' CHR ''1'' CHR ''2''"
definition V4L2_PIX_FMT_SDE_BGRA_4444 :: "32 word" where "V4L2_PIX_FMT_SDE_BGRA_4444 = v4l2_fourcc CHR ''b'' CHR ''A'' CHR ''1'' CHR ''2''"
definition V4L2_PIX_FMT_SDE_ABGR_4444 :: "32 word" where "V4L2_PIX_FMT_SDE_ABGR_4444 = v4l2_fourcc CHR ''A'' CHR ''B'' CHR ''1'' CHR ''2''"
definition V4L2_PIX_FMT_SDE_RGBX_4444 :: "32 word" where "V4L2_PIX_FMT_SDE_RGBX_4444 = v4l2_fourcc CHR ''R'' CHR ''X'' CHR ''1'' CHR ''2''"
definition V4L2_PIX_FMT_SDE_BGRX_4444 :: "32 word" where "V4L2_PIX_FMT_SDE_BGRX_4444 = v4l2_fourcc CHR ''B'' CHR ''X'' CHR ''1'' CHR ''2''"
definition V4L2_PIX_FMT_SDE_XBGR_4444 :: "32 word" where "V4L2_PIX_FMT_SDE_XBGR_4444 = v4l2_fourcc CHR ''X'' CHR ''B'' CHR ''1'' CHR ''2''"
definition V4L2_PIX_FMT_SDE_BGR_565 :: "32 word" where "V4L2_PIX_FMT_SDE_BGR_565 = v4l2_fourcc CHR ''B'' CHR ''G'' CHR ''1'' CHR ''6''"
definition V4L2_PIX_FMT_SDE_Y_CR_CB_GH2V2 :: "32 word" where "V4L2_PIX_FMT_SDE_Y_CR_CB_GH2V2 = v4l2_fourcc CHR ''Y'' CHR ''U'' CHR ''4'' CHR ''2''"
definition V4L2_PIX_FMT_SDE_Y_CBCR_H1V2 :: "32 word" where "V4L2_PIX_FMT_SDE_Y_CBCR_H1V2 = v4l2_fourcc CHR ''N'' CHR ''H'' CHR ''1'' CHR ''6''"
definition V4L2_PIX_FMT_SDE_Y_CRCB_H1V2 :: "32 word" where "V4L2_PIX_FMT_SDE_Y_CRCB_H1V2 = v4l2_fourcc CHR ''N'' CHR ''H'' CHR ''6'' CHR ''1''"
definition V4L2_PIX_FMT_SDE_Y_CBCR_H2V2_VENUS :: "32 word" where "V4L2_PIX_FMT_SDE_Y_CBCR_H2V2_VENUS = v4l2_fourcc CHR ''Q'' CHR ''N'' CHR ''V'' CHR ''2''"
definition V4L2_PIX_FMT_SDE_Y_CRCB_H2V2_VENUS :: "32 word" where "V4L2_PIX_FMT_SDE_Y_CRCB_H2V2_VENUS = v4l2_fourcc CHR ''Q'' CHR ''N'' CHR ''V'' CHR ''1''"
definition V4L2_PIX_FMT_SDE_RGBX_8888_UBWC :: "32 word" where "V4L2_PIX_FMT_SDE_RGBX_8888_UBWC = v4l2_fourcc CHR ''Q'' CHR ''X'' CHR ''B'' CHR ''4''"
definition V4L2_PIX_FMT_SDE_RGB_565_UBWC :: "32 word" where "V4L2_PIX_FMT_SDE_RGB_565_UBWC = v4l2_fourcc CHR ''Q'' CHR ''R'' CHR ''G'' CHR ''6''"
definition V4L2_PIX_FMT_SDE_RGBA_1010102 :: "32 word" where "V4L2_PIX_FMT_SDE_RGBA_1010102 = v4l2_fourcc CHR ''A'' CHR ''B'' CHR ''3'' CHR ''0''"
definition V4L2_PIX_FMT_SDE_RGBX_1010102 :: "32 word" where "V4L2_PIX_FMT_SDE_RGBX_1010102 = v4l2_fourcc CHR ''X'' CHR ''B'' CHR ''3'' CHR ''0''"
definition V4L2_PIX_FMT_SDE_ARGB_2101010 :: "32 word" where "V4L2_PIX_FMT_SDE_ARGB_2101010 = v4l2_fourcc CHR ''A'' CHR ''R'' CHR ''3'' CHR ''0''"
definition V4L2_PIX_FMT_SDE_XRGB_2101010 :: "32 word" where "V4L2_PIX_FMT_SDE_XRGB_2101010 = v4l2_fourcc CHR ''X'' CHR ''R'' CHR ''3'' CHR ''0''"
definition V4L2_PIX_FMT_SDE_BGRA_1010102 :: "32 word" where "V4L2_PIX_FMT_SDE_BGRA_1010102 = v4l2_fourcc CHR ''B'' CHR ''A'' CHR ''3'' CHR ''0''"
definition V4L2_PIX_FMT_SDE_BGRX_1010102 :: "32 word" where "V4L2_PIX_FMT_SDE_BGRX_1010102 = v4l2_fourcc CHR ''B'' CHR ''X'' CHR ''3'' CHR ''0''"
definition V4L2_PIX_FMT_SDE_ABGR_2101010 :: "32 word" where "V4L2_PIX_FMT_SDE_ABGR_2101010 = v4l2_fourcc CHR ''R'' CHR ''A'' CHR ''3'' CHR ''0''"
definition V4L2_PIX_FMT_SDE_XBGR_2101010 :: "32 word" where "V4L2_PIX_FMT_SDE_XBGR_2101010 = v4l2_fourcc CHR ''R'' CHR ''X'' CHR ''3'' CHR ''0''"
definition V4L2_PIX_FMT_SDE_RGBA_1010102_UBWC :: "32 word" where "V4L2_PIX_FMT_SDE_RGBA_1010102_UBWC = v4l2_fourcc CHR ''Q'' CHR ''R'' CHR ''B'' CHR ''A''"
definition V4L2_PIX_FMT_SDE_RGBX_1010102_UBWC :: "32 word" where "V4L2_PIX_FMT_SDE_RGBX_1010102_UBWC = v4l2_fourcc CHR ''Q'' CHR ''X'' CHR ''B'' CHR ''A''"
definition V4L2_PIX_FMT_SDE_Y_CBCR_H2V2_TP10 :: "32 word" where "V4L2_PIX_FMT_SDE_Y_CBCR_H2V2_TP10 = v4l2_fourcc CHR ''T'' CHR ''P'' CHR ''1'' CHR ''0''"
definition V4L2_PIX_FMT_SDE_Y_CBCR_H2V2_P010 :: "32 word" where "V4L2_PIX_FMT_SDE_Y_CBCR_H2V2_P010 = v4l2_fourcc CHR ''P'' CHR ''0'' CHR ''1'' CHR ''0''"
definition V4L2_PIX_FMT_SDE_Y_CBCR_H2V2_P010_VENUS :: "32 word" where "V4L2_PIX_FMT_SDE_Y_CBCR_H2V2_P010_VENUS = v4l2_fourcc CHR ''Q'' CHR ''P'' CHR ''1'' CHR ''0''"
definition V4L2_SDR_FMT_CU8 :: "32 word" where "V4L2_SDR_FMT_CU8 = v4l2_fourcc CHR ''C'' CHR ''U'' CHR ''0'' CHR ''8''"
definition V4L2_SDR_FMT_CU16LE :: "32 word" where "V4L2_SDR_FMT_CU16LE = v4l2_fourcc CHR ''C'' CHR ''U'' CHR ''1'' CHR ''6''"
definition V4L2_SDR_FMT_CS8 :: "32 word" where "V4L2_SDR_FMT_CS8 = v4l2_fourcc CHR ''C'' CHR ''S'' CHR ''0'' CHR ''8''"
definition V4L2_SDR_FMT_CS14LE :: "32 word" where "V4L2_SDR_FMT_CS14LE = v4l2_fourcc CHR ''C'' CHR ''S'' CHR ''1'' CHR ''4''"
definition V4L2_SDR_FMT_RU12LE :: "32 word" where "V4L2_SDR_FMT_RU12LE = v4l2_fourcc CHR ''R'' CHR ''U'' CHR ''1'' CHR ''2''"
definition V4L2_TCH_FMT_DELTA_TD16 :: "32 word" where "V4L2_TCH_FMT_DELTA_TD16 = v4l2_fourcc CHR ''T'' CHR ''D'' CHR ''1'' CHR ''6''"
definition V4L2_TCH_FMT_DELTA_TD08 :: "32 word" where "V4L2_TCH_FMT_DELTA_TD08 = v4l2_fourcc CHR ''T'' CHR ''D'' CHR ''0'' CHR ''8''"
definition V4L2_TCH_FMT_TU16 :: "32 word" where "V4L2_TCH_FMT_TU16 = v4l2_fourcc CHR ''T'' CHR ''U'' CHR ''1'' CHR ''6''"
definition V4L2_TCH_FMT_TU08 :: "32 word" where "V4L2_TCH_FMT_TU08 = v4l2_fourcc CHR ''T'' CHR ''U'' CHR ''0'' CHR ''8''"

section \<open>Fields, buffers and colour spaces\<close>

datatype v4l2_field =
    V4L2_FIELD_ANY
  | V4L2_FIELD_NONE
  | V4L2_FIELD_TOP
  | V4L2_FIELD_BOTTOM
  | V4L2_FIELD_INTERLACED
  | V4L2_FIELD_SEQ_TB
  | V4L2_FIELD_SEQ_BT
  | V4L2_FIELD_ALTERNATE
  | V4L2_FIELD_INTERLACED_TB
  | V4L2_FIELD_INTERLACED_BT

datatype v4l2_buf_type =
    V4L2_BUF_TYPE_VIDEO_CAPTURE
  | V4L2_BUF_TYPE_VIDEO_OUTPUT
  | V4L2_BUF_TYPE_VIDEO_OVERLAY
  | V4L2_BUF_TYPE_VBI_CAPTURE
  | V4L2_BUF_TYPE_VBI_OUTPUT
  | V4L2_BUF_TYPE_SLICED_VBI_CAPTURE
  | V4L2_BUF_TYPE_SLICED_VBI_OUTPUT
  | V4L2_BUF_TYPE_VIDEO_OUTPUT_OVERLAY
  | V4L2_BUF_TYPE_VIDEO_CAPTURE_MPLANE
  | V4L2_BUF_TYPE_VIDEO_OUTPUT_MPLANE
  | V4L2_BUF_TYPE_SDR_CAPTURE
  | V4L2_BUF_TYPE_SDR_OUTPUT
  | V4L2_BUF_TYPE_PRIVATE

datatype v4l2_colorspace =
    V4L2_COLORSPACE_DEFAULT
  | V4L2_COLORSPACE_SMPTE170M
  | V4L2_COLORSPACE_SMPTE240M
  | V4L2_COLORSPACE_REC709
  | V4L2_COLORSPACE_BT878
  | V4L2_COLORSPACE_470_SYSTEM_M
  | V4L2_COLORSPACE_470_SYSTEM_BG
  | V4L2_COLORSPACE_JPEG
  | V4L2_COLORSPACE_SRGB
  | V4L2_COLORSPACE_ADOBERGB
  | V4L2_COLORSPACE_BT2020
  | V4L2_COLORSPACE_RAW
  | V4L2_COLORSPACE_DCI_P3

datatype v4l2_xfer_func =
    V4L2_XFER_FUNC_DEFAULT
  | V4L2_XFER_FUNC_709
  | V4L2_XFER_FUNC_SRGB
  | V4L2_XFER_FUNC_ADOBERGB
  | V4L2_XFER_FUNC_SMPTE240M
  | V4L2_XFER_FUNC_NONE
  | V4L2_XFER_FUNC_DCI_P3
  | V4L2_XFER_FUNC_SMPTE2084

datatype v4l2_ycbcr_encoding =
    V4L2_YCBCR_ENC_DEFAULT
  | V4L2_YCBCR_ENC_601
  | V4L2_YCBCR_ENC_709
  | V4L2_YCBCR_ENC_XV601
  | V4L2_YCBCR_ENC_XV709
  | V4L2_YCBCR_ENC_SYCC
  | V4L2_YCBCR_ENC_BT2020
  | V4L2_YCBCR_ENC_BT2020_CONST_LUM
  | V4L2_YCBCR_ENC_SMPTE240M

datatype v4l2_quantization =
    V4L2_QUANTIZATION_DEFAULT
  | V4L2_QUANTIZATION_FULL_RANGE
  | V4L2_QUANTIZATION_LIM_RANGE

definition V4L2_FIELD_HAS_TOP :: "v4l2_field \<Rightarrow> bool" where
  "V4L2_FIELD_HAS_TOP field \<longleftrightarrow> field = V4L2_FIELD_TOP
     \<or> field = V4L2_FIELD_INTERLACED
     \<or> field = V4L2_FIELD_INTERLACED_TB
     \<or> field = V4L2_FIELD_INTERLACED_BT
     \<or> field = V4L2_FIELD_SEQ_TB
     \<or> field = V4L2_FIELD_SEQ_BT"

definition V4L2_FIELD_HAS_BOTTOM :: "v4l2_field \<Rightarrow> bool" where
  "V4L2_FIELD_HAS_BOTTOM field \<longleftrightarrow> field = V4L2_FIELD_BOTTOM
     \<or> field = V4L2_FIELD_INTERLACED
     \<or> field = V4L2_FIELD_INTERLACED_TB
     \<or> field = V4L2_FIELD_INTERLACED_BT
     \<or> field = V4L2_FIELD_SEQ_TB
     \<or> field = V4L2_FIELD_SEQ_BT"

definition V4L2_FIELD_HAS_BOTH :: "v4l2_field \<Rightarrow> bool" where
  "V4L2_FIELD_HAS_BOTH field \<longleftrightarrow> field = V4L2_FIELD_INTERLACED
     \<or> field = V4L2_FIELD_INTERLACED_TB
     \<or> field = V4L2_FIELD_INTERLACED_BT
     \<or> field = V4L2_FIELD_SEQ_TB
     \<or> field = V4L2_FIELD_SEQ_BT"

definition V4L2_FIELD_HAS_T_OR_B :: "v4l2_field \<Rightarrow> bool" where
  "V4L2_FIELD_HAS_T_OR_B field \<longleftrightarrow> field = V4L2_FIELD_BOTTOM
     \<or> field = V4L2_FIELD_TOP
     \<or> field = V4L2_FIELD_ALTERNATE"

definition V4L2_TYPE_IS_MULTIPLANAR :: "v4l2_buf_type \<Rightarrow> bool" where
  "V4L2_TYPE_IS_MULTIPLANAR type \<longleftrightarrow> type = V4L2_BUF_TYPE_VIDEO_CAPTURE_MPLANE
     \<or> type = V4L2_BUF_TYPE_VIDEO_OUTPUT_MPLANE"

definition V4L2_TYPE_IS_OUTPUT :: "v4l2_buf_type \<Rightarrow> bool" where
  "V4L2_TYPE_IS_OUTPUT type \<longleftrightarrow> type = V4L2_BUF_TYPE_VIDEO_OUTPUT
     \<or> type = V4L2_BUF_TYPE_VIDEO_OUTPUT_MPLANE
     \<or> type = V4L2_BUF_TYPE_VIDEO_OVERLAY
     \<or> type = V4L2_BUF_TYPE_VIDEO_OUTPUT_OVERLAY
     \<or> type = V4L2_BUF_TYPE_VBI_OUTPUT
     \<or> type = V4L2_BUF_TYPE_SLICED_VBI_OUTPUT
     \<or> type = V4L2_BUF_TYPE_SDR_OUTPUT"

definition V4L2_MAP_COLORSPACE_DEFAULT :: "bool \<Rightarrow> bool \<Rightarrow> v4l2_colorspace" where
  "V4L2_MAP_COLORSPACE_DEFAULT is_sdtv is_hdtv =
     (if is_sdtv then V4L2_COLORSPACE_SMPTE170M else if is_hdtv then V4L2_COLORSPACE_REC709 else V4L2_COLORSPACE_SRGB)"

definition V4L2_MAP_XFER_FUNC_DEFAULT :: "v4l2_colorspace \<Rightarrow> v4l2_xfer_func" where
  "V4L2_MAP_XFER_FUNC_DEFAULT colsp =
     (if colsp = V4L2_COLORSPACE_ADOBERGB then V4L2_XFER_FUNC_ADOBERGB
      else if colsp = V4L2_COLORSPACE_SMPTE240M then V4L2_XFER_FUNC_SMPTE240M
      else if colsp = V4L2_COLORSPACE_DCI_P3 then V4L2_XFER_FUNC_DCI_P3
      else if colsp = V4L2_COLORSPACE_RAW then V4L2_XFER_FUNC_NONE
      else if colsp = V4L2_COLORSPACE_SRGB \<or> colsp = V4L2_COLORSPACE_JPEG then V4L2_XFER_FUNC_SRGB
      else V4L2_XFER_FUNC_709)"

definition V4L2_MAP_YCBCR_ENC_DEFAULT :: "v4l2_colorspace \<Rightarrow> v4l2_ycbcr_encoding" where
  "V4L2_MAP_YCBCR_ENC_DEFAULT colsp =
     (if colsp = V4L2_COLORSPACE_REC709 \<or> colsp = V4L2_COLORSPACE_DCI_P3 then V4L2_YCBCR_ENC_709
      else if colsp = V4L2_COLORSPACE_BT2020 then V4L2_YCBCR_ENC_BT2020
      else if colsp = V4L2_COLORSPACE_SMPTE240M then V4L2_YCBCR_ENC_SMPTE240M
      else V4L2_YCBCR_ENC_601)"

definition V4L2_MAP_QUANTIZATION_DEFAULT :: "bool \<Rightarrow> v4l2_colorspace \<Rightarrow> v4l2_ycbcr_encoding \<Rightarrow> v4l2_quantization" where
  "V4L2_MAP_QUANTIZATION_DEFAULT is_rgb colsp ycbcr_enc =
     (if is_rgb \<and> colsp = V4L2_COLORSPACE_BT2020 then V4L2_QUANTIZATION_LIM_RANGE
      else if is_rgb \<or> ycbcr_enc = V4L2_YCBCR_ENC_XV601 \<or> ycbcr_enc = V4L2_YCBCR_ENC_XV709 \<or> colsp = V4L2_COLORSPACE_JPEG
        then V4L2_QUANTIZATION_FULL_RANGE
      else V4L2_QUANTIZATION_LIM_RANGE)"

section \<open>The formats are different\<close>

text \<open>All formats but \<open>SDE_BGR_565\<close>, in the order of their codes.\<close>

definition other_formats :: "32 word list" where
  "other_formats = [V4L2_PIX_FMT_Y10, V4L2_PIX_FMT_Y12, V4L2_PIX_FMT_Y4,
    V4L2_PIX_FMT_Y6, V4L2_PIX_FMT_Y16, V4L2_PIX_FMT_Z16,
    V4L2_PIX_FMT_UV8, V4L2_PIX_FMT_Y8I, V4L2_PIX_FMT_SDE_Y_CBCR_H2V2_P010,
    V4L2_PIX_FMT_MR97310A, V4L2_PIX_FMT_SN9C10X, V4L2_PIX_FMT_SGRBG10,
    V4L2_PIX_FMT_SGBRG10, V4L2_PIX_FMT_SGRBG10DPCM8, V4L2_PIX_FMT_SBGGR10,
    V4L2_PIX_FMT_SRGGB10, V4L2_PIX_FMT_SDE_Y_CBCR_H2V2_P010_VENUS, V4L2_PIX_FMT_SDE_Y_CBCR_H2V2_TP10,
    V4L2_PIX_FMT_M420, V4L2_PIX_FMT_SN9C20X_I420, V4L2_PIX_FMT_JL2005BCD,
    V4L2_PIX_FMT_SDE_BGRA_1010102, V4L2_PIX_FMT_SDE_ABGR_2101010, V4L2_PIX_FMT_SDE_RGBA_1010102,
    V4L2_PIX_FMT_SDE_RGBX_1010102, V4L2_PIX_FMT_SDE_ARGB_2101010, V4L2_PIX_FMT_SDE_XRGB_2101010,
    V4L2_PIX_FMT_SDE_BGRX_1010102, V4L2_PIX_FMT_SDE_XBGR_2101010, V4L2_PIX_FMT_TM6000,
    V4L2_PIX_FMT_STV0680, V4L2_PIX_FMT_VP8, V4L2_PIX_FMT_VP9,
    V4L2_PIX_FMT_TME, V4L2_PIX_FMT_SE401, V4L2_PIX_FMT_SPCA501,
    V4L2_PIX_FMT_OV511, V4L2_PIX_FMT_NV21M, V4L2_PIX_FMT_YVU420M,
    V4L2_PIX_FMT_NV21, V4L2_PIX_FMT_SPCA561, V4L2_PIX_FMT_SDE_Y_CRCB_H1V2,
    V4L2_PIX_FMT_NV61M, V4L2_PIX_FMT_YVU422M, V4L2_PIX_FMT_NV61,
    V4L2_PIX_FMT_SBGGR8, V4L2_PIX_FMT_RGB332, V4L2_PIX_FMT_H264_NO_SC,
    V4L2_PIX_FMT_PWC1, V4L2_PIX_FMT_MPEG1, V4L2_PIX_FMT_SDE_Y_CRCB_H2V2_VENUS,
    V4L2_PIX_FMT_SGRBG12, V4L2_PIX_FMT_SDE_RGBA_4444, V4L2_PIX_FMT_SDE_BGRA_4444,
    V4L2_PIX_FMT_SDE_ABGR_4444, V4L2_PIX_FMT_SGBRG12, V4L2_PIX_FMT_SDE_XBGR_4444,
    V4L2_PIX_FMT_SBGGR12, V4L2_PIX_FMT_SRGGB12, V4L2_PIX_FMT_HM12,
    V4L2_PIX_FMT_NV12M, V4L2_PIX_FMT_NV12MT, V4L2_PIX_FMT_NV12MT_16X16,
    V4L2_PIX_FMT_YUV420M, V4L2_PIX_FMT_ARGB444, V4L2_PIX_FMT_XRGB444,
    V4L2_SDR_FMT_RU12LE, V4L2_PIX_FMT_YUV420, V4L2_PIX_FMT_NV12,
    V4L2_PIX_FMT_YVU420, V4L2_PIX_FMT_SDE_BGRX_4444, V4L2_PIX_FMT_SDE_RGBX_4444,
    V4L2_PIX_FMT_YVU444M, V4L2_PIX_FMT_SDE_Y_CR_CB_GH2V2, V4L2_PIX_FMT_NV42,
    V4L2_PIX_FMT_PWC2, V4L2_PIX_FMT_MPEG2, V4L2_PIX_FMT_SBGGR16,
    V4L2_PIX_FMT_SDE_Y_CBCR_H2V2_VENUS, V4L2_PIX_FMT_H263, V4L2_PIX_FMT_RGB24,
    V4L2_PIX_FMT_BGR24, V4L2_PIX_FMT_DIVX_311, V4L2_SDR_FMT_CS14LE,
    V4L2_PIX_FMT_ARGB32, V4L2_PIX_FMT_SDE_ABGR_8888, V4L2_PIX_FMT_SDE_RGBA_8888,
    V4L2_PIX_FMT_SDE_RGBX_8888, V4L2_PIX_FMT_HI240, V4L2_PIX_FMT_YUV444M,
    V4L2_PIX_FMT_ABGR32, V4L2_PIX_FMT_XBGR32, V4L2_PIX_FMT_NV24,
    V4L2_PIX_FMT_XRGB32, V4L2_PIX_FMT_SDE_XBGR_8888, V4L2_PIX_FMT_RGB444,
    V4L2_PIX_FMT_YUV444, V4L2_PIX_FMT_H264, V4L2_PIX_FMT_H264_MVC,
    V4L2_PIX_FMT_RGB32, V4L2_PIX_FMT_SDE_RGBX_8888_UBWC, V4L2_PIX_FMT_MPEG4,
    V4L2_PIX_FMT_BGR32, V4L2_PIX_FMT_YUV32, V4L2_PIX_FMT_SPCA505,
    V4L2_PIX_FMT_SDE_BGRA_5551, V4L2_PIX_FMT_SDE_RGBA_5551, V4L2_PIX_FMT_SDE_ABGR_1555,
    V4L2_PIX_FMT_SDE_XBGR_1555, V4L2_PIX_FMT_ARGB555, V4L2_PIX_FMT_XRGB555,
    V4L2_PIX_FMT_SDE_BGRX_5551, V4L2_PIX_FMT_SDE_RGBX_5551, V4L2_PIX_FMT_ET61X251,
    V4L2_PIX_FMT_SGBRGPLAIN16, V4L2_PIX_FMT_SGRBG10DPCM6, V4L2_TCH_FMT_DELTA_TD16,
    V4L2_PIX_FMT_SBGGRPLAIN16, V4L2_PIX_FMT_SRGGBPLAIN16, V4L2_PIX_FMT_SDE_Y_CBCR_H1V2,
    V4L2_PIX_FMT_NV16M, V4L2_PIX_FMT_YUV422M, V4L2_PIX_FMT_SGRBGPLAIN16,
    V4L2_SDR_FMT_CU16LE, V4L2_TCH_FMT_TU16, V4L2_PIX_FMT_NV16,
    V4L2_PIX_FMT_SBGGR10DPCM6, V4L2_PIX_FMT_SGBRG10DPCM6, V4L2_PIX_FMT_SRGGB10DPCM6,
    V4L2_PIX_FMT_SDE_RGB_565_UBWC, V4L2_PIX_FMT_PAC207, V4L2_PIX_FMT_SPCA508,
    V4L2_TCH_FMT_DELTA_TD08, V4L2_SDR_FMT_CS8, V4L2_SDR_FMT_CU8,
    V4L2_TCH_FMT_TU08, V4L2_PIX_FMT_OV518, V4L2_PIX_FMT_NV12_UBWC,
    V4L2_PIX_FMT_SBGGR10ALAW8, V4L2_PIX_FMT_SBGGR10DPCM8, V4L2_PIX_FMT_SGBRG10ALAW8,
    V4L2_PIX_FMT_SGBRG10DPCM8, V4L2_PIX_FMT_SRGGB10ALAW8, V4L2_PIX_FMT_SRGGB10DPCM8,
    V4L2_PIX_FMT_SGRBG10ALAW8, V4L2_PIX_FMT_PAL8, V4L2_PIX_FMT_YVU410,
    V4L2_PIX_FMT_YUV410, V4L2_PIX_FMT_NV12_TP10_UBWC, V4L2_PIX_FMT_SBGGR10P,
    V4L2_PIX_FMT_SGBRG10P, V4L2_PIX_FMT_SRGGB10P, V4L2_PIX_FMT_SGRBG10P,
    V4L2_PIX_FMT_SDE_RGBA_1010102_UBWC, V4L2_PIX_FMT_SDE_RGBX_1010102_UBWC, V4L2_PIX_FMT_CPIA1,
    V4L2_PIX_FMT_WNVA, V4L2_PIX_FMT_Y10BPACK, V4L2_PIX_FMT_NV12_P010_UBWC,
    V4L2_PIX_FMT_SRGGB8, V4L2_PIX_FMT_RGBA8888_UBWC, V4L2_PIX_FMT_SQ905C,
    V4L2_PIX_FMT_HEVC, V4L2_PIX_FMT_XVID, V4L2_PIX_FMT_VC1_ANNEX_G,
    V4L2_PIX_FMT_SGRBG8, V4L2_PIX_FMT_JPEG, V4L2_PIX_FMT_MPEG,
    V4L2_PIX_FMT_MJPEG, V4L2_PIX_FMT_PJPG, V4L2_PIX_FMT_SGBRG8,
    V4L2_PIX_FMT_HEVC_HYBRID, V4L2_PIX_FMT_BGR666, V4L2_PIX_FMT_Y12I,
    V4L2_PIX_FMT_S5C_UYVY_JPG, V4L2_PIX_FMT_KONICA420, V4L2_PIX_FMT_VC1_ANNEX_L,
    V4L2_PIX_FMT_JPGL, V4L2_PIX_FMT_RGB555, V4L2_PIX_FMT_YUV555,
    V4L2_PIX_FMT_YUV411P, V4L2_PIX_FMT_Y41P, V4L2_PIX_FMT_YUV422P,
    V4L2_PIX_FMT_RGB565, V4L2_PIX_FMT_YUV565, V4L2_PIX_FMT_RGB555X,
    V4L2_PIX_FMT_RGB565X, V4L2_PIX_FMT_YVYU, V4L2_PIX_FMT_CIT_YYVYUY,
    V4L2_PIX_FMT_YYUV, V4L2_PIX_FMT_YUYV, V4L2_PIX_FMT_SN9C2028,
    V4L2_PIX_FMT_DIVX, V4L2_PIX_FMT_GREY, V4L2_PIX_FMT_VYUY,
    V4L2_PIX_FMT_UYVY, V4L2_PIX_FMT_DV, V4L2_PIX_FMT_Y16_BE,
    V4L2_PIX_FMT_ARGB555X, V4L2_PIX_FMT_XRGB555X]"

lemma code_bit: "bit (code_of c) n \<Longrightarrow> n < 8"
proof (rule ccontr)
  assume "bit (code_of c) n" "\<not> n < 8"
  moreover have "take_bit 8 (code_of c) = code_of c" using code_of_lt [of c] by (simp add: take_bit_nat_eq_self)
  ultimately show False by (metis bit_take_bit_iff)
qed

lemma take_drop_fourcc:
  "take_bit 8 (v4l2_fourcc a b c d) = word_of_nat (code_of a)"
  "take_bit 8 (drop_bit 8 (v4l2_fourcc a b c d)) = word_of_nat (code_of b)"
  "take_bit 8 (drop_bit 16 (v4l2_fourcc a b c d)) = word_of_nat (code_of c)"
  "take_bit 8 (drop_bit 24 (v4l2_fourcc a b c d)) = word_of_nat (code_of d)"
  by (rule bit_word_eqI; auto simp: v4l2_fourcc_def bit_simps dest: code_bit)+

lemma word_code_inject: "(word_of_nat (code_of a) :: 32 word) = word_of_nat (code_of b) \<longleftrightarrow> a = b"
proof
  have u: "unat (word_of_nat (code_of c) :: 32 word) = code_of c" for c
  proof -
    have "code_of c < 2 ^ 32" by (rule less_le_trans [OF code_of_lt]) simp
    then show ?thesis by (simp add: unsigned_of_nat take_bit_nat_eq_self)
  qed
  assume "(word_of_nat (code_of a) :: 32 word) = word_of_nat (code_of b)"
  then have "unat (word_of_nat (code_of a) :: 32 word) = unat (word_of_nat (code_of b) :: 32 word)" by (rule arg_cong)
  then show "a = b" unfolding u by simp
qed simp

text \<open>Four characters can be read back from their code.\<close>

lemma v4l2_fourcc_inject: "v4l2_fourcc a b c d = v4l2_fourcc a' b' c' d' \<longleftrightarrow> a = a' \<and> b = b' \<and> c = c' \<and> d = d'"
  by (metis take_drop_fourcc word_code_inject)

lemma format_codes:
  "V4L2_PIX_FMT_Y10 = 0x20303159"
  "V4L2_PIX_FMT_Y12 = 0x20323159"
  "V4L2_PIX_FMT_Y4 = 0x20343059"
  "V4L2_PIX_FMT_Y6 = 0x20363059"
  "V4L2_PIX_FMT_Y16 = 0x20363159"
  "V4L2_PIX_FMT_Z16 = 0x2036315A"
  "V4L2_PIX_FMT_UV8 = 0x20385655"
  "V4L2_PIX_FMT_Y8I = 0x20493859"
  "V4L2_PIX_FMT_SDE_Y_CBCR_H2V2_P010 = 0x30313050"
  "V4L2_PIX_FMT_MR97310A = 0x3031334D"
  "V4L2_PIX_FMT_SN9C10X = 0x30313953"
  "V4L2_PIX_FMT_SGRBG10 = 0x30314142"
  "V4L2_PIX_FMT_SGBRG10 = 0x30314247"
  "V4L2_PIX_FMT_SGRBG10DPCM8 = 0x30314442"
  "V4L2_PIX_FMT_SBGGR10 = 0x30314742"
  "V4L2_PIX_FMT_SRGGB10 = 0x30314752"
  "V4L2_PIX_FMT_SDE_Y_CBCR_H2V2_P010_VENUS = 0x30315051"
  "V4L2_PIX_FMT_SDE_Y_CBCR_H2V2_TP10 = 0x30315054"
  "V4L2_PIX_FMT_M420 = 0x3032344D"
  "V4L2_PIX_FMT_SN9C20X_I420 = 0x30323953"
  "V4L2_PIX_FMT_JL2005BCD = 0x30324C4A"
  "V4L2_PIX_FMT_SDE_BGRA_1010102 = 0x30334142"
  "V4L2_PIX_FMT_SDE_ABGR_2101010 = 0x30334152"
  "V4L2_PIX_FMT_SDE_RGBA_1010102 = 0x30334241"
  "V4L2_PIX_FMT_SDE_RGBX_1010102 = 0x30334258"
  "V4L2_PIX_FMT_SDE_ARGB_2101010 = 0x30335241"
  "V4L2_PIX_FMT_SDE_XRGB_2101010 = 0x30335258"
  "V4L2_PIX_FMT_SDE_BGRX_1010102 = 0x30335842"
  "V4L2_PIX_FMT_SDE_XBGR_2101010 = 0x30335852"
  "V4L2_PIX_FMT_TM6000 = 0x30364D54"
  "V4L2_PIX_FMT_STV0680 = 0x30383653"
  "V4L2_PIX_FMT_VP8 = 0x30385056"
  "V4L2_PIX_FMT_VP9 = 0x30395056"
  "V4L2_PIX_FMT_TME = 0x30454D54"
  "V4L2_PIX_FMT_SE401 = 0x31303453"
  "V4L2_PIX_FMT_SPCA501 = 0x31303553"
  "V4L2_PIX_FMT_OV511 = 0x3131354F"
  "V4L2_PIX_FMT_NV21M = 0x31324D4E"
  "V4L2_PIX_FMT_YVU420M = 0x31324D59"
  "V4L2_PIX_FMT_NV21 = 0x3132564E"
  "V4L2_PIX_FMT_SPCA561 = 0x31363553"
  "V4L2_PIX_FMT_SDE_Y_CRCB_H1V2 = 0x3136484E"
  "V4L2_PIX_FMT_NV61M = 0x31364D4E"
  "V4L2_PIX_FMT_YVU422M = 0x31364D59"
  "V4L2_PIX_FMT_NV61 = 0x3136564E"
  "V4L2_PIX_FMT_SBGGR8 = 0x31384142"
  "V4L2_PIX_FMT_RGB332 = 0x31424752"
  "V4L2_PIX_FMT_H264_NO_SC = 0x31435641"
  "V4L2_PIX_FMT_PWC1 = 0x31435750"
  "V4L2_PIX_FMT_MPEG1 = 0x3147504D"
  "V4L2_PIX_FMT_SDE_Y_CRCB_H2V2_VENUS = 0x31564E51"
  "V4L2_PIX_FMT_SGRBG12 = 0x32314142"
  "V4L2_PIX_FMT_SDE_RGBA_4444 = 0x32314152"
  "V4L2_PIX_FMT_SDE_BGRA_4444 = 0x32314162"
  "V4L2_PIX_FMT_SDE_ABGR_4444 = 0x32314241"
  "V4L2_PIX_FMT_SGBRG12 = 0x32314247"
  "V4L2_PIX_FMT_SDE_XBGR_4444 = 0x32314258"
  "V4L2_PIX_FMT_SBGGR12 = 0x32314742"
  "V4L2_PIX_FMT_SRGGB12 = 0x32314752"
  "V4L2_PIX_FMT_HM12 = 0x32314D48"
  "V4L2_PIX_FMT_NV12M = 0x32314D4E"
  "V4L2_PIX_FMT_NV12MT = 0x32314D54"
  "V4L2_PIX_FMT_NV12MT_16X16 = 0x32314D56"
  "V4L2_PIX_FMT_YUV420M = 0x32314D59"
  "V4L2_PIX_FMT_ARGB444 = 0x32315241"
  "V4L2_PIX_FMT_XRGB444 = 0x32315258"
  "V4L2_SDR_FMT_RU12LE = 0x32315552"
  "V4L2_PIX_FMT_YUV420 = 0x32315559"
  "V4L2_PIX_FMT_NV12 = 0x3231564E"
  "V4L2_PIX_FMT_YVU420 = 0x32315659"
  "V4L2_PIX_FMT_SDE_BGRX_4444 = 0x32315842"
  "V4L2_PIX_FMT_SDE_RGBX_4444 = 0x32315852"
  "V4L2_PIX_FMT_YVU444M = 0x32344D59"
  "V4L2_PIX_FMT_SDE_Y_CR_CB_GH2V2 = 0x32345559"
  "V4L2_PIX_FMT_NV42 = 0x3234564E"
  "V4L2_PIX_FMT_PWC2 = 0x32435750"
  "V4L2_PIX_FMT_MPEG2 = 0x3247504D"
  "V4L2_PIX_FMT_SBGGR16 = 0x32525942"
  "V4L2_PIX_FMT_SDE_Y_CBCR_H2V2_VENUS = 0x32564E51"
  "V4L2_PIX_FMT_H263 = 0x33363248"
  "V4L2_PIX_FMT_RGB24 = 0x33424752"
  "V4L2_PIX_FMT_BGR24 = 0x33524742"
  "V4L2_PIX_FMT_DIVX_311 = 0x33564944"
  "V4L2_SDR_FMT_CS14LE = 0x34315343"
  "V4L2_PIX_FMT_ARGB32 = 0x34324142"
  "V4L2_PIX_FMT_SDE_ABGR_8888 = 0x34324152"
  "V4L2_PIX_FMT_SDE_RGBA_8888 = 0x34324241"
  "V4L2_PIX_FMT_SDE_RGBX_8888 = 0x34324258"
  "V4L2_PIX_FMT_HI240 = 0x34324948"
  "V4L2_PIX_FMT_YUV444M = 0x34324D59"
  "V4L2_PIX_FMT_ABGR32 = 0x34325241"
  "V4L2_PIX_FMT_XBGR32 = 0x34325258"
  "V4L2_PIX_FMT_NV24 = 0x3432564E"
  "V4L2_PIX_FMT_XRGB32 = 0x34325842"
  "V4L2_PIX_FMT_SDE_XBGR_8888 = 0x34325852"
  "V4L2_PIX_FMT_RGB444 = 0x34343452"
  "V4L2_PIX_FMT_YUV444 = 0x34343459"
  "V4L2_PIX_FMT_H264 = 0x34363248"
  "V4L2_PIX_FMT_H264_MVC = 0x3436324D"
  "V4L2_PIX_FMT_RGB32 = 0x34424752"
  "V4L2_PIX_FMT_SDE_RGBX_8888_UBWC = 0x34425851"
  "V4L2_PIX_FMT_MPEG4 = 0x3447504D"
  "V4L2_PIX_FMT_BGR32 = 0x34524742"
  "V4L2_PIX_FMT_YUV32 = 0x34565559"
  "V4L2_PIX_FMT_SPCA505 = 0x35303553"
  "V4L2_PIX_FMT_SDE_BGRA_5551 = 0x35314142"
  "V4L2_PIX_FMT_SDE_RGBA_5551 = 0x35314152"
  "V4L2_PIX_FMT_SDE_ABGR_1555 = 0x35314241"
  "V4L2_PIX_FMT_SDE_XBGR_1555 = 0x35314258"
  "V4L2_PIX_FMT_ARGB555 = 0x35315241"
  "V4L2_PIX_FMT_XRGB555 = 0x35315258"
  "V4L2_PIX_FMT_SDE_BGRX_5551 = 0x35315842"
  "V4L2_PIX_FMT_SDE_RGBX_5551 = 0x35315852"
  "V4L2_PIX_FMT_ET61X251 = 0x35323645"
  "V4L2_PIX_FMT_SGBRGPLAIN16 = 0x36314247"
  "V4L2_PIX_FMT_SGRBG10DPCM6 = 0x36314442"
  "V4L2_TCH_FMT_DELTA_TD16 = 0x36314454"
  "V4L2_PIX_FMT_SBGGRPLAIN16 = 0x36314742"
  "V4L2_PIX_FMT_SRGGBPLAIN16 = 0x36314752"
  "V4L2_PIX_FMT_SDE_Y_CBCR_H1V2 = 0x3631484E"
  "V4L2_PIX_FMT_NV16M = 0x36314D4E"
  "V4L2_PIX_FMT_YUV422M = 0x36314D59"
  "V4L2_PIX_FMT_SGRBGPLAIN16 = 0x36315247"
  "V4L2_SDR_FMT_CU16LE = 0x36315543"
  "V4L2_TCH_FMT_TU16 = 0x36315554"
  "V4L2_PIX_FMT_NV16 = 0x3631564E"
  "V4L2_PIX_FMT_SBGGR10DPCM6 = 0x36414262"
  "V4L2_PIX_FMT_SGBRG10DPCM6 = 0x36414762"
  "V4L2_PIX_FMT_SRGGB10DPCM6 = 0x36415262"
  "V4L2_PIX_FMT_SDE_RGB_565_UBWC = 0x36475251"
  "V4L2_PIX_FMT_PAC207 = 0x37303250"
  "V4L2_PIX_FMT_SPCA508 = 0x38303553"
  "V4L2_TCH_FMT_DELTA_TD08 = 0x38304454"
  "V4L2_SDR_FMT_CS8 = 0x38305343"
  "V4L2_SDR_FMT_CU8 = 0x38305543"
  "V4L2_TCH_FMT_TU08 = 0x38305554"
  "V4L2_PIX_FMT_OV518 = 0x3831354F"
  "V4L2_PIX_FMT_NV12_UBWC = 0x38323151"
  "V4L2_PIX_FMT_SBGGR10ALAW8 = 0x38414261"
  "V4L2_PIX_FMT_SBGGR10DPCM8 = 0x38414262"
  "V4L2_PIX_FMT_SGBRG10ALAW8 = 0x38414761"
  "V4L2_PIX_FMT_SGBRG10DPCM8 = 0x38414762"
  "V4L2_PIX_FMT_SRGGB10ALAW8 = 0x38415261"
  "V4L2_PIX_FMT_SRGGB10DPCM8 = 0x38415262"
  "V4L2_PIX_FMT_SGRBG10ALAW8 = 0x38416761"
  "V4L2_PIX_FMT_PAL8 = 0x384C4150"
  "V4L2_PIX_FMT_YVU410 = 0x39555659"
  "V4L2_PIX_FMT_YUV410 = 0x39565559"
  "V4L2_PIX_FMT_NV12_TP10_UBWC = 0x41323151"
  "V4L2_PIX_FMT_SBGGR10P = 0x41414270"
  "V4L2_PIX_FMT_SGBRG10P = 0x41414770"
  "V4L2_PIX_FMT_SRGGB10P = 0x41415270"
  "V4L2_PIX_FMT_SGRBG10P = 0x41416770"
  "V4L2_PIX_FMT_SDE_RGBA_1010102_UBWC = 0x41425251"
  "V4L2_PIX_FMT_SDE_RGBX_1010102_UBWC = 0x41425851"
  "V4L2_PIX_FMT_CPIA1 = 0x41495043"
  "V4L2_PIX_FMT_WNVA = 0x41564E57"
  "V4L2_PIX_FMT_Y10BPACK = 0x42303159"
  "V4L2_PIX_FMT_NV12_P010_UBWC = 0x42323151"
  "V4L2_PIX_FMT_SRGGB8 = 0x42474752"
  "V4L2_PIX_FMT_RGBA8888_UBWC = 0x42475251"
  "V4L2_PIX_FMT_SQ905C = 0x43353039"
  "V4L2_PIX_FMT_HEVC = 0x43564548"
  "V4L2_PIX_FMT_XVID = 0x44495658"
  "V4L2_PIX_FMT_VC1_ANNEX_G = 0x47314356"
  "V4L2_PIX_FMT_SGRBG8 = 0x47425247"
  "V4L2_PIX_FMT_JPEG = 0x4745504A"
  "V4L2_PIX_FMT_MPEG = 0x4745504D"
  "V4L2_PIX_FMT_MJPEG = 0x47504A4D"
  "V4L2_PIX_FMT_PJPG = 0x47504A50"
  "V4L2_PIX_FMT_SGBRG8 = 0x47524247"
  "V4L2_PIX_FMT_HEVC_HYBRID = 0x48435648"
  "V4L2_PIX_FMT_BGR666 = 0x48524742"
  "V4L2_PIX_FMT_Y12I = 0x49323159"
  "V4L2_PIX_FMT_S5C_UYVY_JPG = 0x49433553"
  "V4L2_PIX_FMT_KONICA420 = 0x494E4F4B"
  "V4L2_PIX_FMT_VC1_ANNEX_L = 0x4C314356"
  "V4L2_PIX_FMT_JPGL = 0x4C47504A"
  "V4L2_PIX_FMT_RGB555 = 0x4F424752"
  "V4L2_PIX_FMT_YUV555 = 0x4F565559"
  "V4L2_PIX_FMT_YUV411P = 0x50313134"
  "V4L2_PIX_FMT_Y41P = 0x50313459"
  "V4L2_PIX_FMT_YUV422P = 0x50323234"
  "V4L2_PIX_FMT_RGB565 = 0x50424752"
  "V4L2_PIX_FMT_YUV565 = 0x50565559"
  "V4L2_PIX_FMT_RGB555X = 0x51424752"
  "V4L2_PIX_FMT_RGB565X = 0x52424752"
  "V4L2_PIX_FMT_YVYU = 0x55595659"
  "V4L2_PIX_FMT_CIT_YYVYUY = 0x56544943"
  "V4L2_PIX_FMT_YYUV = 0x56555959"
  "V4L2_PIX_FMT_YUYV = 0x56595559"
  "V4L2_PIX_FMT_SN9C2028 = 0x584E4F53"
  "V4L2_PIX_FMT_DIVX = 0x58564944"
  "V4L2_PIX_FMT_GREY = 0x59455247"
  "V4L2_PIX_FMT_VYUY = 0x59555956"
  "V4L2_PIX_FMT_UYVY = 0x59565955"
  "V4L2_PIX_FMT_DV = 0x64737664"
  "V4L2_PIX_FMT_Y16_BE = 0xA0363159"
  "V4L2_PIX_FMT_ARGB555X = 0xB5315241"
  "V4L2_PIX_FMT_XRGB555X = 0xB5315258"
  by (simp_all add: V4L2_PIX_FMT_Y10_def V4L2_PIX_FMT_Y12_def V4L2_PIX_FMT_Y4_def
    V4L2_PIX_FMT_Y6_def V4L2_PIX_FMT_Y16_def V4L2_PIX_FMT_Z16_def
    V4L2_PIX_FMT_UV8_def V4L2_PIX_FMT_Y8I_def V4L2_PIX_FMT_SDE_Y_CBCR_H2V2_P010_def
    V4L2_PIX_FMT_MR97310A_def V4L2_PIX_FMT_SN9C10X_def V4L2_PIX_FMT_SGRBG10_def
    V4L2_PIX_FMT_SGBRG10_def V4L2_PIX_FMT_SGRBG10DPCM8_def V4L2_PIX_FMT_SBGGR10_def
    V4L2_PIX_FMT_SRGGB10_def V4L2_PIX_FMT_SDE_Y_CBCR_H2V2_P010_VENUS_def V4L2_PIX_FMT_SDE_Y_CBCR_H2V2_TP10_def
    V4L2_PIX_FMT_M420_def V4L2_PIX_FMT_SN9C20X_I420_def V4L2_PIX_FMT_JL2005BCD_def
    V4L2_PIX_FMT_SDE_BGRA_1010102_def V4L2_PIX_FMT_SDE_ABGR_2101010_def V4L2_PIX_FMT_SDE_RGBA_1010102_def
    V4L2_PIX_FMT_SDE_RGBX_1010102_def V4L2_PIX_FMT_SDE_ARGB_2101010_def V4L2_PIX_FMT_SDE_XRGB_2101010_def
    V4L2_PIX_FMT_SDE_BGRX_1010102_def V4L2_PIX_FMT_SDE_XBGR_2101010_def V4L2_PIX_FMT_TM6000_def
    V4L2_PIX_FMT_STV0680_def V4L2_PIX_FMT_VP8_def V4L2_PIX_FMT_VP9_def
    V4L2_PIX_FMT_TME_def V4L2_PIX_FMT_SE401_def V4L2_PIX_FMT_SPCA501_def
    V4L2_PIX_FMT_OV511_def V4L2_PIX_FMT_NV21M_def V4L2_PIX_FMT_YVU420M_def
    V4L2_PIX_FMT_NV21_def V4L2_PIX_FMT_SPCA561_def V4L2_PIX_FMT_SDE_Y_CRCB_H1V2_def
    V4L2_PIX_FMT_NV61M_def V4L2_PIX_FMT_YVU422M_def V4L2_PIX_FMT_NV61_def
    V4L2_PIX_FMT_SBGGR8_def V4L2_PIX_FMT_RGB332_def V4L2_PIX_FMT_H264_NO_SC_def
    V4L2_PIX_FMT_PWC1_def V4L2_PIX_FMT_MPEG1_def V4L2_PIX_FMT_SDE_Y_CRCB_H2V2_VENUS_def
    V4L2_PIX_FMT_SGRBG12_def V4L2_PIX_FMT_SDE_RGBA_4444_def V4L2_PIX_FMT_SDE_BGRA_4444_def
    V4L2_PIX_FMT_SDE_ABGR_4444_def V4L2_PIX_FMT_SGBRG12_def V4L2_PIX_FMT_SDE_XBGR_4444_def
    V4L2_PIX_FMT_SBGGR12_def V4L2_PIX_FMT_SRGGB12_def V4L2_PIX_FMT_HM12_def
    V4L2_PIX_FMT_NV12M_def V4L2_PIX_FMT_NV12MT_def V4L2_PIX_FMT_NV12MT_16X16_def
    V4L2_PIX_FMT_YUV420M_def V4L2_PIX_FMT_ARGB444_def V4L2_PIX_FMT_XRGB444_def
    V4L2_SDR_FMT_RU12LE_def V4L2_PIX_FMT_YUV420_def V4L2_PIX_FMT_NV12_def
    V4L2_PIX_FMT_YVU420_def V4L2_PIX_FMT_SDE_BGRX_4444_def V4L2_PIX_FMT_SDE_RGBX_4444_def
    V4L2_PIX_FMT_YVU444M_def V4L2_PIX_FMT_SDE_Y_CR_CB_GH2V2_def V4L2_PIX_FMT_NV42_def
    V4L2_PIX_FMT_PWC2_def V4L2_PIX_FMT_MPEG2_def V4L2_PIX_FMT_SBGGR16_def
    V4L2_PIX_FMT_SDE_Y_CBCR_H2V2_VENUS_def V4L2_PIX_FMT_H263_def V4L2_PIX_FMT_RGB24_def
    V4L2_PIX_FMT_BGR24_def V4L2_PIX_FMT_DIVX_311_def V4L2_SDR_FMT_CS14LE_def
    V4L2_PIX_FMT_ARGB32_def V4L2_PIX_FMT_SDE_ABGR_8888_def V4L2_PIX_FMT_SDE_RGBA_8888_def
    V4L2_PIX_FMT_SDE_RGBX_8888_def V4L2_PIX_FMT_HI240_def V4L2_PIX_FMT_YUV444M_def
    V4L2_PIX_FMT_ABGR32_def V4L2_PIX_FMT_XBGR32_def V4L2_PIX_FMT_NV24_def
    V4L2_PIX_FMT_XRGB32_def V4L2_PIX_FMT_SDE_XBGR_8888_def V4L2_PIX_FMT_RGB444_def
    V4L2_PIX_FMT_YUV444_def V4L2_PIX_FMT_H264_def V4L2_PIX_FMT_H264_MVC_def
    V4L2_PIX_FMT_RGB32_def V4L2_PIX_FMT_SDE_RGBX_8888_UBWC_def V4L2_PIX_FMT_MPEG4_def
    V4L2_PIX_FMT_BGR32_def V4L2_PIX_FMT_YUV32_def V4L2_PIX_FMT_SPCA505_def
    V4L2_PIX_FMT_SDE_BGRA_5551_def V4L2_PIX_FMT_SDE_RGBA_5551_def V4L2_PIX_FMT_SDE_ABGR_1555_def
    V4L2_PIX_FMT_SDE_XBGR_1555_def V4L2_PIX_FMT_ARGB555_def V4L2_PIX_FMT_XRGB555_def
    V4L2_PIX_FMT_SDE_BGRX_5551_def V4L2_PIX_FMT_SDE_RGBX_5551_def V4L2_PIX_FMT_ET61X251_def
    V4L2_PIX_FMT_SGBRGPLAIN16_def V4L2_PIX_FMT_SGRBG10DPCM6_def V4L2_TCH_FMT_DELTA_TD16_def
    V4L2_PIX_FMT_SBGGRPLAIN16_def V4L2_PIX_FMT_SRGGBPLAIN16_def V4L2_PIX_FMT_SDE_Y_CBCR_H1V2_def
    V4L2_PIX_FMT_NV16M_def V4L2_PIX_FMT_YUV422M_def V4L2_PIX_FMT_SGRBGPLAIN16_def
    V4L2_SDR_FMT_CU16LE_def V4L2_TCH_FMT_TU16_def V4L2_PIX_FMT_NV16_def
    V4L2_PIX_FMT_SBGGR10DPCM6_def V4L2_PIX_FMT_SGBRG10DPCM6_def V4L2_PIX_FMT_SRGGB10DPCM6_def
    V4L2_PIX_FMT_SDE_RGB_565_UBWC_def V4L2_PIX_FMT_PAC207_def V4L2_PIX_FMT_SPCA508_def
    V4L2_TCH_FMT_DELTA_TD08_def V4L2_SDR_FMT_CS8_def V4L2_SDR_FMT_CU8_def
    V4L2_TCH_FMT_TU08_def V4L2_PIX_FMT_OV518_def V4L2_PIX_FMT_NV12_UBWC_def
    V4L2_PIX_FMT_SBGGR10ALAW8_def V4L2_PIX_FMT_SBGGR10DPCM8_def V4L2_PIX_FMT_SGBRG10ALAW8_def
    V4L2_PIX_FMT_SGBRG10DPCM8_def V4L2_PIX_FMT_SRGGB10ALAW8_def V4L2_PIX_FMT_SRGGB10DPCM8_def
    V4L2_PIX_FMT_SGRBG10ALAW8_def V4L2_PIX_FMT_PAL8_def V4L2_PIX_FMT_YVU410_def
    V4L2_PIX_FMT_YUV410_def V4L2_PIX_FMT_NV12_TP10_UBWC_def V4L2_PIX_FMT_SBGGR10P_def
    V4L2_PIX_FMT_SGBRG10P_def V4L2_PIX_FMT_SRGGB10P_def V4L2_PIX_FMT_SGRBG10P_def
    V4L2_PIX_FMT_SDE_RGBA_1010102_UBWC_def V4L2_PIX_FMT_SDE_RGBX_1010102_UBWC_def V4L2_PIX_FMT_CPIA1_def
    V4L2_PIX_FMT_WNVA_def V4L2_PIX_FMT_Y10BPACK_def V4L2_PIX_FMT_NV12_P010_UBWC_def
    V4L2_PIX_FMT_SRGGB8_def V4L2_PIX_FMT_RGBA8888_UBWC_def V4L2_PIX_FMT_SQ905C_def
    V4L2_PIX_FMT_HEVC_def V4L2_PIX_FMT_XVID_def V4L2_PIX_FMT_VC1_ANNEX_G_def
    V4L2_PIX_FMT_SGRBG8_def V4L2_PIX_FMT_JPEG_def V4L2_PIX_FMT_MPEG_def
    V4L2_PIX_FMT_MJPEG_def V4L2_PIX_FMT_PJPG_def V4L2_PIX_FMT_SGBRG8_def
    V4L2_PIX_FMT_HEVC_HYBRID_def V4L2_PIX_FMT_BGR666_def V4L2_PIX_FMT_Y12I_def
    V4L2_PIX_FMT_S5C_UYVY_JPG_def V4L2_PIX_FMT_KONICA420_def V4L2_PIX_FMT_VC1_ANNEX_L_def
    V4L2_PIX_FMT_JPGL_def V4L2_PIX_FMT_RGB555_def V4L2_PIX_FMT_YUV555_def
    V4L2_PIX_FMT_YUV411P_def V4L2_PIX_FMT_Y41P_def V4L2_PIX_FMT_YUV422P_def
    V4L2_PIX_FMT_RGB565_def V4L2_PIX_FMT_YUV565_def V4L2_PIX_FMT_RGB555X_def
    V4L2_PIX_FMT_RGB565X_def V4L2_PIX_FMT_YVYU_def V4L2_PIX_FMT_CIT_YYVYUY_def
    V4L2_PIX_FMT_YYUV_def V4L2_PIX_FMT_YUYV_def V4L2_PIX_FMT_SN9C2028_def
    V4L2_PIX_FMT_DIVX_def V4L2_PIX_FMT_GREY_def V4L2_PIX_FMT_VYUY_def
    V4L2_PIX_FMT_UYVY_def V4L2_PIX_FMT_DV_def V4L2_PIX_FMT_Y16_BE_def
    V4L2_PIX_FMT_ARGB555X_def V4L2_PIX_FMT_XRGB555X_def
    v4l2_fourcc_def v4l2_fourcc_be_def code_of_def)

lemma other_formats_sorted: "successively (<) other_formats"
  by (simp only: other_formats_def format_codes) simp

text \<open>
  No two of the 201 pixel formats have the same code, except for one pair: \<open>SBGGRPLAIN16\<close>, a raw
  format of the camera, and \<open>SDE_BGR_565\<close>, a format of the rotator.
\<close>

theorem pixel_formats_distinct:
  "distinct other_formats \<and> length other_formats = 200 \<and> V4L2_PIX_FMT_SDE_BGR_565 = V4L2_PIX_FMT_SBGGRPLAIN16"
proof (intro conjI)
  show "distinct other_formats"
    using other_formats_sorted successively_conv_sorted_wrt [OF transp_on_less, of other_formats] by (simp add: strict_sorted_iff)
  show "length other_formats = 200" by (simp add: other_formats_def)
qed (simp add: V4L2_PIX_FMT_SDE_BGR_565_def V4L2_PIX_FMT_SBGGRPLAIN16_def)

section \<open>Classification\<close>

lemma field_has_both: "V4L2_FIELD_HAS_BOTH f \<longleftrightarrow> V4L2_FIELD_HAS_TOP f \<and> V4L2_FIELD_HAS_BOTTOM f"
  by (cases f) (simp_all add: V4L2_FIELD_HAS_BOTH_def V4L2_FIELD_HAS_TOP_def V4L2_FIELD_HAS_BOTTOM_def)

text \<open>A default is never itself the default.\<close>

lemma map_defaults:
  "V4L2_MAP_COLORSPACE_DEFAULT sdtv hdtv \<noteq> V4L2_COLORSPACE_DEFAULT"
  "V4L2_MAP_XFER_FUNC_DEFAULT colsp \<noteq> V4L2_XFER_FUNC_DEFAULT"
  "V4L2_MAP_YCBCR_ENC_DEFAULT colsp \<noteq> V4L2_YCBCR_ENC_DEFAULT"
  "V4L2_MAP_QUANTIZATION_DEFAULT rgb colsp enc \<noteq> V4L2_QUANTIZATION_DEFAULT"
  by (simp_all add: V4L2_MAP_COLORSPACE_DEFAULT_def V4L2_MAP_XFER_FUNC_DEFAULT_def V4L2_MAP_YCBCR_ENC_DEFAULT_def
      V4L2_MAP_QUANTIZATION_DEFAULT_def)

end
