(* ===== verification/Header_Fields.thy ===== *)
theory Header_Fields
  imports C_Prelude
begin

text \<open>
  Macros of the kernel headers that pack fields into a word (under \<open>sdm845/kernel-headers\<close>): the camera's
  handles (\<open>media/msm_camera.h\<close>), the revision of the display hardware and the size of a decimated line
  (\<open>linux/msm_mdp.h\<close>), entries of the audio codec (\<open>linux/mfd/msm-adie-codec.h\<close>), and the protocol version of
  the sound interface (\<open>sound/asound.h\<close>). An assignment in a macro is the new value. The words are the
  \<open>uint32_t\<close> the drivers pass.
\<close>

section \<open>Camera handles\<close>

definition CLR_DEVID_MODE :: "32 word \<Rightarrow> 32 word" where "CLR_DEVID_MODE handle = handle AND 0x00FFFFFF"
definition SET_DEVID_MODE :: "32 word \<Rightarrow> 32 word \<Rightarrow> 32 word" where
  "SET_DEVID_MODE handle data = handle OR (push_bit 31 1 OR push_bit 24 (data AND 0x7F))"
definition GET_DEVID_MODE :: "32 word \<Rightarrow> 32 word" where
  "GET_DEVID_MODE handle = (if handle AND 0x80000000 \<noteq> 0 then drop_bit 24 (handle AND 0x7F000000) else 0xFF)"
definition CLR_IMG_MODE :: "32 word \<Rightarrow> 32 word" where "CLR_IMG_MODE handle = handle AND 0xFF00FFFF"
definition SET_IMG_MODE :: "32 word \<Rightarrow> 32 word \<Rightarrow> 32 word" where
  "SET_IMG_MODE handle data = handle OR (push_bit 23 1 OR push_bit 16 (data AND 0x7F))"
definition GET_IMG_MODE :: "32 word \<Rightarrow> 32 word" where
  "GET_IMG_MODE handle = (if handle AND 0x800000 \<noteq> 0 then drop_bit 16 (handle AND 0x7F0000) else 0xFF)"
definition CLR_MCTLPP_INST_IDX :: "32 word \<Rightarrow> 32 word" where "CLR_MCTLPP_INST_IDX handle = handle AND 0xFFFF00FF"
definition SET_MCTLPP_INST_IDX :: "32 word \<Rightarrow> 32 word \<Rightarrow> 32 word" where
  "SET_MCTLPP_INST_IDX handle data = handle OR (push_bit 15 1 OR push_bit 8 (data AND 0x7F))"
definition GET_MCTLPP_INST_IDX :: "32 word \<Rightarrow> 32 word" where
  "GET_MCTLPP_INST_IDX handle = (if handle AND 0x8000 \<noteq> 0 then drop_bit 8 (handle AND 0x7F00) else 0xFF)"
definition CLR_VIDEO_INST_IDX :: "32 word \<Rightarrow> 32 word" where "CLR_VIDEO_INST_IDX handle = handle AND 0xFFFFFF00"
definition GET_VIDEO_INST_IDX :: "32 word \<Rightarrow> 32 word" where
  "GET_VIDEO_INST_IDX handle = (if handle AND 0x80 \<noteq> 0 then handle AND 0x7F else 0xFF)"
definition SET_VIDEO_INST_IDX :: "32 word \<Rightarrow> 32 word \<Rightarrow> 32 word" where
  "SET_VIDEO_INST_IDX handle data = handle OR (push_bit 7 1 OR (data AND 0x7F))"

section \<open>Revisions and sizes\<close>

definition MDSS_GET_MAJOR :: "32 word \<Rightarrow> 32 word" where "MDSS_GET_MAJOR r = drop_bit 28 r"
definition MDSS_GET_MINOR :: "32 word \<Rightarrow> 32 word" where "MDSS_GET_MINOR r = drop_bit 16 r AND 0xFFF"
definition MDSS_GET_STEP :: "32 word \<Rightarrow> 32 word" where "MDSS_GET_STEP r = r AND 0xFFFF"
definition MDSS_GET_MAJOR_MINOR :: "32 word \<Rightarrow> 32 word" where "MDSS_GET_MAJOR_MINOR r = drop_bit 16 r"
definition IS_MDSS_MAJOR_MINOR_SAME :: "32 word \<Rightarrow> 32 word \<Rightarrow> bool" where
  "IS_MDSS_MAJOR_MINOR_SAME r1 r2 \<longleftrightarrow> MDSS_GET_MAJOR_MINOR r1 = MDSS_GET_MAJOR_MINOR r2"
definition MDSS_MDP_REV :: "32 word \<Rightarrow> 32 word \<Rightarrow> 32 word \<Rightarrow> 32 word" where
  "MDSS_MDP_REV major minor step =
     push_bit 28 (major AND 0x000F) OR push_bit 16 (minor AND 0x0FFF) OR (step AND 0xFFFF)"

definition DECIMATED_DIMENSION :: "32 word \<Rightarrow> nat \<Rightarrow> 32 word" where
  "DECIMATED_DIMENSION dim deci = drop_bit deci (dim + (push_bit deci 1 - 1))"

definition ADIE_CODEC_PACK_ENTRY :: "32 word \<Rightarrow> 32 word \<Rightarrow> 32 word \<Rightarrow> 32 word" where
  "ADIE_CODEC_PACK_ENTRY reg msk val = val OR push_bit 8 msk OR push_bit 16 reg"

text \<open>The register, the mask and the value.\<close>

definition ADIE_CODEC_UNPACK_ENTRY :: "32 word \<Rightarrow> 32 word \<times> 32 word \<times> 32 word" where
  "ADIE_CODEC_UNPACK_ENTRY packed = (drop_bit 16 packed AND 0xff, drop_bit 8 packed AND 0xff, packed AND 0xff)"

definition SNDRV_PROTOCOL_VERSION :: "32 word \<Rightarrow> 32 word \<Rightarrow> 32 word \<Rightarrow> 32 word" where
  "SNDRV_PROTOCOL_VERSION major minor subminor = push_bit 16 major OR push_bit 8 minor OR subminor"
definition SNDRV_PROTOCOL_MAJOR :: "32 word \<Rightarrow> 32 word" where "SNDRV_PROTOCOL_MAJOR version = drop_bit 16 version AND 0xffff"
definition SNDRV_PROTOCOL_MINOR :: "32 word \<Rightarrow> 32 word" where "SNDRV_PROTOCOL_MINOR version = drop_bit 8 version AND 0xff"
definition SNDRV_PROTOCOL_MICRO :: "32 word \<Rightarrow> 32 word" where "SNDRV_PROTOCOL_MICRO version = version AND 0xff"
definition SNDRV_PROTOCOL_INCOMPATIBLE :: "32 word \<Rightarrow> 32 word \<Rightarrow> bool" where
  "SNDRV_PROTOCOL_INCOMPATIBLE kversion uversion \<longleftrightarrow>
     SNDRV_PROTOCOL_MAJOR kversion \<noteq> SNDRV_PROTOCOL_MAJOR uversion
     \<or> (SNDRV_PROTOCOL_MAJOR kversion = SNDRV_PROTOCOL_MAJOR uversion
        \<and> SNDRV_PROTOCOL_MINOR kversion \<noteq> SNDRV_PROTOCOL_MINOR uversion)"

section \<open>Masks as ranges of bits\<close>

lemma masks:
  "(0xF :: 32 word) = mask 4" "(0x7F :: 32 word) = mask 7" "(0xFF :: 32 word) = mask 8" "(0xFFF :: 32 word) = mask 12"
  "(0xFFFF :: 32 word) = mask 16" "(0xFFFFFF :: 32 word) = mask 24"
  "(0x7F00 :: 32 word) = push_bit 8 (mask 7)" "(0x7F0000 :: 32 word) = push_bit 16 (mask 7)"
  "(0x7F000000 :: 32 word) = push_bit 24 (mask 7)" "(0xFF00FFFF :: 32 word) = NOT (push_bit 16 (mask 8))"
  "(0xFFFF00FF :: 32 word) = NOT (push_bit 8 (mask 8))" "(0xFFFFFF00 :: 32 word) = NOT (mask 8)"
  by (simp_all add: mask_eq_exp_minus_1)

lemma test_bits:
  "h AND 0x80000000 = 0 \<longleftrightarrow> \<not> bit h 31" "h AND 0x800000 = 0 \<longleftrightarrow> \<not> bit h 23"
  "h AND 0x8000 = 0 \<longleftrightarrow> \<not> bit h 15" "h AND 0x80 = 0 \<longleftrightarrow> \<not> bit h 7" for h :: "32 word"
  using and_exp_eq_0_iff_not_bit [of h 31] and_exp_eq_0_iff_not_bit [of h 23] and_exp_eq_0_iff_not_bit [of h 15]
    and_exp_eq_0_iff_not_bit [of h 7] by simp_all

lemma single_bits:
  "bit (128 :: nat) n \<longleftrightarrow> n = 7"
  "bit (32768 :: nat) n \<longleftrightarrow> n = 15"
  "bit (8388608 :: nat) n \<longleftrightarrow> n = 23"
  "bit (2147483648 :: nat) n \<longleftrightarrow> n = 31"
  "bit (128 :: int) n \<longleftrightarrow> n = 7"
  "bit (32768 :: int) n \<longleftrightarrow> n = 15"
  "bit (8388608 :: int) n \<longleftrightarrow> n = 23"
  "bit (2147483648 :: int) n \<longleftrightarrow> n = 31"
proof -
  show "bit (128 :: nat) n \<longleftrightarrow> n = 7" "bit (32768 :: nat) n \<longleftrightarrow> n = 15" "bit (8388608 :: nat) n \<longleftrightarrow> n = 23"
    "bit (2147483648 :: nat) n \<longleftrightarrow> n = 31"
    using bit_exp_iff [where 'a = nat, of 7 n] bit_exp_iff [where 'a = nat, of 15 n]
      bit_exp_iff [where 'a = nat, of 23 n] bit_exp_iff [where 'a = nat, of 31 n] by auto
  show "bit (128 :: int) n \<longleftrightarrow> n = 7" "bit (32768 :: int) n \<longleftrightarrow> n = 15" "bit (8388608 :: int) n \<longleftrightarrow> n = 23"
    "bit (2147483648 :: int) n \<longleftrightarrow> n = 31"
    using bit_exp_iff [where 'a = int, of 7 n] bit_exp_iff [where 'a = int, of 15 n]
      bit_exp_iff [where 'a = int, of 23 n] bit_exp_iff [where 'a = int, of 31 n] by auto
qed

lemmas handle_defs = CLR_DEVID_MODE_def SET_DEVID_MODE_def GET_DEVID_MODE_def CLR_IMG_MODE_def SET_IMG_MODE_def GET_IMG_MODE_def
  CLR_MCTLPP_INST_IDX_def SET_MCTLPP_INST_IDX_def GET_MCTLPP_INST_IDX_def CLR_VIDEO_INST_IDX_def SET_VIDEO_INST_IDX_def
  GET_VIDEO_INST_IDX_def

section \<open>Fields do not disturb each other\<close>

lemma handle_get_set:
  "GET_DEVID_MODE (SET_DEVID_MODE (CLR_DEVID_MODE h) d) = d AND 0x7F"
  "GET_IMG_MODE (SET_IMG_MODE (CLR_IMG_MODE h) d) = d AND 0x7F"
  "GET_MCTLPP_INST_IDX (SET_MCTLPP_INST_IDX (CLR_MCTLPP_INST_IDX h) d) = d AND 0x7F"
  "GET_VIDEO_INST_IDX (SET_VIDEO_INST_IDX (CLR_VIDEO_INST_IDX h) d) = d AND 0x7F"
  unfolding handle_defs test_bits masks
  by (auto simp: bit_simps single_bits intro!: bit_word_eqI)

lemma handle_get_clr:
  "GET_DEVID_MODE (CLR_DEVID_MODE h) = 0xFF" "GET_IMG_MODE (CLR_IMG_MODE h) = 0xFF"
  "GET_MCTLPP_INST_IDX (CLR_MCTLPP_INST_IDX h) = 0xFF" "GET_VIDEO_INST_IDX (CLR_VIDEO_INST_IDX h) = 0xFF"
  unfolding handle_defs test_bits masks
  by (auto simp: bit_simps)

text \<open>Setting one field of a handle leaves the others as they were.\<close>

lemma handle_others:
  "GET_IMG_MODE (SET_DEVID_MODE (CLR_DEVID_MODE h) d) = GET_IMG_MODE h"
  "GET_MCTLPP_INST_IDX (SET_DEVID_MODE (CLR_DEVID_MODE h) d) = GET_MCTLPP_INST_IDX h"
  "GET_VIDEO_INST_IDX (SET_DEVID_MODE (CLR_DEVID_MODE h) d) = GET_VIDEO_INST_IDX h"
  "GET_DEVID_MODE (SET_IMG_MODE (CLR_IMG_MODE h) d) = GET_DEVID_MODE h"
  "GET_MCTLPP_INST_IDX (SET_IMG_MODE (CLR_IMG_MODE h) d) = GET_MCTLPP_INST_IDX h"
  "GET_VIDEO_INST_IDX (SET_IMG_MODE (CLR_IMG_MODE h) d) = GET_VIDEO_INST_IDX h"
  "GET_DEVID_MODE (SET_MCTLPP_INST_IDX (CLR_MCTLPP_INST_IDX h) d) = GET_DEVID_MODE h"
  "GET_IMG_MODE (SET_MCTLPP_INST_IDX (CLR_MCTLPP_INST_IDX h) d) = GET_IMG_MODE h"
  "GET_VIDEO_INST_IDX (SET_MCTLPP_INST_IDX (CLR_MCTLPP_INST_IDX h) d) = GET_VIDEO_INST_IDX h"
  "GET_DEVID_MODE (SET_VIDEO_INST_IDX (CLR_VIDEO_INST_IDX h) d) = GET_DEVID_MODE h"
  "GET_IMG_MODE (SET_VIDEO_INST_IDX (CLR_VIDEO_INST_IDX h) d) = GET_IMG_MODE h"
  "GET_MCTLPP_INST_IDX (SET_VIDEO_INST_IDX (CLR_VIDEO_INST_IDX h) d) = GET_MCTLPP_INST_IDX h"
  unfolding handle_defs test_bits masks
  by (auto simp: bit_simps single_bits intro!: bit_word_eqI)

text \<open>Without clearing first, the bits of the old field stay.\<close>

lemma set_without_clr: "GET_IMG_MODE (SET_IMG_MODE (SET_IMG_MODE 0 1) 2) = 3"
  by code_simp

section \<open>Packing and unpacking\<close>

lemma mdss_rev_unpack:
  "MDSS_GET_MAJOR (MDSS_MDP_REV major minor step) = major AND 0xF"
  "MDSS_GET_MINOR (MDSS_MDP_REV major minor step) = minor AND 0xFFF"
  "MDSS_GET_STEP (MDSS_MDP_REV major minor step) = step AND 0xFFFF"
  unfolding MDSS_GET_MAJOR_def MDSS_GET_MINOR_def MDSS_GET_STEP_def MDSS_MDP_REV_def masks
  by (rule bit_word_eqI; auto simp: bit_simps)+

lemma mdss_rev_pack: "MDSS_MDP_REV (MDSS_GET_MAJOR r) (MDSS_GET_MINOR r) (MDSS_GET_STEP r) = r"
proof (rule bit_word_eqI)
  fix n assume "n < LENGTH(32)"
  then show "bit (MDSS_MDP_REV (MDSS_GET_MAJOR r) (MDSS_GET_MINOR r) (MDSS_GET_STEP r)) n = bit r n"
    unfolding MDSS_GET_MAJOR_def MDSS_GET_MINOR_def MDSS_GET_STEP_def MDSS_MDP_REV_def masks
    by (cases "n < 16"; cases "n < 28") (auto simp: bit_simps)
qed

lemma adie_codec_unpack:
  "ADIE_CODEC_UNPACK_ENTRY (ADIE_CODEC_PACK_ENTRY (reg AND 0xff) (msk AND 0xff) (val AND 0xff)) = (reg AND 0xff, msk AND 0xff, val AND 0xff)"
  unfolding ADIE_CODEC_UNPACK_ENTRY_def ADIE_CODEC_PACK_ENTRY_def masks prod.inject
  by (intro conjI; rule bit_word_eqI; auto simp: bit_simps)

lemma sndrv_unpack:
  "SNDRV_PROTOCOL_MAJOR (SNDRV_PROTOCOL_VERSION (a AND 0xffff) (b AND 0xff) (c AND 0xff)) = a AND 0xffff"
  "SNDRV_PROTOCOL_MINOR (SNDRV_PROTOCOL_VERSION (a AND 0xffff) (b AND 0xff) (c AND 0xff)) = b AND 0xff"
  "SNDRV_PROTOCOL_MICRO (SNDRV_PROTOCOL_VERSION (a AND 0xffff) (b AND 0xff) (c AND 0xff)) = c AND 0xff"
  unfolding SNDRV_PROTOCOL_MAJOR_def SNDRV_PROTOCOL_MINOR_def SNDRV_PROTOCOL_MICRO_def SNDRV_PROTOCOL_VERSION_def masks
  by (rule bit_word_eqI; auto simp: bit_simps)+

text \<open>The size is rounded up, as long as the sum does not wrap around.\<close>

lemma decimated_dimension:
  assumes "deci < 32" "unat dim + 2 ^ deci \<le> 2 ^ 32"
  shows "unat dim \<le> unat (DECIMATED_DIMENSION dim deci) * 2 ^ deci"
    "unat (DECIMATED_DIMENSION dim deci) * 2 ^ deci < unat dim + 2 ^ deci"
proof -
  have one: "unat (push_bit deci 1 :: 32 word) = 2 ^ deci"
  proof -
    have "(push_bit deci 1 :: 32 word) = word_of_nat (2 ^ deci)" by (simp add: push_bit_of_1)
    moreover have "(2 :: nat) ^ deci < 2 ^ 32" using assms(1) by (intro power_strict_increasing) simp_all
    ultimately show ?thesis using assms(1) by (simp only: unsigned_of_nat) (simp add: take_bit_nat_eq_self)
  qed
  have "(1 :: 32 word) \<le> push_bit deci 1" using one by (simp add: word_le_nat_alt)
  then have m: "unat (push_bit deci 1 - 1 :: 32 word) = 2 ^ deci - 1" using one by (simp add: unat_sub)
  have "unat (dim + (push_bit deci 1 - 1)) = unat dim + (2 ^ deci - 1)"
    using assms(2) m by (subst unat_add_lem [THEN iffD1]) (simp_all add: m)
  then have d: "unat (DECIMATED_DIMENSION dim deci) = (unat dim + (2 ^ deci - 1)) div 2 ^ deci"
    by (simp only: DECIMATED_DIMENSION_def unat_drop_bit_eq) (simp add: drop_bit_eq_div)
  have q: "x \<le> (x + (k - 1)) div k * k \<and> (x + (k - 1)) div k * k < x + k" if "0 < k" for x k :: nat
    using that div_mult_mod_eq [of "x + (k - 1)" k] mod_less_divisor [OF that, of "x + (k - 1)"] by linarith
  show "unat dim \<le> unat (DECIMATED_DIMENSION dim deci) * 2 ^ deci"
    "unat (DECIMATED_DIMENSION dim deci) * 2 ^ deci < unat dim + 2 ^ deci"
    using q [of "2 ^ deci" "unat dim"] by (simp_all add: d)
qed

end
