(* ===== verification/Floats.thy ===== *)
theory Floats
  imports C_Prelude Complex_Main
begin

text \<open>
  Floating point arithmetic as rational arithmetic with the IEEE rounding to the nearest, ties to
  even, after each operation. The exponent range, which the computations modelled here never reach
  the ends of, is left out.
\<close>

section \<open>Rounding\<close>

definition round_even :: "rat \<Rightarrow> int" where
  "round_even x =
     (let f = \<lfloor>x\<rfloor>; d = x - of_int f
      in if d < 1 / 2 then f else if 1 / 2 < d then f + 1 else if even f then f else f + 1)"

text \<open>The value of the last bit of a \<open>p\<close>-bit significand for \<open>x\<close>, and rounding to it.\<close>

definition ulp :: "nat \<Rightarrow> rat \<Rightarrow> rat" where
  "ulp p x =
     (let (a, b) = quotient_of x;
          u = 2 powi (int (bit_len (nat \<bar>a\<bar>)) - int (bit_len (nat b)) - int p)
      in if \<bar>x\<bar> < 2 ^ p * u then u else 2 * u)"

definition fl :: "nat \<Rightarrow> rat \<Rightarrow> rat" where
  "fl p x = (if x = 0 then 0 else of_int (round_even (x / ulp p x)) * ulp p x)"

text \<open>\<open>double\<close> and \<open>float\<close>.\<close>

definition d_round :: "rat \<Rightarrow> rat" where "d_round = fl 53"
definition f_round :: "rat \<Rightarrow> rat" where "f_round = fl 24"

text \<open>\<open>round\<close>: halves go away from zero.\<close>

definition c_round :: "rat \<Rightarrow> int" where
  "c_round x = (if 0 \<le> x then \<lfloor>x + 1 / 2\<rfloor> else \<lceil>x - 1 / 2\<rceil>)"

lemma round_even_error: "\<bar>of_int (round_even x) - x\<bar> \<le> 1 / 2"
proof -
  have "of_int \<lfloor>x\<rfloor> \<le> x" "x < of_int \<lfloor>x\<rfloor> + 1" by linarith+
  then show ?thesis by (auto simp: round_even_def Let_def abs_le_iff)
qed

lemma round_even_of_int [simp]: "round_even (of_int n) = n"
  by (simp add: round_even_def Let_def)

lemma ulp_bounds:
  assumes "x \<noteq> 0"
  shows "0 < ulp p x" "2 ^ p * ulp p x \<le> 2 * \<bar>x\<bar>" "\<bar>x\<bar> < 2 ^ p * ulp p x"
proof -
  obtain a b where q: "quotient_of x = (a, b)" by (cases "quotient_of x")
  have b: "0 < b" and x: "x = of_int a / of_int b" using quotient_of_denom_pos [OF q] quotient_of_div [OF q] by auto
  have a: "a \<noteq> 0" using x assms by auto
  define X Y :: rat where "X = 2 ^ bit_len (nat \<bar>a\<bar>)" "Y = 2 ^ bit_len (nat b)"
  have bits: "2 ^ bit_len n / 2 \<le> (of_nat n :: rat) \<and> (of_nat n :: rat) < 2 ^ bit_len n" if n: "0 < n" for n
  proof -
    obtain l where l: "bit_len n = Suc l" using bit_len_bounds [OF n] by (cases "bit_len n") auto
    then have "of_nat (2 ^ l) \<le> (of_nat n :: rat)" "(of_nat n :: rat) < of_nat (2 ^ Suc l)"
      using bit_len_bounds [OF n] by (simp_all only: of_nat_le_iff of_nat_less_iff l diff_Suc_1)
    then show ?thesis by (simp add: l)
  qed
  have A: "X / 2 \<le> of_int \<bar>a\<bar>" "of_int \<bar>a\<bar> < X"
    using bits [of "nat \<bar>a\<bar>"] a unfolding X_Y_def by simp_all
  have B: "Y / 2 \<le> of_int b" "of_int b < Y"
    using bits [of "nat b"] b unfolding X_Y_def by simp_all
  have XY: "0 < X" "0 < Y" by (simp_all add: X_Y_def)
  define u where "u = (2::rat) powi (int (bit_len (nat \<bar>a\<bar>)) - int (bit_len (nat b)) - int p)"
  have u: "u = X / Y / 2 ^ p" unfolding u_def X_Y_def by (simp add: power_int_diff)
  have ax: "\<bar>x\<bar> = of_int \<bar>a\<bar> / of_int b" using b x by (simp add: abs_divide)
  have "X / 2 / Y \<le> of_int \<bar>a\<bar> / of_int b" by (rule frac_le) (use A B XY b in auto)
  then have lo: "2 ^ p * u \<le> 2 * \<bar>x\<bar>" unfolding ax u by simp
  have "of_int \<bar>a\<bar> / of_int b < X / (Y / 2)" by (rule frac_less) (use A B XY b in auto)
  then have hi: "\<bar>x\<bar> < 2 ^ p * (2 * u)" unfolding ax u by (simp add: mult.commute)
  have "ulp p x = (if \<bar>x\<bar> < 2 ^ p * u then u else 2 * u)" by (simp add: ulp_def q u_def Let_def)
  moreover have "0 < u" unfolding u using XY by simp
  ultimately show "0 < ulp p x" "2 ^ p * ulp p x \<le> 2 * \<bar>x\<bar>" "\<bar>x\<bar> < 2 ^ p * ulp p x" using lo hi by auto
qed

lemma fl_error: "\<bar>fl p x - x\<bar> \<le> \<bar>x\<bar> / 2 ^ p"
proof (cases "x = 0")
  case False
  note u = ulp_bounds [OF False, of p]
  have "fl p x - x = (of_int (round_even (x / ulp p x)) - x / ulp p x) * ulp p x"
    using u(1) False by (simp add: fl_def left_diff_distrib)
  then have "\<bar>fl p x - x\<bar> = \<bar>of_int (round_even (x / ulp p x)) - x / ulp p x\<bar> * ulp p x"
    using u(1) by (simp add: abs_mult)
  also have "\<dots> \<le> 1 / 2 * ulp p x" by (rule mult_right_mono [OF round_even_error]) (use u(1) in simp)
  also have "\<dots> \<le> \<bar>x\<bar> / 2 ^ p" using u(2) by (simp add: field_simps)
  finally show ?thesis .
qed (simp add: fl_def)

lemma d_round_error: "\<bar>d_round x - x\<bar> \<le> \<bar>x\<bar> / 2 ^ 53"
  unfolding d_round_def by (rule fl_error)

lemma f_round_error: "\<bar>f_round x - x\<bar> \<le> \<bar>x\<bar> / 2 ^ 24"
  unfolding f_round_def by (rule fl_error)

lemma ulp_power: "\<exists>e. ulp p x = 2 powi e"
proof -
  obtain a b where q: "quotient_of x = (a, b)" by (cases "quotient_of x")
  let ?e = "int (bit_len (nat \<bar>a\<bar>)) - int (bit_len (nat b)) - int p"
  have "2 * 2 powi ?e = (2::rat) powi (?e + 1)" using power_int_add [of "2::rat" ?e 1] by (simp only: power_int_1_right) simp
  then have "ulp p x = 2 powi ?e \<or> ulp p x = 2 powi (?e + 1)" by (simp add: ulp_def q Let_def)
  then show ?thesis by blast
qed

lemma fl_small_int:
  assumes "2 * \<bar>n\<bar> < 2 ^ p"
  shows "fl p (of_int n) = of_int n"
proof (cases "n = 0")
  case False
  let ?x = "rat_of_int n"
  note u = ulp_bounds [of ?x p]
  have "rat_of_int (2 * \<bar>n\<bar>) < of_int (2 ^ p)" using assms by (simp only: of_int_less_iff)
  then have "2 * \<bar>?x\<bar> < 2 ^ p" by simp
  then have "2 ^ p * ulp p ?x < 2 ^ p * 1"
    unfolding mult_1_right by (rule order.strict_trans1 [OF u(2), rotated]) (use False in simp)
  then have "ulp p ?x < 1" by (rule mult_left_less_imp_less) simp
  moreover obtain e where e: "ulp p ?x = 2 powi e" using ulp_power by blast
  ultimately have "e < 0" using one_le_power_int [of "2 :: rat" e] by (metis linorder_not_less numeral_le_one_iff one_le_numeral)
  then have eq: "ulp p ?x = 1 / 2 ^ nat (- e)" unfolding e by (simp add: power_int_def field_simps)
  then have "?x / ulp p ?x = of_int (n * 2 ^ nat (- e))" by simp
  then have "of_int (round_even (?x / ulp p ?x)) * ulp p ?x = ?x"
    using u(1) False by (simp only: round_even_of_int) (simp add: eq)
  then show ?thesis using False by (simp add: fl_def)
qed (simp add: fl_def)

lemma d_round_small_int: "\<bar>n\<bar> < 2 ^ 52 \<Longrightarrow> d_round (of_int n) = of_int n"
  unfolding d_round_def by (rule fl_small_int) simp

end
