(* ===== verification/Recharge.thy ===== *)
theory Recharge
  imports Floats
begin

text \<open>
  The recharging control of the battery (\<open>health/BatteryRechargingControl.cpp\<close>): a state machine
  that replaces the measured battery level by the one reported, with doubles as in \<open>Floats\<close>. The
  contents of the status file, \<open>Trim\<close> and the readings of the clock are arguments.
\<close>

section \<open>State\<close>

text \<open>\<open>start_time_\<close> is not set by the constructor: \<open>None\<close> is a value never written.\<close>

datatype RechargeState = WAIT_EOC | RECHARGING_CYCLE | OVER_LOADING | NO_POWER_SOURCE | INACTIVE

record recharging =
  rc_state :: RechargeState
  start_time :: "int option"
  recharge_soc :: int

datatype battery_status =
    BATTERY_STATUS_UNKNOWN | BATTERY_STATUS_CHARGING | BATTERY_STATUS_DISCHARGING
  | BATTERY_STATUS_NOT_CHARGING | BATTERY_STATUS_FULL

text \<open>The two properties that are read or written.\<close>

record battery_properties =
  batteryStatus :: battery_status
  batteryLevel :: int

definition kStatusIsFull :: string where "kStatusIsFull = ''Full''"
definition kStatusIsCharging :: string where "kStatusIsCharging = ''Charging''"
definition kTransitionTime :: int where "kTransitionTime = 15 * 60"
definition kFullSoc :: int where "kFullSoc = 100"

definition BatteryRechargingControl :: recharging where
  "BatteryRechargingControl = \<lparr>rc_state = INACTIVE, start_time = None, recharge_soc = 0\<rparr>"

text \<open>The first entry the string starts with; \<open>None\<close> is the result \<open>-1\<close>.\<close>

fun mapSysfsString :: "string \<Rightarrow> (string \<times> 'v) list \<Rightarrow> 'v option" where
  "mapSysfsString str [] = None"
| "mapSysfsString str ((s, v) # rest) = (if strneq (length s) str s then Some v else mapSysfsString str rest)"

definition getBatteryStatus :: "string \<Rightarrow> battery_status" where
  "getBatteryStatus status =
     (case mapSysfsString status
        [(''Unknown'', BATTERY_STATUS_UNKNOWN), (''Charging'', BATTERY_STATUS_CHARGING),
         (''Discharging'', BATTERY_STATUS_DISCHARGING), (''Not charging'', BATTERY_STATUS_NOT_CHARGING),
         (''Full'', BATTERY_STATUS_FULL)] of
        None \<Rightarrow> BATTERY_STATUS_UNKNOWN | Some ret \<Rightarrow> ret)"

section \<open>Operations\<close>

text \<open>\<open>getTime () - start_time_\<close> as a double, for the reading \<open>now\<close>.\<close>

definition elapsed :: "recharging \<Rightarrow> int \<Rightarrow> rat option" where
  "elapsed b now = do { st \<leftarrow> start_time b; if in_i64 (now - st) then Some (d_round (of_int (now - st))) else None }"

definition remap :: "rat \<Rightarrow> int \<Rightarrow> rat" where
  "remap diff_sec soc =
     d_round (d_round (of_int soc * d_round (diff_sec / of_int kTransitionTime))
       + d_round (of_int kFullSoc * d_round (1 - d_round (diff_sec / of_int kTransitionTime))))"

definition RemapSOC :: "recharging \<Rightarrow> int \<Rightarrow> int \<Rightarrow> int option" where
  "RemapSOC b now soc = do { diff_sec \<leftarrow> elapsed b now; i32 (c_round (remap diff_sec soc)) }"

text \<open>
  One call: \<open>now\<close> is the first and \<open>now2\<close> the second reading of the clock during it. The helper is
  the code the three transitions to a timed state share.
\<close>

definition start_remap :: "RechargeState \<Rightarrow> int \<Rightarrow> int \<Rightarrow> recharging \<Rightarrow> battery_properties \<Rightarrow>
    (recharging \<times> battery_properties) option" where
  "start_remap s now now2 b props =
     do { let b = b\<lparr>start_time := Some now, rc_state := s\<rparr>;
          l \<leftarrow> RemapSOC b now2 (batteryLevel props);
          Some (b, props\<lparr>batteryLevel := l\<rparr>) }"

definition case_WAIT_EOC :: "string \<Rightarrow> int \<Rightarrow> int \<Rightarrow> recharging \<Rightarrow> battery_properties \<Rightarrow>
    (recharging \<times> battery_properties) option" where
  "case_WAIT_EOC charger_status now now2 b props =
     (if charger_status = kStatusIsFull
      then Some (b\<lparr>rc_state := RECHARGING_CYCLE\<rparr>, props\<lparr>batteryLevel := kFullSoc\<rparr>)
      else if charger_status \<noteq> kStatusIsCharging then start_remap NO_POWER_SOURCE now now2 b props
      else Some (b, props))"

definition case_RECHARGING_CYCLE :: "string \<Rightarrow> int \<Rightarrow> int \<Rightarrow> recharging \<Rightarrow> battery_properties \<Rightarrow>
    (recharging \<times> battery_properties) option" where
  "case_RECHARGING_CYCLE charger_status now now2 b props =
     (if charger_status = kStatusIsFull
      then Some (b\<lparr>recharge_soc := 0\<rparr>, props\<lparr>batteryLevel := kFullSoc\<rparr>)
      else if charger_status = kStatusIsCharging then
        if recharge_soc b = 0
        then Some (b\<lparr>recharge_soc := batteryLevel props\<rparr>, props\<lparr>batteryLevel := kFullSoc\<rparr>)
        else if batteryLevel props < recharge_soc b then start_remap OVER_LOADING now now2 b props
        else Some (b, props\<lparr>batteryLevel := kFullSoc\<rparr>)
      else start_remap NO_POWER_SOURCE now now2 b props)"

definition case_remapping :: "string \<Rightarrow> int \<Rightarrow> int \<Rightarrow> recharging \<Rightarrow> battery_properties \<Rightarrow>
    (recharging \<times> battery_properties) option" where
  "case_remapping charger_status now now2 b props =
     do { let cur_soc = batteryLevel props;
          elapsed_time \<leftarrow> elapsed b now;
          if elapsed_time > of_int kTransitionTime then Some (b\<lparr>rc_state := INACTIVE\<rparr>, props)
          else do {
            battery_level \<leftarrow> RemapSOC b now2 (batteryLevel props);
            if battery_level = batteryLevel props \<and> battery_level \<noteq> kFullSoc
            then Some (b\<lparr>rc_state := INACTIVE\<rparr>, props)
            else do {
              let props = props\<lparr>batteryLevel := battery_level\<rparr>;
              Some (if charger_status = kStatusIsCharging \<and> batteryLevel props = kFullSoc \<and> cur_soc \<ge> recharge_soc b
                    then b\<lparr>rc_state := RECHARGING_CYCLE, recharge_soc := batteryLevel props\<rparr> else b,
                    props) } } }"

text \<open>\<open>contents\<close> is what reading the status file gives.\<close>

definition updateBatteryProperties :: "(string \<Rightarrow> string) \<Rightarrow> string option \<Rightarrow> int \<Rightarrow> int \<Rightarrow> recharging \<Rightarrow>
    battery_properties \<Rightarrow> (recharging \<times> battery_properties) option" where
  "updateBatteryProperties Trim contents now now2 b props =
     (case contents of
        None \<Rightarrow> Some (b, props)
      | Some charger_status \<Rightarrow>
          let charger_status = Trim charger_status;
              props = props\<lparr>batteryStatus := getBatteryStatus charger_status\<rparr>
          in if rc_state b = INACTIVE \<and> batteryLevel props < kFullSoc then Some (b, props)
             else case rc_state b of
                    INACTIVE \<Rightarrow> case_WAIT_EOC charger_status now now2 (b\<lparr>rc_state := WAIT_EOC, recharge_soc := 0\<rparr>) props
                  | WAIT_EOC \<Rightarrow> case_WAIT_EOC charger_status now now2 b props
                  | RECHARGING_CYCLE \<Rightarrow> case_RECHARGING_CYCLE charger_status now now2 b props
                  | OVER_LOADING \<Rightarrow> case_remapping charger_status now now2 b props
                  | NO_POWER_SOURCE \<Rightarrow> case_remapping charger_status now now2 b props)"

section \<open>The remapped level\<close>

lemma d_round_near: "\<bar>x\<bar> \<le> B \<Longrightarrow> \<bar>d_round x - x\<bar> \<le> B / 2 ^ 53"
  using d_round_error [of x] divide_right_mono [of "\<bar>x\<bar>" B "2 ^ 53"] by simp

text \<open>For up to 901 seconds the result lies between the level and 100.\<close>

lemma remap_bounds:
  assumes "0 \<le> soc" "soc \<le> 100" "0 \<le> d" "d \<le> 901"
  shows "soc \<le> c_round (remap (of_int d) soc) \<and> c_round (remap (of_int d) soc) \<le> 100"
proof -
  define t where "t = rat_of_int d / 900"
  define s where "s = rat_of_int soc"
  define q where "q = d_round t"
  define c where "c = d_round (1 - q)"
  define a where "a = d_round (s * q)"
  define b where "b = d_round (100 * c)"
  define r where "r = d_round (a + b)"
  have s: "0 \<le> s" "s \<le> 100" using assms(1,2) by (simp_all add: s_def)
  have t: "0 \<le> t" "t \<le> 901 / 900" using assms(3,4) by (simp_all add: t_def)
  have q: "\<bar>q - t\<bar> \<le> 1 / 1000000000" using d_round_near [of t 2] t by (simp add: q_def)
  have sq: "\<bar>s * (q - t)\<bar> \<le> 100 * (1 / 1000000000)" unfolding abs_mult by (rule mult_mono) (use s q in auto)
  have st: "0 \<le> s * t" "s * t \<le> 100 * (901 / 900)"
    using s t by (auto intro: mult_nonneg_nonneg) (rule mult_mono [of s 100 t "901 / 900", simplified], auto)
  have "\<bar>s * q\<bar> \<le> 110" using sq st unfolding abs_le_iff right_diff_distrib by linarith
  then have a: "\<bar>a - s * q\<bar> \<le> 1 / 1000000000" using d_round_near [of "s * q" 110] by (simp add: a_def)
  have "\<bar>1 - q\<bar> \<le> 2" using q t unfolding abs_le_iff by linarith
  then have c: "\<bar>c - (1 - q)\<bar> \<le> 1 / 1000000000" using d_round_near [of "1 - q" 2] by (simp add: c_def)
  have "\<bar>100 * c\<bar> \<le> 300" using c q t unfolding abs_le_iff by linarith
  then have b: "\<bar>b - 100 * c\<bar> \<le> 1 / 1000000000" using d_round_near [of "100 * c" 300] by (simp add: b_def)
  have "\<bar>a + b\<bar> \<le> 500" using a b c q t sq st unfolding abs_le_iff right_diff_distrib by linarith
  then have r: "\<bar>r - (a + b)\<bar> \<le> 1 / 1000000000" using d_round_near [of "a + b" 500] by (simp add: r_def)
  have e: "\<bar>r - (s * t + 100 * (1 - t))\<bar> \<le> 1 / 100"
    using a b c q r sq unfolding abs_le_iff right_diff_distrib by linarith
  have lo: "s - 1 / 9 \<le> s * t + 100 * (1 - t)" and hi: "s * t + 100 * (1 - t) \<le> 100"
  proof -
    have "(100 - s) * t \<le> (100 - s) * (901 / 900)" "0 \<le> (100 - s) * t"
      using mult_left_mono [OF t(2), of "100 - s"] s t by (simp_all add: mult_nonneg_nonneg)
    then show "s - 1 / 9 \<le> s * t + 100 * (1 - t)" "s * t + 100 * (1 - t) \<le> 100"
      using s by (simp_all add: algebra_simps)
  qed
  have dr: "remap (of_int d) soc = r"
    by (simp add: remap_def kTransitionTime_def kFullSoc_def r_def a_def b_def c_def q_def t_def s_def)
  have "s - 1 / 4 \<le> r" "r \<le> 100 + 1 / 4" using e lo hi unfolding abs_le_iff by linarith+
  then have "rat_of_int soc - 1 / 4 \<le> r" "r \<le> 100 + 1 / 4" by (simp_all add: s_def)
  moreover have "\<not> 0 \<le> r \<Longrightarrow> soc = 0"
  proof -
    assume "\<not> 0 \<le> r"
    then have "rat_of_int soc < 1" using calculation by linarith
    then show "soc = 0" using assms(1) by simp
  qed
  ultimately show ?thesis unfolding dr c_round_def using assms(1,2) by (cases "0 \<le> r") (simp_all, linarith+)
qed

lemma d_round_0_1 [simp]: "d_round 0 = 0" "d_round 1 = 1" "d_round 100 = 100"
  using d_round_small_int [of 1] d_round_small_int [of 100] by (simp_all add: d_round_def fl_def)

lemma c_round_of_int: "c_round (of_int n) = n"
  unfolding c_round_def by (cases "0 \<le> rat_of_int n") (simp_all, linarith+)

lemma remap_ends:
  assumes "\<bar>soc\<bar> < 2 ^ 31"
  shows "c_round (remap 0 soc) = 100" "c_round (remap 900 soc) = soc"
  using d_round_small_int [of soc] assms c_round_of_int [of 100] c_round_of_int [of soc]
  by (simp_all add: remap_def kTransitionTime_def kFullSoc_def)

section \<open>Runs\<close>

text \<open>
  The states reachable from the constructor by updates whose clock readings do not decrease.
  \<open>T\<close> is the last reading.
\<close>

inductive recharge_run :: "(string \<Rightarrow> string) \<Rightarrow> recharging \<Rightarrow> int \<Rightarrow> bool" for Trim where
  start: "recharge_run Trim BatteryRechargingControl 0"
| update: "recharge_run Trim b T \<Longrightarrow> T \<le> now \<Longrightarrow> now \<le> now2 \<Longrightarrow> now2 < 2 ^ 50 \<Longrightarrow>
    updateBatteryProperties Trim contents now now2 b props = Some (b', props') \<Longrightarrow> recharge_run Trim b' now2"

abbreviation remapping :: "recharging \<Rightarrow> bool" where
  "remapping b \<equiv> rc_state b \<in> {OVER_LOADING, NO_POWER_SOURCE}"

text \<open>
  The states of one remapping, which an update entered whose first reading was \<open>st\<close>, and no update
  left since. \<open>st\<close> is kept by the relation, not by the control.
\<close>

inductive remap_run :: "(string \<Rightarrow> string) \<Rightarrow> int \<Rightarrow> recharging \<Rightarrow> int \<Rightarrow> bool" for Trim where
  enter: "recharge_run Trim b T \<Longrightarrow> \<not> remapping b \<Longrightarrow> T \<le> now \<Longrightarrow> now \<le> now2 \<Longrightarrow> now2 < 2 ^ 50 \<Longrightarrow>
    updateBatteryProperties Trim contents now now2 b props = Some (b', props') \<Longrightarrow> remapping b' \<Longrightarrow> remap_run Trim now b' now2"
| stay: "remap_run Trim st b T \<Longrightarrow> T \<le> now \<Longrightarrow> now \<le> now2 \<Longrightarrow> now2 < 2 ^ 50 \<Longrightarrow>
    updateBatteryProperties Trim contents now now2 b props = Some (b', props') \<Longrightarrow> remapping b' \<Longrightarrow> remap_run Trim st b' now2"

definition timed :: "recharging \<Rightarrow> int \<Rightarrow> bool" where
  "timed b T \<longleftrightarrow> 0 \<le> T \<and> T < 2 ^ 50
     \<and> (rc_state b \<in> {OVER_LOADING, NO_POWER_SOURCE} \<longrightarrow> (\<exists>st. start_time b = Some st \<and> 0 \<le> st \<and> st \<le> T))"

lemma timed_INACTIVE: "timed b T \<Longrightarrow> T \<le> T' \<Longrightarrow> T' < 2 ^ 50 \<Longrightarrow> s \<notin> {OVER_LOADING, NO_POWER_SOURCE} \<Longrightarrow>
    timed (b\<lparr>rc_state := s\<rparr>) T'"
  by (simp add: timed_def)

lemma timed_soc [simp]: "timed (b\<lparr>recharge_soc := x\<rparr>) T = timed b T"
  by (simp add: timed_def)

lemma timed_mono: "timed b T \<Longrightarrow> T \<le> T' \<Longrightarrow> T' < 2 ^ 50 \<Longrightarrow> timed b T'"
  by (force simp: timed_def)

lemma start_remap_timed:
  assumes "timed b T" "T \<le> now" "now \<le> now2" "now2 < 2 ^ 50" "start_remap s now now2 b props = Some (b', props')"
  shows "timed b' now2"
  using assms by (auto simp: start_remap_def timed_def bind_eq_Some_iff Let_def)

lemma case_timed:
  assumes "timed b T" "T \<le> now" "now \<le> now2" "now2 < 2 ^ 50"
  shows "case_WAIT_EOC st now now2 b props = Some (b', props') \<Longrightarrow> timed b' now2"
    "case_RECHARGING_CYCLE st now now2 b props = Some (b', props') \<Longrightarrow> timed b' now2"
    "case_remapping st now now2 b props = Some (b', props') \<Longrightarrow> timed b' now2"
proof -
  note t = timed_mono [OF assms(1) order_trans [OF assms(2,3)] assms(4)] timed_INACTIVE [OF assms(1) order_trans [OF assms(2,3)] assms(4)]
  show "timed b' now2" if "case_WAIT_EOC st now now2 b props = Some (b', props')"
    using that start_remap_timed [OF assms] t by (auto simp: case_WAIT_EOC_def split: if_splits)
  show "timed b' now2" if "case_RECHARGING_CYCLE st now now2 b props = Some (b', props')"
    using that start_remap_timed [OF assms] t by (auto simp: case_RECHARGING_CYCLE_def split: if_splits)
  show "timed b' now2" if "case_remapping st now now2 b props = Some (b', props')"
    using that t by (auto simp: case_remapping_def bind_eq_Some_iff Let_def split: if_splits)
qed

lemma update_timed:
  assumes "timed b T" "T \<le> now" "now \<le> now2" "now2 < 2 ^ 50"
    and "updateBatteryProperties Trim contents now now2 b props = Some (b', props')"
  shows "timed b' now2"
proof -
  note t = timed_mono [OF assms(1) order_trans [OF assms(2,3)] assms(4)]
  have w: "timed (b\<lparr>rc_state := WAIT_EOC, recharge_soc := 0\<rparr>) T"
    using timed_INACTIVE [OF assms(1), of T WAIT_EOC] assms by simp
  show ?thesis
    using assms(5) t case_timed [OF assms(1-4)] case_timed(1) [OF w assms(2-4)]
    by (auto simp: updateBatteryProperties_def Let_def split: option.splits if_splits RechargeState.splits)
qed

lemma run_timed: "recharge_run Trim b T \<Longrightarrow> timed b T"
proof (induction rule: recharge_run.induct)
  case start
  then show ?case by (simp add: timed_def BatteryRechargingControl_def)
next
  case (update b T now now2 contents props b' props')
  then show ?case by (intro update_timed [of b T now now2])
qed

text \<open>The recorded time is that of the entry, however often the remapping was updated.\<close>

lemma start_remap_start: "start_remap x now now2 b props = Some (b', props') \<Longrightarrow> start_time b' = Some now"
  by (auto simp: start_remap_def bind_eq_Some_iff Let_def)

lemma enter_start:
  assumes "updateBatteryProperties Trim contents now now2 b props = Some (b', props')" "\<not> remapping b" "remapping b'"
  shows "start_time b' = Some now"
  using assms start_remap_start
  by (cases contents; cases "rc_state b")
    (auto simp: updateBatteryProperties_def Let_def case_WAIT_EOC_def case_RECHARGING_CYCLE_def split: if_splits)

lemma stay_start:
  assumes "updateBatteryProperties Trim contents now now2 b props = Some (b', props')" "remapping b"
  shows "start_time b' = start_time b"
  using assms
  by (cases contents)
    (auto simp: updateBatteryProperties_def Let_def case_remapping_def bind_eq_Some_iff split: if_splits)

lemma remap_run_start: "remap_run Trim st b T \<Longrightarrow> start_time b = Some st \<and> remapping b \<and> 0 \<le> st \<and> st \<le> T"
proof (induction rule: remap_run.induct)
  case (enter b T now now2 contents props b' props')
  then have "0 \<le> T" using run_timed [OF enter(1)] by (simp add: timed_def)
  then show ?case using enter enter_start [OF enter(6,2,7)] by simp
next
  case (stay st b T now now2 contents props b' props')
  then show ?case using stay_start [OF stay(5)] by simp
qed

text \<open>While it waits for the charge to complete, no level of a recharging is kept.\<close>

lemma update_WAIT_EOC:
  assumes "updateBatteryProperties Trim contents now now2 b props = Some (b', props')"
    and "rc_state b = WAIT_EOC \<longrightarrow> recharge_soc b = 0" "rc_state b' = WAIT_EOC"
  shows "recharge_soc b' = 0"
  using assms
  by (cases contents; cases "rc_state b")
    (auto simp: updateBatteryProperties_def Let_def case_WAIT_EOC_def case_RECHARGING_CYCLE_def case_remapping_def
      start_remap_def bind_eq_Some_iff split: if_splits)

lemma run_WAIT_EOC: "recharge_run Trim b T \<Longrightarrow> rc_state b = WAIT_EOC \<Longrightarrow> recharge_soc b = 0"
proof (induction rule: recharge_run.induct)
  case start
  then show ?case by (simp add: BatteryRechargingControl_def)
next
  case (update b T now now2 contents props b' props')
  then show ?case by (blast intro: update_WAIT_EOC)
qed

lemma elapsed_ok:
  assumes "start_time b = Some st" "0 \<le> st" "st \<le> now" "now < 2 ^ 51"
  shows "elapsed b now = Some (of_int (now - st))"
proof -
  have "\<bar>now - st\<bar> < 2 ^ 52" "in_i64 (now - st)" using assms by (simp_all add: in_i64_def)
  from d_round_small_int [OF this(1)] this(2) show ?thesis using assms(1) by (simp add: elapsed_def)
qed

lemma RemapSOC_ok:
  assumes "start_time b = Some st" "0 \<le> st" "st \<le> now" "now \<le> st + 901" "now < 2 ^ 51" "0 \<le> soc" "soc \<le> 100"
  shows "\<exists>l. RemapSOC b now soc = Some l \<and> soc \<le> l \<and> l \<le> 100"
  using elapsed_ok [OF assms(1-3,5)] remap_bounds [OF assms(6,7), of "now - st"] assms
  by (simp add: RemapSOC_def in_i32_def)

section \<open>Properties\<close>

lemma start_remap_ok:
  assumes "0 \<le> now" "now \<le> now2" "now2 \<le> now + 1" "now2 < 2 ^ 50" "0 \<le> batteryLevel props" "batteryLevel props \<le> 100"
  shows "\<exists>b' props'. start_remap s now now2 b props = Some (b', props')
    \<and> batteryLevel props \<le> batteryLevel props' \<and> batteryLevel props' \<le> 100"
proof -
  let ?b = "b\<lparr>start_time := Some now, rc_state := s\<rparr>"
  obtain l where "RemapSOC ?b now2 (batteryLevel props) = Some l" "batteryLevel props \<le> l" "l \<le> 100"
    using RemapSOC_ok [of ?b now now2 "batteryLevel props"] assms by auto
  then show ?thesis by (simp add: start_remap_def)
qed

lemma case_remapping_ok:
  assumes "start_time b = Some st" "0 \<le> st" "st \<le> now" "now \<le> now2" "now2 \<le> now + 1" "now2 < 2 ^ 50"
    and "0 \<le> batteryLevel props" "batteryLevel props \<le> 100"
  shows "\<exists>b' props'. case_remapping c now now2 b props = Some (b', props')
    \<and> batteryLevel props \<le> batteryLevel props' \<and> batteryLevel props' \<le> 100"
proof -
  have e: "elapsed b now = Some (of_int (now - st))" by (rule elapsed_ok) (use assms in auto)
  show ?thesis
  proof (cases "now - st > kTransitionTime")
    case True
    then have "of_int (now - st) > rat_of_int kTransitionTime" by (simp only: of_int_less_iff)
    then show ?thesis using e assms(8) by (simp add: case_remapping_def Let_def)
  next
    case False
    then have "\<not> of_int (now - st) > rat_of_int kTransitionTime" by (simp only: of_int_less_iff not_False_eq_True)
    moreover obtain l where "RemapSOC b now2 (batteryLevel props) = Some l" "batteryLevel props \<le> l" "l \<le> 100"
      using RemapSOC_ok [OF assms(1,2), of now2 "batteryLevel props"] assms False by (auto simp: kTransitionTime_def)
    ultimately show ?thesis using e by (simp add: case_remapping_def Let_def)
  qed
qed

text \<open>
  C17. In every state the control can reach, an update whose two readings of the clock are at most a
  second apart is defined for a measured level from 0 to 100, and the level it reports lies between the
  measured one and 100: the user never sees less than the battery holds, however the cable is plugged
  and unplugged. \<open>late_reading\<close> shows what a later second reading does.
\<close>

theorem recharge_level_bounds:
  assumes "recharge_run Trim b T" "T \<le> now" "now \<le> now2" "now2 \<le> now + 1" "now2 < 2 ^ 50"
    and "0 \<le> batteryLevel props" "batteryLevel props \<le> 100"
  shows "\<exists>b' props'. updateBatteryProperties Trim contents now now2 b props = Some (b', props')
    \<and> batteryLevel props \<le> batteryLevel props' \<and> batteryLevel props' \<le> 100"
proof (cases contents)
  case None
  then show ?thesis using assms(7) by (simp add: updateBatteryProperties_def)
next
  case (Some s)
  note t = run_timed [OF assms(1)]
  have now: "0 \<le> now" using t assms(2) by (simp add: timed_def)
  let ?p = "props\<lparr>batteryStatus := getBatteryStatus (Trim s)\<rparr>"
  have p: "0 \<le> batteryLevel ?p" "batteryLevel ?p \<le> 100" using assms(6,7) by simp_all
  note sr = start_remap_ok [OF now assms(3-5) p]
  have w: "\<exists>b' props'. case_WAIT_EOC (Trim s) now now2 b ?p = Some (b', props')
      \<and> batteryLevel props \<le> batteryLevel props' \<and> batteryLevel props' \<le> 100" for b
    using sr assms(7) by (auto simp: case_WAIT_EOC_def kFullSoc_def)
  have r: "\<exists>b' props'. case_RECHARGING_CYCLE (Trim s) now now2 b ?p = Some (b', props')
      \<and> batteryLevel props \<le> batteryLevel props' \<and> batteryLevel props' \<le> 100" for b
    using sr assms(7) by (auto simp: case_RECHARGING_CYCLE_def kFullSoc_def)
  have m: "\<exists>b' props'. case_remapping (Trim s) now now2 b ?p = Some (b', props')
      \<and> batteryLevel props \<le> batteryLevel props' \<and> batteryLevel props' \<le> 100"
    if st: "rc_state b \<in> {OVER_LOADING, NO_POWER_SOURCE}"
  proof -
    obtain st where "start_time b = Some st" "0 \<le> st" "st \<le> now" using t st assms(2) by (auto simp: timed_def)
    then show ?thesis using case_remapping_ok [OF _ _ _ assms(3-5) p] by simp
  qed
  show ?thesis
    using w r m assms(7) by (cases "rc_state b") (simp_all add: Some updateBatteryProperties_def Let_def)
qed

lemma recharge_run_1: "recharge_run id (BatteryRechargingControl\<lparr>rc_state := WAIT_EOC\<rparr>) 5"
  by (rule recharge_run.update [OF recharge_run.start, of 5 5 _ "Some ''Charging''"
        "\<lparr>batteryStatus = BATTERY_STATUS_UNKNOWN, batteryLevel = 100\<rparr>" _
        "\<lparr>batteryStatus = getBatteryStatus ''Charging'', batteryLevel = 100\<rparr>"])
    (simp_all add: updateBatteryProperties_def BatteryRechargingControl_def case_WAIT_EOC_def kStatusIsFull_def
      kStatusIsCharging_def kFullSoc_def)

theorem recharge_level_bounds_witness:
  "\<exists>b' props'. updateBatteryProperties id (Some ''Discharging'') 7 8 (BatteryRechargingControl\<lparr>rc_state := WAIT_EOC\<rparr>)
      \<lparr>batteryStatus = BATTERY_STATUS_UNKNOWN, batteryLevel = 98\<rparr> = Some (b', props')
    \<and> 98 \<le> batteryLevel props' \<and> batteryLevel props' \<le> 100"
  using recharge_level_bounds [OF recharge_run_1, of 7 8 "\<lparr>batteryStatus = BATTERY_STATUS_UNKNOWN, batteryLevel = 98\<rparr>"]
  by simp

text \<open>
  The second reading of the clock is not compared with the end of the window: when it comes ten seconds
  after the first, at the end of it, less than the measured level is reported, for an empty battery -1.
\<close>

lemma late_remap: "c_round (remap 910 0) = -1"
proof -
  define q where "q = d_round (910 / 900)"
  define c where "c = d_round (1 - q)"
  define b where "b = d_round (100 * c)"
  define r where "r = d_round b"
  have q: "\<bar>q - 910 / 900\<bar> \<le> 1 / 1000000000" using d_round_near [of "910 / 900" 2] by (simp add: q_def)
  then have "\<bar>1 - q\<bar> \<le> 2" unfolding abs_le_iff by linarith
  then have c: "\<bar>c - (1 - q)\<bar> \<le> 1 / 1000000000" using d_round_near [of "1 - q" 2] by (simp add: c_def)
  then have "\<bar>100 * c\<bar> \<le> 300" using q unfolding abs_le_iff by linarith
  then have b: "\<bar>b - 100 * c\<bar> \<le> 1 / 1000000000" using d_round_near [of "100 * c" 300] by (simp add: b_def)
  then have "\<bar>b\<bar> \<le> 500" using c q unfolding abs_le_iff by linarith
  then have "\<bar>r - b\<bar> \<le> 1 / 1000000000" using d_round_near [of b 500] by (simp add: r_def)
  then have "- 3 / 2 < r" "r < - 1 / 2" using b c q unfolding abs_le_iff by linarith+
  moreover have "remap 910 0 = r"
    by (simp add: remap_def kTransitionTime_def kFullSoc_def r_def b_def c_def q_def)
  ultimately show ?thesis unfolding c_round_def by (simp, linarith)
qed

lemma late_reading:
  "map_option (batteryLevel \<circ> snd) (updateBatteryProperties id (Some ''Discharging'') 900 910
      \<lparr>rc_state = NO_POWER_SOURCE, start_time = Some 0, recharge_soc = 0\<rparr> \<lparr>batteryStatus = q, batteryLevel = 0\<rparr>) = Some (-1)"
  using late_remap elapsed_ok [of "\<lparr>rc_state = NO_POWER_SOURCE, start_time = Some 0, recharge_soc = 0\<rparr>" 0 900]
    elapsed_ok [of "\<lparr>rc_state = NO_POWER_SOURCE, start_time = Some 0, recharge_soc = 0\<rparr>" 0 910]
  by (simp add: updateBatteryProperties_def case_remapping_def RemapSOC_def Let_def kTransitionTime_def kFullSoc_def
      kStatusIsCharging_def in_i32_def)

section \<open>Sequences of updates\<close>

text \<open>Updates one after the other, each with the status read, the clock and the measured properties; the levels reported.\<close>

type_synonym reading = "string \<times> int \<times> int \<times> battery_properties"

fun updates :: "(string \<Rightarrow> string) \<Rightarrow> reading list \<Rightarrow> recharging \<Rightarrow> (recharging \<times> int list) option" where
  "updates Trim [] b = Some (b, [])"
| "updates Trim ((s, now, now2, props) # us) b = do {
     (b, props) \<leftarrow> updateBatteryProperties Trim (Some s) now now2 b props;
     (b, ls) \<leftarrow> updates Trim us b;
     Some (b, batteryLevel props # ls) }"

text \<open>
  Readings, as status and level, through which a charge is kept: each is full, or charging at no less
  than the level the first one had that was charging since it was last full.
\<close>

fun kept :: "int option \<Rightarrow> (string \<times> int) list \<Rightarrow> bool" where
  "kept began [] \<longleftrightarrow> True"
| "kept began ((status, level) # us) \<longleftrightarrow>
     (if status = kStatusIsFull then kept None us
      else status = kStatusIsCharging \<and> 0 < level
        \<and> (case began of None \<Rightarrow> kept (Some level) us | Some l \<Rightarrow> l \<le> level \<and> kept began us))"

abbreviation as_read :: "(string \<Rightarrow> string) \<Rightarrow> reading \<Rightarrow> string \<times> int" where
  "as_read Trim \<equiv> \<lambda>(s, now, now2, props). (Trim s, batteryLevel props)"

lemma kept_updates:
  assumes "rc_state b = RECHARGING_CYCLE" "kept began (map (as_read Trim) us)"
    and "recharge_soc b = (case began of None \<Rightarrow> 0 | Some l \<Rightarrow> l)" "\<forall>l. began = Some l \<longrightarrow> 0 < l"
  shows "\<exists>b'. updates Trim us b = Some (b', replicate (length us) kFullSoc) \<and> rc_state b' = RECHARGING_CYCLE"
  using assms
proof (induction us arbitrary: b began)
  case (Cons u us)
  obtain s now now2 props where u: "u = (s, now, now2, props)" by (cases u)
  let ?soc = "if Trim s = kStatusIsFull then 0 else if began = None then batteryLevel props else recharge_soc b"
  let ?began = "if Trim s = kStatusIsFull then None else if began = None then Some (batteryLevel props) else began"
  let ?b = "b\<lparr>recharge_soc := ?soc\<rparr>"
  have n: "kStatusIsFull \<noteq> kStatusIsCharging" by (simp add: kStatusIsFull_def kStatusIsCharging_def)
  have "\<exists>p. updateBatteryProperties Trim (Some s) now now2 b props = Some (?b, p) \<and> batteryLevel p = kFullSoc"
    using Cons.prems n by (cases b)
      (auto simp: u updateBatteryProperties_def Let_def case_RECHARGING_CYCLE_def split: option.splits if_splits)
  then obtain p where p: "updateBatteryProperties Trim (Some s) now now2 b props = Some (?b, p)" "batteryLevel p = kFullSoc"
    by blast
  have "\<exists>b'. updates Trim us ?b = Some (b', replicate (length us) kFullSoc) \<and> rc_state b' = RECHARGING_CYCLE"
    by (rule Cons.IH [of ?b ?began]) (use Cons.prems in \<open>auto simp: u split: option.splits if_splits\<close>)
  then show ?case using p by (auto simp: u)
qed simp

text \<open>
  C29. From a reading \<open>Full\<close> on, in any reachable state that does not remap, the level is reported as 100
  through any number of further updates, as long as each is full, or charging at no less than the level
  the recharging began at; the control stays in its recharging cycle. It is the reading that completes a
  charge: after the cable was pulled and put back, \<open>replug_overloads\<close> holds instead.
\<close>

theorem recharge_holds_full:
  assumes "recharge_run Trim b T" "\<not> remapping b" "rc_state b = INACTIVE \<longrightarrow> kFullSoc \<le> batteryLevel props"
    and "Trim s = kStatusIsFull" "kept None (map (as_read Trim) us)"
  shows "\<exists>b'. updates Trim ((s, now, now2, props) # us) b = Some (b', replicate (Suc (length us)) kFullSoc)
    \<and> rc_state b' = RECHARGING_CYCLE"
proof -
  have "\<exists>b1 p. updateBatteryProperties Trim (Some s) now now2 b props = Some (b1, p) \<and> batteryLevel p = kFullSoc
      \<and> rc_state b1 = RECHARGING_CYCLE \<and> recharge_soc b1 = 0"
    using assms(2-4) run_WAIT_EOC [OF assms(1)]
    by (cases "rc_state b") (auto simp: updateBatteryProperties_def Let_def case_WAIT_EOC_def case_RECHARGING_CYCLE_def)
  then obtain b1 p where p: "updateBatteryProperties Trim (Some s) now now2 b props = Some (b1, p)" "batteryLevel p = kFullSoc"
    "rc_state b1 = RECHARGING_CYCLE" "recharge_soc b1 = 0" by blast
  obtain b' where "updates Trim us b1 = Some (b', replicate (length us) kFullSoc)" "rc_state b' = RECHARGING_CYCLE"
    using kept_updates [OF p(3) assms(5)] p(4) by auto
  then show ?thesis using p by simp
qed

definition readings :: "reading list" where
  "readings = [(''Charging'', 60, 60, \<lparr>batteryStatus = BATTERY_STATUS_FULL, batteryLevel = 97\<rparr>),
     (''Charging'', 120, 121, \<lparr>batteryStatus = BATTERY_STATUS_FULL, batteryLevel = 97\<rparr>),
     (''Full'', 180, 180, \<lparr>batteryStatus = BATTERY_STATUS_FULL, batteryLevel = 99\<rparr>),
     (''Charging'', 240, 240, \<lparr>batteryStatus = BATTERY_STATUS_FULL, batteryLevel = 95\<rparr>)]"

theorem recharge_holds_full_witness:
  "\<exists>b'. updates id ((''Full'', 9, 9, \<lparr>batteryStatus = BATTERY_STATUS_UNKNOWN, batteryLevel = 99\<rparr>) # readings)
      (BatteryRechargingControl\<lparr>rc_state := WAIT_EOC\<rparr>) = Some (b', [100, 100, 100, 100, 100]) \<and> rc_state b' = RECHARGING_CYCLE"
proof -
  have "replicate (Suc (length readings)) kFullSoc = [100, 100, 100, 100, 100]"
    by (simp add: readings_def kFullSoc_def)
  moreover have "kept None (map (as_read id) readings)"
    by (simp add: readings_def kStatusIsFull_def kStatusIsCharging_def)
  ultimately show ?thesis
    using recharge_holds_full [OF recharge_run_1, of "\<lparr>batteryStatus = BATTERY_STATUS_UNKNOWN, batteryLevel = 99\<rparr>" "''Full''" readings 9 9]
    by (simp add: kStatusIsFull_def)
qed

text \<open>
  C24. A remapping ends: in any reachable state of one that was entered at the clock reading \<open>st\<close>, however
  many updates followed, the first readable one more than 15 minutes after \<open>st\<close> goes back to the
  inactive state and reports the measured level.
\<close>

theorem recharge_remap_ends:
  assumes "remap_run Trim st b T" "T \<le> now" "st + kTransitionTime < now" "now < 2 ^ 50"
  shows "updateBatteryProperties Trim (Some s) now now2 b props =
    Some (b\<lparr>rc_state := INACTIVE\<rparr>, props\<lparr>batteryStatus := getBatteryStatus (Trim s)\<rparr>)"
proof -
  have st: "start_time b = Some st" "remapping b" "0 \<le> st" "st \<le> T"
    using remap_run_start [OF assms(1)] by simp_all
  have "elapsed b now = Some (of_int (now - st))"
    by (rule elapsed_ok [OF st(1,3)]) (use st assms in simp_all)
  moreover have "kTransitionTime < now - st" using assms(3) by simp
  then have "rat_of_int kTransitionTime < of_int (now - st)" by (simp only: of_int_less_iff)
  ultimately show ?thesis using st(2) by (auto simp: updateBatteryProperties_def case_remapping_def Let_def)
qed

text \<open>A remapping entered at 5, with an update at 400.\<close>

lemma remap_run_example:
  "remap_run id 5 \<lparr>rc_state = NO_POWER_SOURCE, start_time = Some 5, recharge_soc = 0\<rparr> 400"
proof -
  let ?b = "\<lparr>rc_state = NO_POWER_SOURCE, start_time = Some 5, recharge_soc = 0\<rparr>"
  let ?p = "\<lparr>batteryStatus = BATTERY_STATUS_UNKNOWN, batteryLevel = 100\<rparr>"
  have soc: "RemapSOC ?b now 100 = Some 100" if "5 \<le> now" "now \<le> 900" for now
    using RemapSOC_ok [of ?b 5 now 100] that by auto
  have "updateBatteryProperties id (Some ''Discharging'') 5 5 BatteryRechargingControl ?p
      = Some (?b, \<lparr>batteryStatus = getBatteryStatus ''Discharging'', batteryLevel = 100\<rparr>)"
    using soc [of 5] by (simp add: updateBatteryProperties_def BatteryRechargingControl_def case_WAIT_EOC_def start_remap_def
        kStatusIsFull_def kStatusIsCharging_def kFullSoc_def)
  then have enter: "remap_run id 5 ?b 5"
    by (intro remap_run.enter [OF recharge_run.start, of 5 5]) (simp_all add: BatteryRechargingControl_def)
  have stay: "updateBatteryProperties id (Some ''Discharging'') 400 400 ?b ?p
      = Some (?b, \<lparr>batteryStatus = getBatteryStatus ''Discharging'', batteryLevel = 100\<rparr>)"
    using soc [of 400] elapsed_ok [of ?b 5 400]
    by (simp add: updateBatteryProperties_def case_remapping_def Let_def kTransitionTime_def kFullSoc_def kStatusIsCharging_def)
  show ?thesis by (rule remap_run.stay [OF enter _ _ _ stay]) simp_all
qed

theorem recharge_remap_ends_witness:
  "updateBatteryProperties id (Some ''Discharging'') 906 906 \<lparr>rc_state = NO_POWER_SOURCE, start_time = Some 5, recharge_soc = 0\<rparr>
      \<lparr>batteryStatus = BATTERY_STATUS_FULL, batteryLevel = 93\<rparr>
    = Some (\<lparr>rc_state = INACTIVE, start_time = Some 5, recharge_soc = 0\<rparr>,
        \<lparr>batteryStatus = BATTERY_STATUS_DISCHARGING, batteryLevel = 93\<rparr>)"
  using recharge_remap_ends [OF remap_run_example, of 906 "''Discharging''" 906 "\<lparr>batteryStatus = BATTERY_STATUS_FULL, batteryLevel = 93\<rparr>"]
  by (simp add: kTransitionTime_def getBatteryStatus_def)

text \<open>
  A finding: the level to keep is taken after it was replaced by the reported 100, so when the
  cable is plugged in again right after it was pulled, the next update already takes the battery
  for overloaded, instead of keeping the level at 100.
\<close>

lemma replug_overloads:
  assumes "0 \<le> st" "st < 2 ^ 49" "0 < l" "l < 100" "0 \<le> x" "x \<le> l" "Trim s = kStatusIsCharging"
  shows "\<exists>b p b2 p2. updateBatteryProperties Trim (Some s) st st
        \<lparr>rc_state = NO_POWER_SOURCE, start_time = Some st, recharge_soc = x\<rparr> \<lparr>batteryStatus = q, batteryLevel = l\<rparr> = Some (b, p)
    \<and> rc_state b = RECHARGING_CYCLE \<and> batteryLevel p = 100 \<and> recharge_soc b = 100
    \<and> updateBatteryProperties Trim (Some s) (st + 60) (st + 60) b \<lparr>batteryStatus = q, batteryLevel = l\<rparr> = Some (b2, p2)
    \<and> rc_state b2 = OVER_LOADING"
proof -
  let ?b = "\<lparr>rc_state = NO_POWER_SOURCE, start_time = Some st, recharge_soc = x\<rparr>"
  let ?b1 = "\<lparr>rc_state = RECHARGING_CYCLE, start_time = Some st, recharge_soc = 100\<rparr>"
  let ?p = "\<lparr>batteryStatus = getBatteryStatus (Trim s), batteryLevel = l\<rparr>"
  have e: "elapsed ?b st = Some 0" using elapsed_ok [of ?b st st] assms(1,2) by simp
  have r: "RemapSOC ?b st l = Some 100" using remap_ends(1) [of l] assms(3,4) e by (simp add: RemapSOC_def in_i32_def)
  have 1: "updateBatteryProperties Trim (Some s) st st ?b \<lparr>batteryStatus = q, batteryLevel = l\<rparr> = Some (?b1, ?p\<lparr>batteryLevel := 100\<rparr>)"
    using e r assms by (simp add: updateBatteryProperties_def case_remapping_def Let_def kFullSoc_def kTransitionTime_def)
  obtain b2 p2 where "start_remap OVER_LOADING (st + 60) (st + 60) ?b1 ?p = Some (b2, p2)"
    using start_remap_ok [of "st + 60" "st + 60" ?p OVER_LOADING ?b1] assms by auto
  moreover from this have "rc_state b2 = OVER_LOADING" by (auto simp: start_remap_def bind_eq_Some_iff Let_def)
  ultimately have "updateBatteryProperties Trim (Some s) (st + 60) (st + 60) ?b1 \<lparr>batteryStatus = q, batteryLevel = l\<rparr> = Some (b2, p2)"
    "rc_state b2 = OVER_LOADING"
    using assms by (simp_all add: updateBatteryProperties_def case_RECHARGING_CYCLE_def Let_def kFullSoc_def kStatusIsCharging_def kStatusIsFull_def)
  then show ?thesis using 1 by auto
qed

end
