(* ===== verification/Vibrator.thy ===== *)
theory Vibrator
  imports Floats Decimal
begin

text \<open>
  The vibrator service (\<open>vibrator/Vibrator.cpp\<close>, \<open>vibrator/impl.cpp\<close>): attribute files written
  through streams that stay failed once a write has failed, the effects, the scale of an amplitude,
  and the calibration file. What the driver accepts, \<open>log10\<close> on \<open>float\<close> and the numbers of the
  interface's enumerators are arguments. Log messages are left out.
\<close>

section \<open>Streams\<close>

text \<open>\<open>written\<close>: the lines the driver took, the oldest first.\<close>

record ofstream =
  failed :: bool
  written :: "string list"

record Vibrator =
  mActivate :: ofstream
  mDuration :: ofstream
  mEffectIndex :: ofstream
  mEffectQueue :: ofstream
  mScale :: ofstream

datatype vfile = ACTIVATE | DURATION | EFFECT_INDEX | EFFECT_QUEUE | DIGI_SCALE

type_synonym driver = "vfile \<Rightarrow> string list \<Rightarrow> string \<Rightarrow> bool"

text \<open>\<open>stream << line << std::endl\<close>; whether it is taken may depend on the lines before.\<close>

definition put :: "(string list \<Rightarrow> string \<Rightarrow> bool) \<Rightarrow> string \<Rightarrow> ofstream \<Rightarrow> ofstream" where
  "put accepts line f =
     (if failed f then f
      else if accepts (written f) line then f\<lparr>written := written f @ [line]\<rparr>
      else f\<lparr>failed := True\<rparr>)"

section \<open>The interface\<close>

datatype Status = OK | UNKNOWN_ERROR | BAD_VALUE | UNSUPPORTED_OPERATION
datatype EffectStrength = LIGHT | MEDIUM | STRONG | OTHER_STRENGTH

text \<open>The effects the code names, and all others.\<close>

datatype Effect =
    TICK | CLICK | HEAVY_CLICK | DOUBLE_CLICK
  | RINGTONE_1 | RINGTONE_2 | RINGTONE_3 | RINGTONE_4 | RINGTONE_5 | RINGTONE_6
  | RINGTONE_7 | RINGTONE_8 | RINGTONE_9 | RINGTONE_10 | RINGTONE_11 | RINGTONE_12
  | RINGTONE_15 | OTHER_EFFECT nat

text \<open>The number of each enumerator and the first and the last of each version of the enum.\<close>

record hidl =
  num :: "Effect \<Rightarrow> int"
  range_1_0 :: "int \<times> int"
  range_1_1 :: "int \<times> int"
  range_1_2 :: "int \<times> int"

definition WAVEFORM_TICK_EFFECT_INDEX :: "32 word" where "WAVEFORM_TICK_EFFECT_INDEX = 2"
definition WAVEFORM_TICK_EFFECT_MS :: "32 word" where "WAVEFORM_TICK_EFFECT_MS = 9"
definition WAVEFORM_CLICK_EFFECT_INDEX :: "32 word" where "WAVEFORM_CLICK_EFFECT_INDEX = 3"
definition WAVEFORM_CLICK_EFFECT_MS :: "32 word" where "WAVEFORM_CLICK_EFFECT_MS = 9"
definition WAVEFORM_HEAVY_CLICK_EFFECT_INDEX :: "32 word" where "WAVEFORM_HEAVY_CLICK_EFFECT_INDEX = 4"
definition WAVEFORM_HEAVY_CLICK_EFFECT_MS :: "32 word" where "WAVEFORM_HEAVY_CLICK_EFFECT_MS = 9"
definition WAVEFORM_STRONG_HEAVY_CLICK_EFFECT_MS :: "32 word" where "WAVEFORM_STRONG_HEAVY_CLICK_EFFECT_MS = 12"
definition WAVEFORM_DOUBLE_CLICK_EFFECT_INDEX :: "32 word" where "WAVEFORM_DOUBLE_CLICK_EFFECT_INDEX = 7"
definition WAVEFORM_DOUBLE_CLICK_EFFECT_MS :: "32 word" where "WAVEFORM_DOUBLE_CLICK_EFFECT_MS = 130"
definition WAVEFORM_RINGTONE_EFFECT_INDEX :: "32 word" where "WAVEFORM_RINGTONE_EFFECT_INDEX = 65534"
definition WAVEFORM_RINGTONE_EFFECT_MS :: "32 word" where "WAVEFORM_RINGTONE_EFFECT_MS = 30000"
definition MAX_TRIGGER_LATENCY_MS :: "32 word" where "MAX_TRIGGER_LATENCY_MS = 6"
definition AMP_ATTENUATE_STEP_SIZE :: rat where "AMP_ATTENUATE_STEP_SIZE = 1 / 8"
definition UINT8_MAX :: "8 word" where "UINT8_MAX = 255"

text \<open>\<open>WAVEFORM_RINGTONEn_EFFECT_QUEUE\<close>\<close>

fun ringtone_queue :: "Effect \<Rightarrow> string option" where
  "ringtone_queue RINGTONE_1 = Some ''160, 11.100, 1600, 1!''"
| "ringtone_queue RINGTONE_2 = Some ''260, 12.100, 660, 2!''"
| "ringtone_queue RINGTONE_3 = Some ''404, 13.100, 1440, 5!''"
| "ringtone_queue RINGTONE_4 = Some ''140, 14.100, 6!''"
| "ringtone_queue RINGTONE_5 = Some ''140, 15.100, 4!''"
| "ringtone_queue RINGTONE_6 = Some ''140, 16.100, 1!''"
| "ringtone_queue RINGTONE_7 = Some ''140, 17.100, 624, 1!''"
| "ringtone_queue RINGTONE_8 = Some ''140, 18.100, 1020,496, 1!''"
| "ringtone_queue RINGTONE_9 = Some ''140, 19.100, 8, 3!''"
| "ringtone_queue RINGTONE_10 = Some ''20.100, 23.100, 23.80, 23.60, 892, 4!''"
| "ringtone_queue RINGTONE_11 = Some ''21.60, 21.80, 21.100, 1020, 564, 6!''"
| "ringtone_queue RINGTONE_12 = Some ''140, 22.100, 972, 1!''"
| "ringtone_queue e = None"

section \<open>Operations\<close>

text \<open>
  \<open>float\<close> arithmetic throughout. Converting a value that does not fit to \<open>uint8_t\<close> is undefined; so
  is converting the infinities that the logarithm of 0 and the division by 0 give.
\<close>

definition amplitudeToScale :: "(rat \<Rightarrow> rat) \<Rightarrow> 8 word \<Rightarrow> 8 word \<Rightarrow> 8 word option" where
  "amplitudeToScale log10f amplitude maximum =
     (if amplitude = 0 \<or> maximum = 0 then None
      else let q = f_round (of_int (uint amplitude) / of_int (uint maximum));
               r = c_round (f_round (f_round (- 20 * log10f q) / AMP_ATTENUATE_STEP_SIZE))
           in if 0 \<le> r \<and> r \<le> 255 then Some (word_of_int r) else None)"

definition vib_on2 :: "driver \<Rightarrow> 32 word \<Rightarrow> 32 word \<Rightarrow> Vibrator \<Rightarrow> Status \<times> Vibrator" where
  "vib_on2 drv timeoutMs effectIndex v =
     (let v = v\<lparr>mEffectIndex := put (drv EFFECT_INDEX) (dec (unat effectIndex)) (mEffectIndex v)\<rparr>;
          v = v\<lparr>mDuration := put (drv DURATION) (dec (unat (timeoutMs + MAX_TRIGGER_LATENCY_MS))) (mDuration v)\<rparr>;
          v = v\<lparr>mActivate := put (drv ACTIVATE) ''1'' (mActivate v)\<rparr>
      in (OK, v))"

definition vib_on :: "driver \<Rightarrow> 32 word \<Rightarrow> Vibrator \<Rightarrow> Status \<times> Vibrator" where
  "vib_on drv timeoutMs v = vib_on2 drv timeoutMs 0 v"

definition vib_off :: "driver \<Rightarrow> Vibrator \<Rightarrow> Status \<times> Vibrator" where
  "vib_off drv v =
     (let v = v\<lparr>mActivate := put (drv ACTIVATE) ''0'' (mActivate v)\<rparr>
      in (if failed (mActivate v) then UNKNOWN_ERROR else OK, v))"

definition supportsAmplitudeControl :: "Vibrator \<Rightarrow> bool" where
  "supportsAmplitudeControl v = (\<not> failed (mScale v))"

definition setAmplitude :: "driver \<Rightarrow> (rat \<Rightarrow> rat) \<Rightarrow> 8 word \<Rightarrow> Vibrator \<Rightarrow> (Status \<times> Vibrator) option" where
  "setAmplitude drv log10f amplitude v =
     (if amplitude = 0 then Some (BAD_VALUE, v)
      else do {
        scale \<leftarrow> amplitudeToScale log10f amplitude UINT8_MAX;
        let v = v\<lparr>mScale := put (drv DIGI_SCALE) (dec (unat scale)) (mScale v)\<rparr>;
        Some (if failed (mScale v) then UNKNOWN_ERROR else OK, v) })"

text \<open>
  The switch over the effects: \<open>effectIndex\<close> and \<open>timeMs\<close> where it sets them. The inner \<open>None\<close>
  is the \<open>default\<close> arm.
\<close>

definition effect_switch ::
  "driver \<Rightarrow> Effect \<Rightarrow> EffectStrength \<Rightarrow> Vibrator \<Rightarrow> ((32 word \<times> 32 word) option \<times> Vibrator) option" where
  "effect_switch drv effect strength v =
     (case effect of
        TICK \<Rightarrow> Some (Some (WAVEFORM_TICK_EFFECT_INDEX, WAVEFORM_TICK_EFFECT_MS), v)
      | CLICK \<Rightarrow> Some (Some (WAVEFORM_CLICK_EFFECT_INDEX, WAVEFORM_CLICK_EFFECT_MS), v)
      | HEAVY_CLICK \<Rightarrow> Some (Some (WAVEFORM_HEAVY_CLICK_EFFECT_INDEX,
          if strength = STRONG then WAVEFORM_STRONG_HEAVY_CLICK_EFFECT_MS else WAVEFORM_HEAVY_CLICK_EFFECT_MS), v)
      | DOUBLE_CLICK \<Rightarrow> Some (Some (WAVEFORM_DOUBLE_CLICK_EFFECT_INDEX, WAVEFORM_DOUBLE_CLICK_EFFECT_MS), v)
      | _ \<Rightarrow> (case ringtone_queue effect of
                Some q \<Rightarrow> Some (None, v\<lparr>mEffectQueue := put (drv EFFECT_QUEUE) q (mEffectQueue v)\<rparr>)
              | None \<Rightarrow> None))"

text \<open>
  The arguments of the callback come first in the result. A variable never set is read when an
  effect that is no ringtone by its number has no index: undefined.
\<close>

definition performEffect ::
  "driver \<Rightarrow> (rat \<Rightarrow> rat) \<Rightarrow> hidl \<Rightarrow> Effect \<Rightarrow> EffectStrength \<Rightarrow> Vibrator \<Rightarrow> ((Status \<times> 32 word) \<times> Vibrator) option" where
  "performEffect drv log10f h effect strength v =
     (case effect_switch drv effect strength v of
        None \<Rightarrow> Some ((UNSUPPORTED_OPERATION, 0), v)
      | Some (vars, v) \<Rightarrow>
          if num h effect \<ge> num h RINGTONE_1 \<and> num h effect \<le> num h RINGTONE_15 then
            (case (case strength of LIGHT \<Rightarrow> Some (UINT8_MAX div 3) | MEDIUM \<Rightarrow> Some (UINT8_MAX div 2)
                   | STRONG \<Rightarrow> Some UINT8_MAX | OTHER_STRENGTH \<Rightarrow> None) of
               None \<Rightarrow> Some ((UNSUPPORTED_OPERATION, 0), v)
             | Some amplitude \<Rightarrow> do {
                 (_, v) \<leftarrow> setAmplitude drv log10f amplitude v;
                 let timeMs = WAVEFORM_RINGTONE_EFFECT_MS;
                 let (_, v) = vib_on2 drv timeMs WAVEFORM_RINGTONE_EFFECT_INDEX v;
                 Some ((OK, timeMs), v) })
          else if strength = OTHER_STRENGTH then Some ((UNSUPPORTED_OPERATION, 0), v)
          else do {
            (effectIndex, timeMs) \<leftarrow> vars;
            let effectIndex = (case strength of LIGHT \<Rightarrow> effectIndex - 1 | STRONG \<Rightarrow> effectIndex + 1 | _ \<Rightarrow> effectIndex);
            let timeMs = timeMs + MAX_TRIGGER_LATENCY_MS;
            (_, v) \<leftarrow> setAmplitude drv log10f UINT8_MAX v;
            let (_, v) = vib_on2 drv timeMs effectIndex v;
            Some ((OK, timeMs), v) })"

definition performWrapper ::
  "driver \<Rightarrow> (rat \<Rightarrow> rat) \<Rightarrow> hidl \<Rightarrow> int \<times> int \<Rightarrow> Effect \<Rightarrow> EffectStrength \<Rightarrow> Vibrator
   \<Rightarrow> ((Status \<times> 32 word) \<times> Vibrator) option" where
  "performWrapper drv log10f h validRange effect strength v =
     (if num h effect < fst validRange \<or> num h effect > snd validRange
      then Some ((UNSUPPORTED_OPERATION, 0), v)
      else performEffect drv log10f h effect strength v)"

definition perform where
  "perform drv log10f h effect strength v = performWrapper drv log10f h (range_1_0 h) effect strength v"

definition perform_1_1 where
  "perform_1_1 drv log10f h effect strength v = performWrapper drv log10f h (range_1_1 h) effect strength v"

definition perform_1_2 where
  "perform_1_2 drv log10f h effect strength v = performWrapper drv log10f h (range_1_2 h) effect strength v"

section \<open>The calibration file and the start of the service\<close>

definition F0_CONFIG :: string where "F0_CONFIG = ''f0_measured''"
definition REDC_CONFIG :: string where "REDC_CONFIG = ''redc_measured''"

definition trim :: "string \<Rightarrow> string \<Rightarrow> string" where
  "trim str whitespace = rev (dropWhile (\<lambda>c. c \<in> set whitespace) (rev (dropWhile (\<lambda>c. c \<in> set whitespace) str)))"

abbreviation blanks :: string where "blanks \<equiv> [CHR '' '', CHR 0x09]"

text \<open>
  \<open>std::getline\<close>: the rest of an input stream, and whether its end was hit. The first \<open>None\<close> is a
  stream that has failed.
\<close>

type_synonym istream = "string \<times> bool"

definition getline :: "istream \<Rightarrow> char \<Rightarrow> (string \<times> istream) option" where
  "getline i delim =
     (case i of (s, eof) \<Rightarrow>
       if eof \<or> s = [] then None
       else case dropWhile (\<lambda>c. c \<noteq> delim) s of
              [] \<Rightarrow> Some (s, ([], True))
            | _ # r \<Rightarrow> Some (takeWhile (\<lambda>c. c \<noteq> delim) s, (r, False)))"

lemma getline_shorter: "getline i d = Some (l, i') \<Longrightarrow> length (fst i') < length (fst i)"
proof -
  assume g: "getline i d = Some (l, i')"
  obtain s eof where i: "i = (s, eof)" by (cases i)
  show ?thesis
  proof (cases "dropWhile (\<lambda>c. c \<noteq> d) s")
    case Nil
    show ?thesis using g i by (auto simp: getline_def Nil split: if_splits)
  next
    case (Cons x r)
    then have "length (x # r) \<le> length s" using length_dropWhile_le [of "\<lambda>c. c \<noteq> d" s] by simp
    then show ?thesis using g i Cons by (auto simp: getline_def split: if_splits)
  qed
qed

text \<open>One line: a comment, or a key and a value.\<close>

definition cal_line :: "string \<Rightarrow> (string \<Rightarrow> string option) \<Rightarrow> (string \<Rightarrow> string option)" where
  "cal_line line config_data =
     (if line = [] \<or> hd line = CHR ''#'' then config_data
      else case getline (line, False) CHR '':'' of
             None \<Rightarrow> config_data
           | Some (key, is_line) \<Rightarrow>
               (case getline is_line CHR 0x0A of
                  None \<Rightarrow> config_data
                | Some (val, _) \<Rightarrow> config_data(trim key blanks \<mapsto> trim val blanks)))"

function cal_loop :: "istream \<Rightarrow> (string \<Rightarrow> string option) \<Rightarrow> (string \<Rightarrow> string option)" where
  "cal_loop cal_data config_data =
     (case getline cal_data CHR 0x0A of
        None \<Rightarrow> config_data
      | Some (line, cal_data') \<Rightarrow> cal_loop cal_data' (cal_line line config_data))"
  by auto
termination by (relation "measure (\<lambda>(i, _). length (fst i))") (auto dest!: getline_shorter)

declare cal_loop.simps [simp del]

definition put_if :: "(string list \<Rightarrow> string \<Rightarrow> bool) \<Rightarrow> string option \<Rightarrow> ofstream \<Rightarrow> ofstream" where
  "put_if accepts x f = (case x of None \<Rightarrow> f | Some line \<Rightarrow> put accepts line f)"

text \<open>\<open>f0\<close> and \<open>redc\<close> as opened; the contents of the calibration file are \<open>None\<close> when it cannot be opened.\<close>

definition loadCalibrationData ::
  "(string list \<Rightarrow> string \<Rightarrow> bool) \<Rightarrow> (string list \<Rightarrow> string \<Rightarrow> bool) \<Rightarrow> string option \<Rightarrow> ofstream \<Rightarrow> ofstream
   \<Rightarrow> bool \<times> ofstream \<times> ofstream" where
  "loadCalibrationData f0_drv redc_drv cal_data f0 redc =
     (case cal_data of
        None \<Rightarrow> (False, f0, redc)
      | Some s \<Rightarrow>
          let config_data = cal_loop (s, False) (\<lambda>_. None) in
          (True, put_if f0_drv (config_data F0_CONFIG) f0, put_if redc_drv (config_data REDC_CONFIG) redc))"

text \<open>\<open>std::ofstream f{path}\<close>\<close>

definition open_stream :: "bool \<Rightarrow> ofstream" where
  "open_stream ok = \<lparr>failed = \<not> ok, written = []\<rparr>"

record vib_env =
  opens :: "vfile \<Rightarrow> bool"
  state_opens :: bool
  f0_opens :: bool
  redc_opens :: bool
  state_drv :: "string list \<Rightarrow> string \<Rightarrow> bool"
  f0_drv :: "string list \<Rightarrow> string \<Rightarrow> bool"
  redc_drv :: "string list \<Rightarrow> string \<Rightarrow> bool"
  cal_file :: "string option"

text \<open>The service, and the streams that are only written here: state, f0, redc.\<close>

definition makeVibratorService :: "vib_env \<Rightarrow> Vibrator \<times> ofstream \<times> ofstream \<times> ofstream" where
  "makeVibratorService e =
     (let state = put (state_drv e) ''1'' (open_stream (state_opens e));
          (_, f0, redc) = loadCalibrationData (f0_drv e) (redc_drv e) (cal_file e)
            (open_stream (f0_opens e)) (open_stream (redc_opens e))
      in (\<lparr>mActivate = open_stream (opens e ACTIVATE), mDuration = open_stream (opens e DURATION),
           mEffectIndex = open_stream (opens e EFFECT_INDEX), mEffectQueue = open_stream (opens e EFFECT_QUEUE),
           mScale = open_stream (opens e DIGI_SCALE)\<rparr>, state, f0, redc))"

section \<open>The scale of an amplitude\<close>

text \<open>\<open>log10\<close> on \<open>float\<close>, accurate to a thousandth between 0 and 1.\<close>

definition log10f_ok :: "(rat \<Rightarrow> rat) \<Rightarrow> bool" where
  "log10f_ok lg \<longleftrightarrow> (\<forall>x. 0 < x \<longrightarrow> x \<le> 1 \<longrightarrow> \<bar>of_rat (lg x) - log 10 (of_rat x)\<bar> \<le> (1 / 1000 :: real))"

lemma of_rat_abs_le: "\<bar>x - y\<bar> \<le> c \<Longrightarrow> \<bar>of_rat x - of_rat y :: real\<bar> \<le> of_rat c"
  by (simp only: of_rat_diff [symmetric] abs_le_iff of_rat_minus [symmetric] of_rat_less_eq)

lemma ln_10_ge_1: "1 \<le> ln (10 :: real)"
proof -
  have "exp 1 \<le> (10 :: real)" using exp_le by linarith
  then show ?thesis by (simp add: ln_ge_iff)
qed

lemma log10_le: "0 < x \<Longrightarrow> log 10 x \<le> \<bar>x - 1\<bar>"
proof -
  assume x: "0 < x"
  have "log 10 x = ln x / ln 10" by (simp add: log_def)
  also have "\<dots> \<le> \<bar>x - 1\<bar> / ln 10"
    by (rule divide_right_mono) (use ln_le_minus_one [OF x] ln_10_ge_1 in linarith)+
  also have "\<dots> \<le> \<bar>x - 1\<bar> / 1" by (rule divide_left_mono) (use ln_10_ge_1 in auto)
  finally show ?thesis by simp
qed

lemma log10_near:
  assumes "0 < p" "\<bar>q - p\<bar> \<le> p / 16777216"
  shows "0 < q" "\<bar>log 10 q - log 10 p\<bar> \<le> 1 / 8388608"
proof -
  show q: "0 < q" using assms by linarith
  have a: "log 10 q - log 10 p = log 10 (q / p)" "log 10 p - log 10 q = log 10 (p / q)"
    using assms(1) q by (simp_all add: log_divide)
  have "\<bar>q - p\<bar> \<le> p / 8388608" "\<bar>p - q\<bar> \<le> q / 8388608" using assms by linarith+
  then have "\<bar>q - p\<bar> / p \<le> 1 / 8388608" "\<bar>p - q\<bar> / q \<le> 1 / 8388608" using assms(1) q by (simp_all add: field_simps)
  moreover have "q / p - 1 = (q - p) / p" "p / q - 1 = (p - q) / q"
    using assms(1) q by (simp_all add: diff_divide_distrib)
  then have "\<bar>q / p - 1\<bar> = \<bar>q - p\<bar> / p" "\<bar>p / q - 1\<bar> = \<bar>p - q\<bar> / q"
    using assms(1) q by (simp_all add: abs_divide)
  ultimately show "\<bar>log 10 q - log 10 p\<bar> \<le> 1 / 8388608"
    using log10_le [OF divide_pos_pos [OF q assms(1)]] log10_le [OF divide_pos_pos [OF assms(1) q]] a by linarith
qed

lemma log10_of_pow:
  assumes "0 < x" "10 ^ m \<le> x ^ n"
  shows "real m \<le> real n * log 10 x"
proof -
  have "log 10 (10 ^ m) \<le> log 10 (x ^ n)" using assms by (intro log_mono) auto
  then show ?thesis using assms(1) by (simp add: log_nat_power)
qed

text \<open>The bounds 6/255 and 7/255 on both sides of where the scale passes 255.\<close>

lemma log10_bounds:
  assumes "0 < n" "n \<le> (255 :: nat)"
  shows "- 3 \<le> log 10 (real n / 255)" "log 10 (real n / 255) \<le> 0"
    "n \<le> 6 \<Longrightarrow> log 10 (real n / 255) \<le> - 8 / 5" "7 \<le> n \<Longrightarrow> - 51 / 32 \<le> log 10 (real n / 255)"
proof -
  have neg: "log 10 (real n / 255) = - log 10 (255 / real n)" using assms(1) by (simp add: log_divide)
  show "log 10 (real n / 255) \<le> 0" using assms by simp
  have "log 10 (255 / real n) \<le> log 10 (10 ^ 3)" using assms(1) by (intro log_mono) (auto simp: field_simps)
  moreover have "log 10 ((10 :: real) ^ 3) = 3" by (subst log_nat_power) simp_all
  ultimately show "- 3 \<le> log 10 (real n / 255)" using neg by linarith
  show "log 10 (real n / 255) \<le> - 8 / 5" if "n \<le> 6"
  proof -
    have "255 / 6 \<le> 255 / real n" using that assms(1) by (simp add: field_simps)
    then have "(255 / 6) ^ 5 \<le> (255 / real n) ^ 5" by (rule power_mono) simp
    moreover have "10 ^ 8 \<le> (255 / 6 :: real) ^ 5" by (simp add: power_divide)
    ultimately have "10 ^ 8 \<le> (255 / real n) ^ 5" by linarith
    from log10_of_pow [OF _ this] show ?thesis using assms(1) neg by simp
  qed
  show "- 51 / 32 \<le> log 10 (real n / 255)" if "7 \<le> n"
  proof -
    have "255 / real n \<le> 255 / 7" using that by (simp add: field_simps)
    then have "(255 / real n) ^ 32 \<le> (255 / 7) ^ 32" by (rule power_mono) simp
    moreover have "(255 / 7 :: real) ^ 32 \<le> 10 ^ 51" by (simp add: power_divide)
    ultimately have "(255 / real n) ^ 32 \<le> 10 ^ 51" by linarith
    then have "log 10 ((255 / real n) ^ 32) \<le> log 10 (10 ^ 51)" using that by (intro log_mono) auto
    moreover have "log 10 ((10 :: real) ^ 51) = 51" by (subst log_nat_power) simp_all
    moreover have "log 10 ((255 / real n) ^ 32) = 32 * log 10 (255 / real n)"
      using that by (subst log_nat_power) simp_all
    ultimately show ?thesis using neg by linarith
  qed
qed

lemma amplitude_value:
  assumes lg: "log10f_ok lg" and n: "0 < n" "n \<le> (255 :: nat)"
  defines "q \<equiv> f_round (of_nat n / 255)"
  defines "z \<equiv> f_round (f_round (- 20 * lg q) / AMP_ATTENUATE_STEP_SIZE)"
  shows "\<bar>of_rat z + 160 * log 10 (real n / 255)\<bar> \<le> 18 / 100"
proof -
  let ?p = "real n / 255"
  have p: "0 < ?p" "(of_rat (of_nat n / 255) :: real) = ?p" using n by (simp_all add: of_rat_divide)
  have "\<bar>q - of_nat n / 255\<bar> \<le> of_nat n / 255 / 2 ^ 24"
    using f_round_error [of "of_nat n / 255"] unfolding q_def by simp
  from of_rat_abs_le [OF this] have qp: "\<bar>of_rat q - ?p\<bar> \<le> ?p / 16777216" by (simp add: of_rat_divide)
  have q0: "0 < q" and near: "\<bar>log 10 (of_rat q) - log 10 ?p\<bar> \<le> 1 / 8388608"
    using log10_near [OF p(1) qp] by simp_all
  have q1: "q \<le> 1"
  proof (cases "n = 255")
    case True
    then have "q = fl 24 (of_int 1)" by (simp add: q_def f_round_def)
    then show ?thesis using fl_small_int [of 1 24] by simp
  next
    case False
    then have "n \<le> 254" using n by simp
    then have "of_nat n \<le> (of_nat 254 :: rat)" by (simp only: of_nat_le_iff)
    then have "of_nat n / 255 \<le> (254 / 255 :: rat)" by simp
    moreover have "\<bar>q - of_nat n / 255\<bar> \<le> of_nat n / 255 / 16777216"
      using f_round_error [of "of_nat n / 255"] unfolding q_def by simp
    ultimately show ?thesis by linarith
  qed
  define L where "L = (of_rat (lg q) :: real)"
  have L: "\<bar>L - log 10 ?p\<bar> \<le> 1 / 1000 + 1 / 8388608"
    using lg q0 q1 near unfolding log10f_ok_def L_def by (smt (verit, best))
  have L3: "\<bar>L\<bar> \<le> 31 / 10" using L log10_bounds(1,2) [OF n] by linarith
  have l: "\<bar>lg q\<bar> \<le> 31 / 10"
  proof -
    have "of_rat \<bar>lg q\<bar> \<le> (of_rat (31 / 10) :: real)" using L3 by (simp add: L_def of_rat_divide)
    then show ?thesis by (simp only: of_rat_less_eq)
  qed
  define y where "y = f_round (- 20 * lg q)"
  have "\<bar>y - (- 20 * lg q)\<bar> \<le> \<bar>- 20 * lg q\<bar> / 2 ^ 24" unfolding y_def by (rule f_round_error)
  moreover have "\<bar>- 20 * lg q\<bar> / 2 ^ 24 \<le> 1 / 10000" using l by (simp add: abs_mult)
  ultimately have y: "\<bar>y - (- 20 * lg q)\<bar> \<le> 1 / 10000" by (rule order_trans)
  have "\<bar>z - 8 * y\<bar> \<le> \<bar>8 * y\<bar> / 2 ^ 24"
    using f_round_error [of "8 * y"] unfolding z_def y_def AMP_ATTENUATE_STEP_SIZE_def by (simp add: mult.commute)
  moreover have "y - (- 20 * lg q) \<le> 1 / 10000 \<and> - (y - (- 20 * lg q)) \<le> 1 / 10000"
    "lg q \<le> 31 / 10 \<and> - lg q \<le> 31 / 10"
    using y l by (simp_all only: abs_le_iff)
  then have "\<bar>y\<bar> \<le> 63" unfolding abs_le_iff by (elim conjE, intro conjI; linarith)
  then have "\<bar>8 * y\<bar> / 2 ^ 24 \<le> 1 / 10000" by (simp add: abs_mult)
  ultimately have "\<bar>z - 8 * y\<bar> \<le> 1 / 10000" by (rule order_trans)
  then have "\<bar>z - (- 160 * lg q)\<bar> \<le> 1 / 1000" using y by linarith
  from of_rat_abs_le [OF this] have "\<bar>of_rat z + 160 * L\<bar> \<le> 1 / 1000"
    by (simp add: L_def of_rat_mult of_rat_minus of_rat_divide)
  moreover have "\<bar>L - log 10 ?p\<bar> \<le> 11 / 10000" using L by simp
  ultimately show ?thesis by linarith
qed

lemma c_round_error: "\<bar>of_int (c_round x) - x\<bar> \<le> 1 / 2"
  unfolding c_round_def abs_le_iff by (simp; linarith)

lemma amplitudeToScale_spec:
  assumes lg: "log10f_ok lg" and a: "a \<noteq> 0"
  shows "amplitudeToScale lg a UINT8_MAX = None \<longleftrightarrow> a \<le> 6"
    "7 \<le> a \<Longrightarrow> \<exists>s. amplitudeToScale lg a UINT8_MAX = Some s
      \<and> \<bar>real (unat s) / 8 + 20 * log 10 (real (unat a) / 255)\<bar> \<le> 1 / 10"
proof -
  define z where "z = f_round (f_round (- 20 * lg (f_round (of_nat (unat a) / 255))) / AMP_ATTENUATE_STEP_SIZE)"
  have n: "0 < unat a" "unat a \<le> 255"
    using a unsigned_less [of a, where ?'a = nat] by (simp_all add: unat_gt_0)
  have val: "\<bar>of_rat z + 160 * log 10 (real (unat a) / 255)\<bar> \<le> 18 / 100"
    unfolding z_def by (rule amplitude_value [OF lg n])
  have r: "\<bar>of_int (c_round z) - of_rat z\<bar> \<le> (1 / 2 :: real)"
    using of_rat_abs_le [OF c_round_error [of z]] by (simp add: of_rat_divide)
  have eq: "amplitudeToScale lg a UINT8_MAX =
      (if 0 \<le> c_round z \<and> c_round z \<le> 255 then Some (word_of_int (c_round z)) else None)"
  proof -
    have "of_int (uint a) = (of_nat (unat a) :: rat)" by (metis of_int_of_nat_eq uint_nat)
    then show ?thesis using a by (simp add: amplitudeToScale_def UINT8_MAX_def z_def Let_def)
  qed
  have six: "a \<le> 6 \<longleftrightarrow> unat a \<le> 6" "7 \<le> a \<longleftrightarrow> 7 \<le> unat a" by (simp_all add: word_le_nat_alt)
  note b = log10_bounds [OF n]
  have lo: "255 < c_round z" if "a \<le> 6"
  proof -
    have "255 < real_of_int (c_round z)" using b(3) that six(1) val r by linarith
    then show ?thesis by simp
  qed
  have hi: "0 \<le> c_round z \<and> c_round z \<le> 255" if "7 \<le> a"
  proof -
    have "- 1 < real_of_int (c_round z)" "real_of_int (c_round z) < 256"
      using b(2,4) that six(2) val r by linarith+
    then show ?thesis by simp
  qed
  show "amplitudeToScale lg a UINT8_MAX = None \<longleftrightarrow> a \<le> 6"
    using lo hi six unfolding eq by (cases "unat a \<le> 6") auto
  assume "7 \<le> a"
  then show "\<exists>s. amplitudeToScale lg a UINT8_MAX = Some s
      \<and> \<bar>real (unat s) / 8 + 20 * log 10 (real (unat a) / 255)\<bar> \<le> 1 / 10"
  proof -
    have "unat (word_of_int (c_round z) :: 8 word) = nat (c_round z)"
      using hi [OF \<open>7 \<le> a\<close>] by (simp add: unat_eq_nat_uint uint_word_of_int)
    then have "real (unat (word_of_int (c_round z) :: 8 word)) = of_int (c_round z)"
      using hi [OF \<open>7 \<le> a\<close>] by simp
    moreover have "\<bar>of_int (c_round z) / 8 + 20 * log 10 (real (unat a) / 255)\<bar> \<le> 1 / 10"
      using val r by linarith
    ultimately show ?thesis unfolding eq using hi [OF \<open>7 \<le> a\<close>] by simp
  qed
qed

section \<open>Calibration\<close>

text \<open>What a key or a value may be to be read back as it is.\<close>

definition plain_text :: "string \<Rightarrow> bool" where
  "plain_text s \<longleftrightarrow> s \<noteq> [] \<and> hd s \<notin> set blanks \<and> last s \<notin> set blanks \<and> CHR 0x0A \<notin> set s"

definition cal_entry :: "string \<times> string \<Rightarrow> bool" where
  "cal_entry e \<longleftrightarrow> plain_text (fst e) \<and> plain_text (snd e) \<and> CHR '':'' \<notin> set (fst e) \<and> hd (fst e) \<noteq> CHR ''#''"

text \<open>A line \<open>key: value\<close> with blanks around the parts, or a comment.\<close>

datatype cal_item = Entry "string \<times> string" nat nat nat | Comment string

fun item_line :: "cal_item \<Rightarrow> string" where
  "item_line (Entry e a b c) = replicate a (CHR 0x09) @ fst e @ replicate b (CHR '' '') @ '':'' @ replicate c (CHR '' '') @ snd e"
| "item_line (Comment s) = CHR ''#'' # s"

fun item_ok :: "cal_item \<Rightarrow> bool" where
  "item_ok (Entry e a b c) = cal_entry e"
| "item_ok (Comment s) = (CHR 0x0A \<notin> set s)"

fun item_entries :: "cal_item \<Rightarrow> (string \<times> string) list" where
  "item_entries (Entry e a b c) = [e]"
| "item_entries (Comment s) = []"

lemma trim_plain:
  assumes "plain_text s" "set w1 \<subseteq> set blanks" "set w2 \<subseteq> set blanks"
  shows "trim (w1 @ s @ w2) blanks = s"
proof -
  obtain x t where s: "s = x # t" using assms(1) by (cases s) (auto simp: plain_text_def)
  have "dropWhile (\<lambda>c. c \<in> set blanks) (w1 @ s @ w2) = s @ w2"
    using assms(1,2) s by (subst dropWhile_append2) (auto simp: plain_text_def)
  moreover have "dropWhile (\<lambda>c. c \<in> set blanks) (rev w2 @ rev s) = rev s"
  proof -
    obtain y u where r: "rev s = y # u" using s by (cases "rev s") auto
    then have "y = last s" by (metis last_rev list.sel(1) rev_rev_ident hd_rev)
    then have "y \<notin> set blanks" using assms(1) by (simp add: plain_text_def)
    then show ?thesis unfolding r using assms(3) by (subst dropWhile_append2) auto
  qed
  ultimately show ?thesis by (simp add: trim_def)
qed

lemma getline_stop: "d \<notin> set l \<Longrightarrow> getline (l @ d # r, False) d = Some (l, (r, False))"
proof -
  assume "d \<notin> set l"
  then have "\<forall>x\<in>set l. x \<noteq> d" by auto
  then show ?thesis
    using takeWhile_append_stop [of l "\<lambda>c. c \<noteq> d" d r] dropWhile_append_stop [of l "\<lambda>c. c \<noteq> d" d r]
    by (simp add: getline_def)
qed

lemma getline_end: "d \<notin> set l \<Longrightarrow> l \<noteq> [] \<Longrightarrow> getline (l, False) d = Some (l, ([], True))"
proof -
  assume d: "d \<notin> set l" and l: "l \<noteq> []"
  have e: "dropWhile (\<lambda>c. c \<noteq> d) l = []" unfolding dropWhile_eq_Nil_conv using d by auto
  show ?thesis using l by (simp add: getline_def e)
qed

lemma cal_line_item:
  assumes "item_ok x"
  shows "cal_line (item_line x) m = m ++ map_of (item_entries x)" "CHR 0x0A \<notin> set (item_line x)"
proof -
  have "cal_line (item_line x) m = m ++ map_of (item_entries x) \<and> CHR 0x0A \<notin> set (item_line x)"
  proof (cases x)
    case (Comment s)
    then show ?thesis using assms by (simp add: cal_line_def)
  next
    case (Entry e a b c)
    let ?k = "replicate a (CHR 0x09) @ fst e @ replicate b (CHR '' '')"
    let ?v = "replicate c (CHR '' '') @ snd e"
    have ok: "plain_text (fst e)" "plain_text (snd e)" "CHR '':'' \<notin> set (fst e)" "hd (fst e) \<noteq> CHR ''#''"
      using assms Entry by (simp_all add: cal_entry_def)
    have k: "CHR '':'' \<notin> set ?k" "CHR 0x0A \<notin> set ?k" "CHR 0x0A \<notin> set ?v" "?v \<noteq> []"
      using ok by (auto simp: plain_text_def)
    have h: "hd (?k @ CHR '':'' # ?v) \<noteq> CHR ''#''"
      using ok by (cases a; cases "fst e") (auto simp: plain_text_def)
    have "cal_line (item_line x) m = m(trim ?k blanks \<mapsto> trim ?v blanks)"
      using getline_stop [OF k(1), of ?v] getline_end [OF k(3,4)] h Entry by (simp add: cal_line_def)
    moreover have r: "set (replicate n (CHR '' '')) \<subseteq> set blanks" "set (replicate n (CHR 0x09)) \<subseteq> set blanks" for n
      by (auto simp: set_replicate_conv_if)
    moreover have "trim ?k blanks = fst e" by (rule trim_plain [OF ok(1) r(2) r(1)])
    moreover have "trim ?v blanks = snd e" using trim_plain [OF ok(2) r(1) [of c], of "[]"] by simp
    ultimately show ?thesis using Entry k by (cases e) auto
  qed
  then show "cal_line (item_line x) m = m ++ map_of (item_entries x)" "CHR 0x0A \<notin> set (item_line x)" by auto
qed

definition cal_text :: "cal_item list \<Rightarrow> string" where
  "cal_text xs = concat (map (\<lambda>x. item_line x @ [CHR 0x0A]) xs)"

lemma cal_loop_items:
  "\<forall>x\<in>set xs. item_ok x \<Longrightarrow>
   cal_loop (cal_text xs, False) m = m ++ map_of (rev (concat (map item_entries xs)))"
proof (induction xs arbitrary: m)
  case Nil
  then show ?case by (subst cal_loop.simps) (simp add: cal_text_def getline_def)
next
  case (Cons x xs)
  have x: "item_ok x" using Cons.prems by simp
  have e: "rev (item_entries x) = item_entries x" by (cases x) simp_all
  have "getline (cal_text (x # xs), False) CHR 0x0A = Some (item_line x, (cal_text xs, False))"
    using getline_stop [OF cal_line_item(2) [OF x], of "cal_text xs"] by (simp add: cal_text_def)
  then have "cal_loop (cal_text (x # xs), False) m = cal_loop (cal_text xs, False) (m ++ map_of (item_entries x))"
    by (subst cal_loop.simps) (simp add: cal_line_item(1) [OF x])
  then show ?case using Cons by (simp add: e)
qed

section \<open>Performing an effect\<close>

text \<open>The ringtones the switch knows are those numbered from RINGTONE_1 to RINGTONE_15.\<close>

definition hidl_ok :: "hidl \<Rightarrow> bool" where
  "hidl_ok h \<longleftrightarrow>
     (\<forall>e. ringtone_queue e \<noteq> None \<longrightarrow> num h RINGTONE_1 \<le> num h e \<and> num h e \<le> num h RINGTONE_15)
     \<and> (\<forall>e. e \<in> {TICK, CLICK, HEAVY_CLICK, DOUBLE_CLICK} \<longrightarrow>
          \<not> (num h RINGTONE_1 \<le> num h e \<and> num h e \<le> num h RINGTONE_15))"

lemma setAmplitude_cases:
  assumes "log10f_ok lg" "7 \<le> a"
  obtains s :: "8 word" and st where "\<bar>real (unat s) / 8 + 20 * log 10 (real (unat a) / 255)\<bar> \<le> 1 / 10"
    "setAmplitude drv lg a v = Some (st, v\<lparr>mScale := put (drv DIGI_SCALE) (dec (unat s)) (mScale v)\<rparr>)"
    "st = (if failed (put (drv DIGI_SCALE) (dec (unat s)) (mScale v)) then UNKNOWN_ERROR else OK)"
proof -
  have "a \<noteq> 0" using assms(2) by auto
  then obtain s where s: "amplitudeToScale lg a UINT8_MAX = Some s"
    "\<bar>real (unat s) / 8 + 20 * log 10 (real (unat a) / 255)\<bar> \<le> 1 / 10"
    using amplitudeToScale_spec(2) [OF assms(1) _ assms(2)] by blast
  show thesis by (rule that [OF s(2), of "if failed (put (drv DIGI_SCALE) (dec (unat s)) (mScale v)) then UNKNOWN_ERROR else OK"])
    (use s(1) \<open>a \<noteq> 0\<close> in \<open>simp_all add: setAmplitude_def Let_def\<close>)
qed

text \<open>
  What each request means, as a table: the amplitude out of 255, the waveform's index, and the milliseconds
  told to the caller. Requests that are not in it are refused.
\<close>

definition plan :: "Effect \<Rightarrow> EffectStrength \<Rightarrow> (nat \<times> nat \<times> nat) option" where
  "plan effect strength =
     (if ringtone_queue effect \<noteq> None
      then map_of [(LIGHT, 85, 65534, 30000), (MEDIUM, 127, 65534, 30000), (STRONG, 255, 65534, 30000)] strength
      else map_of
        [((TICK, LIGHT), 255, 1, 15), ((TICK, MEDIUM), 255, 2, 15), ((TICK, STRONG), 255, 3, 15),
         ((CLICK, LIGHT), 255, 2, 15), ((CLICK, MEDIUM), 255, 3, 15), ((CLICK, STRONG), 255, 4, 15),
         ((HEAVY_CLICK, LIGHT), 255, 3, 15), ((HEAVY_CLICK, MEDIUM), 255, 4, 15), ((HEAVY_CLICK, STRONG), 255, 5, 18),
         ((DOUBLE_CLICK, LIGHT), 255, 6, 136), ((DOUBLE_CLICK, MEDIUM), 255, 7, 136), ((DOUBLE_CLICK, STRONG), 255, 8, 136)]
        (effect, strength))"

text \<open>A ringtone's waveform is queued first.\<close>

definition queued :: "driver \<Rightarrow> Effect \<Rightarrow> Vibrator \<Rightarrow> Vibrator" where
  "queued drv effect v =
     (case ringtone_queue effect of None \<Rightarrow> v | Some q \<Rightarrow> v\<lparr>mEffectQueue := put (drv EFFECT_QUEUE) q (mEffectQueue v)\<rparr>)"

text \<open>The writes of an accepted request: the scale, the index, the duration with 6 ms on top, the activation.\<close>

definition started :: "driver \<Rightarrow> nat \<Rightarrow> nat \<Rightarrow> nat \<Rightarrow> Vibrator \<Rightarrow> Vibrator" where
  "started drv scale index ms v =
     v\<lparr>mScale := put (drv DIGI_SCALE) (dec scale) (mScale v), mEffectIndex := put (drv EFFECT_INDEX) (dec index) (mEffectIndex v),
       mDuration := put (drv DURATION) (dec (ms + 6)) (mDuration v), mActivate := put (drv ACTIVATE) ''1'' (mActivate v)\<rparr>"

lemma effect_switch_queued:
  "effect_switch drv effect strength v =
    (if effect \<in> {TICK, CLICK, HEAVY_CLICK, DOUBLE_CLICK} then effect_switch drv effect strength v
     else if ringtone_queue effect \<noteq> None then Some (None, queued drv effect v) else None)"
  by (cases effect) (simp_all add: effect_switch_def queued_def)

lemma is_ringtone:
  assumes "hidl_ok h" "effect \<in> {TICK, CLICK, HEAVY_CLICK, DOUBLE_CLICK} \<or> ringtone_queue effect \<noteq> None"
  shows "(num h RINGTONE_1 \<le> num h effect \<and> num h effect \<le> num h RINGTONE_15) = (ringtone_queue effect \<noteq> None)"
  using assms by (cases "ringtone_queue effect") (auto simp: hidl_ok_def)

lemma performEffect_ringtone:
  assumes "log10f_ok lg" "hidl_ok h" "ringtone_queue effect = Some q"
  shows "\<exists>s :: 8 word. (\<forall>a i ms. plan effect strength = Some (a, i, ms) \<longrightarrow> \<bar>real (unat s) / 8 + 20 * log 10 (real a / 255)\<bar> \<le> 1 / 10)
    \<and> performEffect drv lg h effect strength v = Some (case plan effect strength of
        None \<Rightarrow> ((UNSUPPORTED_OPERATION, 0), queued drv effect v)
      | Some (a, i, ms) \<Rightarrow> ((OK, word_of_nat ms), started drv (unat s) i ms (queued drv effect v)))"
proof -
  have r: "num h RINGTONE_1 \<le> num h effect" "num h effect \<le> num h RINGTONE_15"
    using is_ringtone [OF assms(2), of effect] assms(3) by auto
  have sw: "effect_switch drv effect strength v = Some (None, queued drv effect v)"
    using effect_switch_queued [of drv effect strength v] assms(3) by (cases effect) simp_all
  show ?thesis
  proof (cases "strength = OTHER_STRENGTH")
    case True
    then show ?thesis using sw r assms(3) by (simp add: performEffect_def plan_def)
  next
    case False
    define amp :: "8 word" where "amp = (case strength of LIGHT \<Rightarrow> 85 | MEDIUM \<Rightarrow> 127 | _ \<Rightarrow> 255)"
    have "7 \<le> amp" by (cases strength) (simp_all add: amp_def)
    then obtain s :: "8 word" and st where s: "\<bar>real (unat s) / 8 + 20 * log 10 (real (unat amp) / 255)\<bar> \<le> 1 / 10"
      "setAmplitude drv lg amp (queued drv effect v)
        = Some (st, (queued drv effect v)\<lparr>mScale := put (drv DIGI_SCALE) (dec (unat s)) (mScale (queued drv effect v))\<rparr>)"
      by (rule setAmplitude_cases [OF assms(1)])
    have "(case strength of LIGHT \<Rightarrow> Some (UINT8_MAX div 3) | MEDIUM \<Rightarrow> Some (UINT8_MAX div 2)
        | STRONG \<Rightarrow> Some UINT8_MAX | OTHER_STRENGTH \<Rightarrow> None) = Some amp"
      using False by (cases strength) (simp_all add: amp_def UINT8_MAX_def)
    moreover have "plan effect strength = Some (unat amp, 65534, 30000)"
      using False assms(3) by (cases strength) (simp_all add: plan_def amp_def)
    ultimately show ?thesis
      using s sw r by (intro exI [of _ s]) (simp add: performEffect_def vib_on2_def started_def Let_def
          WAVEFORM_RINGTONE_EFFECT_MS_def WAVEFORM_RINGTONE_EFFECT_INDEX_def MAX_TRIGGER_LATENCY_MS_def)
  qed
qed

lemma performEffect_click:
  assumes "log10f_ok lg" "hidl_ok h" "ringtone_queue effect = None"
  shows "\<exists>s :: 8 word. (\<forall>a i ms. plan effect strength = Some (a, i, ms) \<longrightarrow> \<bar>real (unat s) / 8 + 20 * log 10 (real a / 255)\<bar> \<le> 1 / 10)
    \<and> performEffect drv lg h effect strength v = Some (case plan effect strength of
        None \<Rightarrow> ((UNSUPPORTED_OPERATION, 0), v)
      | Some (a, i, ms) \<Rightarrow> ((OK, word_of_nat ms), started drv (unat s) i ms v))"
proof (cases "effect \<in> {TICK, CLICK, HEAVY_CLICK, DOUBLE_CLICK}")
  case False
  then show ?thesis
    using assms(3) effect_switch_queued [of drv effect strength v] by (simp add: performEffect_def plan_def)
next
  case True
  then have r: "\<not> (num h RINGTONE_1 \<le> num h effect \<and> num h effect \<le> num h RINGTONE_15)"
    using is_ringtone [OF assms(2), of effect] assms(3) by simp
  have "7 \<le> UINT8_MAX" by (simp add: UINT8_MAX_def)
  then obtain s :: "8 word" and st where s: "\<bar>real (unat s) / 8 + 20 * log 10 (real (unat UINT8_MAX) / 255)\<bar> \<le> 1 / 10"
    "setAmplitude drv lg UINT8_MAX v = Some (st, v\<lparr>mScale := put (drv DIGI_SCALE) (dec (unat s)) (mScale v)\<rparr>)"
    by (rule setAmplitude_cases [OF assms(1)])
  have full: "\<bar>real (unat s) / 8 + 20 * log 10 (real 255 / 255)\<bar> \<le> 1 / 10" using s(1) by (simp add: UINT8_MAX_def)
  have amp: "a = 255" if "plan effect strength = Some (a, i, ms)" for a i ms
    using that True by (cases strength) (auto simp: plan_def)
  have "performEffect drv lg h effect strength v = Some (case plan effect strength of
        None \<Rightarrow> ((UNSUPPORTED_OPERATION, 0), v)
      | Some (a, i, ms) \<Rightarrow> ((OK, word_of_nat ms), started drv (unat s) i ms v))"
    using True r s(2)
    by (cases strength) (auto simp: performEffect_def effect_switch_def plan_def vib_on2_def started_def Let_def
        WAVEFORM_TICK_EFFECT_INDEX_def WAVEFORM_TICK_EFFECT_MS_def WAVEFORM_CLICK_EFFECT_INDEX_def WAVEFORM_CLICK_EFFECT_MS_def
        WAVEFORM_HEAVY_CLICK_EFFECT_INDEX_def WAVEFORM_HEAVY_CLICK_EFFECT_MS_def WAVEFORM_STRONG_HEAVY_CLICK_EFFECT_MS_def
        WAVEFORM_DOUBLE_CLICK_EFFECT_INDEX_def WAVEFORM_DOUBLE_CLICK_EFFECT_MS_def MAX_TRIGGER_LATENCY_MS_def)
  then show ?thesis using full amp by (intro exI [of _ s]) auto
qed

section \<open>Properties\<close>

text \<open>
  C37. With a \<open>log10\<close> accurate to a thousandth, \<open>setAmplitude\<close> is undefined exactly for the amplitudes
  1 to 6, whose attenuation does not fit the 8 bits of the scale; from 7 on the scale written, in
  steps of an eighth of a decibel, is the attenuation of the amplitude to within a tenth.
\<close>

theorem setAmplitude_spec:
  assumes "log10f_ok lg"
  shows "(setAmplitude drv lg a v = None \<longleftrightarrow> 1 \<le> a \<and> a \<le> 6)
    \<and> setAmplitude drv lg 0 v = Some (BAD_VALUE, v)
    \<and> (7 \<le> a \<longrightarrow> (\<exists>s :: 8 word. \<bar>real (unat s) / 8 + 20 * log 10 (real (unat a) / 255)\<bar> \<le> 1 / 10
        \<and> setAmplitude drv lg a v =
            (let f = put (drv DIGI_SCALE) (dec (unat s)) (mScale v)
             in Some (if failed f then UNKNOWN_ERROR else OK, v\<lparr>mScale := f\<rparr>))))"
proof -
  have one: "a \<noteq> 0 \<longleftrightarrow> 1 \<le> a" by (simp add: word_le_nat_alt unat_eq_0 Suc_le_eq unat_gt_0)
  have "setAmplitude drv lg a v = None \<longleftrightarrow> 1 \<le> a \<and> a \<le> 6"
    using amplitudeToScale_spec(1) [OF assms, of a] one by (auto simp: setAmplitude_def Let_def)
  moreover have "\<exists>s :: 8 word. \<bar>real (unat s) / 8 + 20 * log 10 (real (unat a) / 255)\<bar> \<le> 1 / 10
        \<and> setAmplitude drv lg a v =
            (let f = put (drv DIGI_SCALE) (dec (unat s)) (mScale v)
             in Some (if failed f then UNKNOWN_ERROR else OK, v\<lparr>mScale := f\<rparr>))" if "7 \<le> a"
    by (rule setAmplitude_cases [OF assms that, of drv v]) (auto simp: Let_def)
  moreover have "setAmplitude drv lg 0 v = Some (BAD_VALUE, v)" by (simp add: setAmplitude_def)
  ultimately show ?thesis by blast
qed

text \<open>A \<open>log10\<close> that is right to a thousandth, and a service whose files are open.\<close>

definition log10f_example :: "rat \<Rightarrow> rat" where
  "log10f_example x = of_int \<lfloor>1000 * log 10 (of_rat x)\<rfloor> / 1000"

lemma log10f_example_ok: "log10f_ok log10f_example"
proof -
  have "\<bar>of_rat (log10f_example x) - log 10 (of_rat x)\<bar> \<le> 1 / 1000" for x
    unfolding log10f_example_def of_rat_divide of_rat_of_int_eq of_rat_numeral_eq abs_le_iff by linarith
  then show ?thesis by (simp add: log10f_ok_def)
qed

definition vib_idle :: Vibrator where
  "vib_idle = (let f = open_stream True in \<lparr>mActivate = f, mDuration = f, mEffectIndex = f, mEffectQueue = f, mScale = f\<rparr>)"

theorem setAmplitude_spec_witness:
  "setAmplitude (\<lambda>_ _ _. True) log10f_example 200 vib_idle \<noteq> None
    \<and> setAmplitude (\<lambda>_ _ _. True) log10f_example 0 vib_idle = Some (BAD_VALUE, vib_idle)
    \<and> (\<exists>s :: 8 word. \<bar>real (unat s) / 8 + 20 * log 10 (real (unat (200 :: 8 word)) / 255)\<bar> \<le> 1 / 10
        \<and> setAmplitude (\<lambda>_ _ _. True) log10f_example 200 vib_idle =
            (let f = put (\<lambda>_ _. True) (dec (unat s)) (mScale vib_idle)
             in Some (if failed f then UNKNOWN_ERROR else OK, vib_idle\<lparr>mScale := f\<rparr>)))"
  using setAmplitude_spec [OF log10f_example_ok, of "\<lambda>_ _ _. True" 200 vib_idle]
  by (simp only: word_le_nat_alt unat_numeral) (simp del: ex_simps)

text \<open>
  C38. What a request to perform an effect does, for every effect, strength and range of the interface,
  with a \<open>log10\<close> accurate to a thousandth and the ringtones numbered apart from the clicks. Outside the
  range of its version it is refused and writes nothing. Inside, the requests of \<open>plan\<close> are accepted: the
  waveform of a ringtone is queued, the attenuation of the amplitude is written as the scale to within a
  tenth of a decibel, then the index, the duration (6 ms longer than what is told) and the activation. All
  others are refused, telling no time, and write nothing, except that a ringtone of an invalid strength
  has already queued its waveform.
\<close>

theorem perform_spec:
  assumes "log10f_ok lg" "hidl_ok h"
  shows "\<exists>s :: 8 word. (\<forall>a i ms. plan effect strength = Some (a, i, ms) \<longrightarrow> \<bar>real (unat s) / 8 + 20 * log 10 (real a / 255)\<bar> \<le> 1 / 10)
    \<and> performWrapper drv lg h valid effect strength v =
      (if num h effect < fst valid \<or> snd valid < num h effect then Some ((UNSUPPORTED_OPERATION, 0), v)
       else case plan effect strength of
         None \<Rightarrow> Some ((UNSUPPORTED_OPERATION, 0), queued drv effect v)
       | Some (a, i, ms) \<Rightarrow> Some ((OK, word_of_nat ms), started drv (unat s) i ms (queued drv effect v)))"
proof (cases "ringtone_queue effect")
  case None
  then have "queued drv effect v = v" by (simp add: queued_def)
  then show ?thesis using performEffect_click [OF assms None, of strength drv v]
    by (auto simp: performWrapper_def split: option.splits)
next
  case (Some q)
  show ?thesis using performEffect_ringtone [OF assms Some, of strength drv v]
    by (auto simp: performWrapper_def split: option.splits)
qed

definition hidl_example :: hidl where
  "hidl_example = \<lparr>num = (\<lambda>e. case e of CLICK \<Rightarrow> 0 | DOUBLE_CLICK \<Rightarrow> 1 | TICK \<Rightarrow> 2 | HEAVY_CLICK \<Rightarrow> 5
     | RINGTONE_1 \<Rightarrow> 6 | RINGTONE_15 \<Rightarrow> 20 | OTHER_EFFECT n \<Rightarrow> 100 + int n | _ \<Rightarrow> 7),
     range_1_0 = (0, 1), range_1_1 = (0, 2), range_1_2 = (0, 20)\<rparr>"

lemma hidl_example_ok: "hidl_ok hidl_example"
proof -
  have "6 \<le> num hidl_example e \<and> num hidl_example e \<le> 20" if "ringtone_queue e \<noteq> None" for e
    using that by (cases e) (simp_all add: hidl_example_def)
  then show ?thesis by (auto simp: hidl_ok_def hidl_example_def)
qed

theorem perform_spec_witness:
  "\<exists>s :: 8 word. \<bar>real (unat s) / 8 + 20 * log 10 (85 / 255)\<bar> \<le> 1 / 10
    \<and> performWrapper (\<lambda>_ _ _. True) log10f_example hidl_example (range_1_2 hidl_example) RINGTONE_4 LIGHT vib_idle
      = Some ((OK, 30000), started (\<lambda>_ _ _. True) (unat s) 65534 30000
          (vib_idle\<lparr>mEffectQueue := put (\<lambda>_ _. True) ''140, 14.100, 6!'' (mEffectQueue vib_idle)\<rparr>))"
proof -
  have p: "plan RINGTONE_4 LIGHT = Some (85, 65534, 30000)" by (simp add: plan_def)
  have r: "\<not> (num hidl_example RINGTONE_4 < fst (range_1_2 hidl_example) \<or> snd (range_1_2 hidl_example) < num hidl_example RINGTONE_4)"
    by (simp add: hidl_example_def)
  have q: "queued (\<lambda>_ _ _. True) RINGTONE_4 vib_idle
      = vib_idle\<lparr>mEffectQueue := put (\<lambda>_ _. True) ''140, 14.100, 6!'' (mEffectQueue vib_idle)\<rparr>"
    by (simp add: queued_def)
  show ?thesis
    using perform_spec [OF log10f_example_ok hidl_example_ok, of RINGTONE_4 LIGHT "\<lambda>_ _ _. True" "range_1_2 hidl_example" vib_idle]
    unfolding p q if_not_P [OF r] by simp
qed

text \<open>
  From a calibration file of comments and \<open>key: value\<close> lines with any blanks around the parts,
  the driver is given for each of the two keys the value of the last line that has it.
\<close>

theorem loadCalibrationData_spec:
  assumes "\<forall>x\<in>set xs. item_ok x"
  shows "loadCalibrationData f0d redcd (Some (cal_text xs)) f0 redc =
    (let m = map_of (rev (concat (map item_entries xs)))
     in (True, put_if f0d (m F0_CONFIG) f0, put_if redcd (m REDC_CONFIG) redc))"
  using cal_loop_items [OF assms, of "\<lambda>_. None"] by (simp add: loadCalibrationData_def Let_def)

theorem loadCalibrationData_spec_witness:
  "loadCalibrationData (\<lambda>_ _. True) (\<lambda>_ _. True)
      (Some (cal_text [Comment '' cal'', Entry (F0_CONFIG, ''1.5'') 1 0 2, Entry (F0_CONFIG, ''2:3'') 0 1 1]))
      (open_stream True) (open_stream True) =
    (let m = map_of (rev (concat (map item_entries
        [Comment '' cal'', Entry (F0_CONFIG, ''1.5'') 1 0 2, Entry (F0_CONFIG, ''2:3'') 0 1 1])))
     in (True, put_if (\<lambda>_ _. True) (m F0_CONFIG) (open_stream True), put_if (\<lambda>_ _. True) (m REDC_CONFIG) (open_stream True)))"
  by (rule loadCalibrationData_spec) (simp add: cal_entry_def plain_text_def F0_CONFIG_def)

end
