(* ===== verification/Modem_Logs.thy ===== *)
theory Modem_Logs
  imports C_Prelude
begin

text \<open>
  The archive of modem logs in a bug report (\<open>dumpstate/DumpstateDevice.cpp\<close>): copying of files, the
  choice of the newest logs, and the tar file. Files are byte strings; how much each \<open>read\<close> and \<open>write\<close>
  moves is an argument (an interrupted call is repeated by the code and not counted). \<open>None\<close> is
  undefined behaviour. Messages are left out.
\<close>

section \<open>Copying\<close>

definition BUFSIZE :: nat where "BUFSIZE = 65536"

text \<open>A file open for writing: what was written, and the number of calls of \<open>write\<close> so far.\<close>

record wfile =
  written :: string
  writes :: nat

definition sys_write :: "(nat \<Rightarrow> nat option) \<Rightarrow> string \<Rightarrow> wfile \<Rightarrow> int \<times> wfile" where
  "sys_write wr bs f =
     (case wr (writes f) of
        None \<Rightarrow> (-1, f\<lparr>writes := Suc (writes f)\<rparr>)
      | Some n \<Rightarrow> (int (length (take n bs)), f\<lparr>written := written f @ take n bs, writes := Suc (writes f)\<rparr>))"

text \<open>The loop over \<open>read\<close>, which ignores what \<open>write\<close> answers; the result has the bytes read.\<close>

function copy_loop :: "(nat \<Rightarrow> nat option) \<Rightarrow> (nat \<Rightarrow> nat option) \<Rightarrow> nat \<Rightarrow> string \<Rightarrow> wfile \<Rightarrow> nat \<times> wfile" where
  "copy_loop rd wr i rest f =
     (let bs = (case rd i of None \<Rightarrow> [] | Some n \<Rightarrow> take (min n BUFSIZE) rest) in
      if bs = [] then (0, f)
      else let (r, f) = sys_write wr bs f;
               (n, f) = copy_loop rd wr (Suc i) (drop (length bs) rest) f
           in (length bs + n, f))"
  by auto
termination by (relation "measure (\<lambda>(rd, wr, i, rest, f). length rest)") (auto split: option.splits)

declare copy_loop.simps [simp del]

text \<open>Opened without \<open>O_TRUNC\<close>: bytes of the old file past the written ones stay.\<close>

definition over :: "string \<Rightarrow> wfile \<Rightarrow> string" where
  "over old f = written f @ drop (length (written f)) old"

text \<open>\<open>src\<close>: \<open>None\<close> when it cannot be opened; \<open>dest\<close>: the file before, \<open>None\<close> when it cannot be opened.\<close>

definition copyFile ::
  "(nat \<Rightarrow> nat option) \<Rightarrow> (nat \<Rightarrow> nat option) \<Rightarrow> string option \<Rightarrow> string option \<Rightarrow> string option" where
  "copyFile rd wr src dest =
     (case src of None \<Rightarrow> dest
      | Some s \<Rightarrow>
        (case dest of None \<Rightarrow> None
         | Some old \<Rightarrow> Some (over old (snd (copy_loop rd wr 0 s \<lparr>written = [], writes = 0\<rparr>)))))"

section \<open>The header of a file in the archive\<close>

text \<open>
  The structure \<open>PosixTarHeader\<close> is its 512 bytes. \<open>put_field\<close>: \<open>strcpy\<close> or \<open>sprintf\<close> into an array
  of \<open>n\<close> bytes in it, undefined when it is too small.
\<close>

definition put_bytes :: "nat \<Rightarrow> string \<Rightarrow> string \<Rightarrow> string" where
  "put_bytes offset s h = take offset h @ s @ drop (offset + length s) h"

definition put_field :: "nat \<Rightarrow> nat \<Rightarrow> string \<Rightarrow> string \<Rightarrow> string option" where
  "put_field offset n s h = (if length s < n then Some (put_bytes offset (s @ [NUL]) h) else None)"

text \<open>\<open>%o\<close>, and with a width filled with zeros.\<close>

fun octal :: "nat \<Rightarrow> string" where
  "octal n = (if n < 8 then [char_of (48 + n)] else octal (n div 8) @ [char_of (48 + n mod 8)])"

declare octal.simps [simp del]

definition octal_pad :: "nat \<Rightarrow> nat \<Rightarrow> string" where
  "octal_pad width n = replicate (width - length (octal n)) (CHR ''0'') @ octal n"

definition tarCheckSum :: "string \<Rightarrow> 32 word \<times> string" where
  "tarCheckSum header =
     (let header = put_bytes 148 (replicate 8 (CHR '' '')) header
      in (sum_list (map (\<lambda>c. word_of_nat (code_of c)) header), header))"

definition tarHeader :: "string \<Rightarrow> 64 word \<Rightarrow> string option" where
  "tarHeader fileName fileSize =
     do {
       let h = replicate 512 NUL;
       h \<leftarrow> put_field 0 100 fileName h;
       h \<leftarrow> put_field 100 8 (octal_pad 7 384) h;
       h \<leftarrow> put_field 124 12 (octal_pad 11 (unat fileSize)) h;
       h \<leftarrow> put_field 136 12 (octal_pad 11 0) h;
       let h = put_bytes 156 ''0'' h;
       h \<leftarrow> put_field 257 6 ''ustar'' h;
       h \<leftarrow> put_field 263 2 '' '' h;
       let (sum, h) = tarCheckSum h;
       put_field 148 8 (octal_pad 6 (unat sum)) h }"

section \<open>The archive\<close>

text \<open>
  An entry of the directory: its name, whether \<open>open\<close> succeeds, \<open>st_size\<close>, the bytes there are to read
  and the answers of \<open>read\<close>.
\<close>

record dir_entry =
  d_name :: string
  opens :: bool
  st_size :: "64 word"
  content :: string
  reads :: "nat \<Rightarrow> nat option"

function pad_loop :: "(nat \<Rightarrow> nat option) \<Rightarrow> nat \<Rightarrow> wfile \<Rightarrow> nat \<times> wfile" where
  "pad_loop wr tarLen f =
     (if tarLen mod 512 \<noteq> 0 then pad_loop wr (tarLen + 1) (snd (sys_write wr [NUL] f)) else (tarLen, f))"
  by auto
termination by (relation "measure (\<lambda>(wr, tarLen, f). (512 - tarLen mod 512) mod 512)") (auto simp: mod_Suc)

declare pad_loop.simps [simp del]

fun tar_loop :: "(nat \<Rightarrow> nat option) \<Rightarrow> dir_entry list \<Rightarrow> nat \<Rightarrow> wfile \<Rightarrow> wfile option" where
  "tar_loop wr [] tarLen f = Some f"
| "tar_loop wr (e # es) tarLen f =
     (if c_hd (d_name e) = CHR ''.'' then tar_loop wr es tarLen f
      else if \<not> opens e then tar_loop wr es tarLen f
      else do {
        h \<leftarrow> tarHeader (d_name e) (st_size e);
        let (r, f) = sys_write wr h f;
        if r \<le> 0 then tar_loop wr es tarLen f
        else
          let tarLen = tarLen + 512;
              (n, f) = copy_loop (reads e) wr 0 (content e) f;
              (tarLen, f) = pad_loop wr (tarLen + n) f
          in tar_loop wr es tarLen f })"

text \<open>\<open>dir\<close>: \<open>None\<close> when \<open>opendir\<close> fails; \<open>old\<close>: the file before, \<open>None\<close> when it cannot be opened.\<close>

definition createTarFile :: "(nat \<Rightarrow> nat option) \<Rightarrow> string option \<Rightarrow> dir_entry list option \<Rightarrow> string option option" where
  "createTarFile wr old dir =
     (case dir of None \<Rightarrow> Some old
      | Some es \<Rightarrow>
        (case old of None \<Rightarrow> Some None
         | Some old \<Rightarrow> do {
             f \<leftarrow> tar_loop wr es 0 \<lparr>written = [], writes = 0\<rparr>;
             Some (Some (over old f)) }))"

section \<open>The newest logs\<close>

text \<open>
  \<open>dirent_list\<close> is what \<open>scandir\<close> leaves, in the order of \<open>alphasort\<close>, \<open>None\<close> for a null list. The result
  has the names that are copied, in the order of the copies.
\<close>

fun dump_loop :: "string \<Rightarrow> int \<Rightarrow> string list \<Rightarrow> int \<Rightarrow> string list" where
  "dump_loop logPrefix maxFileNum [] copiedFiles = []"
| "dump_loop logPrefix maxFileNum (name # ds) copiedFiles =
     (if \<not> strneq (length logPrefix) name logPrefix then dump_loop logPrefix maxFileNum ds copiedFiles
      else if copiedFiles \<ge> maxFileNum \<and> maxFileNum \<noteq> -1 then dump_loop logPrefix maxFileNum ds copiedFiles
      else name # dump_loop logPrefix maxFileNum ds (copiedFiles + 1))"

definition dumpLogs :: "string list option \<Rightarrow> int \<Rightarrow> string \<Rightarrow> string list" where
  "dumpLogs dirent_list maxFileNum logPrefix =
     (case dirent_list of None \<Rightarrow> [] | Some ds \<Rightarrow> dump_loop logPrefix maxFileNum (rev ds) 0)"

lemma dump_loop_spec:
  "dump_loop p m ds k = (if m = -1 then filter (\<lambda>d. strneq (length p) d p) ds
     else take (nat (m - k)) (filter (\<lambda>d. strneq (length p) d p) ds))"
proof (induction p m ds k rule: dump_loop.induct)
  case (2 p m d ds k)
  have "nat (m - (k + 1)) = nat (m - k) - Suc 0" by simp
  with 2 show ?case by (auto simp: take_Cons')
qed simp

section \<open>Reading an archive\<close>

text \<open>What a reader of the format makes of an archive: names, sizes in octal, the sum, blocks of 512 bytes.\<close>

definition octal_value :: "string \<Rightarrow> nat" where
  "octal_value = foldl (\<lambda>v c. 8 * v + (code_of c - 48)) 0"

definition part :: "nat \<Rightarrow> nat \<Rightarrow> string \<Rightarrow> string" where
  "part offset n h = take n (drop offset h)"

definition header_ok :: "string \<Rightarrow> bool" where
  "header_ok h \<longleftrightarrow> part 257 6 h = ''ustar'' @ [NUL] \<and> part 156 1 h = ''0''
     \<and> octal_value (part 148 6 h) = sum_list (map code_of (put_bytes 148 (replicate 8 (CHR '' '')) h))"

function untar :: "string \<Rightarrow> (string \<times> string) list option" where
  "untar a =
     (if a = [] then Some []
      else if length a < 512 \<or> \<not> header_ok (take 512 a) then None
      else let size = octal_value (part 124 11 a); total = 512 + (size + 511) div 512 * 512 in
        if length a < total then None
        else map_option (Cons (cstr (part 0 100 a), part 512 size a)) (untar (drop total a)))"
  by auto
termination by (relation "measure length") auto

declare untar.simps [simp del]

section \<open>Numbers in octal\<close>

lemma octal_digit [simp]: "n < 8 \<Longrightarrow> code_of (char_of (48 + n)) = 48 + n"
  by simp

lemma octal_value_octal: "octal_value (octal n) = n"
proof (induction n rule: octal.induct)
  case (1 n)
  then show ?case by (cases "n < 8") (simp_all add: octal.simps [of n] octal_value_def)
qed

lemma octal_value_zeros: "octal_value (replicate k (CHR ''0'') @ s) = octal_value s"
  by (induction k) (simp_all add: octal_value_def code_of_def)

lemma length_octal: "n < 8 ^ w \<Longrightarrow> 0 < w \<Longrightarrow> length (octal n) \<le> w"
proof (induction w arbitrary: n)
  case (Suc w)
  show ?case
  proof (cases "n < 8")
    case False
    then have "n div 8 < 8 ^ w" "0 < w" using Suc.prems(1) by (auto intro: gr0I simp: less_mult_imp_div_less mult.commute)
    then show ?thesis using Suc.IH False by (subst octal.simps) simp
  qed (simp add: octal.simps)
qed simp

lemma octal_pad_facts:
  "n < 8 ^ w \<Longrightarrow> 0 < w \<Longrightarrow> length (octal_pad w n) = w" "octal_value (octal_pad w n) = n"
  using length_octal [of n w] by (simp_all add: octal_pad_def octal_value_zeros octal_value_octal)

section \<open>The header\<close>

lemma length_put_bytes: "offset + length s \<le> length h \<Longrightarrow> length (put_bytes offset s h) = length h"
  by (simp add: put_bytes_def)

lemma part_put_same: "offset + length s \<le> length h \<Longrightarrow> n \<le> length s \<Longrightarrow> part offset n (put_bytes offset s h) = take n s"
  by (simp add: put_bytes_def part_def)

lemma part_put_before: "o' + n \<le> offset \<Longrightarrow> offset \<le> length h \<Longrightarrow> part o' n (put_bytes offset s h) = part o' n h"
  by (simp add: put_bytes_def part_def drop_take)

lemma part_put_after: "offset + length s \<le> o' \<Longrightarrow> offset + length s \<le> length h \<Longrightarrow> part o' n (put_bytes offset s h) = part o' n h"
  by (simp add: put_bytes_def part_def)

lemma put_bytes_again: "length s = length t \<Longrightarrow> offset + length s \<le> length h \<Longrightarrow> put_bytes offset t (put_bytes offset s h) = put_bytes offset t h"
  by (simp add: put_bytes_def)

lemma sum_words: "sum_list (map (\<lambda>c. word_of_nat (code_of c) :: 32 word) h) = word_of_nat (sum_list (map code_of h))"
  by (induction h) simp_all

lemma sum_codes: "sum_list (map code_of h) \<le> 255 * length h"
proof (induction h)
  case (Cons c h)
  have "code_of c \<le> 255" using code_of_lt [of c] by linarith
  then show ?case using Cons by simp
qed simp

lemma tarHeader_text:
  assumes "length name < 100" "NUL \<notin> set name" "unat sz < 8 ^ 11"
  obtains h where "tarHeader name sz = Some h" "length h = 512" "cstr (part 0 100 h) = name"
    "octal_value (part 124 11 h) = unat sz" "header_ok h"
proof -
  note num = octal_pad_facts
  let ?sz = "octal_pad 11 (unat sz)"
  define h1 where "h1 = put_bytes 0 (name @ [NUL]) (replicate 512 NUL)"
  define h2 where "h2 = put_bytes 100 (octal_pad 7 384 @ [NUL]) h1"
  define h3 where "h3 = put_bytes 124 (?sz @ [NUL]) h2"
  define h4 where "h4 = put_bytes 136 (octal_pad 11 0 @ [NUL]) h3"
  define h5 where "h5 = put_bytes 156 ''0'' h4"
  define h6 where "h6 = put_bytes 257 (''ustar'' @ [NUL]) h5"
  define h7 where "h7 = put_bytes 263 ('' '' @ [NUL]) h6"
  define h8 where "h8 = put_bytes 148 (replicate 8 (CHR '' '')) h7"
  define sum where "sum = sum_list (map code_of h8)"
  define h where "h = put_bytes 148 (octal_pad 6 sum @ [NUL]) h8"
  have l: "length ?sz = 11" "length (octal_pad 7 384) = 7" "length (octal_pad 11 0) = 11"
    using assms(3) by (simp_all add: num(1))
  have len: "length h1 = 512" "length h2 = 512" "length h3 = 512" "length h4 = 512" "length h5 = 512" "length h6 = 512"
      "length h7 = 512" "length h8 = 512"
    using assms(1) l by (simp_all add: h1_def h2_def h3_def h4_def h5_def h6_def h7_def h8_def length_put_bytes)
  have sum: "sum < 8 ^ 6" unfolding sum_def using sum_codes [of h8] len by simp
  have l6: "length (octal_pad 6 sum) = 6" using sum by (simp add: num(1))
  have lh: "length h = 512" unfolding h_def using len l6 by (simp add: length_put_bytes)
  have "tarHeader name sz = (let (sum, h) = tarCheckSum h7 in put_field 148 8 (octal_pad 6 (unat sum)) h)"
    using assms(1) l by (simp add: tarHeader_def put_field_def h1_def h2_def h3_def h4_def h5_def h6_def h7_def)
  moreover have "tarCheckSum h7 = (word_of_nat sum, h8)"
    by (simp add: tarCheckSum_def sum_words sum_def flip: h8_def)
  moreover have "unat (word_of_nat sum :: 32 word) = sum"
    using sum by (simp add: unsigned_of_nat take_bit_nat_eq_self)
  ultimately have "tarHeader name sz = Some h"
    using l6 by (simp add: put_field_def h_def)
  moreover have "cstr (part 0 100 h) = name"
  proof -
    have "part 0 100 h = part 0 100 h1"
      unfolding h_def h8_def h7_def h6_def h5_def h4_def h3_def h2_def
      using len l l6 by (simp add: part_put_before length_put_bytes)
    also have "\<dots> = name @ NUL # replicate (99 - length name) NUL"
      using assms(1) by (simp add: h1_def part_def put_bytes_def take_Cons' min_def)
    finally show ?thesis using assms(2) by (simp add: cstr_append cstr_Cons)
  qed
  moreover have "octal_value (part 124 11 h) = unat sz"
  proof -
    have "part 124 11 h = part 124 11 h3"
      unfolding h_def h8_def h7_def h6_def h5_def h4_def
      using len l l6 by (simp add: part_put_before length_put_bytes)
    also have "\<dots> = ?sz" using len l by (simp add: h3_def part_put_same)
    finally show ?thesis by (simp add: num(2))
  qed
  moreover have "header_ok h"
  proof -
    have "part 257 6 h = part 257 6 h6" "part 156 1 h = part 156 1 h5"
      unfolding h_def h8_def h7_def h6_def
      using len l l6 by (simp_all add: part_put_before part_put_after length_put_bytes)
    then have "part 257 6 h = ''ustar'' @ [NUL]" "part 156 1 h = ''0''"
      using len by (simp_all add: h5_def h6_def part_put_same)
    moreover have "octal_value (part 148 6 h) = sum"
      using len l6 by (simp add: h_def part_put_same num(2))
    moreover have "put_bytes 148 (replicate 8 (CHR '' '')) h = h8"
      using len l6 by (simp add: h_def h8_def put_bytes_def)
    ultimately show ?thesis by (simp add: header_ok_def sum_def)
  qed
  ultimately show thesis using that lh by blast
qed

section \<open>The archive has the files\<close>

text \<open>Every \<open>write\<close> moves what it is given.\<close>

definition full :: "(nat \<Rightarrow> nat option) \<Rightarrow> bool" where
  "full wr \<longleftrightarrow> (\<forall>i. \<exists>n\<ge>BUFSIZE. wr i = Some n)"

lemma sys_write_full:
  assumes "full wr" "length bs \<le> BUFSIZE"
  shows "sys_write wr bs f = (int (length bs), f\<lparr>written := written f @ bs, writes := Suc (writes f)\<rparr>)"
proof -
  obtain n where "wr (writes f) = Some n" "BUFSIZE \<le> n" using assms(1) by (auto simp: full_def)
  then show ?thesis using assms(2) by (simp add: sys_write_def)
qed

lemma copy_loop_all:
  assumes rd: "progress rd" and wr: "full wr"
  shows "\<exists>w. copy_loop rd wr i rest f = (length rest, f\<lparr>written := written f @ rest, writes := w\<rparr>)"
proof (induction rest arbitrary: i f rule: length_induct)
  case (1 rest)
  obtain n where n: "rd i = Some n" "0 < n" using rd by (auto simp: progress_def)
  define bs where "bs = take (min n BUFSIZE) rest"
  have cut: "bs @ drop (length bs) rest = rest" by (simp add: bs_def min_def)
  show ?case
  proof (cases "rest = []")
    case True
    then show ?thesis using n(1) by (intro exI [of _ "writes f"]) (simp add: copy_loop.simps)
  next
    case False
    then have bs: "bs \<noteq> []" "length (drop (length bs) rest) < length rest" using n(2) by (auto simp: bs_def BUFSIZE_def)
    let ?f = "f\<lparr>written := written f @ bs, writes := Suc (writes f)\<rparr>"
    obtain w where "copy_loop rd wr (Suc i) (drop (length bs) rest) ?f
        = (length (drop (length bs) rest), ?f\<lparr>written := written ?f @ drop (length bs) rest, writes := w\<rparr>)"
      using 1 bs(2) by blast
    moreover have "copy_loop rd wr i rest f = (let (n, f) = copy_loop rd wr (Suc i) (drop (length bs) rest) ?f in (length bs + n, f))"
    proof -
      have "(case rd i of None \<Rightarrow> [] | Some n \<Rightarrow> take (min n BUFSIZE) rest) = bs" using n(1) by (simp add: bs_def)
      moreover have "length bs \<le> BUFSIZE" by (simp add: bs_def)
      ultimately show ?thesis
        unfolding copy_loop.simps [of _ _ i rest] Let_def using bs(1) sys_write_full [OF wr, of bs f] by simp
    qed
    moreover have "length bs \<le> length rest" by (simp add: bs_def)
    ultimately show ?thesis using cut by (intro exI [of _ w]) simp
  qed
qed

definition padding :: "nat \<Rightarrow> nat" where
  "padding n = (512 - n mod 512) mod 512"

lemma padding_round: "n + padding n = (n + 511) div 512 * 512"
proof -
  define q r where "q = n div 512" and "r = n mod 512"
  have n: "n = 512 * q + r" "r < 512" by (simp_all add: q_def r_def)
  show ?thesis
  proof (cases "r = 0")
    case True
    then show ?thesis using n by (simp add: padding_def)
  next
    case False
    then have "n + 511 = 512 * (q + 1) + (r - 1)" "r - 1 < 512" using n by simp_all
    then have "(n + 511) div 512 = q + 1" by simp
    moreover have "padding n = 512 - r" using False n(2) by (simp add: padding_def flip: r_def)
    ultimately show ?thesis using n by simp
  qed
qed

lemma padding_mod: "(n + padding n) mod 512 = 0"
  by (simp add: padding_round)

lemma padding_Suc: "n mod 512 \<noteq> 0 \<Longrightarrow> padding n = Suc (padding (Suc n))"
proof -
  define r where "r = n mod 512"
  have "r < 512" by (simp add: r_def)
  then show "n mod 512 \<noteq> 0 \<Longrightarrow> padding n = Suc (padding (Suc n))"
    unfolding padding_def mod_Suc by (auto simp flip: r_def)
qed

lemma padding_add: "n mod 512 = 0 \<Longrightarrow> padding (n + 512 + k) = padding k"
  by (simp add: padding_def mod_add_left_eq [of "n + 512", symmetric] mod_add_left_eq [of n, symmetric])

lemma pad_loop_all:
  assumes wr: "full wr"
  shows "\<exists>w. pad_loop wr n f = (n + padding n, f\<lparr>written := written f @ replicate (padding n) NUL, writes := w\<rparr>)"
  using wr
proof (induction wr n f rule: pad_loop.induct)
  case (1 wr n f)
  show ?case
  proof (cases "n mod 512 = 0")
    case True
    then show ?thesis by (intro exI [of _ "writes f"]) (simp add: pad_loop.simps padding_def)
  next
    case False
    have "sys_write wr [NUL] f = (1, f\<lparr>written := written f @ [NUL], writes := Suc (writes f)\<rparr>)"
      using sys_write_full [OF 1(2), of "[NUL]" f] by (simp add: BUFSIZE_def)
    then show ?thesis using 1 False by (simp add: pad_loop.simps [of wr n f] padding_Suc)
  qed
qed

text \<open>An entry that is collected, and what the format asks of it.\<close>

definition collected :: "dir_entry \<Rightarrow> bool" where
  "collected e \<longleftrightarrow> c_hd (d_name e) \<noteq> CHR ''.'' \<and> opens e"

definition entry_ok :: "dir_entry \<Rightarrow> bool" where
  "entry_ok e \<longleftrightarrow> length (d_name e) < 100 \<and> NUL \<notin> set (d_name e) \<and> unat (st_size e) = length (content e)
     \<and> length (content e) < 8 ^ 11 \<and> progress (reads e)"

lemma untar_entry:
  assumes "length h = 512" "header_ok h" "octal_value (part 124 11 h) = length c" "cstr (part 0 100 h) = name"
  shows "untar (h @ c @ replicate (padding (length c)) NUL @ rest) = map_option (Cons (name, c)) (untar rest)"
proof -
  let ?a = "h @ c @ replicate (padding (length c)) NUL @ rest"
  have "take 512 ?a = h" "part 124 11 ?a = part 124 11 h" "part 0 100 ?a = part 0 100 h" "part 512 (length c) ?a = c"
    using assms(1) by (simp_all add: part_def)
  moreover have "drop (512 + (length c + padding (length c))) ?a = rest" "h \<noteq> []"
    "\<not> length ?a < 512 + (length c + padding (length c))"
    using assms(1) by auto
  ultimately show ?thesis using assms untar.simps [of ?a] by (simp add: Let_def flip: padding_round)
qed

lemma tar_loop_all:
  assumes wr: "full wr"
  shows "\<forall>e\<in>set es. collected e \<longrightarrow> entry_ok e \<Longrightarrow> n mod 512 = 0 \<Longrightarrow>
    \<exists>a w. tar_loop wr es n f = Some \<lparr>written = written f @ a, writes = w\<rparr>
      \<and> untar a = Some (map (\<lambda>e. (d_name e, content e)) (filter collected es))"
proof (induction es arbitrary: n f)
  case Nil
  then show ?case by (intro exI [of _ "[]"] exI [of _ "writes f"]) (simp add: untar.simps)
next
  case (Cons e es)
  show ?case
  proof (cases "collected e")
    case False
    then show ?thesis using Cons by (auto simp: collected_def)
  next
    case True
    then have ok: "entry_ok e" using Cons.prems(1) by simp
    obtain h where h: "tarHeader (d_name e) (st_size e) = Some h" "length h = 512" "cstr (part 0 100 h) = d_name e"
      "octal_value (part 124 11 h) = unat (st_size e)" "header_ok h"
      by (rule tarHeader_text [of "d_name e" "st_size e"]) (use ok in \<open>auto simp: entry_ok_def\<close>)
    let ?c = "content e"
    define f1 where "f1 = f\<lparr>written := written f @ h, writes := Suc (writes f)\<rparr>"
    have w1: "sys_write wr h f = (512, f1)"
      using sys_write_full [OF wr, of h f] h(2) by (simp add: BUFSIZE_def f1_def)
    obtain w2 where w2: "copy_loop (reads e) wr 0 ?c f1 = (length ?c, f1\<lparr>written := written f1 @ ?c, writes := w2\<rparr>)"
      using copy_loop_all [of "reads e", OF _ wr] ok unfolding entry_ok_def by blast
    define f2 where "f2 = f1\<lparr>written := written f1 @ ?c, writes := w2\<rparr>"
    let ?m = "n + 512 + length ?c"
    obtain w3 where w3: "pad_loop wr ?m f2 = (?m + padding ?m, f2\<lparr>written := written f2 @ replicate (padding ?m) NUL, writes := w3\<rparr>)"
      using pad_loop_all [OF wr] by blast
    define f3 where "f3 = f2\<lparr>written := written f2 @ replicate (padding ?m) NUL, writes := w3\<rparr>"
    have pad: "padding ?m = padding (length ?c)" using Cons.prems(2) by (rule padding_add)
    obtain a w where t: "tar_loop wr es (?m + padding ?m) f3 = Some \<lparr>written = written f3 @ a, writes = w\<rparr>"
      and a: "untar a = Some (map (\<lambda>e. (d_name e, content e)) (filter collected es))"
      using Cons.IH [of "?m + padding ?m" f3] Cons.prems(1) padding_mod [of ?m] by auto
    have "tar_loop wr (e # es) n f = tar_loop wr es (?m + padding ?m) f3"
      using True h(1) w1 w2 w3 by (simp add: collected_def f2_def f3_def)
    moreover have "untar (h @ ?c @ replicate (padding (length ?c)) NUL @ a)
        = Some (map (\<lambda>e. (d_name e, content e)) (filter collected (e # es)))"
      using untar_entry [OF h(2,5) _ h(3), of ?c a] h(4) ok a True by (simp add: entry_ok_def)
    moreover have "written f3 @ a = written f @ h @ ?c @ replicate (padding (length ?c)) NUL @ a"
      by (simp add: f3_def f2_def f1_def pad)
    ultimately show ?thesis using t by auto
  qed
qed

text \<open>
  C19. When every \<open>write\<close> moves what it is given, the archive that is made where there was none is undone by
  a reader of the format: it has the name and the bytes of every file that can be opened and is not
  hidden, in order, however the reads cut the files. Of those files it is asked that the name has less
  than 100 bytes and no NUL, that the size \<open>fstat\<close> told is that of the bytes that can be read and below
  8 GiB, and that every \<open>read\<close> moves something. \<open>tarHeader_long_name\<close>, \<open>tarHeader_big_file\<close> and
  \<open>createTarFile_directory\<close> show entries that break it.
\<close>

theorem createTarFile_untar:
  assumes "full wr" "\<forall>e\<in>set es. collected e \<longrightarrow> entry_ok e"
  shows "\<exists>a. createTarFile wr (Some []) (Some es) = Some (Some a)
    \<and> untar a = Some (map (\<lambda>e. (d_name e, content e)) (filter collected es))"
  using tar_loop_all [OF assms, of 0 "\<lparr>written = [], writes = 0\<rparr>"] by (auto simp: createTarFile_def over_def)

definition example_dir :: "dir_entry list" where
  "example_dir = [\<lparr>d_name = ''.'', opens = True, st_size = 4096, content = [], reads = (\<lambda>_. None)\<rparr>,
     \<lparr>d_name = ''diag_log_1'', opens = True, st_size = 5, content = ''hello'', reads = (\<lambda>_. Some 2)\<rparr>,
     \<lparr>d_name = ''secret'', opens = False, st_size = 0, content = [], reads = (\<lambda>_. None)\<rparr>]"

lemma createTarFile_untar_witness:
  "\<exists>a. createTarFile (\<lambda>_. Some 65536) (Some []) (Some example_dir) = Some (Some a)
    \<and> untar a = Some [(''diag_log_1'', ''hello'')]"
proof -
  have "full (\<lambda>_. Some 65536)" by (simp add: full_def BUFSIZE_def)
  moreover have "\<forall>e\<in>set example_dir. collected e \<longrightarrow> entry_ok e"
    by (simp add: example_dir_def collected_def entry_ok_def progress_def)
  moreover have "map (\<lambda>e. (d_name e, content e)) (filter collected example_dir) = [(''diag_log_1'', ''hello'')]"
    by (simp add: example_dir_def collected_def)
  ultimately show ?thesis using createTarFile_untar [of "\<lambda>_. Some 65536" example_dir] by simp
qed

section \<open>What goes wrong\<close>

text \<open>A name of 100 bytes or more, which a directory can have, is written past its field.\<close>

lemma tarHeader_long_name: "100 \<le> length name \<Longrightarrow> tarHeader name sz = None"
  by (simp add: tarHeader_def put_field_def)

text \<open>So is a size of 8 GiB or more.\<close>

lemma length_octal_ge: "8 ^ w \<le> n \<Longrightarrow> w < length (octal n)"
proof (induction w arbitrary: n)
  case 0
  then show ?case by (simp add: octal.simps [of n])
next
  case (Suc w)
  then have "8 ^ w \<le> n div 8" by (simp add: less_eq_div_iff_mult_less_eq mult.commute)
  then have "w < length (octal (n div 8))" by (rule Suc.IH)
  moreover have "\<not> n < 8" using Suc.prems by (simp add: not_less order_trans [OF _ Suc.prems])
  ultimately show ?case by (subst octal.simps) simp
qed

lemma tarHeader_big_file: "8 ^ 11 \<le> unat sz \<Longrightarrow> tarHeader name sz = None"
  using length_octal_ge [of 11 "unat sz"]
  by (simp add: tarHeader_def put_field_def octal_pad_def)

text \<open>
  A directory can be opened but not read: its header promises bytes that do not follow, and the reader
  takes the next file for them.
\<close>

lemma createTarFile_directory:
  "map_option (map_option untar) (createTarFile (\<lambda>_. Some 65536) (Some [])
     (Some [\<lparr>d_name = ''logs'', opens = True, st_size = 4096, content = [], reads = (\<lambda>_. None)\<rparr>])) = Some (Some None)"
proof -
  obtain h where h: "tarHeader ''logs'' 4096 = Some h" "length h = 512" "octal_value (part 124 11 h) = 4096" "header_ok h"
    by (rule tarHeader_text [of "''logs''" 4096]) simp_all
  have "full (\<lambda>_. Some 65536)" by (simp add: full_def BUFSIZE_def)
  then have w: "sys_write (\<lambda>_. Some 65536) h \<lparr>written = [], writes = 0\<rparr> = (512, \<lparr>written = h, writes = 1\<rparr>)"
    using sys_write_full [of _ h] h(2) by (simp add: BUFSIZE_def)
  have "untar h = None"
    using h by (subst untar.simps) (auto simp: Let_def)
  then show ?thesis
    using h(1) w by (simp add: createTarFile_def copy_loop.simps pad_loop.simps over_def)
qed

text \<open>The file is not truncated: what was longer before keeps its end.\<close>

lemma copyFile_stale:
  "full wr \<Longrightarrow> progress rd \<Longrightarrow> copyFile rd wr (Some s) (Some old) = Some (s @ drop (length s) old)"
  using copy_loop_all [of rd wr 0 s "\<lparr>written = [], writes = 0\<rparr>"] by (auto simp: copyFile_def over_def)

section \<open>The newest logs are copied\<close>

text \<open>
  \<open>dumpLogs\<close> copies the last \<open>maxFileNum\<close> entries, in the order of their names, that begin with the
  prefix, the newest first; all of them for \<open>-1\<close>.
\<close>

theorem dumpLogs_spec:
  "dumpLogs (Some ds) m p = (if m = -1 then id else take (nat m)) (rev (filter (\<lambda>d. strneq (length p) d p) ds))"
  by (simp add: dumpLogs_def dump_loop_spec rev_filter)

end
