(* ===== verification/Modem_Thread.thy ===== *)
theory Modem_Thread
  imports Modem_Logs "HOL-Library.AList"
begin

text \<open>
  The thread that collects the modem's logs for a bug report (\<open>dumpModemThread\<close> in
  \<open>dumpstate/DumpstateDevice.cpp\<close>): it copies the logs of several places into one directory, makes an
  archive of it and sends that to a descriptor. Properties, files, the order of a directory, and how
  much reads and writes move are arguments; the waiting, the messages and the printed output of
  commands are left out.
\<close>

section \<open>The phone and the state\<close>

type_synonym path = string

text \<open>
  \<open>getprop\<close>, \<open>getbool\<close>, \<open>getint\<close>: \<open>GetProperty\<close> and the like, with the default of the call. \<open>src_file\<close>: a
  file, \<open>None\<close> when it cannot be opened. \<open>scandir\<close>: a directory in the order of \<open>alphasort\<close>. \<open>readdir\<close>: the
  order of a directory with these entries. \<open>removed\<close>: whether \<open>rm\<close> gets to a file and removes it before its
  two seconds are over. The last two: what \<open>read\<close> and \<open>write\<close> answer, by the path of
  the file; the empty path is the descriptor \<open>fdModem\<close>.
\<close>

record phone =
  getprop :: "string \<Rightarrow> string"
  getbool :: "string \<Rightarrow> bool \<Rightarrow> bool"
  getint :: "string \<Rightarrow> int \<Rightarrow> int"
  user_build :: bool
  src_file :: "path \<Rightarrow> string option"
  scandir :: "path \<Rightarrow> string list option"
  dest_opens :: "path \<Rightarrow> bool"
  dir_opens :: bool
  archive_opens :: bool
  readdir :: "string list \<Rightarrow> string list"
  removed :: "path \<Rightarrow> bool"
  read_answers :: "path \<Rightarrow> nat \<Rightarrow> nat option"
  write_answers :: "path \<Rightarrow> nat \<Rightarrow> nat option"

text \<open>
  The properties that were set, the files of the directory for the logs, the archive, what was sent.
\<close>

record modem =
  set_props :: "(string \<times> string) list"
  all_dir :: "(string \<times> string) list"
  combined :: "string option"
  sent :: wfile

definition MODEM_LOG_PREFIX_PROPERTY :: string where "MODEM_LOG_PREFIX_PROPERTY = ''ro.radio.log_prefix''"
definition MODEM_LOG_LOC_PROPERTY :: string where "MODEM_LOG_LOC_PROPERTY = ''ro.radio.log_loc''"
definition DIAG_MDLOG_PERSIST_PROPERTY :: string where "DIAG_MDLOG_PERSIST_PROPERTY = ''persist.vendor.sys.modem.diag.mdlog''"
definition DIAG_MDLOG_PROPERTY :: string where "DIAG_MDLOG_PROPERTY = ''vendor.sys.modem.diag.mdlog''"
definition DIAG_MDLOG_STATUS_PROPERTY :: string where "DIAG_MDLOG_STATUS_PROPERTY = ''vendor.sys.modem.diag.mdlog_on''"
definition DIAG_MDLOG_NUMBER_BUGREPORT :: string where "DIAG_MDLOG_NUMBER_BUGREPORT = ''persist.vendor.sys.modem.diag.mdlog_br_num''"
definition TCPDUMP_NUMBER_BUGREPORT :: string where "TCPDUMP_NUMBER_BUGREPORT = ''persist.vendor.tcpdump.log.br_num''"
definition TCPDUMP_PERSIST_PROPERTY :: string where "TCPDUMP_PERSIST_PROPERTY = ''persist.vendor.tcpdump.log.alwayson''"
definition MODEM_EFS_DUMP_PROPERTY :: string where "MODEM_EFS_DUMP_PROPERTY = ''vendor.sys.modem.diag.efsdump''"
definition DIAG_LOG_PREFIX :: string where "DIAG_LOG_PREFIX = ''diag_log_''"
definition TCPDUMP_LOG_PREFIX :: string where "TCPDUMP_LOG_PREFIX = ''tcpdump''"
definition EXTENDED_LOG_PREFIX :: string where "EXTENDED_LOG_PREFIX = ''extended_log_''"

definition diagLogDir :: path where "diagLogDir = ''/data/vendor/radio/diag_logs/logs''"
definition diagPoweronLogPath :: path where "diagPoweronLogPath = ''/data/vendor/radio/diag_logs/logs/diag_poweron_log.qmdl''"
definition tcpdumpLogDir :: path where "tcpdumpLogDir = ''/data/vendor/tcpdump_logger/logs''"
definition extendedLogDir :: path where "extendedLogDir = ''/data/vendor/radio/extended_logs''"

definition rilAndNetmgrLogs :: "path list" where
  "rilAndNetmgrLogs = [''/data/vendor/radio/haldebug_ril0'', ''/data/vendor/radio/haldebug_ril1'',
     ''/data/vendor/radio/ril_log0'', ''/data/vendor/radio/ril_log0_old'', ''/data/vendor/radio/ril_log1'',
     ''/data/vendor/radio/ril_log1_old'', ''/data/vendor/radio/imsdatadaemon_log'',
     ''/data/vendor/radio/imsdatadaemon_log_old'', ''/data/vendor/radio/qmi_fw_log'',
     ''/data/vendor/radio/qmi_fw_log_old'', ''/data/vendor/netmgr/netmgr_log'', ''/data/vendor/netmgr/netmgr_log_old'',
     ''/data/vendor/radio/omadm_logs.txt'', ''/data/vendor/radio/power_anomaly_data.txt'',
     ''/data/vendor/radio/diag_logs/diag_trace.txt'', ''/data/vendor/radio/diag_logs/diag_trace_old.txt'',
     ''/data/vendor/radio/metrics_data'', ''/data/vendor/ssrlog/ssr_log.txt'', ''/data/vendor/ssrlog/ssr_log_old.txt'',
     ''/data/vendor/rfs/mpss/modem_efs'']"

section \<open>The steps\<close>

definition SetProperty :: "string \<Rightarrow> string \<Rightarrow> modem \<Rightarrow> modem" where
  "SetProperty k v m = m\<lparr>set_props := set_props m @ [(k, v)]\<rparr>"

definition basename :: "path \<Rightarrow> string" where
  "basename p = rev (takeWhile (\<lambda>c. c \<noteq> CHR ''/'') (rev p))"

text \<open>\<open>copyFile\<close> to \<open>dir/name\<close>; a source or a destination that cannot be opened leaves the directory alone.\<close>

definition copy_to :: "phone \<Rightarrow> path \<Rightarrow> string \<times> path \<Rightarrow> modem \<Rightarrow> modem" where
  "copy_to e dir nf m =
     (let (name, src) = nf; dest = dir @ ''/'' @ name in
      if src_file e src = None \<or> \<not> dest_opens e dest then m
      else
        let old = (case map_of (all_dir m) name of None \<Rightarrow> [] | Some c \<Rightarrow> c)
        in case copyFile (read_answers e src) (write_answers e dest) (src_file e src) (Some old) of
             None \<Rightarrow> m
           | Some c \<Rightarrow> m\<lparr>all_dir := AList.update name c (all_dir m)\<rparr>)"

definition dump_logs :: "phone \<Rightarrow> path \<Rightarrow> path \<Rightarrow> int \<Rightarrow> string \<Rightarrow> modem \<Rightarrow> modem" where
  "dump_logs e srcDir destDir maxFileNum logPrefix m =
     fold (\<lambda>name. copy_to e destDir (name, srcDir @ ''/'' @ name)) (dumpLogs (scandir e srcDir) maxFileNum logPrefix) m"

text \<open>The loop that sends the archive: it stops at the end, at an error, and at a short write.\<close>

function send_loop :: "(nat \<Rightarrow> nat option) \<Rightarrow> (nat \<Rightarrow> nat option) \<Rightarrow> nat \<Rightarrow> string \<Rightarrow> wfile \<Rightarrow> wfile" where
  "send_loop rd wr i rest f =
     (let bs = (case rd i of None \<Rightarrow> [] | Some n \<Rightarrow> take (min n BUFSIZE) rest) in
      if bs = [] then f
      else let (r, f) = sys_write wr bs f in
        if r \<noteq> int (length bs) then f else send_loop rd wr (Suc i) (drop (length bs) rest) f)"
  by auto
termination by (relation "measure (\<lambda>(rd, wr, i, rest, f). length rest)") (auto split: option.splits)

declare send_loop.simps [simp del]

text \<open>The entries of the directory; \<open>.\<close> and \<open>..\<close>, which the archive passes over, are left out.\<close>

definition archive_entries :: "phone \<Rightarrow> path \<Rightarrow> modem \<Rightarrow> dir_entry list" where
  "archive_entries e dir m = map (\<lambda>n. let c = the (map_of (all_dir m) n) in
     \<lparr>d_name = n, opens = True, st_size = word_of_nat (length c), content = c, reads = read_answers e (dir @ ''/'' @ n)\<rparr>)
     (readdir e (map fst (all_dir m)))"

definition collect :: "phone \<Rightarrow> path \<Rightarrow> modem \<Rightarrow> modem" where
  "collect e dir m =
     (let diagLogEnabled = getbool e DIAG_MDLOG_PERSIST_PROPERTY False;
          diagLogStarted = getbool e DIAG_MDLOG_STATUS_PROPERTY False;
          m = (if diagLogEnabled \<and> diagLogStarted then SetProperty DIAG_MDLOG_PROPERTY ''false'' m else m);
          m = (if diagLogEnabled then
                 let m = dump_logs e diagLogDir dir (getint e DIAG_MDLOG_NUMBER_BUGREPORT 100) DIAG_LOG_PREFIX m
                 in if diagLogStarted then SetProperty DIAG_MDLOG_PROPERTY ''true'' m else m
               else m);
          m = copy_to e dir (basename diagPoweronLogPath, diagPoweronLogPath) m
      in if \<not> user_build e then
           let m = SetProperty MODEM_EFS_DUMP_PROPERTY ''true'' m;
               m = (if getbool e TCPDUMP_PERSIST_PROPERTY False
                 then dump_logs e tcpdumpLogDir dir (getint e TCPDUMP_NUMBER_BUGREPORT 5) TCPDUMP_LOG_PREFIX m else m);
               m = fold (\<lambda>logFile. copy_to e dir (basename logFile, logFile)) rilAndNetmgrLogs m;
               m = dump_logs e extendedLogDir dir 100 EXTENDED_LOG_PREFIX m
           in SetProperty MODEM_EFS_DUMP_PROPERTY ''false'' m
         else m)"

text \<open>
  The whole thread. \<open>mkdir -p\<close> keeps the files of the directory; the two \<open>rm\<close> at the end take the
  directory and the archive away, or leave what they cannot remove.
\<close>

definition dumpModemThread :: "phone \<Rightarrow> modem \<Rightarrow> modem option" where
  "dumpModemThread e m =
     (let modemLogDir = getprop e MODEM_LOG_LOC_PROPERTY; filePrefix = getprop e MODEM_LOG_PREFIX_PROPERTY in
      if modemLogDir = [] then Some m
      else if filePrefix = [] then Some m
      else
        let modemLogCombined = modemLogDir @ ''/'' @ filePrefix @ ''all.tar'';
            modemLogAllDir = modemLogDir @ ''/modem_log'';
            m = collect e modemLogAllDir m
        in do {
          tar \<leftarrow> createTarFile (write_answers e modemLogCombined)
            (if dest_opens e modemLogCombined then Some (case combined m of None \<Rightarrow> [] | Some s \<Rightarrow> s) else None)
            (if dir_opens e then Some (archive_entries e modemLogAllDir m) else None);
          let m = m\<lparr>combined := (if dir_opens e \<and> dest_opens e modemLogCombined then tar else combined m)\<rparr>;
          let m = (case if archive_opens e then combined m else None of None \<Rightarrow> m
            | Some s \<Rightarrow> m\<lparr>sent := send_loop (read_answers e modemLogCombined) (write_answers e []) 0 s (sent m)\<rparr>);
          Some (m\<lparr>all_dir := filter (\<lambda>(n, _). \<not> removed e (modemLogAllDir @ ''/'' @ n)) (all_dir m),
            combined := (if removed e modemLogCombined then None else combined m)\<rparr>) })"

section \<open>What is collected\<close>

text \<open>The copies in order, each with the name it gets and its source.\<close>

definition logs_of :: "path \<Rightarrow> string list \<Rightarrow> (string \<times> path) list" where
  "logs_of dir = map (\<lambda>n. (n, dir @ ''/'' @ n))"

definition sources :: "phone \<Rightarrow> (string \<times> path) list" where
  "sources e =
     (if getbool e DIAG_MDLOG_PERSIST_PROPERTY False
      then logs_of diagLogDir (dumpLogs (scandir e diagLogDir) (getint e DIAG_MDLOG_NUMBER_BUGREPORT 100) DIAG_LOG_PREFIX) else [])
     @ [(basename diagPoweronLogPath, diagPoweronLogPath)]
     @ (if user_build e then []
        else (if getbool e TCPDUMP_PERSIST_PROPERTY False
              then logs_of tcpdumpLogDir (dumpLogs (scandir e tcpdumpLogDir) (getint e TCPDUMP_NUMBER_BUGREPORT 5) TCPDUMP_LOG_PREFIX)
              else [])
          @ map (\<lambda>p. (basename p, p)) rilAndNetmgrLogs
          @ logs_of extendedLogDir (dumpLogs (scandir e extendedLogDir) 100 EXTENDED_LOG_PREFIX))"

text \<open>The properties that are set: the diagnostic log is stopped and started again, the dump of the file system switched on and off.\<close>

definition prop_changes :: "phone \<Rightarrow> (string \<times> string) list" where
  "prop_changes e =
     (if getbool e DIAG_MDLOG_PERSIST_PROPERTY False \<and> getbool e DIAG_MDLOG_STATUS_PROPERTY False
      then [(DIAG_MDLOG_PROPERTY, ''false''), (DIAG_MDLOG_PROPERTY, ''true'')] else [])
     @ (if user_build e then [] else [(MODEM_EFS_DUMP_PROPERTY, ''true''), (MODEM_EFS_DUMP_PROPERTY, ''false'')])"

definition put_log :: "phone \<Rightarrow> path \<Rightarrow> string \<times> path \<Rightarrow> (string \<times> string) list \<Rightarrow> (string \<times> string) list" where
  "put_log e dir nf d = all_dir (copy_to e dir nf \<lparr>set_props = [], all_dir = d, combined = None, sent = \<lparr>written = [], writes = 0\<rparr>\<rparr>)"

lemma copy_to_put: "copy_to e dir nf m = m\<lparr>all_dir := put_log e dir nf (all_dir m)\<rparr>"
  by (simp add: copy_to_def put_log_def Let_def split_beta split: option.splits)

lemma fold_copy_to: "fold (copy_to e dir) nfs m = m\<lparr>all_dir := fold (put_log e dir) nfs (all_dir m)\<rparr>"
  by (induction nfs arbitrary: m) (simp_all add: copy_to_put)

lemma dump_logs_fold: "dump_logs e src dir k p m = fold (copy_to e dir) (logs_of src (dumpLogs (scandir e src) k p)) m"
  by (simp add: dump_logs_def logs_of_def fold_map comp_def)

lemma fold_ril: "fold (\<lambda>f. copy_to e dir (basename f, f)) ps m = fold (copy_to e dir) (map (\<lambda>p. (basename p, p)) ps) m"
  by (simp add: fold_map comp_def)

lemma collect_eq:
  "collect e dir m = m\<lparr>all_dir := fold (put_log e dir) (sources e) (all_dir m), set_props := set_props m @ prop_changes e\<rparr>"
  unfolding collect_def Let_def dump_logs_fold fold_ril fold_copy_to copy_to_put sources_def prop_changes_def
  by (simp add: SetProperty_def)

section \<open>When nothing fails\<close>

definition phone_ok :: "phone \<Rightarrow> bool" where
  "phone_ok e \<longleftrightarrow> (\<forall>p. progress (read_answers e p) \<and> full (write_answers e p) \<and> dest_opens e p)
     \<and> dir_opens e \<and> archive_opens e \<and> (\<forall>p. removed e p) \<and> getprop e MODEM_LOG_LOC_PROPERTY \<noteq> [] \<and> getprop e MODEM_LOG_PREFIX_PROPERTY \<noteq> []
     \<and> (\<forall>xs. set (readdir e xs) = set xs \<and> (distinct xs \<longrightarrow> distinct (readdir e xs)))"

lemma put_log_ok:
  assumes "phone_ok e" "map_of d n = None"
  shows "put_log e dir (n, src) d = (case src_file e src of None \<Rightarrow> d | Some s \<Rightarrow> AList.update n s d)"
proof (cases "src_file e src")
  case (Some s)
  obtain w where "copy_loop (read_answers e src) (write_answers e (dir @ ''/'' @ n)) 0 s \<lparr>written = [], writes = 0\<rparr>
      = (length s, \<lparr>written = [], writes = 0\<rparr>\<lparr>written := [] @ s, writes := w\<rparr>)"
    using copy_loop_all [of "read_answers e src" "write_answers e (dir @ ''/'' @ n)" 0 s "\<lparr>written = [], writes = 0\<rparr>"] assms(1)
    by (auto simp: phone_ok_def)
  then show ?thesis using assms Some
    by (simp add: put_log_def copy_to_def copyFile_def over_def phone_ok_def)
qed (simp add: put_log_def copy_to_def)

lemma fold_put_log:
  assumes "phone_ok e"
  shows "distinct (map fst nfs) \<Longrightarrow> distinct (map fst d) \<Longrightarrow> set (map fst nfs) \<inter> set (map fst d) = {} \<Longrightarrow>
    distinct (map fst (fold (put_log e dir) nfs d)) \<and>
    set (fold (put_log e dir) nfs d) = set d \<union> {(n, c). \<exists>src. (n, src) \<in> set nfs \<and> src_file e src = Some c}"
proof (induction nfs arbitrary: d)
  case (Cons x nfs)
  obtain n src where x: "x = (n, src)" by (cases x)
  have none: "map_of d n = None" using Cons.prems(3) by (auto simp: x map_of_eq_None_iff)
  let ?d = "case src_file e src of None \<Rightarrow> d | Some s \<Rightarrow> AList.update n s d"
  have put: "put_log e dir x d = ?d" unfolding x by (rule put_log_ok [OF assms none])
  have upd: "AList.update n s d = d @ [(n, s)]" for s
    using none by (induction d) (auto split: if_splits)
  have "distinct (map fst ?d)" "set (map fst nfs) \<inter> set (map fst ?d) = {}"
    using Cons.prems none by (auto simp: x upd map_of_eq_None_iff split: option.split)
  from Cons.IH [OF _ this] Cons.prems(1) show ?case
    unfolding fold_Cons comp_def put by (auto simp: x upd split: option.splits)
qed simp

lemma send_loop_all:
  assumes rd: "progress rd" and wr: "full wr"
  shows "\<exists>w. send_loop rd wr i rest f = f\<lparr>written := written f @ rest, writes := w\<rparr>"
proof (induction rest arbitrary: i f rule: length_induct)
  case (1 rest)
  obtain n where n: "rd i = Some n" "0 < n" using rd by (auto simp: progress_def)
  define bs where "bs = take (min n BUFSIZE) rest"
  have cut: "bs @ drop (length bs) rest = rest" by (simp add: bs_def min_def)
  have b: "(case rd i of None \<Rightarrow> [] | Some n \<Rightarrow> take (min n BUFSIZE) rest) = bs" using n(1) by (simp add: bs_def)
  show ?case
  proof (cases "rest = []")
    case True
    then show ?thesis using n(1) by (intro exI [of _ "writes f"]) (simp add: send_loop.simps)
  next
    case False
    then have bs: "bs \<noteq> []" "length (drop (length bs) rest) < length rest" using n(2) by (auto simp: bs_def BUFSIZE_def)
    let ?f = "f\<lparr>written := written f @ bs, writes := Suc (writes f)\<rparr>"
    obtain w where "send_loop rd wr (Suc i) (drop (length bs) rest) ?f
        = ?f\<lparr>written := written ?f @ drop (length bs) rest, writes := w\<rparr>"
      using 1 bs(2) by blast
    moreover have "length bs \<le> BUFSIZE" by (simp add: bs_def)
    then have "send_loop rd wr i rest f = send_loop rd wr (Suc i) (drop (length bs) rest) ?f"
      unfolding send_loop.simps [of _ _ i rest] Let_def b using bs(1) sys_write_full [OF wr, of bs f] by simp
    ultimately show ?thesis using cut by (intro exI [of _ w]) simp
  qed
qed

section \<open>The whole thread\<close>

text \<open>No name that is collected is hidden.\<close>

lemma dumpLogs_prefix: "n \<in> set (dumpLogs ds k (c # p)) \<Longrightarrow> c_hd n = c"
  by (auto simp: dumpLogs_def dump_loop_spec split: option.splits if_splits dest!: in_set_takeD)

lemma fixed_names: "\<forall>p \<in> set (diagPoweronLogPath # rilAndNetmgrLogs). c_hd (basename p) \<noteq> CHR ''.''"
  by (simp add: diagPoweronLogPath_def rilAndNetmgrLogs_def basename_def)

lemma sources_not_hidden: "(n, src) \<in> set (sources e) \<Longrightarrow> c_hd n \<noteq> CHR ''.''"
  using fixed_names
  by (auto simp: sources_def logs_of_def DIAG_LOG_PREFIX_def TCPDUMP_LOG_PREFIX_def EXTENDED_LOG_PREFIX_def
      dest!: dumpLogs_prefix split: if_splits)

text \<open>What the archive asks of the files: no two of one name, names that fit the header, sizes that fit it.\<close>

definition logs_fit :: "phone \<Rightarrow> bool" where
  "logs_fit e \<longleftrightarrow> distinct (map fst (sources e)) \<and> (\<forall>(n, src) \<in> set (sources e). length n < 100 \<and> NUL \<notin> set n
     \<and> (case src_file e src of None \<Rightarrow> True | Some c \<Rightarrow> length c < 8 ^ 11))"

lemma archive_entries_fit:
  assumes ok: "phone_ok e" and dist: "distinct (map fst (all_dir m))"
    and names: "\<And>n c. (n, c) \<in> set (all_dir m) \<Longrightarrow> c_hd n \<noteq> CHR ''.'' \<and> length n < 100 \<and> NUL \<notin> set n \<and> length c < 8 ^ 11"
  shows "\<forall>x \<in> set (archive_entries e dir m). collected x \<and> entry_ok x"
    and "distinct (map d_name (archive_entries e dir m))"
    and "set (map (\<lambda>x. (d_name x, content x)) (archive_entries e dir m)) = set (all_dir m)"
proof -
  have rd: "set (readdir e (map fst (all_dir m))) = fst ` set (all_dir m)" "distinct (readdir e (map fst (all_dir m)))"
    and "progress (read_answers e p)" for p
    using ok dist by (simp_all add: phone_ok_def)
  have lookup: "(n, c) \<in> set (all_dir m) \<Longrightarrow> map_of (all_dir m) n = Some c" for n c
    using dist by simp
  have small: "(k::nat) < 8 ^ 11 \<Longrightarrow> unat (word_of_nat k :: 64 word) = k" for k
    by (simp add: unsigned_of_nat take_bit_nat_eq_self)
  show "\<forall>x \<in> set (archive_entries e dir m). collected x \<and> entry_ok x"
    using names \<open>\<And>p. progress (read_answers e p)\<close> small
    by (force simp: archive_entries_def rd(1) lookup collected_def entry_ok_def Let_def)
  show "distinct (map d_name (archive_entries e dir m))"
    using rd(2) by (simp add: archive_entries_def Let_def comp_def)
  show "set (map (\<lambda>x. (d_name x, content x)) (archive_entries e dir m)) = set (all_dir m)"
    by (force simp: archive_entries_def rd(1) lookup Let_def)
qed

text \<open>
  C20. When nothing fails (every write is full, every read makes progress, whatever is opened for writing
  opens, the two properties for the place are set, \<open>rm\<close> removes everything), the logs fit the archive
  (different names of less than 100 characters, sizes below 8 GiB), and the directory starts empty with no
  archive from an earlier run: what the thread sends is an archive of exactly the logs that could be
  opened, each once, under its name and with its bytes; the directory and the archive are gone at the end,
  and the diagnostic log and the dump of the modem's file system are switched back.
\<close>

theorem dumpModemThread_archive:
  assumes "phone_ok e" "logs_fit e" "all_dir m = []" "combined m = None" "sent m = \<lparr>written = [], writes = 0\<rparr>"
  shows "\<exists>a w xs. dumpModemThread e m = Some \<lparr>set_props = set_props m @ prop_changes e, all_dir = [], combined = None,
        sent = \<lparr>written = a, writes = w\<rparr>\<rparr>
    \<and> untar a = Some xs \<and> distinct (map fst xs)
    \<and> set xs = {(n, c). \<exists>src. (n, src) \<in> set (sources e) \<and> src_file e src = Some c}"
proof -
  define dir where "dir = getprop e MODEM_LOG_LOC_PROPERTY @ ''/modem_log''"
  define tar where "tar = getprop e MODEM_LOG_LOC_PROPERTY @ ''/'' @ getprop e MODEM_LOG_PREFIX_PROPERTY @ ''all.tar''"
  define m1 where "m1 = collect e dir m"
  let ?xs = "map (\<lambda>x. (d_name x, content x)) (archive_entries e dir m1)"
  have wr: "full (write_answers e p)" and rd: "progress (read_answers e p)" for p
    using assms(1) by (simp_all add: phone_ok_def)
  have logs: "distinct (map fst (all_dir m1))"
      "set (all_dir m1) = {(n, c). \<exists>src. (n, src) \<in> set (sources e) \<and> src_file e src = Some c}"
    using fold_put_log [OF assms(1), of "sources e" "[]" dir] assms(2,3) by (auto simp: m1_def collect_eq logs_fit_def)
  have "c_hd n \<noteq> CHR ''.'' \<and> length n < 100 \<and> NUL \<notin> set n \<and> length c < 8 ^ 11" if "(n, c) \<in> set (all_dir m1)" for n c
    using that assms(2) by (auto simp: logs(2) logs_fit_def dest: sources_not_hidden split: option.splits)
  note fit = archive_entries_fit [OF assms(1) logs(1) this, of dir]
  obtain a w where a: "tar_loop (write_answers e tar) (archive_entries e dir m1) 0 \<lparr>written = [], writes = 0\<rparr>
      = Some \<lparr>written = a, writes = w\<rparr>" "untar a = Some ?xs"
    using tar_loop_all [OF wr, of "archive_entries e dir m1" 0 tar "\<lparr>written = [], writes = 0\<rparr>"] fit(1) by (auto simp: filter_id_conv)
  obtain w' where s: "send_loop (read_answers e tar) (write_answers e []) 0 a \<lparr>written = [], writes = 0\<rparr>
      = \<lparr>written = a, writes = w'\<rparr>"
    using send_loop_all [OF rd wr, of tar "[]" 0 a "\<lparr>written = [], writes = 0\<rparr>"] by auto
  have m1: "set_props m1 = set_props m @ prop_changes e" "combined m1 = None" "sent m1 = \<lparr>written = [], writes = 0\<rparr>"
    using assms(4,5) by (simp_all add: m1_def collect_eq)
  have "getprop e MODEM_LOG_LOC_PROPERTY @ CHR ''/'' # getprop e MODEM_LOG_PREFIX_PROPERTY @ ''all.tar'' = tar"
    by (simp add: tar_def)
  then have "dumpModemThread e m = Some (m1\<lparr>sent := \<lparr>written = a, writes = w'\<rparr>, all_dir := [], combined := None\<rparr>)"
    using assms(1) a(1) s m1
    by (simp add: dumpModemThread_def createTarFile_def over_def phone_ok_def Let_def flip: dir_def m1_def)
  moreover have "distinct (map fst ?xs)" using fit(2) by (simp add: comp_def)
  ultimately show ?thesis using fit(3) a(2) logs(2) m1(1) by (intro exI [of _ a] exI [of _ w'] exI [of _ ?xs]) simp
qed

text \<open>A user build with two diagnostic logs, of which one may be copied.\<close>

definition example_phone :: phone where
  "example_phone = \<lparr>getprop = (\<lambda>_. ''m''), getbool = (\<lambda>_ _. True), getint = (\<lambda>_ _. 1), user_build = True,
     src_file = (\<lambda>p. if p = diagLogDir @ ''/diag_log_2'' then Some ''two'' else None),
     scandir = (\<lambda>_. Some [''diag_log_1'', ''diag_log_2'']), dest_opens = (\<lambda>_. True), dir_opens = True, archive_opens = True,
     readdir = id, removed = (\<lambda>_. True), read_answers = (\<lambda>_ _. Some 2), write_answers = (\<lambda>_ _. Some BUFSIZE)\<rparr>"

lemma dumpModemThread_archive_witness:
  "\<exists>a w xs. dumpModemThread example_phone \<lparr>set_props = [], all_dir = [], combined = None, sent = \<lparr>written = [], writes = 0\<rparr>\<rparr>
      = Some \<lparr>set_props = [(DIAG_MDLOG_PROPERTY, ''false''), (DIAG_MDLOG_PROPERTY, ''true'')], all_dir = [], combined = None,
          sent = \<lparr>written = a, writes = w\<rparr>\<rparr>
    \<and> untar a = Some xs \<and> xs = [(''diag_log_2'', ''two'')]"
proof -
  have src: "sources example_phone = [(''diag_log_2'', diagLogDir @ ''/diag_log_2''), (''diag_poweron_log.qmdl'', diagPoweronLogPath)]"
    by (simp add: sources_def example_phone_def logs_of_def dumpLogs_def DIAG_LOG_PREFIX_def basename_def diagPoweronLogPath_def numeral_eq_Suc)
  have ok: "phone_ok example_phone" by (auto simp: phone_ok_def example_phone_def progress_def full_def)
  have contents: "src_file example_phone diagPoweronLogPath = None" "src_file example_phone (diagLogDir @ ''/diag_log_2'') = Some ''two''"
    by (simp_all add: example_phone_def diagPoweronLogPath_def diagLogDir_def)
  have fit: "logs_fit example_phone" by (simp add: logs_fit_def src contents)
  have changes: "prop_changes example_phone = [(DIAG_MDLOG_PROPERTY, ''false''), (DIAG_MDLOG_PROPERTY, ''true'')]"
    by (simp add: prop_changes_def example_phone_def)
  have one: "{(n, c). \<exists>s. (n, s) \<in> set (sources example_phone) \<and> src_file example_phone s = Some c} = {(''diag_log_2'', ''two'')}"
    by (auto simp: src contents)
  have single: "xs = [x]" if "distinct (map fst xs)" "set xs = {x}" for xs and x :: "string \<times> string"
    using that by (cases xs; cases "tl xs") auto
  show ?thesis
    using dumpModemThread_archive [OF ok fit, of "\<lparr>set_props = [], all_dir = [], combined = None, sent = \<lparr>written = [], writes = 0\<rparr>\<rparr>"]
    unfolding one changes by (auto dest!: single)
qed

end
