(* ===== verification/Usb_Gadget.thy ===== *)
theory Usb_Gadget
  imports C_Prelude Decimal
begin

text \<open>
  The USB gadget service (\<open>usb/UsbGadget.cpp\<close>): tearing a gadget down, choosing its identifiers,
  linking its functions, and the thread that binds it once the endpoints of its functions exist.
  The bits of the functions, the values of the properties, the calls that fail and the schedule of
  the thread are arguments. Between any two system calls of the service the thread may handle any
  number of events. Sleeping and log messages are left out.
\<close>

section \<open>State\<close>

datatype Status = SUCCESS | ERROR | FUNCTIONS_APPLIED | FUNCTIONS_NOT_APPLIED | CONFIGURATION_NOT_SUPPORTED

text \<open>\<open>GadgetFunction\<close> of the interface\<close>

record gadget_function =
  NONE :: "64 word"
  ADB :: "64 word"
  ACCESSORY :: "64 word"
  MTP :: "64 word"
  MIDI :: "64 word"
  PTP :: "64 word"
  RNDIS :: "64 word"
  AUDIO_SOURCE :: "64 word"

text \<open>The attribute files of the gadget.\<close>

datatype gpath = PULLUP_PATH | VENDOR_ID_PATH | PRODUCT_ID_PATH | DEVICE_CLASS_PATH | DEVICE_SUB_CLASS_PATH
  | DEVICE_PROTOCOL_PATH | DESC_USE_PATH

definition GADGET_NAME :: string where "GADGET_NAME = ''a600000.dwc3''"
definition FUNCTIONS_PATH :: string where "FUNCTIONS_PATH = ''/config/usb_gadget/g1/functions/''"
definition FUNCTION_NAME :: string where "FUNCTION_NAME = ''function''"
definition BUILD_TYPE :: string where "BUILD_TYPE = ''ro.build.type''"
definition PERSISTENT_BOOT_MODE :: string where "PERSISTENT_BOOT_MODE = ''ro.bootmode''"
definition PERSISTENT_VENDOR_CONFIG :: string where "PERSISTENT_VENDOR_CONFIG = ''persist.vendor.usb.usbradio.config''"
definition VENDOR_CONFIG :: string where "VENDOR_CONFIG = ''vendor.usb.config''"

text \<open>
  The local state of the thread; \<open>begun\<close>: past the check before its loop; \<open>bound\<close>: it has written
  the controller's name and waits for the lock to say so.
\<close>

record monitor_thread =
  begun :: bool
  writeUdc :: bool
  bound :: bool

text \<open>
  The kernel's files, the properties (\<open>''''\<close> when not set), the members of the object, the running
  thread, what the callback was told, and the number of system calls made.
\<close>

record UsbGadget =
  attr :: "gpath \<Rightarrow> string"
  config_dir :: "(string \<times> string) list"
  property :: "string \<Rightarrow> string"
  mCurrentUsbFunctions :: "64 word"
  mCurrentUsbFunctionsApplied :: bool
  mMonitorCreated :: bool
  mEndpointList :: "string list"
  mFds :: bool
  gadgetPullup :: bool
  mMonitor :: "monitor_thread option"
  notified :: "(64 word \<times> Status) list"
  calls :: nat

text \<open>
  An event of the thread: which files \<open>access\<close> finds, and whether the write to the controller is
  taken. In the environment: whether call \<open>n\<close> of the service succeeds, the events handled just
  before it, and those handled while the service waits for the gadget to be bound.
\<close>

type_synonym mevent = "(string \<Rightarrow> bool) \<times> bool"

record genv =
  ok :: "nat \<Rightarrow> bool"
  sched :: "nat \<Rightarrow> mevent list"
  wait_events :: "mevent list"

section \<open>The thread\<close>

text \<open>The write that binds the gadget; and what follows it under the lock.\<close>

definition pull_up :: "bool \<Rightarrow> monitor_thread \<Rightarrow> UsbGadget \<Rightarrow> UsbGadget" where
  "pull_up wok m g =
     (if wok then g\<lparr>attr := (attr g)(PULLUP_PATH := GADGET_NAME), mMonitor := Some (m\<lparr>bound := True\<rparr>)\<rparr>
      else g\<lparr>mMonitor := Some m\<rparr>)"

definition publish :: "monitor_thread \<Rightarrow> UsbGadget \<Rightarrow> UsbGadget" where
  "publish m g = g\<lparr>mCurrentUsbFunctionsApplied := True, gadgetPullup := True,
     mMonitor := Some (m\<lparr>writeUdc := False, bound := False\<rparr>)\<rparr>"

text \<open>The thread runs on: to the end of a pull-up, the check before the loop, or one event of the loop.\<close>

definition monitorFfs_step :: "mevent \<Rightarrow> UsbGadget \<Rightarrow> UsbGadget" where
  "monitorFfs_step ev g =
     (case mMonitor g of
        None \<Rightarrow> g
      | Some m \<Rightarrow>
          let present = list_all (fst ev) (mEndpointList g) in
          if bound m then publish m g
          else if \<not> begun m then
            if present then pull_up (snd ev) (m\<lparr>begun := True\<rparr>) g else g\<lparr>mMonitor := Some (m\<lparr>begun := True\<rparr>)\<rparr>
          else if \<not> present \<and> \<not> writeUdc m then g\<lparr>mMonitor := Some (m\<lparr>writeUdc := True\<rparr>)\<rparr>
          else if present \<and> writeUdc m then pull_up (snd ev) m g
          else g)"

definition monitorFfs :: "mevent list \<Rightarrow> UsbGadget \<Rightarrow> UsbGadget" where
  "monitorFfs evs g = fold monitorFfs_step evs g"

section \<open>System calls\<close>

definition sys :: "genv \<Rightarrow> UsbGadget \<Rightarrow> bool \<times> UsbGadget" where
  "sys e g = (ok e (calls g), (monitorFfs (sched e (calls g)) g)\<lparr>calls := Suc (calls g)\<rparr>)"

definition WriteStringToFile :: "genv \<Rightarrow> string \<Rightarrow> gpath \<Rightarrow> UsbGadget \<Rightarrow> bool \<times> UsbGadget" where
  "WriteStringToFile e s p g =
     (let (r, g) = sys e g in (r, if r then g\<lparr>attr := (attr g)(p := s)\<rparr> else g))"

text \<open>Writes and calls one after the other, up to the first that fails.\<close>

fun write_all :: "genv \<Rightarrow> (string \<times> gpath) list \<Rightarrow> UsbGadget \<Rightarrow> bool \<times> UsbGadget" where
  "write_all e [] g = (True, g)"
| "write_all e ((s, p) # ws) g =
     (let (r, g) = WriteStringToFile e s p g in if r then write_all e ws g else (False, g))"

fun sys_all :: "genv \<Rightarrow> nat \<Rightarrow> UsbGadget \<Rightarrow> bool \<times> UsbGadget" where
  "sys_all e 0 g = (True, g)"
| "sys_all e (Suc n) g = (let (r, g) = sys e g in if r then sys_all e n g else (False, g))"

fun unlink_loop :: "genv \<Rightarrow> string list \<Rightarrow> UsbGadget \<Rightarrow> bool \<times> UsbGadget" where
  "unlink_loop e [] g = (True, g)"
| "unlink_loop e (d_name # ds) g =
     (if \<not> strstr d_name FUNCTION_NAME then unlink_loop e ds g
      else let (r, g) = sys e g in
           if r then unlink_loop e ds (g\<lparr>config_dir := filter (\<lambda>(n, _). n \<noteq> d_name) (config_dir g)\<rparr>)
           else (False, g))"

text \<open>\<open>True\<close>: the function returned 0.\<close>

definition unlinkFunctions :: "genv \<Rightarrow> UsbGadget \<Rightarrow> bool \<times> UsbGadget" where
  "unlinkFunctions e g =
     (let (r, g) = sys e g in if r then unlink_loop e (map fst (config_dir g)) g else (False, g))"

text \<open>\<open>symlink\<close> fails when the name is taken.\<close>

definition linkFunction :: "genv \<Rightarrow> string \<Rightarrow> nat \<Rightarrow> UsbGadget \<Rightarrow> bool \<times> UsbGadget" where
  "linkFunction e function index g =
     (let (r, g) = sys e g; link = FUNCTION_NAME @ dec index in
      if r \<and> link \<notin> fst ` set (config_dir g)
      then (True, g\<lparr>config_dir := config_dir g @ [(link, FUNCTIONS_PATH @ function)]\<rparr>)
      else (False, g))"

section \<open>Identifiers\<close>

definition setVidPid :: "genv \<Rightarrow> string \<Rightarrow> string \<Rightarrow> UsbGadget \<Rightarrow> Status \<times> UsbGadget" where
  "setVidPid e vid pid g =
     (let (r, g) = write_all e [(vid, VENDOR_ID_PATH), (pid, PRODUCT_ID_PATH)] g in (if r then SUCCESS else ERROR, g))"

definition getVendorFunctions :: "UsbGadget \<Rightarrow> string \<times> UsbGadget" where
  "getVendorFunctions g =
     (if property g BUILD_TYPE = ''user'' then (''user'', g)
      else
        let bootMode = property g PERSISTENT_BOOT_MODE;
            persistVendorFunctions = property g PERSISTENT_VENDOR_CONFIG;
            vendorFunctions = property g VENDOR_CONFIG
        in if vendorFunctions \<noteq> [] then (vendorFunctions, g)
           else if bootMode = ''usbradio'' then
             let ret = (if persistVendorFunctions \<noteq> [] then persistVendorFunctions else ''diag'')
             in (ret, g\<lparr>property := (property g)(VENDOR_CONFIG := ret)\<rparr>)
           else ([], g))"

text \<open>The switch of \<open>validateAndSetVidPid\<close>: the identifiers, or \<open>CONFIGURATION_NOT_SUPPORTED\<close>.\<close>

definition vid_pid :: "gadget_function \<Rightarrow> 64 word \<Rightarrow> string \<Rightarrow> (string \<times> string) option" where
  "vid_pid gf functions vendorFunctions =
     (let plain = (vendorFunctions = ''user'' \<or> vendorFunctions = []);
          google = (\<lambda>pid. if plain then Some (''0x18d1'', pid) else None) in
      if functions = MTP gf then
        if vendorFunctions = ''diag'' then Some (''0x05C6'', ''0x901B'') else google ''0x4ee1''
      else if functions = ADB gf OR MTP gf then
        if vendorFunctions = ''diag'' then Some (''0x05C6'', ''0x903A'') else google ''0x4ee2''
      else if functions = RNDIS gf then
        if vendorFunctions = ''diag'' then Some (''0x05C6'', ''0x902C'')
        else if vendorFunctions = ''serial_cdev,diag'' then Some (''0x05C6'', ''0x90B5'') else google ''0x4ee3''
      else if functions = ADB gf OR RNDIS gf then
        if vendorFunctions = ''diag'' then Some (''0x05C6'', ''0x902D'')
        else if vendorFunctions = ''serial_cdev,diag'' then Some (''0x05C6'', ''0x90B6'') else google ''0x4ee4''
      else if functions = PTP gf then google ''0x4ee5''
      else if functions = ADB gf OR PTP gf then google ''0x4ee6''
      else if functions = ADB gf then
        if vendorFunctions = ''diag'' then Some (''0x05C6'', ''0x901D'')
        else if vendorFunctions = ''diag,serial_cdev,rmnet_gsi'' then Some (''0x05C6'', ''0x9091'')
        else if vendorFunctions = ''diag,serial_cdev'' then Some (''0x05C6'', ''0x901F'') else google ''0x4ee7''
      else if functions = MIDI gf then google ''0x4ee8''
      else if functions = ADB gf OR MIDI gf then google ''0x4ee9''
      else if functions = ACCESSORY gf then Some (''0x18d1'', ''0x2d00'')
      else if functions = ADB gf OR ACCESSORY gf then Some (''0x18d1'', ''0x2d01'')
      else if functions = AUDIO_SOURCE gf then Some (''0x18d1'', ''0x2d02'')
      else if functions = ADB gf OR AUDIO_SOURCE gf then Some (''0x18d1'', ''0x2d03'')
      else if functions = ACCESSORY gf OR AUDIO_SOURCE gf then Some (''0x18d1'', ''0x2d04'')
      else if functions = ADB gf OR ACCESSORY gf OR AUDIO_SOURCE gf then Some (''0x18d1'', ''0x2d05'')
      else None)"

definition validateAndSetVidPid :: "genv \<Rightarrow> gadget_function \<Rightarrow> 64 word \<Rightarrow> UsbGadget \<Rightarrow> Status \<times> UsbGadget" where
  "validateAndSetVidPid e gf functions g =
     (let (vendorFunctions, g) = getVendorFunctions g in
      case vid_pid gf functions vendorFunctions of
        None \<Rightarrow> (CONFIGURATION_NOT_SUPPORTED, g)
      | Some (vid, pid) \<Rightarrow> setVidPid e vid pid g)"

section \<open>Setting up the functions\<close>

text \<open>The variables of \<open>setupFunctions\<close>: \<open>i\<close>, \<open>ffsEnabled\<close>, the object. \<open>Inl\<close>: \<open>return Status::ERROR\<close>.\<close>

type_synonym setup_state = "nat \<times> bool \<times> UsbGadget"
type_synonym setup_step = "setup_state \<Rightarrow> UsbGadget + setup_state"

fun run_steps :: "setup_step list \<Rightarrow> setup_step" where
  "run_steps [] s = Inr s"
| "run_steps (f # fs) s = (case f s of Inl g \<Rightarrow> Inl g | Inr s' \<Rightarrow> run_steps fs s')"

definition link_step :: "genv \<Rightarrow> string \<Rightarrow> setup_step" where
  "link_step e function = (\<lambda>(i, ffs, g).
     let (r, g) = linkFunction e function i g in if r then Inr (i + 1, ffs, g) else Inl g)"

definition desc_step :: "genv \<Rightarrow> setup_step" where
  "desc_step e = (\<lambda>(i, ffs, g).
     let (r, g) = WriteStringToFile e ''1'' DESC_USE_PATH g in if r then Inr (i, ffs, g) else Inl g)"

definition watch_step :: "genv \<Rightarrow> setup_step" where
  "watch_step e = (\<lambda>(i, ffs, g). let (r, g) = sys e g in if r then Inr (i, ffs, g) else Inl g)"

definition endpoints_step :: "string list \<Rightarrow> setup_step" where
  "endpoints_step eps = (\<lambda>(i, ffs, g). Inr (i, True, g\<lparr>mEndpointList := mEndpointList g @ eps\<rparr>))"

text \<open>A function that user space implements: MTP, PTP, ADB.\<close>

definition ffs_steps :: "genv \<Rightarrow> string \<Rightarrow> string list \<Rightarrow> setup_step" where
  "ffs_steps e function eps = run_steps [desc_step e, watch_step e, link_step e function, endpoints_step eps]"

definition when_step :: "bool \<Rightarrow> setup_step \<Rightarrow> setup_step" where
  "when_step b f s = (if b then f s else Inr s)"

definition mtp_endpoints :: "string list" where
  "mtp_endpoints = [''/dev/usb-ffs/mtp/ep1'', ''/dev/usb-ffs/mtp/ep2'', ''/dev/usb-ffs/mtp/ep3'']"
definition ptp_endpoints :: "string list" where
  "ptp_endpoints = [''/dev/usb-ffs/ptp/ep1'', ''/dev/usb-ffs/ptp/ep2'', ''/dev/usb-ffs/ptp/ep3'']"
definition adb_endpoints :: "string list" where
  "adb_endpoints = [''/dev/usb-ffs/adb/ep1'', ''/dev/usb-ffs/adb/ep2'']"

text \<open>\<open>strtok (s, ",")\<close> until it returns \<open>NULL\<close>\<close>

fun split_comma :: "string \<Rightarrow> string \<Rightarrow> string list" where
  "split_comma acc [] = [acc]"
| "split_comma acc (c # s) = (if c = CHR '','' then acc # split_comma [] s else split_comma (acc @ [c]) s)"

definition strtok_all :: "string \<Rightarrow> string list" where
  "strtok_all s = filter (\<lambda>t. t \<noteq> []) (split_comma [] s)"

definition vendor_steps :: "genv \<Rightarrow> string \<Rightarrow> setup_step" where
  "vendor_steps e function = run_steps
     [when_step (function = ''diag'') (link_step e ''diag.diag''),
      when_step (function = ''serial_cdev'') (link_step e ''cser.dun.0''),
      when_step (function = ''rmnet_gsi'') (link_step e ''gsi.rmnet'')]"

definition getVendor_step :: "genv \<Rightarrow> setup_step" where
  "getVendor_step e = (\<lambda>(i, ffs, g).
     let (vendorFunctions, g) = getVendorFunctions g
     in run_steps (map (vendor_steps e) (strtok_all vendorFunctions)) (i, ffs, g))"

abbreviation has :: "64 word \<Rightarrow> 64 word \<Rightarrow> bool" where
  "has functions f \<equiv> functions AND f \<noteq> 0"

definition setup_steps :: "genv \<Rightarrow> gadget_function \<Rightarrow> 64 word \<Rightarrow> setup_step" where
  "setup_steps e gf functions = run_steps
     [\<lambda>s. if has functions (MTP gf) then ffs_steps e ''ffs.mtp'' mtp_endpoints s
          else when_step (has functions (PTP gf)) (ffs_steps e ''ffs.ptp'' ptp_endpoints) s,
      when_step (has functions (MIDI gf)) (link_step e ''midi.gs5''),
      when_step (has functions (ACCESSORY gf)) (link_step e ''accessory.gs2''),
      when_step (has functions (AUDIO_SOURCE gf)) (link_step e ''audio_source.gs3''),
      when_step (has functions (RNDIS gf)) (link_step e ''gsi.rndis''),
      getVendor_step e,
      when_step (has functions (ADB gf)) (ffs_steps e ''ffs.adb'' adb_endpoints)]"

definition tell :: "bool \<Rightarrow> 64 word \<Rightarrow> Status \<Rightarrow> UsbGadget \<Rightarrow> UsbGadget" where
  "tell callback functions st g = (if callback then g\<lparr>notified := notified g @ [(functions, st)]\<rparr> else g)"

text \<open>The descriptors of the thread: \<open>eventfd\<close>, \<open>epoll_create1\<close>, two times \<open>epoll_ctl\<close>.\<close>

definition monitor_fds :: "genv \<Rightarrow> UsbGadget \<Rightarrow> bool \<times> UsbGadget" where
  "monitor_fds e g = sys_all e 4 g"

definition setupFunctions :: "genv \<Rightarrow> gadget_function \<Rightarrow> 64 word \<Rightarrow> bool \<Rightarrow> UsbGadget \<Rightarrow> Status \<times> UsbGadget" where
  "setupFunctions e gf functions callback g =
     (let (r, g) = sys e g in
      if \<not> r then (ERROR, g)
      else case setup_steps e gf functions (0, False, g) of
        Inl g \<Rightarrow> (ERROR, g)
      | Inr (i, ffsEnabled, g) \<Rightarrow>
          if \<not> ffsEnabled then
            let (r, g) = WriteStringToFile e GADGET_NAME PULLUP_PATH g in
            if \<not> r then (ERROR, g)
            else (SUCCESS, tell callback functions SUCCESS (g\<lparr>mCurrentUsbFunctionsApplied := True\<rparr>))
          else
            let (r, g) = monitor_fds e g in
            if \<not> r then (ERROR, g)
            else
              let g = g\<lparr>mFds := True, gadgetPullup := False, mMonitor := Some \<lparr>begun = False, writeUdc = True, bound = False\<rparr>,
                        mMonitorCreated := True\<rparr>
              in if callback then
                   let g = monitorFfs (wait_events e) g
                   in (SUCCESS, tell True functions (if gadgetPullup g then SUCCESS else ERROR) g)
                 else (SUCCESS, g))"

section \<open>The operations\<close>

definition getCurrentUsbFunctions :: "UsbGadget \<Rightarrow> 64 word \<times> Status" where
  "getCurrentUsbFunctions g =
     (mCurrentUsbFunctions g, if mCurrentUsbFunctionsApplied g then FUNCTIONS_APPLIED else FUNCTIONS_NOT_APPLIED)"

text \<open>
  The thread ends a pull-up it has begun, reads the value 100 and ends; \<open>join\<close> waits for it. The write that wakes it up cannot
  fail, nobody else writes to the counter.
\<close>

definition stop_monitor :: "genv \<Rightarrow> UsbGadget \<Rightarrow> UsbGadget" where
  "stop_monitor e g =
     (if mMonitorCreated g then
        let (_, g) = sys e g;
            g = (case mMonitor g of Some m \<Rightarrow> if bound m then publish m g else g | None \<Rightarrow> g)
        in g\<lparr>mMonitor := None, mMonitorCreated := False\<rparr>
      else g)"

definition tearDownGadget :: "genv \<Rightarrow> UsbGadget \<Rightarrow> Status \<times> UsbGadget" where
  "tearDownGadget e g =
     (let (_, g) = WriteStringToFile e ''none'' PULLUP_PATH g;
          (r, g) = write_all e [(''0'', DEVICE_CLASS_PATH), (''0'', DEVICE_SUB_CLASS_PATH),
                                (''0'', DEVICE_PROTOCOL_PATH), (''0'', DESC_USE_PATH)] g in
      if \<not> r then (ERROR, g)
      else let (r, g) = unlinkFunctions e g in
      if \<not> r then (ERROR, g)
      else (SUCCESS, (stop_monitor e g)\<lparr>mFds := False, mEndpointList := []\<rparr>))"

definition gadget_reset :: "genv \<Rightarrow> UsbGadget \<Rightarrow> Status \<times> UsbGadget" where
  "gadget_reset e g =
     (let (r, g) = WriteStringToFile e ''none'' PULLUP_PATH g in (if r then SUCCESS else ERROR, g))"

definition setCurrentUsbFunctions :: "genv \<Rightarrow> gadget_function \<Rightarrow> 64 word \<Rightarrow> bool \<Rightarrow> UsbGadget \<Rightarrow> UsbGadget" where
  "setCurrentUsbFunctions e gf functions callback g =
     (let g = g\<lparr>mCurrentUsbFunctions := functions, mCurrentUsbFunctionsApplied := False\<rparr>;
          (status, g) = tearDownGadget e g in
      if status \<noteq> SUCCESS then tell callback functions status g
      else if functions = NONE gf then tell callback functions SUCCESS g
      else let (status, g) = validateAndSetVidPid e gf functions g in
      if status \<noteq> SUCCESS then tell callback functions status g
      else let (status, g) = setupFunctions e gf functions callback g in
      if status \<noteq> SUCCESS then tell callback functions status g
      else g)"

section \<open>What the thread may change\<close>

lemma publish_sel [simp]:
  "attr (publish m g) = attr g" "config_dir (publish m g) = config_dir g" "property (publish m g) = property g"
  "notified (publish m g) = notified g" "mEndpointList (publish m g) = mEndpointList g"
  "mMonitorCreated (publish m g) = mMonitorCreated g" "calls (publish m g) = calls g"
  "mCurrentUsbFunctions (publish m g) = mCurrentUsbFunctions g" "gadgetPullup (publish m g)"
  "mMonitor (publish m g) = Some (m\<lparr>writeUdc := False, bound := False\<rparr>)"
  by (simp_all add: publish_def)

definition same_files :: "UsbGadget \<Rightarrow> UsbGadget \<Rightarrow> bool" where
  "same_files g g' \<longleftrightarrow> (\<forall>p. p \<noteq> PULLUP_PATH \<longrightarrow> attr g' p = attr g p) \<and> config_dir g' = config_dir g
     \<and> property g' = property g \<and> notified g' = notified g \<and> mEndpointList g' = mEndpointList g
     \<and> mMonitorCreated g' = mMonitorCreated g \<and> (mMonitor g' = None) = (mMonitor g = None)
     \<and> calls g' = calls g \<and> mCurrentUsbFunctions g' = mCurrentUsbFunctions g"

lemma monitor_step_same: "same_files g (monitorFfs_step ev g)"
  by (auto simp: same_files_def monitorFfs_step_def pull_up_def Let_def split: option.split)

lemma monitor_same: "same_files g (monitorFfs evs g)"
proof (induction evs arbitrary: g)
  case Nil
  then show ?case by (simp add: monitorFfs_def same_files_def)
next
  case (Cons ev evs)
  have "monitorFfs (ev # evs) g = monitorFfs evs (monitorFfs_step ev g)" by (simp add: monitorFfs_def)
  then show ?case using Cons [of "monitorFfs_step ev g"] monitor_step_same [of g ev] by (simp add: same_files_def)
qed

lemma monitor_none [simp]: "mMonitor g = None \<Longrightarrow> monitorFfs evs g = g"
  by (induction evs) (simp_all add: monitorFfs_def monitorFfs_step_def)

lemma sys_quiet: "mMonitor g = None \<Longrightarrow> sys e g = (ok e (calls g), g\<lparr>calls := Suc (calls g)\<rparr>)"
  by (simp add: sys_def)

lemma sys_same:
  assumes "sys e g = (r, g')"
  shows "\<forall>p. p \<noteq> PULLUP_PATH \<longrightarrow> attr g' p = attr g p" "config_dir g' = config_dir g" "property g' = property g"
    "notified g' = notified g" "mEndpointList g' = mEndpointList g" "mMonitorCreated g' = mMonitorCreated g"
    "(mMonitor g' = None) = (mMonitor g = None)" "mCurrentUsbFunctions g' = mCurrentUsbFunctions g"
    "r = ok e (calls g)"
proof -
  have g': "g' = (monitorFfs (sched e (calls g)) g)\<lparr>calls := Suc (calls g)\<rparr>" "r = ok e (calls g)"
    using assms by (simp_all add: sys_def)
  show "\<forall>p. p \<noteq> PULLUP_PATH \<longrightarrow> attr g' p = attr g p" "config_dir g' = config_dir g" "property g' = property g"
    "notified g' = notified g" "mEndpointList g' = mEndpointList g" "mMonitorCreated g' = mMonitorCreated g"
    "(mMonitor g' = None) = (mMonitor g = None)" "mCurrentUsbFunctions g' = mCurrentUsbFunctions g"
    "r = ok e (calls g)"
    using monitor_same [of g "sched e (calls g)"] unfolding same_files_def g' by simp_all
qed

lemma WriteStringToFile_same:
  assumes "WriteStringToFile e s p g = (r, g')"
  shows "config_dir g' = config_dir g" "property g' = property g"
    "notified g' = notified g" "mEndpointList g' = mEndpointList g" "mMonitorCreated g' = mMonitorCreated g"
    "(mMonitor g' = None) = (mMonitor g = None)" "mCurrentUsbFunctions g' = mCurrentUsbFunctions g"
    "r = ok e (calls g)" "\<forall>q. q \<noteq> p \<longrightarrow> q \<noteq> PULLUP_PATH \<longrightarrow> attr g' q = attr g q"
proof -
  obtain r1 g1 where s: "sys e g = (r1, g1)" by (cases "sys e g")
  have "WriteStringToFile e s p g = (r1, if r1 then g1\<lparr>attr := (attr g1)(p := s)\<rparr> else g1)"
    by (simp add: WriteStringToFile_def s)
  then have g': "r = r1" "g' = (if r1 then g1\<lparr>attr := (attr g1)(p := s)\<rparr> else g1)"
    unfolding assms prod.inject by (rule conjunct1, rule conjunct2)
  show "config_dir g' = config_dir g" "property g' = property g"
    "notified g' = notified g" "mEndpointList g' = mEndpointList g" "mMonitorCreated g' = mMonitorCreated g"
    "(mMonitor g' = None) = (mMonitor g = None)" "mCurrentUsbFunctions g' = mCurrentUsbFunctions g"
    "r = ok e (calls g)" "\<forall>q. q \<noteq> p \<longrightarrow> q \<noteq> PULLUP_PATH \<longrightarrow> attr g' q = attr g q"
    using sys_same [OF s] unfolding g' by simp_all
qed

section \<open>Tearing down\<close>

lemma write_all_same:
  "write_all e ws g = (r, g') \<Longrightarrow> config_dir g' = config_dir g \<and> property g' = property g
    \<and> notified g' = notified g \<and> mEndpointList g' = mEndpointList g \<and> mMonitorCreated g' = mMonitorCreated g
    \<and> (mMonitor g' = None) = (mMonitor g = None) \<and> mCurrentUsbFunctions g' = mCurrentUsbFunctions g
    \<and> ((\<forall>n. ok e n) \<longrightarrow> r)"
proof (induction ws arbitrary: g)
  case (Cons w ws)
  obtain str p where w: "w = (str, p)" by (cases w)
  obtain r1 g1 where s: "WriteStringToFile e str p g = (r1, g1)" by (cases "WriteStringToFile e str p g")
  show ?case
    using Cons WriteStringToFile_same [OF s] by (cases r1) (auto simp: w s)
qed auto

lemma unlink_loop_spec:
  "unlink_loop e ns g = (r, g') \<Longrightarrow>
   (r \<longrightarrow> config_dir g' = filter (\<lambda>(n, _). \<not> (strstr n FUNCTION_NAME \<and> n \<in> set ns)) (config_dir g))
   \<and> mMonitorCreated g' = mMonitorCreated g \<and> (mMonitor g' = None) = (mMonitor g = None)
   \<and> notified g' = notified g \<and> property g' = property g \<and> mCurrentUsbFunctions g' = mCurrentUsbFunctions g
   \<and> ((\<forall>n. ok e n) \<longrightarrow> r)"
proof (induction ns arbitrary: g)
  case Nil
  then show ?case by auto
next
  case (Cons n ns)
  show ?case
  proof (cases "strstr n FUNCTION_NAME")
    case False
    then have "unlink_loop e ns g = (r, g')" using Cons.prems by simp
    from Cons.IH [OF this] show ?thesis using False by (auto intro!: filter_cong)
  next
    case True
    obtain r1 g1 where s: "sys e g = (r1, g1)" by (cases "sys e g")
    note S = sys_same [OF s]
    show ?thesis
    proof (cases r1)
      case False
      then show ?thesis using Cons.prems True s S by auto
    next
      case r1: True
      let ?g = "g1\<lparr>config_dir := filter (\<lambda>(m, _). m \<noteq> n) (config_dir g1)\<rparr>"
      have "unlink_loop e ns ?g = (r, g')" using Cons.prems True s r1 by simp
      from Cons.IH [OF this] show ?thesis
        using S True by (auto intro!: filter_cong)
    qed
  qed
qed

definition monitor_known :: "UsbGadget \<Rightarrow> bool" where
  "monitor_known g \<longleftrightarrow> (mMonitor g = None) = (\<not> mMonitorCreated g)"

lemma stop_monitor_spec:
  assumes "monitor_known g"
  shows "mMonitor (stop_monitor e g) = None" "\<not> mMonitorCreated (stop_monitor e g)"
    "config_dir (stop_monitor e g) = config_dir g" "notified (stop_monitor e g) = notified g"
    "property (stop_monitor e g) = property g" "mCurrentUsbFunctions (stop_monitor e g) = mCurrentUsbFunctions g"
proof -
  obtain r1 g1 where s: "sys e g = (r1, g1)" by (cases "sys e g")
  note S = sys_same [OF s]
  show "mMonitor (stop_monitor e g) = None" "\<not> mMonitorCreated (stop_monitor e g)"
    "config_dir (stop_monitor e g) = config_dir g" "notified (stop_monitor e g) = notified g"
    "property (stop_monitor e g) = property g" "mCurrentUsbFunctions (stop_monitor e g) = mCurrentUsbFunctions g"
    using assms S by (simp_all add: stop_monitor_def s monitor_known_def split: option.splits)
qed

text \<open>No function is linked.\<close>

definition unlinked :: "UsbGadget \<Rightarrow> bool" where
  "unlinked g \<longleftrightarrow> (\<forall>x\<in>set (config_dir g). \<not> strstr (fst x) FUNCTION_NAME)"

lemma tearDownGadget_spec:
  assumes "monitor_known g" "tearDownGadget e g = (st, g')"
  shows "st = SUCCESS \<or> st = ERROR" "notified g' = notified g" "property g' = property g"
    "mCurrentUsbFunctions g' = mCurrentUsbFunctions g" "monitor_known g'" "(\<forall>n. ok e n) \<Longrightarrow> st = SUCCESS"
    "st = SUCCESS \<Longrightarrow> mMonitor g' = None \<and> unlinked g' \<and> mEndpointList g' = []
       \<and> config_dir g' = filter (\<lambda>(n, _). \<not> strstr n FUNCTION_NAME) (config_dir g)"
proof -
  obtain r0 g0 where s0: "WriteStringToFile e ''none'' PULLUP_PATH g = (r0, g0)" by (cases "WriteStringToFile e ''none'' PULLUP_PATH g")
  let ?ws = "[(''0'', DEVICE_CLASS_PATH), (''0'', DEVICE_SUB_CLASS_PATH), (''0'', DEVICE_PROTOCOL_PATH), (''0'', DESC_USE_PATH)]"
  obtain r1 g1 where s1: "write_all e ?ws g0 = (r1, g1)" by (cases "write_all e ?ws g0")
  obtain r2 g2 where s2: "sys e g1 = (r2, g2)" by (cases "sys e g1")
  obtain r3 g3 where s3: "unlink_loop e (map fst (config_dir g2)) g2 = (r3, g3)"
    by (cases "unlink_loop e (map fst (config_dir g2)) g2")
  note S = WriteStringToFile_same [OF s0] write_all_same [OF s1] sys_same [OF s2] unlink_loop_spec [OF s3]
  have known: "monitor_known g1" "monitor_known g2" "monitor_known g3" using assms(1) S by (simp_all add: monitor_known_def)
  note T = stop_monitor_spec [OF known(3), of e]
  have td: "tearDownGadget e g = (if \<not> r1 then (ERROR, g1) else if \<not> r2 then (ERROR, g2) else if \<not> r3 then (ERROR, g3)
      else (SUCCESS, (stop_monitor e g3)\<lparr>mFds := False, mEndpointList := []\<rparr>))"
    by (simp add: tearDownGadget_def s0 s1 s2 s3 unlinkFunctions_def del: write_all.simps)
  define h where "h = (stop_monitor e g3)\<lparr>mFds := False, mEndpointList := []\<rparr>"
  have h: "notified h = notified g3" "property h = property g3" "mCurrentUsbFunctions h = mCurrentUsbFunctions g3"
    "monitor_known h" "mMonitor h = None" "mEndpointList h = []" "config_dir h = config_dir g3"
    using T by (simp_all add: h_def monitor_known_def)
  have out: "st = ERROR \<and> (g' = g1 \<or> g' = g2 \<or> g' = g3) \<and> \<not> (r1 \<and> r2 \<and> r3) \<or> st = SUCCESS \<and> r1 \<and> r2 \<and> r3 \<and> g' = h"
    using assms(2) unfolding td h_def [symmetric] by (cases r1; cases r2; cases r3; simp)
  then show "st = SUCCESS \<or> st = ERROR" by blast
  have g: "x \<in> {g1, g2, g3, h} \<Longrightarrow> notified x = notified g \<and> property x = property g
      \<and> mCurrentUsbFunctions x = mCurrentUsbFunctions g \<and> monitor_known x" for x
    using S h known by (elim insertE emptyE; hypsubst; simp)
  moreover have "g' \<in> {g1, g2, g3, h}" using out by blast
  ultimately show "notified g' = notified g" "property g' = property g"
    "mCurrentUsbFunctions g' = mCurrentUsbFunctions g" "monitor_known g'" by simp_all
  show "st = SUCCESS" if "\<forall>n. ok e n" using out S that by blast
  assume "st = SUCCESS"
  then have r: "r1" "r2" "r3" "g' = h" using out by auto
  have "config_dir g' = filter (\<lambda>(n, _). \<not> (strstr n FUNCTION_NAME \<and> n \<in> set (map fst (config_dir g)))) (config_dir g)"
    using r S h by simp
  also have "\<dots> = filter (\<lambda>(n, _). \<not> strstr n FUNCTION_NAME) (config_dir g)"
    by (rule filter_cong) (auto intro: rev_image_eqI)
  finally show "mMonitor g' = None \<and> unlinked g' \<and> mEndpointList g' = []
       \<and> config_dir g' = filter (\<lambda>(n, _). \<not> strstr n FUNCTION_NAME) (config_dir g)"
    using r h by (auto simp: unlinked_def)
qed

section \<open>Linking functions\<close>

fun number :: "nat \<Rightarrow> string list \<Rightarrow> (string \<times> string) list" where
  "number i [] = []"
| "number i (f # fs) = (FUNCTION_NAME @ dec i, FUNCTIONS_PATH @ f) # number (Suc i) fs"

lemma number_append: "number i (fs @ hs) = number i fs @ number (i + length fs) hs"
  by (induction fs arbitrary: i) simp_all

definition calm :: "string \<Rightarrow> UsbGadget \<Rightarrow> bool" where
  "calm v g \<longleftrightarrow> mMonitor g = None \<and> \<not> mMonitorCreated g \<and> fst (getVendorFunctions g) = v"

definition quiet :: "string \<Rightarrow> UsbGadget \<Rightarrow> UsbGadget \<Rightarrow> bool" where
  "quiet v g g' \<longleftrightarrow> calm v g' \<and> (\<forall>p. p \<noteq> DESC_USE_PATH \<longrightarrow> attr g' p = attr g p) \<and> notified g' = notified g
     \<and> mCurrentUsbFunctions g' = mCurrentUsbFunctions g"

definition fresh :: "nat \<Rightarrow> UsbGadget \<Rightarrow> bool" where
  "fresh i g \<longleftrightarrow> (\<forall>j\<ge>i. FUNCTION_NAME @ dec j \<notin> fst ` set (config_dir g))"

text \<open>A part of the setup that links \<open>fs\<close> and waits for \<open>eps\<close>; it can fail only where a call does.\<close>

definition lays :: "genv \<Rightarrow> string \<Rightarrow> string list \<Rightarrow> string list \<Rightarrow> setup_step \<Rightarrow> bool" where
  "lays e v fs eps f \<longleftrightarrow> (\<forall>i ffs g. calm v g \<longrightarrow>
     (case f (i, ffs, g) of
        Inl g' \<Rightarrow> quiet v g g' \<and> \<not> ((\<forall>n. ok e n) \<and> fresh i g)
      | Inr (i', ffs', g') \<Rightarrow> quiet v g g' \<and> i' = i + length fs \<and> ffs' = (ffs \<or> eps \<noteq> [])
          \<and> config_dir g' = config_dir g @ number i fs \<and> mEndpointList g' = mEndpointList g @ eps
          \<and> (fresh i g \<longrightarrow> fresh i' g')))"

lemma getVendor_cong: "property g' = property g \<Longrightarrow> fst (getVendorFunctions g') = fst (getVendorFunctions g)"
  by (simp add: getVendorFunctions_def Let_def)

lemma calm_calls [simp]: "calm v (g\<lparr>calls := n\<rparr>) = calm v g" "calm v (g\<lparr>attr := a\<rparr>) = calm v g"
  "calm v (g\<lparr>config_dir := d\<rparr>) = calm v g" "calm v (g\<lparr>mEndpointList := l\<rparr>) = calm v g"
  by (simp_all add: calm_def getVendorFunctions_def Let_def)

lemma calm_sys: "calm v g \<Longrightarrow> sys e g = (ok e (calls g), g\<lparr>calls := Suc (calls g)\<rparr>)"
  by (simp add: calm_def sys_quiet)

lemma lays_watch: "lays e v [] [] (watch_step e)"
  by (auto simp: lays_def watch_step_def calm_sys quiet_def fresh_def Let_def)

lemma lays_desc: "lays e v [] [] (desc_step e)"
  by (auto simp: lays_def desc_step_def WriteStringToFile_def calm_sys quiet_def fresh_def Let_def)

lemma lays_endpoints: "eps \<noteq> [] \<Longrightarrow> lays e v [] eps (endpoints_step eps)"
  by (simp add: lays_def endpoints_step_def quiet_def fresh_def)

lemma lays_link: "lays e v [f] [] (link_step e f)"
proof -
  have "FUNCTION_NAME @ dec i \<notin> fst ` set (config_dir g)" if "fresh i g" for i g
    using that by (simp add: fresh_def)
  then show ?thesis
    by (auto simp: lays_def link_step_def linkFunction_def calm_sys quiet_def fresh_def Let_def)
qed

lemma lays_nil: "lays e v [] [] (run_steps [])"
  by (simp add: lays_def quiet_def)

lemma lays_skip: "lays e v fs eps f \<Longrightarrow> lays e v (if b then fs else []) (if b then eps else []) (when_step b f)"
  by (auto simp: lays_def when_step_def quiet_def)

lemma quiet_trans: "quiet v g g1 \<Longrightarrow> quiet v g1 g2 \<Longrightarrow> quiet v g g2"
  by (simp add: quiet_def)

lemma lays_Cons:
  assumes "lays e v fs1 eps1 f" "lays e v fs2 eps2 (run_steps hs)"
  shows "lays e v (fs1 @ fs2) (eps1 @ eps2) (run_steps (f # hs))"
  unfolding lays_def
proof (intro allI impI)
  fix i ffs g
  assume c: "calm v g"
  note A = assms(1) [unfolded lays_def, rule_format, OF c, of i ffs]
  show "case run_steps (f # hs) (i, ffs, g) of
        Inl g' \<Rightarrow> quiet v g g' \<and> \<not> ((\<forall>n. ok e n) \<and> fresh i g)
      | Inr (i', ffs', g') \<Rightarrow> quiet v g g' \<and> i' = i + length (fs1 @ fs2) \<and> ffs' = (ffs \<or> eps1 @ eps2 \<noteq> [])
          \<and> config_dir g' = config_dir g @ number i (fs1 @ fs2) \<and> mEndpointList g' = mEndpointList g @ eps1 @ eps2
          \<and> (fresh i g \<longrightarrow> fresh i' g')"
  proof (cases "f (i, ffs, g)")
    case (Inl g1)
    then show ?thesis using A by simp
  next
    case (Inr x)
    obtain i1 ffs1 g1 where x: "x = (i1, ffs1, g1)" by (cases x)
    have A': "quiet v g g1" "i1 = i + length fs1" "ffs1 = (ffs \<or> eps1 \<noteq> [])"
      "config_dir g1 = config_dir g @ number i fs1" "mEndpointList g1 = mEndpointList g @ eps1" "fresh i g \<longrightarrow> fresh i1 g1"
      using A unfolding Inr x sum.case prod.case by blast+
    have "calm v g1" using A'(1) by (simp add: quiet_def)
    note B = assms(2) [unfolded lays_def, rule_format, OF this, of i1 ffs1]
    have run: "run_steps (f # hs) (i, ffs, g) = run_steps hs (i1, ffs1, g1)" using Inr x by simp
    show ?thesis
    proof (cases "run_steps hs (i1, ffs1, g1)")
      case (Inl g2)
      then have "quiet v g1 g2" "\<not> ((\<forall>n. ok e n) \<and> fresh i1 g1)" using B by simp_all
      then show ?thesis unfolding run Inl sum.case using quiet_trans [OF A'(1)] A'(6) by blast
    next
      case (Inr y)
      obtain i2 ffs2 g2 where y: "y = (i2, ffs2, g2)" by (cases y)
      have B': "quiet v g1 g2" "i2 = i1 + length fs2" "ffs2 = (ffs1 \<or> eps2 \<noteq> [])"
        "config_dir g2 = config_dir g1 @ number i1 fs2" "mEndpointList g2 = mEndpointList g1 @ eps2" "fresh i1 g1 \<longrightarrow> fresh i2 g2"
        using B unfolding Inr y sum.case prod.case by blast+
      show ?thesis
        unfolding run Inr y sum.case prod.case
        using quiet_trans [OF A'(1) B'(1)] A'(2-6) B'(2-6) by (simp add: number_append)
    qed
  qed
qed

lemma lays_run1: "lays e v fs eps f \<Longrightarrow> lays e v fs eps (run_steps [f])"
  using lays_Cons [OF _ lays_nil, of e v fs eps f] by simp

lemma lays_ffs: "eps \<noteq> [] \<Longrightarrow> lays e v [f] eps (ffs_steps e f eps)"
  unfolding ffs_steps_def
  using lays_Cons [OF lays_desc lays_Cons [OF lays_watch lays_Cons [OF lays_link lays_run1 [OF lays_endpoints]]]] by simp

text \<open>The functions a request stands for, in the order of their links, and the endpoints of user space.\<close>

definition vendor_name :: "string \<Rightarrow> string list" where
  "vendor_name t = (if t = ''diag'' then [''diag.diag''] else if t = ''serial_cdev'' then [''cser.dun.0'']
     else if t = ''rmnet_gsi'' then [''gsi.rmnet''] else [])"

definition function_names :: "gadget_function \<Rightarrow> 64 word \<Rightarrow> string \<Rightarrow> string list" where
  "function_names gf f v =
     (if has f (MTP gf) then [''ffs.mtp''] else if has f (PTP gf) then [''ffs.ptp''] else [])
     @ (if has f (MIDI gf) then [''midi.gs5''] else [])
     @ (if has f (ACCESSORY gf) then [''accessory.gs2''] else [])
     @ (if has f (AUDIO_SOURCE gf) then [''audio_source.gs3''] else [])
     @ (if has f (RNDIS gf) then [''gsi.rndis''] else [])
     @ concat (map vendor_name (strtok_all v))
     @ (if has f (ADB gf) then [''ffs.adb''] else [])"

definition endpoints :: "gadget_function \<Rightarrow> 64 word \<Rightarrow> string list" where
  "endpoints gf f =
     (if has f (MTP gf) then mtp_endpoints else if has f (PTP gf) then ptp_endpoints else [])
     @ (if has f (ADB gf) then adb_endpoints else [])"

lemma lays_vendor: "lays e v (vendor_name t) [] (vendor_steps e t)"
proof -
  have "lays e v ((if t = ''diag'' then [''diag.diag''] else []) @ (if t = ''serial_cdev'' then [''cser.dun.0''] else [])
      @ (if t = ''rmnet_gsi'' then [''gsi.rmnet''] else [])) ((if t = ''diag'' then [] else []) @ (if t = ''serial_cdev'' then [] else [])
      @ (if t = ''rmnet_gsi'' then [] else [])) (vendor_steps e t)"
    unfolding vendor_steps_def
    by (intro lays_Cons lays_run1 lays_skip lays_link)
  moreover have "(if t = ''diag'' then [''diag.diag''] else []) @ (if t = ''serial_cdev'' then [''cser.dun.0''] else [])
      @ (if t = ''rmnet_gsi'' then [''gsi.rmnet''] else []) = vendor_name t"
    by (simp add: vendor_name_def)
  ultimately show ?thesis by simp
qed

lemma lays_vendors: "lays e v (concat (map vendor_name ts)) [] (run_steps (map (vendor_steps e) ts))"
proof (induction ts)
  case (Cons t ts)
  show ?case using lays_Cons [OF lays_vendor Cons] by (simp del: run_steps.simps)
qed (simp add: lays_nil del: run_steps.simps)

lemma getVendor_again:
  assumes "calm v g"
  shows "fst (getVendorFunctions g) = v" "calm v (snd (getVendorFunctions g))"
    "config_dir (snd (getVendorFunctions g)) = config_dir g" "attr (snd (getVendorFunctions g)) = attr g"
    "notified (snd (getVendorFunctions g)) = notified g" "mEndpointList (snd (getVendorFunctions g)) = mEndpointList g"
    "mCurrentUsbFunctions (snd (getVendorFunctions g)) = mCurrentUsbFunctions g"
  using assms by (auto simp: calm_def getVendorFunctions_def Let_def PERSISTENT_BOOT_MODE_def VENDOR_CONFIG_def
      PERSISTENT_VENDOR_CONFIG_def BUILD_TYPE_def)

lemma lays_getVendor: "lays e v (concat (map vendor_name (strtok_all v))) [] (getVendor_step e)"
  unfolding lays_def
proof (intro allI impI)
  fix i ffs g
  assume c: "calm v g"
  note V = getVendor_again [OF c]
  obtain g1 where g1: "getVendorFunctions g = (v, g1)" using V(1) by (cases "getVendorFunctions g") simp
  have step: "getVendor_step e (i, ffs, g) = run_steps (map (vendor_steps e) (strtok_all v)) (i, ffs, g1)"
    by (simp add: getVendor_step_def g1)
  have q: "quiet v g g1" "config_dir g1 = config_dir g" "mEndpointList g1 = mEndpointList g" "fresh i g1 = fresh i g" "calm v g1"
    using V c unfolding g1 by (simp_all add: quiet_def fresh_def)
  show "case getVendor_step e (i, ffs, g) of
        Inl g' \<Rightarrow> quiet v g g' \<and> \<not> ((\<forall>n. ok e n) \<and> fresh i g)
      | Inr (i', ffs', g') \<Rightarrow> quiet v g g' \<and> i' = i + length (concat (map vendor_name (strtok_all v)))
          \<and> ffs' = (ffs \<or> [] \<noteq> []) \<and> config_dir g' = config_dir g @ number i (concat (map vendor_name (strtok_all v)))
          \<and> mEndpointList g' = mEndpointList g @ [] \<and> (fresh i g \<longrightarrow> fresh i' g')"
    using lays_vendors [of e v "strtok_all v", unfolded lays_def, rule_format, OF q(5), of i ffs] q(2-4) quiet_trans [OF q(1)]
    unfolding step by (auto split: sum.splits)
qed

lemma setup_steps_lays: "lays e v (function_names gf f v) (endpoints gf f) (setup_steps e gf f)"
proof -
  have 1: "lays e v (if has f (MTP gf) then [''ffs.mtp''] else if has f (PTP gf) then [''ffs.ptp''] else [])
      (if has f (MTP gf) then mtp_endpoints else if has f (PTP gf) then ptp_endpoints else [])
      (\<lambda>s. if has f (MTP gf) then ffs_steps e ''ffs.mtp'' mtp_endpoints s
          else when_step (has f (PTP gf)) (ffs_steps e ''ffs.ptp'' ptp_endpoints) s)"
  proof (cases "has f (MTP gf)")
    case True
    then show ?thesis using lays_ffs [of mtp_endpoints e v "''ffs.mtp''"] by (simp add: mtp_endpoints_def)
  next
    case False
    then show ?thesis
      using lays_skip [OF lays_ffs [of ptp_endpoints e v "''ffs.ptp''"], of "has f (PTP gf)"] by (simp add: ptp_endpoints_def)
  qed
  have nil: "(if b then [] else []) = ([] :: 'x list)" for b by simp
  have adb: "lays e v [''ffs.adb''] adb_endpoints (ffs_steps e ''ffs.adb'' adb_endpoints)"
    by (rule lays_ffs) (simp add: adb_endpoints_def)
  show ?thesis
    unfolding setup_steps_def function_names_def endpoints_def
    using lays_Cons [OF 1 lays_Cons [OF lays_skip [OF lays_link, where b = "has f (MIDI gf)"]
        lays_Cons [OF lays_skip [OF lays_link, where b = "has f (ACCESSORY gf)"]
        lays_Cons [OF lays_skip [OF lays_link, where b = "has f (AUDIO_SOURCE gf)"]
        lays_Cons [OF lays_skip [OF lays_link, where b = "has f (RNDIS gf)"]
        lays_Cons [OF lays_getVendor lays_run1 [OF lays_skip [OF adb, where b = "has f (ADB gf)"]]]]]]]]
    by (simp only: nil append_Nil)
qed

section \<open>The whole request\<close>

text \<open>The thread has written the controller's name before it says that the gadget is bound.\<close>

definition bind_inv :: "UsbGadget \<Rightarrow> bool" where
  "bind_inv g \<longleftrightarrow> ((gadgetPullup g \<or> (\<exists>m. mMonitor g = Some m \<and> bound m)) \<longrightarrow> attr g PULLUP_PATH = GADGET_NAME)
     \<and> (\<forall>m. mMonitor g = Some m \<longrightarrow> \<not> writeUdc m \<longrightarrow> gadgetPullup g)"

lemma bind_inv_step: "bind_inv g \<Longrightarrow> bind_inv (monitorFfs_step ev g)"
  by (auto simp: bind_inv_def monitorFfs_step_def pull_up_def publish_def Let_def split: option.split)

lemma bind_inv_monitor: "bind_inv g \<Longrightarrow> bind_inv (monitorFfs evs g)"
  by (induction evs arbitrary: g) (simp_all add: monitorFfs_def bind_inv_step)

lemma pulled_step: "gadgetPullup g \<Longrightarrow> gadgetPullup (monitorFfs_step ev g)"
  by (auto simp: monitorFfs_step_def pull_up_def publish_def Let_def split: option.split)

lemma pulled_monitor: "gadgetPullup g \<Longrightarrow> gadgetPullup (monitorFfs evs g)"
  by (induction evs arbitrary: g) (simp_all add: monitorFfs_def pulled_step)

text \<open>An event that finds all endpoints, and one more run of the thread, bind the gadget.\<close>

lemma monitor_binds:
  assumes "bind_inv g" "mMonitor g \<noteq> None" "list_all pr (mEndpointList g)"
  shows "gadgetPullup (monitorFfs (pre @ (pr, True) # ev # post) g)"
proof -
  define h where "h = monitorFfs pre g"
  have h: "bind_inv h" "mMonitor h \<noteq> None" "list_all pr (mEndpointList h)"
    using assms bind_inv_monitor [OF assms(1), of pre] monitor_same [of g pre] by (simp_all add: h_def same_files_def)
  have "gadgetPullup (monitorFfs_step ev (monitorFfs_step (pr, True) h))"
    using h by (auto simp: bind_inv_def monitorFfs_step_def pull_up_def publish_def Let_def split: option.splits)
  then have "gadgetPullup (monitorFfs post (monitorFfs_step ev (monitorFfs_step (pr, True) h)))" by (rule pulled_monitor)
  then show ?thesis by (simp add: monitorFfs_def h_def)
qed

text \<open>It is bound only after an event that found all endpoints.\<close>

definition binding :: "UsbGadget \<Rightarrow> bool" where
  "binding g \<longleftrightarrow> gadgetPullup g \<or> (\<exists>m. mMonitor g = Some m \<and> bound m)"

definition saw :: "mevent list \<Rightarrow> string list \<Rightarrow> bool" where
  "saw evs eps \<longleftrightarrow> (\<exists>ev\<in>set evs. list_all (fst ev) eps \<and> snd ev)"

lemma binding_step:
  "\<not> binding g \<Longrightarrow> binding (monitorFfs_step ev g) \<Longrightarrow> list_all (fst ev) (mEndpointList g) \<and> snd ev"
  by (auto simp: binding_def monitorFfs_step_def pull_up_def publish_def Let_def split: option.splits if_splits)

lemma monitor_saw: "\<not> binding g \<Longrightarrow> binding (monitorFfs evs g) \<Longrightarrow> saw evs (mEndpointList g)"
proof (induction evs arbitrary: g)
  case Nil
  then show ?case by (simp add: monitorFfs_def)
next
  case (Cons ev evs)
  let ?h = "monitorFfs_step ev g"
  have "binding (monitorFfs evs ?h)" using Cons.prems(2) by (simp add: monitorFfs_def)
  moreover have "mEndpointList ?h = mEndpointList g" using monitor_step_same [of g ev] by (simp add: same_files_def)
  ultimately show ?case
    using Cons.IH [of ?h] binding_step [OF Cons.prems(1), of ev] by (cases "binding ?h") (auto simp: saw_def)
qed

lemma sys_all_quiet:
  "calm v g \<Longrightarrow> sys_all e n g = (r, g') \<Longrightarrow>
   quiet v g g' \<and> config_dir g' = config_dir g \<and> mEndpointList g' = mEndpointList g \<and> ((\<forall>n. ok e n) \<longrightarrow> r)"
proof (induction n arbitrary: g)
  case 0
  then show ?case by (simp add: quiet_def)
next
  case (Suc n)
  let ?g = "g\<lparr>calls := Suc (calls g)\<rparr>"
  have q: "quiet v g ?g" using Suc.prems(1) by (simp add: quiet_def)
  show ?case
  proof (cases "ok e (calls g)")
    case True
    then have "sys_all e n ?g = (r, g')" using Suc.prems by (simp add: calm_sys)
    from Suc.IH [OF _ this] show ?thesis using Suc.prems(1) quiet_trans [OF q] by simp
  next
    case False
    then show ?thesis using Suc.prems q by (auto simp: calm_sys)
  qed
qed

text \<open>What a gadget set up for the functions \<open>f\<close> looks like; \<open>old\<close> is the directory before.\<close>

definition laid_out :: "gadget_function \<Rightarrow> 64 word \<Rightarrow> string \<Rightarrow> (string \<times> string) list \<Rightarrow> UsbGadget \<Rightarrow> bool" where
  "laid_out gf f v old g \<longleftrightarrow> vid_pid gf f v = Some (attr g VENDOR_ID_PATH, attr g PRODUCT_ID_PATH)
     \<and> config_dir g = filter (\<lambda>(n, _). \<not> strstr n FUNCTION_NAME) old @ number 0 (function_names gf f v)
     \<and> mEndpointList g = endpoints gf f"

definition bindable :: "genv \<Rightarrow> gadget_function \<Rightarrow> 64 word \<Rightarrow> bool" where
  "bindable e gf f \<longleftrightarrow> endpoints gf f = []
     \<or> (\<exists>pre pr ev post. wait_events e = pre @ (pr, True) # ev # post \<and> list_all pr (endpoints gf f))"

definition setup_post :: "genv \<Rightarrow> gadget_function \<Rightarrow> 64 word \<Rightarrow> bool \<Rightarrow> string \<Rightarrow> UsbGadget \<Rightarrow> Status \<times> UsbGadget \<Rightarrow> bool" where
  "setup_post e gf f cb v g = (\<lambda>(st, g').
     mCurrentUsbFunctions g' = mCurrentUsbFunctions g \<and> monitor_known g'
     \<and> (st = ERROR \<and> notified g' = notified g \<and> \<not> ((\<forall>n. ok e n) \<and> fresh 0 g)
        \<or> st = SUCCESS \<and> config_dir g' = config_dir g @ number 0 (function_names gf f v) \<and> mEndpointList g' = endpoints gf f
          \<and> (\<forall>p. p \<noteq> DESC_USE_PATH \<longrightarrow> p \<noteq> PULLUP_PATH \<longrightarrow> attr g' p = attr g p)
          \<and> (\<exists>r. notified g' = notified g @ (if cb then [(f, r)] else [])
              \<and> (cb \<longrightarrow> r = SUCCESS \<longrightarrow> attr g' PULLUP_PATH = GADGET_NAME
                  \<and> (endpoints gf f = [] \<or> saw (wait_events e) (endpoints gf f)))
              \<and> (bindable e gf f \<longrightarrow> r = SUCCESS))))"

lemma calm_known: "calm v g \<Longrightarrow> monitor_known g"
  by (simp add: calm_def monitor_known_def)

lemma setup_failed:
  "quiet v g g' \<Longrightarrow> \<not> ((\<forall>n. ok e n) \<and> fresh 0 g) \<Longrightarrow> setup_post e gf f cb v g (ERROR, g')"
  by (auto simp: setup_post_def quiet_def dest: calm_known)

lemma setupFunctions_spec:
  assumes c: "calm v g" and eps: "mEndpointList g = []"
  shows "setup_post e gf f cb v g (setupFunctions e gf f cb g)"
proof -
  let ?g1 = "g\<lparr>calls := Suc (calls g)\<rparr>"
  have s1: "sys e g = (ok e (calls g), ?g1)" by (rule calm_sys [OF c])
  have q1: "quiet v g ?g1" "calm v ?g1" "fresh 0 ?g1 = fresh 0 g" using c by (simp_all add: quiet_def fresh_def)
  show ?thesis
  proof (cases "ok e (calls g)")
    case False
    then have eq: "setupFunctions e gf f cb g = (ERROR, ?g1)" by (simp add: setupFunctions_def s1)
    have "\<not> ((\<forall>n. ok e n) \<and> fresh 0 g)" using False by blast
    then show ?thesis unfolding eq by (rule setup_failed [OF q1(1)])
  next
    case ok1: True
    note L = setup_steps_lays [of e v gf f, unfolded lays_def, rule_format, OF q1(2), of 0 False]
    show ?thesis
    proof (cases "setup_steps e gf f (0, False, ?g1)")
      case (Inl g2)
      then have "setupFunctions e gf f cb g = (ERROR, g2)" using ok1 by (simp add: setupFunctions_def s1)
      moreover have "quiet v g g2" using L quiet_trans [OF q1(1)] unfolding Inl by simp
      moreover have "\<not> ((\<forall>n. ok e n) \<and> fresh 0 g)" using L q1(3) unfolding Inl by simp
      ultimately show ?thesis using setup_failed by simp
    next
      case (Inr x)
      obtain i ffs g2 where x: "x = (i, ffs, g2)" by (cases x)
      have A: "quiet v g g2" "ffs = (endpoints gf f \<noteq> [])" "config_dir g2 = config_dir g @ number 0 (function_names gf f v)"
        "mEndpointList g2 = endpoints gf f"
        using L quiet_trans [OF q1(1)] eps unfolding Inr x by simp_all
      have c2: "calm v g2" using A(1) by (simp add: quiet_def)
      show ?thesis
      proof (cases ffs)
        case False
        let ?g3 = "g2\<lparr>calls := Suc (calls g2)\<rparr>"
        have s2: "sys e g2 = (ok e (calls g2), ?g3)" by (rule calm_sys [OF c2])
        have eq: "setupFunctions e gf f cb g = (if \<not> ok e (calls g2) then (ERROR, ?g3)
            else (SUCCESS, tell cb f SUCCESS (?g3\<lparr>attr := (attr g2)(PULLUP_PATH := GADGET_NAME), mCurrentUsbFunctionsApplied := True\<rparr>)))"
          using ok1 False by (simp add: setupFunctions_def s1 Inr x WriteStringToFile_def s2)
        show ?thesis
        proof (cases "ok e (calls g2)")
          case False
          then show ?thesis unfolding eq using setup_failed [of v g ?g3 e] A(1) by (auto simp: quiet_def)
        next
          case True
          then show ?thesis unfolding eq using A c2 \<open>\<not> ffs\<close>
            by (simp add: setup_post_def tell_def quiet_def calm_def monitor_known_def)
        qed
      next
        case True
        obtain r3 g3 where s3: "sys_all e 4 g2 = (r3, g3)" by (cases "sys_all e 4 g2")
        note B = sys_all_quiet [OF c2 s3]
        let ?h = "g3\<lparr>mFds := True, gadgetPullup := False, mMonitor := Some \<lparr>begun = False, writeUdc = True, bound = False\<rparr>,
                        mMonitorCreated := True\<rparr>"
        let ?m = "monitorFfs (wait_events e) ?h"
        have eq: "setupFunctions e gf f cb g = (if \<not> r3 then (ERROR, g3)
            else (SUCCESS, if cb then tell True f (if gadgetPullup ?m then SUCCESS else ERROR) ?m else ?h))"
          using ok1 True s3 by (simp add: setupFunctions_def s1 Inr x monitor_fds_def del: sys_all.simps)
        show ?thesis
        proof (cases r3)
          case False
          then show ?thesis unfolding eq using setup_failed [of v g g3 e] quiet_trans [OF A(1)] B by auto
        next
          case r3: True
          have h: "bind_inv ?h" by (simp add: bind_inv_def)
          have M: "same_files ?h ?m" by (rule monitor_same)
          have P: "gadgetPullup ?m \<longrightarrow> attr ?m PULLUP_PATH = GADGET_NAME"
            using bind_inv_monitor [OF h, of "wait_events e"] by (simp add: bind_inv_def)
          have X: "gadgetPullup ?m \<longrightarrow> saw (wait_events e) (endpoints gf f)"
            using monitor_saw [of ?h "wait_events e"] B A(4) by (simp add: binding_def)
          have W: "bindable e gf f \<longrightarrow> gadgetPullup ?m"
            using monitor_binds [OF h] B A(2,4) True unfolding bindable_def by auto
          show ?thesis unfolding eq using r3 A B M P W X
            by (auto simp: setup_post_def tell_def quiet_def monitor_known_def same_files_def)
        qed
      qed
    qed
  qed
qed

lemma quiet_write:
  assumes "calm v g"
  shows "WriteStringToFile e str p g = (ok e (calls g), if ok e (calls g)
     then g\<lparr>calls := Suc (calls g), attr := (attr g)(p := str)\<rparr> else g\<lparr>calls := Suc (calls g)\<rparr>)"
  by (simp add: WriteStringToFile_def calm_sys [OF assms])

lemma validate_spec:
  assumes c: "calm v g" and s: "validateAndSetVidPid e gf f g = (st, g')"
  shows "calm v g' \<and> notified g' = notified g \<and> mCurrentUsbFunctions g' = mCurrentUsbFunctions g
      \<and> config_dir g' = config_dir g \<and> mEndpointList g' = mEndpointList g"
    "st = SUCCESS \<Longrightarrow> vid_pid gf f v = Some (attr g' VENDOR_ID_PATH, attr g' PRODUCT_ID_PATH)"
    "(\<forall>n. ok e n) \<Longrightarrow> vid_pid gf f v \<noteq> None \<Longrightarrow> st = SUCCESS"
proof -
  note V = getVendor_again [OF c]
  obtain g1 where g1: "getVendorFunctions g = (v, g1)" using V(1) by (cases "getVendorFunctions g") simp
  have c1: "calm v g1" "config_dir g1 = config_dir g" "notified g1 = notified g" "mEndpointList g1 = mEndpointList g"
    "mCurrentUsbFunctions g1 = mCurrentUsbFunctions g"
    using V unfolding g1 by simp_all
  have eq: "validateAndSetVidPid e gf f g = (case vid_pid gf f v of None \<Rightarrow> (CONFIGURATION_NOT_SUPPORTED, g1)
      | Some (vid, pid) \<Rightarrow> setVidPid e vid pid g1)"
    by (simp add: validateAndSetVidPid_def g1)
  have all: "calm v g' \<and> notified g' = notified g \<and> mCurrentUsbFunctions g' = mCurrentUsbFunctions g
      \<and> config_dir g' = config_dir g \<and> mEndpointList g' = mEndpointList g
      \<and> (st = SUCCESS \<longrightarrow> vid_pid gf f v = Some (attr g' VENDOR_ID_PATH, attr g' PRODUCT_ID_PATH))
      \<and> ((\<forall>n. ok e n) \<longrightarrow> vid_pid gf f v \<noteq> None \<longrightarrow> st = SUCCESS)"
  proof (cases "vid_pid gf f v")
    case None
    then have "st = CONFIGURATION_NOT_SUPPORTED" "g' = g1" using s unfolding eq by simp_all
    then show ?thesis using c1 None by simp
  next
    case (Some x)
    obtain vid pid where x: "x = (vid, pid)" by (cases x)
    let ?n = "calls g1"
    let ?g2 = "g1\<lparr>calls := Suc ?n, attr := (attr g1)(VENDOR_ID_PATH := vid)\<rparr>"
    have c2: "calm v ?g2" using c1(1) by simp
    have "setVidPid e vid pid g1 = (if ok e ?n then
        (if ok e (Suc ?n) then (SUCCESS, ?g2\<lparr>calls := Suc (Suc ?n), attr := (attr ?g2)(PRODUCT_ID_PATH := pid)\<rparr>)
         else (ERROR, ?g2\<lparr>calls := Suc (Suc ?n)\<rparr>)) else (ERROR, g1\<lparr>calls := Suc ?n\<rparr>))"
      by (simp add: setVidPid_def quiet_write [OF c1(1)] quiet_write [OF c2])
    then have "(st, g') = (if ok e ?n then
        (if ok e (Suc ?n) then (SUCCESS, ?g2\<lparr>calls := Suc (Suc ?n), attr := (attr ?g2)(PRODUCT_ID_PATH := pid)\<rparr>)
         else (ERROR, ?g2\<lparr>calls := Suc (Suc ?n)\<rparr>)) else (ERROR, g1\<lparr>calls := Suc ?n\<rparr>))"
      using s unfolding eq by (simp add: Some x)
    then show ?thesis using c1 Some x by (cases "ok e ?n"; cases "ok e (Suc ?n)") auto
  qed
  then show "calm v g' \<and> notified g' = notified g \<and> mCurrentUsbFunctions g' = mCurrentUsbFunctions g
      \<and> config_dir g' = config_dir g \<and> mEndpointList g' = mEndpointList g"
    "st = SUCCESS \<Longrightarrow> vid_pid gf f v = Some (attr g' VENDOR_ID_PATH, attr g' PRODUCT_ID_PATH)"
    "(\<forall>n. ok e n) \<Longrightarrow> vid_pid gf f v \<noteq> None \<Longrightarrow> st = SUCCESS"
    by blast+
qed

lemma unlinked_fresh: "unlinked g \<Longrightarrow> fresh i g"
  using strstr_prefix [of FUNCTION_NAME] by (fastforce simp: unlinked_def fresh_def)

text \<open>\<open>reported\<close>: the one answer the caller gets, and what it may rely on.\<close>

definition reported :: "genv \<Rightarrow> gadget_function \<Rightarrow> 64 word \<Rightarrow> bool \<Rightarrow> UsbGadget \<Rightarrow> Status \<Rightarrow> UsbGadget \<Rightarrow> bool" where
  "reported e gf f cb g st g' \<longleftrightarrow> monitor_known g' \<and> mCurrentUsbFunctions g' = f
     \<and> notified g' = notified g @ (if cb then [(f, st)] else [])
     \<and> (st = SUCCESS \<and> f \<noteq> NONE gf \<and> cb \<longrightarrow>
          laid_out gf f (fst (getVendorFunctions g)) (config_dir g) g' \<and> attr g' PULLUP_PATH = GADGET_NAME
          \<and> (endpoints gf f = [] \<or> saw (wait_events e) (endpoints gf f)))"

lemma set_functions_reported:
  assumes known: "monitor_known g"
  obtains st where "reported e gf f cb g st (setCurrentUsbFunctions e gf f cb g)"
    "(\<forall>n. ok e n) \<Longrightarrow> f = NONE gf \<or> vid_pid gf f (fst (getVendorFunctions g)) \<noteq> None \<and> bindable e gf f \<Longrightarrow> st = SUCCESS"
proof -
  define v where "v = fst (getVendorFunctions g)"
  let ?g0 = "g\<lparr>mCurrentUsbFunctions := f, mCurrentUsbFunctionsApplied := False\<rparr>"
  have k0: "monitor_known ?g0" using known by (simp add: monitor_known_def)
  obtain st1 g1 where s1: "tearDownGadget e ?g0 = (st1, g1)" by (cases "tearDownGadget e ?g0")
  note T = tearDownGadget_spec [OF k0 s1]
  show thesis
  proof (cases "st1 = SUCCESS")
    case False
    then have "setCurrentUsbFunctions e gf f cb g = tell cb f st1 g1" by (simp add: setCurrentUsbFunctions_def s1)
    then have "reported e gf f cb g st1 (setCurrentUsbFunctions e gf f cb g)"
      using T(2-5) False by (simp add: reported_def tell_def monitor_known_def)
    then show thesis using that T(6) False by blast
  next
    case td: True
    show thesis
    proof (cases "f = NONE gf")
      case True
      then have "setCurrentUsbFunctions e gf f cb g = tell cb f SUCCESS g1"
        using td by (simp add: setCurrentUsbFunctions_def s1 [unfolded True] True)
      then have "reported e gf f cb g SUCCESS (setCurrentUsbFunctions e gf f cb g)"
        using T(2-5) True by (simp add: reported_def tell_def monitor_known_def)
      then show thesis using that by blast
    next
      case nn: False
      have t7: "mMonitor g1 = None" "unlinked g1" "mEndpointList g1 = []"
        "config_dir g1 = filter (\<lambda>(n, _). \<not> strstr n FUNCTION_NAME) (config_dir g)"
        using T(7) [OF td] by simp_all
      have "fst (getVendorFunctions g1) = v"
        using T(3) getVendor_cong [of g1 g] by (simp add: v_def)
      then have c1: "calm v g1" using t7(1) T(5) by (simp add: calm_def monitor_known_def)
      obtain st2 g2 where s2: "validateAndSetVidPid e gf f g1 = (st2, g2)" by (cases "validateAndSetVidPid e gf f g1")
      note V = validate_spec [OF c1 s2]
      show thesis
      proof (cases "st2 = SUCCESS")
        case False
        then have "setCurrentUsbFunctions e gf f cb g = tell cb f st2 g2"
          using td nn by (simp add: setCurrentUsbFunctions_def s1 s2)
        then have "reported e gf f cb g st2 (setCurrentUsbFunctions e gf f cb g)"
          using V(1) T(2,4) False by (auto simp: reported_def tell_def monitor_known_def calm_def)
        then show thesis using that V(3) False nn unfolding v_def by blast
      next
        case True
        obtain st3 g3 where s3: "setupFunctions e gf f cb g2 = (st3, g3)" by (cases "setupFunctions e gf f cb g2")
        have eq: "setCurrentUsbFunctions e gf f cb g = (if st3 \<noteq> SUCCESS then tell cb f st3 g3 else g3)"
          using td nn True by (simp add: setCurrentUsbFunctions_def s1 s2 s3)
        have c2: "calm v g2" and e2: "mEndpointList g2 = []" using V(1) t7(3) by simp_all
        have S: "setup_post e gf f cb v g2 (st3, g3)" using setupFunctions_spec [OF c2 e2, of e gf f cb] unfolding s3 .
        have fr: "fresh 0 g2" using unlinked_fresh [OF t7(2), of 0] V(1) by (simp add: fresh_def)
        from S consider
          (err) "st3 = ERROR" "notified g3 = notified g2" "\<not> (\<forall>n. ok e n)" "monitor_known g3" "mCurrentUsbFunctions g3 = mCurrentUsbFunctions g2"
        | (fine) r where "st3 = SUCCESS" "config_dir g3 = config_dir g2 @ number 0 (function_names gf f v)"
            "mEndpointList g3 = endpoints gf f" "monitor_known g3" "mCurrentUsbFunctions g3 = mCurrentUsbFunctions g2"
            "\<forall>p. p \<noteq> DESC_USE_PATH \<longrightarrow> p \<noteq> PULLUP_PATH \<longrightarrow> attr g3 p = attr g2 p"
            "notified g3 = notified g2 @ (if cb then [(f, r)] else [])" "cb \<longrightarrow> r = SUCCESS \<longrightarrow> attr g3 PULLUP_PATH = GADGET_NAME
              \<and> (endpoints gf f = [] \<or> saw (wait_events e) (endpoints gf f))"
            "bindable e gf f \<longrightarrow> r = SUCCESS"
          using fr unfolding setup_post_def prod.case by blast
        then show thesis
        proof cases
          case err
          then have "reported e gf f cb g ERROR (setCurrentUsbFunctions e gf f cb g)"
            unfolding eq using V(1) T(2,4) by (auto simp: reported_def tell_def monitor_known_def)
          then show thesis using that err(3) by blast
        next
          case fine
          have "laid_out gf f v (config_dir g) g3"
            using fine V(1,2) True t7(4) by (simp add: laid_out_def)
          then have "reported e gf f cb g r (setCurrentUsbFunctions e gf f cb g)"
            unfolding eq using fine V(1) T(2,4) by (simp add: reported_def v_def)
          then show thesis using that fine(9) nn by blast
        qed
      qed
    qed
  qed
qed

section \<open>Properties\<close>

text \<open>
  C16. Whichever calls fail and however the thread is scheduled, \<open>setCurrentUsbFunctions\<close> answers its
  caller exactly once. When it answers \<open>SUCCESS\<close> for some functions, the gadget has the identifiers
  of the table, links exactly the functions asked for, numbered from 0, and is bound to the
  controller; and if user space implements one of them, the thread has seen all endpoints before.
\<close>

theorem setCurrentUsbFunctions_reported:
  assumes "monitor_known g"
  shows "\<exists>st. reported e gf f cb g st (setCurrentUsbFunctions e gf f cb g)"
  by (rule set_functions_reported [OF assms, of e gf f cb]) blast

definition gf_example :: gadget_function where
  "gf_example = \<lparr>NONE = 0, ADB = 1, ACCESSORY = 2, MTP = 4, MIDI = 8, PTP = 16, RNDIS = 32, AUDIO_SOURCE = 64\<rparr>"

text \<open>A gadget bound with ADB, whose thread has just seen the endpoints go.\<close>

definition adb_gadget :: UsbGadget where
  "adb_gadget = \<lparr>attr = (\<lambda>_. ''0''), config_dir = [(''strings'', []), (''function0'', FUNCTIONS_PATH @ ''ffs.adb'')],
     property = (\<lambda>_. []), mCurrentUsbFunctions = 1, mCurrentUsbFunctionsApplied = True, mMonitorCreated = True,
     mEndpointList = adb_endpoints, mFds = True, gadgetPullup = True,
     mMonitor = Some \<lparr>begun = True, writeUdc = True, bound = False\<rparr>, notified = [], calls = 0\<rparr>"

definition env_example :: genv where
  "env_example = \<lparr>ok = (\<lambda>_. True), sched = (\<lambda>_. []),
     wait_events = [(\<lambda>_. False, True), (\<lambda>_. True, True), (\<lambda>_. True, True)]\<rparr>"

theorem setCurrentUsbFunctions_reported_witness:
  "\<exists>st. reported (env_example\<lparr>ok := \<lambda>n. n \<noteq> 7\<rparr>) gf_example 5 True adb_gadget st
     (setCurrentUsbFunctions (env_example\<lparr>ok := \<lambda>n. n \<noteq> 7\<rparr>) gf_example 5 True adb_gadget)"
  by (rule setCurrentUsbFunctions_reported) (simp add: monitor_known_def adb_gadget_def)

text \<open>
  C26. When no call fails, a supported combination of functions is set up: the caller is answered
  \<open>SUCCESS\<close>, provided the thread finds all endpoints in some event while the caller waits.
\<close>

theorem setCurrentUsbFunctions_succeeds:
  assumes "monitor_known g" "\<forall>n. ok e n"
    and "vid_pid gf f (fst (getVendorFunctions g)) \<noteq> None" "bindable e gf f"
  shows "notified (setCurrentUsbFunctions e gf f True g) = notified g @ [(f, SUCCESS)]"
proof -
  obtain st where "reported e gf f True g st (setCurrentUsbFunctions e gf f True g)" "st = SUCCESS"
    by (rule set_functions_reported [OF assms(1), of e gf f True]) (use assms(2-4) in blast)
  then show ?thesis by (simp add: reported_def)
qed

theorem setCurrentUsbFunctions_succeeds_witness:
  "notified (setCurrentUsbFunctions env_example gf_example 5 True adb_gadget) = notified adb_gadget @ [(5, SUCCESS)]"
proof (rule setCurrentUsbFunctions_succeeds)
  have "wait_events env_example = [(\<lambda>_. False, True)] @ ((\<lambda>_. True), True) # (\<lambda>_. True, True) # []"
    by (simp add: env_example_def)
  moreover have "list_all (\<lambda>_. True) (endpoints gf_example 5)" by (simp add: list_all_iff)
  ultimately show "bindable env_example gf_example 5" unfolding bindable_def by blast
qed (simp_all add: monitor_known_def adb_gadget_def env_example_def getVendorFunctions_def vid_pid_def gf_example_def)

text \<open>
  The flag that \<open>getCurrentUsbFunctions\<close> reports is cleared before the old thread is stopped: an event
  it still handles sets the flag, and the new functions, refused here, are reported as applied.
\<close>

lemma stale_monitor_applies:
  "let e = env_example\<lparr>sched := \<lambda>n. if n = 0 then [(\<lambda>_. True, True), (\<lambda>_. True, True)] else []\<rparr>;
       g = setCurrentUsbFunctions e gf_example 6 True adb_gadget
   in notified g = [(6, CONFIGURATION_NOT_SUPPORTED)] \<and> getCurrentUsbFunctions g = (6, FUNCTIONS_APPLIED)"
  by (simp add: Let_def env_example_def adb_gadget_def setCurrentUsbFunctions_def tearDownGadget_def
      WriteStringToFile_def sys_def monitorFfs_def monitorFfs_step_def pull_up_def publish_def unlinkFunctions_def
      FUNCTION_NAME_def stop_monitor_def validateAndSetVidPid_def getVendorFunctions_def vid_pid_def gf_example_def
      tell_def getCurrentUsbFunctions_def adb_endpoints_def FUNCTIONS_PATH_def)

end
