(* ===== verification/Usb_Port.thy ===== *)
theory Usb_Port
  imports C_Prelude
begin

text \<open>
  The USB port service (\<open>usb/Usb.cpp\<close>): reading the state of the ports from the kernel's files, telling
  the callback, switching roles, and the events that tell when a partner comes or goes. The kernel's
  answer to a write, the numbers of the interface's enumerators and the order of an unordered map are
  arguments. Log messages are left out.
\<close>

section \<open>The interface\<close>

datatype Status = SUCCESS | ERROR | UNRECOGNIZED_ROLE
datatype PortRoleType = DATA_ROLE | POWER_ROLE | MODE | OTHER_TYPE

record PortRole =
  type :: PortRoleType
  role :: "32 word"

text \<open>\<open>PortPowerRole\<close>, \<open>PortDataRole\<close>, \<open>PortMode_1_1\<close>, \<open>ContaminantProtectionMode\<close>\<close>

record usb_enums =
  PowerNONE :: "32 word"
  SOURCE :: "32 word"
  SINK :: "32 word"
  DataNONE :: "32 word"
  HOST :: "32 word"
  DEVICE :: "32 word"
  ModeNONE :: "32 word"
  UFP :: "32 word"
  DFP :: "32 word"
  DRP :: "32 word"
  AUDIO_ACCESSORY :: "32 word"
  DEBUG_ACCESSORY :: "32 word"
  FORCE_SINK :: "32 word"

text \<open>\<open>PortStatus\<close>: the fields of version 1.0, of 1.1, of 1.2. A new element is all zeros.\<close>

record PortStatus =
  portName :: string
  currentDataRole :: "32 word"
  currentPowerRole :: "32 word"
  currentMode :: "32 word"
  canChangeMode :: bool
  canChangeDataRole :: bool
  canChangePowerRole :: bool
  supportedModes :: "32 word"
  supportedModes_1_1 :: "32 word"
  currentMode_1_1 :: "32 word"
  supportedContaminantProtectionModes :: "32 word"

definition new_status :: PortStatus where
  "new_status = \<lparr>portName = [], currentDataRole = 0, currentPowerRole = 0, currentMode = 0, canChangeMode = False,
     canChangeDataRole = False, canChangePowerRole = False, supportedModes = 0, supportedModes_1_1 = 0,
     currentMode_1_1 = 0, supportedContaminantProtectionModes = 0\<rparr>"

text \<open>The version of a callback object, and what it is told.\<close>

datatype HALVersion = V1_0 | V1_1 | V1_2

datatype notification =
    is_switch: notifyRoleSwitchStatus string PortRole Status
  | notifyPortStatusChange HALVersion "PortStatus list" Status

section \<open>State\<close>

type_synonym path = string

text \<open>
  The files, the entries of \<open>/sys/class/typec\<close> with \<open>d_type == DT_LNK\<close>, the members of the object
  (\<open>mPoll\<close>: the worker thread runs; \<open>mRoleSwitchLock\<close>: held), what was told and what was written.
\<close>

record Usb =
  files :: "path \<Rightarrow> string option"
  typec :: "(string \<times> bool) list option"
  mCallback_1_0 :: "HALVersion option"
  mPartnerUp :: bool
  mRoleSwitchLock :: bool
  mPoll :: bool
  destroyThread :: bool
  told :: "notification list"
  wrote :: "(path \<times> string) list"

record kernel =
  can_open :: "path \<Rightarrow> bool"
  puts_ok :: "path \<Rightarrow> bool"
  react :: "path \<Rightarrow> string \<Rightarrow> (path \<Rightarrow> string option) \<Rightarrow> (path \<Rightarrow> string option)"
  order :: "(string \<times> bool) list \<Rightarrow> (string \<times> bool) list"

text \<open>\<open>fopen\<close>, \<open>fputs\<close>, \<open>fclose\<close>: \<open>None\<close> when it cannot be opened, else whether \<open>fputs\<close> succeeded.\<close>

definition write_node :: "kernel \<Rightarrow> path \<Rightarrow> string \<Rightarrow> Usb \<Rightarrow> bool option \<times> Usb" where
  "write_node k p s u =
     (if \<not> can_open k p then (None, u)
      else if puts_ok k p then (Some True, u\<lparr>files := react k p s (files u), wrote := wrote u @ [(p, s)]\<rparr>)
      else (Some False, u))"

section \<open>Data signalling\<close>

definition PULLUP_PATH :: path where "PULLUP_PATH = ''/config/usb_gadget/g1/UDC''"
definition kGadgetName :: string where "kGadgetName = ''a600000.dwc3''"
definition SOC_PATH :: path where "SOC_PATH = ''/sys/devices/platform/soc/a600000.ssusb/''"
definition ID_PATH :: path where "ID_PATH = SOC_PATH @ ''id''"
definition VBUS_PATH :: path where "VBUS_PATH = SOC_PATH @ ''b_sess''"
definition USB_DATA_PATH :: path where "USB_DATA_PATH = SOC_PATH @ ''usb_data_enabled''"

fun write_each :: "kernel \<Rightarrow> (string \<times> path) list \<Rightarrow> bool \<Rightarrow> Usb \<Rightarrow> bool \<times> Usb" where
  "write_each k [] result u = (result, u)"
| "write_each k ((s, p) # ws) result u =
     (let (r, u) = write_node k p s u in write_each k ws (if r = Some True then result else False) u)"

definition enableUsbDataSignal :: "kernel \<Rightarrow> bool \<Rightarrow> Usb \<Rightarrow> bool \<times> Usb" where
  "enableUsbDataSignal k enable u =
     write_each k (if enable then [(''1'', USB_DATA_PATH), (kGadgetName, PULLUP_PATH)]
       else [(''1'', ID_PATH), (''0'', VBUS_PATH), (''0'', USB_DATA_PATH), (''none'', PULLUP_PATH)]) True u"

section \<open>Reading the files\<close>

text \<open>The first line, up to a NUL; an empty file leaves \<open>*contents\<close> as it was. \<open>False\<close>: returns -1.\<close>

definition readFile :: "Usb \<Rightarrow> path \<Rightarrow> string \<Rightarrow> bool \<times> string" where
  "readFile u p contents =
     (case files u p of
        None \<Rightarrow> (False, contents)
      | Some s \<Rightarrow> (True, if s = [] then contents else cstr (takeWhile (\<lambda>c. c \<noteq> CHR 0x0A) s)))"

definition appendRoleNodeHelper :: "string \<Rightarrow> PortRoleType \<Rightarrow> path" where
  "appendRoleNodeHelper port t =
     (let node = ''/sys/class/typec/'' @ port in
      case t of DATA_ROLE \<Rightarrow> node @ ''/data_role'' | POWER_ROLE \<Rightarrow> node @ ''/power_role''
      | MODE \<Rightarrow> node @ ''/port_type'' | OTHER_TYPE \<Rightarrow> [])"

definition convertRoletoString :: "usb_enums \<Rightarrow> PortRole \<Rightarrow> string" where
  "convertRoletoString en r =
     (case type r of
        POWER_ROLE \<Rightarrow> if role r = SOURCE en then ''source'' else if role r = SINK en then ''sink'' else ''none''
      | DATA_ROLE \<Rightarrow> if role r = HOST en then ''host'' else if role r = DEVICE en then ''device'' else ''none''
      | MODE \<Rightarrow> if role r = UFP en then ''sink'' else if role r = DFP en then ''source'' else ''none''
      | OTHER_TYPE \<Rightarrow> ''none'')"

text \<open>\<open>find\<close> with a single character; \<open>None\<close> is \<open>npos\<close>.\<close>

fun find_char :: "char \<Rightarrow> string \<Rightarrow> nat option" where
  "find_char c [] = None"
| "find_char c (x # s) = (if x = c then Some 0 else map_option Suc (find_char c s))"

text \<open>\<open>start\<close> and \<open>close\<close> are \<open>first\<close> and \<open>last\<close>: a length \<open>last - first - 1\<close> that wraps around takes all the rest.\<close>

definition extractRole :: "string \<Rightarrow> string" where
  "extractRole roleName =
     (case (find_char CHR ''['' roleName, find_char CHR '']'' roleName) of
        (Some start, Some close) \<Rightarrow>
          if start < close then take (close - start - 1) (drop (start + 1) roleName) else drop (start + 1) roleName
      | _ \<Rightarrow> roleName)"

definition getAccessoryConnected :: "Usb \<Rightarrow> string \<Rightarrow> Status \<times> string" where
  "getAccessoryConnected u port =
     (let (r, accessory) = readFile u (''/sys/class/typec/'' @ port @ ''-partner/accessory_mode'') []
      in (if r then SUCCESS else ERROR, accessory))"

text \<open>The role a text stands for; \<open>None\<close>: \<open>UNRECOGNIZED_ROLE\<close>.\<close>

definition role_of_name :: "usb_enums \<Rightarrow> PortRoleType \<Rightarrow> string \<Rightarrow> 32 word \<Rightarrow> 32 word option" where
  "role_of_name en t roleName currentRole =
     (if roleName = ''source'' then Some (SOURCE en)
      else if roleName = ''sink'' then Some (SINK en)
      else if roleName = ''host'' then Some (if t = DATA_ROLE then HOST en else DFP en)
      else if roleName = ''device'' then Some (if t = DATA_ROLE then DEVICE en else UFP en)
      else if roleName \<noteq> ''none'' then None
      else Some currentRole)"

definition getCurrentRoleHelper :: "usb_enums \<Rightarrow> Usb \<Rightarrow> string \<Rightarrow> bool \<Rightarrow> PortRoleType \<Rightarrow> Status \<times> 32 word" where
  "getCurrentRoleHelper en u port connected t =
     (let node = ''/sys/class/typec/'' @ port;
          (filename, currentRole) = (case t of
             POWER_ROLE \<Rightarrow> (node @ ''/power_role'', PowerNONE en)
           | DATA_ROLE \<Rightarrow> (node @ ''/data_role'', DataNONE en)
           | MODE \<Rightarrow> (node @ ''/data_role'', ModeNONE en)
           | OTHER_TYPE \<Rightarrow> ([], 0));
          by_file = (let (r, roleName) = readFile u filename [] in
            if \<not> r then (ERROR, currentRole)
            else case role_of_name en t (extractRole roleName) currentRole of
                   None \<Rightarrow> (UNRECOGNIZED_ROLE, currentRole)
                 | Some x \<Rightarrow> (SUCCESS, x))
      in if t = OTHER_TYPE then (ERROR, currentRole)
         else if \<not> connected then (SUCCESS, currentRole)
         else if t = MODE then
           (let (st, accessory) = getAccessoryConnected u port in
            if st \<noteq> SUCCESS then (ERROR, currentRole)
            else if accessory = ''analog_audio'' then (SUCCESS, AUDIO_ACCESSORY en)
            else if accessory = ''debug'' then (SUCCESS, DEBUG_ACCESSORY en)
            else by_file)
         else by_file)"

text \<open>\<open>strtok (ep->d_name, "-")\<close>\<close>

definition partner_port :: "string \<Rightarrow> string" where
  "partner_port d_name = takeWhile (\<lambda>c. c \<noteq> CHR ''-'') (dropWhile (\<lambda>c. c = CHR ''-'') d_name)"

text \<open>One entry of the directory: a port, or the partner of a port.\<close>

definition port_entry :: "string \<times> bool \<Rightarrow> (string \<times> bool) list \<Rightarrow> (string \<times> bool) list" where
  "port_entry ep names =
     (let (d_name, link) = ep in
      if \<not> link then names
      else if \<not> strstr d_name ''-partner'' then
        (if map_of names d_name = None then names @ [(d_name, False)] else names)
      else
        let port = partner_port d_name
        in if map_of names port = None then names @ [(port, True)]
           else map (\<lambda>(n, c). (n, n = port \<or> c)) names)"

definition getTypeCPortNamesHelper :: "Usb \<Rightarrow> Status \<times> (string \<times> bool) list" where
  "getTypeCPortNamesHelper u =
     (case typec u of None \<Rightarrow> (ERROR, []) | Some es \<Rightarrow> (SUCCESS, fold port_entry es []))"

definition canSwitchRoleHelper :: "Usb \<Rightarrow> string \<Rightarrow> bool" where
  "canSwitchRoleHelper u port =
     (let (r, supportsPD) = readFile u (''/sys/class/typec/'' @ port @ ''-partner/supports_usb_power_delivery'') []
      in r \<and> supportsPD = ''yes'')"

text \<open>One element of the result; \<open>False\<close>: left half done by \<open>goto done\<close>.\<close>

definition port_status :: "usb_enums \<Rightarrow> Usb \<Rightarrow> HALVersion \<Rightarrow> string \<times> bool \<Rightarrow> bool \<times> PortStatus" where
  "port_status en u version port =
     (let p = new_status\<lparr>portName := fst port\<rparr>;
          (st, r) = getCurrentRoleHelper en u (fst port) (snd port) POWER_ROLE in
      if st \<noteq> SUCCESS then (False, p)
      else let p = p\<lparr>currentPowerRole := r\<rparr>;
               (st, r) = getCurrentRoleHelper en u (fst port) (snd port) DATA_ROLE in
      if st \<noteq> SUCCESS then (False, p)
      else let p = p\<lparr>currentDataRole := r\<rparr>;
               (st, r) = getCurrentRoleHelper en u (fst port) (snd port) MODE in
      if st \<noteq> SUCCESS then (False, p)
      else
        let p = p\<lparr>currentMode_1_1 := r, currentMode := r, canChangeMode := True,
              canChangeDataRole := snd port \<and> canSwitchRoleHelper u (fst port),
              canChangePowerRole := snd port \<and> canSwitchRoleHelper u (fst port)\<rparr>
        in (True, if version = V1_0 then p\<lparr>supportedModes := DRP en\<rparr>
                  else p\<lparr>supportedModes_1_1 := DRP en, supportedModes := ModeNONE en, currentMode := ModeNONE en\<rparr>))"

fun fill_status :: "usb_enums \<Rightarrow> Usb \<Rightarrow> HALVersion \<Rightarrow> (string \<times> bool) list \<Rightarrow> Status \<times> PortStatus list" where
  "fill_status en u version [] = (SUCCESS, [])"
| "fill_status en u version (port # ports) =
     (let (ok, p) = port_status en u version port in
      if ok then (let (st, ps) = fill_status en u version ports in (st, p # ps))
      else (ERROR, p # replicate (length ports) new_status))"

definition getPortStatusHelper :: "usb_enums \<Rightarrow> kernel \<Rightarrow> Usb \<Rightarrow> HALVersion \<Rightarrow> Status \<times> PortStatus list" where
  "getPortStatusHelper en k u version =
     (let (result, names) = getTypeCPortNamesHelper u in
      if result = SUCCESS then fill_status en u version (order k names) else (ERROR, []))"

text \<open>The first port; the other fields it sets are the zeros a new element has.\<close>

definition queryMoistureDetectionStatus :: "usb_enums \<Rightarrow> PortStatus list \<Rightarrow> Status \<times> PortStatus list" where
  "queryMoistureDetectionStatus en ps =
     (case ps of
        [] \<Rightarrow> (ERROR, ps)
      | p # r \<Rightarrow> (SUCCESS, p\<lparr>supportedContaminantProtectionModes := FORCE_SINK en\<rparr> # r))"

text \<open>The result is the vector of the caller, empty when no callback is set.\<close>

definition queryVersionHelper :: "usb_enums \<Rightarrow> kernel \<Rightarrow> Usb \<Rightarrow> PortStatus list \<times> Usb" where
  "queryVersionHelper en k u =
     (case mCallback_1_0 u of
        None \<Rightarrow> ([], u)
      | Some version \<Rightarrow>
          let (status, ps) = getPortStatusHelper en k u version;
              ps = (if version = V1_2 \<and> status = SUCCESS then snd (queryMoistureDetectionStatus en ps) else ps)
          in (ps, u\<lparr>told := told u @ [notifyPortStatusChange version ps status]\<rparr>))"

definition queryPortStatus :: "usb_enums \<Rightarrow> kernel \<Rightarrow> Usb \<Rightarrow> Usb" where
  "queryPortStatus en k u = snd (queryVersionHelper en k u)"

definition enableContaminantPresenceDetection :: "usb_enums \<Rightarrow> kernel \<Rightarrow> string \<Rightarrow> bool \<Rightarrow> Usb \<Rightarrow> Usb" where
  "enableContaminantPresenceDetection en k port enable u = snd (queryVersionHelper en k u)"

definition enableContaminantPresenceProtection :: "usb_enums \<Rightarrow> kernel \<Rightarrow> string \<Rightarrow> bool \<Rightarrow> Usb \<Rightarrow> Usb" where
  "enableContaminantPresenceProtection en k port enable u = snd (queryVersionHelper en k u)"

section \<open>Events\<close>

definition switchToDrp :: "kernel \<Rightarrow> string \<Rightarrow> Usb \<Rightarrow> Usb" where
  "switchToDrp k port u = snd (write_node k (appendRoleNodeHelper port MODE) ''dual'' u)"

definition UEVENT_MSG_LEN :: nat where "UEVENT_MSG_LEN = 2048"

text \<open>\<open>regex_match (cp, "(add)(.*)(-partner)")\<close>: the middle has no line terminator.\<close>

definition partner_added :: "string \<Rightarrow> bool" where
  "partner_added s \<longleftrightarrow> take 3 s = ''add'' \<and> 11 \<le> length s \<and> drop (length s - 8) s = ''-partner''
     \<and> (\<forall>c\<in>set (take (length s - 11) (drop 3 s)). c \<noteq> CHR 0x0A \<and> c \<noteq> CHR 0x0D)"

text \<open>The strings of a message, up to an empty one.\<close>

fun split_NUL :: "string \<Rightarrow> string \<Rightarrow> string list" where
  "split_NUL acc [] = [acc]"
| "split_NUL acc (c # s) = (if c = NUL then acc # split_NUL [] s else split_NUL (acc @ [c]) s)"

definition uevent_strings :: "string \<Rightarrow> string list" where
  "uevent_strings msg = takeWhile (\<lambda>s. s \<noteq> []) (split_NUL [] msg)"

text \<open>Ports without a partner go back to both roles.\<close>

definition has_partner :: "Usb \<Rightarrow> string \<Rightarrow> bool" where
  "has_partner u port \<longleftrightarrow>
     (case typec u of None \<Rightarrow> False | Some es \<Rightarrow> port @ ''-partner'' \<in> fst ` set es)"

definition drp_ports :: "kernel \<Rightarrow> PortStatus list \<Rightarrow> Usb \<Rightarrow> Usb" where
  "drp_ports k ps u = fold (\<lambda>p u. if has_partner u (portName p) then u else switchToDrp k (portName p) u) ps u"

text \<open>The loop over the strings; the result says whether a waiting thread was signalled.\<close>

fun uevent_loop :: "usb_enums \<Rightarrow> kernel \<Rightarrow> string list \<Rightarrow> bool \<Rightarrow> Usb \<Rightarrow> bool \<times> Usb" where
  "uevent_loop en k [] sig u = (sig, u)"
| "uevent_loop en k (cp # cps) sig u =
     (if partner_added cp then uevent_loop en k cps True (u\<lparr>mPartnerUp := True\<rparr>)
      else if take 14 cp = ''DEVTYPE=typec_'' then
        let (ps, u) = queryVersionHelper en k u
        in (sig, if mRoleSwitchLock u then u else drp_ports k ps u)
      else uevent_loop en k cps sig u)"

definition uevent_event :: "usb_enums \<Rightarrow> kernel \<Rightarrow> string \<Rightarrow> Usb \<Rightarrow> bool \<times> Usb" where
  "uevent_event en k msg u =
     (if msg = [] \<or> UEVENT_MSG_LEN \<le> length msg then (False, u)
      else uevent_loop en k (uevent_strings msg) False u)"

section \<open>Switching roles\<close>

text \<open>What can happen while the switch waits: a message, a wake-up without a signal, the time-out.\<close>

datatype wait_item = Uevent string | Spurious | TimedOut

text \<open>\<open>None\<close>: still waiting when the items are used up.\<close>

fun wait_partner :: "usb_enums \<Rightarrow> kernel \<Rightarrow> wait_item list \<Rightarrow> Usb \<Rightarrow> (bool \<times> Usb) option" where
  "wait_partner en k [] u = None"
| "wait_partner en k (TimedOut # items) u = Some (False, u)"
| "wait_partner en k (Spurious # items) u =
     (if mPartnerUp u then Some (True, u) else wait_partner en k items u)"
| "wait_partner en k (Uevent msg # items) u =
     (let (signalled, u) = uevent_event en k msg u in
      if signalled \<and> mPartnerUp u then Some (True, u) else wait_partner en k items u)"

definition switchMode :: "usb_enums \<Rightarrow> kernel \<Rightarrow> wait_item list \<Rightarrow> string \<Rightarrow> PortRole \<Rightarrow> Usb \<Rightarrow> (bool \<times> Usb) option" where
  "switchMode en k items port newRole u =
     (let filename = appendRoleNodeHelper port (type newRole) in
      if filename = [] then Some (False, u)
      else do {
        (roleSwitch, u) \<leftarrow>
          (if \<not> can_open k filename then Some (False, u)
           else
             let (r, u) = write_node k filename (convertRoletoString en newRole) (u\<lparr>mPartnerUp := False\<rparr>)
             in if r = Some True then wait_partner en k items u else Some (False, u));
        Some (roleSwitch, if \<not> roleSwitch then switchToDrp k port u else u) })"

definition switchRole :: "usb_enums \<Rightarrow> kernel \<Rightarrow> wait_item list \<Rightarrow> string \<Rightarrow> PortRole \<Rightarrow> Usb \<Rightarrow> Usb option" where
  "switchRole en k items port newRole u =
     (let filename = appendRoleNodeHelper port (type newRole) in
      if filename = [] then Some u
      else do {
        let u = u\<lparr>mRoleSwitchLock := True\<rparr>;
        (roleSwitch, u) \<leftarrow>
          (if type newRole = MODE then switchMode en k items port newRole u
           else
             let (r, u) = write_node k filename (convertRoletoString en newRole) u;
                 (got, written) = readFile u filename []
             in Some (r = Some True \<and> got \<and> extractRole written = convertRoletoString en newRole, u));
        let u = (if mCallback_1_0 u \<noteq> None
          then u\<lparr>told := told u @ [notifyRoleSwitchStatus port newRole (if roleSwitch then SUCCESS else ERROR)]\<rparr>
          else u);
        Some (u\<lparr>mRoleSwitchLock := False\<rparr>) })"

section \<open>The callback and its thread\<close>

text \<open>\<open>kill\<close>, \<open>create\<close>: whether \<open>pthread_kill\<close> and \<open>pthread_create\<close> succeed; \<open>join\<close> waits for the end.\<close>

definition setCallback :: "bool \<Rightarrow> bool \<Rightarrow> HALVersion option \<Rightarrow> Usb \<Rightarrow> Usb" where
  "setCallback kill create callback u =
     (if (mCallback_1_0 u = None) = (callback = None) then u\<lparr>mCallback_1_0 := callback\<rparr>
      else let u = u\<lparr>mCallback_1_0 := callback\<rparr> in
        if callback = None then (if kill then u\<lparr>destroyThread := True, mPoll := False\<rparr> else u)
        else let u = u\<lparr>destroyThread := False\<rparr> in
          if create then u\<lparr>mPoll := True\<rparr> else u\<lparr>mCallback_1_0 := None\<rparr>)"

section \<open>What the kernel's files say\<close>

lemma find_char_append [simp]: "c \<notin> set a \<Longrightarrow> find_char c (a @ c # b) = Some (length a)"
  by (induction a) auto

lemma extractRole_brackets:
  assumes "CHR ''['' \<notin> set a" "CHR '']'' \<notin> set a" "CHR '']'' \<notin> set cur"
  shows "extractRole (a @ CHR ''['' # cur @ CHR '']'' # b) = cur"
proof -
  have "find_char CHR '']'' ((a @ CHR ''['' # cur) @ CHR '']'' # b) = Some (length (a @ CHR ''['' # cur))"
    using assms by (intro find_char_append) simp
  then show ?thesis using assms by (simp add: extractRole_def)
qed

text \<open>What \<open>readFile\<close> and \<open>extractRole\<close> make of a file.\<close>

definition shown :: "string \<Rightarrow> string" where
  "shown s = extractRole (cstr (takeWhile (\<lambda>c. c \<noteq> CHR 0x0A) s))"

lemma readFile_Nil:
  "readFile u p [] = (case files u p of None \<Rightarrow> (False, []) | Some s \<Rightarrow> (True, cstr (takeWhile (\<lambda>c. c \<noteq> CHR 0x0A) s)))"
  by (auto simp: readFile_def split: option.splits)

lemma shown_brackets:
  assumes "set a \<inter> {NUL, CHR 0x0A, CHR ''['', CHR '']''} = {}" "set cur \<inter> {NUL, CHR 0x0A, CHR '']''} = {}"
  shows "shown (a @ CHR ''['' # cur @ CHR '']'' # b) = cur"
proof -
  have "takeWhile (\<lambda>c. c \<noteq> CHR 0x0A) (a @ CHR ''['' # cur @ CHR '']'' # b)
      = (a @ CHR ''['' # cur @ [CHR '']'']) @ takeWhile (\<lambda>c. c \<noteq> CHR 0x0A) b"
    using assms by (induction a) (auto simp: takeWhile_append)
  moreover have "NUL \<notin> set (a @ CHR ''['' # cur @ [CHR '']''])" using assms by auto
  ultimately have "cstr (takeWhile (\<lambda>c. c \<noteq> CHR 0x0A) (a @ CHR ''['' # cur @ CHR '']'' # b))
      = a @ CHR ''['' # cur @ CHR '']'' # cstr (takeWhile (\<lambda>c. c \<noteq> CHR 0x0A) b)"
    using cstr_append by fastforce
  then show ?thesis unfolding shown_def using assms by (auto intro!: extractRole_brackets)
qed

section \<open>The ports of the directory\<close>

definition plain_entry :: "(string \<times> bool) list \<Rightarrow> string \<Rightarrow> bool" where
  "plain_entry es n \<longleftrightarrow> (n, True) \<in> set es \<and> \<not> strstr n ''-partner''"

definition partner_entry :: "(string \<times> bool) list \<Rightarrow> string \<Rightarrow> bool" where
  "partner_entry es n \<longleftrightarrow> (\<exists>d. (d, True) \<in> set es \<and> strstr d ''-partner'' \<and> partner_port d = n)"

lemma partner_port_of: "p \<noteq> [] \<Longrightarrow> CHR ''-'' \<notin> set p \<Longrightarrow> partner_port (p @ ''-partner'') = p"
proof -
  assume "p \<noteq> []" "CHR ''-'' \<notin> set p"
  then have "dropWhile (\<lambda>c. c = CHR ''-'') (p @ ''-partner'') = p @ ''-partner''" by (cases p) auto
  moreover have "takeWhile (\<lambda>c. c \<noteq> CHR ''-'') (p @ ''-partner'') = p"
    using \<open>CHR ''-'' \<notin> set p\<close> by (induction p) auto
  ultimately show ?thesis by (simp add: partner_port_def)
qed

lemma map_of_mark: "map_of (map (\<lambda>(n, c). (n, n = p \<or> c)) names) m = map_option (\<lambda>c. m = p \<or> c) (map_of names m)"
  by (induction names) auto

lemma distinct_port_entry: "distinct (map fst names) \<Longrightarrow> distinct (map fst (port_entry ep names))"
  by (auto simp: port_entry_def Let_def map_of_eq_None_iff comp_def split_beta split: prod.splits)

lemma map_of_snoc: "map_of (names @ [(p, c)]) n = (case map_of names n of None \<Rightarrow> if n = p then Some c else None | Some x \<Rightarrow> Some x)"
  by (simp add: map_add_def split: option.splits)

lemma map_of_port_entry:
  "map_of (port_entry (d, l) names) n =
     (if \<not> l then map_of names n
      else if strstr d ''-partner'' then (if n = partner_port d then Some True else map_of names n)
      else if n = d \<and> map_of names n = None then Some False else map_of names n)"
proof (cases "l \<and> strstr d ''-partner''")
  case True
  show ?thesis
  proof (cases "map_of names (partner_port d)")
    case None
    then show ?thesis using True by (simp add: port_entry_def map_of_snoc del: map_of_append split: option.splits)
  next
    case (Some c)
    then show ?thesis using True by (cases "map_of names n"; cases "n = partner_port d") (simp_all add: port_entry_def map_of_mark)
  qed
next
  case False
  show ?thesis
  proof (cases "map_of names d")
    case None
    then show ?thesis using False by (simp add: port_entry_def map_of_snoc del: map_of_append split: option.splits)
  qed (use False in \<open>auto simp: port_entry_def\<close>)
qed

lemma typec_names:
  "distinct (map fst (fold port_entry es []))
   \<and> map_of (fold port_entry es []) n
     = (if plain_entry es n \<or> partner_entry es n then Some (partner_entry es n) else None)"
proof (induction es rule: rev_induct)
  case (snoc e es)
  obtain d l where e: "e = (d, l)" by (cases e)
  have D: "distinct (map fst (fold port_entry (es @ [e]) []))"
    using snoc distinct_port_entry by simp
  have P: "plain_entry (es @ [e]) n \<longleftrightarrow> plain_entry es n \<or> (l \<and> d = n \<and> \<not> strstr n ''-partner'')"
    by (auto simp: plain_entry_def e)
  have Q: "partner_entry (es @ [e]) n \<longleftrightarrow> partner_entry es n \<or> (l \<and> strstr d ''-partner'' \<and> partner_port d = n)"
    by (auto simp: partner_entry_def e)
  have "map_of (fold port_entry (es @ [e]) []) n
      = (if plain_entry (es @ [e]) n \<or> partner_entry (es @ [e]) n then Some (partner_entry (es @ [e]) n) else None)"
  proof -
    define F where "F = fold port_entry es []"
    have "map_of F n = (if plain_entry es n \<or> partner_entry es n then Some (partner_entry es n) else None)"
      using snoc F_def by blast
    then have "map_of (port_entry (d, l) F) n
      = (if (plain_entry es n \<or> (l \<and> d = n \<and> \<not> strstr n ''-partner'')) \<or> partner_entry es n \<or> (l \<and> strstr d ''-partner'' \<and> partner_port d = n)
         then Some (partner_entry es n \<or> (l \<and> strstr d ''-partner'' \<and> partner_port d = n)) else None)"
      unfolding map_of_port_entry by (cases l; cases "n = d"; simp)
    then show ?thesis unfolding P Q by (simp add: e F_def)
  qed
  with D show ?case by blast
qed (simp add: plain_entry_def partner_entry_def)

section \<open>The status of all ports\<close>

definition ports :: "(string \<times> bool) list \<Rightarrow> string set" where
  "ports es = {n. plain_entry es n \<or> partner_entry es n}"

lemma typec_names_set: "set (fold port_entry es []) = (\<lambda>n. (n, partner_entry es n)) ` ports es"
proof (rule set_eqI)
  fix x :: "string \<times> bool"
  obtain n c where x: "x = (n, c)" by (cases x)
  have d: "distinct (map fst (fold port_entry es []))"
    and m: "map_of (fold port_entry es []) n
     = (if plain_entry es n \<or> partner_entry es n then Some (partner_entry es n) else None)"
    using typec_names by blast+
  have "x \<in> set (fold port_entry es []) \<longleftrightarrow> map_of (fold port_entry es []) n = Some c"
    using map_of_eq_Some_iff [OF d] x by simp
  then show "x \<in> set (fold port_entry es []) \<longleftrightarrow> x \<in> (\<lambda>n. (n, partner_entry es n)) ` ports es"
    unfolding m by (auto simp: x ports_def)
qed

lemma fst_fill_status:
  "fst (fill_status en u v xs) = (if \<forall>x\<in>set xs. fst (port_status en u v x) then SUCCESS else ERROR)"
  by (induction xs) (simp_all add: split_beta Let_def)

lemma snd_fill_status:
  "\<forall>x\<in>set xs. fst (port_status en u v x) \<Longrightarrow> snd (fill_status en u v xs) = map (\<lambda>x. snd (port_status en u v x)) xs"
  by (induction xs) (simp_all add: split_beta Let_def)

lemma length_fill_status: "length (snd (fill_status en u v xs)) = length xs"
  by (induction xs) (simp_all add: split_beta Let_def)

lemma portName_port_status [simp]: "portName (snd (port_status en u v x)) = fst x"
  by (simp add: port_status_def Let_def split_beta)

text \<open>A port without a partner needs no file; its roles are the \<open>NONE\<close> of each type.\<close>

lemma port_status_unconnected:
  "port_status en u v (n, False) = (True, new_status\<lparr>portName := n, currentPowerRole := PowerNONE en,
     currentDataRole := DataNONE en, currentMode_1_1 := ModeNONE en, currentMode := ModeNONE en, canChangeMode := True,
     supportedModes := if v = V1_0 then DRP en else ModeNONE en, supportedModes_1_1 := if v = V1_0 then 0 else DRP en\<rparr>)"
  by (simp add: port_status_def getCurrentRoleHelper_def Let_def new_status_def)

text \<open>
  C35. Whatever the order of the directory and of the unordered map, the ports are told once each:
  the entries without \<open>-partner\<close> and the ports of the entries with it. The call succeeds when the
  files of every port that has a partner can be read, each element is that port's status, and a port
  without a partner is told as having no role.
\<close>

theorem getPortStatusHelper_spec:
  assumes order: "\<And>xs. set (order k xs) = set xs" "\<And>xs. distinct xs \<Longrightarrow> distinct (order k xs)"
    and es: "typec u = Some es"
    and r: "getPortStatusHelper en k u v = (st, ps)"
  shows "(st = SUCCESS \<longleftrightarrow> (\<forall>n. partner_entry es n \<longrightarrow> fst (port_status en u v (n, True))))
    \<and> length ps = card (ports es)
    \<and> (st = SUCCESS \<longrightarrow> distinct (map portName ps) \<and> set (map portName ps) = ports es
        \<and> (\<forall>p\<in>set ps. p = snd (port_status en u v (portName p, partner_entry es (portName p)))))"
proof -
  define xs where "xs = order k (fold port_entry es [])"
  have d0: "distinct (map fst (fold port_entry es []))" using typec_names by blast
  have set_xs: "set xs = (\<lambda>n. (n, partner_entry es n)) ` ports es"
    unfolding xs_def order(1) by (rule typec_names_set)
  have "distinct xs" unfolding xs_def using order(2) d0 by (simp add: distinct_map)
  then have d: "distinct (map fst xs)"
    unfolding distinct_map set_xs by (auto intro: inj_onI)
  have names: "set (map fst xs) = ports es" unfolding set_map set_xs by force
  have r': "(st, ps) = fill_status en u v xs"
    using r by (simp add: getPortStatusHelper_def getTypeCPortNamesHelper_def es xs_def)
  have "length ps = length xs" using length_fill_status [of en u v xs] r' by (metis snd_conv)
  also have "\<dots> = card (ports es)" using distinct_card [OF d] names by simp
  finally have len: "length ps = card (ports es)" .
  have all: "(\<forall>x\<in>set xs. fst (port_status en u v x)) \<longleftrightarrow> (\<forall>n. partner_entry es n \<longrightarrow> fst (port_status en u v (n, True)))"
  proof -
    have "fst (port_status en u v (n, partner_entry es n)) \<longleftrightarrow> (partner_entry es n \<longrightarrow> fst (port_status en u v (n, True)))" for n
      by (cases "partner_entry es n") (simp_all add: port_status_unconnected)
    then show ?thesis unfolding set_xs by (auto simp: ports_def)
  qed
  have S: "st = SUCCESS \<longleftrightarrow> (\<forall>x\<in>set xs. fst (port_status en u v x))"
    using fst_fill_status [of en u v xs] by (simp flip: r')
  have "distinct (map portName ps) \<and> set (map portName ps) = ports es
        \<and> (\<forall>p\<in>set ps. p = snd (port_status en u v (portName p, partner_entry es (portName p))))" if "st = SUCCESS"
  proof -
    have ps: "ps = map (\<lambda>x. snd (port_status en u v x)) xs"
      using that S snd_fill_status [of xs en u v] by (simp flip: r')
    have "map portName ps = map fst xs" by (simp add: ps comp_def)
    moreover have "\<forall>p\<in>set ps. p = snd (port_status en u v (portName p, partner_entry es (portName p)))"
      unfolding ps set_map set_xs by auto
    ultimately show ?thesis using d names by simp
  qed
  then show ?thesis using S all len by blast
qed

definition example_enums :: usb_enums where
  "example_enums = \<lparr>PowerNONE = 0, SOURCE = 1, SINK = 2, DataNONE = 0, HOST = 1, DEVICE = 2, ModeNONE = 0, UFP = 1,
     DFP = 2, DRP = 3, AUDIO_ACCESSORY = 4, DEBUG_ACCESSORY = 8, FORCE_SINK = 1\<rparr>"

text \<open>A kernel that shows a written role in brackets, and a port with a partner.\<close>

definition example_kernel :: kernel where
  "example_kernel = \<lparr>can_open = (\<lambda>_. True), puts_ok = (\<lambda>_. True),
     react = (\<lambda>p s f. f(p := Some (''x ['' @ s @ '']'' @ [CHR 0x0A]))), order = (\<lambda>xs. xs)\<rparr>"

definition example_usb :: Usb where
  "example_usb = \<lparr>files = [''/sys/class/typec/port0/power_role'' \<mapsto> ''[source] sink'',
       ''/sys/class/typec/port0/data_role'' \<mapsto> ''[host] device'',
       ''/sys/class/typec/port0-partner/accessory_mode'' \<mapsto> ''none'',
       ''/sys/class/typec/port0-partner/supports_usb_power_delivery'' \<mapsto> ''yes''],
     typec = Some [(''.'', False), (''port0-partner'', True), (''port0'', True)],
     mCallback_1_0 = Some V1_2, mPartnerUp = False, mRoleSwitchLock = False, mPoll = True, destroyThread = False,
     told = [], wrote = []\<rparr>"

lemma getPortStatusHelper_spec_witness:
  "\<exists>ps. getPortStatusHelper example_enums example_kernel example_usb V1_2 = (SUCCESS, ps)
     \<and> set (map portName ps) = ports [(''.'', False), (''port0-partner'', True), (''port0'', True)]"
proof -
  obtain ps where r: "getPortStatusHelper example_enums example_kernel example_usb V1_2 = (SUCCESS, ps)"
    by (rule that [of "snd (getPortStatusHelper example_enums example_kernel example_usb V1_2)"]) code_simp
  have "set (map portName ps) = ports [(''.'', False), (''port0-partner'', True), (''port0'', True)]"
    using getPortStatusHelper_spec [OF _ _ _ r, of "[(''.'', False), (''port0-partner'', True), (''port0'', True)]"]
    by (simp add: example_kernel_def example_usb_def)
  with r show ?thesis by blast
qed

section \<open>Events while a role is being switched\<close>

definition typec_event :: "string \<Rightarrow> bool" where
  "typec_event cp \<longleftrightarrow> take 14 cp = ''DEVTYPE=typec_''"

text \<open>A message that signals a waiting thread: a partner is added in a string before the \<open>DEVTYPE\<close> of a port.\<close>

definition announces :: "string \<Rightarrow> bool" where
  "announces msg \<longleftrightarrow> msg \<noteq> [] \<and> length msg < UEVENT_MSG_LEN
     \<and> (\<exists>s\<in>set (takeWhile (\<lambda>s. \<not> typec_event s) (uevent_strings msg)). partner_added s)"

text \<open>Nothing but the status of ports was told, and nothing was written.\<close>

definition only_status :: "Usb \<Rightarrow> Usb \<Rightarrow> bool" where
  "only_status u u' \<longleftrightarrow> mRoleSwitchLock u' = mRoleSwitchLock u \<and> mCallback_1_0 u' = mCallback_1_0 u
     \<and> files u' = files u \<and> wrote u' = wrote u \<and> filter is_switch (told u') = filter is_switch (told u)"

lemma only_status_trans: "only_status u v \<Longrightarrow> only_status v w \<Longrightarrow> only_status u w"
  by (simp add: only_status_def)

lemma only_status_refl: "only_status u u"
  by (simp add: only_status_def)

lemma only_status_up: "only_status u (u\<lparr>mPartnerUp := b\<rparr>)"
  by (simp add: only_status_def)

lemma queryVersionHelper_only_status:
  "queryVersionHelper en k u = (ps, u') \<Longrightarrow> only_status u u' \<and> mPartnerUp u' = mPartnerUp u"
  by (auto simp: queryVersionHelper_def only_status_def Let_def split_beta split: option.splits)

lemma partner_added_not_typec: "partner_added cp \<Longrightarrow> \<not> typec_event cp"
proof
  assume "partner_added cp" "typec_event cp"
  then have "take 3 cp = ''add''" "take 3 (take 14 cp) = take 3 ''DEVTYPE=typec_''"
    by (simp_all only: partner_added_def typec_event_def)
  then show False by (simp add: min_def)
qed

lemma uevent_loop_locked:
  "uevent_loop en k cps sig u = (sig', u') \<Longrightarrow> mRoleSwitchLock u \<Longrightarrow>
   only_status u u' \<and> (let a = (\<exists>s\<in>set (takeWhile (\<lambda>s. \<not> typec_event s) cps). partner_added s)
     in sig' = (sig \<or> a) \<and> mPartnerUp u' = (mPartnerUp u \<or> a))"
proof (induction en k cps sig u rule: uevent_loop.induct)
  case (2 en k cp cps sig u)
  consider (added) "partner_added cp" | (typec) "typec_event cp" "\<not> partner_added cp"
    | (other) "\<not> partner_added cp" "\<not> typec_event cp" by blast
  then show ?case
  proof cases
    case added
    have "uevent_loop en k cps True (u\<lparr>mPartnerUp := True\<rparr>) = (sig', u')" using 2(3) added by simp
    from 2(1) [OF added this] 2(4) have i: "only_status (u\<lparr>mPartnerUp := True\<rparr>) u'" "sig'" "mPartnerUp u'" by (simp_all add: Let_def)
    show ?thesis using i added partner_added_not_typec [OF added] only_status_trans [OF only_status_up i(1)] by simp
  next
    case typec
    obtain ps v where q: "queryVersionHelper en k u = (ps, v)" by (cases "queryVersionHelper en k u")
    have "mRoleSwitchLock v" using queryVersionHelper_only_status [OF q] 2(4) by (simp add: only_status_def)
    then show ?thesis using 2(3) typec q queryVersionHelper_only_status [OF q]
      by (simp add: typec_event_def)
  next
    case other
    then show ?thesis using 2 by (simp add: typec_event_def)
  qed
qed (simp add: only_status_refl)

lemma uevent_event_locked:
  assumes "uevent_event en k msg u = (signalled, u')" "mRoleSwitchLock u"
  shows "only_status u u' \<and> signalled = announces msg \<and> mPartnerUp u' = (mPartnerUp u \<or> announces msg)"
proof (cases "msg = [] \<or> UEVENT_MSG_LEN \<le> length msg")
  case True
  then show ?thesis using assms by (auto simp: uevent_event_def announces_def only_status_refl)
next
  case False
  then have "uevent_loop en k (uevent_strings msg) False u = (signalled, u')" using assms by (simp add: uevent_event_def)
  from uevent_loop_locked [OF this assms(2)] show ?thesis using False by (simp add: announces_def Let_def)
qed

text \<open>A partner is announced before the time-out.\<close>

definition announced :: "wait_item list \<Rightarrow> bool" where
  "announced items \<longleftrightarrow> (\<exists>msg. Uevent msg \<in> set (takeWhile (\<lambda>i. i \<noteq> TimedOut) items) \<and> announces msg)"

lemma wait_partner_spec:
  "mRoleSwitchLock u \<Longrightarrow> \<not> mPartnerUp u \<Longrightarrow> announced items \<or> TimedOut \<in> set items \<Longrightarrow>
   \<exists>u'. wait_partner en k items u = Some (announced items, u') \<and> only_status u u'"
proof (induction en k items u rule: wait_partner.induct)
  case (4 en k msg items u)
  obtain signalled v where e: "uevent_event en k msg u = (signalled, v)" by (cases "uevent_event en k msg u")
  note v = uevent_event_locked [OF e 4(2)]
  show ?case
  proof (cases "announces msg")
    case True
    then have "announced (Uevent msg # items)" by (auto simp: announced_def)
    then show ?thesis using True v e by simp
  next
    case False
    then have a: "announced (Uevent msg # items) = announced items" by (auto simp: announced_def)
    have "mRoleSwitchLock v" "\<not> mPartnerUp v" using v False 4(2,3) by (simp_all add: only_status_def)
    then obtain u' where "wait_partner en k items v = Some (announced items, u') \<and> only_status v u'"
      using 4(1) [OF e [symmetric]] 4(4) a False v by auto
    then show ?thesis using e v False a only_status_trans by auto
  qed
qed (auto simp: announced_def only_status_refl)

section \<open>Switching a role\<close>

text \<open>What the callback is told at the end.\<close>

definition switch_told :: "Usb \<Rightarrow> string \<Rightarrow> PortRole \<Rightarrow> bool \<Rightarrow> notification list" where
  "switch_told u port r ok =
     (if mCallback_1_0 u = None then [] else [notifyRoleSwitchStatus port r (if ok then SUCCESS else ERROR)])"

lemma write_node_fails: "\<not> (can_open k p \<and> puts_ok k p) \<Longrightarrow> \<exists>r. write_node k p s u = (r, u) \<and> r \<noteq> Some True"
  by (auto simp: write_node_def)

lemma write_node_works:
  "can_open k p \<Longrightarrow> puts_ok k p \<Longrightarrow>
   write_node k p s u = (Some True, u\<lparr>files := react k p s (files u), wrote := wrote u @ [(p, s)]\<rparr>)"
  by (simp add: write_node_def)

text \<open>
  The role a line shows: what stands between the first opening bracket and a later closing one, what
  follows the first opening bracket where the closing one comes before it, and the line itself where
  one of the brackets is missing.
\<close>

definition role_shown :: "string \<Rightarrow> string \<Rightarrow> bool" where
  "role_shown line cur \<longleftrightarrow>
     (\<exists>before after. line = before @ CHR ''['' # cur @ CHR '']'' # after
        \<and> CHR ''['' \<notin> set before \<and> CHR '']'' \<notin> set before \<and> CHR '']'' \<notin> set cur)
     \<or> (\<exists>a b. line = a @ CHR '']'' # b @ CHR ''['' # cur \<and> CHR ''['' \<notin> set a \<and> CHR '']'' \<notin> set a \<and> CHR ''['' \<notin> set b)
     \<or> (CHR ''['' \<notin> set line \<or> CHR '']'' \<notin> set line) \<and> line = cur"

lemma find_char_None: "c \<notin> set s \<Longrightarrow> find_char c s = None"
  by (induction s) auto

lemma extractRole_after:
  assumes "CHR ''['' \<notin> set a" "CHR '']'' \<notin> set a" "CHR ''['' \<notin> set b"
  shows "extractRole (a @ CHR '']'' # b @ CHR ''['' # cur) = cur"
proof -
  have "find_char CHR ''['' ((a @ CHR '']'' # b) @ CHR ''['' # cur) = Some (length (a @ CHR '']'' # b))"
    using assms by (intro find_char_append) auto
  then show ?thesis using assms by (simp add: extractRole_def)
qed

lemma role_shown_extract: "role_shown line cur \<longleftrightarrow> extractRole line = cur"
proof
  assume "role_shown line cur"
  then show "extractRole line = cur"
    unfolding role_shown_def
    by (elim disjE exE conjE)
      (auto simp: extractRole_brackets extractRole_after, auto simp: extractRole_def find_char_None split: option.split)
next
  assume e: "extractRole line = cur"
  show "role_shown line cur"
  proof (cases "CHR ''['' \<in> set line \<and> CHR '']'' \<in> set line")
    case False
    then have "extractRole line = line" by (auto simp: extractRole_def find_char_None split: option.split)
    then show ?thesis using e False by (auto simp: role_shown_def)
  next
    case True
    then obtain p q where p: "line = p @ CHR ''['' # q" "CHR ''['' \<notin> set p" using split_list_first by fastforce
    show ?thesis
    proof (cases "CHR '']'' \<in> set p")
      case True
      then obtain a b where "p = a @ CHR '']'' # b" "CHR '']'' \<notin> set a" using split_list_first by fastforce
      then show ?thesis using e p extractRole_after [of a b q] by (auto simp: role_shown_def)
    next
      case False
      then have "CHR '']'' \<in> set q" using True p by auto
      then obtain c b where "q = c @ CHR '']'' # b" "CHR '']'' \<notin> set c" using split_list_first by fastforce
      then show ?thesis using e p False extractRole_brackets [of p c b] by (auto simp: role_shown_def)
    qed
  qed
qed

definition first_line :: "string \<Rightarrow> string" where
  "first_line s = cstr (takeWhile (\<lambda>c. c \<noteq> CHR 0x0A) s)"

text \<open>
  C34. Switching the power or the data role, whatever the kernel makes of the write: the name of the role
  is written to its file once, when the file can be opened and the write is taken, and the callback is
  told SUCCESS exactly when the file can be read after that and its first line shows that role
  (\<open>role_shown\<close>: in brackets, or as the whole line where a bracket is missing), ERROR in every other case;
  the lock is released.
\<close>

theorem switchRole_power_data:
  assumes t: "type r = POWER_ROLE \<or> type r = DATA_ROLE"
    and node: "node = appendRoleNodeHelper port (type r)" and name: "name = convertRoletoString en r"
    and ok: "ok \<longleftrightarrow> can_open k node \<and> puts_ok k node"
  shows "switchRole en k items port r u = Some (u\<lparr>mRoleSwitchLock := False,
      files := if ok then react k node name (files u) else files u,
      wrote := wrote u @ (if ok then [(node, name)] else []),
      told := told u @ switch_told u port r
        (ok \<and> (case react k node name (files u) node of None \<Rightarrow> False | Some s \<Rightarrow> role_shown (first_line s) name))\<rparr>)"
proof -
  have n: "appendRoleNodeHelper port (type r) \<noteq> []" "type r \<noteq> MODE"
    using t by (auto simp: appendRoleNodeHelper_def Let_def)
  show ?thesis
  proof (cases ok)
    case True
    then show ?thesis using n ok
      by (simp add: switchRole_def write_node_works readFile_Nil switch_told_def role_shown_extract first_line_def
          split: option.split flip: node name)
  next
    case False
    then obtain x where w: "write_node k node name (u\<lparr>mRoleSwitchLock := True\<rparr>) = (x, u\<lparr>mRoleSwitchLock := True\<rparr>)" "x \<noteq> Some True"
      using write_node_fails ok by blast
    show ?thesis using False n w
      by (simp add: switchRole_def switch_told_def split_beta flip: node name)
  qed
qed

lemma switchRole_power_data_witness:
  "switchRole example_enums example_kernel [] ''port0'' \<lparr>type = POWER_ROLE, role = 2\<rparr> example_usb
     = Some (example_usb\<lparr>files := (files example_usb)(''/sys/class/typec/port0/power_role'' \<mapsto> ''x [sink]'' @ [CHR 0x0A]),
         wrote := [(''/sys/class/typec/port0/power_role'', ''sink'')],
         told := [notifyRoleSwitchStatus ''port0'' \<lparr>type = POWER_ROLE, role = 2\<rparr> SUCCESS]\<rparr>)"
proof -
  have a: "appendRoleNodeHelper ''port0'' POWER_ROLE = ''/sys/class/typec/port0/power_role''"
    "convertRoletoString example_enums \<lparr>type = POWER_ROLE, role = 2\<rparr> = ''sink''"
    by code_simp+
  show ?thesis
    using switchRole_power_data [of "\<lparr>type = POWER_ROLE, role = 2\<rparr>" _ "''port0''" _ example_enums True example_kernel "[]" example_usb]
    by (simp add: a example_kernel_def switch_told_def role_shown_extract) (simp add: example_usb_def extractRole_def first_line_def cstr_Cons)
qed

text \<open>
  C33. Switching the mode: when the file can be opened and takes the write, and a message or the time-out
  ends the waiting, the callback is told SUCCESS exactly when a kernel message announces a partner before
  the time-out. In between nothing else is written, although the thread keeps answering the events of the
  port: it leaves \<open>dual\<close> alone while the switch holds the lock. Without a partner \<open>dual\<close> is written back.
\<close>

theorem switchRole_mode:
  assumes t: "type r = MODE"
    and node: "node = appendRoleNodeHelper port MODE"
    and ok: "can_open k node" "puts_ok k node"
    and over: "announced items \<or> TimedOut \<in> set items"
  shows "\<exists>u'. switchRole en k items port r u = Some u' \<and> \<not> mRoleSwitchLock u'
    \<and> wrote u' = wrote u @ (node, convertRoletoString en r) # (if announced items then [] else [(node, ''dual'')])
    \<and> filter is_switch (told u') = filter is_switch (told u) @ switch_told u port r (announced items)"
proof -
  have n: "node \<noteq> []" by (simp add: node appendRoleNodeHelper_def Let_def)
  define v where "v = u\<lparr>mRoleSwitchLock := True, mPartnerUp := False,
    files := react k node (convertRoletoString en r) (files u), wrote := wrote u @ [(node, convertRoletoString en r)]\<rparr>"
  obtain w where w: "wait_partner en k items v = Some (announced items, w)" and q: "only_status v w"
    using wait_partner_spec [of v items en k] over by (auto simp: v_def)
  define x where "x = (if announced items then w else w\<lparr>files := react k node ''dual'' (files w), wrote := wrote w @ [(node, ''dual'')]\<rparr>)"
  have m: "switchMode en k items port r (u\<lparr>mRoleSwitchLock := True\<rparr>) = Some (announced items, x)"
    using t n ok w by (simp add: switchMode_def v_def x_def write_node_works switchToDrp_def flip: node)
  have s: "switchRole en k items port r u = Some (let x = (if mCallback_1_0 x \<noteq> None
      then x\<lparr>told := told x @ [notifyRoleSwitchStatus port r (if announced items then SUCCESS else ERROR)]\<rparr> else x)
      in x\<lparr>mRoleSwitchLock := False\<rparr>)"
    using t n m by (simp add: switchRole_def Let_def flip: node)
  have "mCallback_1_0 x = mCallback_1_0 u" "filter is_switch (told x) = filter is_switch (told u)"
    "wrote x = wrote u @ (node, convertRoletoString en r) # (if announced items then [] else [(node, ''dual'')])"
    using q by (simp_all add: only_status_def x_def v_def)
  then show ?thesis unfolding s by (auto simp: switch_told_def Let_def)
qed

definition example_items :: "wait_item list" where
  "example_items = [Uevent (''DEVTYPE=typec_partner'' @ [NUL]), Uevent (''add/port0/port0-partner'' @ [NUL] @ ''ACTION=add'' @ [NUL]), TimedOut]"

lemma switchRole_mode_witness:
  "\<exists>u'. switchRole example_enums example_kernel example_items ''port0'' \<lparr>type = MODE, role = 2\<rparr> example_usb = Some u'
     \<and> wrote u' = [(''/sys/class/typec/port0/port_type'', ''source'')]
     \<and> filter is_switch (told u') = [notifyRoleSwitchStatus ''port0'' \<lparr>type = MODE, role = 2\<rparr> SUCCESS]"
proof -
  have a: "appendRoleNodeHelper ''port0'' MODE = ''/sys/class/typec/port0/port_type''"
    "convertRoletoString example_enums \<lparr>type = MODE, role = 2\<rparr> = ''source''"
    by code_simp+
  have "announces (''add/port0/port0-partner'' @ [NUL] @ ''ACTION=add'' @ [NUL])" by code_simp
  then have c: "announced example_items"
    by (auto simp: announced_def example_items_def)
  have k: "can_open example_kernel p" "puts_ok example_kernel p" for p by (simp_all add: example_kernel_def)
  have u: "mCallback_1_0 example_usb = Some V1_2" "told example_usb = []" "wrote example_usb = []"
    by (simp_all add: example_usb_def)
  show ?thesis
    using switchRole_mode [of "\<lparr>type = MODE, role = 2\<rparr>" _ "''port0''" example_kernel _ example_enums example_usb, OF _ refl _ _ disjI1 [OF c]] c
    by (auto simp: a k u switch_told_def)
qed

text \<open>
  As long as \<open>pthread_kill\<close> succeeds, the worker thread runs exactly while a callback is set, also
  after a failed \<open>pthread_create\<close>.
\<close>

lemma setCallback_thread:
  "mPoll u = (mCallback_1_0 u \<noteq> None) \<Longrightarrow> u' = setCallback True create callback u
   \<Longrightarrow> mPoll u' = (mCallback_1_0 u' \<noteq> None) \<and> (callback = None \<longrightarrow> \<not> mPoll u')"
  by (auto simp: setCallback_def Let_def)

end
