(* ===== verification/Gpt_Device.thy ===== *)
theory Gpt_Device
  imports C_Prelude
begin

text \<open>
  The bottom of \<open>src/gpt-utils\<close>: the byte macros, and the block device below \<open>blk_rw\<close>.

  The kernel is not part of the sources. A device is its bytes and its block size, and what
  the code relies on is what the calls it makes are documented to do: \<open>lseek64\<close> gives the
  new offset, \<open>read\<close> and \<open>write\<close> transfer at most the number of bytes asked for and say how
  many, each call may fail and then changes nothing. Which calls fail, and which transfers
  are short, is the argument \<open>fault\<close>: a function of the number of the call. The checksum
  (\<open>crc32\<close> of zlib) and the bytes of fresh memory are arguments as well.
\<close>

section \<open>Bytes of a buffer\<close>

definition byte_word :: "char \<Rightarrow> 'a::len word" where
  "byte_word c = word_of_nat (code_of c)"

definition word_byte :: "'a::len word \<Rightarrow> char" where
  "word_byte w = char_of (unat (w AND 0xff))"

definition GET_4_BYTES :: "string \<Rightarrow> nat \<Rightarrow> 32 word option" where
  "GET_4_BYTES b p =
     (if p + 4 \<le> length b
      then Some (byte_word (b ! p) OR push_bit 8 (byte_word (b ! (p + 1)))
        OR push_bit 16 (byte_word (b ! (p + 2))) OR push_bit 24 (byte_word (b ! (p + 3))))
      else None)"

definition GET_8_BYTES :: "string \<Rightarrow> nat \<Rightarrow> 64 word option" where
  "GET_8_BYTES b p =
     (if p + 8 \<le> length b
      then Some (byte_word (b ! p) OR push_bit 8 (byte_word (b ! (p + 1)))
        OR push_bit 16 (byte_word (b ! (p + 2))) OR push_bit 24 (byte_word (b ! (p + 3)))
        OR push_bit 32 (byte_word (b ! (p + 4))) OR push_bit 40 (byte_word (b ! (p + 5)))
        OR push_bit 48 (byte_word (b ! (p + 6))) OR push_bit 56 (byte_word (b ! (p + 7))))
      else None)"

definition PUT_4_BYTES :: "string \<Rightarrow> nat \<Rightarrow> 32 word \<Rightarrow> string option" where
  "PUT_4_BYTES b p y =
     (if p + 4 \<le> length b
      then Some (b[p := word_byte y, p + 1 := word_byte (drop_bit 8 y),
                   p + 2 := word_byte (drop_bit 16 y), p + 3 := word_byte (drop_bit 24 y)])
      else None)"

lemma byte_word_word_byte [simp]:
  "(byte_word (word_byte (w :: 32 word)) :: 32 word) = w AND 0xff"
proof -
  have "unat (w AND 0xff) < 256" using word_and_le1 [of w "0xff"] by (simp add: word_le_nat_alt)
  then show ?thesis by (simp add: byte_word_def word_byte_def)
qed

lemma put_bytes_word:
  fixes y :: "32 word"
  shows "(y AND 0xff) OR push_bit 8 (drop_bit 8 y AND 0xff) OR push_bit 16 (drop_bit 16 y AND 0xff)
    OR push_bit 24 (drop_bit 24 y AND 0xff) = y"
proof -
  have m: "(0xff :: 32 word) = mask 8" by (simp add: mask_eq_exp_minus_1)
  show ?thesis unfolding m
  proof (rule bit_word_eqI)
    fix n assume n: "n < LENGTH(32)"
    consider "n < 8" | "8 \<le> n" "n < 16" | "16 \<le> n" "n < 24" | "24 \<le> n" by linarith
    then show "bit (y AND mask 8 OR push_bit 8 (drop_bit 8 y AND mask 8) OR push_bit 16 (drop_bit 16 y AND mask 8)
      OR push_bit 24 (drop_bit 24 y AND mask 8)) n = bit y n"
      using n by cases (auto simp: bit_simps)
  qed
qed

lemma length_PUT_4_BYTES: "PUT_4_BYTES b p y = Some b' \<Longrightarrow> length b' = length b"
  by (auto simp: PUT_4_BYTES_def split: if_splits)

lemma GET_PUT_4_BYTES: "PUT_4_BYTES b p y = Some b' \<Longrightarrow> GET_4_BYTES b' p = Some y"
  using put_bytes_word [of y]
  by (auto simp: PUT_4_BYTES_def GET_4_BYTES_def split: if_splits)

lemma PUT_4_BYTES_nth:
  "PUT_4_BYTES b p y = Some b' \<Longrightarrow> i < p \<or> p + 4 \<le> i \<Longrightarrow> b' ! i = b ! i"
  by (auto simp: PUT_4_BYTES_def split: if_splits)

lemma GET_4_cong:
  "length b' = length b \<Longrightarrow> (\<And>i. p \<le> i \<Longrightarrow> i < p + 4 \<Longrightarrow> b' ! i = b ! i) \<Longrightarrow>
   GET_4_BYTES b' p = GET_4_BYTES b p"
  by (auto simp: GET_4_BYTES_def)

lemma GET_8_cong:
  "length b' = length b \<Longrightarrow> (\<And>i. p \<le> i \<Longrightarrow> i < p + 8 \<Longrightarrow> b' ! i = b ! i) \<Longrightarrow>
   GET_8_BYTES b' p = GET_8_BYTES b p"
  by (auto simp: GET_8_BYTES_def)

lemma GET_4_PUT_4_other:
  "PUT_4_BYTES b p y = Some b' \<Longrightarrow> q + 4 \<le> p \<or> p + 4 \<le> q \<Longrightarrow> GET_4_BYTES b' q = GET_4_BYTES b q"
  by (rule GET_4_cong) (auto simp: length_PUT_4_BYTES intro!: PUT_4_BYTES_nth)

lemma GET_8_PUT_4_other:
  "PUT_4_BYTES b p y = Some b' \<Longrightarrow> q + 8 \<le> p \<or> p + 4 \<le> q \<Longrightarrow> GET_8_BYTES b' q = GET_8_BYTES b q"
  by (rule GET_8_cong) (auto simp: length_PUT_4_BYTES intro!: PUT_4_BYTES_nth)

lemma PUT_4_ok: "p + 4 \<le> length b \<Longrightarrow> \<exists>b'. PUT_4_BYTES b p y = Some b' \<and> length b' = length b"
  by (simp add: PUT_4_BYTES_def)

lemma GET_4_ok: "p + 4 \<le> length b \<Longrightarrow> \<exists>w. GET_4_BYTES b p = Some w"
  by (simp add: GET_4_BYTES_def)

lemma GET_8_ok: "p + 8 \<le> length b \<Longrightarrow> \<exists>w. GET_8_BYTES b p = Some w"
  by (simp add: GET_8_BYTES_def)

text \<open>Putting a word where another was put: the last one counts.\<close>

lemma PUT_PUT_4_BYTES:
  "PUT_4_BYTES b p y = Some b' \<Longrightarrow> PUT_4_BYTES b' p z = PUT_4_BYTES b p z"
  by (auto simp: PUT_4_BYTES_def list_update_swap split: if_splits)

section \<open>Regions of a device\<close>

definition slice :: "nat \<Rightarrow> nat \<Rightarrow> 'a list \<Rightarrow> 'a list" where
  "slice off n xs = take n (drop off xs)"

definition splice_at :: "nat \<Rightarrow> 'a list \<Rightarrow> 'a list \<Rightarrow> 'a list" where
  "splice_at off bs xs = take off xs @ bs @ drop (off + length bs) xs"

lemma length_slice [simp]: "off + n \<le> length xs \<Longrightarrow> length (slice off n xs) = n"
  by (simp add: slice_def)

lemma length_splice_at [simp]: "off + length bs \<le> length xs \<Longrightarrow> length (splice_at off bs xs) = length xs"
  by (simp add: splice_at_def)

lemma nth_slice [simp]: "off + n \<le> length xs \<Longrightarrow> i < n \<Longrightarrow> slice off n xs ! i = xs ! (off + i)"
  by (simp add: slice_def)

lemma nth_splice_at:
  "off + length bs \<le> length xs \<Longrightarrow> i < length xs \<Longrightarrow>
   splice_at off bs xs ! i = (if off \<le> i \<and> i < off + length bs then bs ! (i - off) else xs ! i)"
  by (auto simp: splice_at_def nth_append)

lemma slice_splice_same:
  "off + length bs \<le> length xs \<Longrightarrow> n = length bs \<Longrightarrow> slice off n (splice_at off bs xs) = bs"
  by (simp add: slice_def splice_at_def)

lemma slice_splice_other:
  assumes "off + length bs \<le> length xs" "o' + n \<le> off \<or> off + length bs \<le> o'"
  shows "slice o' n (splice_at off bs xs) = slice o' n xs"
  using assms(2)
proof
  assume "o' + n \<le> off"
  then show ?thesis using assms(1) by (simp add: slice_def splice_at_def drop_take)
next
  assume o: "off + length bs \<le> o'"
  then have "drop o' (splice_at off bs xs) = drop o' xs"
    using assms(1) by (simp add: splice_at_def)
  then show ?thesis by (simp add: slice_def)
qed

section \<open>System calls\<close>

datatype outcome = Works | Fails | Short nat

record gpt_env =
  crc32 :: "string \<Rightarrow> 32 word"
  fault :: "nat \<Rightarrow> outcome"
  junk :: "nat \<Rightarrow> char"

record blkdev =
  dev_bytes :: string
  dev_blk :: "32 word"
  dev_calls :: nat

definition sys_call :: "gpt_env \<Rightarrow> blkdev \<Rightarrow> outcome \<times> blkdev" where
  "sys_call e d = (fault e (dev_calls d), d\<lparr>dev_calls := dev_calls d + 1\<rparr>)"

text \<open>\<open>ioctl (fd, BLKSSZGET, &blk_size)\<close>: the block size, or \<open>None\<close> when the call fails.\<close>

definition ioctl_BLKSSZGET :: "gpt_env \<Rightarrow> blkdev \<Rightarrow> 32 word option \<times> blkdev" where
  "ioctl_BLKSSZGET e d = (let (s, d) = sys_call e d in (if s = Fails then None else Some (dev_blk d), d))"

definition os_malloc :: "gpt_env \<Rightarrow> nat \<Rightarrow> blkdev \<Rightarrow> string option \<times> blkdev" where
  "os_malloc e n d = (let (s, d) = sys_call e d in (if s = Fails then None else Some (map (junk e) [0..<n]), d))"

definition os_calloc :: "gpt_env \<Rightarrow> nat \<Rightarrow> blkdev \<Rightarrow> string option \<times> blkdev" where
  "os_calloc e n d = (let (s, d) = sys_call e d in (if s = Fails then None else Some (replicate n NUL), d))"

definition lseek_end :: "gpt_env \<Rightarrow> blkdev \<Rightarrow> int \<times> blkdev" where
  "lseek_end e d = (let (s, d) = sys_call e d in (if s = Fails then -1 else int (length (dev_bytes d)), d))"

definition lseek_set :: "gpt_env \<Rightarrow> int \<Rightarrow> blkdev \<Rightarrow> int \<times> blkdev" where
  "lseek_set e off d = (let (s, d) = sys_call e d in (if s = Fails \<or> off < 0 then -1 else off, d))"

text \<open>How many of \<open>n\<close> bytes are transferred at \<open>off\<close>; one call moves at most \<open>0x7ffff000\<close> bytes.\<close>

definition transfer :: "outcome \<Rightarrow> nat \<Rightarrow> nat \<Rightarrow> blkdev \<Rightarrow> nat" where
  "transfer s off n d =
     (let k = min (min n 0x7ffff000) (length (dev_bytes d) - off) in case s of Short m \<Rightarrow> min k m | _ \<Rightarrow> k)"

definition os_read :: "gpt_env \<Rightarrow> nat \<Rightarrow> string \<Rightarrow> nat \<Rightarrow> blkdev \<Rightarrow> int \<times> string \<times> blkdev" where
  "os_read e off b n d =
     (let (s, d) = sys_call e d; k = transfer s off n d
      in if s = Fails then (-1, b, d) else (int k, slice off k (dev_bytes d) @ drop k b, d))"

definition os_write :: "gpt_env \<Rightarrow> nat \<Rightarrow> string \<Rightarrow> nat \<Rightarrow> blkdev \<Rightarrow> int \<times> blkdev" where
  "os_write e off b n d =
     (let (s, d) = sys_call e d; k = transfer s off n d
      in if s = Fails \<or> (length (dev_bytes d) \<le> off \<and> 0 < n) then (-1, d)
         else (int k, d\<lparr>dev_bytes := splice_at off (take k b) (dev_bytes d)\<rparr>))"

definition os_fsync :: "gpt_env \<Rightarrow> blkdev \<Rightarrow> int \<times> blkdev" where
  "os_fsync e d = (let (s, d) = sys_call e d in (if s = Fails then -1 else 0, d))"

section \<open>blk\_rw\<close>

text \<open>Result, buffer, device. The buffer must hold \<open>len\<close> bytes.\<close>

definition blk_rw :: "gpt_env \<Rightarrow> bool \<Rightarrow> int \<Rightarrow> string \<Rightarrow> nat \<Rightarrow> blkdev \<Rightarrow> (int \<times> string \<times> blkdev) option" where
  "blk_rw e rw offset b len d =
     (let (o', d) = lseek_set e offset d in
      if o' < 0 then Some (-1, b, d)
      else if length b < len then None
      else let (r, b, d) = (if rw then let (r, d) = os_write e (nat offset) b len d in (r, b, d)
                            else os_read e (nat offset) b len d)
        in if r < 0 then Some (r, b, d)
           else if rw then let (r, d) = os_fsync e d in Some (r, b, d)
           else Some (0, b, d))"

text \<open>The checksum of the first \<open>n\<close> bytes of a buffer.\<close>

definition crc_of :: "gpt_env \<Rightarrow> string \<Rightarrow> nat \<Rightarrow> 32 word option" where
  "crc_of e b n = (if n \<le> length b then Some (crc32 e (take n b)) else None)"

text \<open>No call is cut short: what is assumed of the device where a write must not be torn.\<close>

definition no_short :: "gpt_env \<Rightarrow> bool" where
  "no_short e \<longleftrightarrow> (\<forall>n k. fault e n \<noteq> Short k)"

text \<open>Every call succeeds in full.\<close>

definition works :: "gpt_env \<Rightarrow> bool" where
  "works e \<longleftrightarrow> (\<forall>n. fault e n = Works)"

lemma fails_not_works: "fault e n = Fails \<Longrightarrow> \<not> works e"
  by (metis outcome.distinct(1) works_def)

lemma works_no_short: "works e \<Longrightarrow> no_short e"
  by (simp add: works_def no_short_def)

text \<open>Two states of one device that differ in the number of calls only.\<close>

definition same_dev :: "blkdev \<Rightarrow> blkdev \<Rightarrow> bool" where
  "same_dev d d' \<longleftrightarrow> dev_bytes d' = dev_bytes d \<and> dev_blk d' = dev_blk d"

lemma same_dev_refl [simp, intro]: "same_dev d d"
  by (simp add: same_dev_def)

lemma same_dev_trans: "same_dev d d' \<Longrightarrow> same_dev d' d'' \<Longrightarrow> same_dev d d''"
  by (simp add: same_dev_def)

lemma sys_call_same: "sys_call e d = (s, d') \<Longrightarrow> same_dev d d'"
  by (auto simp: sys_call_def same_dev_def)

lemma blk_rw_defined: "length b = n \<Longrightarrow> \<exists>r b' d'. blk_rw e rw off b n d = Some (r, b', d')"
  by (cases "blk_rw e rw off b n d")
    (auto simp: blk_rw_def lseek_set_def sys_call_def os_write_def os_read_def os_fsync_def Let_def split: if_splits)

lemma blk_read_cases:
  assumes "blk_rw e False off b n d = Some (r, b', d')" "no_short e" "nat off + n \<le> length (dev_bytes d)"
    "n \<le> 0x7ffff000" "length b = n"
  obtains (bad) "r = -1" "same_dev d d'" "\<not> works e \<or> off < 0"
  | (good) "r = 0" "same_dev d d'" "b' = slice (nat off) n (dev_bytes d)"
proof -
  have ns: "fault e k \<noteq> Short m" for k m using assms(2) by (simp add: no_short_def)
  have t: "transfer s (nat off) n d'' = n" if "dev_bytes d'' = dev_bytes d" "\<And>m. s \<noteq> Short m" for s d''
    using assms(3,4) that by (cases s) (auto simp: transfer_def)
  show ?thesis
    using assms(1,5)
    by (auto simp: blk_rw_def lseek_set_def sys_call_def os_read_def Let_def t ns same_dev_def works_def
        split: if_splits intro: bad good)
qed

lemma blk_write_cases:
  assumes "blk_rw e True off b n d = Some (r, b', d')" "no_short e" "nat off + n \<le> length (dev_bytes d)"
    "n \<le> 0x7ffff000" "length b = n"
  obtains (unchanged) "r = -1" "same_dev d d'" "\<not> works e \<or> off < 0"
  | (written) "r = 0 \<or> r = -1" "works e \<longrightarrow> r = 0" "dev_blk d' = dev_blk d" "dev_bytes d' = splice_at (nat off) b (dev_bytes d)"
proof -
  have ns: "fault e k \<noteq> Short m" for k m using assms(2) by (simp add: no_short_def)
  have t: "transfer s (nat off) n d'' = n" if "dev_bytes d'' = dev_bytes d" "\<And>m. s \<noteq> Short m" for s d''
    using assms(3,4) that by (cases s) (auto simp: transfer_def)
  have room: "\<not> (length (dev_bytes d) \<le> nat off \<and> 0 < n)" using assms(3) by auto
  show ?thesis
    using assms(1,5) room
    by (auto simp: blk_rw_def lseek_set_def sys_call_def os_write_def os_fsync_def Let_def t ns same_dev_def works_def
        split: if_splits intro: unchanged written)
qed

text \<open>
  What \<open>no_short\<close> excludes: a write that stops after \<open>k\<close> bytes is taken for a success, because
  \<open>blk_rw\<close> only asks whether the count is negative.
\<close>

lemma torn_write:
  assumes "fault e (dev_calls d) = Works" "fault e (dev_calls d + 1) = Short k" "fault e (dev_calls d + 2) = Works"
    "0 \<le> off" "nat off + n \<le> length (dev_bytes d)" "n \<le> 0x7ffff000" "length b = n" "k < n"
  shows "\<exists>d'. blk_rw e True off b n d = Some (0, b, d') \<and> dev_bytes d' = splice_at (nat off) (take k b) (dev_bytes d)"
  using assms by (simp add: blk_rw_def lseek_set_def sys_call_def os_write_def os_fsync_def transfer_def Let_def)

end
