(* ===== verification/Gpt_Table.thy ===== *)
theory Gpt_Table
  imports Gpt_Device
begin

text \<open>
  The partition entries of a GUID partition table: \<open>gpt_pentry_seek\<close>, which finds an entry by
  name or by name with \<open>bak\<close> behind it, and \<open>gpt_boot_chain_swap\<close>, which exchanges each boot
  partition with its backup. The entries are one byte array; a pointer into it is an offset.
\<close>

section \<open>Comparing names\<close>

text \<open>
  \<open>strncmp (a, m, n) == 0\<close> and \<open>strcmp (m, a) == 0\<close> for a string \<open>a\<close>, given without its
  terminator, and memory \<open>m\<close> that need not contain one: \<open>None\<close> when the comparison runs off \<open>m\<close>.
\<close>

fun strncmp_eq :: "nat \<Rightarrow> string \<Rightarrow> string \<Rightarrow> bool option" where
  "strncmp_eq 0 a m = Some True"
| "strncmp_eq (Suc n) a [] = None"
| "strncmp_eq (Suc n) a (c # m) =
     (if c_hd a \<noteq> c then Some False else if c = NUL then Some True else strncmp_eq n (tl a) m)"

fun strcmp_eq :: "string \<Rightarrow> string \<Rightarrow> bool option" where
  "strcmp_eq [] a = None"
| "strcmp_eq (c # m) a =
     (if c_hd a \<noteq> c then Some False else if c = NUL then Some True else strcmp_eq m (tl a))"

section \<open>gpt\_pentry\_seek\<close>

definition PARTITION_NAME_OFFSET :: nat where "PARTITION_NAME_OFFSET = 56"
definition MAX_GPT_NAME_SIZE :: nat where "MAX_GPT_NAME_SIZE = 72"
definition PTN_ENTRY_SIZE :: nat where "PTN_ENTRY_SIZE = 128"
definition BAK_PTN_NAME_EXT :: string where "BAK_PTN_NAME_EXT = ''bak''"

text \<open>Every second byte of the name that starts at \<open>p\<close>.\<close>

definition name8 :: "string \<Rightarrow> nat \<Rightarrow> string option" where
  "name8 a p =
     (if p + MAX_GPT_NAME_SIZE - 2 < length a
      then Some (map (\<lambda>i. a ! (p + i * 2)) [0..<MAX_GPT_NAME_SIZE div 2]) else None)"

definition name_matches :: "string \<Rightarrow> string \<Rightarrow> bool option" where
  "name_matches ptn_name nm =
     do { let len = length ptn_name;
          eq \<leftarrow> strncmp_eq len ptn_name nm;
          if \<not> eq then Some False
          else if length nm \<le> len then None
          else if nm ! len = NUL then Some True
          else strcmp_eq (drop len nm) BAK_PTN_NAME_EXT }"

partial_function (option) pentry_loop :: "string \<Rightarrow> string \<Rightarrow> nat \<Rightarrow> nat \<Rightarrow> nat \<Rightarrow> nat option option" where
  "pentry_loop ptn_name a pentries_end pentry_size pentry_name =
     (if pentry_name < pentries_end then do {
        nm \<leftarrow> name8 a pentry_name;
        found \<leftarrow> name_matches ptn_name nm;
        if found then Some (Some (pentry_name - PARTITION_NAME_OFFSET))
        else pentry_loop ptn_name a pentries_end pentry_size (pentry_name + pentry_size) }
      else Some None)"

definition gpt_pentry_seek :: "string \<Rightarrow> string \<Rightarrow> nat \<Rightarrow> nat \<Rightarrow> 32 word \<Rightarrow> nat option option" where
  "gpt_pentry_seek ptn_name a pentries_start pentries_end pentry_size =
     pentry_loop ptn_name a pentries_end (unat pentry_size) (pentries_start + PARTITION_NAME_OFFSET)"

section \<open>gpt\_boot\_chain\_swap\<close>

definition PTN_XBL :: string where "PTN_XBL = ''xbl''"

definition PTN_SWAP_LIST :: "string list" where
  "PTN_SWAP_LIST = [PTN_XBL, ''abl'', ''aop'', ''apdp'', ''cmnlib'', ''cmnlib64'', ''devcfg'', ''dtbo'', ''hyp'',
     ''keymaster'', ''msadp'', ''qupfw'', ''storsec'', ''tz'', ''vbmeta'', ''vbmeta_system'', ''xbl_config'']"

text \<open>The property \<open>ro.boot.bootdevice\<close> ends in \<open>.ufshc\<close>, with something before it.\<close>

definition gpt_utils_is_ufs_device :: "string \<Rightarrow> bool" where
  "gpt_utils_is_ufs_device bootdevice =
     (if length bootdevice < length ''.ufshc'' + 1 then False
      else strneq (length ''.ufshc'' + 1) (drop (length bootdevice - length ''.ufshc'') bootdevice) ''.ufshc'')"

text \<open>The three copies of \<open>PTN_ENTRY_SIZE\<close> bytes; \<open>memcpy\<close> is undefined on overlapping objects.\<close>

definition swap_entries :: "nat \<Rightarrow> nat \<Rightarrow> string \<Rightarrow> string option" where
  "swap_entries p q a =
     (if p + PTN_ENTRY_SIZE \<le> q \<and> q + PTN_ENTRY_SIZE \<le> length a
      then let ptn_swap = slice p PTN_ENTRY_SIZE a;
               a = splice_at p (slice q PTN_ENTRY_SIZE a) a
           in Some (splice_at q ptn_swap a)
      else None)"

text \<open>One round of the loop: whether a pair was found, and the entries.\<close>

definition swap_one :: "bool \<Rightarrow> 32 word \<Rightarrow> string \<Rightarrow> string \<Rightarrow> (bool \<times> string) option" where
  "swap_one ufs pentry_size ptn a =
     (if ufs \<and> strneq (length PTN_XBL) ptn PTN_XBL then Some (False, a)
      else do {
        ptn_entry \<leftarrow> gpt_pentry_seek ptn a 0 (length a) pentry_size;
        case ptn_entry of
          None \<Rightarrow> Some (False, a)
        | Some p \<Rightarrow> do {
            ptn_bak_entry \<leftarrow> gpt_pentry_seek ptn a (p + unat pentry_size) (length a) pentry_size;
            case ptn_bak_entry of
              None \<Rightarrow> Some (False, a)
            | Some q \<Rightarrow> do { a \<leftarrow> swap_entries p q a; Some (True, a) } } })"

primrec swap_loop :: "bool \<Rightarrow> 32 word \<Rightarrow> string list \<Rightarrow> int \<Rightarrow> string \<Rightarrow> (int \<times> string) option" where
  "swap_loop ufs pentry_size [] backup_not_found a = Some (backup_not_found, a)"
| "swap_loop ufs pentry_size (ptn # ptns) backup_not_found a =
     do { (swapped, a) \<leftarrow> swap_one ufs pentry_size ptn a;
          swap_loop ufs pentry_size ptns (if swapped then 0 else backup_not_found) a }"

definition gpt_boot_chain_swap :: "bool \<Rightarrow> 32 word \<Rightarrow> string \<Rightarrow> (int \<times> string) option" where
  "gpt_boot_chain_swap ufs pentry_size a = swap_loop ufs pentry_size PTN_SWAP_LIST 1 a"

section \<open>What a search finds\<close>

text \<open>The name of entry \<open>k\<close>, and an array of \<open>n\<close> whole entries whose names have an end.\<close>

definition raw_name :: "string \<Rightarrow> nat \<Rightarrow> nat \<Rightarrow> string" where
  "raw_name a sz k = map (\<lambda>i. a ! (k * sz + 56 + i * 2)) [0..<36]"

definition entry_name :: "string \<Rightarrow> nat \<Rightarrow> nat \<Rightarrow> string" where
  "entry_name a sz k = cstr (raw_name a sz k)"

definition entries_ok :: "string \<Rightarrow> nat \<Rightarrow> nat \<Rightarrow> bool" where
  "entries_ok a sz n \<longleftrightarrow> 128 \<le> sz \<and> length a = n * sz \<and> (\<forall>k<n. NUL \<in> set (raw_name a sz k))"

definition named :: "string \<Rightarrow> string \<Rightarrow> nat \<Rightarrow> nat \<Rightarrow> bool" where
  "named ptn a sz k \<longleftrightarrow> entry_name a sz k = ptn \<or> entry_name a sz k = ptn @ BAK_PTN_NAME_EXT"

lemma strncmp_eq_cstr:
  "NUL \<in> set m \<Longrightarrow> NUL \<notin> set a \<Longrightarrow> length a = n \<Longrightarrow> strncmp_eq n a m = Some (take n (cstr m) = a)"
proof (induction n a m rule: strncmp_eq.induct)
  case (3 n a c m)
  then obtain b a' where a: "a = b # a'" by (cases a) auto
  show ?case using 3 unfolding a by (auto simp: cstr_Cons)
qed auto

lemma strcmp_eq_cstr:
  "NUL \<in> set m \<Longrightarrow> NUL \<notin> set a \<Longrightarrow> strcmp_eq m a = Some (cstr m = a)"
proof (induction m a rule: strcmp_eq.induct)
  case (2 c m a)
  then show ?case by (cases a) (auto simp: cstr_Cons)
qed auto

lemma cstr_nth_NUL: "NUL \<in> set m \<Longrightarrow> length (cstr m) < length m \<and> m ! length (cstr m) = NUL"
  by (induction m) (auto simp: cstr_Cons)

lemma cstr_drop: "n \<le> length (cstr m) \<Longrightarrow> cstr (drop n m) = drop n (cstr m)"
proof (induction m arbitrary: n)
  case (Cons c m)
  then show ?case by (cases n) (auto simp: cstr_Cons split: if_splits)
qed auto

lemma NUL_in_drop: "length (cstr m) < length m \<and> m ! length (cstr m) = NUL \<Longrightarrow> n \<le> length (cstr m) \<Longrightarrow> NUL \<in> set (drop n m)"
  using nth_mem [of "length (cstr m) - n" "drop n m"] by (simp add: diff_less_mono)

lemma name_matches_cstr:
  assumes "NUL \<in> set m" "NUL \<notin> set ptn"
  shows "name_matches ptn m = Some (cstr m = ptn \<or> cstr m = ptn @ BAK_PTN_NAME_EXT)"
proof (cases "take (length ptn) (cstr m) = ptn")
  case False
  then show ?thesis using assms by (auto simp: name_matches_def Let_def strncmp_eq_cstr)
next
  case True
  then obtain r where r: "cstr m = ptn @ r" by (metis append_take_drop_id)
  have l: "length ptn < length m" using cstr_nth_NUL [OF assms(1)] r by auto
  have d: "cstr (drop (length ptn) m) = r" using cstr_drop [of "length ptn" m] r by auto
  have nul: "m ! length ptn = NUL \<longleftrightarrow> r = []"
    using d l by (metis Cons_nth_drop_Suc cstr_Cons list.distinct(1))
  have dn: "NUL \<in> set (drop (length ptn) m)"
    using l d nul cstr_drop [of "length ptn" m] cstr_nth_NUL [OF assms(1)] r
    by (metis NUL_in_drop le_add1 length_append)
  show ?thesis using True l nul d dn
    by (auto simp: name_matches_def Let_def strncmp_eq_cstr assms r strcmp_eq_cstr BAK_PTN_NAME_EXT_def)
qed

lemma entry_fits: "128 \<le> sz \<Longrightarrow> k < n \<Longrightarrow> k * sz + 128 \<le> n * (sz::nat)"
  by (metis Suc_leI add.commute add_le_mono1 le_trans mult_Suc mult_le_mono1)

lemma name8_entry:
  assumes "entries_ok a sz n" "k < n"
  shows "name8 a (k * sz + 56) = Some (raw_name a sz k)"
  using entry_fits [of sz k n] assms
  by (simp add: name8_def raw_name_def entries_ok_def MAX_GPT_NAME_SIZE_def)

lemma pentry_loop_find:
  assumes "entries_ok a sz n" "NUL \<notin> set ptn"
  shows "k \<le> n \<Longrightarrow> pentry_loop ptn a (n * sz) sz (k * sz + 56) =
    Some (map_option (\<lambda>k. k * sz) (find (named ptn a sz) [k..<n]))"
proof (induction "n - k" arbitrary: k)
  case 0
  then show ?case by (simp add: pentry_loop.simps)
next
  case (Suc m)
  then have k: "k < n" by simp
  have lt: "k * sz + 56 < n * sz" using entry_fits [of sz k n] k assms(1) by (simp add: entries_ok_def)
  have nm: "name_matches ptn (raw_name a sz k) = Some (named ptn a sz k)"
    using assms k by (simp add: name_matches_cstr named_def entry_name_def entries_ok_def)
  have u: "[k..<n] = k # [Suc k..<n]" using k by (rule upt_conv_Cons)
  have nxt: "Suc k * sz + 56 = k * sz + 56 + sz" by simp
  have ih: "pentry_loop ptn a (n * sz) sz (k * sz + 56 + sz) =
      Some (map_option (\<lambda>k. k * sz) (find (named ptn a sz) [Suc k..<n]))"
    using Suc.hyps(1) [of "Suc k"] Suc.hyps(2) k unfolding nxt by simp
  show ?case
    by (subst pentry_loop.simps) (simp add: lt name8_entry [OF assms(1) k] nm u ih PARTITION_NAME_OFFSET_def)
qed

lemma seek_find:
  assumes "entries_ok a (unat sz) n" "NUL \<notin> set ptn" "k \<le> n"
  shows "gpt_pentry_seek ptn a (k * unat sz) (n * unat sz) sz =
    Some (map_option (\<lambda>k. k * unat sz) (find (named ptn a (unat sz)) [k..<n]))"
  using pentry_loop_find [OF assms(1,2,3)] by (simp add: gpt_pentry_seek_def PARTITION_NAME_OFFSET_def)

text \<open>
  A search from entry \<open>k\<close> returns the first entry from there on whose name is the one sought or
  the one sought with \<open>bak\<close> behind it, and null where there is none.
\<close>

theorem gpt_pentry_seek_spec:
  assumes "entries_ok a (unat sz) n" "NUL \<notin> set ptn" "k \<le> n"
  shows "gpt_pentry_seek ptn a (k * unat sz) (n * unat sz) sz =
    Some (map_option (\<lambda>k. k * unat sz) (find (\<lambda>i. entry_name a (unat sz) i \<in> {ptn, ptn @ BAK_PTN_NAME_EXT}) [k..<n]))"
  using seek_find [OF assms] by (simp add: named_def [abs_def])

section \<open>What the swap does\<close>

text \<open>The first entry of a name and the one after it, and the entries exchanged.\<close>

definition pair_of :: "string \<Rightarrow> string \<Rightarrow> nat \<Rightarrow> nat \<Rightarrow> (nat \<times> nat) option" where
  "pair_of ptn a sz n =
     do { i \<leftarrow> find (named ptn a sz) [0..<n]; j \<leftarrow> find (named ptn a sz) [Suc i..<n]; Some (i, j) }"

definition skipped :: "bool \<Rightarrow> string \<Rightarrow> bool" where
  "skipped ufs ptn \<longleftrightarrow> ufs \<and> strneq (length PTN_XBL) ptn PTN_XBL"

definition swap_pairs :: "bool \<Rightarrow> string list \<Rightarrow> string \<Rightarrow> nat \<Rightarrow> nat \<Rightarrow> (nat \<times> nat) list" where
  "swap_pairs ufs ptns a sz n =
     List.map_filter (\<lambda>ptn. if skipped ufs ptn then None else pair_of ptn a sz n) ptns"

definition partner :: "(nat \<times> nat) list \<Rightarrow> nat \<Rightarrow> nat" where
  "partner prs k =
     (case find (\<lambda>(i, j). k = i \<or> k = j) prs of None \<Rightarrow> k | Some (i, j) \<Rightarrow> if k = i then j else i)"

text \<open>\<open>b\<close> is \<open>a\<close> with the first 128 bytes of entry \<open>k\<close> taken from entry \<open>f k\<close>.\<close>

definition moved :: "(nat \<Rightarrow> nat) \<Rightarrow> nat \<Rightarrow> nat \<Rightarrow> string \<Rightarrow> string \<Rightarrow> bool" where
  "moved f sz n a b \<longleftrightarrow> length b = length a \<and>
     (\<forall>k<n. \<forall>r < sz. b ! (k * sz + r) = (if r < 128 then a ! (f k * sz + r) else a ! (k * sz + r)))"

lemma find_upt_Some:
  "find P [k..<n] = Some i \<longleftrightarrow> k \<le> i \<and> i < n \<and> P i \<and> (\<forall>j. k \<le> j \<longrightarrow> j < i \<longrightarrow> \<not> P j)"
proof (induction "n - k" arbitrary: k)
  case (Suc m)
  then have "[k..<n] = k # [Suc k..<n]" by (simp add: upt_conv_Cons)
  then show ?case using Suc.hyps(1) [of "Suc k"] Suc.hyps(2)
    by (auto simp: Suc_le_eq) (metis le_neq_implies_less)+
qed auto

lemma pair_ofD:
  "pair_of ptn a sz n = Some (i, j) \<Longrightarrow> i < j \<and> j < n \<and> named ptn a sz i \<and> named ptn a sz j"
  by (auto simp: pair_of_def bind_eq_Some_iff find_upt_Some)

lemma pair_of_cong:
  "(\<And>k. k < n \<Longrightarrow> named ptn b sz k = named ptn a sz k) \<Longrightarrow> pair_of ptn b sz n = pair_of ptn a sz n"
  by (auto simp: pair_of_def intro!: Option.bind_cong find_cong)

lemma entry_apart:
  assumes "k < m" "r < sz" shows "k * sz + r < m * (sz::nat)"
  by (metis assms Suc_leI add.commute add_less_mono1 less_le_trans mult_Suc mult_le_mono1)

lemma swap_entries_moved:
  assumes "128 \<le> sz" "length a = n * sz" "i < j" "j < n"
  shows "\<exists>b. swap_entries (i * sz) (j * sz) a = Some b \<and> moved (partner [(i, j)]) sz n a b"
proof -
  define p q where "p = i * sz" and "q = j * sz"
  have pq: "p + 128 \<le> q" "q + 128 \<le> length a"
    using entry_fits [OF assms(1,3)] entry_fits [OF assms(1,4)] assms(2) by (simp_all add: p_def q_def)
  define b where "b = splice_at q (slice p 128 a) (splice_at p (slice q 128 a) a)"
  have b: "swap_entries (i * sz) (j * sz) a = Some b" "length b = length a"
    using pq by (simp_all add: swap_entries_def PTN_ENTRY_SIZE_def b_def p_def q_def Let_def)
  have nth: "b ! x = (if p \<le> x \<and> x < p + 128 then a ! (q + (x - p))
      else if q \<le> x \<and> x < q + 128 then a ! (p + (x - q)) else a ! x)" if "x < length a" for x
    using pq that by (auto simp: b_def nth_splice_at)
  have "b ! (k * sz + r) = (if r < 128 then a ! (partner [(i, j)] k * sz + r) else a ! (k * sz + r))"
    if k: "k < n" "r < sz" for k r
  proof -
    have x: "k * sz + r < length a" using entry_apart [OF k] assms(2) by simp
    have out: "\<not> (m * sz \<le> k * sz + r \<and> k * sz + r < m * sz + 128)" if "k \<noteq> m" for m
      using that entry_apart [of k m r sz] k entry_fits [OF assms(1), of m k] by (cases "k < m") auto
    show ?thesis
      using nth [OF x] out [of i] out [of j] assms(3) pq unfolding p_def q_def
      by (auto simp: partner_def split: if_splits)
  qed
  then show ?thesis using b by (auto simp: moved_def)
qed

lemma moved_raw_name:
  assumes "moved f sz n a b" "128 \<le> sz" "k < n"
  shows "raw_name b sz k = raw_name a sz (f k)"
  using assms by (auto simp: raw_name_def moved_def add.assoc)

lemma moved_entries_ok:
  assumes "moved f sz n a b" "entries_ok a sz n" "\<And>k. k < n \<Longrightarrow> f k < n"
  shows "entries_ok b sz n"
  using assms by (auto simp: entries_ok_def moved_raw_name) (simp add: moved_def)

lemma moved_named:
  assumes "moved f sz n a b" "128 \<le> sz" "k < n"
  shows "named ptn b sz k = named ptn a sz (f k)"
  using assms by (simp add: named_def entry_name_def moved_raw_name)

lemma swap_one_pair:
  assumes "entries_ok a (unat sz) n" "NUL \<notin> set ptn"
  shows "(if skipped ufs ptn then None else pair_of ptn a (unat sz) n) = None \<longrightarrow> swap_one ufs sz ptn a = Some (False, a)"
    "(if skipped ufs ptn then None else pair_of ptn a (unat sz) n) = Some (i, j) \<longrightarrow>
      (\<exists>b. swap_one ufs sz ptn a = Some (True, b) \<and> moved (partner [(i, j)]) (unat sz) n a b)"
proof -
  let ?s = "unat sz"
  have len: "length a = n * ?s" "128 \<le> ?s" using assms(1) by (simp_all add: entries_ok_def)
  have one: "gpt_pentry_seek ptn a 0 (length a) sz = Some (map_option (\<lambda>k. k * ?s) (find (named ptn a ?s) [0..<n]))"
    using seek_find [OF assms, of 0] len by simp
  have two: "gpt_pentry_seek ptn a (k * ?s + ?s) (length a) sz =
      Some (map_option (\<lambda>k. k * ?s) (find (named ptn a ?s) [Suc k..<n]))" if "k < n" for k
    using seek_find [OF assms, of "Suc k"] len that by (simp add: add.commute)
  show "(if skipped ufs ptn then None else pair_of ptn a ?s n) = None \<longrightarrow> swap_one ufs sz ptn a = Some (False, a)"
  proof (cases "find (named ptn a ?s) [0..<n]")
    case None
    then show ?thesis by (auto simp: swap_one_def skipped_def one)
  next
    case (Some k)
    then have "k < n" by (simp add: find_upt_Some)
    then show ?thesis using Some
      by (cases "find (named ptn a ?s) [Suc k..<n]") (auto simp: swap_one_def skipped_def one two pair_of_def)
  qed
  show "(if skipped ufs ptn then None else pair_of ptn a ?s n) = Some (i, j) \<longrightarrow>
      (\<exists>b. swap_one ufs sz ptn a = Some (True, b) \<and> moved (partner [(i, j)]) ?s n a b)"
  proof
    assume "(if skipped ufs ptn then None else pair_of ptn a ?s n) = Some (i, j)"
    then have h: "\<not> skipped ufs ptn" "find (named ptn a ?s) [0..<n] = Some i" "find (named ptn a ?s) [Suc i..<n] = Some j"
      by (auto simp: pair_of_def bind_eq_Some_iff split: if_splits)
    then have ij: "i < j" "j < n" by (auto simp: find_upt_Some)
    then show "\<exists>b. swap_one ufs sz ptn a = Some (True, b) \<and> moved (partner [(i, j)]) ?s n a b"
      using swap_entries_moved [OF len(2,1) ij] h
      by (auto simp: swap_one_def skipped_def one two)
  qed
qed

text \<open>No boot partition has the name of another one or of its backup.\<close>

lemma swap_list_names:
  assumes "p \<in> set PTN_SWAP_LIST" "q \<in> set PTN_SWAP_LIST"
  shows "q \<noteq> p @ BAK_PTN_NAME_EXT" "NUL \<notin> set p"
proof -
  have "list_all (\<lambda>p. list_all (\<lambda>q. q \<noteq> p @ BAK_PTN_NAME_EXT) PTN_SWAP_LIST \<and> list_all (\<lambda>c. c \<noteq> NUL) p) PTN_SWAP_LIST"
    by code_simp
  then show "q \<noteq> p @ BAK_PTN_NAME_EXT" "NUL \<notin> set p" using assms by (auto simp: list_all_iff)
qed

lemma named_unique:
  assumes "p \<in> set PTN_SWAP_LIST" "q \<in> set PTN_SWAP_LIST" "named p a sz k" "named q a sz k"
  shows "p = q"
  using assms swap_list_names [of p q] swap_list_names [of q p] by (auto simp: named_def)

text \<open>The pairs of different names have no entry in common.\<close>

lemma map_filter_same: "(\<And>x. x \<in> set xs \<Longrightarrow> f x = g x) \<Longrightarrow> List.map_filter f xs = List.map_filter g xs"
  by (induction xs) (auto simp: List.map_filter_simps split: option.split)

lemma swap_pairsD:
  assumes "(i, j) \<in> set (swap_pairs ufs ptns a sz n)"
  shows "\<exists>p\<in>set ptns. i < j \<and> j < n \<and> pair_of p a sz n = Some (i, j) \<and> named p a sz i \<and> named p a sz j"
proof -
  obtain p where "p \<in> set ptns" "pair_of p a sz n = Some (i, j)"
    using assms by (auto simp: swap_pairs_def List.map_filter_def split: if_splits)
  then show ?thesis using pair_ofD by blast
qed

lemma swap_pairs_apart:
  assumes "set ptns \<subseteq> set PTN_SWAP_LIST"
    "p \<in> set (swap_pairs ufs ptns a sz n)" "q \<in> set (swap_pairs ufs ptns a sz n)"
    "k \<in> {fst p, snd p}" "k \<in> {fst q, snd q}"
  shows "p = q"
proof -
  obtain i j i' j' where e: "p = (i, j)" "q = (i', j')" by (metis surj_pair)
  obtain m where m: "m \<in> set ptns" "pair_of m a sz n = Some (i, j)" "named m a sz k"
    using swap_pairsD [of i j ufs ptns a sz n] assms(2,4) e by auto
  obtain m' where m': "m' \<in> set ptns" "pair_of m' a sz n = Some (i', j')" "named m' a sz k"
    using swap_pairsD [of i' j' ufs ptns a sz n] assms(3,5) e by auto
  show ?thesis using named_unique [of m m' a sz k] m m' assms(1) e by (metis option.inject subsetD)
qed

lemma partner_cases:
  obtains "partner prs k = k" "\<forall>p \<in> set prs. k \<noteq> fst p \<and> k \<noteq> snd p"
  | i j where "(i, j) \<in> set prs" "k = i \<and> partner prs k = j \<or> k = j \<and> k \<noteq> i \<and> partner prs k = i"
proof (cases "find (\<lambda>(i, j). k = i \<or> k = j) prs")
  case None
  then have "partner prs k = k" "\<forall>p \<in> set prs. k \<noteq> fst p \<and> k \<noteq> snd p"
    by (simp add: partner_def, force simp: find_None_iff)
  then show ?thesis by (rule that(1))
next
  case (Some p)
  obtain x y where p: "p = (x, y)" by (cases p)
  have "(x, y) \<in> set prs" using Some p by (metis find_Some_iff nth_mem)
  moreover have "k = x \<and> partner prs k = y \<or> k = y \<and> k \<noteq> x \<and> partner prs k = x"
  proof -
    have "k = x \<or> k = y" using Some p by (auto simp: find_Some_iff)
    moreover have "partner prs k = (if k = x then y else x)" using Some p by (simp add: partner_def)
    ultimately show ?thesis by auto
  qed
  ultimately show ?thesis by (rule that(2))
qed

lemma partner_Cons:
  assumes "\<forall>p \<in> set prs. {fst p, snd p} \<inter> {i, j} = {}"
  shows "partner [(i, j)] (partner prs k) = partner ((i, j) # prs) k"
proof (rule partner_cases [of prs k])
  assume "partner prs k = k" "\<forall>p \<in> set prs. k \<noteq> fst p \<and> k \<noteq> snd p"
  then have "find (\<lambda>(i, j). k = i \<or> k = j) prs = None" by (auto simp: find_None_iff)
  then show ?thesis using \<open>partner prs k = k\<close> by (auto simp: partner_def)
next
  fix x y assume p: "(x, y) \<in> set prs" "k = x \<and> partner prs k = y \<or> k = y \<and> k \<noteq> x \<and> partner prs k = x"
  then have "k \<notin> {i, j}" "partner prs k \<notin> {i, j}" using assms by fastforce+
  then show ?thesis by (simp add: partner_def)
qed

lemma swap_pairs_lt:
  "k < n \<Longrightarrow> partner (swap_pairs ufs ptns a sz n) k < n"
  by (rule partner_cases [of "swap_pairs ufs ptns a sz n" k]) (auto dest: swap_pairsD)

lemma partner_partner:
  assumes "set ptns \<subseteq> set PTN_SWAP_LIST"
  shows "partner (swap_pairs ufs ptns a sz n) (partner (swap_pairs ufs ptns a sz n) k) = k" (is "?p (?p k) = k")
proof (rule partner_cases [of "swap_pairs ufs ptns a sz n" k])
  fix i j assume p: "(i, j) \<in> set (swap_pairs ufs ptns a sz n)" "k = i \<and> ?p k = j \<or> k = j \<and> k \<noteq> i \<and> ?p k = i"
  then have ij: "i \<noteq> j" by (auto dest: swap_pairsD)
  show ?thesis
  proof (rule partner_cases [of "swap_pairs ufs ptns a sz n" "?p k"])
    assume "\<forall>p \<in> set (swap_pairs ufs ptns a sz n). ?p k \<noteq> fst p \<and> ?p k \<noteq> snd p"
    then show ?thesis using p by fastforce
  next
    fix x y assume q: "(x, y) \<in> set (swap_pairs ufs ptns a sz n)"
      "?p k = x \<and> ?p (?p k) = y \<or> ?p k = y \<and> ?p k \<noteq> x \<and> ?p (?p k) = x"
    then have "(x, y) = (i, j)" using swap_pairs_apart [OF assms q(1) p(1), of "?p k"] p(2) by auto
    then show ?thesis using p(2) q(2) ij by auto
  qed
qed simp

lemma moved_comp:
  assumes "moved f sz n a b" "moved g sz n b c" "\<And>k. k < n \<Longrightarrow> g k < n" "128 \<le> sz"
    "\<And>k. k < n \<Longrightarrow> f (g k) = h k"
  shows "moved h sz n a c"
  using assms by (auto simp: moved_def)

lemma moved_id: "moved (partner []) sz n a a"
  by (simp add: moved_def partner_def)

lemma partner_one_lt: "i < n \<Longrightarrow> j < n \<Longrightarrow> k < n \<Longrightarrow> partner [(i, j)] k < n"
  by (simp add: partner_def)

lemma named_partner:
  assumes "moved (partner [(i, j)]) sz n a b" "128 \<le> sz" "p \<in> set PTN_SWAP_LIST" "q \<in> set PTN_SWAP_LIST"
    "named p a sz i" "named p a sz j" "k < n"
  shows "named q b sz k = named q a sz k"
  using named_unique [OF assms(3,4,5)] named_unique [OF assms(3,4,6)] assms(5,6) moved_named [OF assms(1,2,7), of q]
  by (auto simp: partner_def split: if_splits)

lemma swap_loop_moved:
  assumes "entries_ok a (unat sz) n" "set ptns \<subseteq> set PTN_SWAP_LIST" "distinct ptns"
  shows "\<exists>b. swap_loop ufs sz ptns acc a =
      Some (if swap_pairs ufs ptns a (unat sz) n = [] then acc else 0, b)
    \<and> moved (partner (swap_pairs ufs ptns a (unat sz) n)) (unat sz) n a b"
  using assms
proof (induction ptns arbitrary: acc a)
  case Nil
  then show ?case by (simp add: swap_pairs_def moved_id)
next
  case (Cons p ptns)
  let ?s = "unat sz"
  have p: "p \<in> set PTN_SWAP_LIST" "NUL \<notin> set p" using Cons.prems swap_list_names by auto
  have s: "128 \<le> ?s" using Cons.prems(1) by (simp add: entries_ok_def)
  note one = swap_one_pair [OF Cons.prems(1) p(2), of ufs]
  show ?case
  proof (cases "if skipped ufs p then None else pair_of p a ?s n")
    case None
    then have "swap_pairs ufs (p # ptns) a ?s n = swap_pairs ufs ptns a ?s n"
      by (simp add: swap_pairs_def)
    then show ?thesis using one(1) None Cons.IH [OF Cons.prems(1)] Cons.prems by simp
  next
    case (Some ij)
    obtain i j where ij: "ij = (i, j)" by (cases ij)
    have pr: "pair_of p a ?s n = Some (i, j)" "\<not> skipped ufs p" using Some ij by (auto split: if_splits)
    note d = pair_ofD [OF pr(1)]
    obtain a' where a': "swap_one ufs sz p a = Some (True, a')" "moved (partner [(i, j)]) ?s n a a'"
      using one(2) [of i j] Some ij by auto
    have ok: "entries_ok a' ?s n"
      using moved_entries_ok [OF a'(2) Cons.prems(1)] d by (simp add: partner_one_lt)
    have same: "swap_pairs ufs ptns a' ?s n = swap_pairs ufs ptns a ?s n"
    proof -
      have "pair_of q a' ?s n = pair_of q a ?s n" if "q \<in> set ptns" for q
        using that Cons.prems(2) d by (intro pair_of_cong named_partner [OF a'(2) s p(1)]) auto
      then show ?thesis unfolding swap_pairs_def by (intro map_filter_same) simp
    qed
    have pairs: "swap_pairs ufs (p # ptns) a ?s n = (i, j) # swap_pairs ufs ptns a ?s n"
      using pr by (simp add: swap_pairs_def)
    have fresh: "\<forall>q \<in> set (swap_pairs ufs ptns a ?s n). {fst q, snd q} \<inter> {i, j} = {}"
    proof
      fix q assume q: "q \<in> set (swap_pairs ufs ptns a ?s n)"
      obtain x y where xy: "q = (x, y)" by (cases q)
      obtain m where m: "m \<in> set ptns" "named m a ?s x" "named m a ?s y"
        using swap_pairsD q xy by blast
      have "m \<noteq> p" "m \<in> set PTN_SWAP_LIST" using m(1) Cons.prems by auto
      then show "{fst q, snd q} \<inter> {i, j} = {}"
        using named_unique [OF p(1), of m a ?s] m d xy by auto
    qed
    obtain b where b: "swap_loop ufs sz ptns 0 a' = Some (0, b)"
        "moved (partner (swap_pairs ufs ptns a ?s n)) ?s n a' b"
      using Cons.IH [OF ok, of 0] Cons.prems same by auto
    have "moved (partner ((i, j) # swap_pairs ufs ptns a ?s n)) ?s n a b"
      by (rule moved_comp [OF a'(2) b(2) swap_pairs_lt s partner_Cons [OF fresh]])
    then show ?thesis using a'(1) b(1) pairs by simp
  qed
qed

lemma moved_unique:
  assumes "moved f sz n a b" "moved f sz n a c" "length a = n * sz" "0 < sz"
  shows "b = c"
proof (rule nth_equalityI)
  show "length b = length c" using assms by (simp add: moved_def)
  fix x assume "x < length b"
  then have "x div sz < n" "x mod sz < sz"
    using assms by (auto simp: moved_def less_mult_imp_div_less mult.commute)
  moreover have "\<forall>k<n. \<forall>r < sz. b ! (k * sz + r) = c ! (k * sz + r)"
    using assms(1,2) by (simp add: moved_def)
  ultimately have "b ! (x div sz * sz + x mod sz) = c ! (x div sz * sz + x mod sz)" by blast
  then show "b ! x = c ! x" unfolding div_mult_mod_eq .
qed

lemma swap_all:
  assumes "entries_ok a (unat sz) n"
  shows "\<exists>b. swap_loop ufs sz PTN_SWAP_LIST 1 a =
      Some (if swap_pairs ufs PTN_SWAP_LIST a (unat sz) n = [] then 1 else 0, b)
    \<and> moved (partner (swap_pairs ufs PTN_SWAP_LIST a (unat sz) n)) (unat sz) n a b"
  by (rule swap_loop_moved [OF assms]) (simp_all add: PTN_SWAP_LIST_def PTN_XBL_def)

lemma swap_pairs_again:
  assumes "moved (partner (swap_pairs ufs PTN_SWAP_LIST a sz n)) sz n a b" "128 \<le> sz"
  shows "swap_pairs ufs PTN_SWAP_LIST b sz n = swap_pairs ufs PTN_SWAP_LIST a sz n"
proof -
  let ?p = "partner (swap_pairs ufs PTN_SWAP_LIST a sz n)"
  have "named q b sz k = named q a sz k" if q: "q \<in> set PTN_SWAP_LIST" "k < n" for q k
  proof (rule partner_cases [of "swap_pairs ufs PTN_SWAP_LIST a sz n" k])
    fix i j assume p: "(i, j) \<in> set (swap_pairs ufs PTN_SWAP_LIST a sz n)" "k = i \<and> ?p k = j \<or> k = j \<and> k \<noteq> i \<and> ?p k = i"
    obtain m where m: "m \<in> set PTN_SWAP_LIST" "named m a sz i" "named m a sz j"
      using swap_pairsD [OF p(1)] by blast
    then have "named q a sz i \<longleftrightarrow> named q a sz j" using named_unique [OF q(1) m(1)] by blast
    then show ?thesis using p(2) moved_named [OF assms(1,2) q(2), of q] by auto
  next
    assume "?p k = k"
    then show ?thesis using moved_named [OF assms(1,2) q(2), of q] by simp
  qed
  then have "pair_of q b sz n = pair_of q a sz n" if "q \<in> set PTN_SWAP_LIST" for q
    using that by (intro pair_of_cong)
  then show ?thesis unfolding swap_pairs_def by (intro map_filter_same) simp
qed

lemma swap_twice:
  assumes "entries_ok a (unat sz) n" "gpt_boot_chain_swap ufs sz a = Some (r, b)"
  shows "swap_loop ufs sz PTN_SWAP_LIST 1 b = Some (r, a)"
proof -
  let ?s = "unat sz"
  have s: "128 \<le> ?s" "length a = n * ?s" using assms(1) by (simp_all add: entries_ok_def)
  have ab: "r = (if swap_pairs ufs PTN_SWAP_LIST a ?s n = [] then 1 else 0)"
    "moved (partner (swap_pairs ufs PTN_SWAP_LIST a ?s n)) ?s n a b"
    using swap_all [OF assms(1), of ufs] assms(2) by (auto simp: gpt_boot_chain_swap_def)
  note same = swap_pairs_again [OF ab(2) s(1)]
  have ok: "entries_ok b ?s n" by (rule moved_entries_ok [OF ab(2) assms(1) swap_pairs_lt])
  obtain c where c: "swap_loop ufs sz PTN_SWAP_LIST 1 b = Some (r, c)"
    "moved (partner (swap_pairs ufs PTN_SWAP_LIST a ?s n)) ?s n b c"
    using swap_all [OF ok, of ufs] ab(1) same by auto
  have "moved (partner []) ?s n a c"
    by (rule moved_comp [OF ab(2) c(2) swap_pairs_lt s(1)])
      (simp_all add: partner_partner, simp add: partner_def)
  then show ?thesis using c(1) moved_unique [OF _ moved_id s(2)] s(1) by force
qed

text \<open>
  C23. Swapping the boot chain exchanges the entries of each boot partition and its backup, leaves
  the other entries and the bytes beyond the first 128 of an entry alone, and reports whether a
  backup was found. On a UFS device the partitions whose name starts with \<open>xbl\<close> are left out.
\<close>

theorem gpt_boot_chain_swap_spec:
  assumes "entries_ok a (unat sz) n"
  shows "\<exists>b. gpt_boot_chain_swap ufs sz a =
      Some (if swap_pairs ufs PTN_SWAP_LIST a (unat sz) n = [] then 1 else 0, b)
    \<and> moved (partner (swap_pairs ufs PTN_SWAP_LIST a (unat sz) n)) (unat sz) n a b"
  using swap_all [OF assms] by (simp add: gpt_boot_chain_swap_def)

text \<open>Two entries, for \<open>abl\<close> and its backup, in the witnesses.\<close>

definition sample_entry :: "string \<Rightarrow> string" where
  "sample_entry nm = replicate 56 NUL @ concat (map (\<lambda>c. [c, NUL]) nm) @ replicate (72 - 2 * length nm) NUL"

definition sample_entries :: string where
  "sample_entries = sample_entry ''abl'' @ sample_entry ''ablbak''"

lemma sample_length: "length (sample_entry ''abl'') = 128" "length (sample_entry ''ablbak'') = 128"
  by (simp_all add: sample_entry_def)

lemma sample_name:
  "raw_name sample_entries 128 0 = ''abl'' @ replicate 33 NUL"
  "raw_name sample_entries 128 1 = ''ablbak'' @ replicate 30 NUL"
  by code_simp+

lemma sample_entries_ok: "entries_ok sample_entries 128 2"
  using sample_name by (auto simp: entries_ok_def sample_entries_def sample_length less_2_cases_iff)

lemma sample_pairs: "swap_pairs False PTN_SWAP_LIST sample_entries 128 2 = [(0, 1)]"
  by code_simp

theorem gpt_pentry_seek_spec_witness:
  "gpt_pentry_seek ''abl'' sample_entries 128 256 128 = Some (Some 128)"
proof -
  have "find (\<lambda>i. entry_name sample_entries 128 i \<in> {''abl'', ''abl'' @ BAK_PTN_NAME_EXT}) [1..<2] = Some 1"
    by code_simp
  then show ?thesis using gpt_pentry_seek_spec [of sample_entries 128 2 "''abl''" 1] sample_entries_ok by simp
qed

theorem gpt_boot_chain_swap_spec_witness:
  "\<exists>b. gpt_boot_chain_swap False 128 sample_entries = Some (0, b) \<and> moved (partner [(0, 1)]) 128 2 sample_entries b"
  using gpt_boot_chain_swap_spec [of sample_entries 128 2 False] by (simp add: sample_entries_ok sample_pairs)

text \<open>Swapping twice gives the entries back.\<close>

theorem gpt_boot_chain_swap_involution:
  assumes "entries_ok a (unat sz) n" "gpt_boot_chain_swap ufs sz a = Some (r, b)"
  shows "gpt_boot_chain_swap ufs sz b = Some (r, a)"
  using swap_twice [OF assms] by (simp add: gpt_boot_chain_swap_def)

theorem gpt_boot_chain_swap_involution_witness:
  "\<exists>b. gpt_boot_chain_swap False 128 sample_entries = Some (0, b) \<and> gpt_boot_chain_swap False 128 b = Some (0, sample_entries)"
proof -
  obtain b where b: "gpt_boot_chain_swap False 128 sample_entries = Some (0, b)"
    using swap_all [of sample_entries 128 2 False] by (auto simp: sample_entries_ok sample_pairs gpt_boot_chain_swap_def)
  then show ?thesis using gpt_boot_chain_swap_involution [of sample_entries 128 2 False 0 b] sample_entries_ok by simp
qed

end
