(* ===== verification/Gpt_Update.thy ===== *)
theory Gpt_Update
  imports Gpt_Table
begin

text \<open>
  Fail-safe update of the boot partitions: \<open>prepare_partitions\<close> of \<open>src/gpt-utils/gpt-utils.cpp\<close>
  and the functions below it. The two copies of the partition table, the primary at the second
  block and the backup at the last one, carry the stage of the update: a copy is disabled by
  damaging its signature. What must never happen is that no copy is left for the boot loader.
\<close>

datatype gpt_instance = PRIMARY_GPT | SECONDARY_GPT
datatype boot_chain = NORMAL_BOOT | BACKUP_BOOT
datatype gpt_state = GPT_OK | GPT_BAD_SIGNATURE | GPT_BAD_CRC
datatype boot_update_stage = UPDATE_MAIN | UPDATE_BACKUP | UPDATE_FINALIZE

text \<open>The fields of a header.\<close>

definition GPT_SIGNATURE :: string where "GPT_SIGNATURE = ''EFI PART'' @ [NUL]"
definition HEADER_SIZE_OFFSET :: nat where "HEADER_SIZE_OFFSET = 12"
definition HEADER_CRC_OFFSET :: nat where "HEADER_CRC_OFFSET = 16"
definition PENTRIES_OFFSET :: nat where "PENTRIES_OFFSET = 72"
definition PARTITION_COUNT_OFFSET :: nat where "PARTITION_COUNT_OFFSET = 80"
definition PENTRY_SIZE_OFFSET :: nat where "PENTRY_SIZE_OFFSET = 84"
definition PARTITION_CRC_OFFSET :: nat where "PARTITION_CRC_OFFSET = 88"

lemmas gpt_offsets = HEADER_SIZE_OFFSET_def HEADER_CRC_OFFSET_def PENTRIES_OFFSET_def
  PARTITION_COUNT_OFFSET_def PENTRY_SIZE_OFFSET_def PARTITION_CRC_OFFSET_def

text \<open>The offset of a header: \<open>blk_size\<close>, or the end of the device less \<open>blk_size\<close>.\<close>

definition header_offset :: "gpt_env \<Rightarrow> gpt_instance \<Rightarrow> 32 word \<Rightarrow> blkdev \<Rightarrow> int \<times> blkdev" where
  "header_offset e gpt blk d =
     (case gpt of PRIMARY_GPT \<Rightarrow> (uint blk, d)
      | SECONDARY_GPT \<Rightarrow> (let (z, d) = lseek_end e d in (z - uint blk, d)))"

text \<open>The checksum of a header is taken with its own field cleared.\<close>

definition header_crc :: "gpt_env \<Rightarrow> string \<Rightarrow> 32 word \<Rightarrow> 32 word option" where
  "header_crc e hdr sz = do { hdr \<leftarrow> PUT_4_BYTES hdr HEADER_CRC_OFFSET 0; crc_of e hdr (unat sz) }"

definition put_header_crc :: "gpt_env \<Rightarrow> string \<Rightarrow> 32 word \<Rightarrow> string option" where
  "put_header_crc e hdr sz =
     do { hdr \<leftarrow> PUT_4_BYTES hdr HEADER_CRC_OFFSET 0;
          crc \<leftarrow> crc_of e hdr (unat sz);
          PUT_4_BYTES hdr HEADER_CRC_OFFSET crc }"

section \<open>The state of a header\<close>

definition gpt_get_state :: "gpt_env \<Rightarrow> gpt_instance \<Rightarrow> blkdev \<Rightarrow> (int \<times> gpt_state \<times> blkdev) option" where
  "gpt_get_state e gpt d =
     (case ioctl_BLKSSZGET e d of
        (None, d) \<Rightarrow> Some (-1, GPT_OK, d)
      | (Some blk, d) \<Rightarrow>
        (case os_malloc e (unat blk) d of
           (None, d) \<Rightarrow> Some (-1, GPT_OK, d)
         | (Some hdr, d) \<Rightarrow>
           (case header_offset e gpt blk d of (off, d) \<Rightarrow>
              if off < 0 then Some (-1, GPT_OK, d)
              else do {
                (r, hdr, d) \<leftarrow> blk_rw e False off hdr (unat blk) d;
                if r \<noteq> 0 then Some (-1, GPT_OK, d)
                else if length hdr < length GPT_SIGNATURE then None
                else do {
                  let state = (if take (length GPT_SIGNATURE) hdr \<noteq> GPT_SIGNATURE then GPT_BAD_SIGNATURE else GPT_OK);
                  sz \<leftarrow> GET_4_BYTES hdr HEADER_SIZE_OFFSET;
                  crc \<leftarrow> GET_4_BYTES hdr HEADER_CRC_OFFSET;
                  c \<leftarrow> header_crc e hdr sz;
                  Some (0, if c \<noteq> crc then GPT_BAD_CRC else state, d) } })))"

text \<open>The signature \<open>gpt_set_state\<close> writes: \<open>None\<close> inside for an invalid state.\<close>

definition put_signature :: "gpt_state \<Rightarrow> string \<Rightarrow> string option option" where
  "put_signature state hdr =
     (case state of
        GPT_OK \<Rightarrow> if length hdr < length GPT_SIGNATURE then None else Some (Some (splice_at 0 GPT_SIGNATURE hdr))
      | GPT_BAD_SIGNATURE \<Rightarrow> if hdr = [] then None else Some (Some (hdr[0 := NUL]))
      | GPT_BAD_CRC \<Rightarrow> Some None)"

definition gpt_set_state :: "gpt_env \<Rightarrow> gpt_instance \<Rightarrow> gpt_state \<Rightarrow> blkdev \<Rightarrow> (int \<times> blkdev) option" where
  "gpt_set_state e gpt state d =
     (case ioctl_BLKSSZGET e d of
        (None, d) \<Rightarrow> Some (-1, d)
      | (Some blk, d) \<Rightarrow>
        (case os_malloc e (unat blk) d of
           (None, d) \<Rightarrow> Some (-1, d)
         | (Some hdr, d) \<Rightarrow>
           (case header_offset e gpt blk d of (off, d) \<Rightarrow>
              if off < 0 then Some (-1, d)
              else do {
                (r, hdr, d) \<leftarrow> blk_rw e False off hdr (unat blk) d;
                if r \<noteq> 0 then Some (-1, d)
                else do {
                  signed \<leftarrow> put_signature state hdr;
                  case signed of
                    None \<Rightarrow> Some (-1, d)
                  | Some hdr \<Rightarrow> do {
                      sz \<leftarrow> GET_4_BYTES hdr HEADER_SIZE_OFFSET;
                      hdr \<leftarrow> put_header_crc e hdr sz;
                      (r, hdr, d) \<leftarrow> blk_rw e True off hdr (unat blk) d;
                      Some (if r \<noteq> 0 then -1 else 0, d) } } })))"

section \<open>The boot chain of the backup table\<close>

text \<open>Where the entries start and how many bytes they take, by a header.\<close>

definition pentries_start :: "string \<Rightarrow> 32 word \<Rightarrow> 64 word option" where
  "pentries_start hdr blk = do { lba \<leftarrow> GET_8_BYTES hdr PENTRIES_OFFSET; Some (lba * ucast blk) }"

definition pentries_array_size :: "string \<Rightarrow> 32 word option" where
  "pentries_array_size hdr =
     do { sz \<leftarrow> GET_4_BYTES hdr PENTRY_SIZE_OFFSET; cnt \<leftarrow> GET_4_BYTES hdr PARTITION_COUNT_OFFSET; Some (cnt * sz) }"

text \<open>The new header and entries are ready: checksums, then the two writes.\<close>

definition write_gpt2 :: "gpt_env \<Rightarrow> int \<Rightarrow> string \<Rightarrow> nat \<Rightarrow> 64 word \<Rightarrow> string \<Rightarrow> nat \<Rightarrow> blkdev \<Rightarrow> (int \<times> blkdev) option" where
  "write_gpt2 e gpt2_header_offset hdr blk start pentries n d =
     do { sz \<leftarrow> GET_4_BYTES hdr HEADER_SIZE_OFFSET;
          crc \<leftarrow> crc_of e pentries n;
          hdr \<leftarrow> PUT_4_BYTES hdr PARTITION_CRC_OFFSET crc;
          hdr \<leftarrow> put_header_crc e hdr sz;
          (r, hdr, d) \<leftarrow> blk_rw e True gpt2_header_offset hdr blk d;
          if r \<noteq> 0 then Some (r, d)
          else do { (r, pentries, d) \<leftarrow> blk_rw e True (sint start) pentries n d; Some (r, d) } }"

definition gpt2_set_boot_chain :: "gpt_env \<Rightarrow> bool \<Rightarrow> boot_chain \<Rightarrow> blkdev \<Rightarrow> (int \<times> blkdev) option" where
  "gpt2_set_boot_chain e ufs boot d =
     (case ioctl_BLKSSZGET e d of
        (None, d) \<Rightarrow> Some (-1, d)
      | (Some blk, d) \<Rightarrow>
        (case os_malloc e (unat blk) d of
           (None, d) \<Rightarrow> Some (-1, d)
         | (Some hdr, d) \<Rightarrow>
           (case header_offset e SECONDARY_GPT blk d of (gpt2_header_offset, d) \<Rightarrow>
              if gpt2_header_offset < 0 then Some (-1, d)
              else do {
                (r, hdr, d) \<leftarrow> blk_rw e False (uint blk) hdr (unat blk) d;
                if r \<noteq> 0 then Some (r, d)
                else do {
                  start \<leftarrow> pentries_start hdr blk;
                  pentry_size \<leftarrow> GET_4_BYTES hdr PENTRY_SIZE_OFFSET;
                  n \<leftarrow> pentries_array_size hdr;
                  case os_calloc e (unat n) d of
                    (None, d) \<Rightarrow> Some (-1, d)
                  | (Some pentries, d) \<Rightarrow> do {
                      (r, pentries, d) \<leftarrow> blk_rw e False (sint start) pentries (unat n) d;
                      if r \<noteq> 0 then Some (r, d)
                      else do {
                        crc \<leftarrow> crc_of e pentries (unat n);
                        stored \<leftarrow> GET_4_BYTES hdr PARTITION_CRC_OFFSET;
                        if stored \<noteq> crc then Some (-1, d)
                        else do {
                          (r, hdr, d) \<leftarrow> blk_rw e False gpt2_header_offset hdr (unat blk) d;
                          if r \<noteq> 0 then Some (r, d)
                          else do {
                            start \<leftarrow> pentries_start hdr blk;
                            (r, pentries) \<leftarrow>
                              (if boot = BACKUP_BOOT then gpt_boot_chain_swap ufs pentry_size pentries
                               else Some (0, pentries));
                            if r \<noteq> 0 then Some (r, d)
                            else write_gpt2 e gpt2_header_offset hdr (unat blk) start pentries (unat n) d } } } } } })))"

section \<open>Stages\<close>

text \<open>
  The system around the device: the boot device's name, which paths exist, what the links point
  to, what the directories hold, and whether the boot LUN attribute of a node can be written.
  The attribute writes that were made are part of the state.
\<close>

record host =
  dev_env :: gpt_env
  bootdevice :: string
  path_exists :: "string \<Rightarrow> bool"
  link_of :: "string \<Rightarrow> string option"
  dir_entries :: "string \<Rightarrow> string list option"
  lun_writable :: "string \<Rightarrow> bool"

type_synonym boot_luns = "(string \<times> int) list"

definition BOOT_LUN_A_ID :: int where "BOOT_LUN_A_ID = 1"
definition BOOT_LUN_B_ID :: int where "BOOT_LUN_B_ID = 2"
definition PATH_TRUNCATE_LOC :: nat where "PATH_TRUNCATE_LOC = length ''/dev/block/sda''"
definition LUN_NAME_START_LOC :: nat where "LUN_NAME_START_LOC = length ''/dev/block/''"
definition XBL_PRIMARY :: string where "XBL_PRIMARY = ''/dev/block/platform/soc/1d84000.ufshc/by-name/xbl''"
definition XBL_BACKUP :: string where "XBL_BACKUP = ''/dev/block/platform/soc/1d84000.ufshc/by-name/xblbak''"
definition XBL_AB_PRIMARY :: string where "XBL_AB_PRIMARY = ''/dev/block/platform/soc/1d84000.ufshc/by-name/xbl_a''"
definition XBL_AB_SECONDARY :: string where "XBL_AB_SECONDARY = ''/dev/block/platform/soc/1d84000.ufshc/by-name/xbl_b''"

definition PATH_MAX :: nat where "PATH_MAX = 4096"

text \<open>\<open>snprintf\<close> into \<open>n\<close> bytes.\<close>

definition snprintf :: "nat \<Rightarrow> string \<Rightarrow> string" where
  "snprintf n s = take (n - 1) s"

definition get_scsi_node_from_bootdevice :: "host \<Rightarrow> string \<Rightarrow> string option" where
  "get_scsi_node_from_bootdevice h bootdev_path =
     do { target \<leftarrow> link_of h bootdev_path;
          let real_path = cstr (take (PATH_MAX - 1) target);
          if length real_path < PATH_TRUNCATE_LOC + 1 then None
          else do {
            let real_path = take PATH_TRUNCATE_LOC real_path;
            names \<leftarrow> dir_entries h (snprintf (PATH_MAX - 1)
              (''/sys/block/'' @ drop LUN_NAME_START_LOC real_path @ ''/device/scsi_generic''));
            nm \<leftarrow> find (\<lambda>nm. c_hd nm \<noteq> CHR ''.'' \<and> strneq 2 nm ''sg'') names;
            Some (snprintf (PATH_MAX - 1) (''/dev/'' @ nm)) } }"

definition set_boot_lun :: "host \<Rightarrow> string \<Rightarrow> int \<Rightarrow> boot_luns \<Rightarrow> int \<times> boot_luns" where
  "set_boot_lun h sg_dev boot_lun_id luns =
     (if lun_writable h sg_dev then (0, luns @ [(sg_dev, boot_lun_id)]) else (-1, luns))"

definition gpt_utils_set_xbl_boot_partition :: "host \<Rightarrow> boot_chain \<Rightarrow> boot_luns \<Rightarrow> int \<times> boot_luns" where
  "gpt_utils_set_xbl_boot_partition h chain luns =
     (let (boot_lun_id, first, second) =
        (case chain of BACKUP_BOOT \<Rightarrow> (BOOT_LUN_B_ID, XBL_BACKUP, XBL_AB_SECONDARY)
         | NORMAL_BOOT \<Rightarrow> (BOOT_LUN_A_ID, XBL_PRIMARY, XBL_AB_PRIMARY))
      in if \<not> path_exists h first \<and> \<not> path_exists h second then (-1, luns)
         else let boot_dev = (if path_exists h first then first else second)
         in if (\<not> path_exists h XBL_PRIMARY \<or> \<not> path_exists h XBL_BACKUP)
               \<and> (\<not> path_exists h XBL_AB_PRIMARY \<or> \<not> path_exists h XBL_AB_SECONDARY) then (-1, luns)
         else case get_scsi_node_from_bootdevice h boot_dev of
                None \<Rightarrow> (-1, luns)
              | Some sg_dev_node \<Rightarrow> set_boot_lun h sg_dev_node boot_lun_id luns)"

text \<open>The part of a stage that is for UFS devices with an \<open>xbl\<close> partition only.\<close>

definition switch_xbl :: "host \<Rightarrow> boot_chain \<Rightarrow> boot_luns \<Rightarrow> int \<times> boot_luns" where
  "switch_xbl h chain luns =
     (if gpt_utils_is_ufs_device (bootdevice h) \<and> path_exists h XBL_PRIMARY \<and> path_exists h XBL_BACKUP
      then gpt_utils_set_xbl_boot_partition h chain luns else (0, luns))"

definition stage_main :: "host \<Rightarrow> blkdev \<Rightarrow> boot_luns \<Rightarrow> (int \<times> blkdev \<times> boot_luns) option" where
  "stage_main h d luns =
     (case switch_xbl h BACKUP_BOOT luns of (r, luns) \<Rightarrow>
        if r \<noteq> 0 then Some (r, d, luns)
        else do {
          (r, d) \<leftarrow> gpt2_set_boot_chain (dev_env h) (gpt_utils_is_ufs_device (bootdevice h)) BACKUP_BOOT d;
          if r \<noteq> 0 then Some (if r < 0 then r else 0, d, luns)
          else do {
            (r, d) \<leftarrow> gpt_set_state (dev_env h) PRIMARY_GPT GPT_BAD_SIGNATURE d;
            Some (r, d, luns) } })"

definition stage_backup :: "host \<Rightarrow> blkdev \<Rightarrow> boot_luns \<Rightarrow> (int \<times> blkdev \<times> boot_luns) option" where
  "stage_backup h d luns =
     (case switch_xbl h NORMAL_BOOT luns of (r, luns) \<Rightarrow>
        if r \<noteq> 0 then Some (r, d, luns)
        else do {
          (r, d) \<leftarrow> gpt_set_state (dev_env h) PRIMARY_GPT GPT_OK d;
          if r \<noteq> 0 then Some (r, d, luns)
          else do {
            (r, d) \<leftarrow> gpt_set_state (dev_env h) SECONDARY_GPT GPT_BAD_SIGNATURE d;
            Some (r, d, luns) } })"

definition stage_finalize :: "host \<Rightarrow> blkdev \<Rightarrow> boot_luns \<Rightarrow> (int \<times> blkdev \<times> boot_luns) option" where
  "stage_finalize h d luns =
     do { (r, d) \<leftarrow> gpt2_set_boot_chain (dev_env h) (gpt_utils_is_ufs_device (bootdevice h)) NORMAL_BOOT d;
          if r < 0 then Some (r, d, luns)
          else do {
            (r, d) \<leftarrow> gpt_set_state (dev_env h) SECONDARY_GPT GPT_OK d;
            Some (r, d, luns) } }"

text \<open>The stage the states of the headers show; \<open>None\<close> where the code aborts.\<close>

definition internal_stage :: "gpt_state \<Rightarrow> gpt_state \<Rightarrow> boot_update_stage option" where
  "internal_stage gpt_prim gpt_second =
     (if gpt_prim = GPT_BAD_CRC \<or> gpt_second = GPT_BAD_CRC then None
      else if gpt_prim = GPT_BAD_SIGNATURE \<and> gpt_second = GPT_BAD_SIGNATURE then None
      else if gpt_prim = GPT_OK \<and> gpt_second = GPT_OK then Some UPDATE_MAIN
      else if gpt_prim = GPT_BAD_SIGNATURE then Some UPDATE_BACKUP
      else if gpt_second = GPT_BAD_SIGNATURE then Some UPDATE_FINALIZE
      else None)"

fun stage_no :: "boot_update_stage \<Rightarrow> int" where
  "stage_no UPDATE_MAIN = 1" | "stage_no UPDATE_BACKUP = 2" | "stage_no UPDATE_FINALIZE = 3"

text \<open>\<open>prepare_partitions\<close> on a device that was opened; \<open>fsync\<close> at the end.\<close>

definition prepare_opened :: "host \<Rightarrow> boot_update_stage \<Rightarrow> blkdev \<Rightarrow> boot_luns \<Rightarrow> (int \<times> blkdev \<times> boot_luns) option" where
  "prepare_opened h stage d luns =
     do { (r, gpt_prim, d) \<leftarrow> gpt_get_state (dev_env h) PRIMARY_GPT d;
          (r, gpt_second, d) \<leftarrow> (if r \<noteq> 0 then Some (r, GPT_OK, d) else gpt_get_state (dev_env h) SECONDARY_GPT d);
          if r \<noteq> 0 then Some (1, d, luns)
          else case internal_stage gpt_prim gpt_second of
            None \<Rightarrow> Some (-1, d, luns)
          | Some internal \<Rightarrow>
              if stage_no stage = stage_no internal - 1 then Some (0, d, luns)
              else if stage \<noteq> internal then Some (-1, d, luns)
              else case stage of
                UPDATE_MAIN \<Rightarrow> stage_main h d luns
              | UPDATE_BACKUP \<Rightarrow> stage_backup h d luns
              | UPDATE_FINALIZE \<Rightarrow> stage_finalize h d luns }"

definition prepare_partitions :: "host \<Rightarrow> boot_update_stage \<Rightarrow> blkdev option \<Rightarrow> boot_luns \<Rightarrow> (int \<times> blkdev option \<times> boot_luns) option" where
  "prepare_partitions h stage dev luns =
     (case dev of
        None \<Rightarrow> Some (-1, None, luns)
      | Some d \<Rightarrow> do {
          (r, d, luns) \<leftarrow> prepare_opened h stage d luns;
          let (_, d) = os_fsync (dev_env h) d;
          Some (r, Some d, luns) })"

end
