(* ===== verification/Gpt_Failsafe.thy ===== *)
theory Gpt_Failsafe
  imports Gpt_Update
begin

text \<open>
  The promise of the fail-safe update: whatever call fails at whatever point of whatever stage, one
  copy of the partition table can be booted from. The invariant is preserved by every stage and
  so by every sequence of stages.
\<close>

section \<open>The two copies on the device\<close>

definition hdr_at :: "blkdev \<Rightarrow> gpt_instance \<Rightarrow> nat" where
  "hdr_at d g = (case g of PRIMARY_GPT \<Rightarrow> unat (dev_blk d)
     | SECONDARY_GPT \<Rightarrow> length (dev_bytes d) - unat (dev_blk d))"

definition hdr_of :: "blkdev \<Rightarrow> gpt_instance \<Rightarrow> string" where
  "hdr_of d g = slice (hdr_at d g) (unat (dev_blk d)) (dev_bytes d)"

text \<open>What a header says of its size, and of the place, length and entry size of the entries.\<close>

definition geometry :: "string \<Rightarrow> (32 word \<times> 64 word \<times> 32 word \<times> 32 word) option" where
  "geometry h = do { sz \<leftarrow> GET_4_BYTES h HEADER_SIZE_OFFSET; lba \<leftarrow> GET_8_BYTES h PENTRIES_OFFSET;
     cnt \<leftarrow> GET_4_BYTES h PARTITION_COUNT_OFFSET; psz \<leftarrow> GET_4_BYTES h PENTRY_SIZE_OFFSET; Some (sz, lba, cnt, psz) }"

definition entries_of :: "blkdev \<Rightarrow> gpt_instance \<Rightarrow> string" where
  "entries_of d g = (case geometry (hdr_of d g) of
     Some (sz, lba, cnt, psz) \<Rightarrow> slice (unat (lba * ucast (dev_blk d))) (unat (cnt * psz)) (dev_bytes d)
   | None \<Rightarrow> [])"

definition signed_ok :: "string \<Rightarrow> bool" where
  "signed_ok h \<longleftrightarrow> take (length GPT_SIGNATURE) h = GPT_SIGNATURE"

definition crc_ok :: "gpt_env \<Rightarrow> string \<Rightarrow> bool" where
  "crc_ok e h \<longleftrightarrow> (\<exists>sz. GET_4_BYTES h HEADER_SIZE_OFFSET = Some sz
     \<and> header_crc e h sz = GET_4_BYTES h HEADER_CRC_OFFSET)"

definition entries_crc_ok :: "gpt_env \<Rightarrow> blkdev \<Rightarrow> gpt_instance \<Rightarrow> bool" where
  "entries_crc_ok e d g \<longleftrightarrow> GET_4_BYTES (hdr_of d g) PARTITION_CRC_OFFSET = Some (crc32 e (entries_of d g))"

text \<open>A copy a boot loader accepts.\<close>

definition bootable :: "gpt_env \<Rightarrow> blkdev \<Rightarrow> gpt_instance \<Rightarrow> bool" where
  "bootable e d g \<longleftrightarrow> signed_ok (hdr_of d g) \<and> crc_ok e (hdr_of d g) \<and> entries_crc_ok e d g"

text \<open>
  The layout: two headers of the same geometry but for the place of the entries, two arrays of
  entries, none overlapping another, and all on the device.
\<close>

definition disjoint_regions :: "nat \<times> nat \<Rightarrow> nat \<times> nat \<Rightarrow> bool" where
  "disjoint_regions r s \<longleftrightarrow> fst r + snd r \<le> fst s \<or> fst s + snd s \<le> fst r"

definition layout :: "blkdev \<Rightarrow> bool" where
  "layout d \<longleftrightarrow>
     (let b = unat (dev_blk d); l = length (dev_bytes d) in
      92 \<le> b \<and> b \<le> 0x7ffff000 \<and> 3 * b \<le> l \<and>
      (\<exists>sz lba lba' cnt psz.
        geometry (hdr_of d PRIMARY_GPT) = Some (sz, lba, cnt, psz) \<and>
        (\<exists>sz'. geometry (hdr_of d SECONDARY_GPT) = Some (sz', lba', cnt, psz) \<and> unat sz' \<le> b) \<and>
        unat sz \<le> b \<and> unat (cnt * psz) \<le> 0x7ffff000 \<and>
        0 \<le> sint (lba * ucast (dev_blk d)) \<and> 0 \<le> sint (lba' * ucast (dev_blk d)) \<and>
        (let n = unat (cnt * psz); p = unat (lba * ucast (dev_blk d)); s = unat (lba' * ucast (dev_blk d)) in
          p + n \<le> l \<and> s + n \<le> l \<and> disjoint_regions (p, n) (s, n) \<and>
          disjoint_regions (b, b) (p, n) \<and> disjoint_regions (b, b) (s, n) \<and>
          disjoint_regions (l - b, b) (p, n) \<and> disjoint_regions (l - b, b) (s, n))))"

definition entry_size_of :: "blkdev \<Rightarrow> nat" where
  "entry_size_of d = (case geometry (hdr_of d PRIMARY_GPT) of Some (sz, lba, cnt, psz) \<Rightarrow> unat psz | None \<Rightarrow> 0)"

definition update_inv :: "gpt_env \<Rightarrow> blkdev \<Rightarrow> bool" where
  "update_inv e d \<longleftrightarrow> layout d
     \<and> (\<exists>n. entries_ok (entries_of d PRIMARY_GPT) (entry_size_of d) n)
     \<and> crc_ok e (hdr_of d PRIMARY_GPT) \<and> entries_crc_ok e d PRIMARY_GPT
     \<and> (signed_ok (hdr_of d PRIMARY_GPT) \<or> bootable e d SECONDARY_GPT)"

lemma update_inv_bootable: "update_inv e d \<Longrightarrow> bootable e d PRIMARY_GPT \<or> bootable e d SECONDARY_GPT"
  by (auto simp: update_inv_def bootable_def)

section \<open>System calls\<close>

lemma same_dev_layout:
  assumes "same_dev d d'"
  shows "hdr_of d' g = hdr_of d g" "entries_of d' g = entries_of d g" "layout d' = layout d" "update_inv e d' = update_inv e d"
    "bootable e d' g = bootable e d g" "entry_size_of d' = entry_size_of d"
proof -
  have h: "hdr_of d' g = hdr_of d g" for g
    using assms by (auto simp: hdr_of_def hdr_at_def same_dev_def split: gpt_instance.split)
  then have en: "entries_of d' g = entries_of d g" for g
    using assms by (auto simp: entries_of_def same_dev_def split: option.split)
  have l: "layout d' = layout d" using assms h by (simp add: layout_def same_dev_def)
  have b: "bootable e d' g = bootable e d g" for g using h en by (simp add: bootable_def entries_crc_ok_def)
  have z: "entry_size_of d' = entry_size_of d" by (simp add: entry_size_of_def h)
  show "hdr_of d' g = hdr_of d g" "entries_of d' g = entries_of d g" "layout d' = layout d"
    "bootable e d' g = bootable e d g" "entry_size_of d' = entry_size_of d" by (fact h en l b z)+
  show "update_inv e d' = update_inv e d"
    by (simp add: update_inv_def l h en b z entries_crc_ok_def)
qed

lemma ioctl_cases:
  obtains d' where "ioctl_BLKSSZGET e d = (None, d')" "same_dev d d'" "\<not> works e"
  | d' where "ioctl_BLKSSZGET e d = (Some (dev_blk d), d')" "same_dev d d'"
  by (cases "fault e (dev_calls d) = Fails") (auto simp: ioctl_BLKSSZGET_def sys_call_def same_dev_def dest: fails_not_works)

lemma malloc_cases:
  obtains d' where "os_malloc e n d = (None, d')" "same_dev d d'" "\<not> works e"
  | d' b where "os_malloc e n d = (Some b, d')" "length b = n" "same_dev d d'"
  by (cases "fault e (dev_calls d) = Fails") (auto simp: os_malloc_def sys_call_def same_dev_def dest: fails_not_works)

lemma calloc_cases:
  obtains d' where "os_calloc e n d = (None, d')" "same_dev d d'" "\<not> works e"
  | d' b where "os_calloc e n d = (Some b, d')" "length b = n" "same_dev d d'"
  by (cases "fault e (dev_calls d) = Fails") (auto simp: os_calloc_def sys_call_def same_dev_def dest: fails_not_works)

lemma header_offset_cases:
  assumes "unat (dev_blk d) \<le> length (dev_bytes d)"
  obtains off d' where "header_offset e g (dev_blk d) d = (off, d')" "off < 0" "same_dev d d'" "\<not> works e"
  | d' where "header_offset e g (dev_blk d) d = (int (hdr_at d g), d')" "same_dev d d'"
proof (cases g)
  case PRIMARY_GPT
  then show ?thesis using that(2) [of d] by (simp add: header_offset_def hdr_at_def)
next
  case SECONDARY_GPT
  have u: "0 \<le> uint (dev_blk d)" by simp
  let ?d = "d\<lparr>dev_calls := dev_calls d + 1\<rparr>"
  have same: "same_dev d ?d" by (simp add: same_dev_def)
  show ?thesis
  proof (cases "fault e (dev_calls d) = Fails")
    case True
    then have "header_offset e g (dev_blk d) d = (-1 - uint (dev_blk d), ?d)"
      using SECONDARY_GPT by (simp add: header_offset_def lseek_end_def sys_call_def)
    then show ?thesis by (rule that(1)) (use u in linarith, rule same, rule fails_not_works [OF True])
  next
    case False
    then have "header_offset e g (dev_blk d) d = (int (hdr_at d g), ?d)"
      using SECONDARY_GPT assms by (simp add: header_offset_def lseek_end_def sys_call_def hdr_at_def of_nat_diff)
    then show ?thesis by (rule that(2)) (rule same)
  qed
qed

lemma blk_read:
  assumes "no_short e" "off + n \<le> length (dev_bytes d)" "n \<le> 0x7ffff000" "length b = n"
  obtains b' d' where "blk_rw e False (int off) b n d = Some (-1, b', d')" "same_dev d d'" "\<not> works e"
  | d' where "blk_rw e False (int off) b n d = Some (0, slice off n (dev_bytes d), d')" "same_dev d d'"
proof -
  obtain r b' d' where r: "blk_rw e False (int off) b n d = Some (r, b', d')"
    using blk_rw_defined [of b n e False "int off" d] assms(4) by auto
  show ?thesis using blk_read_cases [OF r assms(1)] assms(2,3,4) that r by (metis nat_int of_nat_less_0_iff)
qed

lemma blk_write:
  assumes "no_short e" "off + n \<le> length (dev_bytes d)" "n \<le> 0x7ffff000" "length b = n"
  obtains b' d' where "blk_rw e True (int off) b n d = Some (-1, b', d')" "same_dev d d'" "\<not> works e"
  | r b' d' where "blk_rw e True (int off) b n d = Some (r, b', d')" "r = 0 \<or> r = -1" "works e \<longrightarrow> r = 0"
      "dev_blk d' = dev_blk d" "dev_bytes d' = splice_at off b (dev_bytes d)"
proof -
  obtain r b' d' where r: "blk_rw e True (int off) b n d = Some (r, b', d')"
    using blk_rw_defined [of b n e True "int off" d] assms(4) by auto
  show ?thesis using blk_write_cases [OF r assms(1)] assms(2,3,4) that r by (metis nat_int of_nat_less_0_iff)
qed

section \<open>Writing a header, writing the entries\<close>

definition entries_at :: "blkdev \<Rightarrow> gpt_instance \<Rightarrow> nat" where
  "entries_at d g = (case geometry (hdr_of d g) of Some (sz, lba, cnt, psz) \<Rightarrow> unat (lba * ucast (dev_blk d)) | None \<Rightarrow> 0)"

definition entries_len :: "blkdev \<Rightarrow> nat" where
  "entries_len d = (case geometry (hdr_of d PRIMARY_GPT) of Some (sz, lba, cnt, psz) \<Rightarrow> unat (cnt * psz) | None \<Rightarrow> 0)"

lemma nonneg_sint: "0 \<le> sint (w :: 64 word) \<Longrightarrow> sint w = int (unat w)"
  using uint_sint [of w] sint_lt [of w] by (simp add: take_bit_int_eq_self)

lemma layoutE:
  assumes "layout d"
  obtains sz sz' lba lba' cnt psz
  where "geometry (hdr_of d PRIMARY_GPT) = Some (sz, lba, cnt, psz)"
    "geometry (hdr_of d SECONDARY_GPT) = Some (sz', lba', cnt, psz)"
    "unat sz \<le> unat (dev_blk d)" "unat sz' \<le> unat (dev_blk d)"
    "entries_at d PRIMARY_GPT = unat (lba * ucast (dev_blk d))"
    "entries_at d SECONDARY_GPT = unat (lba' * ucast (dev_blk d))"
    "sint (lba * ucast (dev_blk d)) = int (unat (lba * ucast (dev_blk d)))"
    "sint (lba' * ucast (dev_blk d)) = int (unat (lba' * ucast (dev_blk d)))"
    "entries_len d = unat (cnt * psz)"
  using assms nonneg_sint by (fastforce simp: layout_def Let_def entries_at_def entries_len_def)

lemma layoutD:
  assumes "layout d"
  shows "92 \<le> unat (dev_blk d)" "unat (dev_blk d) \<le> 0x7ffff000" "3 * unat (dev_blk d) \<le> length (dev_bytes d)"
    "hdr_at d g + unat (dev_blk d) \<le> length (dev_bytes d)"
    "length (hdr_of d g) = unat (dev_blk d)"
    "entries_at d g + entries_len d \<le> length (dev_bytes d)" "entries_len d \<le> 0x7ffff000"
    "disjoint_regions (hdr_at d g, unat (dev_blk d)) (entries_at d g', entries_len d)"
    "disjoint_regions (entries_at d PRIMARY_GPT, entries_len d) (entries_at d SECONDARY_GPT, entries_len d)"
    "disjoint_regions (hdr_at d PRIMARY_GPT, unat (dev_blk d)) (hdr_at d SECONDARY_GPT, unat (dev_blk d))"
    "entries_of d g = slice (entries_at d g) (entries_len d) (dev_bytes d)"
    "length (entries_of d g) = entries_len d"
proof -
  show b: "92 \<le> unat (dev_blk d)" "unat (dev_blk d) \<le> 0x7ffff000" "3 * unat (dev_blk d) \<le> length (dev_bytes d)"
    using assms by (simp_all add: layout_def Let_def)
  show h: "hdr_at d g + unat (dev_blk d) \<le> length (dev_bytes d)" for g
    using b by (cases g) (simp_all add: hdr_at_def)
  show "length (hdr_of d g) = unat (dev_blk d)" using h by (simp add: hdr_of_def)
  show "disjoint_regions (hdr_at d PRIMARY_GPT, unat (dev_blk d)) (hdr_at d SECONDARY_GPT, unat (dev_blk d))"
    using b by (simp add: disjoint_regions_def hdr_at_def)
  obtain sz sz' lba lba' cnt psz where g: "geometry (hdr_of d PRIMARY_GPT) = Some (sz, lba, cnt, psz)"
    "geometry (hdr_of d SECONDARY_GPT) = Some (sz', lba', cnt, psz)" by (rule layoutE [OF assms])
  have at: "entries_at d PRIMARY_GPT = unat (lba * ucast (dev_blk d))"
    "entries_at d SECONDARY_GPT = unat (lba' * ucast (dev_blk d))" "entries_len d = unat (cnt * psz)"
    using g by (simp_all add: entries_at_def entries_len_def)
  have l: "entries_at d g + entries_len d \<le> length (dev_bytes d)" for g
    using assms g at by (cases g) (auto simp: layout_def Let_def)
  then show "entries_at d g + entries_len d \<le> length (dev_bytes d)" .
  show "entries_len d \<le> 0x7ffff000" using assms g at by (auto simp: layout_def Let_def)
  show "disjoint_regions (hdr_at d g, unat (dev_blk d)) (entries_at d g', entries_len d)"
    using assms g at by (cases g; cases g') (auto simp: layout_def Let_def hdr_at_def)
  show "disjoint_regions (entries_at d PRIMARY_GPT, entries_len d) (entries_at d SECONDARY_GPT, entries_len d)"
    using assms g at by (auto simp: layout_def Let_def)
  show e: "entries_of d g = slice (entries_at d g) (entries_len d) (dev_bytes d)"
    using g at by (cases g) (simp_all add: entries_of_def)
  show "length (entries_of d g) = entries_len d" using e l by simp
qed

lemma layout_cong:
  assumes "dev_blk d' = dev_blk d" "length (dev_bytes d') = length (dev_bytes d)"
    "\<And>g. geometry (hdr_of d' g) = geometry (hdr_of d g)"
  shows "layout d' = layout d" "entries_at d' g = entries_at d g" "entries_len d' = entries_len d"
    "entry_size_of d' = entry_size_of d"
  by (auto simp: layout_def entries_at_def entries_len_def entry_size_of_def assms split: option.split)

lemma write_header:
  assumes "layout d" "length h = unat (dev_blk d)" "geometry h = geometry (hdr_of d g)"
    "dev_blk d' = dev_blk d" "dev_bytes d' = splice_at (hdr_at d g) h (dev_bytes d)"
  shows "layout d'" "hdr_of d' g = h" "g' \<noteq> g \<Longrightarrow> hdr_of d' g' = hdr_of d g'" "entries_of d' g' = entries_of d g'"
    "entry_size_of d' = entry_size_of d"
proof -
  note l = layoutD [OF assms(1)]
  have len: "length (dev_bytes d') = length (dev_bytes d)" using l(4) [of g] assms by simp
  have at: "hdr_at d' x = hdr_at d x" for x using len assms(4) by (auto simp: hdr_at_def split: gpt_instance.split)
  show h: "hdr_of d' g = h"
    using l(4) [of g] assms by (simp add: hdr_of_def at slice_splice_same)
  have o: "hdr_of d' x = hdr_of d x" if "x \<noteq> g" for x
  proof -
    have "disjoint_regions (hdr_at d x, unat (dev_blk d)) (hdr_at d g, unat (dev_blk d))"
      using l(10) that by (cases x; cases g) (auto simp: disjoint_regions_def)
    then show ?thesis using l(4) [of g] assms
      by (auto simp: hdr_of_def at disjoint_regions_def intro!: slice_splice_other)
  qed
  then show "g' \<noteq> g \<Longrightarrow> hdr_of d' g' = hdr_of d g'" .
  have geo: "geometry (hdr_of d' x) = geometry (hdr_of d x)" for x
    using h o assms(3) by (cases "x = g") auto
  note c = layout_cong [OF assms(4) len geo]
  show ly: "layout d'" "entry_size_of d' = entry_size_of d" using c assms(1) by simp_all
  show "entries_of d' g' = entries_of d g'"
    using l(4) [of g] l(8) [of g g'] assms
    by (auto simp: layoutD(11) [OF ly(1)] l(11) c disjoint_regions_def intro!: slice_splice_other)
qed

lemma write_entries:
  assumes "layout d" "length a = entries_len d"
    "dev_blk d' = dev_blk d" "dev_bytes d' = splice_at (entries_at d g) a (dev_bytes d)"
  shows "layout d'" "hdr_of d' x = hdr_of d x" "g' \<noteq> g \<Longrightarrow> entries_of d' g' = entries_of d g'"
    "entries_of d' g = a" "entry_size_of d' = entry_size_of d"
proof -
  note l = layoutD [OF assms(1)]
  have len: "length (dev_bytes d') = length (dev_bytes d)" using l(6) [of g] assms by simp
  have at: "hdr_at d' y = hdr_at d y" for y using len assms(3) by (auto simp: hdr_at_def split: gpt_instance.split)
  have o: "hdr_of d' y = hdr_of d y" for y
    using l(6) [of g] l(8) [of y g] assms
    by (auto simp: hdr_of_def at disjoint_regions_def intro!: slice_splice_other)
  then show "hdr_of d' x = hdr_of d x" .
  note c = layout_cong [OF assms(3) len, unfolded o, OF refl]
  show ly: "layout d'" "entry_size_of d' = entry_size_of d" using c assms(1) by simp_all
  show "entries_of d' g = a"
    using l(6) [of g] assms by (simp add: layoutD(11) [OF ly(1)] c slice_splice_same)
  assume "g' \<noteq> g"
  then have "disjoint_regions (entries_at d g', entries_len d) (entries_at d g, entries_len d)"
    using l(9) by (cases g; cases g') (auto simp: disjoint_regions_def)
  then show "entries_of d' g' = entries_of d g'"
    using l(6) [of g] assms
    by (auto simp: layoutD(11) [OF ly(1)] l(11) c disjoint_regions_def intro!: slice_splice_other)
qed

section \<open>Headers\<close>

lemma geometry_cong:
  assumes "length h' = length h" "\<And>i. 12 \<le> i \<and> i < 16 \<or> 72 \<le> i \<and> i < 88 \<Longrightarrow> h' ! i = h ! i"
  shows "geometry h' = geometry h"
proof -
  have "GET_4_BYTES h' p = GET_4_BYTES h p" if "p = 12 \<or> p = 80 \<or> p = 84" for p
    using that by (intro GET_4_cong assms) auto
  moreover have "GET_8_BYTES h' 72 = GET_8_BYTES h 72"
    by (intro GET_8_cong assms) auto
  ultimately show ?thesis by (simp add: geometry_def gpt_offsets)
qed

lemma PUT_geometry:
  assumes "PUT_4_BYTES h p y = Some h'" "p = 16 \<or> p = 88"
  shows "geometry h' = geometry h"
proof (rule geometry_cong)
  fix i :: nat assume "12 \<le> i \<and> i < 16 \<or> 72 \<le> i \<and> i < 88"
  then show "h' ! i = h ! i" using assms(2) by (intro PUT_4_BYTES_nth [OF assms(1)]) auto
qed (simp add: length_PUT_4_BYTES [OF assms(1)])

lemma sig_len: "length GPT_SIGNATURE = 9"
  by (simp add: GPT_SIGNATURE_def)

lemma PUT_signed:
  assumes "PUT_4_BYTES h p y = Some h'" "9 \<le> p"
  shows "signed_ok h' = signed_ok h"
proof -
  have "take 9 h' = take 9 h"
    using assms by (auto simp: length_PUT_4_BYTES list_eq_iff_nth_eq intro!: PUT_4_BYTES_nth)
  then show ?thesis by (simp add: signed_ok_def sig_len)
qed

lemma put_header_crc_ok:
  assumes "92 \<le> length h" "GET_4_BYTES h HEADER_SIZE_OFFSET = Some sz" "unat sz \<le> length h"
  obtains h' where "put_header_crc e h sz = Some h'" "length h' = length h" "geometry h' = geometry h"
    "signed_ok h' = signed_ok h" "GET_4_BYTES h' PARTITION_CRC_OFFSET = GET_4_BYTES h PARTITION_CRC_OFFSET" "crc_ok e h'"
proof -
  obtain h0 where h0: "PUT_4_BYTES h 16 0 = Some h0" "length h0 = length h"
    using PUT_4_ok [of 16 h 0] assms(1) by auto
  let ?c = "crc32 e (take (unat sz) h0)"
  obtain h' where h': "PUT_4_BYTES h0 16 ?c = Some h'" "length h' = length h"
    using PUT_4_ok [of 16 h0 ?c] assms(1) h0(2) by auto
  have p: "put_header_crc e h sz = Some h'"
    using h0 h' assms(3) by (simp add: put_header_crc_def gpt_offsets crc_of_def)
  have "PUT_4_BYTES h' 16 0 = Some h0"
    using PUT_PUT_4_BYTES [OF h0(1)] PUT_PUT_4_BYTES [OF h'(1)] h0(1) by simp
  moreover have "GET_4_BYTES h' 12 = Some sz"
    using GET_4_PUT_4_other [OF h'(1), of 12] GET_4_PUT_4_other [OF h0(1), of 12] assms(2)
    by (simp add: gpt_offsets)
  ultimately have crc: "crc_ok e h'"
    using GET_PUT_4_BYTES [OF h'(1)] assms(3) h0(2)
    by (simp add: crc_ok_def header_crc_def crc_of_def gpt_offsets)
  show ?thesis
  proof (rule that [OF p h'(2) _ _ _ crc])
    show "geometry h' = geometry h" using PUT_geometry [OF h0(1)] PUT_geometry [OF h'(1)] by simp
    show "signed_ok h' = signed_ok h" using PUT_signed [OF h0(1)] PUT_signed [OF h'(1)] by simp
    show "GET_4_BYTES h' PARTITION_CRC_OFFSET = GET_4_BYTES h PARTITION_CRC_OFFSET"
      using GET_4_PUT_4_other [OF h'(1), of 88] GET_4_PUT_4_other [OF h0(1), of 88] by (simp add: gpt_offsets)
  qed
qed

definition wanted :: "gpt_state \<Rightarrow> string \<Rightarrow> bool" where
  "wanted st h \<longleftrightarrow> signed_ok h = (st = GPT_OK)"

lemma put_signature_ok:
  assumes "92 \<le> length h" "st \<noteq> GPT_BAD_CRC"
  obtains h' where "put_signature st h = Some (Some h')" "length h' = length h" "geometry h' = geometry h"
    "wanted st h'" "GET_4_BYTES h' PARTITION_CRC_OFFSET = GET_4_BYTES h PARTITION_CRC_OFFSET"
proof (cases st)
  case GPT_OK
  let ?h = "splice_at 0 GPT_SIGNATURE h"
  have n: "?h ! i = h ! i" if "9 \<le> i" "i < length h" for i
    using that by (simp add: nth_splice_at GPT_SIGNATURE_def)
  have l: "length ?h = length h" using assms(1) by (simp add: GPT_SIGNATURE_def)
  show ?thesis
  proof (rule that [of ?h])
    show "put_signature st h = Some (Some ?h)" using GPT_OK assms(1) by (simp add: put_signature_def GPT_SIGNATURE_def)
    show "wanted st ?h" using GPT_OK by (simp add: wanted_def signed_ok_def splice_at_def)
    show "geometry ?h = geometry h" using assms(1) by (intro geometry_cong l n) auto
    show "GET_4_BYTES ?h PARTITION_CRC_OFFSET = GET_4_BYTES h PARTITION_CRC_OFFSET"
      using assms(1) by (intro GET_4_cong l n) (auto simp: gpt_offsets)
  qed (rule l)
next
  case GPT_BAD_SIGNATURE
  let ?h = "h[0 := NUL]"
  have "\<not> signed_ok ?h" using assms(1) by (cases h) (auto simp: signed_ok_def GPT_SIGNATURE_def)
  then show ?thesis
  proof (intro that [of ?h])
    show "put_signature st h = Some (Some ?h)" using GPT_BAD_SIGNATURE assms(1) by (auto simp: put_signature_def)
    show "geometry ?h = geometry h" by (rule geometry_cong) auto
    show "GET_4_BYTES ?h PARTITION_CRC_OFFSET = GET_4_BYTES h PARTITION_CRC_OFFSET"
      by (rule GET_4_cong) (auto simp: gpt_offsets)
  qed (simp_all add: wanted_def GPT_BAD_SIGNATURE)
qed (use assms in simp)

section \<open>Reading and setting the state of a copy\<close>

definition header_state :: "gpt_env \<Rightarrow> string \<Rightarrow> gpt_state" where
  "header_state e h = (if \<not> crc_ok e h then GPT_BAD_CRC else if \<not> signed_ok h then GPT_BAD_SIGNATURE else GPT_OK)"

lemma geometry_size:
  "geometry h' = geometry h \<Longrightarrow> 92 \<le> length h \<Longrightarrow> length h' = length h \<Longrightarrow>
   GET_4_BYTES h' HEADER_SIZE_OFFSET = GET_4_BYTES h HEADER_SIZE_OFFSET"
  by (simp add: geometry_def gpt_offsets GET_4_BYTES_def GET_8_BYTES_def)

lemma hdr_fields:
  assumes "layout d"
  obtains sz where "GET_4_BYTES (hdr_of d g) HEADER_SIZE_OFFSET = Some sz" "unat sz \<le> unat (dev_blk d)"
proof -
  obtain sz sz' lba lba' cnt psz where "geometry (hdr_of d PRIMARY_GPT) = Some (sz, lba, cnt, psz)"
    "geometry (hdr_of d SECONDARY_GPT) = Some (sz', lba', cnt, psz)"
    "unat sz \<le> unat (dev_blk d)" "unat sz' \<le> unat (dev_blk d)" by (rule layoutE [OF assms])
  then show ?thesis using that [of sz] that [of sz']
    by (cases g) (auto simp: geometry_def bind_eq_Some_iff)
qed

text \<open>
  All that reading the states needs: both headers on the device, and neither saying of itself that it
  is longer than the block it is in. Whether anything else in them makes sense is left open.
\<close>

definition headers_fit :: "blkdev \<Rightarrow> bool" where
  "headers_fit d \<longleftrightarrow> 92 \<le> unat (dev_blk d) \<and> unat (dev_blk d) \<le> 0x7ffff000 \<and> 2 * unat (dev_blk d) \<le> length (dev_bytes d)
     \<and> (\<forall>g. \<exists>sz. GET_4_BYTES (hdr_of d g) HEADER_SIZE_OFFSET = Some sz \<and> unat sz \<le> unat (dev_blk d))"

lemma layout_fits: "layout d \<Longrightarrow> headers_fit d"
  using layoutD(1-3) [of d] by (auto simp: headers_fit_def elim: hdr_fields)

lemma same_dev_fits: "same_dev d d' \<Longrightarrow> headers_fit d' = headers_fit d"
  by (simp add: headers_fit_def same_dev_layout) (simp add: same_dev_def)

lemma fitD:
  assumes "headers_fit d"
  shows "92 \<le> unat (dev_blk d)" "unat (dev_blk d) \<le> 0x7ffff000" "hdr_at d g + unat (dev_blk d) \<le> length (dev_bytes d)"
    "length (hdr_of d g) = unat (dev_blk d)"
    "\<exists>sz. GET_4_BYTES (hdr_of d g) HEADER_SIZE_OFFSET = Some sz \<and> unat sz \<le> unat (dev_blk d)"
proof -
  show "92 \<le> unat (dev_blk d)" "unat (dev_blk d) \<le> 0x7ffff000"
    "\<exists>sz. GET_4_BYTES (hdr_of d g) HEADER_SIZE_OFFSET = Some sz \<and> unat sz \<le> unat (dev_blk d)"
    using assms by (simp_all add: headers_fit_def)
  show "hdr_at d g + unat (dev_blk d) \<le> length (dev_bytes d)"
    using assms by (cases g) (simp_all add: headers_fit_def hdr_at_def)
  then show "length (hdr_of d g) = unat (dev_blk d)" by (simp add: hdr_of_def)
qed

text \<open>
  The way to a header: block size, buffer, offset, read. Each call may end it, else the header is
  in the buffer.
\<close>

lemma header_read_cases:
  assumes "headers_fit d"
  obtains (size) d1 where "ioctl_BLKSSZGET e d = (None, d1)" "same_dev d d1" "\<not> works e"
  | (mem) d1 d2 where "ioctl_BLKSSZGET e d = (Some (dev_blk d), d1)" "os_malloc e (unat (dev_blk d)) d1 = (None, d2)" "same_dev d d2" "\<not> works e"
  | (seek) d1 b d2 off d3 where "ioctl_BLKSSZGET e d = (Some (dev_blk d), d1)" "os_malloc e (unat (dev_blk d)) d1 = (Some b, d2)"
      "header_offset e g (dev_blk d) d2 = (off, d3)" "off < 0" "same_dev d d3" "\<not> works e"
  | (found) d1 b d2 d3 where "ioctl_BLKSSZGET e d = (Some (dev_blk d), d1)" "os_malloc e (unat (dev_blk d)) d1 = (Some b, d2)"
      "header_offset e g (dev_blk d) d2 = (int (hdr_at d g), d3)" "length b = unat (dev_blk d)" "same_dev d d3"
proof -
  have lt: "unat (dev_blk d) \<le> length (dev_bytes d)" using fitD(3) [OF assms, of PRIMARY_GPT] by simp
  show ?thesis
  proof (rule ioctl_cases [of e d])
    fix d1 assume 1: "ioctl_BLKSSZGET e d = (Some (dev_blk d), d1)" "same_dev d d1"
    show ?thesis
    proof (rule malloc_cases [of e "unat (dev_blk d)" d1])
      fix d2 b assume 2: "os_malloc e (unat (dev_blk d)) d1 = (Some b, d2)" "length b = unat (dev_blk d)" "same_dev d1 d2"
      have e2: "dev_blk d2 = dev_blk d" "length (dev_bytes d2) = length (dev_bytes d)" "hdr_at d2 g = hdr_at d g"
        "same_dev d d2"
        using 1(2) 2(3) by (auto simp: same_dev_def hdr_at_def split: gpt_instance.split)
      show ?thesis
        using header_offset_cases [of d2 e g] lt e2 1(1) 2(1,2) seek found same_dev_trans [OF e2(4)] by metis
    qed (use 1 mem same_dev_trans in metis)
  qed (use size in blast)
qed

lemma same_dev_region: "same_dev d d' \<Longrightarrow> off + n \<le> length (dev_bytes d) \<Longrightarrow> off + n \<le> length (dev_bytes d')"
  by (simp add: same_dev_def)

lemma get_state_spec:
  assumes "headers_fit d" "no_short e"
  shows "\<exists>r st d'. gpt_get_state e g d = Some (r, st, d') \<and> same_dev d d'
    \<and> (r = -1 \<and> \<not> works e \<or> r = 0 \<and> st = header_state e (hdr_of d g))"
proof (rule header_read_cases [OF assms(1), where g = g])
  fix d1 b d2 d3
  assume r: "ioctl_BLKSSZGET e d = (Some (dev_blk d), d1)" "os_malloc e (unat (dev_blk d)) d1 = (Some b, d2)"
    "header_offset e g (dev_blk d) d2 = (int (hdr_at d g), d3)" "length b = unat (dev_blk d)" "same_dev d d3"
  note l = fitD [OF assms(1)]
  obtain sz where sz: "GET_4_BYTES (hdr_of d g) HEADER_SIZE_OFFSET = Some sz" "unat sz \<le> unat (dev_blk d)"
    using l(5) [of g] by blast
  obtain c where c: "GET_4_BYTES (hdr_of d g) HEADER_CRC_OFFSET = Some c"
    using GET_4_ok [of HEADER_CRC_OFFSET "hdr_of d g"] l(1) l(4) [of g] by (auto simp: gpt_offsets)
  obtain k where k: "header_crc e (hdr_of d g) sz = Some k"
    using PUT_4_ok [of HEADER_CRC_OFFSET "hdr_of d g" 0] l(1) l(4) [of g] sz(2)
    by (auto simp: header_crc_def crc_of_def gpt_offsets)
  have st: "header_state e (hdr_of d g) = (if k \<noteq> c then GPT_BAD_CRC else if take (length GPT_SIGNATURE) (hdr_of d g) \<noteq> GPT_SIGNATURE then GPT_BAD_SIGNATURE else GPT_OK)"
    using sz c k by (simp add: header_state_def crc_ok_def signed_ok_def)
  have big: "\<not> length (hdr_of d g) < length GPT_SIGNATURE" using l(1) l(4) [of g] by (simp add: sig_len)
  have same: "slice (hdr_at d g) (unat (dev_blk d)) (dev_bytes d3) = hdr_of d g"
    using r(5) by (simp add: hdr_of_def same_dev_def)
  show ?thesis
  proof (rule blk_read [OF assms(2) same_dev_region [OF r(5) l(3)] l(2) r(4)])
    fix b' d' assume "blk_rw e False (int (hdr_at d g)) b (unat (dev_blk d)) d3 = Some (-1, b', d')" "same_dev d3 d'" "\<not> works e"
    then show ?thesis using r same_dev_trans by (auto simp: gpt_get_state_def)
  next
    fix d' assume "blk_rw e False (int (hdr_at d g)) b (unat (dev_blk d)) d3
        = Some (0, slice (hdr_at d g) (unat (dev_blk d)) (dev_bytes d3), d')" "same_dev d3 d'"
    then show ?thesis using r same_dev_trans [OF r(5)] big sz(1) c k st by (auto simp: gpt_get_state_def same Let_def)
  qed
qed (auto simp: gpt_get_state_def)

lemma set_state_cases:
  assumes "layout d" "no_short e" "st \<noteq> GPT_BAD_CRC"
  obtains d' where "gpt_set_state e g st d = Some (-1, d')" "same_dev d d'" "\<not> works e"
  | r d' h where "gpt_set_state e g st d = Some (r, d')" "r = 0 \<or> r = -1" "works e \<longrightarrow> r = 0"
    "dev_blk d' = dev_blk d" "dev_bytes d' = splice_at (hdr_at d g) h (dev_bytes d)"
    "length h = unat (dev_blk d)" "geometry h = geometry (hdr_of d g)" "wanted st h" "crc_ok e h"
    "GET_4_BYTES h PARTITION_CRC_OFFSET = GET_4_BYTES (hdr_of d g) PARTITION_CRC_OFFSET"
proof (rule header_read_cases [OF layout_fits [OF assms(1)], where g = g])
  fix d1 b d2 d3
  assume r: "ioctl_BLKSSZGET e d = (Some (dev_blk d), d1)" "os_malloc e (unat (dev_blk d)) d1 = (Some b, d2)"
    "header_offset e g (dev_blk d) d2 = (int (hdr_at d g), d3)" "length b = unat (dev_blk d)" "same_dev d d3"
  note l = layoutD [OF assms(1)]
  obtain sz where sz: "GET_4_BYTES (hdr_of d g) HEADER_SIZE_OFFSET = Some sz" "unat sz \<le> unat (dev_blk d)"
    by (rule hdr_fields [OF assms(1)])
  have big: "92 \<le> length (hdr_of d g)" using l(1) l(5) [of g] by simp
  obtain h1 where h1: "put_signature st (hdr_of d g) = Some (Some h1)" "length h1 = unat (dev_blk d)"
    "geometry h1 = geometry (hdr_of d g)" "wanted st h1"
    "GET_4_BYTES h1 PARTITION_CRC_OFFSET = GET_4_BYTES (hdr_of d g) PARTITION_CRC_OFFSET"
    using put_signature_ok [OF big assms(3)] l(5) [of g] by metis
  have sz1: "GET_4_BYTES h1 HEADER_SIZE_OFFSET = Some sz"
    using h1(3) sz(1) big h1(2) l(5) [of g] geometry_size by metis
  obtain h2 where h2: "put_header_crc e h1 sz = Some h2" "length h2 = length h1" "geometry h2 = geometry h1"
    "signed_ok h2 = signed_ok h1" "GET_4_BYTES h2 PARTITION_CRC_OFFSET = GET_4_BYTES h1 PARTITION_CRC_OFFSET" "crc_ok e h2"
    using put_header_crc_ok [of h1 sz e] h1(2) big l(5) [of g] sz1 sz(2) by metis
  have same: "slice (hdr_at d g) (unat (dev_blk d)) (dev_bytes d3) = hdr_of d g"
    using r(5) by (simp add: hdr_of_def same_dev_def)
  show ?thesis
  proof (rule blk_read [OF assms(2) same_dev_region [OF r(5) l(4)] l(2) r(4)])
    fix b' d' assume "blk_rw e False (int (hdr_at d g)) b (unat (dev_blk d)) d3 = Some (-1, b', d')" "same_dev d3 d'" "\<not> works e"
    then show ?thesis using r same_dev_trans [OF r(5)] by (intro that(1) [of d']) (auto simp: gpt_set_state_def)
  next
    fix d4 assume w: "blk_rw e False (int (hdr_at d g)) b (unat (dev_blk d)) d3
        = Some (0, slice (hdr_at d g) (unat (dev_blk d)) (dev_bytes d3), d4)" "same_dev d3 d4"
    have d4: "same_dev d d4" by (rule same_dev_trans [OF r(5) w(2)])
    have l2: "length h2 = unat (dev_blk d)" using h2(2) h1(2) by simp
    show ?thesis
    proof (rule blk_write [OF assms(2) same_dev_region [OF d4 l(4)] l(2) l2])
      fix b' d' assume "blk_rw e True (int (hdr_at d g)) h2 (unat (dev_blk d)) d4 = Some (-1, b', d')" "same_dev d4 d'" "\<not> works e"
      then show ?thesis using r w(1) h1(1) sz1 h2(1) same_dev_trans [OF d4]
        by (intro that(1) [of d']) (auto simp: gpt_set_state_def same Let_def)
    next
      fix q b' d' assume z: "blk_rw e True (int (hdr_at d g)) h2 (unat (dev_blk d)) d4 = Some (q, b', d')" "q = 0 \<or> q = -1" "works e \<longrightarrow> q = 0"
        "dev_blk d' = dev_blk d4" "dev_bytes d' = splice_at (hdr_at d g) h2 (dev_bytes d4)"
      have set: "gpt_set_state e g st d = Some (q, d')"
        using r w(1) h1(1) sz1 h2(1) z(1,2) by (auto simp: gpt_set_state_def same Let_def)
      show ?thesis
      proof (rule that(2) [OF set z(2,3)])
        show "dev_blk d' = dev_blk d" "dev_bytes d' = splice_at (hdr_at d g) h2 (dev_bytes d)"
          using z(4,5) d4 by (simp_all add: same_dev_def)
        show "length h2 = unat (dev_blk d)" by (rule l2)
        show "geometry h2 = geometry (hdr_of d g)" using h1(3) h2(3) by simp
        show "wanted st h2" using h1(4) h2(4) by (simp add: wanted_def)
        show "crc_ok e h2" by (rule h2(6))
        show "GET_4_BYTES h2 PARTITION_CRC_OFFSET = GET_4_BYTES (hdr_of d g) PARTITION_CRC_OFFSET" using h1(5) h2(5) by simp
      qed
    qed
  qed
qed (auto simp: gpt_set_state_def intro: that(1))

section \<open>Setting the boot chain of the backup\<close>

lemma geometry_parts:
  assumes "geometry h = Some (sz, lba, cnt, psz)"
  shows "GET_4_BYTES h HEADER_SIZE_OFFSET = Some sz" "pentries_start h blk = Some (lba * ucast blk)"
    "pentries_array_size h = Some (cnt * psz)" "GET_4_BYTES h PENTRY_SIZE_OFFSET = Some psz"
  using assms by (auto simp: geometry_def pentries_start_def pentries_array_size_def bind_eq_Some_iff)

text \<open>A header for the entries \<open>a\<close> in the place of \<open>h0\<close>.\<close>

definition header_for :: "gpt_env \<Rightarrow> string \<Rightarrow> string \<Rightarrow> string \<Rightarrow> bool" where
  "header_for e a h0 h \<longleftrightarrow> length h = length h0 \<and> geometry h = geometry h0 \<and> signed_ok h = signed_ok h0
     \<and> crc_ok e h \<and> GET_4_BYTES h PARTITION_CRC_OFFSET = Some (crc32 e a)"

lemma write_gpt2_cases:
  assumes "layout d" "no_short e" "length a = entries_len d"
    "sint start = int (entries_at d SECONDARY_GPT)"
  obtains (unchanged) d' where "write_gpt2 e (int (hdr_at d SECONDARY_GPT)) (hdr_of d SECONDARY_GPT) (unat (dev_blk d)) start a (entries_len d) d = Some (-1, d')"
      "same_dev d d'" "\<not> works e"
  | (header) d' h where "write_gpt2 e (int (hdr_at d SECONDARY_GPT)) (hdr_of d SECONDARY_GPT) (unat (dev_blk d)) start a (entries_len d) d = Some (-1, d')"
      "header_for e a (hdr_of d SECONDARY_GPT) h" "dev_blk d' = dev_blk d" "dev_bytes d' = splice_at (hdr_at d SECONDARY_GPT) h (dev_bytes d)" "\<not> works e"
  | (both) r d' h where "write_gpt2 e (int (hdr_at d SECONDARY_GPT)) (hdr_of d SECONDARY_GPT) (unat (dev_blk d)) start a (entries_len d) d = Some (r, d')"
      "r = 0 \<or> r = -1" "works e \<longrightarrow> r = 0" "header_for e a (hdr_of d SECONDARY_GPT) h" "dev_blk d' = dev_blk d"
      "dev_bytes d' = splice_at (entries_at d SECONDARY_GPT) a (splice_at (hdr_at d SECONDARY_GPT) h (dev_bytes d))"
proof -
  let ?h0 = "hdr_of d SECONDARY_GPT" and ?off = "hdr_at d SECONDARY_GPT" and ?n = "entries_len d" and ?b = "unat (dev_blk d)"
  note l = layoutD [OF assms(1)]
  obtain sz where sz: "GET_4_BYTES ?h0 HEADER_SIZE_OFFSET = Some sz" "unat sz \<le> ?b" by (rule hdr_fields [OF assms(1)])
  have big: "92 \<le> length ?h0" using l(1) l(5) by simp
  obtain h1 where h1: "PUT_4_BYTES ?h0 PARTITION_CRC_OFFSET (crc32 e a) = Some h1" "length h1 = ?b"
    using PUT_4_ok [of PARTITION_CRC_OFFSET ?h0 "crc32 e a"] big l(5) by (auto simp: gpt_offsets)
  have g1: "geometry h1 = geometry ?h0" "signed_ok h1 = signed_ok ?h0"
    using PUT_geometry [OF h1(1)] PUT_signed [OF h1(1)] by (simp_all add: gpt_offsets)
  have sz1: "GET_4_BYTES h1 HEADER_SIZE_OFFSET = Some sz"
    using geometry_size [OF g1(1) big] h1(2) l(5) sz(1) by simp
  have big1: "92 \<le> length h1" "unat sz \<le> length h1" using h1(2) l(1) sz(2) by simp_all
  obtain h2 where h2: "put_header_crc e h1 sz = Some h2" "length h2 = length h1" "geometry h2 = geometry h1"
    "signed_ok h2 = signed_ok h1" "GET_4_BYTES h2 PARTITION_CRC_OFFSET = GET_4_BYTES h1 PARTITION_CRC_OFFSET" "crc_ok e h2"
    by (rule put_header_crc_ok [OF big1(1) sz1 big1(2)])
  have good: "header_for e a ?h0 h2"
    using h2 h1 g1 l(5) GET_PUT_4_BYTES [OF h1(1)] by (simp add: header_for_def)
  have l2: "length h2 = ?b" using h2(2) h1(2) by simp
  have crc: "crc_of e a ?n = Some (crc32 e a)" using assms(3) by (simp add: crc_of_def)
  have unf: "write_gpt2 e (int ?off) ?h0 ?b start a ?n d =
      do { (r, hdr, d) \<leftarrow> blk_rw e True (int ?off) h2 ?b d;
          if r \<noteq> 0 then Some (r, d)
          else do { (r, pentries, d) \<leftarrow> blk_rw e True (sint start) a ?n d; Some (r, d) } }"
    using sz1 h1(1) h2(1) crc sz(1) by (simp add: write_gpt2_def)
  show ?thesis
  proof (rule blk_write [OF assms(2) l(4) l(2) l2])
    fix b' d' assume "blk_rw e True (int ?off) h2 ?b d = Some (-1, b', d')" "same_dev d d'" "\<not> works e"
    then show ?thesis using unf by (intro unchanged [of d']) auto
  next
    fix r b1 d1 assume w: "blk_rw e True (int ?off) h2 ?b d = Some (r, b1, d1)" "r = 0 \<or> r = -1" "works e \<longrightarrow> r = 0"
      "dev_blk d1 = dev_blk d" "dev_bytes d1 = splice_at ?off h2 (dev_bytes d)"
    show ?thesis
    proof (cases "r = 0")
      case False
      then show ?thesis using w unf good by (intro header [of d1 h2]) auto
    next
      case True
      have len: "length (dev_bytes d1) = length (dev_bytes d)" using w(5) l(4) l2 by simp
      have room: "entries_at d SECONDARY_GPT + ?n \<le> length (dev_bytes d1)" using len l(6) by simp
      show ?thesis
      proof (rule blk_write [OF assms(2) room l(7) assms(3)])
        fix b' d' assume z: "blk_rw e True (int (entries_at d SECONDARY_GPT)) a ?n d1 = Some (-1, b', d')" "same_dev d1 d'" "\<not> works e"
        then show ?thesis using w True unf good assms(4) by (intro header [of d' h2]) (auto simp: same_dev_def)
      next
        fix q b' d' assume z: "blk_rw e True (int (entries_at d SECONDARY_GPT)) a ?n d1 = Some (q, b', d')" "q = 0 \<or> q = -1"
          "works e \<longrightarrow> q = 0" "dev_blk d' = dev_blk d1" "dev_bytes d' = splice_at (entries_at d SECONDARY_GPT) a (dev_bytes d1)"
        then show ?thesis using w True unf good assms(4) by (intro both [of q d' h2]) auto
      qed
    qed
  qed
qed

text \<open>The entries the backup gets.\<close>

definition chain_entries :: "bool \<Rightarrow> boot_chain \<Rightarrow> blkdev \<Rightarrow> (int \<times> string) option" where
  "chain_entries ufs boot d =
     (if boot = BACKUP_BOOT
      then gpt_boot_chain_swap ufs (word_of_nat (entry_size_of d)) (entries_of d PRIMARY_GPT)
      else Some (0, entries_of d PRIMARY_GPT))"

lemma entry_size_word: "unat (word_of_nat (entry_size_of d) :: 32 word) = entry_size_of d"
  by (simp add: entry_size_of_def split: option.split prod.split)

lemma chain_entries_ok:
  assumes "layout d" "entries_ok (entries_of d PRIMARY_GPT) (entry_size_of d) n"
  obtains a where "chain_entries ufs boot d = Some (0, a)" "length a = entries_len d"
  | a where "chain_entries ufs boot d = Some (1, a)"
proof (cases boot)
  case BACKUP_BOOT
  then show ?thesis
    using swap_all [of "entries_of d PRIMARY_GPT" "word_of_nat (entry_size_of d)" n ufs] assms(2) that layoutD(12) [OF assms(1)]
    by (auto simp: entry_size_word chain_entries_def gpt_boot_chain_swap_def moved_def split: if_splits)
qed (use that layoutD(12) [OF assms(1)] in \<open>simp add: chain_entries_def\<close>)

lemma same_dev_at:
  assumes "same_dev d d'"
  shows "hdr_at d' g = hdr_at d g" "entries_at d' g = entries_at d g" "entries_len d' = entries_len d" "dev_blk d' = dev_blk d"
proof -
  show "dev_blk d' = dev_blk d" "hdr_at d' g = hdr_at d g"
    using assms by (auto simp: same_dev_def hdr_at_def split: gpt_instance.split)
  have "length (dev_bytes d') = length (dev_bytes d)" "dev_blk d' = dev_blk d" using assms by (simp_all add: same_dev_def)
  then show "entries_at d' g = entries_at d g" "entries_len d' = entries_len d"
    using layout_cong(2,3) [of d' d] same_dev_layout(1) [OF assms] by simp_all
qed

lemma gpt2_cases:
  assumes "layout d" "no_short e" "entries_ok (entries_of d PRIMARY_GPT) (entry_size_of d) n"
  obtains (unchanged) r d' where "gpt2_set_boot_chain e ufs boot d = Some (r, d')" "same_dev d d'"
      "r = -1 \<and> (works e \<longrightarrow> \<not> entries_crc_ok e d PRIMARY_GPT) \<or> r = 1 \<and> (\<exists>a. chain_entries ufs boot d = Some (1, a))"
  | (header) d' h a where "gpt2_set_boot_chain e ufs boot d = Some (-1, d')"
      "header_for e a (hdr_of d SECONDARY_GPT) h" "dev_blk d' = dev_blk d" "dev_bytes d' = splice_at (hdr_at d SECONDARY_GPT) h (dev_bytes d)"
      "entries_crc_ok e d PRIMARY_GPT" "\<not> works e"
  | (both) r d' h a where "gpt2_set_boot_chain e ufs boot d = Some (r, d')"
      "r = 0 \<or> r = -1" "works e \<longrightarrow> r = 0" "header_for e a (hdr_of d SECONDARY_GPT) h" "dev_blk d' = dev_blk d"
      "dev_bytes d' = splice_at (entries_at d SECONDARY_GPT) a (splice_at (hdr_at d SECONDARY_GPT) h (dev_bytes d))"
      "chain_entries ufs boot d = Some (0, a)" "length a = entries_len d" "entries_crc_ok e d PRIMARY_GPT"
proof (rule header_read_cases [OF layout_fits [OF assms(1)], where g = SECONDARY_GPT])
  fix d1 b d2 d3
  assume r: "ioctl_BLKSSZGET e d = (Some (dev_blk d), d1)" "os_malloc e (unat (dev_blk d)) d1 = (Some b, d2)"
    "header_offset e SECONDARY_GPT (dev_blk d) d2 = (int (hdr_at d SECONDARY_GPT), d3)" "length b = unat (dev_blk d)" "same_dev d d3"
  let ?p = "hdr_of d PRIMARY_GPT" and ?s = "hdr_of d SECONDARY_GPT" and ?n = "entries_len d" and ?b = "unat (dev_blk d)"
    and ?E = "entries_of d PRIMARY_GPT"
  note l = layoutD [OF assms(1)]
  obtain sz sz' lba lba' cnt psz where g: "geometry ?p = Some (sz, lba, cnt, psz)" "geometry ?s = Some (sz', lba', cnt, psz)"
    "entries_at d PRIMARY_GPT = unat (lba * ucast (dev_blk d))" "entries_at d SECONDARY_GPT = unat (lba' * ucast (dev_blk d))"
    "sint (lba * ucast (dev_blk d)) = int (unat (lba * ucast (dev_blk d)))"
    "sint (lba' * ucast (dev_blk d)) = int (unat (lba' * ucast (dev_blk d)))" "?n = unat (cnt * psz)"
    by (rule layoutE [OF assms(1)])
  note gp = geometry_parts [OF g(1)] and gs = geometry_parts [OF g(2)]
  obtain stored where stored: "GET_4_BYTES ?p PARTITION_CRC_OFFSET = Some stored"
    using GET_4_ok [of PARTITION_CRC_OFFSET ?p] l(1) l(5) by (auto simp: gpt_offsets)
  have crcE: "crc_of e ?E ?n = Some (crc32 e ?E)" using l(12) by (simp add: crc_of_def)
  have psz: "word_of_nat (entry_size_of d) = psz" using g(1) by (simp add: entry_size_of_def)
  have pat: "uint (dev_blk d) = int (hdr_at d PRIMARY_GPT)" by (simp add: hdr_at_def)
  note step = gpt2_set_boot_chain_def r(1-3) pat gp gs g(7) [symmetric] stored crcE
  have sl: "slice (hdr_at d x) ?b (dev_bytes dx) = hdr_of d x" "slice (entries_at d x) ?n (dev_bytes dx) = entries_of d x"
    if "same_dev d dx" for x dx using that l(11) by (simp_all add: hdr_of_def same_dev_def)
  show ?thesis
  proof (rule blk_read [OF assms(2) same_dev_region [OF r(5) l(4) [of PRIMARY_GPT]] l(2) r(4)])
    fix b' d' assume "blk_rw e False (int (hdr_at d PRIMARY_GPT)) b ?b d3 = Some (-1, b', d')" "same_dev d3 d'" "\<not> works e"
    then show ?thesis using same_dev_trans [OF r(5)] by (intro unchanged [of "-1" d']) (auto simp: step)
  next
    fix d4 assume R: "blk_rw e False (int (hdr_at d PRIMARY_GPT)) b ?b d3
        = Some (0, slice (hdr_at d PRIMARY_GPT) ?b (dev_bytes d3), d4)" "same_dev d3 d4"
    note R1 = R(1) [unfolded sl(1) [OF r(5)]]
    note d4 = same_dev_trans [OF r(5) R(2)]
    show ?thesis
    proof (rule calloc_cases [of e ?n d4])
      fix d5 assume "os_calloc e ?n d4 = (None, d5)" "same_dev d4 d5" "\<not> works e"
      then show ?thesis using R1 same_dev_trans [OF d4] by (intro unchanged [of "-1" d5]) (auto simp: step)
    next
      fix d5 p0 assume C: "os_calloc e ?n d4 = (Some p0, d5)" "length p0 = ?n" "same_dev d4 d5"
      note d5 = same_dev_trans [OF d4 C(3)]
      show ?thesis
      proof (rule blk_read [OF assms(2) same_dev_region [OF d5 l(6) [of PRIMARY_GPT]] l(7) C(2)])
        fix b' d' assume "blk_rw e False (int (entries_at d PRIMARY_GPT)) p0 ?n d5 = Some (-1, b', d')" "same_dev d5 d'" "\<not> works e"
        then show ?thesis using R1 C(1) same_dev_trans [OF d5] g(3,5) by (intro unchanged [of "-1" d']) (auto simp: step)
      next
        fix d6 assume P: "blk_rw e False (int (entries_at d PRIMARY_GPT)) p0 ?n d5
            = Some (0, slice (entries_at d PRIMARY_GPT) ?n (dev_bytes d5), d6)" "same_dev d5 d6"
        have P1: "blk_rw e False (sint (lba * ucast (dev_blk d))) p0 ?n d5 = Some (0, ?E, d6)"
          using P(1) sl(2) [OF d5, of PRIMARY_GPT] g(3,5) by simp
        note d6 = same_dev_trans [OF d5 P(2)]
        show ?thesis
        proof (cases "stored = crc32 e ?E")
          case False
          then show ?thesis using R1 C(1) P1 d6 stored
            by (intro unchanged [of "-1" d6]) (auto simp: step entries_crc_ok_def)
        next
          case True
          then have ok: "entries_crc_ok e d PRIMARY_GPT" using stored by (simp add: entries_crc_ok_def)
          have lp: "length ?p = ?b" by (rule l(5))
          show ?thesis
          proof (rule blk_read [OF assms(2) same_dev_region [OF d6 l(4) [of SECONDARY_GPT]] l(2) lp])
            fix b' d' assume "blk_rw e False (int (hdr_at d SECONDARY_GPT)) ?p ?b d6 = Some (-1, b', d')" "same_dev d6 d'" "\<not> works e"
            then show ?thesis using R1 C(1) P1 same_dev_trans [OF d6] True
              by (intro unchanged [of "-1" d']) (auto simp: step)
          next
            fix d7 assume S: "blk_rw e False (int (hdr_at d SECONDARY_GPT)) ?p ?b d6
                = Some (0, slice (hdr_at d SECONDARY_GPT) ?b (dev_bytes d6), d7)" "same_dev d6 d7"
            note S1 = S(1) [unfolded sl(1) [OF d6]]
            note d7 = same_dev_trans [OF d6 S(2)]
            note at = same_dev_at [OF d7] and lay = same_dev_layout [OF d7]
            have unf: "gpt2_set_boot_chain e ufs boot d = do { (r, pentries) \<leftarrow> chain_entries ufs boot d;
                if r \<noteq> 0 then Some (r, d7)
                else write_gpt2 e (int (hdr_at d SECONDARY_GPT)) ?s ?b (lba' * ucast (dev_blk d)) pentries ?n d7 }"
              using R1 C(1) P1 S1 True by (simp add: step chain_entries_def psz cong: if_cong)
            show ?thesis
            proof (rule chain_entries_ok [OF assms(1,3), of ufs boot])
              fix a assume "chain_entries ufs boot d = Some (1, a)"
              then show ?thesis using unf d7 by (intro unchanged [of 1 d7]) auto
            next
              fix a assume a: "chain_entries ufs boot d = Some (0, a)" "length a = entries_len d"
              have st: "sint (lba' * ucast (dev_blk d)) = int (entries_at d7 SECONDARY_GPT)" using g(4,6) at by simp
              have ly: "layout d7" "length a = entries_len d7" using lay(3) assms(1) a(2) at(3) by simp_all
              show ?thesis
                by (rule write_gpt2_cases [OF ly(1) assms(2) ly(2) st]; unfold at lay)
                  (use unf a ok d7 in \<open>auto simp: same_dev_def intro: unchanged header both\<close>)
            qed
          qed
        qed
      qed
    qed
  qed
qed (auto simp: gpt2_set_boot_chain_def intro: unchanged)

end
