(* ===== verification/Gpt_Stages.thy ===== *)
theory Gpt_Stages
  imports Gpt_Failsafe
begin

text \<open>
  The stages of the fail-safe update: each keeps the invariant whatever fails, and without
  failures the three stages lead from two equal tables over the swapped one back to two equal
  tables.
\<close>

section \<open>One step and the invariant\<close>

lemma set_state_inv:
  assumes "update_inv e d" "no_short e" "st \<noteq> GPT_BAD_CRC"
    "g = PRIMARY_GPT \<and> (st = GPT_OK \<or> bootable e d SECONDARY_GPT) \<or> g = SECONDARY_GPT \<and> signed_ok (hdr_of d PRIMARY_GPT)"
  obtains r d' where "gpt_set_state e g st d = Some (r, d')" "update_inv e d'" "r = 0 \<or> r = -1" "works e \<longrightarrow> r = 0"
    "\<And>x. entries_of d' x = entries_of d x" "\<And>x. x \<noteq> g \<Longrightarrow> hdr_of d' x = hdr_of d x"
    "r = 0 \<Longrightarrow> wanted st (hdr_of d' g) \<and> crc_ok e (hdr_of d' g)
       \<and> GET_4_BYTES (hdr_of d' g) PARTITION_CRC_OFFSET = GET_4_BYTES (hdr_of d g) PARTITION_CRC_OFFSET"
proof -
  have ly: "layout d" using assms(1) by (simp add: update_inv_def)
  show ?thesis
  proof (rule set_state_cases [OF ly assms(2,3), where g = g])
    fix d' assume n: "gpt_set_state e g st d = Some (-1, d')" "same_dev d d'" "\<not> works e"
    then show ?thesis using same_dev_layout [OF n(2)] assms(1) by (intro that [of "-1" d']) auto
  next
    fix r d' h assume w: "gpt_set_state e g st d = Some (r, d')" "r = 0 \<or> r = -1" "works e \<longrightarrow> r = 0"
      "dev_blk d' = dev_blk d" "dev_bytes d' = splice_at (hdr_at d g) h (dev_bytes d)"
      "length h = unat (dev_blk d)" "geometry h = geometry (hdr_of d g)" "wanted st h" "crc_ok e h"
      "GET_4_BYTES h PARTITION_CRC_OFFSET = GET_4_BYTES (hdr_of d g) PARTITION_CRC_OFFSET"
    note wh = write_header [OF ly w(6,7,4,5)]
    have "update_inv e d'"
      using assms(1,4) wh w(8-10)
      by (cases g) (auto simp: update_inv_def bootable_def entries_crc_ok_def wanted_def)
    then show ?thesis using w wh by (intro that [of r d']) auto
  qed
qed

lemma header_for_hdr:
  assumes "layout d" "header_for e a (hdr_of d g) h"
  shows "length h = unat (dev_blk d)" "geometry h = geometry (hdr_of d g)"
  using assms layoutD(5) by (simp_all add: header_for_def)

lemma gpt2_inv:
  assumes "update_inv e d" "no_short e" "signed_ok (hdr_of d PRIMARY_GPT)"
  obtains r d' where "gpt2_set_boot_chain e ufs boot d = Some (r, d')" "update_inv e d'"
    "hdr_of d' PRIMARY_GPT = hdr_of d PRIMARY_GPT" "entries_of d' PRIMARY_GPT = entries_of d PRIMARY_GPT"
    "r = 0 \<Longrightarrow> chain_entries ufs boot d = Some (0, entries_of d' SECONDARY_GPT)
       \<and> crc_ok e (hdr_of d' SECONDARY_GPT) \<and> entries_crc_ok e d' SECONDARY_GPT
       \<and> signed_ok (hdr_of d' SECONDARY_GPT) = signed_ok (hdr_of d SECONDARY_GPT)"
    "works e \<Longrightarrow> r = 0 \<or> r = 1 \<and> (\<exists>a. chain_entries ufs boot d = Some (1, a))"
proof -
  obtain n where i: "layout d" "entries_ok (entries_of d PRIMARY_GPT) (entry_size_of d) n" "entries_crc_ok e d PRIMARY_GPT"
    using assms(1) by (auto simp: update_inv_def)
  show ?thesis
  proof (rule gpt2_cases [OF i(1) assms(2) i(2), where boot = boot and ufs = ufs])
    fix r d' assume n: "gpt2_set_boot_chain e ufs boot d = Some (r, d')" "same_dev d d'"
      "r = -1 \<and> (works e \<longrightarrow> \<not> entries_crc_ok e d PRIMARY_GPT) \<or> r = 1 \<and> (\<exists>a. chain_entries ufs boot d = Some (1, a))"
    then show ?thesis using same_dev_layout [OF n(2)] assms(1) i(3) by (intro that [of r d']) auto
  next
    fix d' h a assume w: "gpt2_set_boot_chain e ufs boot d = Some (-1, d')" "header_for e a (hdr_of d SECONDARY_GPT) h"
      "dev_blk d' = dev_blk d" "dev_bytes d' = splice_at (hdr_at d SECONDARY_GPT) h (dev_bytes d)"
      "entries_crc_ok e d PRIMARY_GPT" "\<not> works e"
    note wh = write_header [OF i(1) header_for_hdr [OF i(1) w(2)] w(3,4)]
    have "update_inv e d'" using assms(1,3) wh by (simp add: update_inv_def entries_crc_ok_def)
    then show ?thesis using w wh by (intro that [of "-1" d']) auto
  next
    fix r d' h a assume w: "gpt2_set_boot_chain e ufs boot d = Some (r, d')" "r = 0 \<or> r = -1" "works e \<longrightarrow> r = 0"
      "header_for e a (hdr_of d SECONDARY_GPT) h" "dev_blk d' = dev_blk d"
      "dev_bytes d' = splice_at (entries_at d SECONDARY_GPT) a (splice_at (hdr_at d SECONDARY_GPT) h (dev_bytes d))"
      "chain_entries ufs boot d = Some (0, a)" "length a = entries_len d"
    define m where "m = d\<lparr>dev_bytes := splice_at (hdr_at d SECONDARY_GPT) h (dev_bytes d)\<rparr>"
    have m: "dev_blk m = dev_blk d" "dev_bytes m = splice_at (hdr_at d SECONDARY_GPT) h (dev_bytes d)"
      by (simp_all add: m_def)
    note hh = header_for_hdr [OF i(1) w(4)]
    note wh = write_header [OF i(1) hh m]
    have geo: "geometry (hdr_of m x) = geometry (hdr_of d x)" for x
      using wh(2,3) hh(2) by (cases x) simp_all
    have lm: "length (dev_bytes m) = length (dev_bytes d)" using m(2) hh(1) layoutD(4) [OF i(1), of SECONDARY_GPT] by simp
    note c = layout_cong [OF m(1) lm geo]
    have d': "length a = entries_len m" "dev_blk d' = dev_blk m" "dev_bytes d' = splice_at (entries_at m SECONDARY_GPT) a (dev_bytes m)"
      using w(5,6,8) m c by simp_all
    note we = write_entries [OF wh(1) d']
    have inv: "update_inv e d'"
      using assms(1,3) wh we by (simp add: update_inv_def entries_crc_ok_def)
    show ?thesis
      using w(1-4,7) wh we inv by (intro that [of r d']) (auto simp: header_for_def entries_crc_ok_def)
  qed
qed

lemma header_state_wanted: "st \<noteq> GPT_BAD_CRC \<Longrightarrow> wanted st h \<Longrightarrow> crc_ok e h \<Longrightarrow> header_state e h = st"
  by (cases st) (auto simp: header_state_def wanted_def)

text \<open>
  C39. What \<open>gpt_set_state\<close> sets, \<open>gpt_get_state\<close> gets, with a valid checksum whatever the header
  had before, and the other copy and all entries stay as they are.
\<close>

theorem gpt_state_roundtrip:
  assumes "layout d" "works e" "st \<noteq> GPT_BAD_CRC"
  shows "\<exists>d1 d2. gpt_set_state e g st d = Some (0, d1) \<and> gpt_get_state e g d1 = Some (0, st, d2)
    \<and> (\<forall>x. x \<noteq> g \<longrightarrow> hdr_of d1 x = hdr_of d x) \<and> (\<forall>x. entries_of d1 x = entries_of d x)"
proof (rule set_state_cases [OF assms(1) works_no_short [OF assms(2)] assms(3), where g = g])
  fix r d' h assume w: "gpt_set_state e g st d = Some (r, d')" "r = 0 \<or> r = -1" "works e \<longrightarrow> r = 0"
    "dev_blk d' = dev_blk d" "dev_bytes d' = splice_at (hdr_at d g) h (dev_bytes d)"
    "length h = unat (dev_blk d)" "geometry h = geometry (hdr_of d g)" "wanted st h" "crc_ok e h"
    "GET_4_BYTES h PARTITION_CRC_OFFSET = GET_4_BYTES (hdr_of d g) PARTITION_CRC_OFFSET"
  note wh = write_header [OF assms(1) w(6,7,4,5)]
  have "\<exists>d2. gpt_get_state e g d' = Some (0, st, d2)"
    using get_state_spec [OF layout_fits [OF wh(1)] works_no_short [OF assms(2)], of g] assms(2)
      header_state_wanted [OF assms(3) w(8,9)] by (auto simp: wh(2))
  then show ?thesis using w(1,3) assms(2) wh(3,4) by blast
qed (use assms(2) in simp)

section \<open>The stages\<close>

lemma stage_main_inv:
  assumes "update_inv e d" "no_short e" "dev_env h = e"
    "header_state e (hdr_of d PRIMARY_GPT) = GPT_OK" "header_state e (hdr_of d SECONDARY_GPT) = GPT_OK"
  shows "\<exists>r d' luns'. stage_main h d luns = Some (r, d', luns') \<and> update_inv e d'"
proof -
  have s: "signed_ok (hdr_of d PRIMARY_GPT)" "signed_ok (hdr_of d SECONDARY_GPT)"
    using assms(4,5) by (auto simp: header_state_def split: if_splits)
  obtain r d1 where g: "gpt2_set_boot_chain e (gpt_utils_is_ufs_device (bootdevice h)) BACKUP_BOOT d = Some (r, d1)"
    "update_inv e d1" "r = 0 \<Longrightarrow> bootable e d1 SECONDARY_GPT"
    by (rule gpt2_inv [OF assms(1,2) s(1), where boot = BACKUP_BOOT and ufs = "gpt_utils_is_ufs_device (bootdevice h)"]) (use s in \<open>auto simp: bootable_def\<close>)
  obtain q l where q: "switch_xbl h BACKUP_BOOT luns = (q, l)" by force
  show ?thesis
  proof (cases "r = 0")
    case True
    have b: "GPT_BAD_SIGNATURE \<noteq> GPT_BAD_CRC" by simp
    show ?thesis
      by (rule set_state_inv [OF g(2) assms(2) b, where g = PRIMARY_GPT])
        (use g(1,3) True q assms(1,3) in \<open>auto simp: stage_main_def\<close>)
  qed (use g q assms(1,3) in \<open>auto simp: stage_main_def\<close>)
qed

lemma stage_backup_inv:
  assumes "update_inv e d" "no_short e" "dev_env h = e"
  shows "\<exists>r d' luns'. stage_backup h d luns = Some (r, d', luns') \<and> update_inv e d'"
proof -
  obtain q l where q: "switch_xbl h NORMAL_BOOT luns = (q, l)" by force
  obtain r d1 where a: "gpt_set_state e PRIMARY_GPT GPT_OK d = Some (r, d1)" "update_inv e d1"
    "r = 0 \<Longrightarrow> signed_ok (hdr_of d1 PRIMARY_GPT)"
    by (rule set_state_inv [OF assms(1,2), of GPT_OK PRIMARY_GPT]) (auto simp: wanted_def)
  show ?thesis
  proof (cases "r = 0")
    case True
    show ?thesis
      by (rule set_state_inv [OF a(2) assms(2), of GPT_BAD_SIGNATURE SECONDARY_GPT])
        (use a True q assms(1,3) in \<open>auto simp: stage_backup_def\<close>)
  qed (use a q assms(1,3) in \<open>auto simp: stage_backup_def\<close>)
qed

lemma stage_finalize_inv:
  assumes "update_inv e d" "no_short e" "dev_env h = e" "header_state e (hdr_of d PRIMARY_GPT) = GPT_OK"
  shows "\<exists>r d' luns'. stage_finalize h d luns = Some (r, d', luns') \<and> update_inv e d'"
proof -
  have s: "signed_ok (hdr_of d PRIMARY_GPT)" using assms(4) by (auto simp: header_state_def split: if_splits)
  obtain r d1 where a: "gpt2_set_boot_chain e (gpt_utils_is_ufs_device (bootdevice h)) NORMAL_BOOT d = Some (r, d1)"
    "update_inv e d1" "signed_ok (hdr_of d1 PRIMARY_GPT)"
    by (rule gpt2_inv [OF assms(1,2) s, where boot = NORMAL_BOOT and ufs = "gpt_utils_is_ufs_device (bootdevice h)"]) (use s in auto)
  show ?thesis
    by (rule set_state_inv [OF a(2) assms(2), of GPT_OK SECONDARY_GPT])
      (use a assms(3) in \<open>auto simp: stage_finalize_def\<close>)
qed

lemma prepare_opened_inv:
  assumes "update_inv e d" "no_short e" "dev_env h = e"
  shows "\<exists>r d' luns'. prepare_opened h stage d luns = Some (r, d', luns') \<and> update_inv e d'"
proof -
  have ly: "layout d" using assms(1) by (simp add: update_inv_def)
  obtain r1 s1 d1 where g1: "gpt_get_state e PRIMARY_GPT d = Some (r1, s1, d1)" "same_dev d d1"
    "r1 = -1 \<or> r1 = 0 \<and> s1 = header_state e (hdr_of d PRIMARY_GPT)"
    using get_state_spec [OF layout_fits [OF ly] assms(2), of PRIMARY_GPT] by blast
  note same1 = same_dev_layout [OF g1(2)]
  obtain r2 s2 d2 where g2: "gpt_get_state e SECONDARY_GPT d1 = Some (r2, s2, d2)" "same_dev d1 d2"
    "r2 = -1 \<or> r2 = 0 \<and> s2 = header_state e (hdr_of d SECONDARY_GPT)"
    using get_state_spec [of d1 e SECONDARY_GPT] layout_fits [OF ly] assms(2) same1 same_dev_fits [OF g1(2)] by auto
  note same2 = same_dev_layout [OF same_dev_trans [OF g1(2) g2(2)]]
  have inv: "update_inv e d1" "update_inv e d2" using assms(1) same1 same2 by simp_all
  note unf = prepare_opened_def assms(3) g1(1) g2(1)
  show ?thesis
  proof (cases "r1 = 0 \<and> r2 = 0")
    case False
    then show ?thesis using g1(3) g2(3) inv by (auto simp: unf)
  next
    case True
    then have st: "s1 = header_state e (hdr_of d2 PRIMARY_GPT)" "s2 = header_state e (hdr_of d2 SECONDARY_GPT)"
      using g1(3) g2(3) same2 by auto
    show ?thesis
    proof (cases "internal_stage s1 s2")
      case None
      then show ?thesis using True inv by (simp add: unf)
    next
      case (Some internal)
      have main: "s1 = GPT_OK \<and> s2 = GPT_OK" if "internal = UPDATE_MAIN"
        using Some that by (auto simp: internal_stage_def split: if_splits)
      have final: "s1 = GPT_OK" if "internal = UPDATE_FINALIZE"
        using Some that by (cases s1) (auto simp: internal_stage_def split: if_splits)
      show ?thesis
        using True Some inv main final st stage_main_inv [OF inv(2) assms(2,3)] stage_backup_inv [OF inv(2) assms(2,3)]
          stage_finalize_inv [OF inv(2) assms(2,3)]
        by (cases stage) (auto simp: unf)
    qed
  qed
qed

lemma prepare_partitions_inv:
  assumes "update_inv e d" "no_short e" "dev_env h = e"
  shows "\<exists>r d' luns'. prepare_partitions h stage (Some d) luns = Some (r, Some d', luns') \<and> update_inv e d'"
proof -
  obtain r d1 l where p: "prepare_opened h stage d luns = Some (r, d1, l)" "update_inv e d1"
    using prepare_opened_inv [OF assms] by blast
  obtain q d2 where f: "os_fsync e d1 = (q, d2)" by force
  have "same_dev d1 d2" using f by (auto simp: os_fsync_def sys_call_def same_dev_def)
  then show ?thesis using p f assms(3) same_dev_layout(4) [of d1 d2 e] by (simp add: prepare_partitions_def)
qed

section \<open>Any sequence of stages\<close>

text \<open>
  The devices reachable by calls of \<open>prepare_partitions\<close> with any stages in any order, each call
  with failures of its own. Only the checksum is the same throughout.
\<close>

inductive update_reach :: "(string \<Rightarrow> 32 word) \<Rightarrow> blkdev \<Rightarrow> blkdev \<Rightarrow> bool" for crc d where
  reach_start: "update_reach crc d d"
| reach_stage: "update_reach crc d d1 \<Longrightarrow> crc32 (dev_env h) = crc \<Longrightarrow> no_short (dev_env h) \<Longrightarrow>
    prepare_partitions h stage (Some d1) luns = Some (r, Some d2, luns') \<Longrightarrow> update_reach crc d d2"

lemma update_inv_crc:
  assumes "crc32 e = crc32 e'"
  shows "update_inv e d = update_inv e' d" "bootable e d g = bootable e' d g"
proof -
  have "header_crc e = header_crc e'" by (intro ext) (simp add: header_crc_def crc_of_def assms cong: if_cong)
  then show "update_inv e d = update_inv e' d" "bootable e d g = bootable e' d g"
    by (simp_all add: update_inv_def bootable_def crc_ok_def entries_crc_ok_def assms)
qed

lemma reach_inv:
  "update_reach crc d d' \<Longrightarrow> update_inv e d \<Longrightarrow> crc32 e = crc \<Longrightarrow> update_inv e d'"
proof (induction rule: update_reach.induct)
  case (reach_stage d1 h stage luns r d2 luns')
  then have "update_inv (dev_env h) d1" using update_inv_crc(1) [of e "dev_env h"] by simp
  then have "update_inv (dev_env h) d2"
    using prepare_partitions_inv [of "dev_env h" d1 h stage luns] reach_stage.hyps by auto
  then show ?case using update_inv_crc(1) [of e "dev_env h"] reach_stage by simp
qed

text \<open>
  C1. Fail-safe update. From a device on which both tables are laid out, the entries of the primary one
  are whole and match their checksum, the checksum of its header is right too, and one of the two tables
  can be booted from: whatever stages are run in whatever order and whichever calls fail in each of
  them, as long as no read or write stops half way, one of the tables can be booted from at the end, and
  the next stage is defined again. \<open>damaged_primary\<close> below and \<open>torn_write\<close> in \<open>Gpt_Device\<close> show what
  happens without the checksums of the primary table and with a write cut short.
\<close>

theorem update_failsafe:
  assumes "update_inv e d" "update_reach (crc32 e) d d'"
  shows "(bootable e d' PRIMARY_GPT \<or> bootable e d' SECONDARY_GPT)
    \<and> (\<forall>h stage luns. crc32 (dev_env h) = crc32 e \<longrightarrow> no_short (dev_env h) \<longrightarrow>
        (\<exists>r d2 luns'. prepare_partitions h stage (Some d') luns = Some (r, Some d2, luns')))"
proof -
  have inv: "update_inv e d'" by (rule reach_inv [OF assms(2,1) refl])
  have "\<exists>r d2 luns'. prepare_partitions h stage (Some d') luns = Some (r, Some d2, luns')"
    if "crc32 (dev_env h) = crc32 e" "no_short (dev_env h)" for h stage luns
    using prepare_partitions_inv [of "dev_env h" d' h stage luns] update_inv_crc(1) [of e "dev_env h" d'] inv that by auto
  then show ?thesis using update_inv_bootable [OF inv] by blast
qed

text \<open>A device with blocks of 92 bytes and the sum of the bytes as the checksum, in the witnesses.\<close>

definition sum_env :: gpt_env where
  "sum_env = \<lparr>crc32 = \<lambda>s. word_of_nat (sum_list (map code_of s)), fault = \<lambda>n. Works, junk = \<lambda>n. CHR 0xAA\<rparr>"

definition sample_header :: "char \<Rightarrow> char list \<Rightarrow> string" where
  "sample_header lba crc = GPT_SIGNATURE @ replicate 3 NUL @ [CHR 0x5C, NUL, NUL, NUL] @ crc @ replicate 52 NUL
     @ lba # replicate 7 NUL @ [CHR 0x02, NUL, NUL, NUL] @ [CHR 0x80, NUL, NUL, NUL] @ [CHR 0x8C, CHR 0x03, NUL, NUL]"

definition sample_dev :: blkdev where
  "sample_dev = \<lparr>dev_bytes = replicate 92 NUL @ sample_header (CHR 0x02) [CHR 0x9A, CHR 0x03, NUL, NUL] @ sample_entries
     @ replicate 20 NUL @ sample_entries @ replicate 20 NUL @ sample_header (CHR 0x05) [CHR 0x9D, CHR 0x03, NUL, NUL],
     dev_blk = 92, dev_calls = 0\<rparr>"

lemma sample_header_length: "length (sample_header lba crc) = 88 + length crc"
  by (simp add: sample_header_def GPT_SIGNATURE_def)

lemma sample_entries_length: "length sample_entries = 256"
  by (simp add: sample_entries_def sample_length)

lemma sample_hdr:
  "hdr_of sample_dev PRIMARY_GPT = sample_header (CHR 0x02) [CHR 0x9A, CHR 0x03, NUL, NUL]"
  "hdr_of sample_dev SECONDARY_GPT = sample_header (CHR 0x05) [CHR 0x9D, CHR 0x03, NUL, NUL]"
  by (simp_all add: hdr_of_def hdr_at_def sample_dev_def slice_def sample_header_length sample_entries_length)

lemma sample_geometry:
  "geometry (sample_header (CHR 0x02) [CHR 0x9A, CHR 0x03, NUL, NUL]) = Some (92, 2, 2, 128)"
  "geometry (sample_header (CHR 0x05) [CHR 0x9D, CHR 0x03, NUL, NUL]) = Some (92, 5, 2, 128)"
  by code_simp+

lemma sample_layout: "layout sample_dev"
  by (simp add: layout_def sample_hdr sample_geometry Let_def disjoint_regions_def)
    (simp add: sample_dev_def sample_header_length sample_entries_length)

lemma sample_entries_of: "entries_of sample_dev g = sample_entries"
  by (cases g) (simp_all add: entries_of_def sample_hdr sample_geometry,
    simp_all add: sample_dev_def slice_def sample_header_length sample_entries_length)

lemma crc_okI:
  "GET_4_BYTES h HEADER_SIZE_OFFSET = Some sz \<Longrightarrow> header_crc e h sz = GET_4_BYTES h HEADER_CRC_OFFSET \<Longrightarrow> crc_ok e h"
  by (simp add: crc_ok_def)

lemma sample_crc:
  "crc_ok sum_env (sample_header (CHR 0x02) [CHR 0x9A, CHR 0x03, NUL, NUL])"
  "crc_ok sum_env (sample_header (CHR 0x05) [CHR 0x9D, CHR 0x03, NUL, NUL])"
  by (rule crc_okI [of _ 92], code_simp, code_simp)+

lemma sample_entries_crc: "entries_crc_ok sum_env sample_dev g"
proof -
  have "crc32 sum_env sample_entries = 908" by code_simp
  moreover have "GET_4_BYTES (sample_header (CHR 0x02) [CHR 0x9A, CHR 0x03, NUL, NUL]) PARTITION_CRC_OFFSET = Some 908"
    "GET_4_BYTES (sample_header (CHR 0x05) [CHR 0x9D, CHR 0x03, NUL, NUL]) PARTITION_CRC_OFFSET = Some 908"
    by code_simp+
  ultimately show ?thesis by (cases g) (simp_all add: entries_crc_ok_def sample_hdr sample_entries_of)
qed

lemma sample_bootable: "bootable sum_env sample_dev g"
  using sample_entries_crc [of g] sample_crc
  by (cases g) (simp_all add: bootable_def sample_hdr signed_ok_def sample_header_def)

lemma sample_size: "entry_size_of sample_dev = 128"
  by (simp add: entry_size_of_def sample_hdr sample_geometry)

lemma sample_inv: "update_inv sum_env sample_dev"
  using sample_layout sample_bootable sample_entries_ok
  by (auto simp: update_inv_def sample_entries_of sample_size bootable_def)

definition sample_host :: host where
  "sample_host = \<lparr>dev_env = sum_env, bootdevice = ''7c4000.sdhci'', path_exists = \<lambda>p. False, link_of = \<lambda>p. None,
     dir_entries = \<lambda>p. None, lun_writable = \<lambda>p. False\<rparr>"

lemma sample_works: "works sum_env"
  by (simp add: works_def sum_env_def)

theorem update_failsafe_witness:
  "\<exists>d'. update_reach (crc32 sum_env) sample_dev d' \<and> (bootable sum_env d' PRIMARY_GPT \<or> bootable sum_env d' SECONDARY_GPT)"
proof -
  obtain r d' l where p: "prepare_partitions sample_host UPDATE_MAIN (Some sample_dev) [] = Some (r, Some d', l)"
    using prepare_partitions_inv [OF sample_inv works_no_short [OF sample_works], of sample_host UPDATE_MAIN "[]"]
    by (auto simp: sample_host_def)
  have "update_reach (crc32 sum_env) sample_dev d'"
    by (rule reach_stage [OF reach_start _ _ p]) (simp_all add: sample_host_def works_no_short [OF sample_works])
  then show ?thesis using update_failsafe [OF sample_inv] by blast
qed

theorem gpt_state_roundtrip_witness:
  "\<exists>d1 d2. gpt_set_state sum_env SECONDARY_GPT GPT_BAD_SIGNATURE sample_dev = Some (0, d1)
    \<and> gpt_get_state sum_env SECONDARY_GPT d1 = Some (0, GPT_BAD_SIGNATURE, d2)"
  using gpt_state_roundtrip [OF sample_layout sample_works, of GPT_BAD_SIGNATURE SECONDARY_GPT] by auto

text \<open>
  C27. Refused stages. On a device with room for both headers, neither of which gives itself a size
  beyond its block, and whatever else is in them: where a stored checksum of a header is not that of its
  bytes, or both signatures are damaged, or the stage is neither the one the headers show nor the one
  before it, the call reports failure and writes nothing; where the stage was done already it reports
  success, unless a call failed, and writes nothing. No read may stop half way. A size beyond the block
  is no refusal but a read past the buffer (\<open>oversized_header\<close>), and a header of zeros passes the
  checksum (\<open>wiped_header\<close>).
\<close>

theorem prepare_rejects:
  assumes "headers_fit d" "no_short (dev_env h)"
    and "internal_stage (header_state (dev_env h) (hdr_of d PRIMARY_GPT)) (header_state (dev_env h) (hdr_of d SECONDARY_GPT)) = i"
    and "i \<noteq> Some stage"
  shows "\<exists>r d'. prepare_partitions h stage (Some d) luns = Some (r, Some d', luns) \<and> dev_bytes d' = dev_bytes d
    \<and> (r = 0 \<longrightarrow> (\<exists>s. i = Some s \<and> stage_no stage = stage_no s - 1))
    \<and> (works (dev_env h) \<longrightarrow> (\<exists>s. i = Some s \<and> stage_no stage = stage_no s - 1) \<longrightarrow> r = 0)"
proof -
  let ?e = "dev_env h"
  obtain r1 s1 d1 where g1: "gpt_get_state ?e PRIMARY_GPT d = Some (r1, s1, d1)" "same_dev d d1"
    "r1 = -1 \<and> \<not> works ?e \<or> r1 = 0 \<and> s1 = header_state ?e (hdr_of d PRIMARY_GPT)"
    using get_state_spec [OF assms(1,2), of PRIMARY_GPT] by blast
  note same1 = same_dev_layout [OF g1(2)]
  obtain r2 s2 d2 where g2: "gpt_get_state ?e SECONDARY_GPT d1 = Some (r2, s2, d2)" "same_dev d1 d2"
    "r2 = -1 \<and> \<not> works ?e \<or> r2 = 0 \<and> s2 = header_state ?e (hdr_of d SECONDARY_GPT)"
    using get_state_spec [of d1 ?e SECONDARY_GPT] assms(1,2) same1 same_dev_fits [OF g1(2)] by auto
  have sync: "dev_bytes (snd (os_fsync ?e x)) = dev_bytes x" for x by (simp add: os_fsync_def sys_call_def)
  have b: "dev_bytes d1 = dev_bytes d" "dev_bytes d2 = dev_bytes d" using g1(2) g2(2) by (simp_all add: same_dev_def)
  show ?thesis
  proof (cases "r1 = 0 \<and> r2 = 0")
    case False
    then show ?thesis using g1 g2 b sync [of d1] sync [of d2]
      by (auto simp: prepare_partitions_def prepare_opened_def split: prod.split)
  next
    case True
    then have "internal_stage s1 s2 = i" using g1(3) g2(3) assms(3) by auto
    then show ?thesis using True g1 g2 b assms(4) sync [of d2]
      by (cases i) (auto simp: prepare_partitions_def prepare_opened_def split: prod.split)
  qed
qed

theorem prepare_rejects_witness:
  "\<exists>r d'. prepare_partitions sample_host UPDATE_FINALIZE (Some sample_dev) [] = Some (r, Some d', [])
    \<and> dev_bytes d' = dev_bytes sample_dev \<and> r \<noteq> 0"
proof -
  have e: "dev_env sample_host = sum_env" by (simp add: sample_host_def)
  have "header_state sum_env (hdr_of sample_dev g) = GPT_OK" for g
    using sample_bootable [of g] by (simp add: bootable_def header_state_def)
  then have "internal_stage (header_state sum_env (hdr_of sample_dev PRIMARY_GPT)) (header_state sum_env (hdr_of sample_dev SECONDARY_GPT)) = Some UPDATE_MAIN"
    by (simp add: internal_stage_def)
  then show ?thesis
    using prepare_rejects [of sample_dev sample_host "Some UPDATE_MAIN" UPDATE_FINALIZE "[]"] layout_fits [OF sample_layout] works_no_short [OF sample_works]
    unfolding e by auto
qed

text \<open>What the sizes are for: a header that gives itself more than a block is summed past the buffer.\<close>

lemma oversized_header:
  assumes "works e" "92 \<le> unat (dev_blk d)" "unat (dev_blk d) \<le> 0x7ffff000" "2 * unat (dev_blk d) \<le> length (dev_bytes d)"
    and "GET_4_BYTES (hdr_of d PRIMARY_GPT) HEADER_SIZE_OFFSET = Some sz" "unat (dev_blk d) < unat sz" "dev_env h = e"
  shows "prepare_partitions h stage (Some d) luns = None"
proof -
  let ?b = "unat (dev_blk d)"
  obtain d1 where 1: "ioctl_BLKSSZGET e d = (Some (dev_blk d), d1)" "same_dev d d1"
    by (rule ioctl_cases [of e d]) (use assms(1) in auto)
  obtain b d2 where 2: "os_malloc e ?b d1 = (Some b, d2)" "length b = ?b" "same_dev d1 d2"
    by (rule malloc_cases [of e ?b d1]) (use assms(1) in auto)
  note s2 = same_dev_trans [OF 1(2) 2(3)]
  have h: "length (hdr_of d PRIMARY_GPT) = ?b" "hdr_at d PRIMARY_GPT = ?b" using assms(4) by (simp_all add: hdr_of_def hdr_at_def)
  have room: "hdr_at d PRIMARY_GPT + ?b \<le> length (dev_bytes d2)" using assms(4) s2 h(2) by (simp add: same_dev_def)
  obtain d3 where 3: "blk_rw e False (int (hdr_at d PRIMARY_GPT)) b ?b d2 = Some (0, slice (hdr_at d PRIMARY_GPT) ?b (dev_bytes d2), d3)"
    by (rule blk_read [OF works_no_short [OF assms(1)] room assms(3) 2(2)]) (use assms(1) in auto)
  have same: "slice (hdr_at d PRIMARY_GPT) ?b (dev_bytes d2) = hdr_of d PRIMARY_GPT"
    using s2 by (simp add: hdr_of_def same_dev_def)
  obtain h0 where h0: "PUT_4_BYTES (hdr_of d PRIMARY_GPT) HEADER_CRC_OFFSET 0 = Some h0" "length h0 = ?b"
    using PUT_4_ok [of HEADER_CRC_OFFSET "hdr_of d PRIMARY_GPT" 0] h(1) assms(2) by (auto simp: gpt_offsets)
  obtain c where c: "GET_4_BYTES (hdr_of d PRIMARY_GPT) HEADER_CRC_OFFSET = Some c"
    using GET_4_ok [of HEADER_CRC_OFFSET "hdr_of d PRIMARY_GPT"] h(1) assms(2) by (auto simp: gpt_offsets)
  have crc: "header_crc e (hdr_of d PRIMARY_GPT) sz = None" using h0 assms(6) by (simp add: header_crc_def crc_of_def)
  have at: "uint (dev_blk d) = int (hdr_at d PRIMARY_GPT)" by (simp add: h(2))
  have "gpt_get_state e PRIMARY_GPT d = None"
    using 1(1) 2(1) 3 [unfolded same] by (simp add: gpt_get_state_def header_offset_def at assms(5) c crc Let_def)
  then show ?thesis using assms(7) by (simp add: prepare_partitions_def prepare_opened_def)
qed

text \<open>A block of zeros has the size 0 and the checksum 0, which is that of no bytes (\<open>crc32\<close> of zlib gives 0 there).\<close>

lemma wiped_header:
  assumes "92 \<le> n" "crc32 e [] = 0"
  shows "header_state e (replicate n NUL) = GPT_BAD_SIGNATURE"
proof -
  have g: "GET_4_BYTES (replicate n NUL) p = Some 0" if "p + 4 \<le> 92" for p
    using that assms(1) by (simp add: GET_4_BYTES_def byte_word_def code_of_def)
  obtain h0 where "PUT_4_BYTES (replicate n NUL) HEADER_CRC_OFFSET 0 = Some h0"
    using PUT_4_ok [of HEADER_CRC_OFFSET "replicate n NUL" 0] assms(1) by (auto simp: gpt_offsets)
  then have "crc_ok e (replicate n NUL)"
    using g assms(2) by (simp add: crc_ok_def header_crc_def crc_of_def gpt_offsets)
  moreover have "hd (take (length GPT_SIGNATURE) (replicate n NUL)) \<noteq> hd GPT_SIGNATURE"
    using assms(1) by (cases n) (simp_all add: GPT_SIGNATURE_def)
  then have "\<not> signed_ok (replicate n NUL)" by (auto simp: signed_ok_def)
  ultimately show ?thesis by (simp add: header_state_def)
qed

section \<open>The stages without failures\<close>

lemma prepare_run:
  assumes "layout d" "works e" "dev_env h = e"
    "internal_stage (header_state e (hdr_of d PRIMARY_GPT)) (header_state e (hdr_of d SECONDARY_GPT)) = Some internal"
  obtains d2 where "same_dev d d2"
    "prepare_opened h stage d luns =
      (if stage_no stage = stage_no internal - 1 then Some (0, d2, luns)
       else if stage \<noteq> internal then Some (-1, d2, luns)
       else case stage of
         UPDATE_MAIN \<Rightarrow> stage_main h d2 luns
       | UPDATE_BACKUP \<Rightarrow> stage_backup h d2 luns
       | UPDATE_FINALIZE \<Rightarrow> stage_finalize h d2 luns)"
proof -
  note ns = works_no_short [OF assms(2)]
  obtain s1 d1 where g1: "gpt_get_state e PRIMARY_GPT d = Some (0, s1, d1)" "same_dev d d1"
    "s1 = header_state e (hdr_of d PRIMARY_GPT)"
    using get_state_spec [OF layout_fits [OF assms(1)] ns, of PRIMARY_GPT] assms(2) by blast
  note same1 = same_dev_layout [OF g1(2)]
  obtain s2 d2 where g2: "gpt_get_state e SECONDARY_GPT d1 = Some (0, s2, d2)" "same_dev d1 d2"
    "s2 = header_state e (hdr_of d SECONDARY_GPT)"
    using get_state_spec [of d1 e SECONDARY_GPT] layout_fits [OF assms(1)] assms(2) ns same1 same_dev_fits [OF g1(2)] by auto
  show ?thesis
    using that [OF same_dev_trans [OF g1(2) g2(2)]] assms(3,4) g1(1,3) g2(1,3)
    by (simp add: prepare_opened_def)
qed

lemma prepare_partitions_run:
  assumes "prepare_opened h stage d luns = Some (r, d1, luns')"
  obtains d' where "prepare_partitions h stage (Some d) luns = Some (r, Some d', luns')" "same_dev d1 d'"
proof -
  obtain q d2 where f: "os_fsync (dev_env h) d1 = (q, d2)" by force
  have "same_dev d1 d2" using f by (auto simp: os_fsync_def sys_call_def same_dev_def)
  then show ?thesis using assms f by (intro that [of d2]) (auto simp: prepare_partitions_def)
qed

text \<open>
  Why C1 asks for the entries of the primary table to match their checksum. The second stage signs the
  primary header without looking at the entries, and then damages the signature of the backup: where
  the primary entries are damaged and the backup is the only table to boot from, it reports success and
  leaves none.
\<close>

lemma damaged_primary:
  assumes "layout d" "works e" "dev_env h = e" "switch_xbl h NORMAL_BOOT luns = (0, luns')"
    and "header_state e (hdr_of d PRIMARY_GPT) = GPT_BAD_SIGNATURE" "\<not> entries_crc_ok e d PRIMARY_GPT"
    and "bootable e d SECONDARY_GPT"
  shows "\<exists>d'. prepare_partitions h UPDATE_BACKUP (Some d) luns = Some (0, Some d', luns') \<and> (\<forall>g. \<not> bootable e d' g)"
proof -
  have "header_state e (hdr_of d SECONDARY_GPT) = GPT_OK" using assms(7) by (simp add: bootable_def header_state_def)
  then have i: "internal_stage (header_state e (hdr_of d PRIMARY_GPT)) (header_state e (hdr_of d SECONDARY_GPT)) = Some UPDATE_BACKUP"
    by (simp add: assms(5) internal_stage_def)
  obtain d1 where d1: "same_dev d d1" "prepare_opened h UPDATE_BACKUP d luns = stage_backup h d1 luns"
    by (rule prepare_run [OF assms(1-3) i, of UPDATE_BACKUP luns]) auto
  note s1 = same_dev_layout [OF d1(1)]
  have l1: "layout d1" using s1 assms(1) by simp
  obtain r2 d2 h2 where 2: "gpt_set_state e PRIMARY_GPT GPT_OK d1 = Some (0, d2)" "dev_blk d2 = dev_blk d1"
    "dev_bytes d2 = splice_at (hdr_at d1 PRIMARY_GPT) h2 (dev_bytes d1)" "length h2 = unat (dev_blk d1)"
    "geometry h2 = geometry (hdr_of d1 PRIMARY_GPT)"
    "GET_4_BYTES h2 PARTITION_CRC_OFFSET = GET_4_BYTES (hdr_of d1 PRIMARY_GPT) PARTITION_CRC_OFFSET"
    by (rule set_state_cases [OF l1 works_no_short [OF assms(2)], of GPT_OK PRIMARY_GPT]) (use assms(2) in auto)
  note w2 = write_header [OF l1 2(4,5,2,3)]
  obtain r3 d3 h3 where 3: "gpt_set_state e SECONDARY_GPT GPT_BAD_SIGNATURE d2 = Some (0, d3)" "dev_blk d3 = dev_blk d2"
    "dev_bytes d3 = splice_at (hdr_at d2 SECONDARY_GPT) h3 (dev_bytes d2)" "length h3 = unat (dev_blk d2)"
    "geometry h3 = geometry (hdr_of d2 SECONDARY_GPT)" "wanted GPT_BAD_SIGNATURE h3"
    by (rule set_state_cases [OF w2(1) works_no_short [OF assms(2)], of GPT_BAD_SIGNATURE SECONDARY_GPT]) (use assms(2) in auto)
  note w3 = write_header [OF w2(1) 3(4,5,2,3)]
  have "\<not> signed_ok (hdr_of d3 SECONDARY_GPT)" using w3(2) 3(6) by (simp add: wanted_def)
  moreover have "\<not> entries_crc_ok e d3 PRIMARY_GPT"
    using assms(6) w2 w3(3) [of PRIMARY_GPT] w3(4) 2(6) s1 by (simp add: entries_crc_ok_def)
  ultimately have none: "\<not> bootable e d3 g" for g by (cases g) (simp_all add: bootable_def)
  have "prepare_opened h UPDATE_BACKUP d luns = Some (0, d3, luns')"
    using d1(2) 2(1) 3(1) assms(3,4) by (simp add: stage_backup_def)
  then show ?thesis by (rule prepare_partitions_run) (use none same_dev_layout(5) in fastforce)
qed

text \<open>What the headers and the entries of a device look like to the boot loader.\<close>

definition tables :: "gpt_env \<Rightarrow> blkdev \<Rightarrow> bool \<Rightarrow> bool \<Rightarrow> string \<Rightarrow> string \<Rightarrow> bool" where
  "tables e d ok1 ok2 a1 a2 \<longleftrightarrow> update_inv e d \<and> entries_of d PRIMARY_GPT = a1 \<and> entries_of d SECONDARY_GPT = a2
     \<and> signed_ok (hdr_of d PRIMARY_GPT) = ok1 \<and> signed_ok (hdr_of d SECONDARY_GPT) = ok2
     \<and> crc_ok e (hdr_of d SECONDARY_GPT) \<and> entries_crc_ok e d SECONDARY_GPT"

lemma same_dev_tables: "same_dev d d' \<Longrightarrow> tables e d' = tables e d"
  by (intro ext) (simp add: tables_def same_dev_layout entries_crc_ok_def)

lemma tables_state:
  assumes "tables e d ok1 ok2 a1 a2"
  shows "header_state e (hdr_of d PRIMARY_GPT) = (if ok1 then GPT_OK else GPT_BAD_SIGNATURE)"
    "header_state e (hdr_of d SECONDARY_GPT) = (if ok2 then GPT_OK else GPT_BAD_SIGNATURE)"
    "update_inv e d" "layout d"
  using assms by (auto simp: tables_def header_state_def update_inv_def)

lemma set_primary:
  assumes "tables e d ok1 ok2 a1 a2" "works e" "st = GPT_OK \<or> st = GPT_BAD_SIGNATURE \<and> ok2"
  obtains d' where "gpt_set_state e PRIMARY_GPT st d = Some (0, d')" "tables e d' (st = GPT_OK) ok2 a1 a2"
  by (rule set_state_inv [OF tables_state(3) [OF assms(1)] works_no_short [OF assms(2)], of st PRIMARY_GPT])
    (use assms that in \<open>auto simp: tables_def wanted_def bootable_def entries_crc_ok_def\<close>)

lemma set_secondary:
  assumes "tables e d True ok2 a1 a2" "works e" "st \<noteq> GPT_BAD_CRC"
  obtains d' where "gpt_set_state e SECONDARY_GPT st d = Some (0, d')" "tables e d' True (st = GPT_OK) a1 a2"
  by (rule set_state_inv [OF tables_state(3) [OF assms(1)] works_no_short [OF assms(2)], of st SECONDARY_GPT])
    (use assms that in \<open>auto simp: tables_def wanted_def entries_crc_ok_def\<close>)

lemma set_chain:
  assumes "tables e d True ok2 a1 a2" "works e" "chain_entries ufs boot d = Some (0, a)"
  obtains d' where "gpt2_set_boot_chain e ufs boot d = Some (0, d')" "tables e d' True ok2 a1 a"
proof -
  have "signed_ok (hdr_of d PRIMARY_GPT)" using assms(1) by (simp add: tables_def)
  then show ?thesis
    by (rule gpt2_inv [OF tables_state(3) [OF assms(1)] works_no_short [OF assms(2)], where boot = boot and ufs = ufs])
      (use assms that in \<open>auto simp: tables_def\<close>)
qed

text \<open>
  The boot LUN: nothing is switched on a device without UFS, nor where a path of the pair is missing;
  else the LUN of the chain is written to the node of the device of its partition.
\<close>

lemma switch_xbl_spec:
  "switch_xbl h c luns =
    (if \<not> (gpt_utils_is_ufs_device (bootdevice h) \<and> path_exists h XBL_PRIMARY \<and> path_exists h XBL_BACKUP) then (0, luns)
     else case get_scsi_node_from_bootdevice h (case c of BACKUP_BOOT \<Rightarrow> XBL_BACKUP | NORMAL_BOOT \<Rightarrow> XBL_PRIMARY) of
       Some node \<Rightarrow> if lun_writable h node
         then (0, luns @ [(node, case c of BACKUP_BOOT \<Rightarrow> BOOT_LUN_B_ID | NORMAL_BOOT \<Rightarrow> BOOT_LUN_A_ID)]) else (-1, luns)
     | None \<Rightarrow> (-1, luns))"
  by (cases c) (auto simp: switch_xbl_def gpt_utils_set_xbl_boot_partition_def set_boot_lun_def split: option.split)

lemma same_dev_chain: "same_dev d d' \<Longrightarrow> chain_entries ufs boot d' = chain_entries ufs boot d"
  by (simp add: chain_entries_def same_dev_layout)

lemma stage_done:
  assumes "prepare_opened h stage d luns = Some (0, d1, luns')" "tables e d1 ok1 ok2 a1 a2"
  obtains d' where "prepare_partitions h stage (Some d) luns = Some (0, Some d', luns')" "tables e d' ok1 ok2 a1 a2"
  by (rule prepare_partitions_run [OF assms(1)]) (use assms(2) that same_dev_tables in force)

lemma main_works:
  assumes "tables e d True True a1 a2" "works e" "dev_env h = e" "switch_xbl h BACKUP_BOOT luns = (0, luns')"
    "chain_entries (gpt_utils_is_ufs_device (bootdevice h)) BACKUP_BOOT d = Some (0, b)"
  obtains d' where "prepare_partitions h UPDATE_MAIN (Some d) luns = Some (0, Some d', luns')" "tables e d' False True a1 b"
proof -
  note st = tables_state [OF assms(1)]
  have i: "internal_stage (header_state e (hdr_of d PRIMARY_GPT)) (header_state e (hdr_of d SECONDARY_GPT)) = Some UPDATE_MAIN"
    by (simp add: st internal_stage_def)
  obtain d1 where d1: "same_dev d d1" "prepare_opened h UPDATE_MAIN d luns = stage_main h d1 luns"
    by (rule prepare_run [OF st(4) assms(2,3) i, of UPDATE_MAIN luns]) auto
  have t1: "tables e d1 True True a1 a2" "chain_entries (gpt_utils_is_ufs_device (bootdevice h)) BACKUP_BOOT d1 = Some (0, b)"
    using assms(1,5) same_dev_tables [OF d1(1)] same_dev_chain [OF d1(1)] by simp_all
  obtain d2 where d2: "gpt2_set_boot_chain e (gpt_utils_is_ufs_device (bootdevice h)) BACKUP_BOOT d1 = Some (0, d2)" "tables e d2 True True a1 b"
    by (rule set_chain [OF t1(1) assms(2) t1(2)])
  have bad: "GPT_BAD_SIGNATURE = GPT_OK \<or> GPT_BAD_SIGNATURE = GPT_BAD_SIGNATURE \<and> True" by simp
  obtain d3 where d3: "gpt_set_state e PRIMARY_GPT GPT_BAD_SIGNATURE d2 = Some (0, d3)" "tables e d3 False True a1 b"
    by (rule set_primary [OF d2(2) assms(2) bad]) simp
  have "prepare_opened h UPDATE_MAIN d luns = Some (0, d3, luns')"
    using d1(2) d2(1) d3(1) assms(3,4) by (simp add: stage_main_def)
  then show ?thesis by (rule stage_done [OF _ d3(2)]) (rule that)
qed

lemma backup_works:
  assumes "tables e d False True a1 a2" "works e" "dev_env h = e" "switch_xbl h NORMAL_BOOT luns = (0, luns')"
  obtains d' where "prepare_partitions h UPDATE_BACKUP (Some d) luns = Some (0, Some d', luns')" "tables e d' True False a1 a2"
proof -
  note st = tables_state [OF assms(1)]
  have i: "internal_stage (header_state e (hdr_of d PRIMARY_GPT)) (header_state e (hdr_of d SECONDARY_GPT)) = Some UPDATE_BACKUP"
    by (simp add: st internal_stage_def)
  obtain d1 where d1: "same_dev d d1" "prepare_opened h UPDATE_BACKUP d luns = stage_backup h d1 luns"
    by (rule prepare_run [OF st(4) assms(2,3) i, of UPDATE_BACKUP luns]) auto
  have t1: "tables e d1 False True a1 a2" using assms(1) same_dev_tables [OF d1(1)] by simp
  have good: "GPT_OK = GPT_OK \<or> GPT_OK = GPT_BAD_SIGNATURE \<and> True" "GPT_BAD_SIGNATURE \<noteq> GPT_BAD_CRC" by simp_all
  obtain d2 where d2: "gpt_set_state e PRIMARY_GPT GPT_OK d1 = Some (0, d2)" "tables e d2 True True a1 a2"
    by (rule set_primary [OF t1 assms(2) good(1)]) simp
  obtain d3 where d3: "gpt_set_state e SECONDARY_GPT GPT_BAD_SIGNATURE d2 = Some (0, d3)" "tables e d3 True False a1 a2"
    by (rule set_secondary [OF d2(2) assms(2) good(2)]) simp
  have "prepare_opened h UPDATE_BACKUP d luns = Some (0, d3, luns')"
    using d1(2) d2(1) d3(1) assms(3,4) by (simp add: stage_backup_def)
  then show ?thesis by (rule stage_done [OF _ d3(2)]) (rule that)
qed

lemma finalize_works:
  assumes "tables e d True False a1 a2" "works e" "dev_env h = e"
  obtains d' where "prepare_partitions h UPDATE_FINALIZE (Some d) luns = Some (0, Some d', luns)" "tables e d' True True a1 a1"
proof -
  note st = tables_state [OF assms(1)]
  have i: "internal_stage (header_state e (hdr_of d PRIMARY_GPT)) (header_state e (hdr_of d SECONDARY_GPT)) = Some UPDATE_FINALIZE"
    by (simp add: st internal_stage_def)
  obtain d1 where d1: "same_dev d d1" "prepare_opened h UPDATE_FINALIZE d luns = stage_finalize h d1 luns"
    by (rule prepare_run [OF st(4) assms(2,3) i, of UPDATE_FINALIZE luns]) auto
  have t1: "tables e d1 True False a1 a2" using assms(1) same_dev_tables [OF d1(1)] by simp
  have c: "chain_entries (gpt_utils_is_ufs_device (bootdevice h)) NORMAL_BOOT d1 = Some (0, a1)"
    using t1 by (simp add: chain_entries_def tables_def)
  obtain d2 where d2: "gpt2_set_boot_chain e (gpt_utils_is_ufs_device (bootdevice h)) NORMAL_BOOT d1 = Some (0, d2)" "tables e d2 True False a1 a1"
    by (rule set_chain [OF t1 assms(2) c])
  have good: "GPT_OK \<noteq> GPT_BAD_CRC" by simp
  obtain d3 where d3: "gpt_set_state e SECONDARY_GPT GPT_OK d2 = Some (0, d3)" "tables e d3 True True a1 a1"
    by (rule set_secondary [OF d2(2) assms(2) good]) simp
  have "prepare_opened h UPDATE_FINALIZE d luns = Some (0, d3, luns)"
    using d1(2) d2(1) d3(1) assms(3) by (simp add: stage_finalize_def)
  then show ?thesis by (rule stage_done [OF _ d3(2)]) (rule that)
qed

text \<open>
  C10. The update protocol, on UFS and on other devices. Let no call fail, both tables be laid out, be
  bootable and the primary entries be well formed; let the swap of the primary entries find a backup
  and give \<open>b\<close>; and let the two switches of the boot LUN succeed (\<open>switch_xbl_spec\<close> says what they write,
  nothing where there is no UFS or no pair of \<open>xbl\<close> partitions). Then the stages run in order and all
  report success: after the first only the backup table can be booted from and it holds \<open>b\<close>, after the
  second only the primary one with its entries \<open>a\<close> as they were, and after the third both can and both
  hold \<open>a\<close>; the first two stages made their switch, the third makes none.
\<close>

theorem update_protocol:
  assumes "works (dev_env h)" "tables (dev_env h) d True True a a'"
    and "gpt_boot_chain_swap (gpt_utils_is_ufs_device (bootdevice h)) (word_of_nat (entry_size_of d)) a = Some (0, b)"
    and "switch_xbl h BACKUP_BOOT luns = (0, luns1)" "switch_xbl h NORMAL_BOOT luns1 = (0, luns2)"
  shows "\<exists>d1 d2 d3.
    prepare_partitions h UPDATE_MAIN (Some d) luns = Some (0, Some d1, luns1) \<and> tables (dev_env h) d1 False True a b \<and>
    prepare_partitions h UPDATE_BACKUP (Some d1) luns1 = Some (0, Some d2, luns2) \<and> tables (dev_env h) d2 True False a b \<and>
    prepare_partitions h UPDATE_FINALIZE (Some d2) luns2 = Some (0, Some d3, luns2) \<and> tables (dev_env h) d3 True True a a"
proof -
  have c: "chain_entries (gpt_utils_is_ufs_device (bootdevice h)) BACKUP_BOOT d = Some (0, b)"
    using assms(2,3) by (simp add: chain_entries_def tables_def)
  show ?thesis
    by (meson main_works [OF assms(2,1) refl assms(4) c] backup_works [OF _ assms(1) refl assms(5)]
        finalize_works [OF _ assms(1) refl])
qed

lemma sample_tables: "tables sum_env sample_dev True True sample_entries sample_entries"
  using sample_inv sample_bootable [of PRIMARY_GPT] sample_bootable [of SECONDARY_GPT]
  by (simp add: tables_def sample_entries_of bootable_def)

text \<open>A host whose disk is UFS, with the two \<open>xbl\<close> partitions on disks of their own.\<close>

definition ufs_host :: host where
  "ufs_host = sample_host\<lparr>bootdevice := ''1d84000.ufshc'', path_exists := \<lambda>p. p \<in> {XBL_PRIMARY, XBL_BACKUP},
     link_of := \<lambda>p. if p = XBL_PRIMARY then Some ''/dev/block/sdb1'' else if p = XBL_BACKUP then Some ''/dev/block/sdc1'' else None,
     dir_entries := \<lambda>p. if p = ''/sys/block/sdb/device/scsi_generic'' then Some [''.'', ''..'', ''sg1'']
       else if p = ''/sys/block/sdc/device/scsi_generic'' then Some [''.'', ''..'', ''sg2''] else None,
     lun_writable := \<lambda>p. True\<rparr>"

lemma ufs_switch:
  "switch_xbl ufs_host BACKUP_BOOT [] = (0, [(''/dev/sg2'', 2)])"
  "switch_xbl ufs_host NORMAL_BOOT [(''/dev/sg2'', 2)] = (0, [(''/dev/sg2'', 2), (''/dev/sg1'', 1)])"
proof -
  have sg: "strneq 2 ''sg1'' ''sg''" "strneq 2 ''sg2'' ''sg''" by code_simp+
  have n: "get_scsi_node_from_bootdevice ufs_host XBL_BACKUP = Some ''/dev/sg2''"
    "get_scsi_node_from_bootdevice ufs_host XBL_PRIMARY = Some ''/dev/sg1''"
    by (simp_all add: get_scsi_node_from_bootdevice_def ufs_host_def XBL_PRIMARY_def XBL_BACKUP_def PATH_MAX_def
        PATH_TRUNCATE_LOC_def LUN_NAME_START_LOC_def snprintf_def cstr_Cons sg Let_def)
  have "gpt_utils_is_ufs_device (bootdevice ufs_host)" by (simp add: ufs_host_def) code_simp
  moreover have "path_exists ufs_host XBL_PRIMARY" "path_exists ufs_host XBL_BACKUP" "\<And>x. lun_writable ufs_host x"
    by (simp_all add: ufs_host_def)
  ultimately show "switch_xbl ufs_host BACKUP_BOOT [] = (0, [(''/dev/sg2'', 2)])"
    "switch_xbl ufs_host NORMAL_BOOT [(''/dev/sg2'', 2)] = (0, [(''/dev/sg2'', 2), (''/dev/sg1'', 1)])"
    by (simp_all add: switch_xbl_spec n BOOT_LUN_A_ID_def BOOT_LUN_B_ID_def)
qed

theorem update_protocol_witness:
  "\<exists>b d1 d2. gpt_boot_chain_swap True 128 sample_entries = Some (0, b)
    \<and> prepare_partitions ufs_host UPDATE_MAIN (Some sample_dev) [] = Some (0, Some d1, [(''/dev/sg2'', 2)])
    \<and> tables sum_env d1 False True sample_entries b
    \<and> prepare_partitions ufs_host UPDATE_BACKUP (Some d1) [(''/dev/sg2'', 2)] = Some (0, Some d2, [(''/dev/sg2'', 2), (''/dev/sg1'', 1)])
    \<and> tables sum_env d2 True False sample_entries b"
proof -
  have "swap_pairs True PTN_SWAP_LIST sample_entries 128 2 = [(0, 1)]" by code_simp
  then obtain b where b: "gpt_boot_chain_swap True 128 sample_entries = Some (0, b)"
    using swap_all [of sample_entries 128 2 True] by (auto simp: sample_entries_ok gpt_boot_chain_swap_def)
  have e: "dev_env ufs_host = sum_env" "gpt_utils_is_ufs_device (bootdevice ufs_host)"
    by (simp add: ufs_host_def sample_host_def, simp add: ufs_host_def, code_simp)
  have z: "(word_of_nat (entry_size_of sample_dev) :: 32 word) = 128" by (simp add: sample_size)
  show ?thesis
    using update_protocol [of ufs_host sample_dev sample_entries sample_entries b, OF _ _ _ ufs_switch]
      b z e sample_works sample_tables by auto
qed

end
