(* ===== verification/Gpt_Disk.thy ===== *)
theory Gpt_Disk
  imports Gpt_Stages
begin

text \<open>
  The \<open>gpt_disk\<close> functions of \<open>src/gpt-utils\<close>: a partition table is read from the disk that holds a
  partition, changed in memory, its checksums renewed, and written back. Devices are found by
  their path; opening a path without a device fails.
\<close>

type_synonym devices = "string \<Rightarrow> blkdev option"

record gpt_disk =
  hdr :: "string option"
  hdr_crc :: "32 word"
  hdr_bak :: "string option"
  hdr_bak_crc :: "32 word"
  pentry_arr :: "string option"
  pentry_arr_bak :: "string option"
  pentry_arr_size :: "32 word"
  pentry_size :: "32 word"
  pentry_arr_crc :: "32 word"
  pentry_arr_bak_crc :: "32 word"
  devpath :: string
  block_size :: "32 word"
  is_initialized :: "32 word"

definition GPT_DISK_INIT_MAGIC :: "32 word" where "GPT_DISK_INIT_MAGIC = 0xABCD"
definition BOOT_DEV_DIR :: string where "BOOT_DEV_DIR = ''/dev/block/bootdevice/by-name''"
definition BLK_DEV_FILE :: string where "BLK_DEV_FILE = ''/dev/block/mmcblk0''"

section \<open>Finding the disk\<close>

text \<open>
  \<open>buf\<close> is the caller's buffer, a string up to its first NUL; \<open>readlink\<close> writes no terminator.
\<close>

definition get_dev_path_from_partition_name :: "host \<Rightarrow> string \<Rightarrow> string \<Rightarrow> int \<times> string" where
  "get_dev_path_from_partition_name h partname buf =
     (if length buf < PATH_TRUNCATE_LOC + 1 then (-1, buf)
      else if gpt_utils_is_ufs_device (bootdevice h) then
        let path = snprintf PATH_MAX (BOOT_DEV_DIR @ ''/'' @ partname)
        in if \<not> path_exists h path then (-1, buf)
           else case link_of h path of
             None \<Rightarrow> (-1, buf)
           | Some target \<Rightarrow> (0, (splice_at 0 (take (length buf) target) buf)[PATH_TRUNCATE_LOC := NUL])
      else (0, splice_at 0 (snprintf (length buf) ''/dev/mmcblk0'' @ [NUL]) buf))"

section \<open>Headers and entries\<close>

definition gpt_get_block_size :: "gpt_env \<Rightarrow> blkdev \<Rightarrow> 32 word \<times> blkdev" where
  "gpt_get_block_size e d = (case ioctl_BLKSSZGET e d of (None, d) \<Rightarrow> (0, d) | (Some b, d) \<Rightarrow> (b, d))"

definition gpt_set_header :: "gpt_env \<Rightarrow> string \<Rightarrow> gpt_instance \<Rightarrow> blkdev \<Rightarrow> (int \<times> blkdev) option" where
  "gpt_set_header e gpt_header instance d =
     (case gpt_get_block_size e d of (blk, d) \<Rightarrow>
        if blk = 0 then Some (-1, d)
        else case header_offset e instance blk d of (off, d) \<Rightarrow>
          if off \<le> 0 then Some (-1, d)
          else do {
            (r, b, d) \<leftarrow> blk_rw e True off gpt_header (unat blk) d;
            Some (if r \<noteq> 0 then -1 else 0, d) })"

text \<open>
  Where \<open>malloc\<close> fails the code goes on and reads to a null pointer: the kernel refuses that, or has
  nothing to read, and the result is null in both cases.
\<close>

definition read_null :: "gpt_env \<Rightarrow> int \<Rightarrow> blkdev \<Rightarrow> blkdev" where
  "read_null e off d = (let (o', d) = lseek_set e off d in if o' < 0 then d else snd (sys_call e d))"

definition read_gpt_header :: "gpt_env \<Rightarrow> gpt_instance \<Rightarrow> blkdev \<Rightarrow> (string option \<times> blkdev) option" where
  "read_gpt_header e instance d =
     (case gpt_get_block_size e d of (blk, d) \<Rightarrow>
        if blk = 0 then Some (None, d)
        else case os_malloc e (unat blk) d of (mem, d) \<Rightarrow>
          (case header_offset e instance blk d of (off, d) \<Rightarrow>
            if off < 0 then Some (None, d)
            else case mem of
              None \<Rightarrow> Some (None, read_null e off d)
            | Some b \<Rightarrow> do {
                (r, b, d) \<leftarrow> blk_rw e False off b (unat blk) d;
                Some (if r \<noteq> 0 then None else Some b, d) }))"

definition gpt_get_header :: "host \<Rightarrow> string \<Rightarrow> gpt_instance \<Rightarrow> devices \<Rightarrow> (string option \<times> devices) option" where
  "gpt_get_header h partname instance devs =
     (case get_dev_path_from_partition_name h partname (replicate PATH_MAX NUL) of (r, path) \<Rightarrow>
        if r \<noteq> 0 then Some (None, devs)
        else case devs (cstr path) of
          None \<Rightarrow> Some (None, devs)
        | Some d \<Rightarrow> do {
            (res, d) \<leftarrow> read_gpt_header (dev_env h) instance d;
            Some (res, devs(cstr path \<mapsto> d)) })"

definition gpt_get_pentry_arr :: "gpt_env \<Rightarrow> string \<Rightarrow> blkdev \<Rightarrow> (string option \<times> blkdev) option" where
  "gpt_get_pentry_arr e header d =
     (case gpt_get_block_size e d of (blk, d) \<Rightarrow>
        if blk = 0 then Some (None, d)
        else do {
          start \<leftarrow> pentries_start header blk;
          n \<leftarrow> pentries_array_size header;
          case os_calloc e (unat n) d of
            (None, d) \<Rightarrow> Some (None, d)
          | (Some arr, d) \<Rightarrow> do {
              (rc, arr, d) \<leftarrow> blk_rw e False (sint start) arr (unat n) d;
              Some (if rc \<noteq> 0 then None else Some arr, d) } })"

definition gpt_set_pentry_arr :: "gpt_env \<Rightarrow> string \<Rightarrow> string \<Rightarrow> blkdev \<Rightarrow> (int \<times> blkdev) option" where
  "gpt_set_pentry_arr e header arr d =
     (case gpt_get_block_size e d of (blk, d) \<Rightarrow>
        if blk = 0 then Some (-1, d)
        else do {
          start \<leftarrow> pentries_start header blk;
          n \<leftarrow> pentries_array_size header;
          (rc, arr, d) \<leftarrow> blk_rw e True (sint start) arr (unat n) d;
          Some (if rc \<noteq> 0 then -1 else 0, d) })"

section \<open>The handle\<close>

text \<open>The memory of \<open>gpt_disk_alloc\<close>, all zero.\<close>

definition gpt_disk_alloc :: gpt_disk where
  "gpt_disk_alloc = \<lparr>hdr = None, hdr_crc = 0, hdr_bak = None, hdr_bak_crc = 0, pentry_arr = None, pentry_arr_bak = None,
     pentry_arr_size = 0, pentry_size = 0, pentry_arr_crc = 0, pentry_arr_bak_crc = 0,
     devpath = replicate PATH_MAX NUL, block_size = 0, is_initialized = 0\<rparr>"

text \<open>
  The part of \<open>gpt_disk_get_disk_info\<close> after the disk was opened. Both headers come from the
  primary table.
\<close>

definition fill_disk :: "gpt_env \<Rightarrow> gpt_disk \<Rightarrow> string \<Rightarrow> string \<Rightarrow> blkdev \<Rightarrow> (int \<times> gpt_disk \<times> blkdev) option" where
  "fill_disk e disk h1 h2 d =
     do { (arr, d) \<leftarrow> gpt_get_pentry_arr e h1 d;
          let disk = disk\<lparr>pentry_arr := arr\<rparr>;
          if arr = None then Some (-1, disk, d)
          else do {
            (arr, d) \<leftarrow> gpt_get_pentry_arr e h2 d;
            let disk = disk\<lparr>pentry_arr_bak := arr\<rparr>;
            if arr = None then Some (-1, disk, d)
            else do {
              psz \<leftarrow> GET_4_BYTES h1 PENTRY_SIZE_OFFSET;
              n \<leftarrow> pentries_array_size h1;
              crc \<leftarrow> GET_4_BYTES h1 PARTITION_CRC_OFFSET;
              crc_bak \<leftarrow> GET_4_BYTES h2 PARTITION_CRC_OFFSET;
              let (blk, d) = gpt_get_block_size e d;
              Some (0, disk\<lparr>pentry_size := psz, pentry_arr_size := n, pentry_arr_crc := crc,
                pentry_arr_bak_crc := crc_bak, block_size := blk, is_initialized := GPT_DISK_INIT_MAGIC\<rparr>, d) } } }"

definition gpt_disk_get_disk_info :: "host \<Rightarrow> string \<Rightarrow> gpt_disk \<Rightarrow> devices \<Rightarrow> (int \<times> gpt_disk \<times> devices) option" where
  "gpt_disk_get_disk_info h dev disk devs =
     do { (res, devs) \<leftarrow> gpt_get_header h dev PRIMARY_GPT devs;
          let disk = disk\<lparr>hdr := res\<rparr>;
          case res of None \<Rightarrow> Some (-1, disk, devs)
          | Some h1 \<Rightarrow> do {
              sz \<leftarrow> GET_4_BYTES h1 HEADER_SIZE_OFFSET;
              c1 \<leftarrow> crc_of (dev_env h) h1 (unat sz);
              (res, devs) \<leftarrow> gpt_get_header h dev PRIMARY_GPT devs;
              let disk = disk\<lparr>hdr_crc := c1, hdr_bak := res\<rparr>;
              case res of None \<Rightarrow> Some (-1, disk, devs)
              | Some h2 \<Rightarrow> do {
                  c2 \<leftarrow> crc_of (dev_env h) h2 (unat sz);
                  let (r, path) = get_dev_path_from_partition_name h dev (devpath disk);
                  let disk = disk\<lparr>hdr_bak_crc := c2, devpath := path\<rparr>;
                  if r \<noteq> 0 then Some (-1, disk, devs)
                  else case devs (cstr path) of
                    None \<Rightarrow> Some (-1, disk, devs)
                  | Some d \<Rightarrow> do {
                      (r, disk, d) \<leftarrow> fill_disk (dev_env h) disk h1 h2 d;
                      Some (r, disk, devs(cstr path \<mapsto> d)) } } } }"

text \<open>The offset of the entry in the array, \<open>None\<close> inside where the code returns null.\<close>

definition gpt_disk_get_pentry :: "gpt_disk \<Rightarrow> string \<Rightarrow> gpt_instance \<Rightarrow> nat option option" where
  "gpt_disk_get_pentry disk partname instance =
     (if is_initialized disk \<noteq> GPT_DISK_INIT_MAGIC then Some None
      else do {
        arr \<leftarrow> (if instance = PRIMARY_GPT then pentry_arr disk else pentry_arr_bak disk);
        gpt_pentry_seek partname arr 0 (unat (pentry_arr_size disk)) (pentry_size disk) })"

definition gpt_disk_update_crc :: "gpt_env \<Rightarrow> gpt_disk \<Rightarrow> (int \<times> gpt_disk) option" where
  "gpt_disk_update_crc e disk =
     (if is_initialized disk \<noteq> GPT_DISK_INIT_MAGIC then Some (-1, disk)
      else do {
        arr \<leftarrow> pentry_arr disk;
        arr_bak \<leftarrow> pentry_arr_bak disk;
        h1 \<leftarrow> hdr disk;
        h2 \<leftarrow> hdr_bak disk;
        c1 \<leftarrow> crc_of e arr (unat (pentry_arr_size disk));
        c2 \<leftarrow> crc_of e arr_bak (unat (pentry_arr_size disk));
        h1 \<leftarrow> PUT_4_BYTES h1 PARTITION_CRC_OFFSET c1;
        h2 \<leftarrow> PUT_4_BYTES h2 PARTITION_CRC_OFFSET c2;
        sz \<leftarrow> GET_4_BYTES h1 HEADER_SIZE_OFFSET;
        h1 \<leftarrow> PUT_4_BYTES h1 HEADER_CRC_OFFSET 0;
        h2 \<leftarrow> PUT_4_BYTES h2 HEADER_CRC_OFFSET 0;
        k1 \<leftarrow> crc_of e h1 (unat sz);
        k2 \<leftarrow> crc_of e h2 (unat sz);
        h1 \<leftarrow> PUT_4_BYTES h1 HEADER_CRC_OFFSET k1;
        h2 \<leftarrow> PUT_4_BYTES h2 HEADER_CRC_OFFSET k2;
        Some (0, disk\<lparr>pentry_arr_crc := c1, pentry_arr_bak_crc := c2, hdr := Some h1, hdr_bak := Some h2,
          hdr_crc := k1, hdr_bak_crc := k2\<rparr>) })"

text \<open>Only the primary header and the primary entries are written.\<close>

definition commit_to :: "gpt_env \<Rightarrow> string \<Rightarrow> string \<Rightarrow> blkdev \<Rightarrow> (int \<times> blkdev) option" where
  "commit_to e h1 arr d =
     do { (r, d) \<leftarrow> gpt_set_header e h1 PRIMARY_GPT d;
          if r \<noteq> 0 then Some (-1, d)
          else do {
            (r, d) \<leftarrow> gpt_set_pentry_arr e h1 arr d;
            if r \<noteq> 0 then Some (-1, d)
            else let (_, d) = os_fsync e d in Some (0, d) } }"

definition gpt_disk_commit :: "host \<Rightarrow> gpt_disk \<Rightarrow> devices \<Rightarrow> (int \<times> devices) option" where
  "gpt_disk_commit h disk devs =
     (if is_initialized disk \<noteq> GPT_DISK_INIT_MAGIC then Some (-1, devs)
      else case devs (cstr (devpath disk)) of
        None \<Rightarrow> Some (-1, devs)
      | Some d \<Rightarrow>
          (case (hdr disk, pentry_arr disk) of
             (None, _) \<Rightarrow> Some (-1, devs)
           | (Some h1, None) \<Rightarrow> do { (r, d) \<leftarrow> gpt_set_header (dev_env h) h1 PRIMARY_GPT d;
               Some (-1, devs(cstr (devpath disk) \<mapsto> d)) }
           | (Some h1, Some arr) \<Rightarrow> do {
               (r, d) \<leftarrow> commit_to (dev_env h) h1 arr d;
               Some (r, devs(cstr (devpath disk) \<mapsto> d)) }))"

section \<open>New checksums\<close>

definition handle_ok :: "gpt_disk \<Rightarrow> string \<Rightarrow> string \<Rightarrow> string \<Rightarrow> string \<Rightarrow> bool" where
  "handle_ok disk h1 h2 a1 a2 \<longleftrightarrow> is_initialized disk = GPT_DISK_INIT_MAGIC
     \<and> hdr disk = Some h1 \<and> hdr_bak disk = Some h2 \<and> pentry_arr disk = Some a1 \<and> pentry_arr_bak disk = Some a2
     \<and> 92 \<le> length h1 \<and> 92 \<le> length h2 \<and> length a1 = unat (pentry_arr_size disk) \<and> length a2 = length a1"

lemma put_header_crc_split:
  "put_header_crc e h sz = Some h' \<longleftrightarrow>
    (\<exists>h0 k. PUT_4_BYTES h HEADER_CRC_OFFSET 0 = Some h0 \<and> crc_of e h0 (unat sz) = Some k \<and> PUT_4_BYTES h0 HEADER_CRC_OFFSET k = Some h')"
  by (auto simp: put_header_crc_def bind_eq_Some_iff)

text \<open>A header with the checksum of the entries and its own.\<close>

lemma seal_header:
  assumes "92 \<le> length h" "GET_4_BYTES h HEADER_SIZE_OFFSET = Some sz" "unat sz \<le> length h"
  obtains h1 h0 k h' where "PUT_4_BYTES h PARTITION_CRC_OFFSET (crc32 e a) = Some h1"
    "GET_4_BYTES h1 HEADER_SIZE_OFFSET = Some sz"
    "PUT_4_BYTES h1 HEADER_CRC_OFFSET 0 = Some h0" "crc_of e h0 (unat sz) = Some k" "PUT_4_BYTES h0 HEADER_CRC_OFFSET k = Some h'"
    "header_for e a h h'"
proof -
  obtain h1 where h1: "PUT_4_BYTES h PARTITION_CRC_OFFSET (crc32 e a) = Some h1" "length h1 = length h"
    using PUT_4_ok [of PARTITION_CRC_OFFSET h "crc32 e a"] assms(1) by (auto simp: gpt_offsets)
  have g1: "geometry h1 = geometry h" "signed_ok h1 = signed_ok h"
    using PUT_geometry [OF h1(1)] PUT_signed [OF h1(1)] by (simp_all add: gpt_offsets)
  have sz1: "GET_4_BYTES h1 HEADER_SIZE_OFFSET = Some sz" "92 \<le> length h1" "unat sz \<le> length h1"
    using geometry_size [OF g1(1) assms(1) h1(2)] assms h1(2) by simp_all
  obtain h2 where h2: "put_header_crc e h1 sz = Some h2" "length h2 = length h1" "geometry h2 = geometry h1"
    "signed_ok h2 = signed_ok h1" "GET_4_BYTES h2 PARTITION_CRC_OFFSET = GET_4_BYTES h1 PARTITION_CRC_OFFSET" "crc_ok e h2"
    by (rule put_header_crc_ok [OF sz1(2,1,3)])
  have "header_for e a h h2" using h1 h2 g1 GET_PUT_4_BYTES [OF h1(1)] by (simp add: header_for_def)
  then show ?thesis using h2(1) that h1(1) sz1(1) by (auto simp: put_header_crc_split)
qed

lemma update_crc_run:
  assumes "handle_ok disk h1 h2 a1 a2"
    and "GET_4_BYTES h1 HEADER_SIZE_OFFSET = Some sz" "GET_4_BYTES h2 HEADER_SIZE_OFFSET = Some sz"
    and "unat sz \<le> length h1" "unat sz \<le> length h2"
  obtains h1' h2' disk' where "gpt_disk_update_crc e disk = Some (0, disk')" "handle_ok disk' h1' h2' a1 a2"
    "header_for e a1 h1 h1'" "header_for e a2 h2 h2'" "devpath disk' = devpath disk"
proof -
  note ok = assms(1) [unfolded handle_ok_def]
  obtain p1 q1 k1 h1' where s1: "PUT_4_BYTES h1 PARTITION_CRC_OFFSET (crc32 e a1) = Some p1"
    "GET_4_BYTES p1 HEADER_SIZE_OFFSET = Some sz"
    "PUT_4_BYTES p1 HEADER_CRC_OFFSET 0 = Some q1" "crc_of e q1 (unat sz) = Some k1" "PUT_4_BYTES q1 HEADER_CRC_OFFSET k1 = Some h1'"
    "header_for e a1 h1 h1'"
    by (rule seal_header [of h1 sz e a1]) (use ok assms in auto)
  obtain p2 q2 k2 h2' where s2: "PUT_4_BYTES h2 PARTITION_CRC_OFFSET (crc32 e a2) = Some p2"
    "GET_4_BYTES p2 HEADER_SIZE_OFFSET = Some sz"
    "PUT_4_BYTES p2 HEADER_CRC_OFFSET 0 = Some q2" "crc_of e q2 (unat sz) = Some k2" "PUT_4_BYTES q2 HEADER_CRC_OFFSET k2 = Some h2'"
    "header_for e a2 h2 h2'"
    by (rule seal_header [of h2 sz e a2]) (use ok assms in auto)
  have c: "crc_of e a1 (unat (pentry_arr_size disk)) = Some (crc32 e a1)" "crc_of e a2 (unat (pentry_arr_size disk)) = Some (crc32 e a2)"
    using ok by (simp_all add: crc_of_def)
  have "gpt_disk_update_crc e disk = Some (0, disk\<lparr>pentry_arr_crc := crc32 e a1, pentry_arr_bak_crc := crc32 e a2,
      hdr := Some h1', hdr_bak := Some h2', hdr_crc := k1, hdr_bak_crc := k2\<rparr>)" (is "_ = Some (0, ?disk)")
    using ok c s1(1-5) s2(1-5) by (simp add: gpt_disk_update_crc_def)
  moreover have "handle_ok ?disk h1' h2' a1 a2" using ok s1(6) s2(6) by (simp add: handle_ok_def header_for_def)
  ultimately show ?thesis by (rule that [OF _ _ s1(6) s2(6)]) simp
qed

text \<open>
  \<open>gpt_disk_update_crc\<close> makes a handle consistent: each header has the checksum of its entries
  and then its own, and nothing else of the headers and nothing of the entries changes.
\<close>

theorem gpt_disk_update_crc_spec:
  assumes "handle_ok disk h1 h2 a1 a2"
    and "GET_4_BYTES h1 HEADER_SIZE_OFFSET = Some sz" "GET_4_BYTES h2 HEADER_SIZE_OFFSET = Some sz"
    and "unat sz \<le> length h1" "unat sz \<le> length h2"
  shows "\<exists>h1' h2' disk'. gpt_disk_update_crc e disk = Some (0, disk') \<and> handle_ok disk' h1' h2' a1 a2
    \<and> header_for e a1 h1 h1' \<and> header_for e a2 h2 h2'"
  by (rule update_crc_run [OF assms, where e = e]) blast

section \<open>Reading, changing, writing back\<close>

lemma block_size_works:
  assumes "works e"
  obtains d' where "gpt_get_block_size e d = (dev_blk d, d')" "same_dev d d'"
  by (rule ioctl_cases [of e d]) (use assms that in \<open>auto simp: gpt_get_block_size_def\<close>)

lemma layout_blk: "layout d \<Longrightarrow> dev_blk d \<noteq> 0"
  using layoutD(1) [of d] by auto

lemma read_header_works:
  assumes "layout d" "works e"
  obtains d' where "read_gpt_header e PRIMARY_GPT d = Some (Some (hdr_of d PRIMARY_GPT), d')" "same_dev d d'"
proof -
  note l = layoutD [OF assms(1)]
  obtain d1 where d1: "gpt_get_block_size e d = (dev_blk d, d1)" "same_dev d d1" by (rule block_size_works [OF assms(2)])
  obtain d2 b where d2: "os_malloc e (unat (dev_blk d)) d1 = (Some b, d2)" "length b = unat (dev_blk d)" "same_dev d1 d2"
    by (rule malloc_cases [of e "unat (dev_blk d)" d1]) (use assms(2) in auto)
  note s2 = same_dev_trans [OF d1(2) d2(3)]
  show ?thesis
  proof (rule blk_read [OF works_no_short [OF assms(2)] same_dev_region [OF s2 l(4) [of PRIMARY_GPT]] l(2) d2(2)])
    fix d' assume r: "blk_rw e False (int (hdr_at d PRIMARY_GPT)) b (unat (dev_blk d)) d2 =
        Some (0, slice (hdr_at d PRIMARY_GPT) (unat (dev_blk d)) (dev_bytes d2), d')" "same_dev d2 d'"
    have "slice (hdr_at d PRIMARY_GPT) (unat (dev_blk d)) (dev_bytes d2) = hdr_of d PRIMARY_GPT"
      using s2 by (simp add: hdr_of_def same_dev_def)
    then show ?thesis using r d1 d2 layout_blk [OF assms(1)]
      by (intro that [OF _ same_dev_trans [OF s2 r(2)]]) (simp add: read_gpt_header_def header_offset_def hdr_at_def)
  qed (use assms(2) in simp)
qed

lemma read_pentry_works:
  assumes "layout d" "works e"
  obtains d' where "gpt_get_pentry_arr e (hdr_of d PRIMARY_GPT) d = Some (Some (entries_of d PRIMARY_GPT), d')" "same_dev d d'"
proof -
  note l = layoutD [OF assms(1)]
  obtain sz lba cnt psz where g: "geometry (hdr_of d PRIMARY_GPT) = Some (sz, lba, cnt, psz)"
    "entries_at d PRIMARY_GPT = unat (lba * ucast (dev_blk d))"
    "sint (lba * ucast (dev_blk d)) = int (unat (lba * ucast (dev_blk d)))" "entries_len d = unat (cnt * psz)"
    by (rule layoutE [OF assms(1)])
  obtain d1 where d1: "gpt_get_block_size e d = (dev_blk d, d1)" "same_dev d d1" by (rule block_size_works [OF assms(2)])
  obtain d2 b where d2: "os_calloc e (entries_len d) d1 = (Some b, d2)" "length b = entries_len d" "same_dev d1 d2"
    by (rule calloc_cases [of e "entries_len d" d1]) (use assms(2) in auto)
  note s2 = same_dev_trans [OF d1(2) d2(3)]
  show ?thesis
  proof (rule blk_read [OF works_no_short [OF assms(2)] same_dev_region [OF s2 l(6) [of PRIMARY_GPT]] l(7) d2(2)])
    fix d' assume r: "blk_rw e False (int (entries_at d PRIMARY_GPT)) b (entries_len d) d2 =
        Some (0, slice (entries_at d PRIMARY_GPT) (entries_len d) (dev_bytes d2), d')" "same_dev d2 d'"
    have "slice (entries_at d PRIMARY_GPT) (entries_len d) (dev_bytes d2) = entries_of d PRIMARY_GPT"
      using s2 l(11) by (simp add: same_dev_def)
    then show ?thesis using r d1 d2 layout_blk [OF assms(1)] geometry_parts [OF g(1)] g(2-4)
      by (intro that [OF _ same_dev_trans [OF s2 r(2)]]) (simp add: gpt_get_pentry_arr_def)
  qed (use assms(2) in simp)
qed

lemma write_works:
  assumes "works e" "off + n \<le> length (dev_bytes d)" "n \<le> 0x7ffff000" "length b = n"
  obtains b' d' where "blk_rw e True (int off) b n d = Some (0, b', d')" "dev_blk d' = dev_blk d"
    "dev_bytes d' = splice_at off b (dev_bytes d)"
  by (rule blk_write [OF works_no_short [OF assms(1)] assms(2-4)]) (use assms(1) that in auto)

lemma commit_works:
  assumes "layout d" "works e" "length h = unat (dev_blk d)" "geometry h = geometry (hdr_of d PRIMARY_GPT)"
    "length a = entries_len d"
  obtains d' where "commit_to e h a d = Some (0, d')" "layout d'" "hdr_of d' PRIMARY_GPT = h" "entries_of d' PRIMARY_GPT = a"
    "hdr_of d' SECONDARY_GPT = hdr_of d SECONDARY_GPT" "entries_of d' SECONDARY_GPT = entries_of d SECONDARY_GPT"
proof -
  note l = layoutD [OF assms(1)]
  obtain d1 where d1: "gpt_get_block_size e d = (dev_blk d, d1)" "same_dev d d1" by (rule block_size_works [OF assms(2)])
  obtain b2 d2 where d2: "blk_rw e True (int (hdr_at d PRIMARY_GPT)) h (unat (dev_blk d)) d1 = Some (0, b2, d2)"
    "dev_blk d2 = dev_blk d" "dev_bytes d2 = splice_at (hdr_at d PRIMARY_GPT) h (dev_bytes d)"
    by (rule write_works [OF assms(2) same_dev_region [OF d1(2) l(4) [of PRIMARY_GPT]] l(2) assms(3)])
      (use d1(2) in \<open>simp add: same_dev_def\<close>)
  have "int 92 \<le> int (unat (dev_blk d))" using l(1) by linarith
  then have u: "\<not> uint (dev_blk d) \<le> 0" by simp
  have set1: "gpt_set_header e h PRIMARY_GPT d = Some (0, d2)"
    using d1(1) d2(1) layout_blk [OF assms(1)] u by (simp add: gpt_set_header_def header_offset_def hdr_at_def)
  note wh = write_header [OF assms(1) assms(3,4) d2(2,3)]
  obtain sz lba cnt psz where g: "geometry (hdr_of d2 PRIMARY_GPT) = Some (sz, lba, cnt, psz)"
    "entries_at d2 PRIMARY_GPT = unat (lba * ucast (dev_blk d2))"
    "sint (lba * ucast (dev_blk d2)) = int (unat (lba * ucast (dev_blk d2)))" "entries_len d2 = unat (cnt * psz)"
    by (rule layoutE [OF wh(1)])
  note l2 = layoutD [OF wh(1)]
  obtain d3 where d3: "gpt_get_block_size e d2 = (dev_blk d2, d3)" "same_dev d2 d3" by (rule block_size_works [OF assms(2)])
  have la: "length a = entries_len d2"
    using assms(4,5) wh(2) by (simp add: entries_len_def)
  obtain b4 d4 where d4: "blk_rw e True (int (entries_at d2 PRIMARY_GPT)) a (entries_len d2) d3 = Some (0, b4, d4)"
    "dev_blk d4 = dev_blk d2" "dev_bytes d4 = splice_at (entries_at d2 PRIMARY_GPT) a (dev_bytes d2)"
    by (rule write_works [OF assms(2) same_dev_region [OF d3(2) l2(6) [of PRIMARY_GPT]] l2(7) la])
      (use d3(2) in \<open>simp add: same_dev_def\<close>)
  have set2: "gpt_set_pentry_arr e h a d2 = Some (0, d4)"
    using d3(1) d4(1) layout_blk [OF wh(1)] geometry_parts [OF g(1)] g(2-4) wh(2) by (simp add: gpt_set_pentry_arr_def)
  obtain q d5 where d5: "os_fsync e d4 = (q, d5)" by force
  then have s5: "same_dev d4 d5" by (auto simp: os_fsync_def sys_call_def same_dev_def)
  note we = write_entries [OF wh(1) la d4(2,3)] and sm = same_dev_layout [OF s5]
  show ?thesis
    by (rule that [of d5]) (use set1 set2 d5 wh we sm in \<open>simp_all add: commit_to_def\<close>)
qed

text \<open>The partition is found, on the disk \<open>p\<close>.\<close>

definition resolves :: "host \<Rightarrow> string \<Rightarrow> string \<Rightarrow> bool" where
  "resolves h part p \<longleftrightarrow>
     (\<exists>b. get_dev_path_from_partition_name h part (replicate PATH_MAX NUL) = (0, b) \<and> cstr b = p)"

lemma get_header_works:
  assumes "works (dev_env h)" "layout d" "devs p = Some d"
    and "resolves h part p"
  obtains d' where "gpt_get_header h part PRIMARY_GPT devs = Some (Some (hdr_of d PRIMARY_GPT), devs(p \<mapsto> d'))" "same_dev d d'"
proof -
  obtain b where b: "get_dev_path_from_partition_name h part (replicate PATH_MAX NUL) = (0, b)" "cstr b = p"
    using assms(4) by (auto simp: resolves_def)
  show ?thesis
    by (rule read_header_works [OF assms(2,1)]) (use b assms(3) that in \<open>auto simp: gpt_get_header_def\<close>)
qed

lemma fill_disk_works:
  assumes "works e" "layout d" "hdr disk = Some (hdr_of d PRIMARY_GPT)" "hdr_bak disk = Some (hdr_of d PRIMARY_GPT)"
  obtains disk' d' where "fill_disk e disk (hdr_of d PRIMARY_GPT) (hdr_of d PRIMARY_GPT) d = Some (0, disk', d')"
    "handle_ok disk' (hdr_of d PRIMARY_GPT) (hdr_of d PRIMARY_GPT) (entries_of d PRIMARY_GPT) (entries_of d PRIMARY_GPT)"
    "devpath disk' = devpath disk" "same_dev d d'"
proof -
  note l = layoutD [OF assms(2)]
  obtain d1 where d1: "gpt_get_pentry_arr e (hdr_of d PRIMARY_GPT) d = Some (Some (entries_of d PRIMARY_GPT), d1)" "same_dev d d1"
    by (rule read_pentry_works [OF assms(2,1)])
  note s1 = same_dev_layout [OF d1(2)]
  have ly1: "layout d1" using s1 assms(2) by simp
  obtain d2 where d2: "gpt_get_pentry_arr e (hdr_of d PRIMARY_GPT) d1 = Some (Some (entries_of d PRIMARY_GPT), d2)" "same_dev d1 d2"
    by (rule read_pentry_works [OF ly1 assms(1)]) (simp add: s1)
  obtain d3 where d3: "gpt_get_block_size e d2 = (dev_blk d2, d3)" "same_dev d2 d3" by (rule block_size_works [OF assms(1)])
  obtain sz lba cnt psz where g: "geometry (hdr_of d PRIMARY_GPT) = Some (sz, lba, cnt, psz)" "entries_len d = unat (cnt * psz)"
    by (rule layoutE [OF assms(2)])
  obtain c where c: "GET_4_BYTES (hdr_of d PRIMARY_GPT) PARTITION_CRC_OFFSET = Some c"
    using GET_4_ok [of PARTITION_CRC_OFFSET "hdr_of d PRIMARY_GPT"] l(1) l(5) by (auto simp: gpt_offsets)
  have s: "same_dev d d3" using d1(2) d2(2) d3(2) by (meson same_dev_trans)
  let ?disk = "disk\<lparr>pentry_arr := Some (entries_of d PRIMARY_GPT), pentry_arr_bak := Some (entries_of d PRIMARY_GPT),
    pentry_size := psz, pentry_arr_size := cnt * psz, pentry_arr_crc := c,
    pentry_arr_bak_crc := c, block_size := dev_blk d2, is_initialized := GPT_DISK_INIT_MAGIC\<rparr>"
  have "fill_disk e disk (hdr_of d PRIMARY_GPT) (hdr_of d PRIMARY_GPT) d = Some (0, ?disk, d3)"
    using d1(1) d2(1) d3(1) geometry_parts [OF g(1)] c by (simp add: fill_disk_def)
  moreover have "handle_ok ?disk (hdr_of d PRIMARY_GPT) (hdr_of d PRIMARY_GPT) (entries_of d PRIMARY_GPT) (entries_of d PRIMARY_GPT)"
    using assms(3,4) l(1) l(5) l(12) g(2) by (simp add: handle_ok_def)
  ultimately show ?thesis by (rule that [OF _ _ _ s]) simp
qed

text \<open>
  C22. Changing a table with the handle. Let no call fail, the partition be found on the disk \<open>p\<close>, and the
  tables of that disk be laid out. Read from there, given other entries of the same length, its checksums
  renewed and written back, the primary table has the new entries and right checksums: it can be booted
  from exactly if its signature was right. The backup table is not written (nor read: the handle's backup
  is a copy of the primary one), and no other disk is touched.
\<close>

theorem gpt_disk_cycle:
  assumes "works (dev_env h)" "layout d" "devs p = Some d"
    and "resolves h part p"
    and "length a = entries_len d"
  shows "\<exists>disk devs1 disk2 devs2 d2.
    gpt_disk_get_disk_info h part gpt_disk_alloc devs = Some (0, disk, devs1)
    \<and> handle_ok disk (hdr_of d PRIMARY_GPT) (hdr_of d PRIMARY_GPT) (entries_of d PRIMARY_GPT) (entries_of d PRIMARY_GPT)
    \<and> gpt_disk_update_crc (dev_env h) (disk\<lparr>pentry_arr := Some a\<rparr>) = Some (0, disk2)
    \<and> gpt_disk_commit h disk2 devs1 = Some (0, devs2) \<and> devs2 p = Some d2
    \<and> entries_of d2 PRIMARY_GPT = a \<and> bootable (dev_env h) d2 PRIMARY_GPT = signed_ok (hdr_of d PRIMARY_GPT)
    \<and> hdr_of d2 SECONDARY_GPT = hdr_of d SECONDARY_GPT \<and> entries_of d2 SECONDARY_GPT = entries_of d SECONDARY_GPT
    \<and> (\<forall>q. q \<noteq> p \<longrightarrow> devs2 q = devs q)"
proof -
  let ?e = "dev_env h" and ?h1 = "hdr_of d PRIMARY_GPT" and ?a1 = "entries_of d PRIMARY_GPT"
  note l = layoutD [OF assms(2)]
  obtain sz lba cnt psz where g: "geometry ?h1 = Some (sz, lba, cnt, psz)" "unat sz \<le> unat (dev_blk d)"
    by (rule layoutE [OF assms(2)])
  have sz: "GET_4_BYTES ?h1 HEADER_SIZE_OFFSET = Some sz" "unat sz \<le> length ?h1"
    using geometry_parts(1) [OF g(1)] g(2) l(5) by simp_all
  then obtain c where c: "crc_of ?e ?h1 (unat sz) = Some c" by (simp add: crc_of_def)
  obtain d1 where d1: "gpt_get_header h part PRIMARY_GPT devs = Some (Some ?h1, devs(p \<mapsto> d1))" "same_dev d d1"
    by (rule get_header_works [where h = h and d = d and devs = devs and p = p and part = part]) (use assms in auto)
  note s1 = same_dev_layout [OF d1(2)]
  obtain d2 where d2: "gpt_get_header h part PRIMARY_GPT (devs(p \<mapsto> d1)) = Some (Some ?h1, devs(p \<mapsto> d2))" "same_dev d1 d2"
    by (rule get_header_works [where h = h and d = d1 and devs = "devs(p \<mapsto> d1)" and p = p and part = part])
      (use assms s1 in auto)
  note s2 = same_dev_layout [OF same_dev_trans [OF d1(2) d2(2)]]
  obtain b where b: "get_dev_path_from_partition_name h part (replicate PATH_MAX NUL) = (0, b)" "cstr b = p"
    using assms(4) by (auto simp: resolves_def)
  define disk0 where "disk0 = gpt_disk_alloc\<lparr>hdr := Some ?h1, hdr_crc := c, hdr_bak := Some ?h1, hdr_bak_crc := c, devpath := b\<rparr>"
  have ly2: "layout d2" "hdr disk0 = Some (hdr_of d2 PRIMARY_GPT)" "hdr_bak disk0 = Some (hdr_of d2 PRIMARY_GPT)" "devpath disk0 = b"
    using s2 assms(2) by (simp_all add: disk0_def)
  obtain disk d3 where d3: "fill_disk ?e disk0 ?h1 ?h1 d2 = Some (0, disk, d3)" "handle_ok disk ?h1 ?h1 ?a1 ?a1"
    "devpath disk = b" "same_dev d2 d3"
    by (rule fill_disk_works [OF assms(1) ly2(1-3)]) (simp add: s2 ly2(4))
  have sd3: "same_dev d d3" using d1(2) d2(2) d3(4) by (meson same_dev_trans)
  note s3 = same_dev_layout [OF sd3] and at3 = same_dev_at [OF sd3]
  have info: "gpt_disk_get_disk_info h part gpt_disk_alloc devs = Some (0, disk, devs(p \<mapsto> d3))"
    using d1(1) d2(1) sz c b d3(1)
    by (simp add: gpt_disk_get_disk_info_def gpt_disk_alloc_def disk0_def)
  have ok: "handle_ok (disk\<lparr>pentry_arr := Some a\<rparr>) ?h1 ?h1 a ?a1"
    using d3(2) assms(5) l(12) by (simp add: handle_ok_def)
  obtain h1' h2' disk2 where u: "gpt_disk_update_crc ?e (disk\<lparr>pentry_arr := Some a\<rparr>) = Some (0, disk2)"
    "handle_ok disk2 h1' h2' a ?a1" "header_for ?e a ?h1 h1'" "devpath disk2 = b"
    by (rule update_crc_run [OF ok sz(1) sz(1) sz(2) sz(2), of ?e]) (use d3(3) in simp)
  have new: "length h1' = unat (dev_blk d3)" "geometry h1' = geometry (hdr_of d3 PRIMARY_GPT)"
    using u(3) l(5) s3 at3 by (simp_all add: header_for_def)
  have ly3: "layout d3" "length a = entries_len d3" using s3 assms(2,5) at3 by simp_all
  obtain d4 where d4: "commit_to ?e h1' a d3 = Some (0, d4)" "hdr_of d4 PRIMARY_GPT = h1'" "entries_of d4 PRIMARY_GPT = a"
    "hdr_of d4 SECONDARY_GPT = hdr_of d3 SECONDARY_GPT" "entries_of d4 SECONDARY_GPT = entries_of d3 SECONDARY_GPT"
    by (rule commit_works [OF ly3(1) assms(1) new ly3(2)])
  have com: "gpt_disk_commit h disk2 (devs(p \<mapsto> d3)) = Some (0, devs(p \<mapsto> d4))"
    using u(2,4) b(2) d4(1) by (simp add: gpt_disk_commit_def handle_ok_def)
  have boot: "bootable ?e d4 PRIMARY_GPT = signed_ok ?h1"
    using u(3) d4(2,3) by (simp add: bootable_def entries_crc_ok_def header_for_def)
  show ?thesis
    by (intro exI conjI) (rule info d3(2) u(1) com boot | simp add: d4 s3)+
qed

lemma sample_path: "resolves sample_host part ''/dev/mmcblk0''"
  by (simp add: resolves_def get_dev_path_from_partition_name_def sample_host_def gpt_utils_is_ufs_device_def
      PATH_TRUNCATE_LOC_def PATH_MAX_def snprintf_def splice_at_def cstr_Cons)

theorem gpt_disk_cycle_witness:
  "\<exists>disk devs1 disk2 devs2 d2. gpt_disk_get_disk_info sample_host ''abl'' gpt_disk_alloc [''/dev/mmcblk0'' \<mapsto> sample_dev] = Some (0, disk, devs1)
    \<and> gpt_disk_update_crc sum_env (disk\<lparr>pentry_arr := Some (replicate 256 (CHR ''x''))\<rparr>) = Some (0, disk2)
    \<and> gpt_disk_commit sample_host disk2 devs1 = Some (0, devs2) \<and> devs2 ''/dev/mmcblk0'' = Some d2
    \<and> entries_of d2 PRIMARY_GPT = replicate 256 (CHR ''x'') \<and> bootable sum_env d2 PRIMARY_GPT"
proof -
  have e: "dev_env sample_host = sum_env" by (simp add: sample_host_def)
  have len: "length (replicate 256 (CHR ''x'')) = entries_len sample_dev"
    by (simp add: entries_len_def sample_hdr sample_geometry)
  have sig: "signed_ok (hdr_of sample_dev PRIMARY_GPT)" using sample_bootable [of PRIMARY_GPT] by (simp add: bootable_def)
  have dev: "[''/dev/mmcblk0'' \<mapsto> sample_dev] ''/dev/mmcblk0'' = Some sample_dev" by simp
  have w: "works (dev_env sample_host)" using sample_works by (simp add: e)
  show ?thesis
    using gpt_disk_cycle [of sample_host sample_dev "[''/dev/mmcblk0'' \<mapsto> sample_dev]" "''/dev/mmcblk0''" "''abl''"
        "replicate 256 (CHR ''x'')", OF w sample_layout dev sample_path len]
    unfolding e by (elim exE conjE) (intro exI conjI; (assumption | simp add: sig))
qed

definition sample_disk :: gpt_disk where
  "sample_disk = gpt_disk_alloc\<lparr>hdr := Some (sample_header (CHR 0x02) (replicate 4 NUL)), hdr_bak := Some (sample_header (CHR 0x05) (replicate 4 NUL)),
     pentry_arr := Some sample_entries, pentry_arr_bak := Some sample_entries, pentry_arr_size := 256, is_initialized := GPT_DISK_INIT_MAGIC\<rparr>"

theorem gpt_disk_update_crc_spec_witness:
  "\<exists>h1 disk. gpt_disk_update_crc sum_env sample_disk = Some (0, disk) \<and> hdr disk = Some h1 \<and> crc_ok sum_env h1"
proof -
  have size: "GET_4_BYTES (sample_header (CHR 0x02) (replicate 4 NUL)) HEADER_SIZE_OFFSET = Some 92"
    "GET_4_BYTES (sample_header (CHR 0x05) (replicate 4 NUL)) HEADER_SIZE_OFFSET = Some 92" by code_simp+
  have "handle_ok sample_disk (sample_header (CHR 0x02) (replicate 4 NUL)) (sample_header (CHR 0x05) (replicate 4 NUL)) sample_entries sample_entries"
    by (simp add: handle_ok_def sample_disk_def sample_header_length sample_entries_length)
  then obtain h1' h2' disk where "gpt_disk_update_crc sum_env sample_disk = Some (0, disk)"
    "handle_ok disk h1' h2' sample_entries sample_entries"
    "header_for sum_env sample_entries (sample_header (CHR 0x02) (replicate 4 NUL)) h1'"
    using gpt_disk_update_crc_spec [of sample_disk "sample_header (CHR 0x02) (replicate 4 NUL)"
        "sample_header (CHR 0x05) (replicate 4 NUL)" sample_entries sample_entries 92 sum_env] size
    by (auto simp: sample_header_length)
  then show ?thesis by (auto simp: handle_ok_def header_for_def)
qed

end
