(* ===== verification/Gpt_Luns.thy ===== *)
theory Gpt_Luns
  imports Gpt_Disk
begin

text \<open>
  The update over all disks: \<open>prepare_boot_update\<close> collects the disks that hold backups of boot
  partitions, each once, and runs the stage on each; \<open>gpt_utils_get_partition_map\<close> groups
  partitions by disk.
\<close>

section \<open>The list of disks\<close>

definition MAX_LUNS :: nat where "MAX_LUNS = 26"

text \<open>The list has room for \<open>MAX_LUNS\<close> paths; the search is skipped when one place is left.\<close>

definition add_lun_to_update_list :: "host \<Rightarrow> string \<Rightarrow> string list \<Rightarrow> (int \<times> string list) option" where
  "add_lun_to_update_list h lun_path dat =
     (if \<not> path_exists h lun_path then Some (-1, dat)
      else if dat = [] then Some (0, [lun_path])
      else if length dat < MAX_LUNS - 1 \<and> list_ex (\<lambda>l. strneq (length l) lun_path l) dat then Some (0, dat)
      else if length dat < MAX_LUNS then Some (0, dat @ [lun_path])
      else None)"

text \<open>The disk of the backup of a partition: the link, cut after \<open>/dev/block/sdX\<close>.\<close>

definition backup_lun :: "host \<Rightarrow> string \<Rightarrow> string option" where
  "backup_lun h ptn =
     (if strneq (length PTN_XBL) ptn PTN_XBL then None
      else let path = snprintf PATH_MAX (BOOT_DEV_DIR @ ''/'' @ ptn @ ''bak'')
      in if \<not> path_exists h path then None
         else case link_of h path of
           None \<Rightarrow> None
         | Some target \<Rightarrow>
             let real_path = cstr (take (PATH_MAX - 1) target)
             in if length real_path < PATH_TRUNCATE_LOC + 1 then None else Some (take PATH_TRUNCATE_LOC real_path))"

fun collect_luns :: "host \<Rightarrow> string list \<Rightarrow> string list \<Rightarrow> string list option" where
  "collect_luns h [] dat = Some dat"
| "collect_luns h (ptn # ptns) dat =
     (case backup_lun h ptn of
        None \<Rightarrow> collect_luns h ptns dat
      | Some lun \<Rightarrow> do { (_, dat) \<leftarrow> add_lun_to_update_list h lun dat; collect_luns h ptns dat })"

fun prepare_luns :: "host \<Rightarrow> boot_update_stage \<Rightarrow> string list \<Rightarrow> bool \<Rightarrow> devices \<Rightarrow> boot_luns \<Rightarrow>
    (bool \<times> devices \<times> boot_luns) option" where
  "prepare_luns h stage [] is_error devs luns = Some (is_error, devs, luns)"
| "prepare_luns h stage (p # ps) is_error devs luns =
     do { (rcode, dev, luns) \<leftarrow> prepare_partitions h stage (devs p) luns;
          prepare_luns h stage ps (rcode \<noteq> 0 \<or> is_error) (devs(p := dev)) luns }"

definition prepare_boot_update :: "host \<Rightarrow> boot_update_stage \<Rightarrow> devices \<Rightarrow> boot_luns \<Rightarrow>
    (int \<times> devices \<times> boot_luns) option" where
  "prepare_boot_update h stage devs luns =
     (if \<not> gpt_utils_is_ufs_device (bootdevice h) then do {
        (r, dev, luns) \<leftarrow> prepare_partitions h stage (devs BLK_DEV_FILE) luns;
        Some (r, devs(BLK_DEV_FILE := dev), luns) }
      else do {
        dat \<leftarrow> collect_luns h PTN_SWAP_LIST [];
        (is_error, devs, luns) \<leftarrow> prepare_luns h stage dat False devs luns;
        Some (if is_error then -1 else 0, devs, luns) })"

section \<open>Each disk once\<close>

lemma strneq_same_length:
  "length a = length b \<Longrightarrow> NUL \<notin> set a \<Longrightarrow> NUL \<notin> set b \<Longrightarrow> strneq (length b) a b \<longleftrightarrow> a = b"
proof (induction a b rule: list_induct2')
  case (4 x xs y ys)
  then show ?case by auto
qed auto

lemma backup_lun_form:
  "backup_lun h ptn = Some l \<Longrightarrow> length l = PATH_TRUNCATE_LOC \<and> NUL \<notin> set l"
  using NUL_notin_cstr in_set_takeD
  by (fastforce simp: backup_lun_def Let_def split: if_splits option.splits)

definition lun_list_ok :: "string list \<Rightarrow> bool" where
  "lun_list_ok dat \<longleftrightarrow> distinct dat \<and> (\<forall>l\<in>set dat. length l = PATH_TRUNCATE_LOC \<and> NUL \<notin> set l)"

lemma add_lun_ok:
  assumes "lun_list_ok dat" "length l = PATH_TRUNCATE_LOC" "NUL \<notin> set l" "length dat < MAX_LUNS - 1"
  shows "\<exists>r. add_lun_to_update_list h l dat = Some (r, if path_exists h l \<and> l \<notin> set dat then dat @ [l] else dat)"
proof -
  have "strneq (length x) l x \<longleftrightarrow> l = x" if "x \<in> set dat" for x
    using assms that by (intro strneq_same_length) (auto simp: lun_list_ok_def)
  then have "list_ex (\<lambda>x. strneq (length x) l x) dat \<longleftrightarrow> l \<in> set dat" by (auto simp: list_ex_iff)
  then show ?thesis using assms(4) by (auto simp: add_lun_to_update_list_def)
qed

lemma collect_luns_ok:
  assumes "lun_list_ok dat" "length dat + length ptns < MAX_LUNS"
  shows "\<exists>dat'. collect_luns h ptns dat = Some dat' \<and> lun_list_ok dat' \<and> length dat' \<le> length dat + length ptns
    \<and> set dat' = set dat \<union> {l. path_exists h l \<and> (\<exists>p\<in>set ptns. backup_lun h p = Some l)}"
  using assms
proof (induction ptns arbitrary: dat)
  case (Cons p ptns)
  show ?case
  proof (cases "backup_lun h p")
    case None
    then show ?thesis using Cons.IH [OF Cons.prems(1)] Cons.prems(2) by fastforce
  next
    case (Some l)
    note f = backup_lun_form [OF Some]
    let ?d = "if path_exists h l \<and> l \<notin> set dat then dat @ [l] else dat"
    have a: "\<exists>r. add_lun_to_update_list h l dat = Some (r, ?d)"
      using add_lun_ok [OF Cons.prems(1), of l h] f Cons.prems(2) by (simp add: MAX_LUNS_def)
    have "lun_list_ok ?d" "length ?d + length ptns < MAX_LUNS" "length ?d \<le> Suc (length dat)"
      using Cons.prems f by (auto simp: lun_list_ok_def)
    then show ?thesis using Cons.IH [of ?d] a Some by fastforce
  qed
qed simp

text \<open>
  The list of disks of an update names each disk with a backup of a boot partition, and
  exactly those, once, and never more than fit.
\<close>

theorem collect_luns_spec:
  "\<exists>dat. collect_luns h PTN_SWAP_LIST [] = Some dat \<and> distinct dat \<and> length dat < MAX_LUNS
    \<and> set dat = {l. path_exists h l \<and> (\<exists>p\<in>set PTN_SWAP_LIST. backup_lun h p = Some l)}"
  using collect_luns_ok [of "[]" PTN_SWAP_LIST h]
  by (auto simp: lun_list_ok_def PTN_SWAP_LIST_def MAX_LUNS_def)

section \<open>The update on all disks\<close>

definition all_inv :: "gpt_env \<Rightarrow> devices \<Rightarrow> bool" where
  "all_inv e devs \<longleftrightarrow> (\<forall>p d. devs p = Some d \<longrightarrow> update_inv e d)"

lemma prepare_dev:
  assumes "all_inv e devs" "no_short e" "dev_env h = e"
  shows "\<exists>r dev luns'. prepare_partitions h stage (devs p) luns = Some (r, dev, luns')
    \<and> all_inv e (devs(p := dev)) \<and> dom (devs(p := dev)) = dom devs"
proof (cases "devs p")
  case None
  then have "devs(p := None) = devs" by auto
  then show ?thesis using None assms(1) by (simp add: prepare_partitions_def del: dom_fun_upd)
next
  case (Some d)
  then show ?thesis using prepare_partitions_inv [of e d h stage luns] assms
    by (auto simp: all_inv_def)
qed

lemma prepare_luns_inv:
  assumes "all_inv e devs" "no_short e" "dev_env h = e"
  shows "\<exists>r devs' luns'. prepare_luns h stage ps err devs luns = Some (r, devs', luns') \<and> all_inv e devs' \<and> dom devs' = dom devs"
  using assms(1)
proof (induction ps arbitrary: err devs luns)
  case (Cons p ps)
  obtain r dev luns' where p: "prepare_partitions h stage (devs p) luns = Some (r, dev, luns')"
    "all_inv e (devs(p := dev))" "dom (devs(p := dev)) = dom devs"
    using prepare_dev [OF Cons.prems assms(2,3)] by metis
  then show ?case using Cons.IH [OF p(2)] by fastforce
qed simp

text \<open>
  C30. Let every disk satisfy what C1 asks of one (\<open>all_inv\<close>: both tables laid out, whole entries and right
  checksums in the primary one, one of the two to boot from), and no read or write stop half way. Then
  the update of all disks is defined, no disk disappears, and afterwards every disk satisfies it again
  and so has a table to boot from, whichever calls fail.
\<close>

theorem prepare_boot_update_failsafe:
  assumes "all_inv (dev_env h) devs" "no_short (dev_env h)"
  shows "\<exists>r devs' luns'. prepare_boot_update h stage devs luns = Some (r, devs', luns')
    \<and> all_inv (dev_env h) devs' \<and> dom devs' = dom devs
    \<and> (\<forall>p d. devs' p = Some d \<longrightarrow> bootable (dev_env h) d PRIMARY_GPT \<or> bootable (dev_env h) d SECONDARY_GPT)"
proof -
  obtain dat where dat: "collect_luns h PTN_SWAP_LIST [] = Some dat"
    using collect_luns_ok [of "[]" PTN_SWAP_LIST h] by (auto simp: lun_list_ok_def PTN_SWAP_LIST_def MAX_LUNS_def)
  have "\<exists>r devs' luns'. prepare_boot_update h stage devs luns = Some (r, devs', luns')
      \<and> all_inv (dev_env h) devs' \<and> dom devs' = dom devs"
    using prepare_dev [OF assms refl, of stage BLK_DEV_FILE luns] prepare_luns_inv [OF assms refl, of stage dat False luns] dat
    by (auto simp: prepare_boot_update_def)
  then show ?thesis using update_inv_bootable unfolding all_inv_def by meson
qed

theorem prepare_boot_update_failsafe_witness:
  "\<exists>r devs' luns'. prepare_boot_update sample_host UPDATE_MAIN [BLK_DEV_FILE \<mapsto> sample_dev] [] = Some (r, devs', luns')
    \<and> dom devs' = {BLK_DEV_FILE}"
proof -
  have "all_inv (dev_env sample_host) [BLK_DEV_FILE \<mapsto> sample_dev]" "no_short (dev_env sample_host)"
    using sample_inv works_no_short [OF sample_works] by (simp_all add: all_inv_def sample_host_def)
  then show ?thesis using prepare_boot_update_failsafe [of sample_host "[BLK_DEV_FILE \<mapsto> sample_dev]" UPDATE_MAIN "[]"] by auto
qed

section \<open>Partitions by disk\<close>

definition add_partition :: "host \<Rightarrow> string \<Rightarrow> (string \<Rightarrow> string list option) \<Rightarrow> (string \<Rightarrow> string list option)" where
  "add_partition h ptn m =
     (case get_dev_path_from_partition_name h ptn (replicate PATH_MAX NUL) of (r, buf) \<Rightarrow>
        if r \<noteq> 0 then m
        else let path = cstr buf in
          case m path of Some v \<Rightarrow> m(path \<mapsto> v @ [ptn]) | None \<Rightarrow> m(path \<mapsto> [ptn]))"

definition gpt_utils_get_partition_map :: "host \<Rightarrow> string list \<Rightarrow> (string \<Rightarrow> string list option) \<Rightarrow>
    int \<times> (string \<Rightarrow> string list option)" where
  "gpt_utils_get_partition_map h ptn_list m = (if ptn_list = [] then (-1, m) else (0, fold (add_partition h) ptn_list m))"

definition disk_of :: "host \<Rightarrow> string \<Rightarrow> string option" where
  "disk_of h ptn =
     (case get_dev_path_from_partition_name h ptn (replicate PATH_MAX NUL) of (r, b) \<Rightarrow> if r = 0 then Some (cstr b) else None)"

definition on_disk :: "string list option \<Rightarrow> string list \<Rightarrow> string list option" where
  "on_disk old new = (if new = [] then old else Some ((case old of None \<Rightarrow> [] | Some v \<Rightarrow> v) @ new))"

lemma add_partition_at:
  "add_partition h ptn m p = (if disk_of h ptn = Some p then on_disk (m p) [ptn] else m p)"
  by (auto simp: add_partition_def disk_of_def on_disk_def Let_def split: option.split prod.split)

lemma on_disk_append: "on_disk (on_disk old a) b = on_disk old (a @ b)"
  by (simp add: on_disk_def)

lemma fold_add_partition:
  "fold (add_partition h) ptns m p = on_disk (m p) (filter (\<lambda>x. disk_of h x = Some p) ptns)"
proof (induction ptns arbitrary: m)
  case Nil
  then show ?case by (simp add: on_disk_def)
next
  case (Cons x ptns)
  then show ?case using on_disk_append [of "m p" "[x]"] by (simp add: add_partition_at)
qed

text \<open>
  The partition map: under each disk, after what was there, the partitions of the list that
  are on that disk, in the order of the list; a disk without one gets no entry.
\<close>

theorem gpt_utils_get_partition_map_spec:
  "fst (gpt_utils_get_partition_map h ptns m) = (if ptns = [] then -1 else 0)
    \<and> snd (gpt_utils_get_partition_map h ptns m) p = on_disk (m p) (filter (\<lambda>x. disk_of h x = Some p) ptns)"
  by (simp add: gpt_utils_get_partition_map_def fold_add_partition on_disk_def)

end
