(* ===== verification/Spec2Isabelle.thy ===== *)
theory Spec2Isabelle
  imports Printbuf Arraylist Linkhash Lookup3 Json_Value Tokener_Depth Json_Iterator Json_File Random_Seed Media_Info Hdmi_Modes Video_Formats Header_Fields Recharge Vibrator Modem_Thread Usb_Gadget Usb_Port Gpt_Luns
begin

text \<open>
  Verification of the device tree for crosshatch and blueline (\<open>TeamWin/android_device_google_crosshatch\<close>).
  Most of the tree is configuration and kernel headers. The programs in it with logic of their
  own are a JSON library in C (\<open>src/json-c\<close>), the partition table utilities (\<open>src/gpt-utils\<close>), the
  two USB services (\<open>src/usb\<close>), the vibrator service (\<open>src/vibrator\<close>), the battery recharging control
  of the health service (\<open>src/health\<close>), the archive of modem logs (\<open>src/dumpstate\<close>), and functions and
  tables in the headers of the video, display and camera drivers (\<open>src/sdm845/kernel-headers\<close>).

  \<^bold>\<open>Conventions.\<close> A C function is a HOL function over explicit state. An \<open>option\<close> around the result
  is the C standard's undefined behaviour: \<open>None\<close> where the code overflows a signed integer, reads
  or writes outside an object, reads memory never written, or uses a null pointer. Errors the code
  reports are values. \<open>int\<close> arithmetic goes through \<open>i32\<close>, unsigned integers are words. What the code
  calls in libraries and the kernel is an argument: allocation is a predicate on the size, the
  number conversions of libc are in the record \<open>libc\<close>, the kernel's view of a block device,
  with the calls that fail, is \<open>gpt_env\<close>, what the kernel makes of a write to one of its files is
  \<open>kernel\<close>, and how much each \<open>read\<close> and \<open>write\<close> moves is a function of the number of the call.
  \<open>C_Prelude\<close> holds what the theories share, \<open>Floats\<close> the rounding of the two floating point services.

  \<^bold>\<open>JSON library.\<close> The parts call each other from top to bottom.
  \<^item> \<open>Json_Tokener\<close> (\<open>json_tokener.c\<close>): the parser as a state machine, one \<open>step_\<close> function per case of
    the \<open>switch\<close> in \<open>json_tokener_parse_ex\<close>, the character macros, the unicode escapes and the loop.
    \<open>Tokener_Run\<close> shows how runs of it compose. The loop is a \<open>partial_function\<close>, so no bound is
    chosen and not returning is \<open>None\<close>. \<open>Tokener_Steps\<close>: every state, on any input, leaves a
    well-formed tokener and lowers a potential. \<open>Tokener_Safe\<close>: so a call with a length returns and
    reads nothing outside the input; it also holds inputs that go wrong. \<open>Tokener_Depth\<close>: the limit
    on the depth. Every allocation of the parser may fail (\<open>memory_use\<close>). The code looks at some of them
    only: \<open>mem_safe\<close> asks that the others succeed, and \<open>no_memory_undefined\<close> shows what happens if not.
  \<^item> \<open>Json_Serialize\<close> (\<open>json_object.c\<close>): printing with every flag, string escaping and the text of
    doubles. \<open>Json_Roundtrip\<close>: parsing what was printed gives the value back,
    for every value the parser makes but \<open>-Infinity\<close>, which it does not always read.
  \<^item> \<open>Json_Heap\<close>, \<open>Json_Object\<close>, \<open>Json_Client\<close> (\<open>json_object.c\<close>): the objects in memory. A store maps addresses to
    tagged cells with reference counts. \<open>Json_Heap\<close> has get and put, the invariant that every count is
    the number of references from cells and from the caller, and that put returns; \<open>Json_Object\<close>
    the constructors and the calls on objects and arrays; \<open>Json_Client\<close> the values cells stand for and
    the safety of whole programs, for any failing allocation the library looks at (\<open>memory_ok\<close> names the
    two it does not). \<open>Json_Iterator\<close> (\<open>json_object_iterator.c\<close>): iteration over fields.
    The parser and the printer work on values, not on cells.
  \<^item> \<open>Json_Value\<close> (\<open>json_object.c\<close>): the values, their constructors and the accessors with
    conversion. \<open>Decimal\<close> is a decimal notation for doubles in the examples.
  \<^item> \<open>Json_Util\<close> (\<open>json_util.c\<close>): integer parsing with the workaround for a broken \<open>sscanf\<close>. \<open>Json_File\<close>
    (\<open>json_util.c\<close>): files; what is written is read back, however the calls cut it.
  \<^item> \<open>Linkhash\<close> (\<open>linkhash.c\<close>): the open addressing table with insertion order, refined to an ordered
    map, with the locale of an ordered map as its interface; \<open>Lookup3\<close>: the hash of the keys;
    \<open>Random_Seed\<close> (\<open>random_seed.c\<close>): where its seed comes from.
  \<^item> \<open>Arraylist\<close> (\<open>arraylist.c\<close>) and \<open>Printbuf\<close> (\<open>printbuf.c\<close>): the containers, with what they refine.

  \<^bold>\<open>Partition tables.\<close> \<open>Gpt_Device\<close>: bytes, system calls, \<open>blk_rw\<close>. \<open>Gpt_Table\<close>: search and swap of
  entries. \<open>Gpt_Update\<close>: the states of the two headers and the stages of the fail-safe update as in
  \<open>prepare_partitions\<close>. \<open>Gpt_Failsafe\<close>: the layout of a device and what each write does to it.
  \<open>Gpt_Stages\<close>: the invariant, kept by any sequence of stages with any failures, and the protocol
  when nothing fails, on UFS with its boot LUNs and on other devices. \<open>Gpt_Disk\<close>: the \<open>gpt_disk\<close>
  functions. \<open>Gpt_Luns\<close>: the update of all disks and the partition map. A write is assumed to be whole
  or not to happen; \<open>torn_write\<close> shows that the code would not notice otherwise. The invariant asks for
  right checksums in the primary table: the code signs its header without looking at its entries, and
  \<open>damaged_primary\<close> is a device it leaves without a table. \<open>oversized_header\<close> and \<open>wiped_header\<close> are headers
  that are not refused.

  \<^bold>\<open>USB.\<close> \<open>Usb_Gadget\<close> (\<open>UsbGadget.cpp\<close>): setting the functions of the gadget, with the thread that
  watches the endpoints interleaved at each system call by a schedule; the sleeps are left out. What is
  answered is what the gadget is, for any failures and any schedule. \<open>Usb_Port\<close> (\<open>Usb.cpp\<close>): the status
  of the ports from the kernel's files, role switches as the sequence of what can end their wait, and
  the handler of events that may run in between.

  \<^bold>\<open>Vibrator and battery.\<close> \<open>Vibrator\<close> (\<open>Vibrator.cpp\<close>, \<open>impl.cpp\<close>): streams to the driver's files, effects,
  amplitude and calibration. \<open>Recharge\<close> (\<open>BatteryRechargingControl.cpp\<close>): the state machine that keeps the
  level shown at 100 while recharging, with sequences of updates, and \<open>remap_run\<close> as the states of one
  remapping with the time it was entered. Doubles and floats are rationals, rounded to the nearest
  after each operation.

  \<^bold>\<open>Modem logs.\<close> \<open>Modem_Logs\<close> (\<open>DumpstateDevice.cpp\<close>): copying, the choice of the newest logs, and the tar
  file, which a reader of the format takes apart again. \<open>Modem_Thread\<close> is the thread around them: which
  logs it collects, in which order it sets properties, and that it sends an archive of just these logs.

  \<^bold>\<open>Headers.\<close> \<open>Media_Info\<close> (\<open>msm_media_info.h\<close>): strides, scanlines and sizes of every colour format on
  32-bit words and what the code means by them as numbers, up to 16384 by 16384; the layout comments
  of three formats say otherwise. \<open>Hdmi_Modes\<close> (\<open>msm_hdmi_modes.h\<close>): the
  timing of every HDMI mode and the macros that fill a table with them. \<open>Video_Formats\<close>
  (\<open>videodev2.h\<close>): the codes of the pixel formats. \<open>Header_Fields\<close>: macros that pack fields into words.

  \<^bold>\<open>Not modelled.\<close> The debug output of the JSON library; the services that only hand data to a library
  or register interfaces (health, power and pixel statistics, recovery, keymaster, the list of commands
  of dumpstate); and the declarations of the kernel headers. \<open>original-kernel-headers\<close> holds the same
  declarations and functions as \<open>kernel-headers\<close> once more.
\<close>

end
